(* ===== verification/Prelude.thy ===== *)
theory Prelude
  imports Main "HOL-Library.AList" "HOL-Library.Multiset"
begin

text \<open>
  Shared vocabulary of the development: Python's exceptions as values, sequencing of
  computations that may raise, \<open>for\<close> loops over a list, indexing and slicing with
  negative indices, dictionaries as association lists in insertion order, and the two
  interfaces that several components rely on (\<open>dictionary\<close> and \<open>key_order\<close>).
\<close>

named_theorems py_simps "evaluation of the Python primitives"
named_theorems res_simps "computations that may raise"

section \<open>Exceptions\<close>

text \<open>
  The exceptions the modelled code raises itself or provokes in the interpreter. A
  computation that may raise has a sum type with the exception on the left.
\<close>

datatype py_error =
    IndexError
  | KeyError
  | ValueError
  | TypeError
  | AttributeError
  | ZeroDivisionError
  | AssertionError
  | UnboundLocalError
  | NotImplementedError
  | OtherException string

type_synonym 'a res = "py_error + 'a"

text \<open>
  The interpreters that differ for the modelled code: \<open>Python2\<close> is 2.4 to 2.7,
  \<open>Python3\<close> is 3.7 and later. Code that runs on one of them only has no such argument.
\<close>

datatype interpreter = Python2 | Python3

text \<open>Sequencing: the rest runs only when nothing was raised.\<close>

fun and_then :: "'e + 'a \<Rightarrow> ('a \<Rightarrow> 'e + 'b) \<Rightarrow> 'e + 'b" where
  "and_then (Inl e) f = Inl e"
| "and_then (Inr x) f = f x"

text \<open>A \<open>for\<close> loop over a list whose body may raise.\<close>

fun for_each :: "('s \<Rightarrow> 'a \<Rightarrow> 'e + 's) \<Rightarrow> 's \<Rightarrow> 'a list \<Rightarrow> 'e + 's" where
  "for_each f s [] = Inr s"
| "for_each f s (x # xs) = and_then (f s x) (\<lambda>s'. for_each f s' xs)"

definition assert_that :: "bool \<Rightarrow> unit res" where
  "assert_that b = (if b then Inr () else Inl AssertionError)"

lemma and_then_eq_Inr [res_simps]:
  "and_then m f = Inr y \<longleftrightarrow> (\<exists>x. m = Inr x \<and> f x = Inr y)"
  by (cases m) auto

lemma and_then_eq_Inl [res_simps]:
  "and_then m f = Inl e \<longleftrightarrow> m = Inl e \<or> (\<exists>x. m = Inr x \<and> f x = Inl e)"
  by (cases m) auto

lemma and_then_assoc [simp]:
  "and_then (and_then m f) g = and_then m (\<lambda>x. and_then (f x) g)"
  by (cases m) auto

lemma and_then_Inr_right [simp]: "and_then m Inr = m"
  by (cases m) auto

lemma assert_that_eq [res_simps]:
  "assert_that b = Inr u \<longleftrightarrow> b"
  "assert_that b = Inl e \<longleftrightarrow> \<not> b \<and> e = AssertionError"
  by (auto simp: assert_that_def)

lemma for_each_append:
  "for_each f s (xs @ ys) = and_then (for_each f s xs) (\<lambda>s'. for_each f s' ys)"
  by (induction xs arbitrary: s) auto

text \<open>The rule for a loop invariant that speaks about the part already visited.\<close>

lemma for_each_invariant:
  assumes run: "for_each f s xs = Inr s'"
    and start: "I [] s"
    and body: "\<And>seen x t t'. I seen t \<Longrightarrow> f t x = Inr t' \<Longrightarrow> I (seen @ [x]) t'"
  shows "I xs s'"
proof -
  have "I seen t \<Longrightarrow> for_each f t xs = Inr s' \<Longrightarrow> I (seen @ xs) s'" for seen t
  proof (induction xs arbitrary: seen t)
    case Nil
    then show ?case by simp
  next
    case (Cons x xs)
    from Cons.prems(2) obtain t' where t': "f t x = Inr t'" "for_each f t' xs = Inr s'"
      by (auto simp: res_simps)
    from body [OF Cons.prems(1) t'(1)] have "I (seen @ [x]) t'" .
    from Cons.IH [OF this t'(2)] show ?case by simp
  qed
  from this [OF start run] show ?thesis by simp
qed

text \<open>A loop that raises did so at some element, after the elements before it.\<close>

lemma for_each_fails:
  assumes "for_each f s xs = Inl e"
  obtains seen x rest t where "xs = seen @ x # rest" "for_each f s seen = Inr t" "f t x = Inl e"
  using assms
proof (induction xs arbitrary: s thesis)
  case Nil
  then show ?case by simp
next
  case (Cons x xs)
  show ?case
  proof (cases "f s x")
    case (Inl e')
    with Cons.prems(2) Cons.prems(1) [of "[]" x xs s] show ?thesis by simp
  next
    case (Inr t)
    with Cons.prems(2) have "for_each f t xs = Inl e" by simp
    from Cons.IH [OF _ this] Cons.prems(1) Inr show ?thesis
      by (metis append_Cons and_then.simps(2) for_each.simps(2))
  qed
qed

text \<open>A list comprehension whose body may raise.\<close>

fun map_res :: "('a \<Rightarrow> 'e + 'b) \<Rightarrow> 'a list \<Rightarrow> 'e + 'b list" where
  "map_res f [] = Inr []"
| "map_res f (x # xs) = and_then (f x) (\<lambda>y. and_then (map_res f xs) (\<lambda>ys. Inr (y # ys)))"

lemma map_res_all2:
  "map_res f xs = Inr ys \<longleftrightarrow> list_all2 (\<lambda>x y. f x = Inr y) xs ys"
proof (induction xs arbitrary: ys)
  case Nil
  then show ?case by (cases ys) auto
next
  case (Cons x xs)
  then show ?case by (cases ys) (auto simp: and_then_eq_Inr)
qed

section \<open>Actions\<close>

text \<open>
  Code with effects is an action: a function of the state that returns a value or an
  exception together with the state it leaves behind. An exception does not undo effects.
\<close>

type_synonym ('s, 'a) act = "'s \<Rightarrow> 'a res \<times> 's"

definition ret :: "'a \<Rightarrow> ('s, 'a) act" where
  "ret x = (\<lambda>s. (Inr x, s))"

definition raise_error :: "py_error \<Rightarrow> ('s, 'a) act" where
  "raise_error e = (\<lambda>s. (Inl e, s))"

definition modify :: "('s \<Rightarrow> 's) \<Rightarrow> ('s, unit) act" where
  "modify f = (\<lambda>s. (Inr (), f s))"

definition act_bind :: "('s, 'a) act \<Rightarrow> ('a \<Rightarrow> ('s, 'b) act) \<Rightarrow> ('s, 'b) act" where
  "act_bind m f = (\<lambda>s. case m s of (Inl e, s') \<Rightarrow> (Inl e, s') | (Inr x, s') \<Rightarrow> f x s')"

definition from_res :: "'a res \<Rightarrow> ('s, 'a) act" where
  "from_res r = (\<lambda>s. (r, s))"

text \<open>A \<open>for\<close> loop whose body is an action.\<close>

fun act_for :: "('a \<Rightarrow> ('s, unit) act) \<Rightarrow> 'a list \<Rightarrow> ('s, unit) act" where
  "act_for f [] = ret ()"
| "act_for f (x # xs) = act_bind (f x) (\<lambda>_. act_for f xs)"

named_theorems act_simps "running actions"

lemma run_act [act_simps]:
  "ret x s = (Inr x, s)" "raise_error e s = (Inl e, s)" "modify f s = (Inr (), f s)"
  "from_res r s = (r, s)"
  by (simp_all add: ret_def raise_error_def modify_def from_res_def)

lemma act_bind_run [act_simps]:
  "act_bind m f s = (case m s of (Inl e, s') \<Rightarrow> (Inl e, s') | (Inr x, s') \<Rightarrow> f x s')"
  by (simp add: act_bind_def)

lemma act_bind_eq_Inr:
  "act_bind m f s = (Inr y, s'') \<longleftrightarrow> (\<exists>x s'. m s = (Inr x, s') \<and> f x s' = (Inr y, s''))"
  by (auto simp: act_bind_def split: prod.splits sum.splits)

section \<open>Indices and slices\<close>

text \<open>
  \<open>xs[i]\<close> raises outside \<open>-len(xs) .. len(xs)-1\<close>; \<open>xs[a:]\<close> and
  \<open>xs[:b]\<close> clamp their bound instead, after adding the length to a negative one.
\<close>

definition py_nth :: "'a list \<Rightarrow> int \<Rightarrow> 'a res" where
  "py_nth xs i =
     (if i \<ge> - int (length xs) \<and> int (length xs) > i
      then Inr (xs ! nat (i mod int (length xs))) else Inl IndexError)"

definition slice_bound :: "'a list \<Rightarrow> int \<Rightarrow> nat" where
  "slice_bound xs i = nat (if i < 0 then int (length xs) + i else min (int (length xs)) i)"

definition slice_to :: "'a list \<Rightarrow> int \<Rightarrow> 'a list" where
  "slice_to xs b = take (slice_bound xs b) xs"

definition slice_from :: "'a list \<Rightarrow> int \<Rightarrow> 'a list" where
  "slice_from xs a = drop (slice_bound xs a) xs"

definition slice :: "'a list \<Rightarrow> int \<Rightarrow> int \<Rightarrow> 'a list" where
  "slice xs a b = drop (slice_bound xs a) (take (slice_bound xs b) xs)"

lemma py_nth_nonneg [py_simps]:
  "py_nth xs (int i) = (if i < length xs then Inr (xs ! i) else Inl IndexError)"
  by (simp add: py_nth_def)

lemma py_nth_last [py_simps]: "xs \<noteq> [] \<Longrightarrow> py_nth xs (- 1) = Inr (last xs)"
  by (cases xs rule: rev_cases) (simp_all add: py_nth_def zmod_minus1)

lemma py_nth_1 [py_simps, simp]: "py_nth (a # b # xs) 1 = Inr b"
  by (simp add: py_nth_def)

lemma slice_split: "slice_to xs i @ slice_from xs i = xs"
  by (simp add: slice_to_def slice_from_def)

lemma slice_to_neg [py_simps]:
  "0 < n \<Longrightarrow> slice_to xs (- int n) = take (length xs - n) xs"
  by (simp add: slice_to_def slice_bound_def nat_diff_distrib' flip: diff_conv_add_uminus)

lemma slice_from_neg [py_simps]:
  "0 < n \<Longrightarrow> slice_from xs (- int n) = drop (length xs - n) xs"
  by (simp add: slice_from_def slice_bound_def nat_diff_distrib' flip: diff_conv_add_uminus)

lemma slice_from_0 [py_simps, simp]: "slice_from xs 0 = xs"
  by (simp add: slice_from_def slice_bound_def)

lemma slice_to_0 [py_simps, simp]: "slice_to xs 0 = []"
  by (simp add: slice_to_def slice_bound_def)

section \<open>Dictionaries\<close>

text \<open>
  A dictionary is an association list without repeated keys, in insertion order, as
  Python 3.7 and later keep it. Assigning to a present key keeps its position
  (\<^const>\<open>AList.update\<close>), \<open>del\<close> removes the entry.
\<close>

type_synonym ('k, 'v) dict = "('k \<times> 'v) list"

abbreviation keys :: "('k, 'v) dict \<Rightarrow> 'k list" where
  "keys d \<equiv> map fst d"

definition wf_dict :: "('k, 'v) dict \<Rightarrow> bool" where
  "wf_dict d \<longleftrightarrow> distinct (keys d)"

definition dict_get :: "('k, 'v) dict \<Rightarrow> 'k \<Rightarrow> 'v res" where
  "dict_get d k = (case map_of d k of None \<Rightarrow> Inl KeyError | Some v \<Rightarrow> Inr v)"

lemma wf_dict_Nil [simp]: "wf_dict []"
  by (simp add: wf_dict_def)

lemma wf_dict_update [simp]: "wf_dict d \<Longrightarrow> wf_dict (AList.update k v d)"
  by (simp add: wf_dict_def distinct_update)

lemma wf_dict_delete [simp]: "wf_dict d \<Longrightarrow> wf_dict (AList.delete k d)"
  by (simp add: wf_dict_def distinct_delete)

lemma map_of_Some_key: "map_of d k = Some v \<Longrightarrow> k \<in> set (keys d)"
  by (force dest: map_of_SomeD)

lemma map_of_keys: "map_of d k = None \<longleftrightarrow> k \<notin> set (keys d)"
  by (induction d) auto

lemma keys_update_Some [simp]: "map_of d k = Some v \<Longrightarrow> keys (AList.update k v' d) = keys d"
  using map_of_Some_key by (metis update_keys)

lemma length_update_Some [simp]:
  "map_of d k = Some v \<Longrightarrow> length (AList.update k v' d) = length d"
  by (metis keys_update_Some length_map)

lemma set_update_subset: "set (AList.update k v d) \<subseteq> insert (k, v) (set d)"
  by (induction d) auto

lemma update_fresh: "k \<notin> set (keys d) \<Longrightarrow> AList.update k v d = d @ [(k, v)]"
  by (induction d) auto

lemma delete_None [simp]: "map_of d k = None \<Longrightarrow> AList.delete k d = d"
  by (induction d) (auto split: if_splits)

lemma length_delete_Some: "map_of d k = Some v \<Longrightarrow> length (AList.delete k d) < length d"
  by (induction d) (auto simp: le_imp_less_Suc length_delete_le)

lemma length_delete_not_None:
  "map_of d k \<noteq> None \<Longrightarrow> length (AList.delete k d) < length d"
  by (auto intro: length_delete_Some)

text \<open>
  What a client relies on when it stores into a dictionary. The client lemma says that
  a run of assignments leaves each key with the last value assigned to it.
\<close>

locale dictionary =
  fixes empty :: 'd
    and lookup :: "'d \<Rightarrow> 'k \<Rightarrow> 'v option"
    and put :: "'k \<Rightarrow> 'v \<Rightarrow> 'd \<Rightarrow> 'd"
    and wf :: "'d \<Rightarrow> bool"
  assumes wf_empty: "wf empty"
    and lookup_empty: "lookup empty k = None"
    and wf_put: "wf d \<Longrightarrow> wf (put k v d)"
    and lookup_put: "wf d \<Longrightarrow> lookup (put k v d) k' = (if k' = k then Some v else lookup d k')"
begin

lemma wf_put_all: "wf d \<Longrightarrow> wf (foldl (\<lambda>d (k, v). put k v d) d kvs)"
  by (induction kvs arbitrary: d) (auto simp: wf_put)

lemma lookup_put_all:
  "wf d \<Longrightarrow> lookup (foldl (\<lambda>d (k, v). put k v d) d kvs) k
     = (case map_of (rev kvs) k of None \<Rightarrow> lookup d k | Some v \<Rightarrow> Some v)"
proof (induction kvs arbitrary: d)
  case Nil
  then show ?case by simp
next
  case (Cons kv kvs)
  then show ?case
    by (cases kv) (auto simp: wf_put lookup_put map_add_def split: option.splits)
qed

lemma put_all_last_wins:
  "lookup (foldl (\<lambda>d (k, v). put k v d) empty kvs) k = map_of (rev kvs) k"
  by (simp add: lookup_put_all wf_empty lookup_empty split: option.splits)

end

interpretation py_dict: dictionary "[]" map_of AList.update wf_dict
  by unfold_locales (auto simp: update_conv')

text \<open>
  Python before 3.7 iterates over a dictionary or a set in an order of its own. The
  code whose language level allows this takes the order as a parameter, a function
  that permutes the keys; what it proves then holds for every such order.
\<close>

locale key_order =
  fixes ord :: "'a list \<Rightarrow> 'a list"
  assumes ord_perm: "mset (ord xs) = mset xs"
begin

lemma set_ord: "set (ord xs) = set xs"
  using ord_perm by (metis set_mset_mset)

lemma distinct_ord: "distinct (ord xs) \<longleftrightarrow> distinct xs"
  using ord_perm by (metis mset_eq_imp_distinct_iff)

lemma length_ord: "length (ord xs) = length xs"
  using ord_perm by (metis size_mset)

lemma mset_filter_ord: "mset (filter P (ord xs)) = mset (filter P xs)"
  by (simp add: ord_perm mset_filter)

end

text \<open>Insertion order is one admissible order, its reverse another.\<close>

interpretation insertion_order: key_order "\<lambda>xs. xs"
  by unfold_locales simp

interpretation reverse_order: key_order rev
  by unfold_locales simp

end
