(* ===== verification/PyStr.thy ===== *)
theory PyStr
  imports Prelude "HOL-Library.Sublist"
begin

text \<open>
  The string methods of Python the modelled code uses, on HOL's \<open>string\<close> (a list of
  8-bit characters): splitting at a character, joining, prefix and suffix tests, and
  stripping of white space.
\<close>

fun split_on :: "char \<Rightarrow> string \<Rightarrow> string list" where
  "split_on c [] = [[]]"
| "split_on c (x # xs) =
     (if x = c then [] # split_on c xs
      else (case split_on c xs of [] \<Rightarrow> [[x]] | w # ws \<Rightarrow> (x # w) # ws))"

text \<open>\<open>s.split(c, 1)\<close>: at most one split, at the first occurrence.\<close>

definition split1 :: "char \<Rightarrow> string \<Rightarrow> string list" where
  "split1 c s =
     (case dropWhile (\<lambda>x. x \<noteq> c) s of [] \<Rightarrow> [s] | _ # r \<Rightarrow> [takeWhile (\<lambda>x. x \<noteq> c) s, r])"

fun join :: "string \<Rightarrow> string list \<Rightarrow> string" where
  "join sep [] = []"
| "join sep [w] = w"
| "join sep (w # v # ws) = w @ sep @ join sep (v # ws)"

definition startswith :: "string \<Rightarrow> string \<Rightarrow> bool" where
  "startswith s p \<longleftrightarrow> take (length p) s = p"

definition endswith :: "string \<Rightarrow> string \<Rightarrow> bool" where
  "endswith s p \<longleftrightarrow> length p \<le> length s \<and> drop (length s - length p) s = p"

text \<open>\<open>sub in s\<close>.\<close>

fun contains :: "string \<Rightarrow> string \<Rightarrow> bool" where
  "contains [] sub = (sub = [])"
| "contains (x # xs) sub = (startswith (x # xs) sub \<or> contains xs sub)"

definition is_space :: "char \<Rightarrow> bool" where
  "is_space c \<longleftrightarrow> c \<in> set [CHR '' '', CHR 0x09, CHR 0x0A, CHR 0x0B, CHR 0x0C, CHR 0x0D,
     CHR 0x1C, CHR 0x1D, CHR 0x1E, CHR 0x1F, CHR 0x85, CHR 0xA0]"

definition strip :: "string \<Rightarrow> string" where
  "strip s = rev (dropWhile is_space (rev (dropWhile is_space s)))"

definition newline :: string where
  "newline = [CHR 0x0A]"

text \<open>\<open>str(n)\<close> of an integer.\<close>

fun show_nat :: "nat \<Rightarrow> string" where
  "show_nat n = (if n < 10 then [''0123456789'' ! n] else show_nat (n div 10) @ [''0123456789'' ! (n mod 10)])"

declare show_nat.simps [simp del]

definition show_int :: "int \<Rightarrow> string" where
  "show_int i = (if i < 0 then CHR ''-'' # show_nat (nat (- i)) else show_nat (nat i))"

definition is_digit :: "char \<Rightarrow> bool" where
  "is_digit c \<longleftrightarrow> c \<in> set ''0123456789''"

text \<open>\<open>int(s)\<close> of a string of decimal digits.\<close>

definition digit_val :: "char \<Rightarrow> nat" where
  "digit_val c = of_char c - 48"

definition parse_nat :: "string \<Rightarrow> nat" where
  "parse_nat s = foldl (\<lambda>n c. 10 * n + digit_val c) 0 s"

text \<open>\<open>os.path.join\<close> of two POSIX paths.\<close>

definition path_join :: "string \<Rightarrow> string \<Rightarrow> string" where
  "path_join a b =
     (if startswith b ''/'' then b
      else if a = [] \<or> endswith a ''/'' then a @ b else a @ ''/'' @ b)"

lemma split_on_not_Nil [simp]: "split_on c s \<noteq> []"
  by (induction s) (auto split: list.splits)

lemma join_Cons: "ws \<noteq> [] \<Longrightarrow> join sep (w # ws) = w @ sep @ join sep ws"
  by (cases ws) auto

lemma join_split_on: "join [c] (split_on c s) = s"
proof (induction s)
  case Nil
  then show ?case by simp
next
  case (Cons x xs)
  obtain w ws where w: "split_on c xs = w # ws" by (cases "split_on c xs") auto
  with Cons show ?case by (cases ws) auto
qed

lemma split_on_no_sep: "w \<in> set (split_on c s) \<Longrightarrow> c \<notin> set w"
proof (induction s arbitrary: w)
  case Nil
  then show ?case by simp
next
  case (Cons x xs)
  obtain v vs where "split_on c xs = v # vs" by (cases "split_on c xs") auto
  with Cons show ?case by (auto split: if_splits)
qed

lemma split_on_fresh: "c \<notin> set s \<Longrightarrow> split_on c s = [s]"
  by (induction s) auto

lemma split_on_append: "c \<notin> set u \<Longrightarrow> split_on c (u @ c # v) = u # split_on c v"
  by (induction u) auto

lemma split_on_join:
  "ws \<noteq> [] \<Longrightarrow> \<forall>w\<in>set ws. c \<notin> set w \<Longrightarrow> split_on c (join [c] ws) = ws"
  by (induction "[c]" ws rule: join.induct) (auto simp: split_on_fresh split_on_append)

lemma length_split_on: "length (split_on c s) = Suc (count_list s c)"
proof (induction s)
  case (Cons x xs)
  obtain v vs where "split_on c xs = v # vs" by (cases "split_on c xs") auto
  with Cons show ?case by auto
qed simp

lemma dropWhile_neq_fresh: "c \<notin> set s \<Longrightarrow> dropWhile (\<lambda>x. x \<noteq> c) s = []"
  by (induction s) auto

lemma span_neq_append:
  assumes "c \<notin> set u"
  shows "dropWhile (\<lambda>x. x \<noteq> c) (u @ c # v) = c # v" and "takeWhile (\<lambda>x. x \<noteq> c) (u @ c # v) = u"
  using assms by (induction u) auto

lemma split1_fresh: "c \<notin> set s \<Longrightarrow> split1 c s = [s]"
  by (simp add: split1_def dropWhile_neq_fresh)

lemma split1_append: "c \<notin> set u \<Longrightarrow> split1 c (u @ c # v) = [u, v]"
  by (simp add: split1_def span_neq_append)

lemma split1_cases:
  obtains "c \<notin> set s" "split1 c s = [s]"
  | u v where "c \<notin> set u" "s = u @ c # v" "split1 c s = [u, v]"
  by (metis split1_append split1_fresh split_list_first)

lemma startswith_prefix: "startswith s p \<longleftrightarrow> prefix p s"
  by (auto simp: startswith_def prefix_def take_is_prefix) (metis append_take_drop_id)

lemma endswith_suffix: "endswith s p \<longleftrightarrow> suffix p s"
  by (auto simp: endswith_def suffix_def) (metis append_take_drop_id)

lemma contains_sublist: "contains s sub \<longleftrightarrow> (\<exists>u v. s = u @ sub @ v)"
proof (induction s)
  case Nil
  then show ?case by simp
next
  case (Cons x xs)
  show ?case
    unfolding contains.simps Cons startswith_prefix prefix_def
    by (metis append_Cons append_Nil append_eq_Cons_conv)
qed


lemma digit_table: "n < 10 \<Longrightarrow> is_digit (''0123456789'' ! n) \<and> digit_val (''0123456789'' ! n) = n"
proof -
  have "list_all (\<lambda>n. is_digit (''0123456789'' ! n) \<and> digit_val (''0123456789'' ! n) = n) [0..<10]"
    by code_simp
  then show "n < 10 \<Longrightarrow> ?thesis" by (simp only: list_all_iff) simp
qed

lemma parse_nat_snoc: "parse_nat (s @ [c]) = 10 * parse_nat s + digit_val c"
  by (simp add: parse_nat_def)

lemma show_nat_digits: "show_nat n \<noteq> [] \<and> list_all is_digit (show_nat n) \<and> parse_nat (show_nat n) = n"
proof (induction n rule: show_nat.induct)
  case (1 n)
  show ?case
  proof (cases "n < 10")
    case True
    with digit_table [OF True] show ?thesis
      by (simp add: show_nat.simps [of n] parse_nat_def)
  next
    case False
    have "n mod 10 < 10" by simp
    from digit_table [OF this] 1 [OF False] False show ?thesis
      by (simp add: show_nat.simps [of n] parse_nat_snoc)
  qed
qed

lemmas show_nat_facts [simp] =
  show_nat_digits [THEN conjunct1] show_nat_digits [THEN conjunct2, THEN conjunct1]
  show_nat_digits [THEN conjunct2, THEN conjunct2]

lemma startswith_Cons [simp]:
  "startswith s [] = True"
  "startswith (x # s) (y # p) \<longleftrightarrow> x = y \<and> startswith s p"
  "startswith [] (y # p) = False"
  by (auto simp: startswith_def)

lemma startswith_append [simp]: "startswith (p @ s) p"
  by (simp add: startswith_def)

section \<open>Pieces of regular expressions\<close>

text \<open>
  A literal, a non-empty run of digits and a non-empty run of characters other than blanks at
  the front of a string, with what follows. In the expressions of the modelled code a run is
  followed by a character that cannot belong to it, so that there is nothing to backtrack.
\<close>

definition eat :: "string \<Rightarrow> string \<Rightarrow> string option" where
  "eat p s = (if startswith s p then Some (drop (length p) s) else None)"

definition eat_number :: "string \<Rightarrow> (nat \<times> string) option" where
  "eat_number s = (if takeWhile is_digit s = [] then None
     else Some (parse_nat (takeWhile is_digit s), dropWhile is_digit s))"

definition eat_word :: "string \<Rightarrow> (string \<times> string) option" where
  "eat_word s = (if takeWhile (\<lambda>c. c \<noteq> CHR '' '') s = [] then None
     else Some (takeWhile (\<lambda>c. c \<noteq> CHR '' '') s, dropWhile (\<lambda>c. c \<noteq> CHR '' '') s))"

lemma eat_append [simp]: "eat p (p @ s) = Some s"
  by (simp add: eat_def)

lemma eat_number_show:
  "s = [] \<or> \<not> is_digit (hd s) \<Longrightarrow> eat_number (show_nat n @ s) = Some (n, s)"
proof -
  assume s: "s = [] \<or> \<not> is_digit (hd s)"
  have d: "\<forall>c\<in>set (show_nat n). is_digit c" using show_nat_digits [of n] by (simp add: list_all_iff)
  then have "takeWhile is_digit (show_nat n @ s) = show_nat n"
    using s by (cases s) (simp_all add: takeWhile_append2)
  moreover have "dropWhile is_digit (show_nat n @ s) = s"
    using s d by (cases s) (simp_all add: dropWhile_append2)
  ultimately show ?thesis by (simp add: eat_number_def)
qed

lemma eat_word_append: "w \<noteq> [] \<Longrightarrow> CHR '' '' \<notin> set w \<Longrightarrow> eat_word (w @ CHR '' '' # s) = Some (w, CHR '' '' # s)"
  using span_neq_append [of "CHR '' ''" w s] by (simp add: eat_word_def)

end
