(* ===== verification/Topsort.thy ===== *)
theory Topsort
  imports Prelude
begin

text \<open>
  Topological sorting: \<open>topsort\<close>, \<open>topsort_levels\<close> and
  \<open>topsort_levels_core\<close> of bindings/python/topsort.py. The two dictionaries of the
  code, \<open>num_parents\<close> and \<open>children\<close>, are association lists; the order in
  which \<open>num_parents.keys()\<close> enumerates the keys is the parameter \<open>ord\<close>.

  The module says that it requires Python 2.2 or later, and is a Python 2 module: its doctests
  use the \<open>print\<close> statement. The interpreter is the argument \<open>py\<close>: Python 3 has no
  \<open>dict.has_key\<close>, which raises \<open>AttributeError\<close> there, and makes the
  \<open>raise StopIteration\<close> that ends the generator a \<open>RuntimeError\<close>. That
  \<open>rad_util.py\<close>, which the module imports, assigns to \<open>True\<close> and so does not compile on
  Python 3 at all is not part of the functions: the theorems on \<open>Python3\<close> are about their bodies.
\<close>

section \<open>Definitions\<close>

type_synonym 'a np = "('a, int) dict"
type_synonym 'a ch = "('a, 'a list) dict"

text \<open>
  \<open>CycleError\<close> with the arguments \<open>topsort\<close> gives it; \<open>SortKey\<close> is the
  \<open>KeyError\<close> of a lookup in \<open>num_parents\<close>, \<open>SortAttribute\<close> the
  \<open>AttributeError\<close> of \<open>has_key\<close> on Python 3 and \<open>SortRuntime\<close> the
  \<open>RuntimeError\<close> of a generator that raises \<open>StopIteration\<close> there.
\<close>

datatype 'a sort_error =
    SortKey 'a
  | CycleError "'a list" "'a np" "'a ch"
  | SortAttribute
  | SortRuntime

text \<open>\<open>d.has_key(x)\<close>\<close>

definition has_key :: "interpreter \<Rightarrow> ('a, 'v) dict \<Rightarrow> 'a \<Rightarrow> 'a sort_error + bool" where
  "has_key py d x =
     (case py of Python2 \<Rightarrow> Inr (x \<in> set (keys d)) | Python3 \<Rightarrow> Inl SortAttribute)"

text \<open>The body of the loop over \<open>pairlist\<close> that both functions start with.\<close>

definition setdefault_np :: "interpreter \<Rightarrow> 'a \<Rightarrow> 'a np \<Rightarrow> 'a sort_error + 'a np" where
  "setdefault_np py x np =
     and_then (has_key py np x) (\<lambda>present. Inr (if present then np else AList.update x 0 np))"

definition count_pair ::
  "interpreter \<Rightarrow> 'a np \<times> 'a ch \<Rightarrow> 'a \<times> 'a \<Rightarrow> 'a sort_error + 'a np \<times> 'a ch" where
  "count_pair py s pc =
     (let (np, ch) = s; (parent, child) = pc in
      and_then (setdefault_np py parent np) (\<lambda>np1.
      and_then (setdefault_np py child np1) (\<lambda>np2.
        case map_of np2 child of
          None \<Rightarrow> Inl (SortKey child)
        | Some n \<Rightarrow>
            (let cs = (case map_of ch parent of Some cs \<Rightarrow> cs | None \<Rightarrow> [])
             in Inr (AList.update child (n + 1) np2, AList.update parent (cs @ [child]) ch)))))"

definition count_pairs ::
  "interpreter \<Rightarrow> ('a \<times> 'a) list \<Rightarrow> 'a sort_error + 'a np \<times> 'a ch" where
  "count_pairs py pairlist = for_each (count_pair py) ([], []) pairlist"

text \<open>The inner loop of \<open>topsort\<close>: \<open>todo\<close> is the end of \<open>answer\<close>.\<close>

fun knock_down :: "'a list \<Rightarrow> 'a np \<Rightarrow> 'a list \<Rightarrow> 'a sort_error + 'a np \<times> 'a list" where
  "knock_down [] np todo = Inr (np, todo)"
| "knock_down (child # cs) np todo =
     (case map_of np child of
        None \<Rightarrow> Inl (SortKey child)
      | Some n \<Rightarrow>
          knock_down cs (AList.update child (n - 1) np)
            (if n - 1 = 0 then todo @ [child] else todo))"

lemma knock_down_length:
  "knock_down cs np todo = Inr (np', todo') \<Longrightarrow> length np' = length np"
  by (induction cs np todo rule: knock_down.induct)
    (auto split: option.splits)

lemma knock_down_shrinks:
  "map_of np p = Some v \<Longrightarrow> knock_down cs (AList.delete p np) todo = Inr (np', todo')
     \<Longrightarrow> length np' < length np"
  by (simp add: knock_down_length length_delete_Some)

text \<open>
  The loop \<open>for parent in answer\<close>, where \<open>answer\<close> grows while it is traversed:
  \<open>visited @ todo\<close> is the list, the next element is the head of \<open>todo\<close>.
\<close>

function topsort_loop ::
  "interpreter \<Rightarrow> 'a list \<Rightarrow> 'a list \<Rightarrow> 'a np \<Rightarrow> 'a ch
     \<Rightarrow> 'a sort_error + 'a list \<times> 'a np \<times> 'a ch" where
  "topsort_loop py visited [] np ch = Inr (visited, np, ch)"
| "topsort_loop py visited (parent # todo) np ch =
     (if map_of np parent = None then Inl (SortKey parent)
      else
        (case has_key py ch parent of
           Inl e \<Rightarrow> Inl e
         | Inr False \<Rightarrow> topsort_loop py (visited @ [parent]) todo (AList.delete parent np) ch
         | Inr True \<Rightarrow>
             (case map_of ch parent of
                None \<Rightarrow> Inl (SortKey parent)
              | Some cs \<Rightarrow>
                  (case knock_down cs (AList.delete parent np) todo of
                     Inl e \<Rightarrow> Inl e
                   | Inr (np', todo') \<Rightarrow>
                       topsort_loop py (visited @ [parent]) todo' np' (AList.delete parent ch)))))"
  by pat_completeness auto
termination
  by (relation "measure (\<lambda>(py, visited, todo, np, ch). length np)")
    (auto intro: length_delete_Some knock_down_shrinks)

definition topsort ::
  "interpreter \<Rightarrow> ('a list \<Rightarrow> 'a list) \<Rightarrow> ('a \<times> 'a) list \<Rightarrow> 'a sort_error + 'a list" where
  "topsort py ord pairlist =
     and_then (count_pairs py pairlist) (\<lambda>(np, ch).
       let answer = filter (\<lambda>x. map_of np x = Some 0) (ord (keys np))
       in case topsort_loop py [] answer np ch of
            Inl e \<Rightarrow> Inl e
          | Inr (answer', np', ch') \<Rightarrow>
              if np' \<noteq> [] then Inl (CycleError answer' np' ch') else Inr answer')"

text \<open>
  \<open>topsort_levels_core\<close> is a generator: its value is the list of the levels it
  yields and the exception it ends with, if any (\<open>Inr ()\<close> is the end of the iteration).
\<close>

definition generator_stop :: "interpreter \<Rightarrow> 'a sort_error + unit" where
  "generator_stop py = (case py of Python2 \<Rightarrow> Inr () | Python3 \<Rightarrow> Inl SortRuntime)"

fun drop_counts :: "'a list \<Rightarrow> 'a np \<Rightarrow> 'a sort_error + 'a np" where
  "drop_counts [] np = Inr np"
| "drop_counts (child # cs) np =
     (case map_of np child of
        None \<Rightarrow> Inl (SortKey child)
      | Some n \<Rightarrow> drop_counts cs (AList.update child (n - 1) np))"

fun drop_level ::
  "interpreter \<Rightarrow> 'a list \<Rightarrow> 'a np \<Rightarrow> 'a ch \<Rightarrow> 'a sort_error + 'a np \<times> 'a ch" where
  "drop_level py [] np ch = Inr (np, ch)"
| "drop_level py (p # ps) np ch =
     (if map_of np p = None then Inl (SortKey p)
      else
        and_then (has_key py ch p) (\<lambda>parent.
          if parent then
            (case map_of ch p of
               None \<Rightarrow> Inl (SortKey p)
             | Some cs \<Rightarrow>
                 and_then (drop_counts cs (AList.delete p np))
                   (\<lambda>np'. drop_level py ps np' (AList.delete p ch)))
          else drop_level py ps (AList.delete p np) ch))"

lemma drop_counts_length: "drop_counts cs np = Inr np' \<Longrightarrow> length np' = length np"
  by (induction cs np rule: drop_counts.induct)
    (auto split: option.splits)

lemma drop_level_length:
  "drop_level py ps np ch = Inr (np', ch') \<Longrightarrow> length np' \<le> length np"
proof (induction ps arbitrary: np ch)
  case (Cons p ps)
  then have p: "length (AList.delete p np) < length np"
    by (auto split: if_splits intro: length_delete_Some)
  from Cons.prems obtain np1 ch1 where
    "drop_level py ps np1 ch1 = Inr (np', ch')" "length np1 = length (AList.delete p np)"
    by (auto simp: res_simps dest: drop_counts_length split: if_splits option.splits)
  with Cons.IH [of np1 ch1] p show ?case by simp
qed simp

lemma drop_level_shrinks:
  assumes "drop_level py ps np ch = Inr (np', ch')" and "ps \<noteq> []"
  shows "length np' < length np"
proof -
  obtain p ps' where ps: "ps = p # ps'" using assms(2) by (cases ps) auto
  with assms(1) have p: "length (AList.delete p np) < length np"
    by (auto split: if_splits intro: length_delete_Some)
  from assms(1) ps obtain np1 ch1 where
    "drop_level py ps' np1 ch1 = Inr (np', ch')" "length np1 = length (AList.delete p np)"
    by (auto simp: res_simps dest: drop_counts_length split: if_splits option.splits)
  with p drop_level_length [of py ps' np1 ch1] show ?thesis by fastforce
qed

function topsort_levels_core ::
  "interpreter \<Rightarrow> ('a list \<Rightarrow> 'a list) \<Rightarrow> 'a np \<Rightarrow> 'a ch
     \<Rightarrow> 'a list list \<times> ('a sort_error + unit)" where
  "topsort_levels_core py ord np ch =
     (let level_parents = filter (\<lambda>x. map_of np x = Some 0) (ord (keys np))
      in if level_parents = [] then
           ([], if np \<noteq> [] then Inl (CycleError [] np ch) else generator_stop py)
         else
           (case drop_level py level_parents np ch of
              Inl e \<Rightarrow> ([level_parents], Inl e)
            | Inr (np', ch') \<Rightarrow>
                (let (levels, out) = topsort_levels_core py ord np' ch'
                 in (level_parents # levels, out))))"
  by pat_completeness auto
termination
  by (relation "measure (\<lambda>(py, ord, np, ch). length np)") (auto dest: drop_level_shrinks)

declare topsort_levels_core.simps [simp del]

text \<open>
  \<open>topsort_levels\<close> is a function that returns the generator: it may raise itself,
  before anything is yielded.
\<close>

definition topsort_levels ::
  "interpreter \<Rightarrow> ('a list \<Rightarrow> 'a list) \<Rightarrow> ('a \<times> 'a) list
     \<Rightarrow> 'a sort_error + ('a list list \<times> ('a sort_error + unit))" where
  "topsort_levels py ord pairlist =
     and_then (count_pairs py pairlist) (\<lambda>(np, ch). Inr (topsort_levels_core py ord np ch))"

text \<open>The two interpreters.\<close>

lemma has_key_simps [simp]:
  "has_key Python2 d x = Inr (map_of d x \<noteq> None)"
  "has_key Python3 d x = Inl SortAttribute"
  by (auto simp: has_key_def map_of_keys)

lemma generator_stop_simps [simp]:
  "generator_stop Python2 = Inr ()" "generator_stop Python3 = Inl SortRuntime"
  by (simp_all add: generator_stop_def)

lemma count_pairs_python3: "count_pairs Python3 E = (if E = [] then Inr ([], []) else Inl SortAttribute)"
  by (cases E) (auto simp: count_pairs_def count_pair_def setdefault_np_def)

lemma topsort_empty: "topsort py ord [] = Inr []"
  by (simp add: topsort_def count_pairs_def)

lemma topsort_python3: "topsort Python3 ord E = (if E = [] then Inr [] else Inl SortAttribute)"
proof (cases "E = []")
  case True
  then show ?thesis by (simp add: topsort_empty)
next
  case False
  then have "count_pairs Python3 E = Inl SortAttribute" by (simp add: count_pairs_python3)
  with False show ?thesis by (simp add: topsort_def)
qed

lemma topsort_returns_python2:
  assumes "topsort py ord E = Inr answer"
  shows "topsort Python2 ord E = Inr answer" and "py = Python2 \<or> E = []"
  using assms by (cases py; auto simp: topsort_python3 topsort_empty split: if_splits)+

lemma cycle_error_python2:
  "topsort py ord E = Inl (CycleError answer np ch) \<Longrightarrow> py = Python2"
  by (cases py) (auto simp: topsort_python3 split: if_splits)

lemma topsort_levels_python3:
  "topsort_levels Python3 ord E = (if E = [] then Inr ([], Inl SortRuntime) else Inl SortAttribute)"
  by (simp add: topsort_levels_def count_pairs_python3 topsort_levels_core.simps)

section \<open>Graphs\<close>

text \<open>
  The specification side: the nodes of a list of pairs, the children of a node in the
  order of the list, the number of pairs into a node from outside a set of removed
  nodes, and "occurs before" in a list. \<open>graph_state\<close> ties the two dictionaries of
  the code to the list of pairs and the set of nodes already removed.
\<close>

definition nodes :: "('a \<times> 'a) list \<Rightarrow> 'a set" where
  "nodes E = fst ` set E \<union> snd ` set E"

definition kids :: "('a \<times> 'a) list \<Rightarrow> 'a \<Rightarrow> 'a list" where
  "kids E p = map snd (filter (\<lambda>e. fst e = p) E)"

definition indeg :: "('a \<times> 'a) list \<Rightarrow> 'a set \<Rightarrow> 'a \<Rightarrow> nat" where
  "indeg E D x = length (filter (\<lambda>e. snd e = x \<and> fst e \<notin> D) E)"

definition before :: "'a list \<Rightarrow> 'a \<Rightarrow> 'a \<Rightarrow> bool" where
  "before xs a c \<longleftrightarrow> c \<in> set xs \<and> a \<in> set (takeWhile (\<lambda>z. z \<noteq> c) xs)"

definition graph_state :: "('a \<times> 'a) list \<Rightarrow> 'a set \<Rightarrow> 'a np \<Rightarrow> 'a ch \<Rightarrow> bool" where
  "graph_state E D np ch \<longleftrightarrow>
     wf_dict np \<and> wf_dict ch \<and>
     map_of np = (\<lambda>x. if x \<in> nodes E - D then Some (int (indeg E D x)) else None) \<and>
     map_of ch = (\<lambda>p. if p \<notin> D \<and> kids E p \<noteq> [] then Some (kids E p) else None) \<and>
     (\<forall>(a, c) \<in> set E. c \<in> D \<longrightarrow> a \<in> D)"

lemma kids_set: "c \<in> set (kids E p) \<longleftrightarrow> (p, c) \<in> set E"
  by (force simp: kids_def)

lemma indeg_0_iff: "indeg E D x = 0 \<longleftrightarrow> (\<forall>(a, c) \<in> set E. c = x \<longrightarrow> a \<in> D)"
  by (auto simp: indeg_def filter_empty_conv)

lemma indeg_insert:
  "p \<notin> D \<Longrightarrow> indeg E D x = indeg E (insert p D) x + count_list (kids E p) x"
  by (induction E) (auto simp: indeg_def kids_def)

lemma nodes_snoc: "nodes (E @ [(a, c)]) = insert a (insert c (nodes E))"
  by (auto simp: nodes_def)

lemma kids_snoc: "kids (E @ [(a, c)]) p = kids E p @ (if p = a then [c] else [])"
  by (simp add: kids_def)

lemma indeg_snoc:
  "indeg (E @ [(a, c)]) D x = indeg E D x + (if x = c \<and> a \<notin> D then 1 else 0)"
  by (auto simp: indeg_def)

lemma indeg_outside: "x \<notin> nodes E \<Longrightarrow> indeg E D x = 0"
  by (force simp: indeg_0_iff nodes_def)

text \<open>What \<open>setdefault_np\<close> leaves on Python 2.\<close>

definition np_default :: "'a \<Rightarrow> 'a np \<Rightarrow> 'a np" where
  "np_default x np = (if map_of np x = None then AList.update x 0 np else np)"

lemma setdefault_np_python2: "setdefault_np Python2 x np = Inr (np_default x np)"
  by (simp add: setdefault_np_def np_default_def)

lemma map_of_np_default:
  "map_of (np_default x np) = (if map_of np x = None then (map_of np)(x \<mapsto> 0) else map_of np)"
  by (simp add: np_default_def update_conv')

lemma wf_np_default: "wf_dict np \<Longrightarrow> wf_dict (np_default x np)"
  by (simp add: np_default_def)

lemma count_pair_state:
  assumes "graph_state E {} np ch"
  shows "\<exists>np' ch'. count_pair Python2 (np, ch) (a, c) = Inr (np', ch') \<and> graph_state (E @ [(a, c)]) {} np' ch'"
  using assms
  by (auto simp: graph_state_def count_pair_def Let_def setdefault_np_python2 wf_np_default update_conv'
      map_of_np_default nodes_snoc kids_snoc indeg_snoc indeg_outside fun_eq_iff
      split: option.splits)

lemma count_pairs_state:
  "\<exists>np ch. count_pairs Python2 E = Inr (np, ch) \<and> graph_state E {} np ch"
proof (induction E rule: rev_induct)
  case Nil
  then show ?case
    by (simp add: count_pairs_def graph_state_def nodes_def kids_def)
next
  case (snoc e E)
  then obtain np ch where "count_pairs Python2 E = Inr (np, ch)" "graph_state E {} np ch" by blast
  with count_pair_state [of E np ch "fst e" "snd e"] show ?case
    by (auto simp: count_pairs_def for_each_append res_simps)
qed

lemma drop_counts_spec:
  assumes "set cs \<subseteq> set (keys np)" and "wf_dict np"
  shows "\<exists>np'. drop_counts cs np = Inr np' \<and> wf_dict np' \<and>
     map_of np' = (\<lambda>x. map_option (\<lambda>n. n - int (count_list cs x)) (map_of np x))"
  using assms
proof (induction cs np rule: drop_counts.induct)
  case (1 np)
  then show ?case by (auto simp: option.map_ident fun_eq_iff)
next
  case (2 c cs np)
  then obtain n where n: "map_of np c = Some n"
    by (cases "map_of np c") (auto simp: map_of_keys)
  let ?np = "AList.update c (n - 1) np"
  have "set cs \<subseteq> set (keys ?np)" using "2.prems" n by simp
  from "2.IH" [OF n this] "2.prems" obtain np' where
    np': "drop_counts cs ?np = Inr np'" "wf_dict np'"
      "map_of np' = (\<lambda>x. map_option (\<lambda>n. n - int (count_list cs x)) (map_of ?np x))"
    by auto
  then show ?case using n
    by (auto simp: update_conv' fun_eq_iff)
qed

lemma knock_down_spec:
  assumes "\<forall>c\<in>set cs. \<exists>n. map_of np c = Some n \<and> int (count_list cs c) \<le> n"
  shows "\<exists>np' ns. knock_down cs np todo = Inr (np', todo @ ns) \<and> drop_counts cs np = Inr np' \<and>
     distinct ns \<and> set ns = {c \<in> set cs. map_of np c = Some (int (count_list cs c))}"
  using assms
proof (induction cs np todo rule: knock_down.induct)
  case (1 np todo)
  then show ?case by simp
next
  case (2 c cs np todo)
  then obtain n where n: "map_of np c = Some n" "int (count_list cs c) + 1 \<le> n"
    by auto
  let ?np = "AList.update c (n - 1) np"
  let ?todo = "if n - 1 = 0 then todo @ [c] else todo"
  have pre: "\<forall>d\<in>set cs. \<exists>m. map_of ?np d = Some m \<and> int (count_list cs d) \<le> m"
    using "2.prems" n by (auto simp: update_conv')
  from "2.IH" [OF n(1) this] obtain np' ns where
    np': "knock_down cs ?np ?todo = Inr (np', ?todo @ ns)" "drop_counts cs ?np = Inr np'"
      "distinct ns" "set ns = {d \<in> set cs. map_of ?np d = Some (int (count_list cs d))}"
    by (elim exE conjE)
  have set_ns: "set ns = {d \<in> set cs. map_of np d = Some (int (count_list (c # cs) d))}"
    using np'(4) n by (auto simp: update_conv')
  show ?case
  proof (cases "n = 1")
    case True
    with n have c: "c \<notin> set cs" by (auto simp: count_list_0_iff)
    then have "set (c # ns) = {d \<in> set (c # cs). map_of np d = Some (int (count_list (c # cs) d))}"
      using n(1) True by (intro set_eqI) (auto simp: set_ns count_list_0_iff)
    moreover have "distinct (c # ns)" using c np'(3) set_ns by auto
    moreover have "knock_down (c # cs) np todo = Inr (np', todo @ c # ns)"
      using n(1) np'(1) True by simp
    moreover have "drop_counts (c # cs) np = Inr np'" using n(1) np'(2) by simp
    ultimately show ?thesis by blast
  next
    case False
    have "c \<in> set cs" if "n = 1 + int (count_list cs c)"
      using that False by (metis add.right_neutral count_notin of_nat_0)
    then have "set ns = {d \<in> set (c # cs). map_of np d = Some (int (count_list (c # cs) d))}"
      using n(1) by (intro set_eqI) (auto simp: set_ns)
    moreover have "knock_down (c # cs) np todo = Inr (np', todo @ ns)"
      using n(1) np'(1) False by simp
    moreover have "drop_counts (c # cs) np = Inr np'" using n(1) np'(2) by simp
    ultimately show ?thesis using np'(3) by blast
  qed
qed

text \<open>
  Removing a node without remaining parents keeps the state of the graph; the queue of
  nodes without parents gains exactly the children it was the last parent of.
\<close>

lemma indeg_0_no_kid: "indeg E D p = 0 \<Longrightarrow> p \<notin> D \<Longrightarrow> p \<notin> set (kids E p)"
  by (force simp: indeg_0_iff kids_set)

lemma graph_state_remove:
  assumes gs: "graph_state E D np ch" and p: "p \<in> nodes E - D" "indeg E D p = 0"
  defines "np1 \<equiv> AList.delete p np"
  shows "\<exists>np'. drop_counts (kids E p) np1 = Inr np' \<and>
     graph_state E (insert p D) np' (AList.delete p ch)"
    and "\<forall>c\<in>set (kids E p). \<exists>n. map_of np1 c = Some n \<and> int (count_list (kids E p) c) \<le> n"
proof -
  have closed: "a \<in> D" if "(a, c) \<in> set E" "c \<in> D" for a c
    using gs that by (auto simp: graph_state_def)
  have kids_in: "c \<in> nodes E - D - {p}" if c: "c \<in> set (kids E p)" for c
  proof -
    from c have e: "(p, c) \<in> set E" by (simp add: kids_set)
    then have "c \<in> nodes E" by (force simp: nodes_def)
    moreover have "c \<notin> D" using closed [OF e] p(1) by blast
    moreover have "c \<noteq> p" using indeg_0_no_kid [OF p(2)] p(1) c by blast
    ultimately show ?thesis by blast
  qed
  have np1: "map_of np1 = (map_of np)(p := None)"
    by (simp add: np1_def delete_conv')
  have look: "map_of np1 c = Some (int (indeg E D c))" if "c \<in> set (kids E p)" for c
    using kids_in [OF that] gs by (simp add: np1 graph_state_def)
  have le: "count_list (kids E p) c \<le> indeg E D c" for c
    using indeg_insert [of p D E c] p(1) by simp
  show "\<forall>c\<in>set (kids E p). \<exists>n. map_of np1 c = Some n \<and> int (count_list (kids E p) c) \<le> n"
    using look le by auto
  have "set (kids E p) \<subseteq> set (keys np1)"
    using look map_of_Some_key by (metis subsetI)
  then obtain np' where np': "drop_counts (kids E p) np1 = Inr np'" "wf_dict np'"
      "map_of np' = (\<lambda>x. map_option (\<lambda>n. n - int (count_list (kids E p) x)) (map_of np1 x))"
    using drop_counts_spec [of "kids E p" np1] gs by (auto simp: np1_def graph_state_def)
  have "map_of np' x = (if x \<in> nodes E - insert p D then Some (int (indeg E (insert p D) x)) else None)" for x
    using gs p(1) indeg_insert [of p D E x] by (simp add: np'(3) np1 graph_state_def)
  moreover have "\<forall>(a, c)\<in>set E. c \<in> insert p D \<longrightarrow> a \<in> insert p D"
    using closed p(2) by (auto simp: indeg_0_iff)
  ultimately have "graph_state E (insert p D) np' (AList.delete p ch)"
    using gs np'(2) by (auto simp: graph_state_def delete_conv' fun_eq_iff)
  with np'(1) show "\<exists>np'. drop_counts (kids E p) np1 = Inr np' \<and>
     graph_state E (insert p D) np' (AList.delete p ch)" by blast
qed


definition topo_ordered :: "('a \<times> 'a) list \<Rightarrow> 'a list \<Rightarrow> bool" where
  "topo_ordered E xs \<longleftrightarrow> (\<forall>(a, c) \<in> set E. c \<in> set xs \<longrightarrow> before xs a c)"

lemma takeWhile_neq_snoc:
  "c \<in> set xs \<Longrightarrow> takeWhile (\<lambda>z. z \<noteq> c) (xs @ ys) = takeWhile (\<lambda>z. z \<noteq> c) xs"
  by (induction xs) auto

lemma takeWhile_neq_fresh:
  "c \<notin> set xs \<Longrightarrow> takeWhile (\<lambda>z. z \<noteq> c) (xs @ c # ys) = xs"
  by (induction xs) auto

lemma topo_ordered_snoc:
  assumes "topo_ordered E xs" and "p \<notin> set xs" and "indeg E (set xs) p = 0"
  shows "topo_ordered E (xs @ [p])"
proof -
  have "before (xs @ [p]) a c" if e: "(a, c) \<in> set E" and c: "c \<in> set (xs @ [p])" for a c
  proof (cases "c \<in> set xs")
    case True
    with e assms(1) have "before xs a c" by (auto simp: topo_ordered_def)
    with True show ?thesis by (simp add: before_def takeWhile_neq_snoc)
  next
    case False
    with c have "c = p" by simp
    with e assms(3) have "a \<in> set xs" by (auto simp: indeg_0_iff)
    with False \<open>c = p\<close> show ?thesis by (simp add: before_def takeWhile_neq_fresh)
  qed
  then show ?thesis by (auto simp: topo_ordered_def)
qed

definition loop_inv :: "('a \<times> 'a) list \<Rightarrow> 'a list \<Rightarrow> 'a list \<Rightarrow> 'a np \<Rightarrow> 'a ch \<Rightarrow> bool" where
  "loop_inv E visited todo np ch \<longleftrightarrow>
     graph_state E (set visited) np ch \<and> distinct (visited @ todo) \<and> set visited \<subseteq> nodes E \<and>
     set todo = {x \<in> nodes E - set visited. indeg E (set visited) x = 0} \<and>
     topo_ordered E visited"

lemma kids_eq_Nil: "kids E p = [] \<longleftrightarrow> (\<forall>c. (p, c) \<notin> set E)"
  by (metis kids_set list.set_intros(1) list.exhaust empty_iff list.set(1))

lemma loop_inv_step:
  assumes inv: "loop_inv E visited (p # todo) np ch"
  shows "\<exists>np' todo' ch'. topsort_loop Python2 visited (p # todo) np ch = topsort_loop Python2 (visited @ [p]) todo' np' ch'
     \<and> loop_inv E (visited @ [p]) todo' np' ch'"
proof -
  let ?D = "set visited"
  have gs: "graph_state E ?D np ch" and dist: "distinct (visited @ p # todo)"
    and todo: "set (p # todo) = {x \<in> nodes E - ?D. indeg E ?D x = 0}"
    and topo: "topo_ordered E visited" and sub: "?D \<subseteq> nodes E"
    using inv by (auto simp: loop_inv_def)
  from todo have p: "p \<in> nodes E - ?D" "indeg E ?D p = 0" by auto
  note rem = graph_state_remove [OF gs p]
  from rem(1) obtain np' where
    np': "drop_counts (kids E p) (AList.delete p np) = Inr np'"
      "graph_state E (insert p ?D) np' (AList.delete p ch)" by blast
  have key: "map_of np p = Some (int (indeg E ?D p))"
    using gs p(1) by (simp add: graph_state_def)
  have topo': "topo_ordered E (visited @ [p])"
    using topo p by (intro topo_ordered_snoc) auto
  from knock_down_spec [OF rem(2), of todo] np'(1) obtain ns where
    ns: "knock_down (kids E p) (AList.delete p np) todo = Inr (np', todo @ ns)" "distinct ns"
      "set ns = {c \<in> set (kids E p). map_of (AList.delete p np) c = Some (int (count_list (kids E p) c))}"
    by auto
  have count: "indeg E ?D x = indeg E (insert p ?D) x + count_list (kids E p) x" for x
    using p(1) by (simp add: indeg_insert)
  have kid_in: "c \<in> nodes E - insert p ?D" if "c \<in> set (kids E p)" for c
  proof -
    from that have e: "(p, c) \<in> set E" by (simp add: kids_set)
    with gs p(1) have "c \<notin> ?D" by (auto simp: graph_state_def)
    moreover have "c \<noteq> p" using e p by (auto simp: indeg_0_iff)
    moreover have "c \<in> nodes E" using e by (force simp: nodes_def)
    ultimately show ?thesis by blast
  qed
  have new: "set ns = {c \<in> set (kids E p). indeg E (insert p ?D) c = 0}"
    using kid_in gs count by (auto simp: ns(3) delete_conv' graph_state_def)
  have td: "x \<in> set (p # todo) \<longleftrightarrow> x \<in> nodes E \<and> x \<notin> ?D \<and> indeg E ?D x = 0" for x
    unfolding todo by auto
  have old: "set todo \<inter> set ns = {}"
  proof -
    have "c \<notin> set todo" if "c \<in> set ns" for c
    proof -
      from that have "count_list (kids E p) c \<noteq> 0" by (simp add: new count_list_0_iff)
      with count [of c] td [of c] show ?thesis by auto
    qed
    then show ?thesis by blast
  qed
  have front: "set (todo @ ns) = {x \<in> nodes E - insert p ?D. indeg E (insert p ?D) x = 0}"
  proof (intro set_eqI iffI)
    fix x assume "x \<in> set (todo @ ns)"
    then show "x \<in> {x \<in> nodes E - insert p ?D. indeg E (insert p ?D) x = 0}"
      using td [of x] dist count [of x] kid_in [of x] by (auto simp: new)
  next
    fix x assume "x \<in> {x \<in> nodes E - insert p ?D. indeg E (insert p ?D) x = 0}"
    then show "x \<in> set (todo @ ns)"
      using td [of x] count [of x] by (cases "x \<in> set (kids E p)") (auto simp: new)
  qed
  have inv': "loop_inv E (visited @ [p]) (todo @ ns) np' (AList.delete p ch)"
    using np'(2) dist ns(2) old front topo' sub p(1)
    by (auto simp: loop_inv_def)
  show ?thesis
  proof (cases "kids E p = []")
    case True
    with gs p(1) have "map_of ch p = None" by (simp add: graph_state_def)
    moreover from True ns(1) have "np' = AList.delete p np" "ns = []" by auto
    moreover have "AList.delete p ch = ch"
      using \<open>map_of ch p = None\<close> by simp
    ultimately have "topsort_loop Python2 visited (p # todo) np ch = topsort_loop Python2 (visited @ [p]) todo np' ch"
      and "loop_inv E (visited @ [p]) todo np' ch" using key inv' by auto
    then show ?thesis by blast
  next
    case False
    with gs p(1) have "map_of ch p = Some (kids E p)" by (simp add: graph_state_def)
    with key ns(1) have "topsort_loop Python2 visited (p # todo) np ch =
        topsort_loop Python2 (visited @ [p]) (todo @ ns) np' (AList.delete p ch)" by simp
    with inv' show ?thesis by blast
  qed
qed

lemma topsort_loop_spec:
  assumes "loop_inv E visited todo np ch"
  shows "\<exists>visited' np' ch'. topsort_loop Python2 visited todo np ch = Inr (visited', np', ch') \<and>
     loop_inv E visited' [] np' ch'"
  using assms
proof (induction "card (nodes E - set visited)" arbitrary: visited todo np ch rule: less_induct)
  case less
  show ?case
  proof (cases todo)
    case Nil
    with less.prems show ?thesis by auto
  next
    case (Cons p ps)
    with less.prems have inv0: "loop_inv E visited (p # ps) np ch" by simp
    from loop_inv_step [OF this] Cons obtain np' todo' ch' where
      eq: "topsort_loop Python2 visited todo np ch = topsort_loop Python2 (visited @ [p]) todo' np' ch'"
      and inv: "loop_inv E (visited @ [p]) todo' np' ch'"
      by auto
    have "p \<in> nodes E - set visited" using less.prems Cons by (auto simp: loop_inv_def)
    moreover have "finite (nodes E)" by (simp add: nodes_def)
    ultimately have "card (nodes E - set (visited @ [p])) < card (nodes E - set visited)"
      by (intro psubset_card_mono) auto
    from less.hyps [OF this inv] eq show ?thesis by simp
  qed
qed


lemma initial_loop_inv:
  assumes ord: "key_order ord" and np: "count_pairs Python2 E = Inr (np, ch)"
  shows "loop_inv E [] (filter (\<lambda>x. map_of np x = Some 0) (ord (keys np))) np ch"
proof -
  have gs: "graph_state E {} np ch" using count_pairs_state [of E] np by auto
  have "set (ord (keys np)) = set (keys np)" "distinct (ord (keys np)) = distinct (keys np)"
    by (rule key_order.set_ord [OF ord], rule key_order.distinct_ord [OF ord])
  moreover have "x \<in> set (keys np) \<longleftrightarrow> map_of np x \<noteq> None" for x
    using map_of_keys [of np x] by metis
  ultimately show ?thesis
    using gs by (auto simp: loop_inv_def graph_state_def wf_dict_def topo_ordered_def)
qed

lemma topsort_result:
  assumes "key_order ord"
  shows "\<exists>visited np ch. loop_inv E visited [] np ch \<and>
    topsort Python2 ord E = (if nodes E \<subseteq> set visited then Inr visited else Inl (CycleError visited np ch))"
proof -
  obtain np ch where np: "count_pairs Python2 E = Inr (np, ch)" using count_pairs_state [of E] by blast
  let ?answer = "filter (\<lambda>x. map_of np x = Some 0) (ord (keys np))"
  from initial_loop_inv [OF assms np] have "loop_inv E [] ?answer np ch" .
  then obtain visited np' ch' where
    run: "topsort_loop Python2 [] ?answer np ch = Inr (visited, np', ch')" and inv: "loop_inv E visited [] np' ch'"
    using topsort_loop_spec by blast
  have "np' = [] \<longleftrightarrow> set (keys np') = {}" by simp
  also have "\<dots> \<longleftrightarrow> (\<forall>x. map_of np' x = None)"
    by (metis map_of_keys all_not_in_conv)
  also have "\<dots> \<longleftrightarrow> nodes E \<subseteq> set visited"
    using inv by (auto simp: loop_inv_def graph_state_def)
  finally show ?thesis using run inv np by (intro exI [of _ visited] exI [of _ np'] exI [of _ ch']) (auto simp: topsort_def)
qed

lemma before_nth:
  "before xs a c \<Longrightarrow> \<exists>i j. i < j \<and> j < length xs \<and> xs ! i = a \<and> xs ! j = c"
proof -
  assume b: "before xs a c"
  then obtain us vs where xs: "xs = us @ c # vs" "c \<notin> set us"
    by (metis before_def split_list_first)
  with b have "a \<in> set us" by (simp add: before_def takeWhile_neq_fresh)
  then obtain i where "i < length us" "us ! i = a" by (auto simp: in_set_conv_nth)
  with xs show ?thesis
    by (intro exI [of _ i] exI [of _ "length us"]) (simp add: nth_append)
qed

text \<open>A relation whose pairs all go forward in a list without repetitions is acyclic.\<close>

lemma before_trans_index:
  assumes "(a, c) \<in> (set E)\<^sup>+" and "topo_ordered E xs" and "nodes E \<subseteq> set xs" and "distinct xs"
  shows "\<exists>i j. i < j \<and> j < length xs \<and> xs ! i = a \<and> xs ! j = c"
  using assms(1)
proof (induction rule: trancl_induct)
  case (base c)
  then have "before xs a c"
    using assms(2,3) by (force simp: topo_ordered_def nodes_def)
  then show ?case by (rule before_nth)
next
  case (step b c)
  from step.hyps(2) have "before xs b c"
    using assms(2,3) by (force simp: topo_ordered_def nodes_def)
  from before_nth [OF this] obtain k l where "k < l" "l < length xs" "xs ! k = b" "xs ! l = c" by blast
  moreover from step.IH obtain i j where "i < j" "j < length xs" "xs ! i = a" "xs ! j = b" by blast
  moreover from calculation assms(4) have "j = k"
    by (metis nth_eq_iff_index_eq order.strict_trans)
  ultimately have "i < l \<and> l < length xs \<and> xs ! i = a \<and> xs ! l = c" by simp
  then show ?case by blast
qed

lemma topo_ordered_acyclic:
  assumes "topo_ordered E xs" and "nodes E \<subseteq> set xs" and "distinct xs"
  shows "acyclic (set E)"
proof (rule acyclicI, rule allI, rule notI)
  fix x assume "(x, x) \<in> (set E)\<^sup>+"
  from before_trans_index [OF this assms] assms(3) show False
    by (metis nth_eq_iff_index_eq order.strict_trans less_irrefl)
qed

text \<open>Conversely, a finite set of nodes that all have a parent in the set holds a cycle.\<close>

lemma all_have_parent_cyclic:
  assumes "finite A" and "A \<noteq> {}" and "\<forall>x\<in>A. \<exists>a\<in>A. (a, x) \<in> R"
  shows "\<not> acyclic R"
proof
  assume "acyclic R"
  then have "acyclic (R \<inter> A \<times> A)" by (rule acyclic_subset) blast
  moreover have "finite (R \<inter> A \<times> A)" using assms(1) by blast
  ultimately have "wf (R \<inter> A \<times> A)" by (rule finite_acyclic_wf[rotated])
  with assms(2) obtain z where "z \<in> A" "\<forall>y. (y, z) \<in> R \<inter> A \<times> A \<longrightarrow> y \<notin> A"
    by (metis wfE_min ex_in_conv)
  with assms(3) show False by blast
qed

lemma stuck_parents:
  assumes "loop_inv E visited [] np ch" and x: "x \<in> nodes E - set visited"
  shows "\<exists>a \<in> nodes E - set visited. (a, x) \<in> set E"
proof -
  from assms have "indeg E (set visited) x \<noteq> 0" by (auto simp: loop_inv_def)
  then obtain a where "(a, x) \<in> set E" "a \<notin> set visited" by (auto simp: indeg_0_iff)
  moreover from this have "a \<in> nodes E" by (force simp: nodes_def)
  ultimately show ?thesis by blast
qed

lemma stuck_cyclic:
  assumes "loop_inv E visited [] np ch" and "\<not> nodes E \<subseteq> set visited"
  shows "\<not> acyclic (set E)"
proof (rule all_have_parent_cyclic)
  let ?A = "nodes E - set visited"
  show "finite ?A" by (simp add: nodes_def)
  show "?A \<noteq> {}" using assms(2) by blast
  show "\<forall>x\<in>?A. \<exists>a\<in>?A. (a, x) \<in> set E" using stuck_parents [OF assms(1)] by blast
qed

section \<open>Levels\<close>

definition avail :: "('a \<times> 'a) list \<Rightarrow> 'a set \<Rightarrow> 'a set" where
  "avail E D = {x \<in> nodes E - D. indeg E D x = 0}"

lemma drop_level_spec:
  assumes "graph_state E D np ch" and "distinct ps" and "set ps \<subseteq> avail E D"
  shows "\<exists>np' ch'. drop_level Python2 ps np ch = Inr (np', ch') \<and> graph_state E (D \<union> set ps) np' ch'"
  using assms
proof (induction ps arbitrary: D np ch)
  case Nil
  then show ?case by simp
next
  case (Cons p ps)
  from Cons.prems(3) have p: "p \<in> nodes E - D" "indeg E D p = 0" by (auto simp: avail_def)
  from graph_state_remove(1) [OF Cons.prems(1) p] obtain np1 where
    np1: "drop_counts (kids E p) (AList.delete p np) = Inr np1"
      "graph_state E (insert p D) np1 (AList.delete p ch)" by blast
  have key: "map_of np p = Some (int (indeg E D p))"
    using Cons.prems(1) p(1) by (simp add: graph_state_def)
  have ps: "set ps \<subseteq> avail E (insert p D)" "distinct ps"
    using Cons.prems(2,3) indeg_insert [of p D E] p(1) by (auto simp: avail_def)
  from Cons.IH [OF np1(2) ps(2,1)] obtain np' ch' where
    rest: "drop_level Python2 ps np1 (AList.delete p ch) = Inr (np', ch')"
      "graph_state E (D \<union> set (p # ps)) np' ch'" by auto
  have "drop_level Python2 (p # ps) np ch = drop_level Python2 ps np1 (AList.delete p ch)"
  proof (cases "kids E p = []")
    case True
    with Cons.prems(1) p(1) have "map_of ch p = None" by (simp add: graph_state_def)
    with True key np1(1) show ?thesis by simp
  next
    case False
    with Cons.prems(1) p(1) have "map_of ch p = Some (kids E p)" by (simp add: graph_state_def)
    with key np1(1) show ?thesis by simp
  qed
  with rest show ?case by auto
qed

definition settled :: "'a set \<Rightarrow> 'a list list \<Rightarrow> nat \<Rightarrow> 'a set" where
  "settled D levels j = D \<union> set (concat (take j levels))"

definition levels_ok :: "('a \<times> 'a) list \<Rightarrow> 'a set \<Rightarrow> 'a list list \<Rightarrow> bool" where
  "levels_ok E D levels \<longleftrightarrow>
     (\<forall>j<length levels. distinct (levels ! j) \<and> levels ! j \<noteq> [] \<and>
        set (levels ! j) = avail E (settled D levels j)) \<and>
     avail E (settled D levels (length levels)) = {}"

lemma keys_graph_state: "graph_state E D np ch \<Longrightarrow> x \<in> set (keys np) \<longleftrightarrow> x \<in> nodes E - D"
  using map_of_keys [of np x] by (simp add: graph_state_def) (metis option.distinct(1))

lemma levels_ok_Cons:
  "set l = avail E D \<Longrightarrow> distinct l \<Longrightarrow> l \<noteq> [] \<Longrightarrow> levels_ok E (D \<union> set l) levels
     \<Longrightarrow> levels_ok E D (l # levels)"
  by (auto simp: levels_ok_def settled_def nth_Cons Un_assoc split: nat.splits)

lemma card_Diff_Un_less:
  "finite N \<Longrightarrow> L \<subseteq> N - D \<Longrightarrow> L \<noteq> {} \<Longrightarrow> card (N - (D \<union> L)) < card (N - D)"
  by (rule psubset_card_mono) blast+

lemma topsort_levels_core_spec:
  assumes ord: "key_order ord" and gs: "graph_state E D np ch"
  shows "\<exists>levels. levels_ok E D levels \<and>
     (if nodes E \<subseteq> settled D levels (length levels)
      then topsort_levels_core Python2 ord np ch = (levels, Inr ())
      else \<exists>np' ch'. topsort_levels_core Python2 ord np ch = (levels, Inl (CycleError [] np' ch')))"
  using gs
proof (induction "card (nodes E - D)" arbitrary: D np ch rule: less_induct)
  case less
  let ?l = "filter (\<lambda>x. map_of np x = Some 0) (ord (keys np))"
  have "set (ord (keys np)) = set (keys np)" "distinct (ord (keys np)) = distinct (keys np)"
    by (rule key_order.set_ord [OF ord], rule key_order.distinct_ord [OF ord])
  then have l: "set ?l = avail E D" "distinct ?l"
    using less.prems keys_graph_state [OF less.prems] by (auto simp: avail_def graph_state_def wf_dict_def)
  show ?case
  proof (cases "?l = []")
    case True
    then have "avail E D = {}" using l(1) by (metis list.set(1))
    then have "levels_ok E D []" by (simp add: levels_ok_def settled_def)
    moreover have "np = [] \<longleftrightarrow> nodes E \<subseteq> D"
    proof -
      have "np = [] \<longleftrightarrow> set (keys np) = {}" by simp
      also have "set (keys np) = nodes E - D" using keys_graph_state [OF less.prems] by blast
      finally show ?thesis by blast
    qed
    ultimately show ?thesis
      using True by (intro exI [of _ "[]"]) (simp add: settled_def topsort_levels_core.simps)
  next
    case False
    from drop_level_spec [OF less.prems l(2)] l(1) obtain np' ch' where
      drop: "drop_level Python2 ?l np ch = Inr (np', ch')" "graph_state E (D \<union> set ?l) np' ch'" by blast
    have "finite (nodes E)" by (simp add: nodes_def)
    moreover have "set ?l \<subseteq> nodes E - D" unfolding l(1) by (auto simp: avail_def)
    moreover have "set ?l \<noteq> {}" using False by (metis set_empty)
    ultimately have "card (nodes E - (D \<union> set ?l)) < card (nodes E - D)"
      by (rule card_Diff_Un_less)
    from less.hyps [OF this drop(2)] obtain levels where
      IH: "levels_ok E (D \<union> set ?l) levels"
        "if nodes E \<subseteq> settled (D \<union> set ?l) levels (length levels)
         then topsort_levels_core Python2 ord np' ch' = (levels, Inr ())
         else \<exists>np'' ch''. topsort_levels_core Python2 ord np' ch' = (levels, Inl (CycleError [] np'' ch''))"
      by blast
    have "levels_ok E D (?l # levels)"
      using l False IH(1) by (intro levels_ok_Cons)
    moreover have "settled D (?l # levels) (length (?l # levels)) = settled (D \<union> set ?l) levels (length levels)"
      by (auto simp: settled_def)
    moreover have "topsort_levels_core Python2 ord np ch =
        (let (ls, out) = topsort_levels_core Python2 ord np' ch' in (?l # ls, out))"
      using False drop(1) by (simp add: topsort_levels_core.simps [of Python2 ord np ch])
    ultimately show ?thesis
      using IH(2) by (intro exI [of _ "?l # levels"]) (auto split: if_splits)
  qed
qed


lemma in_set_concat_nth: "x \<in> set (concat xss) \<longleftrightarrow> (\<exists>j<length xss. x \<in> set (xss ! j))"
proof
  assume "x \<in> set (concat xss)"
  then obtain xs where "xs \<in> set xss" "x \<in> set xs" by auto
  then show "\<exists>j<length xss. x \<in> set (xss ! j)" by (metis in_set_conv_nth)
next
  assume "\<exists>j<length xss. x \<in> set (xss ! j)"
  then show "x \<in> set (concat xss)" by (auto intro: nth_mem)
qed

lemma level_parents_before:
  assumes "levels_ok E {} levels" and "j < length levels" and "c \<in> set (levels ! j)" and "(p, c) \<in> set E"
  shows "\<exists>i<j. p \<in> set (levels ! i)"
proof -
  from assms have "p \<in> settled {} levels j"
    by (auto simp: levels_ok_def avail_def indeg_0_iff)
  then have "p \<in> set (concat (take j levels))" by (simp add: settled_def)
  then show ?thesis using assms(2) unfolding in_set_concat_nth by auto
qed

lemma level_has_parent:
  assumes ok: "levels_ok E {} levels" and j: "Suc j < length levels" and c: "c \<in> set (levels ! Suc j)"
  shows "\<exists>p \<in> set (levels ! j). (p, c) \<in> set E"
proof -
  have Sj: "settled {} levels (Suc j) = settled {} levels j \<union> set (levels ! j)"
    using j by (simp add: settled_def take_Suc_conv_app_nth)
  from ok j have lj: "set (levels ! j) = avail E (settled {} levels j)"
    and lSj: "set (levels ! Suc j) = avail E (settled {} levels (Suc j))"
    by (simp_all add: levels_ok_def)
  from c lSj have c': "c \<in> nodes E" "c \<notin> settled {} levels (Suc j)" "indeg E (settled {} levels (Suc j)) c = 0"
    by (auto simp: avail_def)
  with Sj lj have "indeg E (settled {} levels j) c \<noteq> 0" by (auto simp: avail_def)
  then obtain p where "(p, c) \<in> set E" "p \<notin> settled {} levels j" by (auto simp: indeg_0_iff)
  moreover from this c'(3) have "p \<in> settled {} levels (Suc j)" by (auto simp: indeg_0_iff)
  ultimately show ?thesis using Sj by blast
qed

lemma levels_distinct:
  assumes "levels_ok E {} levels"
  shows "distinct (concat levels)"
proof -
  have "j \<le> length levels \<Longrightarrow> distinct (concat (take j levels))" for j
  proof (induction j)
    case 0
    then show ?case by simp
  next
    case (Suc j)
    then have "distinct (levels ! j)" "set (levels ! j) = avail E (settled {} levels j)"
      using assms by (simp_all add: levels_ok_def)
    with Suc show ?case
      by (auto simp: take_Suc_conv_app_nth avail_def settled_def)
  qed
  from this [of "length levels"] show ?thesis by simp
qed

lemma levels_acyclic:
  assumes ok: "levels_ok E {} levels"
  shows "nodes E \<subseteq> settled {} levels (length levels) \<longleftrightarrow> acyclic (set E)"
proof
  assume sub: "nodes E \<subseteq> settled {} levels (length levels)"
  let ?lev = "\<lambda>x. LEAST j. j < length levels \<and> x \<in> set (levels ! j)"
  have "?lev p < ?lev c" if e: "(p, c) \<in> set E" for p c
  proof -
    have "c \<in> nodes E" using e by (force simp: nodes_def)
    with sub have "c \<in> set (concat levels)" by (auto simp: settled_def)
    then have ex: "\<exists>j. j < length levels \<and> c \<in> set (levels ! j)"
      unfolding in_set_concat_nth by blast
    from LeastI_ex [OF ex] have lc: "?lev c < length levels" "c \<in> set (levels ! ?lev c)"
      by (rule conjunct1, rule conjunct2)
    from level_parents_before [OF ok lc e] obtain i where i: "i < ?lev c" "p \<in> set (levels ! i)"
      by (elim exE conjE)
    then have "i < length levels" using lc(1) by linarith
    with i(2) have "?lev p \<le> i" by (intro Least_le conjI)
    moreover note i(1)
    ultimately show ?thesis by simp
  qed
  then have "set E \<subseteq> measure ?lev" by auto
  then show "acyclic (set E)" by (rule acyclic_subset [OF wf_acyclic [OF wf_measure]])
next
  assume ac: "acyclic (set E)"
  show "nodes E \<subseteq> settled {} levels (length levels)"
  proof (rule ccontr)
    let ?A = "nodes E - settled {} levels (length levels)"
    assume "\<not> ?thesis"
    then have "?A \<noteq> {}" by blast
    moreover have "\<forall>x\<in>?A. \<exists>a\<in>?A. (a, x) \<in> set E"
    proof
      fix x assume x: "x \<in> ?A"
      with ok have "indeg E (settled {} levels (length levels)) x \<noteq> 0"
        by (auto simp: levels_ok_def avail_def)
      then obtain a where a: "(a, x) \<in> set E" "a \<notin> settled {} levels (length levels)"
        by (auto simp: indeg_0_iff)
      then have "a \<in> nodes E" by (force simp: nodes_def)
      with a show "\<exists>a\<in>?A. (a, x) \<in> set E" by blast
    qed
    moreover have "finite ?A" by (simp add: nodes_def)
    ultimately show False using ac all_have_parent_cyclic by blast
  qed
qed

lemma topsort_levels_result:
  assumes "key_order ord"
  obtains levels out where "topsort_levels Python2 ord E = Inr (levels, out)"
    and "levels_ok E {} levels" and "out = Inr () \<longleftrightarrow> acyclic (set E)"
    and "out = Inr () \<or> (\<exists>np ch. out = Inl (CycleError [] np ch))"
proof -
  from count_pairs_state [of E] obtain np ch where
    np: "count_pairs Python2 E = Inr (np, ch)" and "graph_state E {} np ch" by blast
  from topsort_levels_core_spec [OF assms this(2)] obtain ls where
    ls: "levels_ok E {} ls"
      "if nodes E \<subseteq> settled {} ls (length ls) then topsort_levels_core Python2 ord np ch = (ls, Inr ())
       else \<exists>np' ch'. topsort_levels_core Python2 ord np ch = (ls, Inl (CycleError [] np' ch'))" by blast
  then obtain out where out: "topsort_levels_core Python2 ord np ch = (ls, out)"
    "out = Inr () \<longleftrightarrow> nodes E \<subseteq> settled {} ls (length ls)"
    "out = Inr () \<or> (\<exists>np' ch'. out = Inl (CycleError [] np' ch'))"
    by (auto split: if_splits)
  with levels_acyclic [OF ls(1)] that [of ls out] ls(1) np show ?thesis
    by (simp add: topsort_levels_def)
qed

section \<open>Properties\<close>

text \<open>
  C1. Whatever \<open>topsort\<close> returns, on either interpreter, holds every element of the pairs
  exactly once, and each parent before each of its children, whatever the iteration order of
  the dictionary. On Python 3 it returns for the empty list only.
\<close>

theorem topsort_sorts:
  assumes "key_order ord" and "topsort py ord pairlist = Inr answer"
  shows "distinct answer \<and> set answer = nodes pairlist \<and>
    (\<forall>(parent, child) \<in> set pairlist. before answer parent child) \<and>
    (py = Python2 \<or> pairlist = [])"
proof -
  note p2 = topsort_returns_python2 [OF assms(2)]
  from topsort_result [of ord pairlist, OF assms(1)] p2(1) obtain np ch where
    "loop_inv pairlist answer [] np ch" "nodes pairlist \<subseteq> set answer"
    by (auto split: if_splits)
  with p2(2) show ?thesis by (force simp: loop_inv_def topo_ordered_def nodes_def)
qed

theorem topsort_sorts_witness:
  "topsort Python2 rev [(1, 2), (2, 3), (1, 3 :: nat)] = Inr [1, 2, 3] \<and> before [1, 2, 3 :: nat] 1 3"
proof -
  have run: "topsort Python2 rev [(1, 2), (2, 3), (1, 3 :: nat)] = Inr [1, 2, 3]" by code_simp
  from topsort_sorts [OF reverse_order.key_order_axioms run] run show ?thesis by simp
qed

text \<open>
  C26. On Python 2 \<open>topsort\<close> returns a list exactly for the acyclic inputs. On Python 3, where
  dictionaries have no \<open>has_key\<close>, it returns for no input but the empty list, and ends with
  an \<open>AttributeError\<close> for every other.
\<close>

theorem topsort_total:
  assumes "key_order ord"
  shows "((\<exists>answer. topsort py ord pairlist = Inr answer) \<longleftrightarrow>
      (py = Python2 \<and> acyclic (set pairlist) \<or> pairlist = [])) \<and>
    (topsort py ord pairlist = Inl SortAttribute \<longleftrightarrow> py = Python3 \<and> pairlist \<noteq> [])"
proof (cases py)
  case Python2
  from topsort_result [of ord pairlist, OF assms] obtain visited np ch where
    inv: "loop_inv pairlist visited [] np ch" and
    eq: "topsort Python2 ord pairlist = (if nodes pairlist \<subseteq> set visited then Inr visited
       else Inl (CycleError visited np ch))" by blast
  from inv have "topo_ordered pairlist visited" "distinct visited" by (auto simp: loop_inv_def)
  with eq topo_ordered_acyclic stuck_cyclic [OF inv]
  have "(\<exists>answer. topsort Python2 ord pairlist = Inr answer) \<longleftrightarrow> acyclic (set pairlist)"
    by (metis Inl_Inr_False)
  moreover have "acyclic {}" by (simp add: acyclic_def)
  ultimately show ?thesis using Python2 eq by auto
qed (simp add: topsort_python3)

theorem topsort_total_witness:
  "acyclic {(1, 2), (2, 3 :: nat)} \<and> \<not> acyclic {(2, 3), (3, 2 :: nat)}
    \<and> topsort Python3 rev [(1, 2 :: nat)] = Inl SortAttribute"
proof -
  have "\<exists>answer. topsort Python2 rev [(1, 2), (2, 3 :: nat)] = Inr answer"
    by (rule exI [of _ "[1, 2, 3]"]) code_simp
  moreover have "topsort Python2 rev [(2, 3), (3, 2 :: nat)]
      = Inl (CycleError [] [(2, 1), (3, 1)] [(2, [3]), (3, [2])])"
    by code_simp
  ultimately show ?thesis
    using topsort_total [OF reverse_order.key_order_axioms, of Python2 "[(1, 2), (2, 3 :: nat)]"]
      topsort_total [OF reverse_order.key_order_axioms, of Python2 "[(2, 3), (3, 2 :: nat)]"]
      topsort_total [OF reverse_order.key_order_axioms, of Python3 "[(1, 2 :: nat)]"]
    by simp
qed

text \<open>
  On Python 2 \<open>topsort\<close> never fails with a \<open>KeyError\<close>: the only
  exception it raises is the \<open>CycleError\<close> it announces, and that error carries, beside
  the part already sorted, a non-empty set of nodes each of which has a parent in the set.
\<close>

theorem topsort_cycle_error:
  assumes "key_order ord" and "topsort Python2 ord pairlist = Inl e"
  shows "\<exists>answer np ch. e = CycleError answer np ch \<and> np \<noteq> [] \<and>
    set (keys np) = nodes pairlist - set answer \<and>
    (\<forall>x\<in>set (keys np). \<exists>p\<in>set (keys np). (p, x) \<in> set pairlist)"
proof -
  from topsort_result [of ord pairlist, OF assms(1)] assms(2) obtain answer np ch where
    inv: "loop_inv pairlist answer [] np ch" and left: "\<not> nodes pairlist \<subseteq> set answer"
    and e: "e = CycleError answer np ch"
    by (auto split: if_splits)
  then have gs: "graph_state pairlist (set answer) np ch" by (simp add: loop_inv_def)
  have np: "set (keys np) = nodes pairlist - set answer"
    using keys_graph_state [OF gs] by blast
  with left have "np \<noteq> []" by auto
  moreover have "\<forall>x\<in>set (keys np). \<exists>p\<in>set (keys np). (p, x) \<in> set pairlist"
    unfolding np using stuck_parents [OF inv] by blast
  ultimately show ?thesis using e np by blast
qed

theorem topsort_cycle_error_witness:
  "\<exists>p \<in> {2, 3 :: nat}. (p, 2) \<in> {(1, 2), (2, 3), (3, 2)}"
proof -
  have "topsort Python2 rev [(1, 2), (2, 3), (3, 2 :: nat)]
      = Inl (CycleError [1] [(2, 1), (3, 1)] [(2, [3]), (3, [2])])" by code_simp
  from topsort_cycle_error [OF reverse_order.key_order_axioms this] show ?thesis by auto
qed

text \<open>
  C27. On Python 2 \<open>topsort_levels\<close> always returns its generator, which ends without an
  exception exactly for acyclic inputs and with \<open>CycleError\<close> for the others; for acyclic
  inputs its levels partition the elements; in any case every parent of an element of level
  \<open>j\<close> is in an earlier level, and an element of level \<open>j + 1\<close> has a parent in
  level \<open>j\<close>, so the level of an element is the length of the longest chain above it. On
  Python 3 the call raises \<open>AttributeError\<close> unless there are no pairs, and then the
  generator yields nothing and ends with the \<open>RuntimeError\<close> that \<open>raise StopIteration\<close> is there.
\<close>

theorem topsort_levels_layers:
  assumes "key_order ord"
  shows "case topsort_levels py ord pairlist of
      Inl e \<Rightarrow> py = Python3 \<and> pairlist \<noteq> [] \<and> e = SortAttribute
    | Inr (levels, out) \<Rightarrow>
        (py = Python2 \<or> pairlist = [] \<and> out = Inl SortRuntime) \<and>
        (py = Python2 \<longrightarrow> (if acyclic (set pairlist) then out = Inr ()
           else (\<exists>np ch. out = Inl (CycleError [] np ch)))) \<and>
        (acyclic (set pairlist) \<longrightarrow> set (concat levels) = nodes pairlist) \<and>
        distinct (concat levels) \<and>
        (\<forall>j<length levels. \<forall>c\<in>set (levels ! j). \<forall>p. (p, c) \<in> set pairlist \<longrightarrow> (\<exists>i<j. p \<in> set (levels ! i))) \<and>
        (\<forall>j. Suc j < length levels \<longrightarrow> (\<forall>c\<in>set (levels ! Suc j). \<exists>p\<in>set (levels ! j). (p, c) \<in> set pairlist))"
proof (cases py)
  case Python2
  obtain levels out where run: "topsort_levels Python2 ord pairlist = Inr (levels, out)"
    and ok: "levels_ok pairlist {} levels" and out: "out = Inr () \<longleftrightarrow> acyclic (set pairlist)"
    "out = Inr () \<or> (\<exists>np ch. out = Inl (CycleError [] np ch))"
    using topsort_levels_result [OF assms, of pairlist] .
  have sub: "set (concat levels) \<subseteq> nodes pairlist"
    using ok unfolding in_set_concat_nth subset_iff by (auto simp: levels_ok_def avail_def)
  have "acyclic (set pairlist) \<longrightarrow> set (concat levels) = nodes pairlist"
    using levels_acyclic [OF ok] sub by (auto simp: settled_def)
  moreover have "if acyclic (set pairlist) then out = Inr () else \<exists>np ch. out = Inl (CycleError [] np ch)"
    using out by auto
  ultimately show ?thesis
    using levels_distinct [OF ok] level_parents_before [OF ok] level_has_parent [OF ok]
    unfolding Python2 run by auto
qed (simp add: topsort_levels_python3 nodes_def)

theorem topsort_levels_layers_witness:
  "set (concat [[1], [2, 3], [4 :: nat]]) = nodes [(1, 2), (1, 3), (2, 4), (3, 4)]
    \<and> topsort_levels Python3 rev [(1, 2 :: nat)] = Inl SortAttribute"
proof -
  have run: "topsort_levels Python2 rev [(1, 2), (1, 3), (2, 4), (3, 4 :: nat)] = Inr ([[1], [3, 2], [4]], Inr ())"
    and run3: "topsort_levels Python3 rev [(1, 2 :: nat)] = Inl SortAttribute"
    by code_simp+
  from topsort_levels_layers [OF reverse_order.key_order_axioms, of Python2 "[(1, 2), (1, 3), (2, 4), (3, 4 :: nat)]"]
  have "set (concat [[1], [3, 2], [4]]) = nodes [(1, 2), (1, 3), (2, 4), (3, 4 :: nat)]"
    unfolding run sum.case prod.case by (metis Inr_Inl_False)
  with run3 show ?thesis by auto
qed

end
