(* ===== verification/RadSeq.thy ===== *)
theory RadSeq
  imports PyStr
begin

text \<open>
  The sequence and string functions of bindings/python/rad_util.py: \<open>reverse\<close>,
  \<open>transpose\<close>, \<open>permutations\<close>, \<open>uniquify\<close>, \<open>reverse_dict\<close>,
  \<open>find_common_fixes\<close>, \<open>is_rotated\<close> and \<open>get_args\<close>. The interface
  \<open>rotation_test\<close> is what the search for cycles relies on. The file is a Python 2 module (its
  assignment to \<open>True\<close> and \<open>False\<close> does not compile on Python 3); lists stand for what
  \<open>map\<close>, \<open>zip\<close> and \<open>filter\<close> return there.
\<close>

section \<open>Definitions\<close>

definition reverse :: "string \<Rightarrow> string" where
  "reverse input_string = (let str_list = rev input_string in concat (map (\<lambda>c. [c]) str_list))"

text \<open>\<open>zip( *matrix)\<close> stops at the end of the shortest row and is empty without rows.\<close>

definition zip_width :: "'a list list \<Rightarrow> nat" where
  "zip_width m = (case m of [] \<Rightarrow> 0 | r # rs \<Rightarrow> foldl (\<lambda>n row. min n (length row)) (length r) rs)"

definition transpose_py :: "'a list list \<Rightarrow> 'a list list" where
  "transpose_py matrix = map (\<lambda>j. map (\<lambda>row. row ! j) matrix) [0..<zip_width matrix]"

text \<open>\<open>new_list = sub_list[:]; new_list.insert(i, item)\<close>.\<close>

definition insert_at :: "nat \<Rightarrow> 'a \<Rightarrow> 'a list \<Rightarrow> 'a list" where
  "insert_at i item xs = take i xs @ item # drop i xs"

fun permutations :: "'a list \<Rightarrow> 'a list list" where
  "permutations (item # x # rest) =
     concat (map (\<lambda>sub_list. map (\<lambda>i. insert_at i item sub_list) [0..<length (item # x # rest)])
       (permutations (x # rest)))"
| "permutations input_list = [input_list]"

text \<open>
  \<open>uniquify\<close>. \<open>hashable\<close> says which items can be dictionary keys: the fast paths
  raise \<open>TypeError\<close> at the first item that cannot. \<open>ord\<close> is the order in which
  \<open>d.keys()\<close> returns the keys.
\<close>

fun uniq_fast :: "('a \<Rightarrow> bool) \<Rightarrow> 'a list \<Rightarrow> 'a list \<Rightarrow> 'a list res" where
  "uniq_fast hashable d [] = Inr []"
| "uniq_fast hashable d (x # seq) =
     (if \<not> hashable x then Inl TypeError
      else if x \<in> set d then uniq_fast hashable d seq
      else and_then (uniq_fast hashable (d @ [x]) seq) (\<lambda>ys. Inr (x # ys)))"

fun uniq_keys :: "('a \<Rightarrow> bool) \<Rightarrow> ('a, nat) dict \<Rightarrow> 'a list \<Rightarrow> ('a, nat) dict res" where
  "uniq_keys hashable d [] = Inr d"
| "uniq_keys hashable d (x # seq) =
     (if \<not> hashable x then Inl TypeError else uniq_keys hashable (AList.update x 0 d) seq)"

fun uniq_slow :: "'a list \<Rightarrow> 'a list \<Rightarrow> 'a list" where
  "uniq_slow result [] = result"
| "uniq_slow result (x # seq) = uniq_slow (if x \<notin> set result then result @ [x] else result) seq"

definition uniquify ::
  "('a \<Rightarrow> bool) \<Rightarrow> ('a list \<Rightarrow> 'a list) \<Rightarrow> 'a list \<Rightarrow> bool \<Rightarrow> 'a list res" where
  "uniquify hashable ord seq preserve_order =
     (case (if preserve_order then uniq_fast hashable [] seq
            else and_then (uniq_keys hashable [] seq) (\<lambda>d. Inr (ord (keys d)))) of
        Inr r \<Rightarrow> Inr r
      | Inl TypeError \<Rightarrow> Inr (uniq_slow [] seq)
      | Inl e \<Rightarrow> Inl e)"

definition reverse_dict ::
  "(('k \<times> 'v) list \<Rightarrow> ('k \<times> 'v) list) \<Rightarrow> ('k, 'v) dict \<Rightarrow> ('v, 'k) dict" where
  "reverse_dict ord d = foldl (\<lambda>result (key, v). AList.update v key result) [] (ord d)"

function prefix_loop :: "'a list \<Rightarrow> 'a list \<Rightarrow> nat \<Rightarrow> 'a list \<Rightarrow> 'a list" where
  "prefix_loop s1 s2 i acc =
     (if i < min (length s1) (length s2)
      then (if s1 ! i \<noteq> s2 ! i then acc else prefix_loop s1 s2 (i + 1) (acc @ [s1 ! i]))
      else acc)"
  by pat_completeness auto
termination
  by (relation "measure (\<lambda>(s1, s2, i, acc). min (length s1) (length s2) - i)") auto

text \<open>\<open>s[-i]\<close> for \<open>1 \<le> i \<le> len(s)\<close> is the element at \<open>len(s) - i\<close>.\<close>

function suffix_loop :: "'a list \<Rightarrow> 'a list \<Rightarrow> nat \<Rightarrow> 'a list \<Rightarrow> 'a list" where
  "suffix_loop s1 s2 i acc =
     (if i < min (length s1) (length s2) + 1
      then (if s1 ! (length s1 - i) \<noteq> s2 ! (length s2 - i) then acc
            else suffix_loop s1 s2 (i + 1) (acc @ [s1 ! (length s1 - i)]))
      else acc)"
  by pat_completeness auto
termination
  by (relation "measure (\<lambda>(s1, s2, i, acc). min (length s1) (length s2) + 1 - i)") auto

declare prefix_loop.simps [simp del] suffix_loop.simps [simp del]

definition find_common_fixes :: "'a list \<Rightarrow> 'a list \<Rightarrow> 'a list \<times> 'a list" where
  "find_common_fixes s1 s2 = (prefix_loop s1 s2 0 [], rev (suffix_loop s1 s2 1 []))"

definition is_rotated :: "'a list \<Rightarrow> 'a list \<Rightarrow> bool res" where
  "is_rotated seq1 seq2 =
     (if length seq1 \<noteq> length seq2 then Inr False
      else and_then (py_nth seq2 0) (\<lambda>head_item.
        let start_indexes = filter (\<lambda>index1. seq1 ! index1 = head_item) [0..<length seq1];
            double_seq1 = seq1 @ seq1
        in Inr (list_ex (\<lambda>index1.
             slice double_seq1 (int index1) (int (index1 + length seq1)) = seq2) start_indexes)))"

datatype arg_value = ArgStr string | ArgNone | ArgList "string list"

definition is_option :: "string \<Rightarrow> bool" where
  "is_option arg = startswith arg ''-''"

definition parse_option :: "string \<Rightarrow> string \<times> arg_value" where
  "parse_option arg =
     (let parts = split_on CHR ''='' (dropWhile (\<lambda>c. c = CHR ''-'') arg)
      in if length parts = 2 then (parts ! 0, ArgStr (parts ! 1)) else (parts ! 0, ArgNone))"

fun get_args_loop ::
  "(string, arg_value) dict \<Rightarrow> string list \<Rightarrow> string list \<Rightarrow> (string, arg_value) dict \<times> string list" where
  "get_args_loop d args [] = (d, args)"
| "get_args_loop d args (arg # argv) =
     (if is_option arg
      then get_args_loop (AList.update (fst (parse_option arg)) (snd (parse_option arg)) d) args argv
      else get_args_loop d (args @ [arg]) argv)"

definition get_args :: "string list \<Rightarrow> (string, arg_value) dict" where
  "get_args argv = (let (d, args) = get_args_loop [] [] argv in AList.update ''args'' (ArgList args) d)"

section \<open>Transposition\<close>

lemma zip_width_rect:
  assumes "m \<noteq> []" and "\<forall>row\<in>set m. length row = n"
  shows "zip_width m = n"
proof -
  have "\<forall>row\<in>set rs. length row = n \<Longrightarrow> foldl (\<lambda>n row. min n (length row)) n rs = n" for rs :: "'a list list"
    by (induction rs) auto
  with assms show ?thesis by (cases m) (auto simp: zip_width_def)
qed

lemma transpose_shape:
  "length (transpose_py m) = zip_width m" "row \<in> set (transpose_py m) \<Longrightarrow> length row = length m"
  by (auto simp: transpose_py_def)

lemma transpose_nth:
  "j < zip_width m \<Longrightarrow> i < length m \<Longrightarrow> transpose_py m ! j ! i = m ! i ! j"
  by (simp add: transpose_py_def)

section \<open>Permutations\<close>

lemma mset_insert_at: "mset (insert_at i x xs) = add_mset x (mset xs)"
  by (simp add: insert_at_def) (metis append_take_drop_id mset_append union_mset_add_mset_right)

lemma insert_at_range: "ys \<in> set (map (\<lambda>i. insert_at i x sub) [0..<Suc (length sub)]) \<longleftrightarrow>
    (\<exists>us vs. sub = us @ vs \<and> ys = us @ x # vs)"
proof
  assume "ys \<in> set (map (\<lambda>i. insert_at i x sub) [0..<Suc (length sub)])"
  then obtain i where "ys = take i sub @ x # drop i sub"
    by (auto simp: insert_at_def simp del: upt_Suc)
  then show "\<exists>us vs. sub = us @ vs \<and> ys = us @ x # vs" by (metis append_take_drop_id)
next
  assume "\<exists>us vs. sub = us @ vs \<and> ys = us @ x # vs"
  then obtain us vs where "sub = us @ vs" "ys = us @ x # vs" by blast
  then have "ys = insert_at (length us) x sub" "length us < Suc (length sub)"
    by (auto simp: insert_at_def)
  then show "ys \<in> set (map (\<lambda>i. insert_at i x sub) [0..<Suc (length sub)])"
    by (auto simp del: upt_Suc)
qed

lemma permutations_length_mem: "ys \<in> set (permutations xs) \<Longrightarrow> length ys = length xs"
  by (induction xs arbitrary: ys rule: permutations.induct) (auto simp: insert_at_def)

lemma set_permutations: "set (permutations xs) = {ys. mset ys = mset xs}"
proof (induction xs rule: permutations.induct)
  case (1 item x rest)
  let ?tl = "x # rest"
  have len: "length sub = length ?tl" if "sub \<in> set (permutations ?tl)" for sub
    using that by (rule permutations_length_mem)
  show ?case
  proof (intro set_eqI iffI)
    fix ys assume "ys \<in> set (permutations (item # ?tl))"
    then obtain sub i where "sub \<in> set (permutations ?tl)" "ys = insert_at i item sub"
      by (auto simp del: upt_Suc)
    with "1.IH" show "ys \<in> {ys. mset ys = mset (item # ?tl)}" by (simp add: mset_insert_at)
  next
    fix ys assume "ys \<in> {ys. mset ys = mset (item # ?tl)}"
    then have ms: "mset ys = add_mset item (mset ?tl)" by simp
    then have "item \<in> set ys" by (metis mset_eq_setD set_mset_mset union_single_eq_member mset.simps(2) list.set_intros(1))
    then obtain us vs where ys: "ys = us @ item # vs" by (metis split_list)
    with ms have sub: "us @ vs \<in> set (permutations ?tl)" using "1.IH" by simp
    with ys have "ys \<in> set (map (\<lambda>i. insert_at i item (us @ vs)) [0..<length (item # x # rest)])"
      using insert_at_range [of ys item "us @ vs"] len [OF sub] by (auto simp del: upt_Suc)
    with sub show "ys \<in> set (permutations (item # ?tl))"
      unfolding permutations.simps set_concat set_map [of _ "permutations ?tl"]
      by (intro UN_I [OF imageI [OF sub]])
  qed
qed auto

lemma length_permutations: "length (permutations xs) = fact (length xs)"
proof (induction xs rule: permutations.induct)
  case (1 item x rest)
  have "length (concat (map (\<lambda>sub. map (\<lambda>i. insert_at i item sub) [0..<n]) ps)) = n * length ps" for n ps
    by (induction ps) auto
  with 1 show ?case by (simp del: upt_Suc add: algebra_simps)
qed auto

lemma permutations_distinct:
  assumes "distinct xs"
  shows "distinct (permutations xs)"
proof -
  have "{ys. mset ys = mset xs} = {ys. length ys = length xs \<and> distinct ys \<and> set ys \<subseteq> set xs}"
  proof (intro set_eqI iffI)
    fix ys assume "ys \<in> {ys. mset ys = mset xs}"
    then have "mset ys = mset xs" by simp
    with assms show "ys \<in> {ys. length ys = length xs \<and> distinct ys \<and> set ys \<subseteq> set xs}"
      by (auto dest: mset_eq_length mset_eq_setD mset_eq_imp_distinct_iff)
  next
    fix ys assume "ys \<in> {ys. length ys = length xs \<and> distinct ys \<and> set ys \<subseteq> set xs}"
    then have ys: "length ys = length xs" "distinct ys" "set ys \<subseteq> set xs" by auto
    with assms have "set ys = set xs"
      by (metis card_subset_eq distinct_card List.finite_set)
    with assms ys(2) show "ys \<in> {ys. mset ys = mset xs}"
      by (simp add: set_eq_iff_mset_eq_distinct)
  qed
  then have "card (set (permutations xs)) = \<Prod>{card (set xs) - length xs + 1 .. card (set xs)}"
    using assms card_lists_distinct_length_eq [of "set xs" "length xs"]
    by (simp add: set_permutations distinct_card)
  also have "\<dots> = fact (length xs)" using assms by (simp add: distinct_card fact_prod)
  finally show ?thesis by (intro card_distinct) (simp add: length_permutations)
qed

section \<open>Removing duplicates\<close>

definition first_occurrences :: "'a list \<Rightarrow> 'a list" where
  "first_occurrences xs = rev (remdups (rev xs))"

lemma first_occurrences_snoc:
  "first_occurrences (xs @ [x]) = first_occurrences xs @ (if x \<in> set xs then [] else [x])"
  by (simp add: first_occurrences_def)

lemma uniq_slow_spec:
  "uniq_slow (first_occurrences xs) seq = first_occurrences (xs @ seq)"
proof (induction seq arbitrary: xs)
  case Nil
  then show ?case by simp
next
  case (Cons x seq)
  have "uniq_slow (first_occurrences xs) (x # seq) = uniq_slow (first_occurrences (xs @ [x])) seq"
    by (simp add: first_occurrences_snoc) (simp add: first_occurrences_def)
  with Cons [of "xs @ [x]"] show ?case by simp
qed

lemma uniq_fast_spec:
  "uniq_fast hashable (first_occurrences xs) seq =
     (if \<forall>x\<in>set seq. hashable x
      then Inr (drop (length (first_occurrences xs)) (first_occurrences (xs @ seq)))
      else Inl TypeError)"
proof (induction seq arbitrary: xs)
  case Nil
  then show ?case by simp
next
  case (Cons x seq)
  have pre: "\<exists>zs. first_occurrences (us @ vs) = first_occurrences us @ zs" for us vs :: "'a list"
  proof (induction vs rule: rev_induct)
    case (snoc v vs)
    then show ?case
      using first_occurrences_snoc [of "us @ vs" v] by (metis append_assoc)
  qed simp
  have mem: "x \<in> set (first_occurrences xs) \<longleftrightarrow> x \<in> set xs"
    by (simp add: first_occurrences_def)
  obtain zs where zs: "first_occurrences (xs @ x # seq) = first_occurrences (xs @ [x]) @ zs"
    using pre [of "xs @ [x]" seq] by auto
  show ?case using Cons [of "xs @ [x]"] zs mem
    by (auto simp: first_occurrences_snoc res_simps)
qed

lemma uniq_keys_spec:
  "uniq_keys hashable d seq =
     (if \<forall>x\<in>set seq. hashable x then Inr (foldl (\<lambda>d x. AList.update x 0 d) d seq) else Inl TypeError)"
  by (induction seq arbitrary: d) auto

lemma keys_foldl_update:
  "wf_dict d \<Longrightarrow> set (keys (foldl (\<lambda>d x. AList.update x 0 d) d seq)) = set (keys d) \<union> set seq
     \<and> wf_dict (foldl (\<lambda>d x. AList.update x 0 d) d seq)"
  by (induction seq arbitrary: d) (auto simp: dom_update)


section \<open>Common prefix and suffix\<close>

lemma prefix_loop_shift:
  "prefix_loop (x # s1) (y # s2) (Suc i) acc = prefix_loop s1 s2 i acc"
proof (induction s1 s2 i acc rule: prefix_loop.induct)
  case (1 s1 s2 i acc)
  then show ?case
    by (simp add: prefix_loop.simps [of s1 s2 i acc] prefix_loop.simps [of "x # s1" "y # s2" "Suc i" acc])
qed

fun lcp :: "'a list \<Rightarrow> 'a list \<Rightarrow> 'a list" where
  "lcp (x # xs) (y # ys) = (if x = y then x # lcp xs ys else [])"
| "lcp _ _ = []"

lemma prefix_loop_acc: "prefix_loop s1 s2 i (as @ acc) = as @ prefix_loop s1 s2 i acc"
proof (induction s1 s2 i acc rule: prefix_loop.induct)
  case (1 s1 s2 i acc)
  then show ?case
    by (simp add: prefix_loop.simps [of s1 s2 i acc] prefix_loop.simps [of s1 s2 i "as @ acc"])
qed

lemma prefix_loop_lcp: "prefix_loop s1 s2 0 [] = lcp s1 s2"
proof (induction s1 s2 rule: lcp.induct)
  case (1 x xs y ys)
  show ?case
  proof (cases "x = y")
    case True
    have "prefix_loop (x # xs) (y # ys) 0 [] = prefix_loop (x # xs) (y # ys) (Suc 0) [y]"
      using True prefix_loop.simps [of "x # xs" "y # ys" 0 "[]"] by simp
    also have "\<dots> = y # prefix_loop xs ys 0 []"
      using prefix_loop_acc [of xs ys 0 "[y]" "[]"] by (simp add: prefix_loop_shift)
    finally show ?thesis using True 1 by simp
  next
    case False
    then show ?thesis using prefix_loop.simps [of "x # xs" "y # ys" 0 "[]"] by simp
  qed
qed (simp_all add: prefix_loop.simps)

lemma suffix_loop_prefix_loop:
  "i \<ge> 1 \<Longrightarrow> suffix_loop s1 s2 i acc = prefix_loop (rev s1) (rev s2) (i - 1) acc"
proof (induction s1 s2 i acc rule: suffix_loop.induct)
  case (1 s1 s2 i acc)
  obtain j where j: "i = Suc j" using "1.prems" by (cases i) auto
  show ?case
  proof (cases "i < min (length s1) (length s2) + 1")
    case True
    then have "rev s1 ! j = s1 ! (length s1 - i)" "rev s2 ! j = s2 ! (length s2 - i)"
      using j by (simp_all add: rev_nth)
    then show ?thesis
      using 1(1) True j suffix_loop.simps [of s1 s2 i acc] prefix_loop.simps [of "rev s1" "rev s2" j acc]
      by simp
  next
    case False
    then have "\<not> (j < length s1 \<and> j < length s2)" using j by auto
    then show ?thesis
      using j suffix_loop.simps [of s1 s2 i acc] prefix_loop.simps [of "rev s1" "rev s2" j acc] by auto
  qed
qed

lemma prefix_lcp: "prefix p (lcp s1 s2) \<longleftrightarrow> prefix p s1 \<and> prefix p s2"
proof (induction s1 s2 arbitrary: p rule: lcp.induct)
  case (1 x xs y ys)
  then show ?case by (cases p) auto
qed auto

section \<open>Rotations\<close>

lemma slice_nat: "slice xs (int a) (int b) = drop a (take b xs)"
  by (auto simp: slice_def slice_bound_def min_def)

lemma slice_double_rotate:
  "i < length xs \<Longrightarrow> slice (xs @ xs) (int i) (int (i + length xs)) = rotate i xs"
  by (simp add: slice_nat rotate_drop_take del: of_nat_add)

lemma is_rotated_rotate:
  assumes "seq2 \<noteq> []"
  shows "is_rotated seq1 seq2 = Inr (\<exists>n. seq2 = rotate n seq1)"
proof (cases "length seq1 = length seq2")
  case False
  then show ?thesis by (auto simp: is_rotated_def)
next
  case True
  have "list_ex (\<lambda>i. slice (seq1 @ seq1) (int i) (int (i + length seq1)) = seq2)
      (filter (\<lambda>i. seq1 ! i = seq2 ! 0) [0..<length seq1]) \<longleftrightarrow> (\<exists>n. seq2 = rotate n seq1)"
    (is "?L \<longleftrightarrow> ?R")
  proof
    assume ?L
    then obtain i where "i < length seq1" "slice (seq1 @ seq1) (int i) (int (i + length seq1)) = seq2"
      by (auto simp: list_ex_iff simp del: of_nat_add)
    then show ?R by (metis slice_double_rotate)
  next
    assume ?R
    then obtain n where "seq2 = rotate n seq1" by blast
    then have i: "n mod length seq1 < length seq1" "seq2 = rotate (n mod length seq1) seq1"
      using assms True rotate_conv_mod [of n seq1] by (metis length_greater_0_conv mod_less_divisor, metis)
    moreover from i have "seq1 ! (n mod length seq1) = seq2 ! 0"
      using nth_rotate [of 0 seq1 "n mod length seq1"] by fastforce
    ultimately show ?L
      by (auto simp: list_ex_iff slice_double_rotate simp del: of_nat_add)
  qed
  then show ?thesis
    using True assms py_nth_nonneg [of seq2 0] by (simp add: is_rotated_def Let_def del: of_nat_add)
qed

section \<open>Command-line arguments\<close>

lemma get_args_loop_spec:
  "get_args_loop d args argv =
     (foldl (\<lambda>d (k, v). AList.update k v d) d (map parse_option (filter is_option argv)),
      args @ filter (\<lambda>a. \<not> is_option a) argv)"
  by (induction argv arbitrary: d args) (auto simp: case_prod_beta)


section \<open>Properties\<close>

text \<open>
  \<open>permutations\<close> returns every arrangement of its input and nothing else: n! lists,
  and no list twice when the items differ from one another.
\<close>
theorem permutations_enumerates:
  "set (permutations xs) = {ys. mset ys = mset xs}
   \<and> length (permutations xs) = fact (length xs)
   \<and> (distinct xs \<longrightarrow> distinct (permutations xs))"
  by (simp add: set_permutations length_permutations permutations_distinct)

theorem permutations_enumerates_witness:
  "distinct (permutations [1::nat, 2, 3]) \<and> length (permutations [1::nat, 2, 3]) = 6"
  using permutations_enumerates [of "[1::nat, 2, 3]"] by (simp add: fact_numeral)

text \<open>
  \<open>uniquify\<close> never raises: its result has each item of the sequence exactly once,
  and in the order of the first occurrences when the caller asks for the order or when some
  item is not hashable, whichever of the three loops computed it.
\<close>
theorem uniquify_correct:
  assumes "key_order ord"
  shows "\<exists>r. uniquify hashable ord seq preserve_order = Inr r \<and> distinct r \<and> set r = set seq
    \<and> (preserve_order \<or> \<not> list_all hashable seq \<longrightarrow> r = first_occurrences seq)"
proof -
  have slow: "uniq_slow [] seq = first_occurrences seq"
    using uniq_slow_spec [of "[]" seq] by (simp add: first_occurrences_def)
  have fast: "uniq_fast hashable [] seq
      = (if list_all hashable seq then Inr (first_occurrences seq) else Inl TypeError)"
    using uniq_fast_spec [of hashable "[]" seq] by (simp add: first_occurrences_def list_all_iff)
  have fo: "distinct (first_occurrences seq)" "set (first_occurrences seq) = set seq"
    by (auto simp: first_occurrences_def)
  let ?d = "foldl (\<lambda>d x. AList.update x 0 d) [] seq :: ('a, nat) dict"
  have ks: "set (keys ?d) = set seq" "distinct (keys ?d)"
    using keys_foldl_update [of "[]" seq] by (auto simp: wf_dict_def)
  have "set (ord (keys ?d)) = set seq" "distinct (ord (keys ?d))"
    using ks key_order.set_ord [OF assms] key_order.distinct_ord [OF assms] by metis+
  with slow fast fo show ?thesis
    by (auto simp: uniquify_def uniq_keys_spec list_all_iff)
qed


theorem uniquify_correct_witness:
  "uniquify (\<lambda>x. x \<noteq> 9) rev [3::nat, 1, 9, 3, 1] False = Inr [3, 1, 9]"
  using uniquify_correct [OF reverse_order.key_order_axioms,
      of "\<lambda>x. x \<noteq> 9" "[3::nat, 1, 9, 3, 1]" False]
  by (auto simp: first_occurrences_def)

lemma reverse_dict_puts:
  "reverse_dict ord d = foldl (\<lambda>d (k, v). AList.update k v d) [] (map prod.swap (ord d))"
  by (simp add: reverse_dict_def foldl_map case_prod_beta')

text \<open>
  \<open>reverse_dict\<close> inverts a dictionary whose values differ from one another: it maps
  \<open>v\<close> to \<open>k\<close> exactly when the dictionary maps \<open>k\<close> to \<open>v\<close>, in whatever
  order the items are visited.
\<close>
theorem reverse_dict_inverts:
  assumes "key_order ord" and "wf_dict d" and "distinct (map snd d)"
  shows "map_of (reverse_dict ord d) v = Some k \<longleftrightarrow> map_of d k = Some v"
proof -
  have ms: "mset (ord d) = mset d" using assms(1) by (simp add: key_order_def)
  then have "mset (map snd (ord d)) = mset (map snd d)" by simp
  then have dist: "distinct (map snd (ord d))" using assms(3) mset_eq_imp_distinct_iff by blast
  have "map_of (reverse_dict ord d) v = map_of (rev (map prod.swap (ord d))) v"
    unfolding reverse_dict_puts by (rule py_dict.put_all_last_wins)
  moreover have "distinct (map fst (rev (map prod.swap (ord d))))"
    using dist by (simp add: comp_def flip: rev_map)
  ultimately have "map_of (reverse_dict ord d) v = Some k \<longleftrightarrow> (k, v) \<in> set (ord d)"
    by (force simp: map_of_eq_Some_iff)
  also have "\<dots> \<longleftrightarrow> (k, v) \<in> set d" using ms by (metis set_mset_mset)
  also have "\<dots> \<longleftrightarrow> map_of d k = Some v" using assms(2) by (simp add: wf_dict_def)
  finally show ?thesis .
qed

theorem reverse_dict_inverts_witness:
  "map_of (reverse_dict rev [(''a'', 1::nat), (''b'', 2)]) 2 = Some ''b''"
  using reverse_dict_inverts [OF reverse_order.key_order_axioms, of "[(''a'', 1::nat), (''b'', 2)]" 2 "''b''"]
  by (simp add: wf_dict_def)

lemma suffix_rev: "suffix p s \<longleftrightarrow> prefix (rev p) (rev s)"
  by (simp add: suffix_to_prefix)

text \<open>
  \<open>find_common_fixes\<close> returns the longest common prefix and the longest common
  suffix: a list is a common prefix (suffix) exactly when it is one of the result's.
\<close>
theorem find_common_fixes_longest:
  "(prefix p (fst (find_common_fixes s1 s2)) \<longleftrightarrow> prefix p s1 \<and> prefix p s2)
   \<and> (suffix p (snd (find_common_fixes s1 s2)) \<longleftrightarrow> suffix p s1 \<and> suffix p s2)"
proof -
  have "suffix_loop s1 s2 1 [] = lcp (rev s1) (rev s2)"
    using suffix_loop_prefix_loop [of 1 s1 s2 "[]"] by (simp add: prefix_loop_lcp)
  then show ?thesis
    by (simp add: find_common_fixes_def prefix_loop_lcp prefix_lcp suffix_rev)
qed

text \<open>
  \<open>is_rotated\<close> decides rotation: it answers whether the second sequence is some
  rotation of the first, and raises only on two empty sequences.
\<close>
theorem is_rotated_decides:
  "is_rotated seq1 seq2 =
     (if seq1 = [] \<and> seq2 = [] then Inl IndexError else Inr (\<exists>n. seq2 = rotate n seq1))"
proof (cases "seq2 = []")
  case True
  then have "seq1 \<noteq> [] \<Longrightarrow> seq2 \<noteq> rotate n seq1" for n by (metis rotate_is_Nil_conv)
  with True show ?thesis by (auto simp: is_rotated_def py_nth_def)
next
  case False
  then show ?thesis by (simp add: is_rotated_rotate)
qed

text \<open>
  \<open>get_args\<close> keeps the last value given to each option and collects the other
  arguments, in order, under the key \<open>args\<close>, also when an option is called \<open>args\<close>.
\<close>
theorem get_args_last_wins:
  "map_of (get_args argv) k =
     (if k = ''args'' then Some (ArgList (filter (\<lambda>a. \<not> is_option a) argv))
      else map_of (rev (map parse_option (filter is_option argv))) k)"
proof -
  have "map_of (foldl (\<lambda>d (k, v). AList.update k v d) [] (map parse_option (filter is_option argv))) k
      = map_of (rev (map parse_option (filter is_option argv))) k"
    by (rule py_dict.put_all_last_wins)
  then show ?thesis by (simp add: get_args_def get_args_loop_spec update_conv')
qed

text \<open>
  C1. Transposing a rectangular matrix twice gives the matrix back.
\<close>
theorem transpose_involution:
  assumes "m \<noteq> []" and "0 < n" and "\<forall>row\<in>set m. length row = n"
  shows "transpose_py (transpose_py m) = m"
proof -
  have w: "zip_width m = n" using assms(1,3) by (rule zip_width_rect)
  then have "transpose_py m \<noteq> []" using assms(2) by (auto simp: transpose_py_def)
  then have w': "zip_width (transpose_py m) = length m"
    by (rule zip_width_rect) (auto dest: transpose_shape(2))
  show ?thesis
  proof (rule nth_equalityI)
    show "length (transpose_py (transpose_py m)) = length m" by (simp add: transpose_shape(1) w')
  next
    fix i assume "i < length (transpose_py (transpose_py m))"
    then have i: "i < length m" by (simp add: transpose_shape(1) w')
    have row: "length (m ! i) = n" using assms(3) i by simp
    show "transpose_py (transpose_py m) ! i = m ! i"
    proof (rule nth_equalityI)
      have "transpose_py (transpose_py m) ! i \<in> set (transpose_py (transpose_py m))"
        using i w' by (simp add: transpose_shape(1))
      then show "length (transpose_py (transpose_py m) ! i) = length (m ! i)"
        using row w by (metis transpose_shape)
      fix j assume "j < length (transpose_py (transpose_py m) ! i)"
      then have "j < n" using row \<open>length (transpose_py (transpose_py m) ! i) = length (m ! i)\<close> by simp
      then show "transpose_py (transpose_py m) ! i ! j = m ! i ! j"
        using i w w' by (simp add: transpose_nth transpose_shape(1))
    qed
  qed
qed

theorem transpose_involution_witness:
  "transpose_py (transpose_py [[1::nat, 2], [3, 4], [5, 6]]) = [[1, 2], [3, 4], [5, 6]]"
  by (rule transpose_involution [where n = 2]) auto

section \<open>What the search for cycles relies on\<close>

text \<open>
  A test \<open>same\<close> that decides rotation. The client removes duplicates with it: a search
  that drops a candidate when it is the same as an earlier result keeps one representative
  of each class of rotations.
\<close>

locale rotation_test =
  fixes same :: "'a list \<Rightarrow> 'a list \<Rightarrow> bool res"
  assumes same_decides: "ys \<noteq> [] \<Longrightarrow> same xs ys = Inr (\<exists>n. ys = rotate n xs)"
begin

lemma same_refl: "xs \<noteq> [] \<Longrightarrow> same xs xs = Inr True"
  by (simp add: same_decides) (metis rotate0 id_apply)

lemma same_length: "ys \<noteq> [] \<Longrightarrow> same xs ys = Inr True \<Longrightarrow> length xs = length ys"
  by (auto simp: same_decides)

lemma same_set: "ys \<noteq> [] \<Longrightarrow> same xs ys = Inr True \<Longrightarrow> set xs = set ys"
  by (auto simp: same_decides)

lemma same_sym:
  assumes "xs \<noteq> []" and "ys \<noteq> []" and "same xs ys = Inr True"
  shows "same ys xs = Inr True"
proof -
  from assms obtain n where n: "ys = rotate n xs" by (auto simp: same_decides)
  have "rotate (length xs - n mod length xs) ys = rotate (length xs - n mod length xs + n) xs"
    using n by (simp add: rotate_rotate)
  also have "\<dots> = xs"
  proof (rule rotate_id)
    have "n mod length xs < length xs" using assms(1) by simp
    then show "(length xs - n mod length xs + n) mod length xs = 0"
      by (metis add.commute le_add_diff_inverse less_imp_le mod_add_left_eq mod_self add_diff_cancel_left')
  qed
  finally show ?thesis using assms(1) by (simp add: same_decides) metis
qed

lemma same_trans:
  "ys \<noteq> [] \<Longrightarrow> zs \<noteq> [] \<Longrightarrow> same xs ys = Inr True \<Longrightarrow> same ys zs = Inr True \<Longrightarrow> same xs zs = Inr True"
  by (auto simp: same_decides rotate_rotate)

end

interpretation rotated: rotation_test is_rotated
  by unfold_locales (rule is_rotated_rotate)

end
