(* ===== verification/FindCycles.thy ===== *)
theory FindCycles
  imports RadSeq
begin

text \<open>
  \<open>find_cycles\<close> of bindings/python/topsort.py: a depth-first search over all simple
  paths, with an explicit stack of paths, that yields each cycle it closes unless a rotation
  of it was yielded before. The body runs on Python 2 and 3 alike; its module, and \<open>rad_util.py\<close>,
  from which it takes \<open>is_rotated\<close>, are Python 2 modules (see \<open>Topsort\<close>). The order in which the dictionary's keys are visited is the
  parameter \<open>ord\<close>; duplicates are recognised by \<open>is_rotated\<close> through the interface
  \<open>rotation_test\<close>.
\<close>

section \<open>Definitions\<close>

text \<open>
  The local variables of the generator. \<open>paths\<close> is the stack with its top at the end;
  what was yielded so far is \<open>cycles\<close>.
\<close>

record 'a search =
  cycles :: "'a list list"
  visited_nodes :: "'a list"
  paths :: "'a list list"

fun dup_check :: "'a list \<Rightarrow> 'a list list \<Rightarrow> bool res" where
  "dup_check cycle [] = Inr False"
| "dup_check cycle (other_cycle # others) =
     and_then (is_rotated other_cycle cycle)
       (\<lambda>r. if r then Inr True else dup_check cycle others)"

definition list_index :: "'a list \<Rightarrow> 'a \<Rightarrow> nat" where
  "list_index xs x = length (takeWhile (\<lambda>y. y \<noteq> x) xs)"

definition visit_child :: "'a list \<Rightarrow> 'a search \<Rightarrow> 'a \<Rightarrow> 'a search res" where
  "visit_child path s child =
     (if child \<in> set path then
        (let cycle = drop (list_index path child) path
         in and_then (dup_check cycle (cycles s))
              (\<lambda>is_dup. Inr (if is_dup then s else s\<lparr>cycles := cycles s @ [cycle]\<rparr>)))
      else Inr (s\<lparr>paths := paths s @ [path @ [child]],
                 visited_nodes := List.insert child (visited_nodes s)\<rparr>))"

text \<open>
  Every path pushed has fewer nodes left to visit than the one popped; this bounds the work
  on the stack, for the termination proof.
\<close>

definition all_nodes :: "('a, 'a list) dict \<Rightarrow> 'a set" where
  "all_nodes pc = (\<Union>cs\<in>set (map snd pc). set cs)"

definition path_weight :: "('a, 'a list) dict \<Rightarrow> 'a list \<Rightarrow> nat" where
  "path_weight pc p = (sum_list (map (length \<circ> snd) pc) + 1) ^ card (all_nodes pc - set p)"

definition stack_weight :: "('a, 'a list) dict \<Rightarrow> 'a search \<Rightarrow> nat" where
  "stack_weight pc s = sum_list (map (path_weight pc) (paths s))"

lemma visit_child_paths:
  "visit_child path s c = Inr s' \<Longrightarrow>
     paths s' = paths s @ (if c \<in> set path then [] else [path @ [c]])"
  by (auto simp: visit_child_def Let_def res_simps)

lemma visit_children_paths:
  "for_each (visit_child path) s cs = Inr s' \<Longrightarrow>
     paths s' = paths s @ map (\<lambda>c. path @ [c]) (filter (\<lambda>c. c \<notin> set path) cs)"
  by (induction cs arbitrary: s) (auto simp: res_simps dest!: visit_child_paths)

lemma visit_children_weight:
  assumes "for_each (visit_child path) s cs = Inr s'" and "map_of pc n = Some cs"
  shows "stack_weight pc s' < stack_weight pc s + path_weight pc path"
proof -
  let ?B = "sum_list (map (length \<circ> snd) pc)"
  let ?new = "filter (\<lambda>c. c \<notin> set path) cs"
  let ?k = "card (all_nodes pc - set path)"
  have mem: "(n, cs) \<in> set pc" using assms(2) by (rule map_of_SomeD)
  have cs: "c \<in> all_nodes pc" if "c \<in> set cs" for c
    using mem that by (force simp: all_nodes_def)
  have fin: "finite (all_nodes pc)" by (auto simp: all_nodes_def)
  have "length cs \<le> ?B"
    using member_le_sum_list [of "length cs" "map (length \<circ> snd) pc"] mem by force
  then have len: "length ?new \<le> ?B" using length_filter_le le_trans by blast
  have w: "path_weight pc (path @ [c]) = (?B + 1) ^ (?k - 1)" if "c \<in> set ?new" for c
  proof -
    have "all_nodes pc - set (path @ [c]) = (all_nodes pc - set path) - {c}" by auto
    moreover have "c \<in> all_nodes pc - set path" using that cs by auto
    ultimately show ?thesis by (simp add: path_weight_def fin)
  qed
  have "map (path_weight pc) (map (\<lambda>c. path @ [c]) ?new) = map (\<lambda>_. (?B + 1) ^ (?k - 1)) ?new"
    using w by simp
  then have "sum_list (map (path_weight pc) (map (\<lambda>c. path @ [c]) ?new)) = length ?new * (?B + 1) ^ (?k - 1)"
    by (metis sum_list_triv of_nat_id)
  also have "\<dots> < (?B + 1) ^ ?k"
  proof (cases "?new")
    case (Cons c new)
    then have "c \<in> set ?new" by simp
    then have "c \<in> all_nodes pc - set path" using cs by auto
    then have "0 < ?k" using fin by (auto simp: card_gt_0_iff)
    then have "(?B + 1) ^ ?k = (?B + 1) * (?B + 1) ^ (?k - 1)" by (metis power_minus_mult mult.commute)
    moreover have "length ?new * (?B + 1) ^ (?k - 1) \<le> ?B * (?B + 1) ^ (?k - 1)"
      using len by (rule mult_le_mono1)
    moreover have "0 < (?B + 1) ^ (?k - 1)" by simp
    ultimately show ?thesis by (simp only: add_mult_distrib)
  qed simp
  finally show ?thesis
    using visit_children_paths [OF assms(1)] by (simp add: stack_weight_def path_weight_def)
qed

text \<open>The loop \<open>while paths\<close>.\<close>

function search_loop :: "('a, 'a list) dict \<Rightarrow> 'a search \<Rightarrow> 'a search res" where
  "search_loop parent_children s =
     (if paths s = [] then Inr s
      else
        (let path = last (paths s); s1 = s\<lparr>paths := butlast (paths s)\<rparr>
         in case map_of parent_children (last path) of
              None \<Rightarrow> search_loop parent_children s1
            | Some children \<Rightarrow>
                (case for_each (visit_child path) s1 children of
                   Inl e \<Rightarrow> Inl e
                 | Inr s2 \<Rightarrow> search_loop parent_children s2)))"
  by pat_completeness auto
termination
proof (relation "measure (\<lambda>(pc, s). stack_weight pc s)")
  fix pc :: "('a, 'a list) dict" and s :: "'a search" and path s1
  assume s: "paths s \<noteq> []" "path = last (paths s)" "s1 = s\<lparr>paths := butlast (paths s)\<rparr>"
  then have w: "stack_weight pc s = stack_weight pc s1 + path_weight pc path"
    by (cases "paths s" rule: rev_cases) (simp_all add: stack_weight_def)
  then show "((pc, s1), pc, s) \<in> measure (\<lambda>(pc, s). stack_weight pc s)"
    by (simp add: path_weight_def)
  fix children s2
  assume "map_of pc (last path) = Some children" "for_each (visit_child path) s1 children = Inr s2"
  with w show "((pc, s2), pc, s) \<in> measure (\<lambda>(pc, s). stack_weight pc s)"
    using visit_children_weight by fastforce
qed simp

declare search_loop.simps [simp del]

definition search_from :: "('a, 'a list) dict \<Rightarrow> 'a search \<Rightarrow> 'a \<Rightarrow> 'a search res" where
  "search_from parent_children s parent =
     (if parent \<in> set (visited_nodes s) then Inr s
      else search_loop parent_children (s\<lparr>paths := [[parent]]\<rparr>))"

definition find_cycles :: "('a list \<Rightarrow> 'a list) \<Rightarrow> ('a, 'a list) dict \<Rightarrow> 'a list list res" where
  "find_cycles ord parent_children =
     and_then (for_each (search_from parent_children)
         \<lparr>cycles = [], visited_nodes = [], paths = []\<rparr> (ord (keys parent_children)))
       (\<lambda>s. Inr (cycles s))"

section \<open>Cycles of a graph\<close>

definition edge :: "('a, 'a list) dict \<Rightarrow> 'a \<Rightarrow> 'a \<Rightarrow> bool" where
  "edge pc a b \<longleftrightarrow> (case map_of pc a of None \<Rightarrow> False | Some cs \<Rightarrow> b \<in> set cs)"

definition simple_path :: "('a, 'a list) dict \<Rightarrow> 'a list \<Rightarrow> bool" where
  "simple_path pc p \<longleftrightarrow> p \<noteq> [] \<and> distinct p \<and> successively (edge pc) p"

definition simple_cycle :: "('a, 'a list) dict \<Rightarrow> 'a list \<Rightarrow> bool" where
  "simple_cycle pc c \<longleftrightarrow> simple_path pc c \<and> edge pc (last c) (hd c)"

definition rotation_of :: "'a list \<Rightarrow> 'a list \<Rightarrow> bool" where
  "rotation_of c d \<longleftrightarrow> (\<exists>n. d = rotate n c)"

definition found :: "'a search \<Rightarrow> 'a list \<Rightarrow> bool" where
  "found s c \<longleftrightarrow> (\<exists>d\<in>set (cycles s). rotation_of d c)"

lemma is_rotated_rotation: "d \<noteq> [] \<Longrightarrow> is_rotated c d = Inr (rotation_of c d)"
  by (simp add: rotated.same_decides rotation_of_def)

lemma dup_check_spec: "c \<noteq> [] \<Longrightarrow> dup_check c ds = Inr (\<exists>d\<in>set ds. rotation_of d c)"
  by (induction ds) (auto simp: is_rotated_rotation)

lemma drop_list_index:
  "x \<in> set p \<Longrightarrow> \<exists>us vs. p = us @ x # vs \<and> x \<notin> set us \<and> drop (list_index p x) p = x # vs"
proof -
  assume "x \<in> set p"
  then obtain us vs where "p = us @ x # vs" "x \<notin> set us" by (metis split_list_first)
  then show ?thesis by (auto simp: list_index_def takeWhile_append)
qed

text \<open>
  Closing the path \<open>p\<close> by an edge back to one of its own nodes gives the cycle that
  starts at that node.
\<close>

lemma close_cycle:
  assumes "simple_path pc p" and "edge pc (last p) x" and "x \<in> set p"
  shows "simple_cycle pc (drop (list_index p x) p)"
proof -
  from drop_list_index [OF assms(3)] obtain us vs where
    p: "p = us @ x # vs" "drop (list_index p x) p = x # vs" by blast
  with assms show ?thesis
    by (auto simp: simple_cycle_def simple_path_def successively_append_iff)
qed

definition search_ok :: "('a, 'a list) dict \<Rightarrow> 'a search \<Rightarrow> bool" where
  "search_ok pc s \<longleftrightarrow> (\<forall>p\<in>set (paths s). simple_path pc p) \<and> (\<forall>c\<in>set (cycles s). simple_cycle pc c)
     \<and> sorted_wrt (\<lambda>c d. \<not> rotation_of c d) (cycles s)"

lemma visit_child_ok:
  assumes ok: "search_ok pc s" and p: "simple_path pc path" and e: "edge pc (last path) c"
  shows "\<exists>s'. visit_child path s c = Inr s' \<and> search_ok pc s' \<and> set (cycles s) \<subseteq> set (cycles s')
     \<and> set (visited_nodes s') \<subseteq> insert c (set (visited_nodes s))
     \<and> (if c \<in> set path then found s' (drop (list_index path c) path)
        else path @ [c] \<in> set (paths s'))"
proof (cases "c \<in> set path")
  case True
  let ?c = "drop (list_index path c) path"
  have sc: "simple_cycle pc ?c" using close_cycle [OF p e True] .
  then have ne: "?c \<noteq> []" unfolding simple_cycle_def simple_path_def by blast
  have rot: "rotation_of ?c ?c" unfolding rotation_of_def by (metis rotate0 id_apply)
  have chk: "dup_check ?c (cycles s) = Inr (found s ?c)"
    using dup_check_spec [OF ne] by (simp add: found_def)
  show ?thesis
  proof (cases "found s ?c")
    case f: True
    then show ?thesis using ok chk True by (auto simp: visit_child_def Let_def)
  next
    case f: False
    have "search_ok pc (s\<lparr>cycles := cycles s @ [?c]\<rparr>)"
      using ok sc f by (auto simp: search_ok_def sorted_wrt_append found_def)
    moreover have "found (s\<lparr>cycles := cycles s @ [?c]\<rparr>) ?c" using rot by (simp add: found_def)
    ultimately show ?thesis using chk True f by (auto simp: visit_child_def Let_def)
  qed
next
  case False
  then have "simple_path pc (path @ [c])"
    using p e by (auto simp: simple_path_def successively_append_iff)
  with False ok show ?thesis by (auto simp: visit_child_def search_ok_def)
qed

lemma found_mono: "found s c \<Longrightarrow> set (cycles s) \<subseteq> set (cycles s') \<Longrightarrow> found s' c"
  by (auto simp: found_def)

lemma visit_children_ok:
  assumes "search_ok pc s" and "simple_path pc path" and "\<forall>c\<in>set cs. edge pc (last path) c"
  shows "\<exists>s'. for_each (visit_child path) s cs = Inr s' \<and> search_ok pc s' \<and> set (cycles s) \<subseteq> set (cycles s')
     \<and> set (visited_nodes s') \<subseteq> set cs \<union> set (visited_nodes s)
     \<and> (\<forall>c\<in>set cs. c \<in> set path \<longrightarrow> found s' (drop (list_index path c) path))"
  using assms
proof (induction cs arbitrary: s)
  case Nil
  then show ?case by simp
next
  case (Cons c cs)
  then have "edge pc (last path) c" by simp
  from visit_child_ok [OF Cons.prems(1,2) this] obtain t where
    t: "visit_child path s c = Inr t" "search_ok pc t" "set (cycles s) \<subseteq> set (cycles t)"
      "set (visited_nodes t) \<subseteq> insert c (set (visited_nodes s))"
      "c \<in> set path \<longrightarrow> found t (drop (list_index path c) path)" by metis
  have "\<forall>c\<in>set cs. edge pc (last path) c" using Cons.prems(3) by simp
  from Cons.IH [OF t(2) Cons.prems(2) this] obtain s' where
    s': "for_each (visit_child path) t cs = Inr s'" "search_ok pc s'" "set (cycles t) \<subseteq> set (cycles s')"
      "set (visited_nodes s') \<subseteq> set cs \<union> set (visited_nodes t)"
      "\<forall>c\<in>set cs. c \<in> set path \<longrightarrow> found s' (drop (list_index path c) path)" by (elim exE conjE)
  have "c \<in> set path \<longrightarrow> found s' (drop (list_index path c) path)"
    using t(5) s'(3) found_mono by blast
  moreover have "set (cycles s) \<subseteq> set (cycles s')" using t(3) s'(3) by (rule subset_trans)
  moreover have "set (visited_nodes s') \<subseteq> set (c # cs) \<union> set (visited_nodes s)"
    using t(4) s'(4) by auto
  ultimately show ?case using t(1) s' by auto
qed


lemma edgeI: "map_of pc a = Some cs \<Longrightarrow> b \<in> set cs \<Longrightarrow> edge pc a b"
  by (simp add: edge_def)

section \<open>The search from one node\<close>

text \<open>
  What one run of the loop achieves: it raises nothing, every cycle it yields is a simple
  cycle, no two are rotations of each other, and every way to prolong a path of the stack
  along the edges until it closes a cycle has been followed.
\<close>

definition explored :: "('a, 'a list) dict \<Rightarrow> 'a list \<Rightarrow> 'a search \<Rightarrow> bool" where
  "explored pc p s \<longleftrightarrow> (\<forall>q x. simple_path pc (p @ q) \<and> edge pc (last (p @ q)) x \<and> x \<in> set (p @ q)
     \<longrightarrow> found s (drop (list_index (p @ q) x) (p @ q)))"

lemma explored_mono: "explored pc p s \<Longrightarrow> set (cycles s) \<subseteq> set (cycles s') \<Longrightarrow> explored pc p s'"
  unfolding explored_def using found_mono by metis

lemma explored_step:
  assumes p: "p \<noteq> []" "map_of pc (last p) = Some cs"
    and closing: "\<forall>c\<in>set cs. c \<in> set p \<longrightarrow> found s (drop (list_index p c) p)"
    and longer: "\<forall>c\<in>set cs. c \<notin> set p \<longrightarrow> explored pc (p @ [c]) s"
  shows "explored pc p s"
  unfolding explored_def
proof (intro allI impI)
  fix q x
  assume q: "simple_path pc (p @ q) \<and> edge pc (last (p @ q)) x \<and> x \<in> set (p @ q)"
  show "found s (drop (list_index (p @ q) x) (p @ q))"
  proof (cases q)
    case Nil
    then show ?thesis using q p closing by (simp add: edge_def)
  next
    case (Cons c q')
    have "edge pc (last p) c" "c \<notin> set p"
      using q p(1) unfolding Cons by (simp_all add: simple_path_def successively_append_iff)
    then have "c \<in> set cs" "c \<notin> set p" using p(2) by (simp_all add: edge_def)
    with longer have "explored pc (p @ [c]) s" by blast
    with q Cons show ?thesis by (simp add: explored_def)
  qed
qed

lemma explored_dead_end:
  "p \<noteq> [] \<Longrightarrow> map_of pc (last p) = None \<Longrightarrow> explored pc p s"
  by (auto simp: explored_def simple_path_def successively_append_iff edge_def neq_Nil_conv)

lemma search_loop_ok:
  assumes "search_ok pc s"
  shows "\<exists>s'. search_loop pc s = Inr s' \<and> search_ok pc s' \<and> set (cycles s) \<subseteq> set (cycles s')
     \<and> (\<forall>p\<in>set (paths s). explored pc p s')
     \<and> (\<forall>v\<in>set (visited_nodes s'). v \<in> set (visited_nodes s)
           \<or> (\<exists>p\<in>set (paths s). (edge pc)\<^sup>*\<^sup>* (last p) v))"
  using assms
proof (induction pc s rule: search_loop.induct)
  case (1 pc s)
  show ?case
  proof (cases "paths s = []")
    case True
    then show ?thesis using "1.prems" search_loop.simps [of pc s] by simp
  next
    case False
    define path where "path = last (paths s)"
    define s1 where "s1 = s\<lparr>paths := butlast (paths s)\<rparr>"
    have ps: "paths s = paths s1 @ [path]" using False by (simp add: path_def s1_def)
    have cyc1: "cycles s1 = cycles s" "visited_nodes s1 = visited_nodes s" by (simp_all add: s1_def)
    have ok1: "search_ok pc s1" using "1.prems" unfolding search_ok_def ps cyc1 by simp
    have path: "simple_path pc path" using "1.prems" unfolding search_ok_def ps by simp
    show ?thesis
    proof (cases "map_of pc (last path)")
      case None
      have loop: "search_loop pc s = search_loop pc s1"
        using False None search_loop.simps [of pc s] by (simp add: path_def s1_def Let_def)
      from "1.IH"(1) [OF False path_def s1_def None ok1] obtain s' where
        s': "search_loop pc s1 = Inr s'" "search_ok pc s'" "set (cycles s1) \<subseteq> set (cycles s')"
          "\<forall>p\<in>set (paths s1). explored pc p s'"
          "\<forall>v\<in>set (visited_nodes s'). v \<in> set (visited_nodes s1)
             \<or> (\<exists>p\<in>set (paths s1). (edge pc)\<^sup>*\<^sup>* (last p) v)" by (elim exE conjE)
      have "explored pc path s'"
        using path None by (intro explored_dead_end) (simp_all add: simple_path_def)
      with s' show ?thesis unfolding loop ps cyc1 by auto
    next
      case (Some cs)
      have "\<forall>c\<in>set cs. edge pc (last path) c" using Some by (simp add: edge_def)
      from visit_children_ok [OF ok1 path this] obtain s2 where
        s2: "for_each (visit_child path) s1 cs = Inr s2" "search_ok pc s2" "set (cycles s1) \<subseteq> set (cycles s2)"
          "set (visited_nodes s2) \<subseteq> set cs \<union> set (visited_nodes s1)"
          "\<forall>c\<in>set cs. c \<in> set path \<longrightarrow> found s2 (drop (list_index path c) path)" by (elim exE conjE)
      have loop: "search_loop pc s = search_loop pc s2"
        using False Some s2(1) search_loop.simps [of pc s] by (simp add: path_def s1_def Let_def)
      from "1.IH"(2) [OF False path_def s1_def Some s2(1) s2(2)] obtain s' where
        s': "search_loop pc s2 = Inr s'" "search_ok pc s'" "set (cycles s2) \<subseteq> set (cycles s')"
          "\<forall>p\<in>set (paths s2). explored pc p s'"
          "\<forall>v\<in>set (visited_nodes s'). v \<in> set (visited_nodes s2)
             \<or> (\<exists>p\<in>set (paths s2). (edge pc)\<^sup>*\<^sup>* (last p) v)" by (elim exE conjE)
      have ps2: "paths s2 = paths s1 @ map (\<lambda>c. path @ [c]) (filter (\<lambda>c. c \<notin> set path) cs)"
        using visit_children_paths [OF s2(1)] .
      have mono: "set (cycles s) \<subseteq> set (cycles s')" using s2(3) s'(3) cyc1(1) by auto
      have "explored pc path s'"
      proof (rule explored_step)
        show "path \<noteq> []" using path by (simp add: simple_path_def)
        show "map_of pc (last path) = Some cs" by fact
        show "\<forall>c\<in>set cs. c \<in> set path \<longrightarrow> found s' (drop (list_index path c) path)"
          using s2(5) s'(3) found_mono by blast
        show "\<forall>c\<in>set cs. c \<notin> set path \<longrightarrow> explored pc (path @ [c]) s'"
          using s'(4) ps2 by auto
      qed
      moreover have "\<forall>p\<in>set (paths s1). explored pc p s'" using s'(4) ps2 by auto
      moreover have "v \<in> set (visited_nodes s) \<or> (\<exists>p\<in>set (paths s). (edge pc)\<^sup>*\<^sup>* (last p) v)"
        if v: "v \<in> set (visited_nodes s')" for v
      proof -
        have step: "(edge pc)\<^sup>*\<^sup>* (last path) w" if "(edge pc)\<^sup>*\<^sup>* c w" "c \<in> set cs" for c w
          using that Some by (metis converse_rtranclp_into_rtranclp edgeI)
        from v s'(5) consider "v \<in> set (visited_nodes s2)"
          | p where "p \<in> set (paths s2)" "(edge pc)\<^sup>*\<^sup>* (last p) v" by blast
        then show ?thesis
        proof cases
          case 1
          then show ?thesis using s2(4) step [OF rtranclp.rtrancl_refl] cyc1(2) ps by auto
        next
          case (2 p)
          then show ?thesis using ps2 ps step by auto
        qed
      qed
      ultimately show ?thesis using s'(1,2) mono unfolding loop ps by auto
    qed
  qed
qed


section \<open>Completeness\<close>

lemma path_to_cycle:
  assumes "(edge pc)\<^sup>*\<^sup>* a v" and "v \<in> set C"
  shows "\<exists>p. simple_path pc p \<and> hd p = a \<and> last p \<in> set C \<and> set (butlast p) \<inter> set C = {}"
  using assms(1)
proof (induction rule: converse_rtranclp_induct)
  case base
  then show ?case using assms(2) by (intro exI [of _ "[v]"]) (simp add: simple_path_def)
next
  case (step a b)
  then obtain p where p: "simple_path pc p" "hd p = b" "last p \<in> set C" "set (butlast p) \<inter> set C = {}"
    by blast
  consider "a \<in> set C" | "a \<notin> set C" "a \<in> set p" | "a \<notin> set C" "a \<notin> set p" by blast
  then show ?case
  proof cases
    case 1
    then show ?thesis by (intro exI [of _ "[a]"]) (simp add: simple_path_def)
  next
    case 2
    then obtain us vs where "p = us @ a # vs" by (metis split_list)
    with p show ?thesis
      by (intro exI [of _ "a # vs"])
        (auto simp: simple_path_def successively_append_iff butlast_append split: if_splits)
  next
    case 3
    with p step(1) show ?thesis
      by (intro exI [of _ "a # p"]) (auto simp: simple_path_def successively_Cons)
  qed
qed

lemma found_rotation: "found s c \<Longrightarrow> rotation_of c d \<Longrightarrow> found s d"
  unfolding found_def rotation_of_def by (metis rotate_rotate)

text \<open>\<open>settled\<close>: every simple cycle through the node has been yielded, up to rotation.\<close>

definition settled_node :: "('a, 'a list) dict \<Rightarrow> 'a search \<Rightarrow> 'a \<Rightarrow> bool" where
  "settled_node pc s v \<longleftrightarrow> (\<forall>C. simple_cycle pc C \<and> v \<in> set C \<longrightarrow> found s C)"

lemma explored_settles:
  assumes expl: "explored pc [a] s" and reach: "(edge pc)\<^sup>*\<^sup>* a v"
  shows "settled_node pc s v"
  unfolding settled_node_def
proof (intro allI impI)
  fix C
  assume C: "simple_cycle pc C \<and> v \<in> set C"
  with path_to_cycle [OF reach] obtain p where
    p: "simple_path pc p" "hd p = a" "last p \<in> set C" "set (butlast p) \<inter> set C = {}" by blast
  define x where "x = last p"
  obtain us vs where C_eq: "C = us @ x # vs" using p(3) by (metis split_list x_def)
  have p_eq: "p = butlast p @ [x]" using p(1) by (simp add: simple_path_def x_def)
  have x_new: "x \<notin> set (butlast p)" using p(3,4) x_def by blast
  have sc: "distinct (us @ x # vs)" "successively (edge pc) (us @ x # vs)"
      "edge pc (last (us @ x # vs)) (hd (us @ x # vs))"
    using C C_eq by (simp_all add: simple_cycle_def simple_path_def)
  have turn: "successively (edge pc) (x # vs @ us) \<and> edge pc (last (x # vs @ us)) x"
  proof (cases "us = []")
    case True
    then show ?thesis using sc by simp
  next
    case False
    then show ?thesis
      using sc successively_append_iff [of "edge pc" us "x # vs"]
        successively_append_iff [of "edge pc" "x # vs" us] by auto
  qed
  have "simple_path pc (butlast p @ [x])" using p(1) p_eq by simp
  then have long: "simple_path pc (butlast p @ x # vs @ us)"
    using turn sc(1) p(4) C_eq
    by (auto simp: simple_path_def successively_append_iff)
  have start: "\<exists>q. butlast p @ x # vs @ us = [a] @ q"
    using p(2) p_eq by (cases "butlast p") (metis append_Cons append_Nil list.sel(1))+
  then obtain q where q: "butlast p @ x # vs @ us = [a] @ q" by blast
  have "simple_path pc ([a] @ q) \<and> edge pc (last ([a] @ q)) x \<and> x \<in> set ([a] @ q)"
    unfolding q [symmetric] using long turn by simp
  with expl have "found s (drop (list_index ([a] @ q) x) ([a] @ q))"
    unfolding explored_def by blast
  moreover have "drop (list_index ([a] @ q) x) ([a] @ q) = x # vs @ us"
    unfolding q [symmetric] using x_new by (simp add: list_index_def takeWhile_append)
  moreover have "rotation_of (x # vs @ us) C"
    unfolding rotation_of_def C_eq using rotate_append [of "x # vs" us] by (metis append_Cons)
  ultimately show "found s C" using found_rotation by metis
qed

lemma settled_mono: "settled_node pc s v \<Longrightarrow> set (cycles s) \<subseteq> set (cycles s') \<Longrightarrow> settled_node pc s' v"
  unfolding settled_node_def using found_mono by metis

lemma search_from_ok:
  assumes ok: "search_ok pc s" and vis: "\<forall>v\<in>set (visited_nodes s). settled_node pc s v"
  shows "\<exists>s'. search_from pc s a = Inr s' \<and> search_ok pc s' \<and> set (cycles s) \<subseteq> set (cycles s')
     \<and> settled_node pc s' a \<and> (\<forall>v\<in>set (visited_nodes s'). settled_node pc s' v)"
proof (cases "a \<in> set (visited_nodes s)")
  case True
  then show ?thesis using ok vis by (simp add: search_from_def)
next
  case False
  have "search_ok pc (s\<lparr>paths := [[a]]\<rparr>)" using ok by (simp add: search_ok_def simple_path_def)
  from search_loop_ok [OF this] obtain s' where
    s': "search_loop pc (s\<lparr>paths := [[a]]\<rparr>) = Inr s'" "search_ok pc s'" "set (cycles s) \<subseteq> set (cycles s')"
      "explored pc [a] s'"
      "\<forall>v\<in>set (visited_nodes s'). v \<in> set (visited_nodes s) \<or> (edge pc)\<^sup>*\<^sup>* a v" by auto
  have reach: "settled_node pc s' v" if "(edge pc)\<^sup>*\<^sup>* a v" for v
    using explored_settles [OF s'(4) that] .
  have "\<forall>v\<in>set (visited_nodes s'). settled_node pc s' v"
    using s'(3,5) vis reach settled_mono by metis
  with s' reach [of a] False show ?thesis by (simp add: search_from_def)
qed

lemma search_all_ok:
  assumes "search_ok pc s" and "\<forall>v\<in>set (visited_nodes s). settled_node pc s v"
  shows "\<exists>s'. for_each (search_from pc) s as = Inr s' \<and> search_ok pc s' \<and> set (cycles s) \<subseteq> set (cycles s')
     \<and> (\<forall>a\<in>set as. settled_node pc s' a)"
  using assms
proof (induction as arbitrary: s)
  case Nil
  then show ?case by simp
next
  case (Cons a as)
  from search_from_ok [OF Cons.prems, of a] obtain t where
    t: "search_from pc s a = Inr t" "search_ok pc t" "set (cycles s) \<subseteq> set (cycles t)"
      "settled_node pc t a" "\<forall>v\<in>set (visited_nodes t). settled_node pc t v" by (elim exE conjE)
  from Cons.IH [OF t(2) t(5)] obtain s' where
    s': "for_each (search_from pc) t as = Inr s'" "search_ok pc s'" "set (cycles t) \<subseteq> set (cycles s')"
      "\<forall>a\<in>set as. settled_node pc s' a" by (elim exE conjE)
  have "settled_node pc s' a" using settled_mono [OF t(4) s'(3)] .
  then show ?case using t s' by auto
qed

lemma simple_cycle_key: "simple_cycle pc C \<Longrightarrow> \<exists>a\<in>set C. a \<in> set (keys pc)"
  by (rule bexI [of _ "last C"])
    (auto simp: simple_cycle_def simple_path_def edge_def dest: map_of_Some_key split: option.splits)

lemma find_cycles_result:
  assumes "key_order ord"
  shows "\<exists>s. find_cycles ord pc = Inr (cycles s) \<and> search_ok pc s \<and> (\<forall>C. simple_cycle pc C \<longrightarrow> found s C)"
proof -
  let ?s = "\<lparr>cycles = [], visited_nodes = [], paths = []\<rparr> :: 'a search"
  have "search_ok pc ?s" "\<forall>v\<in>set (visited_nodes ?s). settled_node pc ?s v"
    by (simp_all add: search_ok_def)
  from search_all_ok [OF this, of "ord (keys pc)"] obtain s' where
    s': "for_each (search_from pc) ?s (ord (keys pc)) = Inr s'" "search_ok pc s'"
      "\<forall>a\<in>set (ord (keys pc)). settled_node pc s' a" by (elim exE conjE)
  have "found s' C" if "simple_cycle pc C" for C
    using simple_cycle_key [OF that] that s'(3) key_order.set_ord [OF assms, of "keys pc"]
    unfolding settled_node_def by metis
  with s' show ?thesis by (intro exI [of _ s']) (simp add: find_cycles_def)
qed

text \<open>
  C4. \<open>find_cycles\<close> yields exactly the simple cycles of the graph, each once: it raises
  nothing, everything it yields is a simple cycle, no two results are rotations of each
  other, and every simple cycle is a rotation of a result.
\<close>
theorem find_cycles_exact:
  assumes "key_order ord"
  shows "\<exists>cs. find_cycles ord pc = Inr cs \<and> (\<forall>c\<in>set cs. simple_cycle pc c)
     \<and> sorted_wrt (\<lambda>c d. \<not> rotation_of c d) cs
     \<and> (\<forall>C. simple_cycle pc C \<longrightarrow> (\<exists>c\<in>set cs. rotation_of c C))"
proof -
  from find_cycles_result [OF assms, of pc] obtain s where s: "find_cycles ord pc = Inr (cycles s)" "search_ok pc s"
    "\<forall>C. simple_cycle pc C \<longrightarrow> found s C" by (elim exE conjE)
  then show ?thesis by (intro exI [of _ "cycles s"]) (simp add: search_ok_def found_def)
qed

theorem find_cycles_exact_witness:
  "\<exists>cs. find_cycles rev [(''A'', [''B'']), (''B'', [''A''])] = Inr cs
     \<and> (\<exists>c\<in>set cs. rotation_of c [''A'', ''B''])"
proof -
  have "simple_cycle [(''A'', [''B'']), (''B'', [''A''])] [''A'', ''B'']"
    by (simp add: simple_cycle_def simple_path_def edge_def)
  then show ?thesis
    using find_cycles_exact [OF reverse_order.key_order_axioms, of "[(''A'', [''B'']), (''B'', [''A''])]"]
    by blast
qed

end
