(* ===== verification/RadNum.thy ===== *)
theory RadNum
  imports PyCase Complex_Main "HOL-Library.While_Combinator"
begin

unbundle bit_operations_syntax

text \<open>
  The functions of bindings/python/rad_util.py on integers: \<open>int2bin\<close>,
  \<open>bin2int\<close>, \<open>polygon_area\<close>, \<open>gcf\<close>, \<open>lcm\<close>,
  \<open>reduce_fraction\<close>, \<open>lsb\<close>, \<open>gray_encode\<close>, \<open>binary_range\<close>
  and \<open>round_grid\<close>. The file is Python 2 and does not compile on Python 3, where
  \<open>True, False = (1==1, 0==1)\<close> is a syntax error: integers are unbounded and \<open>/\<close> on
  two integers rounds down. The arguments are integers throughout; the floating-point
  instances of these functions are not modelled.
\<close>

section \<open>Binary strings\<close>

definition hex2bin :: "char \<Rightarrow> string res" where
  "hex2bin x = dict_get
     [(CHR ''0'', ''0000''), (CHR ''1'', ''0001''), (CHR ''2'', ''0010''), (CHR ''3'', ''0011''),
      (CHR ''4'', ''0100''), (CHR ''5'', ''0101''), (CHR ''6'', ''0110''), (CHR ''7'', ''0111''),
      (CHR ''8'', ''1000''), (CHR ''9'', ''1001''), (CHR ''a'', ''1010''), (CHR ''b'', ''1011''),
      (CHR ''c'', ''1100''), (CHR ''d'', ''1101''), (CHR ''e'', ''1110''), (CHR ''f'', ''1111'')] x"

definition hex_digit :: "nat \<Rightarrow> char" where
  "hex_digit d = ''0123456789abcdef'' ! d"

text \<open>The digits of \<open>hex(i)\<close> for a number that is not negative, without a leading zero.\<close>

fun hex_digits :: "nat \<Rightarrow> string" where
  "hex_digits n = (if n < 16 then [hex_digit n] else hex_digits (n div 16) @ [hex_digit (n mod 16)])"

declare hex_digits.simps [simp del]

text \<open>
  \<open>hex(i)\<close>; \<open>is_long\<close> says that the integer has Python's long type, whose
  representation ends with \<open>L\<close>.
\<close>

definition py_hex :: "bool \<Rightarrow> int \<Rightarrow> string" where
  "py_hex is_long i = (if i < 0 then ''-'' else '''') @ ''0x'' @ hex_digits (nat \<bar>i\<bar>)
     @ (if is_long then ''L'' else '''')"

definition map_hex :: "string \<Rightarrow> string res" where
  "map_hex s = for_each (\<lambda>acc x. and_then (hex2bin x) (\<lambda>b. Inr (acc @ b))) '''' s"

definition int2bin :: "bool \<Rightarrow> int \<Rightarrow> int \<Rightarrow> string res" where
  "int2bin is_long i n =
     and_then (map_hex (slice_from (filter (\<lambda>c. c \<noteq> CHR ''l'') (lower (py_hex is_long i))) 2))
       (\<lambda>result.
          if CHR ''1'' \<in> set (slice_to result (- n)) then Inl ValueError
          else (let result = slice_from result (- n)
                in Inr (replicate (nat (n - int (length result))) (CHR ''0'') @ result)))"

text \<open>\<open>int(s, 2)\<close> on the strings of binary digits; on other strings it raises.\<close>

definition bin2int :: "string \<Rightarrow> int res" where
  "bin2int s =
     (if s \<noteq> [] \<and> (\<forall>c\<in>set s. c = CHR ''0'' \<or> c = CHR ''1'')
      then Inr (foldl (\<lambda>a c. 2 * a + (if c = CHR ''1'' then 1 else 0)) 0 s)
      else Inl ValueError)"

section \<open>Bit operations\<close>

definition lsb :: "int \<Rightarrow> nat \<Rightarrow> int" where
  "lsb x n = x AND (2 ^ n - 1)"

definition gray_encode :: "int \<Rightarrow> int" where
  "gray_encode i = i XOR drop_bit 1 i"

text \<open>
  \<open>binary_range\<close>: \<open>v\<close> is the current number, its least significant digit first,
  and \<open>toggle\<close> the carries. The inner loop reads and writes index \<open>i + 1\<close> of
  \<open>toggle\<close>, which has one entry more than \<open>v\<close>.
\<close>

function toggle_loop :: "nat \<Rightarrow> nat \<Rightarrow> string \<Rightarrow> nat list \<Rightarrow> string \<times> nat list" where
  "toggle_loop bits i v toggle =
     (if i < bits \<and> toggle ! i = 1 then
        (if v ! i = CHR ''0''
         then toggle_loop bits (i + 1) (v[i := CHR ''1'']) (toggle[i + 1 := 0])
         else toggle_loop bits (i + 1) (v[i := CHR ''0'']) (toggle[i + 1 := 1]))
      else (v, toggle))"
  by pat_completeness auto
termination
  by (relation "measure (\<lambda>(bits, i, v, toggle). bits - i)") auto

declare toggle_loop.simps [simp del]

definition binary_range_step ::
  "nat \<Rightarrow> string list \<times> string \<times> nat list \<Rightarrow> string list \<times> string \<times> nat list" where
  "binary_range_step bits s =
     (let (l, v, toggle) = s; v_copy = rev v;
          (v', toggle') = toggle_loop bits 0 v (1 # replicate bits 0)
      in (l @ [v_copy], v', toggle'))"

definition binary_range :: "nat \<Rightarrow> string list option" where
  "binary_range bits =
     map_option fst (while_option (\<lambda>(l, v, toggle). toggle ! bits \<noteq> 1) (binary_range_step bits)
       ([], replicate bits (CHR ''0''), 1 # replicate bits 0))"

section \<open>Arithmetic\<close>

text \<open>The loop of \<open>gcf\<close> on integers, where \<open>epsilon\<close> is below every remainder.\<close>

function gcf_loop :: "int \<Rightarrow> int \<Rightarrow> int" where
  "gcf_loop result remainder =
     (if remainder \<noteq> 0 then gcf_loop remainder (result mod remainder) else \<bar>result\<bar>)"
  by pat_completeness auto
termination
  by (relation "measure (\<lambda>(a, b). nat \<bar>b\<bar>)") (auto simp: abs_mod_less)

declare gcf_loop.simps [simp del]

definition gcf :: "int \<Rightarrow> int \<Rightarrow> int" where
  "gcf a b = gcf_loop (max a b) (min a b)"

definition lcm_py :: "int \<Rightarrow> int \<Rightarrow> int" where
  "lcm_py a b = (let denom = gcf a b in if denom = 0 then 0 else a * (b div denom))"

definition reduce_fraction :: "int \<times> int \<Rightarrow> (int \<times> int) res" where
  "reduce_fraction fraction =
     (let (numerator, denominator) = fraction; common_factor = \<bar>gcf numerator denominator\<bar>
      in if common_factor = 0 then Inl ZeroDivisionError
         else Inr (numerator div common_factor, denominator div common_factor))"

text \<open>
  \<open>round_grid\<close> on integers. No branch assigns \<open>add_one\<close> when the mode is not 0 and
  the value is on the grid, or the mode is none of 0, 1 and -1. (\<open>grid / 2.0\<close> is exact.)
\<close>

definition round_grid :: "int \<Rightarrow> int \<Rightarrow> int \<Rightarrow> int res" where
  "round_grid val grid mode =
     (if grid = 0 then Inl ZeroDivisionError
      else
        (let off_grid = val mod grid;
             add_one = (if mode = 0 then Some (if 2 * off_grid \<ge> grid then 1 else 0)
                        else if mode = 1 \<and> off_grid \<noteq> 0 then Some 1
                        else if mode = - 1 \<and> off_grid \<noteq> 0 then Some 0
                        else None)
         in case add_one of
              None \<Rightarrow> Inl UnboundLocalError
            | Some k \<Rightarrow> Inr ((val div grid + k) * grid)))"

text \<open>
  \<open>polygon_area\<close> on integer points with an integer precision. The function scales and
  closes the caller's list in place, so its final value is part of the result.
\<close>

definition scale_points :: "int \<Rightarrow> (int \<times> int) list \<Rightarrow> (int \<times> int) list" where
  "scale_points precision ps = map (\<lambda>(x, y). (x * precision, y * precision)) ps"

definition close_polygon :: "'a list \<Rightarrow> 'a list res" where
  "close_polygon ps =
     and_then (py_nth ps (- 1)) (\<lambda>l. and_then (py_nth ps 0) (\<lambda>f.
       Inr (if l \<noteq> f then ps @ [f] else ps)))"

definition cross_sum :: "(int \<times> int) list \<Rightarrow> int" where
  "cross_sum ps = foldl (\<lambda>area i.
     let (x_i, y_i) = ps ! i; (x_i_plus_1, y_i_plus_1) = ps ! (i + 1)
     in area + x_i_plus_1 * y_i - y_i_plus_1 * x_i) 0 [0..<length ps - 1]"

definition polygon_area :: "(int \<times> int) list \<Rightarrow> int \<Rightarrow> (rat \<times> (int \<times> int) list) res" where
  "polygon_area points_list precision =
     and_then (close_polygon (scale_points precision points_list)) (\<lambda>ps.
       if precision = 0 then Inl ZeroDivisionError
       else Inr (of_int \<bar>cross_sum ps div 2\<bar> / of_int (precision ^ 2), ps))"

section \<open>Greatest common divisors\<close>

lemma gcf_loop_gcd: "gcf_loop a b = gcd a b"
proof (induction a b rule: gcf_loop.induct)
  case (1 a b)
  then show ?case
    by (subst gcf_loop.simps) (metis gcd.commute gcd_0_int gcd_red_int)
qed

lemma gcf_gcd: "gcf a b = gcd a b"
  by (auto simp: gcf_def gcf_loop_gcd max_def min_def gcd.commute)

text \<open>
  On integers \<open>gcf\<close> returns the greatest common divisor, \<open>lcm\<close> the least
  common multiple with the sign of the product, and \<open>reduce_fraction\<close> an equal fraction in
  lowest terms; only the fraction 0/0 raises.
\<close>
theorem gcf_lcm_reduce:
  "gcf a b = gcd a b \<and> lcm_py a b = sgn (a * b) * lcm a b
   \<and> (case reduce_fraction (a, b) of
        Inl e \<Rightarrow> e = ZeroDivisionError \<and> a = 0 \<and> b = 0
      | Inr (p, q) \<Rightarrow> coprime p q \<and> p * b = a * q \<and> p * gcd a b = a \<and> q * gcd a b = b)"
proof -
  note g = gcf_gcd
  have "lcm_py a b = sgn (a * b) * lcm a b"
  proof (cases "a = 0 \<and> b = 0")
    case True
    then show ?thesis by (auto simp: lcm_py_def g)
  next
    case False
    have "\<bar>a * b\<bar> = lcm a b * gcd a b"
      using prod_gcd_lcm_int [of a b] by (simp add: abs_mult mult.commute)
    then have "sgn (a * b) * lcm a b * gcd a b = a * b"
      by (metis mult.assoc mult_sgn_abs)
    moreover have "a * (b div gcd a b) * gcd a b = a * b" by (simp add: mult.assoc)
    moreover have "gcd a b \<noteq> 0" using False by simp
    ultimately have "sgn (a * b) * lcm a b = a * (b div gcd a b)"
      by (metis mult_right_cancel)
    then show ?thesis using \<open>gcd a b \<noteq> 0\<close> by (simp only: lcm_py_def g Let_def if_False)
  qed
  moreover have "case reduce_fraction (a, b) of
        Inl e \<Rightarrow> e = ZeroDivisionError \<and> a = 0 \<and> b = 0
      | Inr (p, q) \<Rightarrow> coprime p q \<and> p * b = a * q \<and> p * gcd a b = a \<and> q * gcd a b = b"
  proof (cases "gcd a b = 0")
    case True
    then show ?thesis by (simp add: reduce_fraction_def g)
  next
    case False
    have "a div gcd a b * b = a * (b div gcd a b)" by (simp add: div_mult_swap dvd_div_mult)
    moreover have "coprime (a div gcd a b) (b div gcd a b)"
      using False by (intro div_gcd_coprime) auto
    ultimately show ?thesis using False by (simp add: reduce_fraction_def g Let_def)
  qed
  ultimately show ?thesis using g by blast
qed


section \<open>Binary strings: what they denote\<close>

definition bits_val :: "string \<Rightarrow> int" where
  "bits_val s = foldl (\<lambda>a c. 2 * a + (if c = CHR ''1'' then 1 else 0)) 0 s"

definition is_bits :: "string \<Rightarrow> bool" where
  "is_bits s \<longleftrightarrow> set s \<subseteq> {CHR ''0'', CHR ''1''}"

lemma bits_val_Nil [simp]: "bits_val [] = 0"
  by (simp add: bits_val_def)

lemma bits_val_snoc: "bits_val (s @ [c]) = 2 * bits_val s + (if c = CHR ''1'' then 1 else 0)"
  by (simp add: bits_val_def)

lemma bits_val_append: "bits_val (s @ t) = bits_val s * 2 ^ length t + bits_val t"
proof (induction t rule: rev_induct)
  case (snoc c t)
  then show ?case
    using bits_val_snoc [of "s @ t" c] bits_val_snoc [of t c] by simp
qed simp

lemma bits_val_bounds: "0 \<le> bits_val s \<and> bits_val s < 2 ^ length s"
  by (induction s rule: rev_induct) (auto simp: bits_val_snoc)

lemma bits_val_0_iff: "bits_val s = 0 \<longleftrightarrow> CHR ''1'' \<notin> set s"
proof (induction s rule: rev_induct)
  case (snoc c s)
  then show ?case using bits_val_bounds [of s] by (auto simp: bits_val_snoc)
qed simp

lemma bits_val_replicate_0 [simp]: "bits_val (replicate n CHR ''0'') = 0"
  by (simp add: bits_val_0_iff)

lemma bin2int_bits: "is_bits s \<Longrightarrow> s \<noteq> [] \<Longrightarrow> bin2int s = Inr (bits_val s)"
  by (auto simp: bin2int_def is_bits_def bits_val_def)

lemma hex_digit_table:
  "\<forall>d<16. \<exists>s. hex2bin (hex_digit d) = Inr s \<and> length s = 4 \<and> is_bits s \<and> bits_val s = int d
     \<and> lower [hex_digit d] = [hex_digit d] \<and> hex_digit d \<noteq> CHR ''l''"
proof -
  have "list_all (\<lambda>d. case hex2bin (hex_digit d) of Inl e \<Rightarrow> False
      | Inr s \<Rightarrow> length s = 4 \<and> list_all (\<lambda>c. c = CHR ''0'' \<or> c = CHR ''1'') s \<and> bits_val s = int d
          \<and> lower [hex_digit d] = [hex_digit d] \<and> hex_digit d \<noteq> CHR ''l'') [0..<16]"
    by code_simp
  then have *: "case hex2bin (hex_digit d) of Inl e \<Rightarrow> False
      | Inr s \<Rightarrow> length s = 4 \<and> list_all (\<lambda>c. c = CHR ''0'' \<or> c = CHR ''1'') s \<and> bits_val s = int d
          \<and> lower [hex_digit d] = [hex_digit d] \<and> hex_digit d \<noteq> CHR ''l''" if "d < 16" for d
    using that by (simp only: list_all_iff) simp
  show ?thesis
  proof (intro allI impI)
    fix d :: nat assume "d < 16"
    from * [OF this] show "\<exists>s. hex2bin (hex_digit d) = Inr s \<and> length s = 4 \<and> is_bits s \<and> bits_val s = int d
     \<and> lower [hex_digit d] = [hex_digit d] \<and> hex_digit d \<noteq> CHR ''l''"
      by (cases "hex2bin (hex_digit d)") (auto simp: is_bits_def list_all_iff)
  qed
qed

lemma map_hex_single: "map_hex [x] = hex2bin x"
  by (cases "hex2bin x") (simp_all add: map_hex_def)

lemma map_hex_append:
  "map_hex (s @ t) = and_then (map_hex s) (\<lambda>a. and_then (map_hex t) (\<lambda>b. Inr (a @ b)))"
proof -
  have shift: "for_each (\<lambda>acc x. and_then (hex2bin x) (\<lambda>b. Inr (acc @ b))) (u @ v) t
      = and_then (for_each (\<lambda>acc x. and_then (hex2bin x) (\<lambda>b. Inr (acc @ b))) v t) (\<lambda>b. Inr (u @ b))"
    for u v :: string
  proof (induction t arbitrary: v)
    case (Cons x t)
    then show ?case by (cases "hex2bin x") auto
  qed simp
  show ?thesis
  proof (cases "map_hex s")
    case (Inr a)
    then show ?thesis using shift [of a "[]"] by (simp add: map_hex_def for_each_append)
  qed (simp add: map_hex_def for_each_append)
qed

lemma hex_digits_spec:
  "\<exists>s. map_hex (hex_digits n) = Inr s \<and> is_bits s \<and> bits_val s = int n
     \<and> lower (hex_digits n) = hex_digits n \<and> CHR ''l'' \<notin> set (hex_digits n)"
proof (induction n rule: hex_digits.induct)
  case (1 n)
  have digit: "\<exists>s. map_hex [hex_digit d] = Inr s \<and> length s = 4 \<and> is_bits s \<and> bits_val s = int d
     \<and> lower [hex_digit d] = [hex_digit d] \<and> hex_digit d \<noteq> CHR ''l''" if "d < 16" for d
    using hex_digit_table [rule_format, OF that] unfolding map_hex_single .
  show ?case
  proof (cases "n < 16")
    case True
    with digit [OF this] show ?thesis by (auto simp: hex_digits.simps [of n])
  next
    case False
    with 1 obtain s where s: "map_hex (hex_digits (n div 16)) = Inr s" "is_bits s" "bits_val s = int (n div 16)"
      "lower (hex_digits (n div 16)) = hex_digits (n div 16)" "CHR ''l'' \<notin> set (hex_digits (n div 16))"
      by blast
    from digit [of "n mod 16"] obtain t where t: "map_hex [hex_digit (n mod 16)] = Inr t" "length t = 4"
      "is_bits t" "bits_val t = int (n mod 16)" "lower [hex_digit (n mod 16)] = [hex_digit (n mod 16)]"
      "hex_digit (n mod 16) \<noteq> CHR ''l''" by auto
    have "bits_val (s @ t) = int n"
      using s(3) t(2,4) by (simp add: bits_val_append) (metis mult_div_mod_eq mult.commute of_nat_add of_nat_mult of_nat_numeral)
    with s t False show ?thesis
      by (auto simp: hex_digits.simps [of n] map_hex_append lower_append is_bits_def)
  qed
qed

lemma int2bin_nonneg:
  assumes "0 \<le> i"
  shows "\<exists>s. is_bits s \<and> bits_val s = i \<and> int2bin is_long i n =
     (if CHR ''1'' \<in> set (slice_to s (- n)) then Inl ValueError
      else Inr (replicate (nat (n - int (length (slice_from s (- n))))) (CHR ''0'') @ slice_from s (- n)))"
proof -
  from hex_digits_spec [of "nat i"] obtain s where
    s: "map_hex (hex_digits (nat i)) = Inr s" "is_bits s" "bits_val s = i"
      "lower (hex_digits (nat i)) = hex_digits (nat i)" "CHR ''l'' \<notin> set (hex_digits (nat i))"
    using assms by auto
  have low: "lower ''0x'' = ''0x''" "lower ''L'' = ''l''" "lower [] = []" by code_simp+
  have flt: "filter (\<lambda>c. c \<noteq> CHR ''l'') (hex_digits (nat i)) = hex_digits (nat i)"
    using s(5) by (simp add: filter_id_conv) metis
  have "filter (\<lambda>c. c \<noteq> CHR ''l'') (lower (py_hex is_long i)) = ''0x'' @ hex_digits (nat i)"
    using assms s(4) flt low by (cases is_long) (simp_all add: py_hex_def lower_append del: append_Cons)
  then have "slice_from (filter (\<lambda>c. c \<noteq> CHR ''l'') (lower (py_hex is_long i))) 2 = hex_digits (nat i)"
    by (simp add: slice_from_def slice_bound_def)
  with s show ?thesis by (auto simp: int2bin_def Let_def)
qed

text \<open>
  Encoding a number with \<open>int2bin\<close> in n > 0 bits gives n binary digits that
  \<open>bin2int\<close> decodes to the number, when it fits; when it does not, the encoding raises
  \<open>ValueError\<close>. The long suffix of \<open>hex\<close> makes no difference.
\<close>
theorem int2bin_roundtrip:
  assumes "0 \<le> i" and "0 < n"
  shows "if i < 2 ^ n
    then \<exists>s. int2bin is_long i (int n) = Inr s \<and> length s = n \<and> bin2int s = Inr i
    else int2bin is_long i (int n) = Inl ValueError"
proof -
  from int2bin_nonneg [OF assms(1), of is_long "int n"] obtain s where
    s: "is_bits s" "bits_val s = i" and enc: "int2bin is_long i (int n) =
     (if CHR ''1'' \<in> set (slice_to s (- int n)) then Inl ValueError
      else Inr (replicate (nat (int n - int (length (slice_from s (- int n))))) (CHR ''0'') @ slice_from s (- int n)))"
    by blast
  define hi where "hi = take (length s - n) s"
  define lo where "lo = drop (length s - n) s"
  have hl: "slice_to s (- int n) = hi" "slice_from s (- int n) = lo" "s = hi @ lo"
    using assms(2) by (simp_all add: hi_def lo_def py_simps)
  have len: "length lo \<le> n" by (simp add: lo_def)
  have val: "i = bits_val hi * 2 ^ length lo + bits_val lo" using s(2) hl(3) bits_val_append by metis
  show ?thesis
  proof (cases "CHR ''1'' \<in> set hi")
    case True
    then have pos: "1 \<le> bits_val hi" using bits_val_0_iff [of hi] bits_val_bounds [of hi] by linarith
    have "hi \<noteq> []" using True by auto
    then have "length lo = n" by (simp add: hi_def lo_def)
    then have v: "i = bits_val hi * 2 ^ n + bits_val lo" using val by simp
    have "2 ^ n \<le> bits_val hi * 2 ^ n"
      using mult_right_mono [OF pos, of "2 ^ n"] by simp
    then have "2 ^ n \<le> i" using v bits_val_bounds [of lo] by linarith
    with True enc hl show ?thesis by simp
  next
    case False
    define r where "r = replicate (n - length lo) (CHR ''0'') @ lo"
    have "bits_val hi = 0" using False by (simp add: bits_val_0_iff)
    then have r: "bits_val r = i" "length r = n"
      using val len by (simp_all add: r_def bits_val_append)
    have "is_bits r" using s(1) hl(3) by (auto simp: r_def is_bits_def)
    moreover have "r \<noteq> []" using r(2) assms(2) by auto
    ultimately have "bin2int r = Inr i" using r(1) by (simp add: bin2int_bits)
    moreover have "int2bin is_long i (int n) = Inr r"
      using enc hl False len by (simp add: r_def nat_diff_distrib' flip: of_nat_diff)
    moreover have "i < 2 ^ n" using r bits_val_bounds [of r] by simp
    ultimately show ?thesis using r(2) by auto
  qed
qed

theorem int2bin_roundtrip_witness:
  "(\<exists>s. int2bin True 123 (int 8) = Inr s \<and> length s = 8 \<and> bin2int s = Inr 123)
   \<and> int2bin False 15 (int 2) = Inl ValueError"
  using int2bin_roundtrip [of 123 8 True] int2bin_roundtrip [of 15 2 False] by simp


section \<open>Gray codes\<close>

lemma xor_div_2: "(x XOR y) div 2 = (x div 2) XOR (y div (2::int))"
  by (rule bit_eqI) (simp add: bit_xor_iff flip: bit_Suc)

lemma gray_div: "gray_encode i = i XOR (i div 2)"
  by (simp add: gray_encode_def drop_bit_eq_div)

lemma gray_div_2: "gray_encode i div 2 = gray_encode (i div 2)"
  by (simp add: gray_div xor_div_2)

lemma even_gray: "even (gray_encode i) \<longleftrightarrow> (even i \<longleftrightarrow> even (i div 2))"
  by (simp add: gray_div even_xor_iff)

lemma gray_inj: "0 \<le> i \<Longrightarrow> 0 \<le> j \<Longrightarrow> gray_encode i = gray_encode j \<Longrightarrow> i = j"
proof (induction "nat (i + j)" arbitrary: i j rule: less_induct)
  case less
  show ?case
  proof (cases "i = 0 \<and> j = 0")
    case False
    have "gray_encode (i div 2) = gray_encode (j div 2)" (is ?g)
      using less.prems(3) by (simp flip: gray_div_2)
    moreover have "i div 2 + j div 2 < i + j" "0 \<le> i div 2" "0 \<le> j div 2"
      using less.prems(1,2) False by presburger+
    ultimately have half: "i div 2 = j div 2"
      using less.hyps [of "i div 2" "j div 2"] less.prems(1,2) by (simp add: nat_mono_iff)
    moreover have "even i \<longleftrightarrow> even j"
      using less.prems(3) half even_gray [of i] even_gray [of j] by metis
    ultimately show ?thesis by presburger
  qed simp
qed

lemma gray_step:
  assumes "0 \<le> i"
  shows "\<exists>t. gray_encode (i + 1) XOR gray_encode i = 2 ^ t"
  using assms
proof (induction "nat i" arbitrary: i rule: less_induct)
  case less
  let ?x = "gray_encode (i + 1) XOR gray_encode i"
  have half: "?x div 2 = gray_encode ((i + 1) div 2) XOR gray_encode (i div 2)"
    by (simp add: xor_div_2 gray_div_2)
  have par: "even ?x \<longleftrightarrow> (even (gray_encode (i + 1)) \<longleftrightarrow> even (gray_encode i))"
    by (simp add: even_xor_iff)
  show ?case
  proof (cases "even i")
    case True
    then have "(i + 1) div 2 = i div 2" by presburger
    then have "?x div 2 = 0" "odd ?x" using half par True even_gray [of i] even_gray [of "i + 1"] by auto
    then have "?x = 1" by presburger
    then show ?thesis by (metis power_0)
  next
    case False
    then have m: "(i + 1) div 2 = i div 2 + 1" by presburger
    then have ev: "even ?x" using par False even_gray [of i] even_gray [of "i + 1"] by auto
    have "nat (i div 2) < nat i" using False less.prems by (cases "i = 0") auto
    moreover have "0 \<le> i div 2" using less.prems by simp
    ultimately obtain t where "gray_encode (i div 2 + 1) XOR gray_encode (i div 2) = 2 ^ t"
      using less.hyps by blast
    with half m have "?x div 2 = 2 ^ t" by simp
    with ev have "?x = 2 ^ Suc t" by (metis dvd_mult_div_cancel power_Suc)
    then show ?thesis by blast
  qed
qed

text \<open>
  \<open>gray_encode\<close> is a Gray code: the codes of consecutive numbers differ in exactly
  one bit, and different numbers have different codes.
\<close>
theorem gray_encode_code:
  assumes "0 \<le> i" and "0 \<le> j"
  shows "(\<exists>t. gray_encode (i + 1) XOR gray_encode i = 2 ^ t)
    \<and> (gray_encode i = gray_encode j \<longleftrightarrow> i = j)"
  using gray_step [OF assms(1)] gray_inj [OF assms] by blast

theorem gray_encode_code_witness:
  "(\<exists>t. gray_encode (5 + 1) XOR gray_encode 5 = 2 ^ t) \<and> gray_encode 5 \<noteq> gray_encode 6"
  using gray_encode_code [of 5 6] by simp

lemma lsb_take_bit: "lsb x n = x mod 2 ^ n"
  by (simp add: lsb_def take_bit_eq_mask flip: mask_eq_exp_minus_1 take_bit_eq_mod)

section \<open>Enumerating binary numbers\<close>

text \<open>The low \<open>n\<close> binary digits of \<open>k\<close>, the least significant first.\<close>

fun bin_digits :: "nat \<Rightarrow> nat \<Rightarrow> string" where
  "bin_digits 0 k = []"
| "bin_digits (Suc n) k = (if even k then CHR ''0'' else CHR ''1'') # bin_digits n (k div 2)"

lemma length_bin_digits [simp]: "length (bin_digits n k) = n"
  by (induction n arbitrary: k) auto

lemma bin_digits_0: "bin_digits n 0 = replicate n CHR ''0''"
  by (induction n) auto

lemma bits_val_bin_digits: "k < 2 ^ n \<Longrightarrow> bits_val (rev (bin_digits n k)) = int k"
proof (induction n arbitrary: k)
  case (Suc n)
  then have "k div 2 < 2 ^ n" by simp
  with Suc.IH [of "k div 2"] show ?case
    by (auto simp: bits_val_snoc elim: oddE)
qed simp

lemma toggle_loop_carry:
  assumes "length us = i" and "toggle ! i = 1" and "length toggle = Suc (i + n)"
    and "\<forall>j. i < j \<and> j \<le> i + n \<longrightarrow> toggle ! j = 0" and "k < 2 ^ n"
  shows "\<exists>toggle'. toggle_loop (i + n) i (us @ bin_digits n k) toggle
      = (us @ bin_digits n (k + 1), toggle')
    \<and> length toggle' = Suc (i + n) \<and> (toggle' ! (i + n) = 1 \<longleftrightarrow> k + 1 = 2 ^ n)"
  using assms
proof (induction n arbitrary: i us toggle k)
  case 0
  then show ?case by (simp add: toggle_loop.simps)
next
  case (Suc n)
  let ?hd = "if even k then CHR ''0'' else CHR ''1''"
  have at: "(us @ bin_digits (Suc n) k) ! i = ?hd" using Suc.prems(1) by (auto simp: nth_append)
  show ?case
  proof (cases "even k")
    case True
    have "toggle_loop (i + Suc n) i (us @ bin_digits (Suc n) k) toggle
        = toggle_loop (i + Suc n) (i + 1) ((us @ bin_digits (Suc n) k)[i := CHR ''1'']) (toggle[i + 1 := 0])"
      using at True Suc.prems(2) by (subst toggle_loop.simps) simp
    also have "\<dots> = ((us @ bin_digits (Suc n) k)[i := CHR ''1''], toggle[i + 1 := 0])"
      using Suc.prems(3) by (subst toggle_loop.simps) simp
    also have "(us @ bin_digits (Suc n) k)[i := CHR ''1''] = us @ bin_digits (Suc n) (k + 1)"
      using True Suc.prems(1) by (auto simp: list_update_append)
    finally have "toggle_loop (i + Suc n) i (us @ bin_digits (Suc n) k) toggle
        = (us @ bin_digits (Suc n) (k + 1), toggle[i + 1 := 0])" .
    moreover have "toggle[i + 1 := 0] ! (i + Suc n) = 0"
      using Suc.prems(3,4) by (cases n) (auto simp: nth_list_update)
    moreover have "k + 1 \<noteq> 2 ^ Suc n" using True by (metis even_plus_one_iff even_power dvd_refl zero_less_Suc)
    ultimately show ?thesis using Suc.prems(3) by auto
  next
    case False
    let ?us = "us @ [CHR ''0'']" and ?toggle = "toggle[i + 1 := 1]"
    have "toggle_loop (i + Suc n) i (us @ bin_digits (Suc n) k) toggle
        = toggle_loop (i + Suc n) (i + 1) ((us @ bin_digits (Suc n) k)[i := CHR ''0'']) ?toggle"
      using at False Suc.prems(2) by (subst toggle_loop.simps) simp
    also have "(us @ bin_digits (Suc n) k)[i := CHR ''0''] = ?us @ bin_digits n (k div 2)"
      using Suc.prems(1) by (simp add: list_update_append)
    finally have eq: "toggle_loop (i + Suc n) i (us @ bin_digits (Suc n) k) toggle
        = toggle_loop (i + 1 + n) (i + 1) (?us @ bin_digits n (k div 2)) ?toggle" by simp
    have "length ?us = i + 1" "?toggle ! (i + 1) = 1" "length ?toggle = Suc (i + 1 + n)"
      "\<forall>j. i + 1 < j \<and> j \<le> i + 1 + n \<longrightarrow> ?toggle ! j = 0" "k div 2 < 2 ^ n"
      using Suc.prems by auto
    from Suc.IH [OF this] obtain toggle' where
      t: "toggle_loop (i + 1 + n) (i + 1) (?us @ bin_digits n (k div 2)) ?toggle
        = (?us @ bin_digits n (k div 2 + 1), toggle')" "length toggle' = Suc (i + 1 + n)"
        "toggle' ! (i + 1 + n) = 1 \<longleftrightarrow> k div 2 + 1 = 2 ^ n" by (elim exE conjE)
    have "?us @ bin_digits n (k div 2 + 1) = us @ bin_digits (Suc n) (k + 1)"
      using False by simp
    moreover have "k div 2 + 1 = 2 ^ n \<longleftrightarrow> k + 1 = 2 ^ Suc n" using False by (auto elim: oddE)
    ultimately show ?thesis using eq t by auto
  qed
qed


lemma binary_range_step_spec:
  assumes "k < 2 ^ bits"
  shows "\<exists>toggle'. binary_range_step bits (l, bin_digits bits k, toggle)
      = (l @ [rev (bin_digits bits k)], bin_digits bits (k + 1), toggle')
    \<and> (toggle' ! bits = 1 \<longleftrightarrow> k + 1 = 2 ^ bits)"
proof -
  have "\<forall>j. 0 < j \<and> j \<le> 0 + bits \<longrightarrow> (1 # replicate bits 0) ! j = (0 :: nat)"
    by (auto simp: nth_Cons split: nat.splits)
  from toggle_loop_carry [OF _ _ _ this assms, of "[]"] show ?thesis
    by (auto simp: binary_range_step_def)
qed

text \<open>
  \<open>binary_range\<close> returns, for a width of at least one bit, all the numbers of that
  width as binary strings, in increasing order; for width 0 it returns no string at all.
\<close>
theorem binary_range_complete:
  "binary_range bits =
     Some (if bits = 0 then [] else map (\<lambda>k. rev (bin_digits bits k)) [0..<2 ^ bits])"
proof (cases "bits = 0")
  case True
  then show ?thesis by (simp add: binary_range_def while_option_unfold)
next
  case False
  let ?P = "\<lambda>(l :: string list, v :: string, toggle :: nat list). \<exists>k. k \<le> 2 ^ bits \<and> v = bin_digits bits k
    \<and> l = map (\<lambda>k. rev (bin_digits bits k)) [0..<k] \<and> (toggle ! bits = 1 \<longleftrightarrow> k = 2 ^ bits)"
  let ?b = "\<lambda>(l :: string list, v :: string, toggle :: nat list). toggle ! bits \<noteq> 1"
  let ?s = "([], replicate bits (CHR ''0''), 1 # replicate bits 0)"
  have start: "?P ?s"
    unfolding prod.case using False by (intro exI [of _ 0]) (simp add: nth_Cons' bin_digits_0)
  have step: "?P (binary_range_step bits s) \<and> length (fst (binary_range_step bits s)) = Suc (length (fst s))
      \<and> length (fst s) < 2 ^ bits" if "?P s" "?b s" for s
  proof -
    obtain l v toggle where lvt: "s = (l, v, toggle)" by (cases s)
    from that(1) obtain k where k: "k \<le> 2 ^ bits" "v = bin_digits bits k"
      "l = map (\<lambda>k. rev (bin_digits bits k)) [0..<k]" "toggle ! bits = 1 \<longleftrightarrow> k = 2 ^ bits"
      unfolding lvt prod.case by (elim exE conjE)
    then have s: "s = (l, bin_digits bits k, toggle)" "k \<noteq> 2 ^ bits"
      using that(2) lvt by simp_all
    with k(1) have less: "k < 2 ^ bits" by simp
    from binary_range_step_spec [OF this, of l toggle] obtain toggle' where
      t: "binary_range_step bits s = (l @ [rev (bin_digits bits k)], bin_digits bits (k + 1), toggle')"
      "toggle' ! bits = 1 \<longleftrightarrow> k + 1 = 2 ^ bits" unfolding s(1) by (elim exE conjE)
    have "?P (binary_range_step bits s)"
      unfolding t prod.case using less k(3) t(2) by (intro exI [of _ "k + 1"]) simp
    moreover have "length (fst (binary_range_step bits s)) = Suc (length (fst s)) \<and> length (fst s) < 2 ^ bits"
      using less k(3) arg_cong [OF t(1), of "\<lambda>s. length (fst s)"] by (simp add: s(1))
    ultimately show ?thesis by blast
  qed
  have "?P (binary_range_step bits s)
      \<and> 2 ^ bits - length (fst (binary_range_step bits s)) < 2 ^ bits - length (fst s)"
    if "?P s" "?b s" for s
    using step [OF that] by (simp only: simp_thms diff_less_mono2 less_SucI lessI)
  from measure_while_option_Some [where P = ?P, OF this start]
  have "\<exists>s. while_option ?b (binary_range_step bits) ?s = Some s" .
  then obtain s where s: "while_option ?b (binary_range_step bits) ?s = Some s" by blast
  have "?P s" by (rule while_option_rule [where P = ?P, OF _ s start]) (drule (1) step, elim conjE)
  moreover have "\<not> ?b s" using while_option_stop [OF s] .
  ultimately show ?thesis using s False by (auto simp: binary_range_def)
qed

section \<open>Rounding and areas\<close>

text \<open>
  On integers and a positive grid, \<open>round_grid\<close> to the nearest returns a multiple of
  the grid at most half a grid away, upwards on a tie; the other two modes return the next
  multiple above or below, but raise \<open>UnboundLocalError\<close> for a value on the grid.
\<close>
theorem round_grid_correct:
  assumes "0 < grid"
  shows "(\<exists>r. round_grid val grid 0 = Inr r \<and> grid dvd r \<and> 2 * (r - val) \<le> grid \<and> 2 * (val - r) < grid)
    \<and> (if grid dvd val then round_grid val grid 1 = Inl UnboundLocalError \<and> round_grid val grid (- 1) = Inl UnboundLocalError
       else \<exists>lo. round_grid val grid (- 1) = Inr lo \<and> round_grid val grid 1 = Inr (lo + grid)
         \<and> grid dvd lo \<and> lo < val \<and> val < lo + grid)"
proof -
  define lo where "lo = val div grid * grid"
  define r where "r = val mod grid"
  have v: "val = lo + r" "0 \<le> r" "r < grid" using assms by (simp_all add: lo_def r_def)
  have lo: "grid dvd lo" "(val div grid + 0) * grid = lo" "(val div grid + 1) * grid = lo + grid"
    by (simp_all add: lo_def algebra_simps)
  have nearest: "round_grid val grid 0 = Inr (if 2 * r \<ge> grid then lo + grid else lo)"
    using assms lo by (simp add: round_grid_def Let_def r_def)
  then have "\<exists>x. round_grid val grid 0 = Inr x \<and> grid dvd x \<and> 2 * (x - val) \<le> grid \<and> 2 * (val - x) < grid"
    using v lo(1) by (cases "2 * r \<ge> grid") auto
  moreover have "r = 0 \<longleftrightarrow> grid dvd val" by (simp add: r_def dvd_eq_mod_eq_0)
  moreover have "r \<noteq> 0 \<Longrightarrow> round_grid val grid (- 1) = Inr lo \<and> round_grid val grid 1 = Inr (lo + grid)"
    using assms lo by (simp add: round_grid_def Let_def r_def)
  moreover have "r = 0 \<Longrightarrow> round_grid val grid 1 = Inl UnboundLocalError \<and> round_grid val grid (- 1) = Inl UnboundLocalError"
    using assms by (simp add: round_grid_def Let_def r_def)
  ultimately show ?thesis using v lo(1) by auto
qed

theorem round_grid_correct_witness:
  "(\<exists>r. round_grid 7 5 0 = Inr r \<and> 5 dvd r \<and> 2 * (r - 7) \<le> 5 \<and> 2 * (7 - r) < 5)
   \<and> round_grid 10 5 1 = Inl UnboundLocalError"
  using round_grid_correct [of 5 7] round_grid_correct [of 5 10] by simp

text \<open>The shoelace sum of a closed polygon given by its corners.\<close>

fun shoelace :: "(int \<times> int) list \<Rightarrow> int" where
  "shoelace ((x, y) # (x', y') # ps) = (x' * y - y' * x) + shoelace ((x', y') # ps)"
| "shoelace _ = 0"

lemma cross_sum_shift:
  "foldl (\<lambda>area i. let (x_i, y_i) = f i; (x', y') = f (i + 1) in area + x' * y_i - y' * x_i) a [0..<n]
   = a + (\<Sum>i<n. fst (f (i + 1)) * snd (f i) - snd (f (i + 1)) * fst (f i :: int \<times> int))"
  by (induction n) (auto simp: case_prod_beta Let_def)

lemma shoelace_sum:
  "shoelace ps = (\<Sum>i<length ps - 1. fst (ps ! (i + 1)) * snd (ps ! i) - snd (ps ! (i + 1)) * fst (ps ! i))"
proof (induction ps rule: shoelace.induct)
  case (1 x y x' y' ps)
  then show ?case
    by (simp only: length_Cons diff_Suc_1 sum.lessThan_Suc_shift) (simp del: sum.lessThan_Suc)
qed auto

lemma cross_sum_shoelace: "cross_sum ps = shoelace ps"
  using cross_sum_shift [of "\<lambda>i. ps ! i" 0 "length ps - 1"]
  by (simp add: cross_sum_def shoelace_sum)

lemma shoelace_scale: "shoelace (scale_points k ps) = k\<^sup>2 * shoelace ps"
  by (induction ps rule: shoelace.induct) (auto simp: scale_points_def power2_eq_square algebra_simps)


definition closed_polygon :: "'a list \<Rightarrow> 'a list" where
  "closed_polygon ps = (if last ps \<noteq> hd ps then ps @ [hd ps] else ps)"

lemma close_polygon_closed: "ps \<noteq> [] \<Longrightarrow> close_polygon ps = Inr (closed_polygon ps)"
  using py_nth_nonneg [of ps 0]
  by (simp add: close_polygon_def closed_polygon_def py_nth_last hd_conv_nth)

lemma closed_polygon_scale:
  assumes "ps \<noteq> []" and "k \<noteq> 0"
  shows "closed_polygon (scale_points k ps) = scale_points k (closed_polygon ps)"
proof -
  have "inj (\<lambda>(x, y). (x * k, y * k))" using assms(2) by (auto simp: inj_def)
  then show ?thesis
    using assms(1) by (simp add: closed_polygon_def scale_points_def last_map hd_map inj_eq)
qed

text \<open>
  With an even precision (the default is 100), \<open>polygon_area\<close> returns exactly half the
  absolute shoelace sum of the polygon, closed when it was not; it leaves the caller's list
  scaled and closed. The empty list raises \<open>IndexError\<close>.
\<close>
theorem polygon_area_shoelace:
  assumes "even precision" and "precision \<noteq> 0"
  shows "polygon_area ps precision =
     (if ps = [] then Inl IndexError
      else Inr (of_int \<bar>shoelace (closed_polygon ps)\<bar> / 2, scale_points precision (closed_polygon ps)))"
proof (cases "ps = []")
  case True
  then show ?thesis by (simp add: polygon_area_def close_polygon_def scale_points_def py_nth_def)
next
  case False
  let ?S = "shoelace (closed_polygon ps)"
  obtain h where h: "precision = 2 * h" using assms(1) by blast
  have half: "precision\<^sup>2 * ?S div 2 = 2 * h\<^sup>2 * ?S" by (simp add: h power2_eq_square)
  have "of_int \<bar>2 * h\<^sup>2 * ?S\<bar> / of_int (precision ^ 2) = (of_int \<bar>?S\<bar> / 2 :: rat)"
    using assms(2) by (simp add: h abs_mult field_simps power2_eq_square)
  moreover have "scale_points precision ps \<noteq> []" using False by (simp add: scale_points_def)
  ultimately show ?thesis
    using False assms(2)
    by (simp add: polygon_area_def close_polygon_closed closed_polygon_scale cross_sum_shoelace
        shoelace_scale half)
qed

theorem polygon_area_shoelace_witness:
  "polygon_area [(0, 0), (0, 1), (1, 1), (1, 0)] 100 =
     Inr (1, [(0, 0), (0, 100), (100, 100), (100, 0), (0, 0)])"
  using polygon_area_shoelace [of 100 "[(0, 0), (0, 1), (1, 1), (1, 0)]"]
  by (simp add: closed_polygon_def scale_points_def)

text \<open>
  C1. \<open>lsb\<close> keeps the value modulo a power of two, for negative integers as well, and
  composes: taking fewer bits afterwards forgets the first cut.
\<close>
theorem lsb_mod:
  "lsb x n = x mod 2 ^ n \<and> 0 \<le> lsb x n \<and> lsb x n < 2 ^ n \<and> lsb (lsb x n) m = lsb x (min m n)"
proof -
  have "lsb (lsb x n) m = lsb x (min m n)"
    by (simp add: lsb_take_bit min.commute flip: take_bit_eq_mod)
  then show ?thesis by (simp add: lsb_take_bit)
qed

end
