(* ===== verification/RadStat.thy ===== *)
theory RadStat
  imports Prelude Complex_Main
begin

text \<open>
  The functions of bindings/python/rad_util.py on numbers with fractions, as rationals: \<open>quantile\<close>,
  \<open>trim\<close> and \<open>float_range\<close>. \<open>float_range\<close> need not return, so that it is an
  option here, with \<^term>\<open>None\<close> for a loop without end. The file is a Python 2 module.
\<close>

section \<open>Quantiles\<close>

definition quantile :: "rat list \<Rightarrow> rat \<Rightarrow> rat res" where
  "quantile l p =
     (let l_sort = sort l; n = int (length l); r = 1 + (of_int n - 1) * p;
          i = (if r \<ge> 0 then \<lfloor>r\<rfloor> else \<lceil>r\<rceil>); f = r - of_int i
      in if i < n
         then and_then (py_nth l_sort (i - 1)) (\<lambda>a. and_then (py_nth l_sort i) (\<lambda>b. Inr ((1 - f) * a + f * b)))
         else py_nth l_sort (i - 1))"

definition trim :: "rat list \<Rightarrow> rat list res" where
  "trim l =
     (let l_sort = sort l; index = int (length l_sort div 2)
      in and_then (if even (length l_sort)
                   then and_then (py_nth l_sort index) (\<lambda>a. and_then (py_nth l_sort (index - 1)) (\<lambda>b. Inr ((a + b) / 2)))
                   else py_nth l_sort index) (\<lambda>median.
         and_then (quantile l_sort (1 / 4)) (\<lambda>q1.
         and_then (quantile l_sort (3 / 4)) (\<lambda>q3.
           let iqr_extra = (q3 - q1) * (3 / 2)
           in Inr (filter (\<lambda>x. x \<ge> q1 - iqr_extra \<and> x \<le> q3 + iqr_extra) l_sort)))))"

text \<open>Where a quantile lies: between two neighbours of the sorted list.\<close>

lemma quantile_position:
  assumes "l \<noteq> []" "0 \<le> p" "p \<le> 1"
  obtains i f where "i < length l" "of_nat i + f = of_nat (length l - 1) * p" "0 \<le> f" "f < 1"
    "f = 0 \<or> Suc i < length l"
    "quantile l p = Inr (if Suc i < length l then (1 - f) * sort l ! i + f * sort l ! Suc i else sort l ! i)"
proof -
  define m where "m = length l - 1"
  have len: "length l = Suc m" using assms(1) by (cases l) (simp_all add: m_def)
  define t where "t = of_nat m * p"
  have t: "0 \<le> t" "t \<le> of_nat m" using assms by (simp_all add: t_def mult_left_le)
  define i where "i = nat \<lfloor>t\<rfloor>"
  have i: "of_nat i \<le> t" "t < of_nat i + 1" "i \<le> m"
  proof -
    have "of_nat i = (of_int \<lfloor>t\<rfloor> :: rat)" using t(1) by (simp add: i_def)
    then show "of_nat i \<le> t" "t < of_nat i + 1" by linarith+
    have "\<lfloor>t\<rfloor> \<le> int m" using t(2) by (simp add: floor_le_iff)
    then show "i \<le> m" by (simp add: i_def nat_le_iff)
  qed
  have r: "1 + (of_int (int (length l)) - 1) * p = 1 + t" by (simp add: len t_def)
  have fl: "\<lfloor>1 + t\<rfloor> = int i + 1" using t(1) by (simp add: i_def)
  have q: "quantile l p = (if Suc i < length l then Inr ((1 - (t - of_nat i)) * sort l ! i + (t - of_nat i) * sort l ! Suc i)
      else Inr (sort l ! i))"
    using t(1) i(3) py_nth_nonneg [of "sort l" "Suc i"] unfolding quantile_def Let_def r
    by (simp add: fl len py_nth_nonneg add.commute)
  show thesis
  proof (rule that [of i "t - of_nat i"])
    show "i < length l" using i(3) len by simp
    show "of_nat i + (t - of_nat i) = of_nat (length l - 1) * p" by (simp add: t_def m_def)
    show "0 \<le> t - of_nat i" "t - of_nat i < 1" using i(1,2) by simp_all
    show "t - of_nat i = 0 \<or> Suc i < length l"
    proof (cases "i = m")
      case True
      with i(1) t(2) show ?thesis by simp
    next
      case False
      with i(3) len show ?thesis by simp
    qed
    show "quantile l p = Inr (if Suc i < length l then (1 - (t - of_nat i)) * sort l ! i + (t - of_nat i) * sort l ! Suc i
        else sort l ! i)"
      using q by (simp split: if_splits)
  qed
qed

text \<open>
  A quantile of a list that is not empty lies between its least and its greatest element, the
  quantiles 0 and 1 are these, and it depends on the elements only, not on their order.
\<close>
theorem quantile_between:
  assumes "l \<noteq> []" "0 \<le> p" "p \<le> 1"
  shows "\<exists>q. quantile l p = Inr q \<and> Min (set l) \<le> q \<and> q \<le> Max (set l)
    \<and> quantile l 0 = Inr (Min (set l)) \<and> quantile l 1 = Inr (Max (set l))
    \<and> (\<forall>l'. mset l' = mset l \<longrightarrow> quantile l' p = Inr q)"
proof -
  have mem: "sort l ! i \<in> set l" if "i < length l" for i using that by (metis length_sort nth_mem set_sort)
  then have bounds: "Min (set l) \<le> sort l ! i" "sort l ! i \<le> Max (set l)" if "i < length l" for i using that by simp_all
  have ends: "sort l ! 0 = Min (set l)" "sort l ! (length l - 1) = Max (set l)"
  proof -
    have s: "sorted (sort l)" "length (sort l) = length l" "length l \<noteq> 0" using assms(1) by simp_all
    have "\<forall>x\<in>set l. sort l ! 0 \<le> x" "\<forall>x\<in>set l. x \<le> sort l ! (length l - 1)"
      using s sorted_nth_mono [OF s(1), of 0] sorted_nth_mono [OF s(1), of _ "length l - 1"]
      by (metis Suc_pred' in_set_conv_nth le0 less_Suc_eq_le not_gr_zero set_sort diff_less lessI)+
    with mem [of 0] mem [of "length l - 1"] assms(1) show "sort l ! 0 = Min (set l)" "sort l ! (length l - 1) = Max (set l)"
      by (auto intro!: Min_eqI [symmetric] Max_eqI [symmetric])
  qed
  obtain i f where q: "i < length l" "0 \<le> f" "f < 1" "f = 0 \<or> Suc i < length l"
    "quantile l p = Inr (if Suc i < length l then (1 - f) * sort l ! i + f * sort l ! Suc i else sort l ! i)"
    using quantile_position [OF assms] by metis
  let ?q = "if Suc i < length l then (1 - f) * sort l ! i + f * sort l ! Suc i else sort l ! i"
  have "Min (set l) \<le> ?q \<and> ?q \<le> Max (set l)"
  proof (cases "Suc i < length l")
    case True
    have "(1 - f) * Min (set l) + f * Min (set l) \<le> (1 - f) * sort l ! i + f * sort l ! Suc i"
      "(1 - f) * sort l ! i + f * sort l ! Suc i \<le> (1 - f) * Max (set l) + f * Max (set l)"
      using q(1-3) True bounds by (intro add_mono mult_left_mono, simp_all)+
    then show ?thesis using True by (simp add: algebra_simps)
  next
    case False
    then show ?thesis using bounds q(1) by simp
  qed
  moreover have "quantile l 0 = Inr (Min (set l))"
  proof -
    obtain j g where z: "j < length l" "of_nat j + g = of_nat (length l - 1) * 0" "0 \<le> g" "g < 1" "g = 0 \<or> Suc j < length l"
      "quantile l 0 = Inr (if Suc j < length l then (1 - g) * sort l ! j + g * sort l ! Suc j else sort l ! j)"
      by (rule quantile_position [OF assms(1), of 0]) simp_all
    then have "of_nat j = (0 :: rat)" "g = 0" by simp_all
    with z(6) ends(1) show ?thesis by (simp split: if_splits)
  qed
  moreover have "quantile l 1 = Inr (Max (set l))"
  proof -
    obtain j g where z: "j < length l" "of_nat j + g = of_nat (length l - 1) * 1" "0 \<le> g" "g < 1" "g = 0 \<or> Suc j < length l"
      "quantile l 1 = Inr (if Suc j < length l then (1 - g) * sort l ! j + g * sort l ! Suc j else sort l ! j)"
      by (rule quantile_position [OF assms(1), of 1]) simp_all
    have "j = length l - 1"
    proof -
      have "of_nat (length l - 1) < (of_nat (Suc j) :: rat)" using z(2,4) by simp
      then have "length l - 1 < Suc j" by (simp only: of_nat_less_iff)
      with z(1) show ?thesis by simp
    qed
    with z(6) ends(2) assms(1) show ?thesis by (cases l) simp_all
  qed
  moreover have "quantile l' p = quantile l p" if "mset l' = mset l" for l'
  proof -
    have "sort l' = sort l" using that by (metis properties_for_sort sorted_sort mset_sort)
    moreover have "length l' = length l" using that by (metis size_mset)
    ultimately show ?thesis by (simp add: quantile_def)
  qed
  ultimately show ?thesis using q(5) by auto
qed

lemma quantile_sort [simp]: "quantile (sort l) p = quantile l p"
  by (simp add: quantile_def sorted_sort_id)

text \<open>
  \<open>trim\<close> raises on the empty list, where there is no median; otherwise it returns, in order, the elements
  that lie at most one and a half times the distance of the quartiles below the first or above the third.
\<close>
theorem trim_interval:
  "trim [] = Inl IndexError"
  "l \<noteq> [] \<Longrightarrow> \<exists>q1 q3 r. quantile l (1 / 4) = Inr q1 \<and> quantile l (3 / 4) = Inr q3 \<and> trim l = Inr r \<and> sorted r
     \<and> (\<forall>x. count (mset r) x = (if q1 - (q3 - q1) * (3 / 2) \<le> x \<and> x \<le> q3 + (q3 - q1) * (3 / 2) then count (mset l) x else 0))"
proof -
  show "trim [] = Inl IndexError" by (simp add: trim_def py_nth_def)
  assume l: "l \<noteq> []"
  from quantile_position [OF l, of "1 / 4"] obtain q1 where q1: "quantile l (1 / 4) = Inr q1" by fastforce
  from quantile_position [OF l, of "3 / 4"] obtain q3 where q3: "quantile l (3 / 4) = Inr q3" by fastforce
  let ?n = "length l div 2"
  have "?n < length l" using l by (cases l) simp_all
  then have mid: "py_nth (sort l) (int ?n) = Inr (sort l ! ?n)" by (simp add: py_nth_nonneg)
  have low: "\<exists>b. py_nth (sort l) (int ?n - 1) = Inr b" if "even (length l)"
  proof -
    have "length l \<noteq> 1" using that by auto
    moreover have "length l \<noteq> 0" using l by simp
    ultimately have "2 \<le> length l" by linarith
    then have "?n \<noteq> 0" by linarith
    moreover have "int n - 1 = int (n - 1)" if "n \<noteq> 0" for n using that by simp
    ultimately have "int ?n - 1 = int (?n - 1)" by blast
    moreover have "?n - 1 < length (sort l)" using \<open>?n < length l\<close> unfolding length_sort by linarith
    ultimately show ?thesis by (simp only: py_nth_nonneg if_True) blast
  qed
  let ?r = "filter (\<lambda>x. x \<ge> q1 - (q3 - q1) * (3 / 2) \<and> x \<le> q3 + (q3 - q1) * (3 / 2)) (sort l)"
  have "trim l = Inr ?r" using low mid q1 q3 by (cases "even (length l)") (auto simp: trim_def Let_def)
  moreover have "sorted ?r" by (simp add: sorted_filter [where f = "\<lambda>x. x", simplified])
  ultimately show "\<exists>q1 q3 r. quantile l (1 / 4) = Inr q1 \<and> quantile l (3 / 4) = Inr q3 \<and> trim l = Inr r \<and> sorted r
     \<and> (\<forall>x. count (mset r) x = (if q1 - (q3 - q1) * (3 / 2) \<le> x \<and> x \<le> q3 + (q3 - q1) * (3 / 2) then count (mset l) x else 0))"
    using q1 q3 by (intro exI [of _ q1] exI [of _ q3] exI [of _ ?r]) (simp add: mset_filter)
qed

theorem quantile_between_witness:
  "quantile [7, 1, 4] 0 = Inr 1 \<and> quantile [7, 1, 4] 1 = Inr 7"
  using quantile_between [of "[7, 1, 4]" 0] by auto

section \<open>Ranges of floats\<close>

partial_function (option) float_range_loop :: "rat \<Rightarrow> rat \<Rightarrow> rat \<Rightarrow> rat list \<Rightarrow> rat list option" where
  "float_range_loop stop step cur l = (if cur < stop then float_range_loop stop step (cur + step) (l @ [cur]) else Some l)"

definition float_range :: "rat \<Rightarrow> rat option \<Rightarrow> rat option \<Rightarrow> rat list option" where
  "float_range start stop step =
     (let (stop', start') = (case stop of None \<Rightarrow> (start, 0) | Some s \<Rightarrow> (s, start));
          step' = (case step of None \<Rightarrow> 1 | Some d \<Rightarrow> d)
      in float_range_loop stop' step' start' [])"

lemma float_range_loop_returns:
  assumes "0 < step"
  shows "float_range_loop stop step cur l = Some (l @ map (\<lambda>k. cur + of_nat k * step) [0..<nat \<lceil>(stop - cur) / step\<rceil>])"
proof (induction "nat \<lceil>(stop - cur) / step\<rceil>" arbitrary: cur l)
  case 0
  then have "stop \<le> cur" using assms by (simp add: ceiling_le_iff divide_le_0_iff)
  with 0 show ?case by (subst float_range_loop.simps) simp
next
  case (Suc n)
  have pos: "0 < (stop - cur) / step"
  proof (rule ccontr)
    assume "\<not> 0 < (stop - cur) / step"
    then have "\<lceil>(stop - cur) / step\<rceil> \<le> 0" by (simp add: ceiling_le_iff)
    with Suc.hyps(2) show False by simp
  qed
  then have lt: "cur < stop" using assms by (simp add: zero_less_divide_iff)
  have "(stop - (cur + step)) / step = (stop - cur) / step - 1" using assms by (simp add: field_simps)
  then have c: "\<lceil>(stop - (cur + step)) / step\<rceil> = \<lceil>(stop - cur) / step\<rceil> - 1" by simp
  with Suc.hyps(2) have n: "n = nat \<lceil>(stop - (cur + step)) / step\<rceil>" by simp
  have "float_range_loop stop step (cur + step) (l @ [cur])
      = Some ((l @ [cur]) @ map (\<lambda>k. cur + step + of_nat k * step) [0..<n])"
    using Suc.hyps(1) [OF n] unfolding n .
  also have "\<dots> = Some (l @ map (\<lambda>k. cur + of_nat k * step) [0..<Suc n])"
    by (simp add: map_upt_Suc algebra_simps del: upt_Suc)
  finally show ?case using lt unfolding Suc.hyps(2) [symmetric] by (subst float_range_loop.simps) simp
qed

lemma float_range_loop_result:
  assumes "float_range_loop stop step cur l = Some r" "step \<le> 0"
  shows "stop \<le> cur"
proof -
  have "step \<le> 0 \<longrightarrow> stop \<le> cur"
    by (rule float_range_loop.raw_induct [where P = "\<lambda>stop step cur l r. step \<le> 0 \<longrightarrow> stop \<le> cur", OF _ assms(1)])
      (force split: if_splits)
  with assms(2) show ?thesis by blast
qed

text \<open>
  \<open>float_range\<close> with a positive step returns the arithmetic progression from the start up to
  the stop, which it leaves out; with another step it never returns, unless there is nothing to do.
\<close>
theorem float_range_exact:
  "float_range start (Some stop) (Some step) =
     (if 0 < step then Some (map (\<lambda>k. start + of_nat k * step) [0..<nat \<lceil>(stop - start) / step\<rceil>])
      else if start < stop then None else Some [])"
proof (cases "0 < step")
  case True
  then show ?thesis by (simp add: float_range_def float_range_loop_returns)
next
  case False
  show ?thesis
  proof (cases "start < stop")
    case True
    with False float_range_loop_result [of stop step start "[]"] have "float_range_loop stop step start [] = None"
      by (cases "float_range_loop stop step start []") auto
    with True False show ?thesis by (simp add: float_range_def)
  next
    case False
    with \<open>\<not> 0 < step\<close> show ?thesis by (simp add: float_range_def float_range_loop.simps [of stop])
  qed
qed

end
