(* ===== verification/Shellcmd.thy ===== *)
theory Shellcmd
  imports PyStr
begin

text \<open>
  waf-tools/shellcmd.py: parsing a shell-like command line into a pipeline of commands and
  operators (\<open>Pipeline.parse\<close>) and running it (\<open>Pipeline.run\<close>). Starting a process,
  opening a file and the exit codes are the environment's: they are the fields of the record
  \<open>os\<close>; what \<open>run\<close> does to the environment is a trace of events.
\<close>

section \<open>The data\<close>

datatype redirect = ToFile string | ToPIPE | ToSTDOUT

record command =
  cmd_name :: string
  cmd_argv :: "string list"
  cmd_stdin :: "string option"
  cmd_stdout :: "redirect option"
  cmd_stderr :: "redirect option"
  cmd_env_vars :: "(string, string) dict option"

datatype node = Command command | Chdir "string option" | Pipe | And | Or

definition new_command :: "string \<Rightarrow> command" where
  "new_command n = \<lparr>cmd_name = n, cmd_argv = [n], cmd_stdin = None, cmd_stdout = None,
     cmd_stderr = None, cmd_env_vars = None\<rparr>"

section \<open>Splitting the command line\<close>

text \<open>
  \<open>shlex.split\<close>: the lexer is between words, inside a word, inside quotes, or after a
  backslash. Its blanks are the space, tab, carriage return and line feed. \<open>tok\<close> is the word so far and \<open>quoted\<close> says that a quote was closed in it,
  so that an empty quoted word counts as a word.
\<close>

datatype lex_state = Blank | Word | Quote char | Escape "char option"

definition emit :: "bool \<Rightarrow> string \<Rightarrow> string list \<Rightarrow> string list" where
  "emit quoted tok ws = (if tok = [] \<and> \<not> quoted then ws else ws @ [tok])"

definition shlex_space :: "char \<Rightarrow> bool" where
  "shlex_space c \<longleftrightarrow> c \<in> set [CHR '' '', CHR 0x09, CHR 0x0D, CHR 0x0A]"

fun shlex_go :: "lex_state \<Rightarrow> bool \<Rightarrow> string \<Rightarrow> string list \<Rightarrow> string \<Rightarrow> string list res" where
  "shlex_go Blank quoted tok ws [] = Inr ws"
| "shlex_go Word quoted tok ws [] = Inr (emit quoted tok ws)"
| "shlex_go (Quote q) quoted tok ws [] = Inl ValueError"
| "shlex_go (Escape q) quoted tok ws [] = Inl ValueError"
| "shlex_go Blank quoted tok ws (c # cs) =
     (if shlex_space c then shlex_go Blank False [] ws cs
      else if c = CHR 0x5C then shlex_go (Escape None) False [] ws cs
      else if c = CHR 0x22 \<or> c = CHR 0x27 then shlex_go (Quote c) False [] ws cs
      else shlex_go Word False [c] ws cs)"
| "shlex_go Word quoted tok ws (c # cs) =
     (if shlex_space c then shlex_go Blank False [] (emit quoted tok ws) cs
      else if c = CHR 0x22 \<or> c = CHR 0x27 then shlex_go (Quote c) quoted tok ws cs
      else if c = CHR 0x5C then shlex_go (Escape None) quoted tok ws cs
      else shlex_go Word quoted (tok @ [c]) ws cs)"
| "shlex_go (Quote q) quoted tok ws (c # cs) =
     (if c = q then shlex_go Word True tok ws cs
      else if c = CHR 0x5C \<and> q = CHR 0x22 then shlex_go (Escape (Some q)) True tok ws cs
      else shlex_go (Quote q) True (tok @ [c]) ws cs)"
| "shlex_go (Escape None) quoted tok ws (c # cs) = shlex_go Word quoted (tok @ [c]) ws cs"
| "shlex_go (Escape (Some q)) quoted tok ws (c # cs) =
     shlex_go (Quote q) quoted (if c \<noteq> CHR 0x5C \<and> c \<noteq> q then tok @ [CHR 0x5C, c] else tok @ [c]) ws cs"

definition shlex_split :: "string \<Rightarrow> string list res" where
  "shlex_split s = shlex_go Blank False [] [] s"

text \<open>The regular expression of an environment assignment; \<open>$\<close> allows a final newline.\<close>

definition is_word_char :: "char \<Rightarrow> bool" where
  "is_word_char c \<longleftrightarrow> (let n = of_char c :: nat in
     97 \<le> n \<and> n \<le> 122 \<or> 65 \<le> n \<and> n \<le> 90 \<or> 48 \<le> n \<and> n \<le> 57 \<or> n = 95)"

definition env_var_match :: "string \<Rightarrow> (string \<times> string) option" where
  "env_var_match token =
     (let key = takeWhile is_word_char token; rest = dropWhile is_word_char token
      in case rest of
           [] \<Rightarrow> None
         | c # val0 \<Rightarrow>
             (let val = (if endswith val0 newline then butlast val0 else val0)
              in if key \<noteq> [] \<and> c = CHR ''='' \<and> val \<noteq> [] \<and> \<not> list_ex is_space val
                 then Some (key, val) else None))"

section \<open>The parser\<close>

datatype parse_state = BEGIN | COMMAND | CHDIR | STDERR | STDOUT | STDIN

record parser =
  current_command :: "node option"
  pipeline :: "node list"
  pstate :: parse_state
  penv_vars :: "(string, string) dict"

definition commit_command :: "parser \<Rightarrow> parser res" where
  "commit_command p =
     (case current_command p of
        None \<Rightarrow> Inl AssertionError
      | Some c \<Rightarrow> Inr (p\<lparr>pipeline := pipeline p @ [c], current_command := None\<rparr>))"

text \<open>An assignment to a field of the current command, which must be a command.\<close>

definition on_command :: "(command \<Rightarrow> command res) \<Rightarrow> parser \<Rightarrow> parser res" where
  "on_command f p =
     (case current_command p of
        Some (Command c) \<Rightarrow> and_then (f c) (\<lambda>c'. Inr (p\<lparr>current_command := Some (Command c')\<rparr>))
      | _ \<Rightarrow> Inl AttributeError)"

definition set_stdin :: "string \<Rightarrow> command \<Rightarrow> command res" where
  "set_stdin f c = (if cmd_stdin c \<noteq> None then Inl AssertionError else Inr (c\<lparr>cmd_stdin := Some f\<rparr>))"

definition set_stdout :: "redirect \<Rightarrow> command \<Rightarrow> command res" where
  "set_stdout r c = (if cmd_stdout c \<noteq> None then Inl AssertionError else Inr (c\<lparr>cmd_stdout := Some r\<rparr>))"

definition set_stderr :: "redirect \<Rightarrow> command \<Rightarrow> command res" where
  "set_stderr r c = (if cmd_stderr c \<noteq> None then Inl AssertionError else Inr (c\<lparr>cmd_stderr := Some r\<rparr>))"

definition end_command :: "node \<Rightarrow> parser \<Rightarrow> parser res" where
  "end_command op p = and_then (commit_command p)
     (\<lambda>p'. Inr (p'\<lparr>pipeline := pipeline p' @ [op], pstate := BEGIN\<rparr>))"

definition parse_begin :: "string \<Rightarrow> parser \<Rightarrow> parser res" where
  "parse_begin token p =
     (case env_var_match token of
        Some (k, v) \<Rightarrow> Inr (p\<lparr>penv_vars := AList.update k v (penv_vars p)\<rparr>)
      | None \<Rightarrow>
          if current_command p \<noteq> None then Inl AssertionError
          else if token = ''cd'' then
            (if penv_vars p \<noteq> [] then Inl AssertionError
             else Inr (p\<lparr>current_command := Some (Chdir None), pstate := CHDIR\<rparr>))
          else if penv_vars p \<noteq> [] then
            Inr (p\<lparr>current_command := Some (Command ((new_command token)\<lparr>cmd_env_vars := Some (penv_vars p)\<rparr>)),
                   penv_vars := [], pstate := COMMAND\<rparr>)
          else Inr (p\<lparr>current_command := Some (Command (new_command token)), pstate := COMMAND\<rparr>))"

definition parse_command :: "string \<Rightarrow> parser \<Rightarrow> parser res" where
  "parse_command token p =
     (if token = ''>'' then Inr (p\<lparr>pstate := STDOUT\<rparr>)
      else if token = ''2>'' then Inr (p\<lparr>pstate := STDERR\<rparr>)
      else if token = ''2>&1'' then on_command (set_stderr ToSTDOUT) p
      else if token = ''<'' then Inr (p\<lparr>pstate := STDIN\<rparr>)
      else if token = ''|'' then and_then (on_command (set_stdout ToPIPE) p) (end_command Pipe)
      else if token = ''&&'' then end_command And p
      else if token = ''||'' then end_command Or p
      else on_command (\<lambda>c. Inr (c\<lparr>cmd_argv := cmd_argv c @ [token]\<rparr>)) p)"

definition parse_chdir :: "string \<Rightarrow> parser \<Rightarrow> parser res" where
  "parse_chdir token p =
     (if token = ''&&'' then end_command And p
      else case current_command p of
        Some (Chdir None) \<Rightarrow> Inr (p\<lparr>current_command := Some (Chdir (Some token))\<rparr>)
      | Some (Chdir (Some _)) \<Rightarrow> Inl AssertionError
      | _ \<Rightarrow> Inl AttributeError)"

definition parse_step :: "parser \<Rightarrow> string \<Rightarrow> parser res" where
  "parse_step p token =
     (case pstate p of
        BEGIN \<Rightarrow> parse_begin token p
      | COMMAND \<Rightarrow> parse_command token p
      | CHDIR \<Rightarrow> parse_chdir token p
      | STDOUT \<Rightarrow> and_then (on_command (set_stdout (ToFile token)) p) (\<lambda>p. Inr (p\<lparr>pstate := COMMAND\<rparr>))
      | STDERR \<Rightarrow> and_then (on_command (set_stderr (ToFile token)) p) (\<lambda>p. Inr (p\<lparr>pstate := COMMAND\<rparr>))
      | STDIN \<Rightarrow> and_then (on_command (set_stdin token) p) (\<lambda>p. Inr (p\<lparr>pstate := COMMAND\<rparr>)))"

definition parse_tokens :: "string list \<Rightarrow> node list res" where
  "parse_tokens tokens =
     and_then (for_each parse_step
         \<lparr>current_command = None, pipeline = [], pstate = BEGIN, penv_vars = []\<rparr> tokens)
       (\<lambda>p. and_then (commit_command p) (\<lambda>p. Inr (pipeline p)))"

definition parse :: "string list + string \<Rightarrow> node list res" where
  "parse command =
     and_then (case command of Inl l \<Rightarrow> Inr l | Inr s \<Rightarrow> shlex_split s) parse_tokens"

text \<open>
  \<open>get_abbreviated_command\<close>. Its last test is for \<open>And\<close> a second time, so that an
  \<open>Or\<close> adds nothing. (\<open>'cd %s' % None\<close> is \<open>cd None\<close>.)
\<close>

fun abbreviate :: "node \<Rightarrow> string list" where
  "abbreviate (Command c) = [cmd_name c]"
| "abbreviate (Chdir d) = [''cd '' @ (case d of Some s \<Rightarrow> s | None \<Rightarrow> ''None'')]"
| "abbreviate Pipe = [''|'']"
| "abbreviate And = [''&&'']"
| "abbreviate Or = []"

definition get_abbreviated_command :: "node list \<Rightarrow> string" where
  "get_abbreviated_command pl = join '' '' (concat (map abbreviate pl))"

section \<open>The runner\<close>

datatype in_src = InInherit | InFile string | InPipeOf nat
datatype out_dst = OutInherit | OutPipe | OutDevNull | OutFile string | OutStdout

record launch =
  l_argv :: "string list"
  l_stdin :: in_src
  l_stdout :: out_dst
  l_stderr :: out_dst
  l_env :: "(string, string) dict option"
  l_cwd :: "string option"

datatype event = EOpen string | EClose string | ELaunch launch | EWait nat | EPrint string

record os =
  can_open :: "string \<Rightarrow> bool"
  can_start :: "launch \<Rightarrow> bool"
  exit_code :: "nat \<Rightarrow> int"
  os_environ :: "(string, string) dict"

text \<open>
  The local variables of \<open>run\<close>: files to close, the processes started since the last
  \<open>&&\<close> or \<open>||\<close> (numbered in the order of starting), the text for verbose output,
  whether the next command reads from a pipe, and the working directory; \<open>r_trace\<close> and
  \<open>r_started\<close> are what happened so far.
\<close>

record runner =
  r_files :: "string list"
  r_procs :: "nat list"
  r_display :: "string list"
  r_pipe :: bool
  r_cwd :: string
  r_started :: nat
  r_trace :: "event list"

type_synonym 'a run = "(runner, 'a) act"

definition trace :: "event \<Rightarrow> unit run" where
  "trace e = modify (\<lambda>s. s\<lparr>r_trace := r_trace s @ [e]\<rparr>)"

definition display :: "bool \<Rightarrow> string \<Rightarrow> unit run" where
  "display verbose t = modify (\<lambda>s. if verbose then s\<lparr>r_display := r_display s @ [t]\<rparr> else s)"

definition open_and_remember :: "os \<Rightarrow> string \<Rightarrow> unit run" where
  "open_and_remember os f =
     (if can_open os f then
        act_bind (trace (EOpen f)) (\<lambda>_. modify (\<lambda>s. s\<lparr>r_files := r_files s @ [f]\<rparr>))
      else raise_error (OtherException ''IOError''))"

text \<open>\<open>_open_out_file\<close>; the shared \<open>dev_null\<close> is neither opened nor closed by \<open>run\<close>.\<close>

definition open_out_file :: "os \<Rightarrow> string \<Rightarrow> out_dst run" where
  "open_out_file os f =
     (if f = ''NUL:'' \<or> f = ''/dev/null'' then ret OutDevNull
      else act_bind (open_and_remember os f) (\<lambda>_. ret (OutFile f)))"

definition choose_stdin :: "os \<Rightarrow> bool \<Rightarrow> command \<Rightarrow> in_src run" where
  "choose_stdin os verbose c = (\<lambda>s.
     if r_pipe s then act_bind (from_res (py_nth (r_procs s) (- 1))) (\<lambda>n. ret (InPipeOf n)) s
     else case cmd_stdin c of
       None \<Rightarrow> ret InInherit s
     | Some f \<Rightarrow> act_bind (open_and_remember os f)
         (\<lambda>_. act_bind (display verbose (''< '' @ f)) (\<lambda>_. ret (InFile f))) s)"

definition choose_stdout :: "os \<Rightarrow> bool \<Rightarrow> command \<Rightarrow> out_dst run" where
  "choose_stdout os verbose c =
     (case cmd_stdout c of
        None \<Rightarrow> ret OutInherit
      | Some ToPIPE \<Rightarrow> ret OutPipe
      | Some ToSTDOUT \<Rightarrow> raise_error TypeError
      | Some (ToFile f) \<Rightarrow> act_bind (open_out_file os f)
          (\<lambda>d. act_bind (display verbose (''> '' @ f)) (\<lambda>_. ret d)))"

definition choose_stderr :: "os \<Rightarrow> bool \<Rightarrow> command \<Rightarrow> out_dst run" where
  "choose_stderr os verbose c =
     (case cmd_stderr c of
        None \<Rightarrow> ret OutInherit
      | Some ToPIPE \<Rightarrow> ret OutPipe
      | Some ToSTDOUT \<Rightarrow> act_bind (display verbose ''2>&1'') (\<lambda>_. ret OutStdout)
      | Some (ToFile f) \<Rightarrow> act_bind (open_out_file os f)
          (\<lambda>d. act_bind (display verbose (''2> '' @ f)) (\<lambda>_. ret d)))"

definition show_command :: "command \<Rightarrow> string" where
  "show_command c =
     (case cmd_env_vars c of
        Some (e # es) \<Rightarrow> join '' '' (map (\<lambda>(k, v). k @ ''='' @ v) (e # es)) @ '' '' @ join '' '' (cmd_argv c)
      | _ \<Rightarrow> join '' '' (cmd_argv c))"

definition command_env :: "os \<Rightarrow> command \<Rightarrow> (string, string) dict option" where
  "command_env os c =
     (case cmd_env_vars c of
        Some (e # es) \<Rightarrow> Some (foldl (\<lambda>d (k, v). AList.update k v d) (os_environ os) (e # es))
      | _ \<Rightarrow> None)"

definition popen :: "os \<Rightarrow> launch \<Rightarrow> unit run" where
  "popen os l =
     (if can_start os l then
        act_bind (trace (ELaunch l))
          (\<lambda>_. modify (\<lambda>s. s\<lparr>r_procs := r_procs s @ [r_started s], r_started := Suc (r_started s)\<rparr>))
      else raise_error (OtherException ''OSError''))"

definition start_command :: "os \<Rightarrow> bool \<Rightarrow> command \<Rightarrow> unit run" where
  "start_command os verbose c =
     act_bind (display verbose (show_command c)) (\<lambda>_.
     act_bind (choose_stdin os verbose c) (\<lambda>stdin.
     act_bind (choose_stdout os verbose c) (\<lambda>stdout.
     act_bind (choose_stderr os verbose c) (\<lambda>stderr.
       (\<lambda>s. popen os \<lparr>l_argv = cmd_argv c, l_stdin = stdin, l_stdout = stdout, l_stderr = stderr,
            l_env = command_env os c, l_cwd = (if r_cwd s = ''.'' then None else Some (r_cwd s))\<rparr> s)))))"

fun first_failure :: "int list \<Rightarrow> int \<Rightarrow> int" where
  "first_failure [] l = 0"
| "first_failure (r # rs) l = (if r \<noteq> 0 then l else first_failure rs l)"

definition exec_piped_commands :: "os \<Rightarrow> int run" where
  "exec_piped_commands os = (\<lambda>s.
     (let retvals = map (exit_code os) (r_procs s);
          s' = s\<lparr>r_trace := r_trace s @ map EWait (r_procs s)\<rparr>
      in (Inr (first_failure retvals (last retvals)), s')))"

definition close_files :: "unit run" where
  "close_files = modify (\<lambda>s. s\<lparr>r_trace := r_trace s @ map EClose (r_files s), r_files := []\<rparr>)"

definition begin_group :: "unit run" where
  "begin_group = modify (\<lambda>s. s\<lparr>r_pipe := False, r_procs := [], r_display := []\<rparr>)"

text \<open>
  After \<open>&&\<close> and \<open>||\<close> the verbose message formats \<open>retval\<close>, which no branch
  before it has assigned: it raises.
\<close>

definition verbose_retval :: "bool \<Rightarrow> unit run" where
  "verbose_retval verbose = (if verbose then raise_error UnboundLocalError else ret ())"

function run_loop :: "os \<Rightarrow> bool \<Rightarrow> node list \<Rightarrow> int option run" where
  "run_loop os verbose [] = ret None"
| "run_loop os verbose (Chdir d # rest) =
     (case rest of
        [] \<Rightarrow> raise_error IndexError
      | next_op # rest' \<Rightarrow>
          if next_op \<noteq> And then raise_error AssertionError
          else case d of
            None \<Rightarrow> raise_error TypeError
          | Some dir \<Rightarrow>
              act_bind (modify (\<lambda>s. s\<lparr>r_cwd := path_join (r_cwd s) dir\<rparr>)) (\<lambda>_.
              act_bind (display verbose (''cd '' @ dir @ '' &&'')) (\<lambda>_.
                run_loop os verbose rest')))"
| "run_loop os verbose (Command c # rest) =
     act_bind (start_command os verbose c) (\<lambda>_.
       case rest of
         [] \<Rightarrow>
           act_bind (exec_piped_commands os) (\<lambda>retval.
           act_bind (\<lambda>s. (if verbose then trace (EPrint (join '' '' (r_display s) @ '': exit code '' @ show_int retval))
                          else ret ()) s) (\<lambda>_.
           act_bind close_files (\<lambda>_. ret (Some retval))))
       | Pipe # rest' \<Rightarrow>
           act_bind (modify (\<lambda>s. s\<lparr>r_pipe := True, r_display := r_display s @ [''|'']\<rparr>)) (\<lambda>_.
             run_loop os verbose rest')
       | Or # rest' \<Rightarrow>
           act_bind (exec_piped_commands os) (\<lambda>this_retval.
           act_bind close_files (\<lambda>_.
           act_bind (verbose_retval verbose) (\<lambda>_.
             if this_retval = 0 then ret (Some this_retval)
             else act_bind begin_group (\<lambda>_. run_loop os verbose rest'))))
       | And # rest' \<Rightarrow>
           act_bind (exec_piped_commands os) (\<lambda>this_retval.
           act_bind close_files (\<lambda>_.
           act_bind (verbose_retval verbose) (\<lambda>_.
             if this_retval \<noteq> 0 then ret (Some this_retval)
             else act_bind begin_group (\<lambda>_. run_loop os verbose rest'))))
       | _ # rest' \<Rightarrow> run_loop os verbose rest')"
| "run_loop os verbose (Pipe # rest) = raise_error AssertionError"
| "run_loop os verbose (And # rest) = raise_error AssertionError"
| "run_loop os verbose (Or # rest) = raise_error AssertionError"
  by pat_completeness auto
termination
  by (relation "measure (\<lambda>(os, verbose, ns). length ns)") auto

definition run_start :: runner where
  "run_start = \<lparr>r_files = [], r_procs = [], r_display = [], r_pipe = False, r_cwd = ''.'',
     r_started = 0, r_trace = []\<rparr>"

definition run_pipeline :: "os \<Rightarrow> bool \<Rightarrow> node list \<Rightarrow> int option res \<times> runner" where
  "run_pipeline os verbose ns = run_loop os verbose ns run_start"

section \<open>Well-formed pipelines\<close>

text \<open>
  A pipeline alternates commands and operators and ends with a command; a command writes to
  a pipe exactly when \<open>|\<close> follows it, and only \<open>&&\<close> follows a change of directory.
\<close>

definition operators :: "string set" where
  "operators = {''>'', ''2>'', ''2>&1'', ''<'', ''|'', ''&&'', ''||''}"

definition wf_env :: "(string, string) dict \<Rightarrow> bool" where
  "wf_env e \<longleftrightarrow> wf_dict e \<and> (\<forall>(k, v)\<in>set e. env_var_match (k @ ''='' @ v) = Some (k, v))"

definition wf_command :: "command \<Rightarrow> bool" where
  "wf_command c \<longleftrightarrow>
     (\<exists>args. cmd_argv c = cmd_name c # args \<and> set args \<inter> operators = {})
     \<and> env_var_match (cmd_name c) = None \<and> cmd_name c \<noteq> ''cd''
     \<and> cmd_stdout c \<noteq> Some ToSTDOUT \<and> cmd_stderr c \<noteq> Some ToPIPE
     \<and> (\<forall>e. cmd_env_vars c = Some e \<longrightarrow> e \<noteq> [] \<and> wf_env e)"

fun wf_pipeline :: "node list \<Rightarrow> bool" where
  "wf_pipeline [Command c] \<longleftrightarrow> wf_command c \<and> cmd_stdout c \<noteq> Some ToPIPE"
| "wf_pipeline [Chdir d] \<longleftrightarrow> d \<noteq> Some ''&&''"
| "wf_pipeline (Command c # Pipe # ns) \<longleftrightarrow> wf_command c \<and> cmd_stdout c = Some ToPIPE \<and> wf_pipeline ns"
| "wf_pipeline (Command c # And # ns) \<longleftrightarrow> wf_command c \<and> cmd_stdout c \<noteq> Some ToPIPE \<and> wf_pipeline ns"
| "wf_pipeline (Command c # Or # ns) \<longleftrightarrow> wf_command c \<and> cmd_stdout c \<noteq> Some ToPIPE \<and> wf_pipeline ns"
| "wf_pipeline (Chdir d # And # ns) \<longleftrightarrow> d \<noteq> Some ''&&'' \<and> wf_pipeline ns"
| "wf_pipeline _ \<longleftrightarrow> False"

fun wf_prefix :: "node list \<Rightarrow> bool" where
  "wf_prefix [] \<longleftrightarrow> True"
| "wf_prefix (Command c # Pipe # ns) \<longleftrightarrow> wf_command c \<and> cmd_stdout c = Some ToPIPE \<and> wf_prefix ns"
| "wf_prefix (Command c # And # ns) \<longleftrightarrow> wf_command c \<and> cmd_stdout c \<noteq> Some ToPIPE \<and> wf_prefix ns"
| "wf_prefix (Command c # Or # ns) \<longleftrightarrow> wf_command c \<and> cmd_stdout c \<noteq> Some ToPIPE \<and> wf_prefix ns"
| "wf_prefix (Chdir d # And # ns) \<longleftrightarrow> d \<noteq> Some ''&&'' \<and> wf_prefix ns"
| "wf_prefix _ \<longleftrightarrow> False"

lemma wf_prefix_append: "wf_prefix xs \<Longrightarrow> wf_prefix (xs @ ys) = wf_prefix ys"
  by (induction xs rule: wf_prefix.induct) auto

lemma wf_prefix_pipeline: "wf_prefix xs \<Longrightarrow> wf_pipeline (xs @ ys) = wf_pipeline ys"
  by (induction xs rule: wf_prefix.induct) auto

section \<open>What the parser produces\<close>

definition open_command :: "command \<Rightarrow> bool" where
  "open_command c \<longleftrightarrow> wf_command c \<and> cmd_stdout c \<noteq> Some ToPIPE"

definition parser_ok :: "parser \<Rightarrow> bool" where
  "parser_ok p \<longleftrightarrow> wf_prefix (pipeline p) \<and> wf_env (penv_vars p) \<and>
     (case pstate p of
        BEGIN \<Rightarrow> current_command p = None
      | CHDIR \<Rightarrow> penv_vars p = [] \<and> (\<exists>d. current_command p = Some (Chdir d) \<and> d \<noteq> Some ''&&'')
      | _ \<Rightarrow> penv_vars p = [] \<and> (\<exists>c. current_command p = Some (Command c) \<and> open_command c))"

lemma env_var_match_Some:
  assumes "env_var_match t = Some (k, v)"
  shows "env_var_match (k @ ''='' @ v) = Some (k, v)"
proof -
  from assms obtain val0 where k: "k = takeWhile is_word_char t" "dropWhile is_word_char t = CHR ''='' # val0" "k \<noteq> []"
    and v: "v = (if endswith val0 newline then butlast val0 else val0)" "v \<noteq> []" "\<not> list_ex is_space v"
    by (auto simp: env_var_match_def Let_def split: list.splits if_splits)
  have word: "\<forall>x\<in>set k. is_word_char x" using k(1) by (metis set_takeWhileD)
  have "\<not> is_word_char (CHR ''='')" by (simp add: is_word_char_def)
  then have "takeWhile is_word_char (k @ CHR ''='' # v) = k" "dropWhile is_word_char (k @ CHR ''='' # v) = CHR ''='' # v"
    using word by (simp_all add: takeWhile_append dropWhile_append)
  moreover have "\<not> endswith v newline"
  proof
    assume "endswith v newline"
    then have "CHR 0x0A \<in> set v" by (auto simp: endswith_suffix newline_def suffix_def)
    then show False using v(3) by (auto simp: list_ex_iff is_space_def)
  qed
  ultimately show ?thesis using k(3) v(2,3) by (simp add: env_var_match_def)
qed

lemma wf_env_Nil [simp]: "wf_env []"
  by (simp add: wf_env_def)

lemma wf_env_update: "wf_env e \<Longrightarrow> env_var_match t = Some (k, v) \<Longrightarrow> wf_env (AList.update k v e)"
  unfolding wf_env_def using env_var_match_Some [of t k v] set_update_subset [of k v e] by auto


lemma wf_new_command:
  assumes "env_var_match t = None" and "t \<noteq> ''cd''"
  shows "open_command (new_command t)"
    and "e \<noteq> [] \<Longrightarrow> wf_env e \<Longrightarrow> open_command ((new_command t)\<lparr>cmd_env_vars := Some e\<rparr>)"
  using assms by (auto simp: open_command_def wf_command_def new_command_def)

lemma parse_begin_ok:
  assumes "parser_ok p" and "pstate p = BEGIN" and "parse_begin t p = Inr p'"
  shows "parser_ok p'"
  using assms wf_new_command [of t]
  by (auto simp: parser_ok_def parse_begin_def wf_env_update split: option.splits if_splits)

lemma end_command_ok:
  assumes "wf_prefix (pipeline p)" and "current_command p = Some n" and "wf_prefix [n, op]"
    and "penv_vars p = []" and "end_command op p = Inr p'"
  shows "parser_ok p'"
  using assms wf_prefix_append [of "pipeline p" "[n, op]"]
  by (auto simp: parser_ok_def end_command_def commit_command_def)

lemma parse_command_ok:
  assumes ok: "parser_ok p" and st: "pstate p = COMMAND" and run: "parse_command t p = Inr p'"
  shows "parser_ok p'"
proof -
  from ok st obtain c where p: "wf_prefix (pipeline p)" "penv_vars p = []"
    "current_command p = Some (Command c)" "open_command c"
    by (auto simp: parser_ok_def)
  from p(4) have c: "wf_command c" "cmd_stdout c \<noteq> Some ToPIPE" by (auto simp: open_command_def)
  consider "t \<in> {''>'', ''2>'', ''<''}" | "t = ''2>&1''" | "t = ''|''" | "t = ''&&'' \<or> t = ''||''"
    | "t \<notin> operators" by (auto simp: operators_def)
  then show ?thesis
  proof cases
    case 1
    then show ?thesis using run p by (auto simp: parse_command_def parser_ok_def)
  next
    case 2
    then show ?thesis
      using run p c by (auto simp: parse_command_def parser_ok_def on_command_def set_stderr_def
          open_command_def wf_command_def st split: if_splits)
  next
    case 3
    let ?p = "p\<lparr>current_command := Some (Command (c\<lparr>cmd_stdout := Some ToPIPE\<rparr>))\<rparr>"
    have "end_command Pipe ?p = Inr p'"
      using 3 run p(3) by (auto simp: parse_command_def on_command_def set_stdout_def split: if_splits)
    then show ?thesis
      by (rule end_command_ok [rotated -1]) (use p c in \<open>auto simp: wf_command_def\<close>)
  next
    case 4
    then have "end_command And p = Inr p' \<or> end_command Or p = Inr p'"
      using run by (auto simp: parse_command_def)
    then obtain op where op: "op = And \<or> op = Or" "end_command op p = Inr p'" by blast
    show ?thesis by (rule end_command_ok [OF p(1,3) _ p(2) op(2)]) (use op(1) c in auto)
  next
    case 5
    then have "p' = p\<lparr>current_command := Some (Command (c\<lparr>cmd_argv := cmd_argv c @ [t]\<rparr>))\<rparr>"
      using run p(3) by (simp add: parse_command_def on_command_def operators_def)
    then show ?thesis
      using p c 5 st by (auto simp: parser_ok_def open_command_def wf_command_def)
  qed
qed

lemma parse_chdir_ok:
  assumes ok: "parser_ok p" and st: "pstate p = CHDIR" and run: "parse_chdir t p = Inr p'"
  shows "parser_ok p'"
proof -
  from ok st obtain d where p: "wf_prefix (pipeline p)" "penv_vars p = []"
    "current_command p = Some (Chdir d)" "d \<noteq> Some ''&&''"
    by (auto simp: parser_ok_def)
  show ?thesis
  proof (cases "t = ''&&''")
    case True
    then have "end_command And p = Inr p'" using run by (simp add: parse_chdir_def)
    with p show ?thesis by (intro end_command_ok [OF p(1,3) _ p(2)]) auto
  next
    case False
    then show ?thesis
      using run p st by (auto simp: parse_chdir_def parser_ok_def split: option.splits)
  qed
qed

lemma redirect_ok:
  assumes ok: "parser_ok p" and st: "pstate p \<in> {STDOUT, STDERR, STDIN}"
    and run: "and_then (on_command f p) (\<lambda>p. Inr (p\<lparr>pstate := COMMAND\<rparr>)) = Inr p'"
    and f: "\<And>c c'. open_command c \<Longrightarrow> f c = Inr c' \<Longrightarrow> open_command c'"
  shows "parser_ok p'"
proof -
  from ok st obtain c where p: "wf_prefix (pipeline p)" "penv_vars p = []"
    "current_command p = Some (Command c)" "open_command c"
    by (auto simp: parser_ok_def)
  from run p(3) obtain c' where c': "f c = Inr c'"
      "p' = p\<lparr>current_command := Some (Command c'), pstate := COMMAND\<rparr>"
    by (auto simp: on_command_def res_simps)
  with f [OF p(4) c'(1)] p show ?thesis by (simp add: parser_ok_def)
qed

lemma parse_step_ok:
  assumes ok: "parser_ok p" and run: "parse_step p t = Inr p'"
  shows "parser_ok p'"
proof (cases "pstate p")
  case STDOUT
  then show ?thesis
    using run by (intro redirect_ok [OF ok, of "set_stdout (ToFile t)"])
      (auto simp: parse_step_def set_stdout_def open_command_def wf_command_def split: if_splits)
next
  case STDERR
  then show ?thesis
    using run by (intro redirect_ok [OF ok, of "set_stderr (ToFile t)"])
      (auto simp: parse_step_def set_stderr_def open_command_def wf_command_def split: if_splits)
next
  case STDIN
  then show ?thesis
    using run by (intro redirect_ok [OF ok, of "set_stdin t"])
      (auto simp: parse_step_def set_stdin_def open_command_def wf_command_def split: if_splits)
qed (use run parse_begin_ok [OF ok] parse_command_ok [OF ok] parse_chdir_ok [OF ok] in
    \<open>simp_all add: parse_step_def\<close>)

lemma commit_ok:
  assumes ok: "parser_ok p" and run: "commit_command p = Inr p'"
  shows "wf_pipeline (pipeline p')"
proof -
  from run obtain n where n: "current_command p = Some n" "pipeline p' = pipeline p @ [n]"
    by (auto simp: commit_command_def split: option.splits)
  with ok have "wf_pipeline [n]"
    by (cases "pstate p") (auto simp: parser_ok_def open_command_def)
  with ok n(2) show ?thesis by (simp add: wf_prefix_pipeline parser_ok_def)
qed

text \<open>
  Whatever the command line, a pipeline that \<open>parse\<close> returns is well formed: commands
  and operators alternate, it ends with a command, a command's standard output is a pipe
  exactly when \<open>|\<close> follows it, and only \<open>&&\<close> follows \<open>cd\<close>.
\<close>
theorem parse_well_formed:
  assumes "parse cl = Inr ns"
  shows "wf_pipeline ns"
proof -
  from assms obtain tokens p p' where
    p: "for_each parse_step \<lparr>current_command = None, pipeline = [], pstate = BEGIN, penv_vars = []\<rparr> tokens = Inr p"
      "commit_command p = Inr p'" "ns = pipeline p'"
    by (auto simp: parse_def parse_tokens_def res_simps)
  have "parser_ok p"
    by (rule for_each_invariant [OF p(1), of "\<lambda>_. parser_ok"])
      (auto simp: parser_ok_def [of "\<lparr>current_command = None, pipeline = [], pstate = BEGIN, penv_vars = []\<rparr>"]
        intro: parse_step_ok)
  from commit_ok [OF this p(2)] p(3) show ?thesis by simp
qed

theorem parse_well_formed_witness:
  "wf_pipeline [Command ((new_command ''ls'')\<lparr>cmd_stdout := Some ToPIPE\<rparr>), Pipe, Command (new_command ''wc'')]"
proof (rule parse_well_formed)
  show "parse (Inr ''ls | wc'') = Inr [Command ((new_command ''ls'')\<lparr>cmd_stdout := Some ToPIPE\<rparr>), Pipe, Command (new_command ''wc'')]"
    by code_simp
qed


section \<open>Printing and parsing\<close>

text \<open>A way to write a pipeline as a list of tokens, with the redirections after the arguments.\<close>

definition command_tokens :: "command \<Rightarrow> string list" where
  "command_tokens c =
     (case cmd_env_vars c of None \<Rightarrow> [] | Some e \<Rightarrow> map (\<lambda>(k, v). k @ ''='' @ v) e) @
     cmd_argv c @
     (case cmd_stdin c of None \<Rightarrow> [] | Some f \<Rightarrow> [''<'', f]) @
     (case cmd_stdout c of Some (ToFile f) \<Rightarrow> [''>'', f] | _ \<Rightarrow> []) @
     (case cmd_stderr c of None \<Rightarrow> [] | Some (ToFile f) \<Rightarrow> [''2>'', f] | Some _ \<Rightarrow> [''2>&1''])"

fun node_tokens :: "node \<Rightarrow> string list" where
  "node_tokens (Command c) = command_tokens c"
| "node_tokens (Chdir d) = ''cd'' # (case d of None \<Rightarrow> [] | Some s \<Rightarrow> [s])"
| "node_tokens Pipe = [''|'']"
| "node_tokens And = [''&&'']"
| "node_tokens Or = [''||'']"

definition unparse :: "node list \<Rightarrow> string list" where
  "unparse ns = concat (map node_tokens ns)"

lemma parse_env_tokens:
  assumes "pstate p = BEGIN" and "wf_env (penv_vars p @ e)"
  shows "for_each parse_step p (map (\<lambda>(k, v). k @ ''='' @ v) e) = Inr (p\<lparr>penv_vars := penv_vars p @ e\<rparr>)"
  using assms
proof (induction e arbitrary: p)
  case Nil
  then show ?case by simp
next
  case (Cons kv e)
  obtain k v where kv: "kv = (k, v)" by (cases kv)
  have m: "env_var_match (k @ ''='' @ v) = Some (k, v)" "k \<notin> set (keys (penv_vars p))"
    using Cons.prems(2) kv by (auto simp: wf_env_def wf_dict_def)
  let ?p = "p\<lparr>penv_vars := penv_vars p @ [kv]\<rparr>"
  have "parse_step p (k @ ''='' @ v) = Inr ?p"
    using m Cons.prems(1) by (simp add: parse_step_def parse_begin_def update_fresh kv)
  moreover have "wf_env (penv_vars ?p @ e)" "pstate ?p = BEGIN" using Cons.prems by simp_all
  from Cons.IH [OF this(2,1)] have
    "for_each parse_step ?p (map (\<lambda>(k, v). k @ ''='' @ v) e) = Inr (p\<lparr>penv_vars := penv_vars p @ kv # e\<rparr>)"
    by simp
  ultimately show ?case by (simp add: kv)
qed

lemma parse_arg:
  assumes "pstate p = COMMAND" and "current_command p = Some (Command c)" and "a \<notin> operators"
  shows "parse_step p a = Inr (p\<lparr>current_command := Some (Command (c\<lparr>cmd_argv := cmd_argv c @ [a]\<rparr>))\<rparr>)"
  using assms by (simp add: parse_step_def parse_command_def on_command_def operators_def)

lemma parse_args:
  assumes "pstate p = COMMAND" and "current_command p = Some (Command c)" and "set args \<inter> operators = {}"
  shows "for_each parse_step p args
    = Inr (p\<lparr>current_command := Some (Command (c\<lparr>cmd_argv := cmd_argv c @ args\<rparr>))\<rparr>)"
  using assms
proof (induction args arbitrary: p c)
  case (Cons a args)
  have "parse_step p a = Inr (p\<lparr>current_command := Some (Command (c\<lparr>cmd_argv := cmd_argv c @ [a]\<rparr>))\<rparr>)"
    using Cons.prems by (intro parse_arg) auto
  with Cons show ?case by simp
qed simp

text \<open>The command before its output is connected to a pipe.\<close>

definition before_pipe :: "command \<Rightarrow> command" where
  "before_pipe c = (if cmd_stdout c = Some ToPIPE then c\<lparr>cmd_stdout := None\<rparr> else c)"

lemma parse_redirections:
  assumes "pstate p = COMMAND" and "current_command p = Some (Command c0)"
    and c0: "c0 = c\<lparr>cmd_stdin := None, cmd_stdout := None, cmd_stderr := None\<rparr>"
    and c: "cmd_stdout c \<noteq> Some ToSTDOUT" "cmd_stderr c \<noteq> Some ToPIPE"
  shows "for_each parse_step p
     ((case cmd_stdin c of None \<Rightarrow> [] | Some f \<Rightarrow> [''<'', f]) @
      (case cmd_stdout c of Some (ToFile f) \<Rightarrow> [''>'', f] | _ \<Rightarrow> []) @
      (case cmd_stderr c of None \<Rightarrow> [] | Some (ToFile f) \<Rightarrow> [''2>'', f] | Some _ \<Rightarrow> [''2>&1'']))
     = Inr (p\<lparr>current_command := Some (Command (before_pipe c))\<rparr>)"
proof -
  obtain n a i x e v where cr: "c = \<lparr>cmd_name = n, cmd_argv = a, cmd_stdin = i, cmd_stdout = x,
      cmd_stderr = e, cmd_env_vars = v\<rparr>" by (cases c)
  have "p = \<lparr>current_command = Some (Command c0), pipeline = pipeline p, pstate = COMMAND, penv_vars = penv_vars p\<rparr>"
    using assms(1,2) by simp
  then obtain pl ev where pr: "p = \<lparr>current_command = Some (Command c0), pipeline = pl, pstate = COMMAND, penv_vars = ev\<rparr>"
    by blast
  have i: "i = None \<or> (\<exists>f. i = Some f)" by (cases i) auto
  have x: "x = None \<or> x = Some ToPIPE \<or> (\<exists>f. x = Some (ToFile f))"
    using c(1) cr by (cases x) (auto, metis redirect.exhaust)
  have e: "e = None \<or> e = Some ToSTDOUT \<or> (\<exists>f. e = Some (ToFile f))"
    using c(2) cr by (cases e) (auto, metis redirect.exhaust)
  show ?thesis
    using i x e unfolding pr c0 cr
    by (elim disjE exE)
      (simp_all add: parse_step_def parse_command_def on_command_def set_stdin_def set_stdout_def
        set_stderr_def before_pipe_def)
qed

lemma parse_command_tokens:
  assumes p: "pstate p = BEGIN" "current_command p = None" "penv_vars p = []" and c: "wf_command c"
  shows "for_each parse_step p (command_tokens c)
    = Inr (p\<lparr>current_command := Some (Command (before_pipe c)), pstate := COMMAND\<rparr>)"
proof -
  obtain args where args: "cmd_argv c = cmd_name c # args" "set args \<inter> operators = {}"
    using c by (auto simp: wf_command_def)
  define env where "env = (case cmd_env_vars c of None \<Rightarrow> [] | Some e \<Rightarrow> e)"
  have env: "wf_env env" "cmd_env_vars c = (if env = [] then None else Some env)"
    using c by (auto simp: env_def wf_command_def split: option.splits)
  define red where "red = ((case cmd_stdin c of None \<Rightarrow> [] | Some f \<Rightarrow> [''<'', f]) @
       (case cmd_stdout c of Some (ToFile f) \<Rightarrow> [''>'', f] | _ \<Rightarrow> []) @
       (case cmd_stderr c of None \<Rightarrow> [] | Some (ToFile f) \<Rightarrow> [''2>'', f] | Some _ \<Rightarrow> [''2>&1'']))"
  have toks: "command_tokens c = map (\<lambda>(k, v). k @ ''='' @ v) env @ [cmd_name c] @ args @ red"
    by (simp add: command_tokens_def env_def args(1) red_def split: option.splits)
  let ?p1 = "p\<lparr>penv_vars := env\<rparr>"
  let ?c = "(new_command (cmd_name c))\<lparr>cmd_env_vars := cmd_env_vars c\<rparr>"
  let ?p2 = "p\<lparr>current_command := Some (Command ?c), pstate := COMMAND\<rparr>"
  have s1: "for_each parse_step p (map (\<lambda>(k, v). k @ ''='' @ v) env) = Inr ?p1"
    using parse_env_tokens [of p env] p env(1) by simp
  have s2: "parse_step ?p1 (cmd_name c) = Inr ?p2"
  proof -
    have "env_var_match (cmd_name c) = None" "cmd_name c \<noteq> ''cd''"
      using c unfolding wf_command_def by simp_all
    then show ?thesis
      using p env(2) by (cases "env = []") (simp_all add: parse_step_def parse_begin_def new_command_def)
  qed
  let ?c3 = "?c\<lparr>cmd_argv := cmd_argv c\<rparr>"
  let ?p3 = "?p2\<lparr>current_command := Some (Command ?c3)\<rparr>"
  have s3: "for_each parse_step ?p2 args = Inr ?p3"
    using parse_args [of ?p2 ?c args] args by (simp add: new_command_def)
  have c3: "?c3 = c\<lparr>cmd_stdin := None, cmd_stdout := None, cmd_stderr := None\<rparr>"
    by (simp add: new_command_def)
  have s4: "cmd_stdout c \<noteq> Some ToSTDOUT" "cmd_stderr c \<noteq> Some ToPIPE"
    using c by (simp_all add: wf_command_def)
  have "for_each parse_step ?p3 red = Inr (?p3\<lparr>current_command := Some (Command (before_pipe c))\<rparr>)"
    unfolding red_def by (rule parse_redirections [OF _ _ c3 s4]) simp_all
  then show ?thesis unfolding toks for_each_append s1 and_then.simps for_each.simps s2 s3 by simp
qed

lemma parse_chdir_tokens:
  assumes "pstate p = BEGIN" "current_command p = None" "penv_vars p = []" and "d \<noteq> Some ''&&''"
  shows "for_each parse_step p (node_tokens (Chdir d))
    = Inr (p\<lparr>current_command := Some (Chdir d), pstate := CHDIR\<rparr>)"
proof -
  have "env_var_match ''cd'' = None" by code_simp
  with assms show ?thesis
    by (cases d) (auto simp: parse_step_def parse_begin_def parse_chdir_def)
qed

lemma parse_unparse_state:
  assumes "wf_pipeline ns" and "pstate p = BEGIN" "current_command p = None" "penv_vars p = []"
  shows "\<exists>p'. for_each parse_step p (unparse ns) = Inr p'
    \<and> and_then (commit_command p') (\<lambda>p. Inr (pipeline p)) = Inr (pipeline p @ ns)"
  using assms
proof (induction ns arbitrary: p rule: wf_pipeline.induct)
  case (1 c)
  then show ?case
    using parse_command_tokens [of p c] by (simp add: unparse_def commit_command_def before_pipe_def)
next
  case (2 d)
  then show ?case
    using parse_chdir_tokens [of p d] by (auto simp: unparse_def commit_command_def)
next
  case (3 c ns)
  let ?p = "p\<lparr>pipeline := pipeline p @ [Command c, Pipe]\<rparr>"
  have "for_each parse_step p (command_tokens c @ [''|'']) = Inr ?p"
    using 3 parse_command_tokens [of p c]
    by (simp add: for_each_append parse_step_def parse_command_def on_command_def set_stdout_def
        before_pipe_def end_command_def commit_command_def)
  moreover from "3.IH" [of ?p] 3 obtain p' where "for_each parse_step ?p (unparse ns) = Inr p'"
    "and_then (commit_command p') (\<lambda>p. Inr (pipeline p)) = Inr (pipeline ?p @ ns)" by auto
  moreover have "unparse (Command c # Pipe # ns) = (command_tokens c @ [''|'']) @ unparse ns"
    by (simp add: unparse_def)
  ultimately show ?case by (simp add: for_each_append [of _ _ "command_tokens c @ [''|'']"] del: append_assoc)
next
  case (4 c ns)
  let ?p = "p\<lparr>pipeline := pipeline p @ [Command c, And]\<rparr>"
  have "for_each parse_step p (command_tokens c @ [''&&'']) = Inr ?p"
    using 4 parse_command_tokens [of p c]
    by (simp add: for_each_append parse_step_def parse_command_def before_pipe_def end_command_def
        commit_command_def)
  moreover from "4.IH" [of ?p] 4 obtain p' where "for_each parse_step ?p (unparse ns) = Inr p'"
    "and_then (commit_command p') (\<lambda>p. Inr (pipeline p)) = Inr (pipeline ?p @ ns)" by auto
  moreover have "unparse (Command c # And # ns) = (command_tokens c @ [''&&'']) @ unparse ns"
    by (simp add: unparse_def)
  ultimately show ?case by (simp add: for_each_append [of _ _ "command_tokens c @ [''&&'']"] del: append_assoc)
next
  case (5 c ns)
  let ?p = "p\<lparr>pipeline := pipeline p @ [Command c, Or]\<rparr>"
  have "for_each parse_step p (command_tokens c @ [''||'']) = Inr ?p"
    using 5 parse_command_tokens [of p c]
    by (simp add: for_each_append parse_step_def parse_command_def before_pipe_def end_command_def
        commit_command_def)
  moreover from "5.IH" [of ?p] 5 obtain p' where "for_each parse_step ?p (unparse ns) = Inr p'"
    "and_then (commit_command p') (\<lambda>p. Inr (pipeline p)) = Inr (pipeline ?p @ ns)" by auto
  moreover have "unparse (Command c # Or # ns) = (command_tokens c @ [''||'']) @ unparse ns"
    by (simp add: unparse_def)
  ultimately show ?case by (simp add: for_each_append [of _ _ "command_tokens c @ [''||'']"] del: append_assoc)
next
  case (6 d ns)
  let ?p = "p\<lparr>pipeline := pipeline p @ [Chdir d, And]\<rparr>"
  have "for_each parse_step p (node_tokens (Chdir d) @ [''&&'']) = Inr ?p"
    using 6 parse_chdir_tokens [of p d]
    by (simp add: for_each_append parse_step_def parse_chdir_def end_command_def
        commit_command_def del: node_tokens.simps)
  moreover from "6.IH" [of ?p] 6 obtain p' where "for_each parse_step ?p (unparse ns) = Inr p'"
    "and_then (commit_command p') (\<lambda>p. Inr (pipeline p)) = Inr (pipeline ?p @ ns)" by auto
  moreover have "unparse (Chdir d # And # ns) = (node_tokens (Chdir d) @ [''&&'']) @ unparse ns"
    by (simp add: unparse_def)
  ultimately show ?case
    by (simp add: for_each_append [of _ _ "node_tokens (Chdir d) @ [''&&'']"] del: append_assoc node_tokens.simps)
qed auto

section \<open>Round trips\<close>

definition plain_word :: "string \<Rightarrow> bool" where
  "plain_word w \<longleftrightarrow> w \<noteq> [] \<and> (\<forall>c\<in>set w. \<not> shlex_space c \<and> c \<noteq> CHR 0x22 \<and> c \<noteq> CHR 0x27 \<and> c \<noteq> CHR 0x5C)"

lemma shlex_in_word:
  "\<forall>c\<in>set w. \<not> shlex_space c \<and> c \<noteq> CHR 0x22 \<and> c \<noteq> CHR 0x27 \<and> c \<noteq> CHR 0x5C \<Longrightarrow>
     shlex_go Word quoted tok ws (w @ cs) = shlex_go Word quoted (tok @ w) ws cs"
  by (induction w arbitrary: tok) auto

lemma shlex_word:
  "plain_word w \<Longrightarrow> shlex_go Blank quoted tok ws (w @ cs) = shlex_go Word False w ws cs"
  by (cases w) (auto simp: plain_word_def shlex_in_word)

lemma shlex_join:
  "list_all plain_word words \<Longrightarrow> shlex_go Blank quoted [] ws (join '' '' words) = Inr (ws @ words)"
proof (induction words arbitrary: ws quoted)
  case (Cons w words)
  note IH = Cons.IH and prems = Cons.prems
  show ?case
  proof (cases words)
    case Nil
    then show ?thesis
      using prems shlex_word [of w quoted "[]" ws "[]"] by (auto simp: emit_def plain_word_def)
  next
    case (Cons v rest)
    have sp: "shlex_space (CHR '' '')" by (simp add: shlex_space_def)
    have "shlex_go Blank quoted [] ws (w @ '' '' @ join '' '' words)
        = shlex_go Blank False [] (ws @ [w]) (join '' '' words)"
      using prems sp shlex_word [of w quoted "[]" ws "'' '' @ join '' '' words"]
      by (simp add: emit_def plain_word_def)
    with Cons IH [of False "ws @ [w]"] prems show ?thesis by simp
  qed
qed simp

text \<open>
  C12. A well-formed pipeline survives printing and parsing, whether the caller passes the
  list of tokens or, when no token needs quoting, the tokens separated by spaces.
\<close>
theorem parse_unparse:
  assumes "wf_pipeline ns"
  shows "parse (Inl (unparse ns)) = Inr ns
    \<and> (list_all plain_word (unparse ns) \<longrightarrow> parse (Inr (join '' '' (unparse ns))) = Inr ns)"
proof -
  from parse_unparse_state [OF assms, of "\<lparr>current_command = None, pipeline = [], pstate = BEGIN, penv_vars = []\<rparr>"]
  have "parse_tokens (unparse ns) = Inr ns" by (auto simp: parse_tokens_def)
  then show ?thesis by (simp add: parse_def shlex_split_def shlex_join)
qed

theorem parse_unparse_witness:
  "parse (Inr ''cd x && A=b ls -l < in 2>&1 | wc > out'') = Inr
     [Chdir (Some ''x''), And,
      Command \<lparr>cmd_name = ''ls'', cmd_argv = [''ls'', ''-l''], cmd_stdin = Some ''in'',
        cmd_stdout = Some ToPIPE, cmd_stderr = Some ToSTDOUT, cmd_env_vars = Some [(''A'', ''b'')]\<rparr>, Pipe,
      Command \<lparr>cmd_name = ''wc'', cmd_argv = [''wc''], cmd_stdin = None,
        cmd_stdout = Some (ToFile ''out''), cmd_stderr = None, cmd_env_vars = None\<rparr>]"
  (is "parse (Inr ?s) = Inr ?ns")
proof -
  have "env_var_match ''ls'' = None" "env_var_match ''wc'' = None" "env_var_match ''A=b'' = Some (''A'', ''b'')"
    by code_simp+
  then have "wf_pipeline ?ns"
    by (simp add: wf_command_def wf_env_def wf_dict_def operators_def)
  note parse_unparse [OF this]
  moreover have "join '' '' (unparse ?ns) = ?s" "list_all plain_word (unparse ?ns)" by code_simp+
  ultimately show ?thesis by simp
qed

section \<open>Running a pipeline\<close>

text \<open>
  The specification: commands start from left to right; the status of commands joined by
  \<open>|\<close> is the last one's; the first \<open>&&\<close> after a failure and the first \<open>||\<close>
  after a success end the whole pipeline with that status. \<open>n\<close> counts the processes started.
\<close>

fun shell :: "(nat \<Rightarrow> int) \<Rightarrow> node list \<Rightarrow> nat \<Rightarrow> nat \<times> int option" where
  "shell code (Command c # Pipe # ns) n = shell code ns (Suc n)"
| "shell code (Command c # And # ns) n =
     (if code n = 0 then shell code ns (Suc n) else (Suc n, Some (code n)))"
| "shell code (Command c # Or # ns) n =
     (if code n \<noteq> 0 then shell code ns (Suc n) else (Suc n, Some (code n)))"
| "shell code [Command c] n = (Suc n, Some (code n))"
| "shell code (Chdir d # And # ns) n = shell code ns n"
| "shell code ns n = (n, None)"

definition launches :: "event list \<Rightarrow> string list list" where
  "launches tr = concat (map (\<lambda>e. case e of ELaunch l \<Rightarrow> [l_argv l] | _ \<Rightarrow> []) tr)"

definition opened :: "event list \<Rightarrow> string list" where
  "opened tr = concat (map (\<lambda>e. case e of EOpen f \<Rightarrow> [f] | _ \<Rightarrow> []) tr)"

definition closed_files :: "event list \<Rightarrow> string list" where
  "closed_files tr = concat (map (\<lambda>e. case e of EClose f \<Rightarrow> [f] | _ \<Rightarrow> []) tr)"

fun argvs :: "node list \<Rightarrow> string list list" where
  "argvs (Command c # ns) = cmd_argv c # argvs ns"
| "argvs (_ # ns) = argvs ns"
| "argvs [] = []"

text \<open>What a normal return of \<open>run\<close> needs besides: every file opens, every process starts.\<close>

definition all_available :: "os \<Rightarrow> bool" where
  "all_available os \<longleftrightarrow> (\<forall>f. can_open os f) \<and> (\<forall>l. can_start os l)"

fun runnable :: "node list \<Rightarrow> bool" where
  "runnable [Command c] \<longleftrightarrow> cmd_stdout c \<noteq> Some ToSTDOUT"
| "runnable (Command c # op # ns) \<longleftrightarrow> cmd_stdout c \<noteq> Some ToSTDOUT \<and> op \<in> {Pipe, And, Or} \<and> runnable ns"
| "runnable (Chdir d # And # ns) \<longleftrightarrow> d \<noteq> None \<and> runnable ns"
| "runnable _ \<longleftrightarrow> False"

lemma trace_proj [simp]:
  "launches (tr @ tr') = launches tr @ launches tr'" "opened (tr @ tr') = opened tr @ opened tr'"
  "closed_files (tr @ tr') = closed_files tr @ closed_files tr'"
  "launches [] = []" "opened [] = []" "closed_files [] = []"
  "launches (ELaunch l # tr) = l_argv l # launches tr" "opened (EOpen f # tr) = f # opened tr"
  "launches (EOpen f # tr) = launches tr" "closed_files (EOpen f # tr) = closed_files tr"
  "opened (ELaunch l # tr) = opened tr" "closed_files (ELaunch l # tr) = closed_files tr"
  "launches (EWait n # tr) = launches tr" "opened (EWait n # tr) = opened tr"
  "closed_files (EWait n # tr) = closed_files tr"
  by (simp_all add: launches_def opened_def closed_files_def)

lemma trace_proj_map [simp]:
  "launches (map EWait ns) = []" "opened (map EWait ns) = []" "closed_files (map EWait ns) = []"
  "launches (map EClose fs) = []" "opened (map EClose fs) = []" "closed_files (map EClose fs) = fs"
  by (simp_all add: launches_def opened_def closed_files_def comp_def concat_eq_Nil_conv)

definition balanced :: "runner \<Rightarrow> bool" where
  "balanced s \<longleftrightarrow> mset (opened (r_trace s)) = mset (closed_files (r_trace s)) + mset (r_files s)"

text \<open>The parts of the state that starting a command may change before the process runs.\<close>

definition same_run :: "runner \<Rightarrow> runner \<Rightarrow> bool" where
  "same_run s s' \<longleftrightarrow> r_procs s' = r_procs s \<and> r_pipe s' = r_pipe s \<and> r_cwd s' = r_cwd s
     \<and> r_started s' = r_started s \<and> launches (r_trace s') = launches (r_trace s)
     \<and> (balanced s \<longrightarrow> balanced s')"

lemma same_run_refl: "same_run s s"
  by (simp add: same_run_def)

lemma same_run_trans: "same_run s s' \<Longrightarrow> same_run s' s'' \<Longrightarrow> same_run s s''"
  by (simp add: same_run_def)

lemma display_same: "same_run s (snd (display verbose t s)) \<and> fst (display verbose t s) = Inr ()"
  by (simp add: display_def act_simps same_run_def balanced_def)

lemma open_and_remember_same:
  "can_open os f \<Longrightarrow> same_run s (snd (open_and_remember os f s)) \<and> fst (open_and_remember os f s) = Inr ()"
  by (simp add: open_and_remember_def trace_def act_simps same_run_def balanced_def)

definition quiet :: "'a run \<Rightarrow> runner \<Rightarrow> bool" where
  "quiet m s \<longleftrightarrow> (\<exists>x s'. m s = (Inr x, s') \<and> same_run s s')"

lemma quiet_bind:
  "quiet m s \<Longrightarrow> (\<And>x s'. same_run s s' \<Longrightarrow> quiet (f x) s') \<Longrightarrow> quiet (act_bind m f) s"
  unfolding quiet_def by (fastforce simp: act_simps intro: same_run_trans)

lemma quiet_basic [simp]:
  "quiet (ret x) s" "quiet (display verbose t) s"
  using display_same [of s verbose t] by (auto simp: quiet_def act_simps same_run_refl) (metis prod.collapse)

lemma quiet_open: "can_open os f \<Longrightarrow> quiet (open_and_remember os f) s"
  using open_and_remember_same [of os f s] by (metis prod.collapse quiet_def)


lemma open_out_quiet: "all_available os \<Longrightarrow> quiet (open_out_file os f) s"
  by (auto simp: open_out_file_def all_available_def intro!: quiet_bind quiet_open)

lemma choose_quiet:
  assumes "all_available os"
  shows "r_pipe s \<longrightarrow> r_procs s \<noteq> [] \<Longrightarrow> quiet (choose_stdin os verbose c) s"
    and "cmd_stdout c \<noteq> Some ToSTDOUT \<Longrightarrow> quiet (choose_stdout os verbose c) s"
    and "quiet (choose_stderr os verbose c) s"
proof -
  have op: "can_open os f" for f using assms by (simp add: all_available_def)
  show "quiet (choose_stdin os verbose c) s" if "r_pipe s \<longrightarrow> r_procs s \<noteq> []"
  proof (cases "r_pipe s")
    case True
    then show ?thesis
      using that by (simp add: choose_stdin_def quiet_def act_simps py_nth_last same_run_refl)
  next
    case False
    have "quiet (act_bind (open_and_remember os f) (\<lambda>_. act_bind (display verbose t) (\<lambda>_. ret x))) s"
      for f t and x :: in_src
      using op by (intro quiet_bind quiet_open) simp_all
    with False show ?thesis
      by (cases "cmd_stdin c") (simp_all add: choose_stdin_def quiet_def act_simps same_run_refl)
  qed
  have out: "quiet (act_bind (open_out_file os f) (\<lambda>d. act_bind (display verbose t) (\<lambda>_. ret d))) s" for f t
    using assms by (intro quiet_bind open_out_quiet) simp_all
  show "quiet (choose_stdout os verbose c) s" if "cmd_stdout c \<noteq> Some ToSTDOUT"
    using that out by (auto simp: choose_stdout_def split: option.splits redirect.splits)
  have "quiet (act_bind (display verbose t) (\<lambda>_. ret x)) s" for t and x :: out_dst
    by (intro quiet_bind) simp_all
  with out show "quiet (choose_stderr os verbose c) s"
    by (auto simp: choose_stderr_def split: option.splits redirect.splits)
qed

lemma quiet_run: "quiet m s \<Longrightarrow> \<exists>x s'. m s = (Inr x, s') \<and> same_run s s'"
  by (simp add: quiet_def)

lemma start_command_run:
  assumes av: "all_available os" and pipe: "r_pipe s \<longrightarrow> r_procs s \<noteq> []" and out: "cmd_stdout c \<noteq> Some ToSTDOUT"
  shows "\<exists>s'. start_command os verbose c s = (Inr (), s')
    \<and> r_procs s' = r_procs s @ [r_started s] \<and> r_started s' = Suc (r_started s)
    \<and> r_pipe s' = r_pipe s \<and> launches (r_trace s') = launches (r_trace s) @ [cmd_argv c]
    \<and> (balanced s \<longrightarrow> balanced s')"
proof -
  obtain x1 s1 where 1: "display verbose (show_command c) s = (Inr x1, s1)" "same_run s s1"
    using quiet_run [OF quiet_basic(2)] by blast
  have "r_pipe s1 \<longrightarrow> r_procs s1 \<noteq> []" using 1(2) pipe by (simp add: same_run_def)
  from quiet_run [OF choose_quiet(1) [OF av this]] obtain x2 s2 where
    2: "choose_stdin os verbose c s1 = (Inr x2, s2)" "same_run s1 s2" by blast
  from quiet_run [OF choose_quiet(2) [OF av out]] obtain x3 s3 where
    3: "choose_stdout os verbose c s2 = (Inr x3, s3)" "same_run s2 s3" by blast
  from quiet_run [OF choose_quiet(3) [OF av]] obtain x4 s4 where
    4: "choose_stderr os verbose c s3 = (Inr x4, s4)" "same_run s3 s4" by blast
  have same: "same_run s s4" using 1(2) 2(2) 3(2) 4(2) same_run_trans by blast
  have "can_start os l" for l using av by (simp add: all_available_def)
  with same 1(1) 2(1) 3(1) 4(1) show ?thesis
    by (simp add: start_command_def act_simps popen_def trace_def same_run_def balanced_def)
qed

lemma first_failure_last: "first_failure rs l = (if \<forall>r\<in>set rs. r = 0 then 0 else l)"
  by (induction rs) auto

lemma exec_last:
  "r_procs s = ps @ [n] \<Longrightarrow> exec_piped_commands os s =
     (Inr (exit_code os n), s\<lparr>r_trace := r_trace s @ map EWait (ps @ [n])\<rparr>)"
  by (auto simp: exec_piped_commands_def first_failure_last)

lemma run_loop_shell:
  assumes "runnable ns" and "all_available os" and "r_pipe s \<longrightarrow> r_procs s \<noteq> []" and "balanced s"
  shows "\<exists>s'. run_loop os False ns s = (Inr (snd (shell (exit_code os) ns (r_started s))), s')
    \<and> r_started s' = fst (shell (exit_code os) ns (r_started s))
    \<and> launches (r_trace s') = launches (r_trace s) @ take (r_started s' - r_started s) (argvs ns)
    \<and> r_started s \<le> r_started s' \<and> balanced s' \<and> r_files s' = []"
  using assms
proof (induction ns arbitrary: s rule: runnable.induct)
  case (1 c)
  then have "cmd_stdout c \<noteq> Some ToSTDOUT" by simp
  from start_command_run [OF "1.prems"(2,3) this, of False] obtain s1 where
    s1: "start_command os False c s = (Inr (), s1)" "r_procs s1 = r_procs s @ [r_started s]"
      "r_started s1 = Suc (r_started s)" "launches (r_trace s1) = launches (r_trace s) @ [cmd_argv c]" "balanced s1"
    using "1.prems"(4) by blast
  then show ?case
    by (simp add: act_simps exec_last [OF s1(2)] close_files_def balanced_def)
next
  case (2 c op ns)
  then have "cmd_stdout c \<noteq> Some ToSTDOUT" by simp
  from start_command_run [OF "2.prems"(2,3) this, of False] obtain s1 where
    s1: "start_command os False c s = (Inr (), s1)" "r_procs s1 = r_procs s @ [r_started s]"
      "r_started s1 = Suc (r_started s)" "launches (r_trace s1) = launches (r_trace s) @ [cmd_argv c]" "balanced s1"
    using "2.prems"(4) by blast
  define s2 where "s2 = s1\<lparr>r_trace := r_trace s1 @ map EWait (r_procs s @ [r_started s]) @ map EClose (r_files s1), r_files := []\<rparr>"
  have s2: "balanced s2" "launches (r_trace s2) = launches (r_trace s1)" "r_started s2 = r_started s1" "r_files s2 = []"
    using s1(5) by (simp_all add: s2_def balanced_def)
  define s3 where "s3 = s2\<lparr>r_pipe := False, r_procs := [], r_display := []\<rparr>"
  have s3: "balanced s3" "launches (r_trace s3) = launches (r_trace s1)" "r_started s3 = r_started s1" "\<not> r_pipe s3"
    using s2 by (simp_all add: s3_def balanced_def)
  have run: "runnable ns" using "2.prems"(1) by simp
  from "2.prems"(1) consider (pipe) "op = Pipe" | (conj) "op = And" | (disj) "op = Or" by auto
  then show ?case
  proof cases
    case pipe
    define s4 where "s4 = s1\<lparr>r_pipe := True, r_display := r_display s1 @ [''|'']\<rparr>"
    have s4: "balanced s4" "launches (r_trace s4) = launches (r_trace s1)" "r_started s4 = Suc (r_started s)" "r_procs s4 \<noteq> []"
      using s1 by (simp_all add: s4_def balanced_def)
    have "run_loop os False (Command c # op # ns) s = run_loop os False ns s4"
      using pipe s1(1) by (simp add: act_simps s4_def)
    with "2.IH" [OF run "2.prems"(2) _ s4(1)] s4 s1(4) pipe show ?thesis
      by (auto simp: Suc_le_eq Suc_diff_Suc [symmetric])
  next
    case conj
    show ?thesis
    proof (cases "exit_code os (r_started s) = 0")
      case True
      then have "run_loop os False (Command c # op # ns) s = run_loop os False ns s3"
        using conj s1(1) by (simp add: act_simps exec_last [OF s1(2)] close_files_def
            verbose_retval_def begin_group_def s3_def s2_def)
      with "2.IH" [OF run "2.prems"(2) _ s3(1)] s3 s1(3,4) conj True show ?thesis
        by (auto simp: Suc_le_eq Suc_diff_Suc [symmetric])
    next
      case False
      then have "run_loop os False (Command c # op # ns) s = (Inr (Some (exit_code os (r_started s))), s2)"
        using conj s1(1) by (simp add: act_simps exec_last [OF s1(2)] close_files_def
            verbose_retval_def s2_def)
      with False conj s2 s1(3,4) show ?thesis by simp
    qed
  next
    case disj
    show ?thesis
    proof (cases "exit_code os (r_started s) = 0")
      case False
      then have "run_loop os False (Command c # op # ns) s = run_loop os False ns s3"
        using disj s1(1) by (simp add: act_simps exec_last [OF s1(2)] close_files_def
            verbose_retval_def begin_group_def s3_def s2_def)
      with "2.IH" [OF run "2.prems"(2) _ s3(1)] s3 s1(3,4) disj False show ?thesis
        by (auto simp: Suc_le_eq Suc_diff_Suc [symmetric])
    next
      case True
      then have "run_loop os False (Command c # op # ns) s = (Inr (Some 0), s2)"
        using disj s1(1) by (simp add: act_simps exec_last [OF s1(2)] close_files_def
            verbose_retval_def s2_def)
      with True disj s2 s1(3,4) show ?thesis by simp
    qed
  qed
next
  case (3 d ns)
  then obtain dir where d: "d = Some dir" by auto
  define s1 where "s1 = s\<lparr>r_cwd := path_join (r_cwd s) dir\<rparr>"
  have "run_loop os False (Chdir d # And # ns) s = run_loop os False ns s1"
    by (simp add: d act_simps display_def s1_def)
  with "3.IH" [of s1] "3.prems" show ?case by (auto simp: s1_def balanced_def)
qed auto

text \<open>
  C8. Running refines the specification \<open>shell\<close>: when files open and processes start, a
  quiet run of a pipeline that does not end in \<open>cd\<close> raises nothing, returns the status the
  specification gives, has started exactly the commands it counts, in order, and has closed
  every file it opened.
\<close>
theorem run_refines_shell:
  assumes "runnable ns" and "all_available os"
  shows "case run_pipeline os False ns of (r, s) \<Rightarrow>
     r = Inr (snd (shell (exit_code os) ns 0))
     \<and> launches (r_trace s) = take (fst (shell (exit_code os) ns 0)) (argvs ns)
     \<and> mset (opened (r_trace s)) = mset (closed_files (r_trace s))"
proof -
  have "balanced run_start" by (simp add: balanced_def run_start_def)
  from run_loop_shell [OF assms _ this] show ?thesis
    by (auto simp: run_pipeline_def run_start_def balanced_def)
qed

theorem run_refines_shell_witness:
  "fst (run_pipeline \<lparr>can_open = \<lambda>_. True, can_start = \<lambda>_. True, exit_code = (\<lambda>n. if n = 1 then 3 else 0), os_environ = []\<rparr>
     False [Command (new_command ''a''), Pipe, Command (new_command ''b''), And, Command (new_command ''c'')])
   = Inr (Some 3)"
  using run_refines_shell [of "[Command (new_command ''a''), Pipe, Command (new_command ''b''), And, Command (new_command ''c'')]"
      "\<lparr>can_open = \<lambda>_. True, can_start = \<lambda>_. True, exit_code = (\<lambda>n. if n = 1 then 3 else 0), os_environ = []\<rparr>"]
  by (auto simp: all_available_def new_command_def)

text \<open>
  In verbose mode the first \<open>&&\<close> or \<open>||\<close> after a command that starts makes
  \<open>run\<close> raise \<open>UnboundLocalError\<close>, because its message formats a variable that is
  assigned only at the end of the pipeline.
\<close>
theorem run_verbose_unbound:
  assumes "all_available os" and "cmd_stdout c \<noteq> Some ToSTDOUT" and "op = And \<or> op = Or"
  shows "fst (run_pipeline os True (Command c # op # ns)) = Inl UnboundLocalError"
proof -
  from start_command_run [OF assms(1) _ assms(2), of run_start True] obtain s1 where
    s1: "start_command os True c run_start = (Inr (), s1)" "r_procs s1 = [] @ [0]"
    by (auto simp: run_start_def)
  then show ?thesis
    using assms(3) exec_last [OF s1(2), of os]
    by (auto simp: run_pipeline_def verbose_retval_def act_simps close_files_def)
qed

theorem run_verbose_unbound_witness:
  "fst (run_pipeline \<lparr>can_open = \<lambda>_. True, can_start = \<lambda>_. True, exit_code = \<lambda>_. 0, os_environ = []\<rparr>
     True [Command (new_command ''a''), And, Command (new_command ''b'')]) = Inl UnboundLocalError"
  by (rule run_verbose_unbound) (auto simp: all_available_def new_command_def)

end
