(* ===== verification/Cflags.thy ===== *)
theory Cflags
  imports PyStr
begin

text \<open>
  waf-tools/cflags.py: the compiler flags of a build profile. The three subclasses of
  \<open>CompilerTraits\<close> are values of the record \<open>traits\<close>; what \<open>configure\<close>
  relies on is the interface \<open>compiler_traits\<close>. Of waf's \<open>conf.env\<close> the record
  \<open>env\<close> keeps the variables this module reads and writes, an unset variable being empty.
\<close>

section \<open>Compiler traits\<close>

record traits =
  get_warnings_flags :: "int \<Rightarrow> string list"
  get_optimization_flags :: "int \<Rightarrow> string list option"
  get_debug_flags :: "int \<Rightarrow> (string list \<times> string list) option"

text \<open>
  The loop the three classes share: it takes the flags of the levels below \<open>level\<close> and
  stops at the end of the table. A method that ends without \<open>return\<close> returns \<open>None\<close>.
\<close>

fun warnings_upto :: "string list list \<Rightarrow> nat list \<Rightarrow> string list \<Rightarrow> string list" where
  "warnings_upto table [] warnings = warnings"
| "warnings_upto table (l # ls) warnings =
     (if l < length table then warnings_upto table ls (warnings @ table ! l) else warnings)"

definition gcc_warnings :: "int \<Rightarrow> string list" where
  "gcc_warnings level = warnings_upto [[''-Wall''], [''-Werror''], [''-Wextra'']] [0..<nat level] []"

definition gcc_optimization :: "int \<Rightarrow> string list option" where
  "gcc_optimization level =
     (if level = 0 then Some [''-O0''] else if level = 1 then Some [''-O'']
      else if level = 2 then Some [''-O2''] else if level = 3 then Some [''-O3''] else None)"

definition gcc_debug :: "int \<Rightarrow> (string list \<times> string list) option" where
  "gcc_debug level =
     (if level = 0 then Some ([''-g0''], [''NDEBUG'']) else if level = 1 then Some ([''-g''], [])
      else if level \<ge> 2 then Some ([''-ggdb'', ''-g3''], [''_DEBUG'']) else None)"

definition icc_warnings :: "int \<Rightarrow> string list" where
  "icc_warnings level = warnings_upto [[], [], [''-Wall'']] [0..<nat level] []"

definition icc_optimization :: "int \<Rightarrow> string list option" where
  "icc_optimization level =
     (if level = 0 then Some [''-O0''] else if level = 1 then Some [''-O'']
      else if level = 2 then Some [''-O2''] else if level = 3 then Some [''-O3''] else None)"

definition icc_debug :: "int \<Rightarrow> (string list \<times> string list) option" where
  "icc_debug level =
     (if level = 0 then Some ([''-g0''], [''NDEBUG'']) else if level = 1 then Some ([''-g''], [])
      else if level \<ge> 2 then Some ([''-ggdb'', ''-g3''], [''_DEBUG'']) else None)"

definition msvc_warnings :: "int \<Rightarrow> string list" where
  "msvc_warnings level = warnings_upto [[''/W2''], [''/WX''], [''/Wall'']] [0..<nat level] []"

definition msvc_optimization :: "int \<Rightarrow> string list option" where
  "msvc_optimization level =
     (if level = 0 then Some [''/Od''] else if level = 1 then Some []
      else if level = 2 then Some [''/O2''] else if level = 3 then Some [''/Ox''] else None)"

definition msvc_debug :: "int \<Rightarrow> (string list \<times> string list) option" where
  "msvc_debug level =
     (if level = 0 then Some ([], [''NDEBUG'']) else if level = 1 then Some ([''/ZI'', ''/RTC1''], [])
      else if level \<ge> 2 then Some ([''/ZI'', ''/RTC1''], [''_DEBUG'']) else None)"

definition gcc :: traits where
  "gcc = \<lparr>get_warnings_flags = gcc_warnings, get_optimization_flags = gcc_optimization, get_debug_flags = gcc_debug\<rparr>"

definition icc :: traits where
  "icc = \<lparr>get_warnings_flags = icc_warnings, get_optimization_flags = icc_optimization, get_debug_flags = icc_debug\<rparr>"

definition msvc :: traits where
  "msvc = \<lparr>get_warnings_flags = msvc_warnings, get_optimization_flags = msvc_optimization, get_debug_flags = msvc_debug\<rparr>"

definition compiler_mapping :: "(string, traits) dict" where
  "compiler_mapping = [(''gcc'', gcc), (''g++'', gcc), (''msvc'', msvc), (''icc'', icc),
     (''icpc'', icc), (''clang'', gcc), (''clang++'', gcc)]"

definition profiles :: "(string, int \<times> int \<times> int) dict" where
  "profiles = [(''default'', (2, 1, 1)), (''debug'', (0, 2, 3)), (''release'', (3, 1, 0))]"

section \<open>Configuring\<close>

record env =
  COMPILER_CC :: string
  COMPILER_CXX :: string
  CCFLAGS :: "string list"
  CCDEFINES :: "string list"
  CXXFLAGS :: "string list"
  CXXDEFINES :: "string list"

definition or_none :: "string \<Rightarrow> string option" where
  "or_none s = (if s = [] then None else Some s)"

definition find_compiler :: "string option \<Rightarrow> traits option" where
  "find_compiler name = (case name of None \<Rightarrow> None | Some n \<Rightarrow> map_of compiler_mapping n)"

definition set_flags :: "bool \<Rightarrow> bool \<Rightarrow> string list \<Rightarrow> string list \<Rightarrow> string list \<Rightarrow> string list \<Rightarrow> env \<Rightarrow> env" where
  "set_flags cc cxx optimizations debug warnings debug_defs e =
     (let e1 = (if cc \<and> CCFLAGS e = [] then
                  e\<lparr>CCFLAGS := CCFLAGS e @ optimizations @ debug @ warnings, CCDEFINES := CCDEFINES e @ debug_defs\<rparr>
                else e)
      in if cxx \<and> CXXFLAGS e1 = [] then
           e1\<lparr>CXXFLAGS := CXXFLAGS e1 @ optimizations @ debug @ warnings, CXXDEFINES := CXXDEFINES e1 @ debug_defs\<rparr>
         else e1)"

definition configure :: "string \<Rightarrow> bool \<Rightarrow> env \<Rightarrow> env res" where
  "configure build_profile disable_werror e =
     (let cc = or_none (COMPILER_CC e); cxx = or_none (COMPILER_CXX e)
      in if cc = None \<and> cxx = None then Inl (OtherException ''WafError'')
         else (case (case find_compiler cc of Some t \<Rightarrow> Some t | None \<Rightarrow> find_compiler cxx) of
           None \<Rightarrow> Inr e
         | Some compiler \<Rightarrow>
             and_then (dict_get profiles build_profile) (\<lambda>(opt_level, warn_level, dbg_level).
               (case get_optimization_flags compiler opt_level of
                  None \<Rightarrow> Inl TypeError
                | Some optimizations \<Rightarrow>
                    (case get_debug_flags compiler dbg_level of
                       None \<Rightarrow> Inl TypeError
                     | Some (debug, debug_defs) \<Rightarrow>
                         (let warnings = get_warnings_flags compiler warn_level;
                              warnings = (if disable_werror then remove1 ''-Werror'' warnings else warnings)
                          in Inr (set_flags (cc \<noteq> None) (cxx \<noteq> None) optimizations debug warnings debug_defs e)))))))"

section \<open>The interface\<close>

text \<open>
  What \<open>configure\<close> relies on in a compiler: flags for the optimization levels 0 to 3 and
  for every debug level, and warning flags that accumulate with the level.
\<close>

locale compiler_traits =
  fixes t :: traits
  assumes optimization_defined: "0 \<le> l \<Longrightarrow> l \<le> 3 \<Longrightarrow> get_optimization_flags t l \<noteq> None"
    and debug_defined: "0 \<le> l \<Longrightarrow> get_debug_flags t l \<noteq> None"
    and warnings_cumulative: "i \<le> j \<Longrightarrow> prefix (get_warnings_flags t i) (get_warnings_flags t j)"
begin

lemma levels_defined:
  assumes "map_of profiles p = Some (ol, wl, dl)"
  shows "\<exists>fs ds defs. get_optimization_flags t ol = Some fs \<and> get_debug_flags t dl = Some (ds, defs)"
proof -
  have "0 \<le> ol \<and> ol \<le> 3 \<and> 0 \<le> dl" using assms by (auto simp: profiles_def split: if_splits)
  then show ?thesis using optimization_defined [of ol] debug_defined [of dl] by auto
qed

end

lemma warnings_upto_take:
  "warnings_upto table [i..<j] ws = ws @ concat (take (j - i) (drop i table))"
proof (induction "j - i" arbitrary: i ws)
  case (Suc n)
  then have "i < j" by simp
  show ?case
  proof (cases "i < length table")
    case True
    have "take (j - i) (drop i table) = table ! i # take (j - Suc i) (drop (Suc i) table)"
      using True \<open>i < j\<close> by (metis Cons_nth_drop_Suc Suc_diff_Suc take_Suc_Cons)
    moreover have "warnings_upto table [Suc i..<j] (ws @ table ! i)
        = (ws @ table ! i) @ concat (take (j - Suc i) (drop (Suc i) table))"
      using Suc(2) by (intro Suc(1)) simp
    ultimately show ?thesis using True \<open>i < j\<close> by (simp add: upt_conv_Cons)
  qed (use \<open>i < j\<close> in \<open>simp add: upt_conv_Cons\<close>)
qed simp

lemma warnings_prefix:
  "i \<le> j \<Longrightarrow> prefix (warnings_upto table [0..<nat i] []) (warnings_upto table [0..<nat j] [])"
proof -
  assume "i \<le> j"
  then have "take (nat i) table = take (nat i) (take (nat j) table)" by (simp add: nat_mono min_absorb1)
  then have "take (nat j) table = take (nat i) table @ drop (nat i) (take (nat j) table)"
    by (metis append_take_drop_id)
  then show ?thesis by (simp add: warnings_upto_take) (metis concat_append prefixI)
qed

interpretation gcc: compiler_traits gcc
  by unfold_locales
    (auto simp: gcc_def gcc_optimization_def gcc_debug_def gcc_warnings_def intro: warnings_prefix)

interpretation icc: compiler_traits icc
  by unfold_locales
    (auto simp: icc_def icc_optimization_def icc_debug_def icc_warnings_def intro: warnings_prefix)

interpretation msvc: compiler_traits msvc
  by unfold_locales
    (auto simp: msvc_def msvc_optimization_def msvc_debug_def msvc_warnings_def intro: warnings_prefix)

lemma mapping_traits: "map_of compiler_mapping n = Some t \<Longrightarrow> compiler_traits t"
  by (auto simp: compiler_mapping_def split: if_splits
      intro: gcc.compiler_traits_axioms icc.compiler_traits_axioms msvc.compiler_traits_axioms)

lemma or_none_None: "or_none s = None \<longleftrightarrow> s = []"
  by (simp add: or_none_def)

text \<open>
  With one of the declared profiles, \<open>configure\<close> raises exactly when no compiler is
  configured; it never changes flags that were set before, and for a known C compiler without
  flags of its own it sets exactly the flags of the profile, without \<open>-Werror\<close> when that
  is disabled.
\<close>
theorem configure_flags:
  assumes "map_of profiles p = Some (ol, wl, dl)"
  shows "case configure p dw e of
      Inl err \<Rightarrow> err = OtherException ''WafError'' \<and> COMPILER_CC e = [] \<and> COMPILER_CXX e = []
    | Inr e' \<Rightarrow> (CCFLAGS e \<noteq> [] \<longrightarrow> CCFLAGS e' = CCFLAGS e) \<and> (CXXFLAGS e \<noteq> [] \<longrightarrow> CXXFLAGS e' = CXXFLAGS e)
        \<and> COMPILER_CC e' = COMPILER_CC e \<and> COMPILER_CXX e' = COMPILER_CXX e
        \<and> (\<forall>t. map_of compiler_mapping (COMPILER_CC e) = Some t \<and> CCFLAGS e = [] \<longrightarrow>
            (\<exists>fs ds defs. get_optimization_flags t ol = Some fs \<and> get_debug_flags t dl = Some (ds, defs)
              \<and> CCFLAGS e' = fs @ ds @ (if dw then remove1 ''-Werror'' (get_warnings_flags t wl) else get_warnings_flags t wl)
              \<and> CCDEFINES e' = CCDEFINES e @ defs))"
proof -
  define comp where "comp = (case find_compiler (or_none (COMPILER_CC e)) of
      Some t \<Rightarrow> Some t | None \<Rightarrow> find_compiler (or_none (COMPILER_CXX e)))"
  have empty_name: "map_of compiler_mapping [] = None" by (simp add: compiler_mapping_def)
  have cc: "comp = Some t" if "map_of compiler_mapping (COMPILER_CC e) = Some t" for t
    using that empty_name by (auto simp: comp_def find_compiler_def or_none_def)
  show ?thesis
  proof (cases "COMPILER_CC e = [] \<and> COMPILER_CXX e = []")
    case True
    then show ?thesis by (simp add: configure_def or_none_def)
  next
    case named: False
    show ?thesis
    proof (cases comp)
      case None
      then have "configure p dw e = Inr e"
        using named unfolding configure_def Let_def comp_def [symmetric] or_none_None by auto
      with None cc show ?thesis by auto
    next
      case (Some t)
      then have "compiler_traits t"
        by (auto simp: comp_def find_compiler_def split: option.splits dest: mapping_traits)
      from compiler_traits.levels_defined [OF this assms] obtain fs ds defs where
        fl: "get_optimization_flags t ol = Some fs" "get_debug_flags t dl = Some (ds, defs)" by blast
      define ws where "ws = (if dw then remove1 ''-Werror'' (get_warnings_flags t wl) else get_warnings_flags t wl)"
      have conf: "configure p dw e = Inr (set_flags (COMPILER_CC e \<noteq> []) (COMPILER_CXX e \<noteq> []) fs ds ws defs e)"
        using named Some fl assms unfolding configure_def Let_def comp_def [symmetric] or_none_None
        by (auto simp: dict_get_def ws_def)
      have "COMPILER_CC e \<noteq> []" if "map_of compiler_mapping (COMPILER_CC e) = Some t'" for t'
        using that empty_name by auto
      with cc Some fl show ?thesis
        unfolding conf by (auto simp: set_flags_def ws_def Let_def)
    qed
  qed
qed

theorem configure_flags_witness:
  "case configure ''debug'' True \<lparr>COMPILER_CC = ''gcc'', COMPILER_CXX = [], CCFLAGS = [],
      CCDEFINES = [], CXXFLAGS = [], CXXDEFINES = []\<rparr> of
     Inl _ \<Rightarrow> False | Inr e' \<Rightarrow> CCFLAGS e' = [''-O0'', ''-ggdb'', ''-g3'', ''-Wall'']"
proof -
  let ?e = "\<lparr>COMPILER_CC = ''gcc'', COMPILER_CXX = [], CCFLAGS = [],
      CCDEFINES = [], CXXFLAGS = [], CXXDEFINES = []\<rparr>"
  have "map_of profiles ''debug'' = Some (0, 2, 3)" by (simp add: profiles_def)
  from configure_flags [OF this, where dw = True and e = ?e] show ?thesis
    by (cases "configure ''debug'' True ?e")
      (auto simp: compiler_mapping_def gcc_def gcc_optimization_def gcc_debug_def gcc_warnings_def
        warnings_upto_take)
qed

end
