(* ===== verification/CheckStyle.thy ===== *)
theory CheckStyle
  imports PyStr
begin

text \<open>
  utils/check-style.py: the configuration for uncrustify, patches and their parser and
  printer, the removal of trailing-white-space changes, and the check of a list of files.
  The external programs (uncrustify and patch) and Python's \<open>difflib.unified_diff\<close> are the
  fields of the record \<open>tools\<close>; the file system is a map from names to contents.
\<close>

section \<open>The configuration\<close>

definition level0 :: "string list" where
  "level0 = [
     ''sp_func_proto_paren=Add'', ''sp_func_def_paren=Add'', ''sp_func_call_paren=Add'',
     ''sp_after_semi_for=Ignore'', ''sp_before_sparen=Ignore'', ''sp_before_ellipsis=Remove'',
     ''sp_type_func=Ignore'', ''sp_after_type=Ignore'', ''nl_class_leave_one_liners=True'',
     ''nl_enum_leave_one_liners=True'', ''nl_func_leave_one_liners=True'',
     ''nl_assign_leave_one_liners=True'', ''nl_collapse_empty_body=True'',
     ''nl_getset_leave_one_liners=True'', ''nl_if_leave_one_liners=True'',
     ''nl_fdef_brace=Ignore'', ''# finally, indentation configuration'', ''indent_with_tabs=0'',
     ''indent_namespace=false'', ''indent_columns=2'', ''indent_brace=2'',
     ''indent_case_brace=indent_columns'', ''indent_class=true'', ''indent_class_colon=True'',
     ''indent_switch_case=indent_columns'', ''# alignment'', ''indent_align_assign=False'',
     ''align_left_shift=True'', ''# comment reformating disabled'',
     ''cmt_reflow_mode=1 # do not touch comments at all'',
     ''cmt_indent_multi=False # really, do not touch them'',
     ''disable_processing_cmt= '' @ [CHR 0x22] @ '' *NS_CHECK_STYLE_OFF*'' @ [CHR 0x22],
     ''enable_processing_cmt=  '' @ [CHR 0x22] @ '' *NS_CHECK_STYLE_ON*'' @ [CHR 0x22]]"

definition level1 :: "string list" where
  "level1 = [
     ''# extra spaces here and there'', ''sp_brace_typedef=Add'', ''sp_enum_assign=Add'',
     ''sp_before_sparen=Add'', ''sp_after_semi_for=Add'', ''sp_arith=Add'', ''sp_assign=Add'',
     ''sp_compare=Add'', ''sp_func_class_paren=Add'', ''sp_after_type=Add'', ''sp_type_func=Add'',
     ''sp_angle_paren=Add'']"

definition level2 :: "string list" where
  "level2 = [
     ''nl_if_brace=Add'', ''nl_brace_else=Add'', ''nl_elseif_brace=Add'', ''nl_else_brace=Add'',
     ''nl_while_brace=Add'', ''nl_do_brace=Add'', ''nl_for_brace=Add'', ''nl_brace_while=Add'',
     ''nl_switch_brace=Add'', ''nl_after_case=True'', ''nl_namespace_brace=ignore'',
     ''nl_after_brace_open=True'', ''nl_class_leave_one_liners=False'',
     ''nl_enum_leave_one_liners=False'', ''nl_func_leave_one_liners=False'',
     ''nl_if_leave_one_liners=False'', ''nl_class_colon=Ignore'', ''nl_before_access_spec=2'',
     ''nl_after_access_spec=0'', ''indent_access_spec=-indent_columns'',
     ''nl_after_semicolon=True'', ''pos_class_colon=Lead'', ''pos_class_comma=Trail'',
     ''indent_constr_colon=true'', ''pos_bool=Lead'', ''nl_class_init_args=Add'',
     ''nl_template_class=Add'', ''nl_class_brace=Add'', ''# does not work very well'',
     ''nl_func_type_name=Ignore'', ''nl_func_scope_name=Ignore'',
     ''nl_func_type_name_class=Ignore'', ''nl_func_proto_type_name=Ignore'',
     ''# function'' @ [CHR 0x5C] @ ''n('', ''nl_func_paren=Remove'', ''nl_fdef_brace=Add'',
     ''nl_struct_brace=Add'', ''nl_enum_brace=Add'', ''nl_union_brace=Add'',
     ''mod_full_brace_do=Add'', ''mod_full_brace_for=Add'', ''mod_full_brace_if=Add'',
     ''mod_full_brace_while=Add'', ''mod_full_brace_for=Add'', ''mod_remove_extra_semicolon=True'',
     ''# max code width'', ''#code_width=128'', ''#ls_for_split_full=True'',
     ''#ls_func_split_full=True'', ''nl_cpp_lambda_leave_one_liners=True'']"

definition text_lines :: "string list \<Rightarrow> string" where
  "text_lines ls = newline @ concat (map (\<lambda>l. l @ newline) ls)"

definition uncrustify_config_file :: "int \<Rightarrow> string" where
  "uncrustify_config_file level =
     text_lines level0 @ (if level \<ge> 1 then text_lines level1 else []) @
     (if level \<ge> 2 then text_lines level2 else [])"

section \<open>Patches\<close>

datatype line_type = NoType | SRC | DST | BOTH

record patch_line =
  line_type :: line_type
  line :: string

definition set_src :: "string \<Rightarrow> patch_line" where
  "set_src s = \<lparr>line_type = SRC, line = s\<rparr>"

definition set_dst :: "string \<Rightarrow> patch_line" where
  "set_dst s = \<lparr>line_type = DST, line = s\<rparr>"

definition set_both :: "string \<Rightarrow> patch_line" where
  "set_both s = \<lparr>line_type = BOTH, line = s\<rparr>"

definition append_to_line :: "string \<Rightarrow> patch_line \<Rightarrow> patch_line" where
  "append_to_line s l = l\<lparr>line := line l @ s\<rparr>"

definition is_src :: "patch_line \<Rightarrow> bool" where
  "is_src l \<longleftrightarrow> line_type l = SRC \<or> line_type l = BOTH"

definition is_dst :: "patch_line \<Rightarrow> bool" where
  "is_dst l \<longleftrightarrow> line_type l = DST \<or> line_type l = BOTH"

text \<open>What the \<open>write\<close> methods write, one element for each call of \<open>f.write\<close>.\<close>

definition write_line :: "patch_line \<Rightarrow> string res" where
  "write_line l =
     (case line_type l of
        SRC \<Rightarrow> Inr (''-'' @ line l @ newline)
      | DST \<Rightarrow> Inr (''+'' @ line l @ newline)
      | BOTH \<Rightarrow> Inr ('' '' @ line l @ newline)
      | NoType \<Rightarrow> Inl (OtherException ''invalid patch''))"

record chunk =
  chunk_lines :: "patch_line list"
  src_pos :: nat
  dst_pos :: nat

definition chunk_src :: "chunk \<Rightarrow> patch_line list" where
  "chunk_src c = filter is_src (chunk_lines c)"

definition chunk_dst :: "chunk \<Rightarrow> patch_line list" where
  "chunk_dst c = filter is_dst (chunk_lines c)"

definition src_len :: "chunk \<Rightarrow> nat" where
  "src_len c = length (chunk_src c)"

definition dst_len :: "chunk \<Rightarrow> nat" where
  "dst_len c = length (chunk_dst c)"

fun write_all :: "('a \<Rightarrow> 'b res) \<Rightarrow> 'a list \<Rightarrow> 'b list res" where
  "write_all w [] = Inr []"
| "write_all w (x # xs) = and_then (w x) (\<lambda>y. and_then (write_all w xs) (\<lambda>ys. Inr (y # ys)))"

definition chunk_header :: "chunk \<Rightarrow> string" where
  "chunk_header c = ''@@ -'' @ show_nat (src_pos c) @ '','' @ show_nat (src_len c) @ '' +'' @
     show_nat (dst_pos c) @ '','' @ show_nat (dst_len c) @ '' @@'' @ newline"

definition write_chunk :: "chunk \<Rightarrow> string list res" where
  "write_chunk c = and_then (write_all write_line (chunk_lines c)) (\<lambda>ls. Inr (chunk_header c # ls))"

record patch =
  patch_src :: string
  patch_dst :: string
  chunks :: "chunk list"

definition write_patch :: "patch \<Rightarrow> string list res" where
  "write_patch p = and_then (write_all write_chunk (chunks p))
     (\<lambda>cs. Inr ((''--- '' @ patch_src p @ newline) # (''+++ '' @ patch_dst p @ newline) # concat cs))"

section \<open>Parsing patches\<close>

text \<open>
  The regular expressions that end in \<open>(.*)$\<close> match a line whose only newline, if any,
  ends it; \<open>line_body\<close> is the line without it. The one for a chunk header matches a prefix.
\<close>

definition line_body :: "string \<Rightarrow> string option" where
  "line_body l = (let b = (if endswith l newline then butlast l else l)
     in if CHR 0x0A \<in> set b then None else Some b)"

definition match_prefix :: "string \<Rightarrow> string \<Rightarrow> string option" where
  "match_prefix p l = (case line_body l of
      None \<Rightarrow> None | Some b \<Rightarrow> if startswith b p then Some (drop (length p) b) else None)"

definition chunk_start :: "string \<Rightarrow> (nat \<times> nat) option" where
  "chunk_start l =
     Option.bind (eat ''@@ -'' l) (\<lambda>s. Option.bind (eat_number s) (\<lambda>(a, s).
     Option.bind (eat '','' s) (\<lambda>s. Option.bind (eat_number s) (\<lambda>(_, s).
     Option.bind (eat '' +'' s) (\<lambda>s. Option.bind (eat_number s) (\<lambda>(b, s).
     Option.bind (eat '','' s) (\<lambda>s. Option.bind (eat_number s) (\<lambda>(_, s).
     Option.bind (eat '' @@'' s) (\<lambda>_. Some (a, b))))))))))"

text \<open>
  The parser's variables. \<open>current_patch\<close> is the last element of \<open>patchset\<close>;
  \<open>current_chunk\<close> is a reference, the position of a patch and of a chunk in it, and stays
  what it was when a new patch begins. It is unbound until the first chunk header.
\<close>

record patch_parser =
  patchset :: "patch list"
  current_chunk :: "(nat \<times> nat) option"

definition update_last :: "('a \<Rightarrow> 'a) \<Rightarrow> 'a list \<Rightarrow> 'a list" where
  "update_last f xs = xs[length xs - 1 := f (last xs)]"

definition add_to_chunk :: "patch_line \<Rightarrow> chunk \<Rightarrow> chunk" where
  "add_to_chunk l c = c\<lparr>chunk_lines := chunk_lines c @ [l]\<rparr>"

definition add_line_at :: "nat \<times> nat \<Rightarrow> patch_line \<Rightarrow> patch list \<Rightarrow> patch list" where
  "add_line_at r l ps =
     (let (i, j) = r; p = ps ! i
      in ps[i := p\<lparr>chunks := (chunks p)[j := add_to_chunk l (chunks p ! j)]\<rparr>])"

definition add_line :: "patch_line \<Rightarrow> patch_parser \<Rightarrow> patch_parser res" where
  "add_line l s =
     (case current_chunk s of
        None \<Rightarrow> Inl UnboundLocalError
      | Some r \<Rightarrow> Inr (s\<lparr>patchset := add_line_at r l (patchset s)\<rparr>))"

definition parse_line :: "patch_parser \<Rightarrow> string \<Rightarrow> patch_parser res" where
  "parse_line s l =
     (case match_prefix ''--- '' l of
        Some name \<Rightarrow> Inr (s\<lparr>patchset := patchset s @ [\<lparr>patch_src = name, patch_dst = [], chunks = []\<rparr>]\<rparr>)
      | None \<Rightarrow>
     (case match_prefix ''+++ '' l of
        Some name \<Rightarrow>
          if patchset s = [] then Inl AttributeError
          else Inr (s\<lparr>patchset := update_last (\<lambda>p. p\<lparr>patch_dst := name\<rparr>) (patchset s)\<rparr>)
      | None \<Rightarrow>
     (case chunk_start l of
        Some (a, b) \<Rightarrow>
          if patchset s = [] then Inl AttributeError
          else Inr (s\<lparr>patchset := update_last (\<lambda>p. p\<lparr>chunks := chunks p @ [\<lparr>chunk_lines = [], src_pos = a, dst_pos = b\<rparr>]\<rparr>) (patchset s),
                      current_chunk := Some (length (patchset s) - 1, length (chunks (last (patchset s))))\<rparr>)
      | None \<Rightarrow>
     (case match_prefix ''-'' l of Some t \<Rightarrow> add_line (set_src t) s
      | None \<Rightarrow>
     (case match_prefix ''+'' l of Some t \<Rightarrow> add_line (set_dst t) s
      | None \<Rightarrow>
     (case match_prefix '' '' l of Some t \<Rightarrow> add_line (set_both t) s
      | None \<Rightarrow> Inl (OtherException []))))))) "

definition parse_patchset :: "string list \<Rightarrow> patch list res" where
  "parse_patchset generator =
     and_then (for_each parse_line \<lparr>patchset = [], current_chunk = None\<rparr> generator) (\<lambda>s. Inr (patchset s))"

section \<open>Trailing white space\<close>

text \<open>
  \<open>^(.*)([ \t]+)$\<close>: the first group is greedy, so that the second is the last character.
\<close>

definition whitespace_match :: "string \<Rightarrow> (string \<times> string) option" where
  "whitespace_match s =
     (if s \<noteq> [] \<and> (last s = CHR '' '' \<or> last s = CHR 0x09) \<and> CHR 0x0A \<notin> set s
      then Some (butlast s, [last s]) else None)"

text \<open>The body of the loop, for a source line and a destination line of a chunk.\<close>

definition clean_pair :: "nat \<Rightarrow> nat \<Rightarrow> patch_line list \<Rightarrow> patch_line list" where
  "clean_pair s d ls =
     (case whitespace_match (line (ls ! s)) of
        Some (t, w) \<Rightarrow> if t = line (ls ! d) then ls[d := append_to_line w (ls ! d)] else ls
      | None \<Rightarrow> ls)"

text \<open>
  The loop over one chunk: \<open>ss\<close> and \<open>ds\<close> are the positions in the chunk of its source
  and destination lines, which are the same objects. It ends early, with False, when there are
  fewer destination lines (the \<open>IndexError\<close> that the handler catches).
\<close>

fun pair_loop :: "nat list \<Rightarrow> nat list \<Rightarrow> patch_line list \<Rightarrow> patch_line list \<times> bool" where
  "pair_loop [] ds ls = (ls, True)"
| "pair_loop (s # ss) [] ls = (ls, False)"
| "pair_loop (s # ss) (d # ds) ls = pair_loop ss ds (clean_pair s d ls)"

definition positions :: "('a \<Rightarrow> bool) \<Rightarrow> 'a list \<Rightarrow> nat list" where
  "positions P xs = filter (\<lambda>i. P (xs ! i)) [0..<length xs]"

definition clean_chunk :: "chunk \<Rightarrow> chunk \<times> bool" where
  "clean_chunk c =
     (let (ls, ok) = pair_loop (positions is_src (chunk_lines c)) (positions is_dst (chunk_lines c)) (chunk_lines c)
      in (c\<lparr>chunk_lines := ls\<rparr>, ok))"

text \<open>A loop that stops at the first element whose processing reports False.\<close>

fun clean_while :: "('a \<Rightarrow> 'a \<times> bool) \<Rightarrow> 'a list \<Rightarrow> 'a list \<times> bool" where
  "clean_while f [] = ([], True)"
| "clean_while f (x # xs) =
     (case f x of
        (y, False) \<Rightarrow> (y # xs, False)
      | (y, True) \<Rightarrow> (case clean_while f xs of (ys, ok) \<Rightarrow> (y # ys, ok)))"

definition clean_patch :: "patch \<Rightarrow> patch \<times> bool" where
  "clean_patch p = (case clean_while clean_chunk (chunks p) of (cs, ok) \<Rightarrow> (p\<lparr>chunks := cs\<rparr>, ok))"

definition remove_trailing_whitespace_changes :: "string list \<Rightarrow> patch list res" where
  "remove_trailing_whitespace_changes patch_generator =
     and_then (parse_patchset patch_generator) (\<lambda>ps. Inr (fst (clean_while clean_patch ps)))"

section \<open>Checking files\<close>

record tools =
  uncrustify :: "string \<Rightarrow> string \<Rightarrow> string option"
  unified_diff :: "string \<Rightarrow> string \<Rightarrow> string list"
  apply_patch :: "string \<Rightarrow> string \<Rightarrow> string"

text \<open>
  \<open>indent\<close> returns the content of the temporary file it produces. The diff is a generator:
  writing it to the initial diff file in debug mode uses it up, and what is read from it
  afterwards is empty.
\<close>

definition indent :: "tools \<Rightarrow> string \<Rightarrow> bool \<Rightarrow> int \<Rightarrow> string res" where
  "indent tools source debug level =
     (case uncrustify tools (uncrustify_config_file level) source of
        None \<Rightarrow> Inl (OtherException ''uncrustify not installed'')
      | Some out \<Rightarrow>
          (let diff = unified_diff tools source out;
               diff = (if debug then [] else diff)
           in and_then
             (if level < 3 then
                and_then (remove_trailing_whitespace_changes diff) (\<lambda>ps.
                  if ps \<noteq> [] then and_then (write_patch (hd ps)) (\<lambda>w. Inr (concat w)) else Inr [])
              else Inr (concat diff))
             (\<lambda>final_diff. Inr (apply_patch tools final_diff source))))"

type_synonym files = "(string, string) dict"

record outcome =
  verdict :: bool
  file_system :: files
  reported :: "string list"

definition indent_all :: "tools \<Rightarrow> files \<Rightarrow> string list \<Rightarrow> bool \<Rightarrow> int \<Rightarrow> (string \<times> string) list res" where
  "indent_all tools fs names debug level =
     for_each (\<lambda>output f.
       case map_of fs f of
         None \<Rightarrow> Inl (OtherException ''IOError'')
       | Some src \<Rightarrow> and_then (indent tools src debug level) (\<lambda>dst. Inr (output @ [(f, dst)]))) [] names"

definition indent_files ::
  "tools \<Rightarrow> files \<Rightarrow> string list \<Rightarrow> bool \<Rightarrow> bool \<Rightarrow> int \<Rightarrow> bool \<Rightarrow> outcome res" where
  "indent_files tools fs names diff debug level inplace =
     and_then (indent_all tools fs names debug level) (\<lambda>output.
       if inplace then
         Inr \<lparr>verdict = True,
              file_system = foldl (\<lambda>fs (src, dst). AList.update src dst fs) fs output, reported = []\<rparr>
       else
         (let failed = filter (\<lambda>(src, dst). map_of fs src \<noteq> Some dst) output
          in Inr \<lparr>verdict = (failed = []), file_system = fs,
              reported = (if failed = [] then []
                else if \<not> diff then (''Found '' @ show_nat (length failed) @ '' badly indented files:'')
                  # map (\<lambda>(src, _). ''  '' @ src) failed
                else concat (map (\<lambda>(src, dst). case map_of fs src of Some s \<Rightarrow> unified_diff tools s dst | None \<Rightarrow> []) failed))\<rparr>))"

record style_options =
  opt_git :: bool
  opt_file :: string
  opt_diff :: bool
  opt_debug :: bool
  opt_level :: int
  opt_in_place :: bool

text \<open>
  \<open>run_as_main\<close> with the guard around it: the exit status and what was printed.
  \<open>modified\<close> is what \<open>git_modified_files\<close> returns.
\<close>

definition run_as_main :: "tools \<Rightarrow> files \<Rightarrow> string list \<Rightarrow> style_options \<Rightarrow> int \<times> string list" where
  "run_as_main tools fs modified opts =
     (let check = (\<lambda>names. indent_files tools fs names (opt_diff opts) (opt_debug opts) (opt_level opts) (opt_in_place opts));
          finish = (\<lambda>r. case r of
              Inl e \<Rightarrow> (1, [])
            | Inr out \<Rightarrow> (if verdict out then 0 else 1, reported out))
      in if opt_git opts then finish (check modified)
         else if opt_file opts \<noteq> [] then
           (if map_of fs (opt_file opts) = None then (1, [''file '' @ opt_file opts @ '' does not exist''])
            else finish (check [opt_file opts]))
         else (1, []))"

section \<open>Printing and parsing patches\<close>

definition one_line :: "string \<Rightarrow> bool" where
  "one_line s \<longleftrightarrow> CHR 0x0A \<notin> set s"

definition wf_line :: "patch_line \<Rightarrow> bool" where
  "wf_line l \<longleftrightarrow> line_type l \<noteq> NoType \<and> one_line (line l)
     \<and> (line_type l = SRC \<longrightarrow> \<not> startswith (line l) ''-- '')
     \<and> (line_type l = DST \<longrightarrow> \<not> startswith (line l) ''++ '')"

definition wf_patch :: "patch \<Rightarrow> bool" where
  "wf_patch p \<longleftrightarrow> one_line (patch_src p) \<and> one_line (patch_dst p)
     \<and> (\<forall>c\<in>set (chunks p). \<forall>l\<in>set (chunk_lines c). wf_line l)"

lemma line_body_newline: "one_line s \<Longrightarrow> line_body (s @ newline) = Some s"
  by (simp add: line_body_def one_line_def endswith_def newline_def)

lemma match_prefix_line:
  "one_line s \<Longrightarrow> match_prefix p (s @ newline) = (if startswith s p then Some (drop (length p) s) else None)"
  by (simp add: match_prefix_def line_body_newline)

lemma not_digit [simp]: "\<not> is_digit (CHR '','')" "\<not> is_digit (CHR '' '')"
  by (simp_all add: is_digit_def)

lemma chunk_start_header: "chunk_start (chunk_header c) = Some (src_pos c, dst_pos c)"
proof -
  have e: "eat [x] (x # s) = Some s" "eat [x, y] (x # y # s) = Some s" "eat [x, y, z] (x # y # z # s) = Some s"
    "eat [x, y, z, w] (x # y # z # w # s) = Some s" for x y z w s
    by (simp_all add: eat_def)
  show ?thesis by (simp add: chunk_start_def chunk_header_def eat_number_show e)
qed

lemma header_no_match:
  "match_prefix ''--- '' (chunk_header c) = None" "match_prefix ''+++ '' (chunk_header c) = None"
proof -
  have "\<not> startswith b ''--- '' \<and> \<not> startswith b ''+++ ''" if "line_body (chunk_header c) = Some b" for b
  proof -
    obtain t where t: "chunk_header c = ''@@'' @ t @ newline"
      by (simp add: chunk_header_def newline_def)
    then have "b = ''@@'' @ t" using that by (auto simp: line_body_def endswith_def newline_def split: if_splits)
    then show ?thesis by simp
  qed
  then show "match_prefix ''--- '' (chunk_header c) = None" "match_prefix ''+++ '' (chunk_header c) = None"
    by (auto simp: match_prefix_def split: option.splits)
qed

lemma write_line_ok:
  assumes "wf_line l"
  shows "\<exists>w. write_line l = Inr w \<and> parse_line s w = add_line l s"
proof -
  obtain k t where l: "l = \<lparr>line_type = k, line = t\<rparr>" by (cases l)
  have t: "one_line t" "one_line (CHR ''-'' # t)" "one_line (CHR ''+'' # t)" "one_line (CHR '' '' # t)"
    using assms by (simp_all add: wf_line_def l one_line_def)
  have cs: "chunk_start (c # r) = None" if "c \<noteq> CHR ''@''" for c r
    using that by (simp add: chunk_start_def eat_def)
  note m = match_prefix_line [OF t(2), simplified] match_prefix_line [OF t(3), simplified]
    match_prefix_line [OF t(4), simplified]
  show ?thesis
    using assms by (cases k) (auto simp: l wf_line_def write_line_def parse_line_def m cs set_src_def set_dst_def set_both_def)
qed

lemma add_line_at_last:
  "add_line_at (length ps, length cs) l (ps @ [\<lparr>patch_src = a, patch_dst = b, chunks = cs @ [c]\<rparr>])
     = ps @ [\<lparr>patch_src = a, patch_dst = b, chunks = cs @ [add_to_chunk l c]\<rparr>]"
  by (simp add: add_line_at_def Let_def list_update_append nth_append)

lemma parse_lines:
  assumes "\<forall>l\<in>set ls. wf_line l"
  shows "\<exists>ws. write_all write_line ls = Inr ws \<and>
    for_each parse_line \<lparr>patchset = ps @ [\<lparr>patch_src = a, patch_dst = b, chunks = cs @ [c]\<rparr>],
        current_chunk = Some (length ps, length cs)\<rparr> ws
    = Inr \<lparr>patchset = ps @ [\<lparr>patch_src = a, patch_dst = b, chunks = cs @ [c\<lparr>chunk_lines := chunk_lines c @ ls\<rparr>]\<rparr>],
        current_chunk = Some (length ps, length cs)\<rparr>"
  using assms
proof (induction ls arbitrary: c)
  case Nil
  then show ?case by simp
next
  case (Cons l ls)
  let ?s = "\<lambda>c. \<lparr>patchset = ps @ [\<lparr>patch_src = a, patch_dst = b, chunks = cs @ [c]\<rparr>],
        current_chunk = Some (length ps, length cs)\<rparr>"
  have "wf_line l" "\<forall>l\<in>set ls. wf_line l" using Cons.prems by simp_all
  from write_line_ok [OF this(1), of "?s c"] obtain w where
    w: "write_line l = Inr w" "parse_line (?s c) w = Inr (?s (add_to_chunk l c))"
    by (auto simp: add_line_def add_line_at_last)
  from Cons.IH [OF \<open>\<forall>l\<in>set ls. wf_line l\<close>, of "add_to_chunk l c"] obtain ws where
    "write_all write_line ls = Inr ws"
    "for_each parse_line (?s (add_to_chunk l c)) ws = Inr (?s (c\<lparr>chunk_lines := chunk_lines c @ l # ls\<rparr>))"
    by (auto simp: add_to_chunk_def)
  with w show ?case by simp
qed

lemma parse_chunks:
  assumes "\<forall>c\<in>set cs. \<forall>l\<in>set (chunk_lines c). wf_line l"
  shows "\<exists>wss r'. write_all write_chunk cs = Inr wss \<and>
    for_each parse_line \<lparr>patchset = ps @ [\<lparr>patch_src = a, patch_dst = b, chunks = cs0\<rparr>], current_chunk = r\<rparr> (concat wss)
    = Inr \<lparr>patchset = ps @ [\<lparr>patch_src = a, patch_dst = b, chunks = cs0 @ cs\<rparr>], current_chunk = r'\<rparr>"
  using assms
proof (induction cs arbitrary: cs0 r)
  case Nil
  then show ?case by simp
next
  case (Cons c cs)
  let ?s = "\<lambda>cs r. \<lparr>patchset = ps @ [\<lparr>patch_src = a, patch_dst = b, chunks = cs\<rparr>], current_chunk = r\<rparr>"
  let ?r = "Some (length ps, length cs0)"
  have head: "parse_line (?s cs0 r) (chunk_header c)
      = Inr (?s (cs0 @ [\<lparr>chunk_lines = [], src_pos = src_pos c, dst_pos = dst_pos c\<rparr>]) ?r)"
    by (simp add: parse_line_def header_no_match chunk_start_header update_last_def)
  have "\<forall>l\<in>set (chunk_lines c). wf_line l" using Cons.prems by simp
  from parse_lines [OF this, of ps a b cs0 "\<lparr>chunk_lines = [], src_pos = src_pos c, dst_pos = dst_pos c\<rparr>"]
  obtain ws where ws: "write_all write_line (chunk_lines c) = Inr ws"
    "for_each parse_line (?s (cs0 @ [\<lparr>chunk_lines = [], src_pos = src_pos c, dst_pos = dst_pos c\<rparr>]) ?r) ws
      = Inr (?s (cs0 @ [c]) ?r)" by auto
  have "\<forall>c\<in>set cs. \<forall>l\<in>set (chunk_lines c). wf_line l" using Cons.prems by simp
  from Cons.IH [OF this, of "cs0 @ [c]" ?r] obtain wss r' where
    "write_all write_chunk cs = Inr wss" "for_each parse_line (?s (cs0 @ [c]) ?r) (concat wss) = Inr (?s ((cs0 @ [c]) @ cs) r')"
    by (elim exE conjE)
  moreover have "write_chunk c = Inr (chunk_header c # ws)" by (simp add: write_chunk_def ws(1))
  ultimately show ?case using head ws(2) by (simp add: for_each_append)
qed

lemma parse_patch:
  assumes "wf_patch p"
  shows "\<exists>ws r'. write_patch p = Inr ws \<and>
    for_each parse_line \<lparr>patchset = ps, current_chunk = r\<rparr> ws = Inr \<lparr>patchset = ps @ [p], current_chunk = r'\<rparr>"
proof -
  obtain a b cs where p: "p = \<lparr>patch_src = a, patch_dst = b, chunks = cs\<rparr>" by (cases p)
  have ab: "one_line (''--- '' @ a)" "one_line (''+++ '' @ b)" "\<forall>c\<in>set cs. \<forall>l\<in>set (chunk_lines c). wf_line l"
    using assms by (simp_all add: wf_patch_def p one_line_def)
  note m = match_prefix_line [OF ab(1), simplified] match_prefix_line [OF ab(2), simplified]
  from parse_chunks [OF ab(3), of ps a b "[]" r] obtain wss r' where
    "write_all write_chunk cs = Inr wss"
    "for_each parse_line \<lparr>patchset = ps @ [\<lparr>patch_src = a, patch_dst = b, chunks = []\<rparr>], current_chunk = r\<rparr> (concat wss)
      = Inr \<lparr>patchset = ps @ [p], current_chunk = r'\<rparr>" by (auto simp: p)
  then show ?thesis
    by (auto simp: write_patch_def parse_line_def m update_last_def p)
qed

text \<open>
  C11. Parsing what the patches write gives the patches back, with their files, positions and
  lines, when no name or line contains a newline, no removed line begins with two dashes and a
  blank, and no added line with two plus signs and a blank.
\<close>
theorem write_parse_patchset:
  assumes "\<forall>p\<in>set ps. wf_patch p"
  shows "\<exists>wss. write_all write_patch ps = Inr wss \<and> parse_patchset (concat wss) = Inr ps"
proof -
  have "\<exists>wss r'. write_all write_patch ps = Inr wss \<and>
      for_each parse_line \<lparr>patchset = ps0, current_chunk = r\<rparr> (concat wss) = Inr \<lparr>patchset = ps0 @ ps, current_chunk = r'\<rparr>"
    for ps0 r
    using assms
  proof (induction ps arbitrary: ps0 r)
    case (Cons p ps)
    then have "wf_patch p" "\<forall>p\<in>set ps. wf_patch p" by simp_all
    from parse_patch [OF this(1), of ps0 r] obtain ws r1 where
      1: "write_patch p = Inr ws" "for_each parse_line \<lparr>patchset = ps0, current_chunk = r\<rparr> ws
          = Inr \<lparr>patchset = ps0 @ [p], current_chunk = r1\<rparr>" by blast
    from Cons.IH [OF \<open>\<forall>p\<in>set ps. wf_patch p\<close>, of "ps0 @ [p]" r1] obtain wss r2 where
      "write_all write_patch ps = Inr wss" "for_each parse_line \<lparr>patchset = ps0 @ [p], current_chunk = r1\<rparr> (concat wss)
          = Inr \<lparr>patchset = (ps0 @ [p]) @ ps, current_chunk = r2\<rparr>" by blast
    with 1 show ?case by (simp add: for_each_append)
  qed simp
  from this [of "[]" None] show ?thesis by (auto simp: parse_patchset_def)
qed

theorem write_parse_patchset_witness:
  "\<exists>wss. write_all write_patch [\<lparr>patch_src = ''a.cc'', patch_dst = ''b.cc'',
      chunks = [\<lparr>chunk_lines = [set_both ''x'', set_src ''y '', set_dst ''y''], src_pos = 12, dst_pos = 12\<rparr>]\<rparr>] = Inr wss
    \<and> parse_patchset (concat wss) = Inr [\<lparr>patch_src = ''a.cc'', patch_dst = ''b.cc'',
      chunks = [\<lparr>chunk_lines = [set_both ''x'', set_src ''y '', set_dst ''y''], src_pos = 12, dst_pos = 12\<rparr>]\<rparr>]"
  by (rule write_parse_patchset)
    (simp add: wf_patch_def wf_line_def one_line_def set_both_def set_src_def set_dst_def)


section \<open>Trailing white space is put back\<close>

text \<open>
  What cleaning may do to a line: nothing, or append to a destination line one blank or tab,
  which makes it equal to a source line of the chunk.
\<close>

definition line_cleaned :: "patch_line list \<Rightarrow> patch_line \<Rightarrow> patch_line \<Rightarrow> bool" where
  "line_cleaned ls l l' \<longleftrightarrow> l' = l \<or> (is_dst l \<and> (\<exists>w. (w = CHR '' '' \<or> w = CHR 0x09) \<and> l' = append_to_line [w] l))"

definition lines_cleaned :: "patch_line list \<Rightarrow> patch_line list \<Rightarrow> bool" where
  "lines_cleaned ls ls' \<longleftrightarrow> length ls' = length ls \<and> (\<forall>k<length ls. line_cleaned ls (ls ! k) (ls' ! k))"

lemma append_to_line_type [simp]:
  "line_type (append_to_line s l) = line_type l" "is_src (append_to_line s l) = is_src l"
  "is_dst (append_to_line s l) = is_dst l" "line (append_to_line s l) = line l @ s"
  by (simp_all add: append_to_line_def is_src_def is_dst_def)

lemma whitespace_match_Some:
  "whitespace_match s = Some (t, w) \<longleftrightarrow> (\<exists>c. (c = CHR '' '' \<or> c = CHR 0x09) \<and> w = [c] \<and> s = t @ [c] \<and> CHR 0x0A \<notin> set t)"
  by (cases s rule: rev_cases) (auto simp: whitespace_match_def)

lemma clean_pair_other: "k \<noteq> d \<Longrightarrow> clean_pair s d ls ! k = ls ! k"
  by (simp add: clean_pair_def split: option.splits)

lemma clean_pair_at: "d < length ls \<Longrightarrow> is_dst (ls ! d) \<Longrightarrow> line_cleaned ls (ls ! d) (clean_pair s d ls ! d)"
  by (auto simp: clean_pair_def line_cleaned_def whitespace_match_Some split: option.splits)

lemma length_clean_pair [simp]: "length (clean_pair s d ls) = length ls"
  by (simp add: clean_pair_def split: option.splits)

lemma length_pair_loop: "length (fst (pair_loop ss ds ls)) = length ls"
  by (induction ss ds ls rule: pair_loop.induct) auto

lemma pair_loop_other: "k \<notin> set ds \<Longrightarrow> fst (pair_loop ss ds ls) ! k = ls ! k"
  by (induction ss ds ls rule: pair_loop.induct)
    (auto simp: clean_pair_other)

lemma pair_loop_cleaned:
  assumes "distinct ds" and "\<forall>d\<in>set ds. d < length ls \<and> is_dst (ls ! d)" and "k < length ls"
  shows "line_cleaned ls (ls ! k) (fst (pair_loop ss ds ls) ! k)"
  using assms
proof (induction ss ds ls rule: pair_loop.induct)
  case (3 s ss d ds ls)
  let ?ls = "clean_pair s d ls"
  show ?case
  proof (cases "k = d")
    case True
    then have "k \<notin> set ds" using "3.prems"(1) by simp
    then show ?thesis
      using clean_pair_at [of d ls s] "3.prems"(2) True by (simp add: pair_loop_other)
  next
    case False
    have "\<forall>d'\<in>set ds. d' < length ?ls \<and> is_dst (?ls ! d')"
    proof
      fix d' assume d': "d' \<in> set ds"
      then have "d' \<noteq> d" using "3.prems"(1) by auto
      then show "d' < length ?ls \<and> is_dst (?ls ! d')" using "3.prems"(2) d' by (simp add: clean_pair_other)
    qed
    with 3 have "line_cleaned ?ls (?ls ! k) (fst (pair_loop ss ds ?ls) ! k)" by simp
    then show ?thesis using False by (simp add: clean_pair_other line_cleaned_def)
  qed
qed (simp_all add: line_cleaned_def)

lemma positions_spec: "k \<in> set (positions P xs) \<longleftrightarrow> k < length xs \<and> P (xs ! k)" "distinct (positions P xs)"
  by (auto simp: positions_def)

lemma clean_chunk_cleaned: "lines_cleaned (chunk_lines c) (chunk_lines (fst (clean_chunk c)))"
  unfolding lines_cleaned_def clean_chunk_def
  using length_pair_loop [of "positions is_src (chunk_lines c)" "positions is_dst (chunk_lines c)" "chunk_lines c"]
    pair_loop_cleaned [of "positions is_dst (chunk_lines c)" "chunk_lines c" _ "positions is_src (chunk_lines c)"]
  by (auto simp: case_prod_beta positions_spec)

lemma pair_loop_restores:
  assumes "distinct ds" and "i < length ss" and "i < length ds" and "\<forall>d\<in>set ds. d < length ls"
    and "ss ! i \<notin> set ds" and "line (ls ! (ss ! i)) = line (ls ! (ds ! i)) @ [w]"
    and "w = CHR '' '' \<or> w = CHR 0x09" and "CHR 0x0A \<notin> set (line (ls ! (ds ! i)))"
  shows "line (fst (pair_loop ss ds ls) ! (ds ! i)) = line (ls ! (ss ! i))"
  using assms
proof (induction ss ds ls arbitrary: i rule: pair_loop.induct)
  case (3 s ss d ds ls)
  show ?case
  proof (cases i)
    case 0
    have "whitespace_match (line (ls ! s)) = Some (line (ls ! d), [w])"
      using "3.prems" 0 by (simp add: whitespace_match_Some)
    then have "clean_pair s d ls = ls[d := append_to_line [w] (ls ! d)]" by (simp add: clean_pair_def)
    then show ?thesis
      using "3.prems" 0 by (simp add: pair_loop_other)
  next
    case (Suc j)
    let ?ls = "clean_pair s d ls"
    have ne: "ds ! j \<noteq> d" "ss ! j \<noteq> d" using "3.prems" Suc by auto
    then have same: "?ls ! (ds ! j) = ls ! (ds ! j)" "?ls ! (ss ! j) = ls ! (ss ! j)"
      by (simp_all add: clean_pair_other)
    have "line (fst (pair_loop ss ds ?ls) ! (ds ! j)) = line (?ls ! (ss ! j))"
      using "3.prems" Suc same by (intro "3.IH") auto
    then show ?thesis using Suc same by simp
  qed
qed auto

text \<open>
  Cleaning a chunk changes nothing but destination lines, and those only by one blank or
  tab at the end; where the i-th source line, a removed line, is the i-th destination line
  with one blank or tab more, the destination line becomes equal to it.
\<close>
theorem clean_chunk_restores:
  assumes "i < src_len c" and "i < dst_len c"
    and "l = chunk_lines c ! (positions is_src (chunk_lines c) ! i)" and "line_type l = SRC"
    and "m = positions is_dst (chunk_lines c) ! i"
    and "line l = line (chunk_lines c ! m) @ [w]" and "w = CHR '' '' \<or> w = CHR 0x09" and "one_line (line l)"
  shows "lines_cleaned (chunk_lines c) (chunk_lines (fst (clean_chunk c)))
    \<and> line (chunk_lines (fst (clean_chunk c)) ! m) = line l"
proof -
  let ?ls = "chunk_lines c"
  have len: "length (positions P xs) = length (filter P xs)" for P and xs :: "patch_line list"
  proof -
    have "filter P xs = map ((!) xs) (positions P xs)"
      using filter_map [of P "(!) xs" "[0..<length xs]"] by (simp add: map_nth positions_def comp_def)
    then show ?thesis by simp
  qed
  have src: "positions is_src ?ls ! i < length ?ls" "is_src l"
    using assms(1,3) positions_spec(1) [of _ is_src ?ls] nth_mem [of i "positions is_src ?ls"]
    by (auto simp: src_len_def chunk_src_def len)
  have "positions is_src ?ls ! i \<notin> set (positions is_dst ?ls)"
    using assms(3,4) by (auto simp: positions_spec is_dst_def)
  then have "line (fst (pair_loop (positions is_src ?ls) (positions is_dst ?ls) ?ls) ! m) = line l"
    using assms unfolding assms(3,5)
    by (intro pair_loop_restores [where w = w])
      (auto simp: positions_spec src_len_def dst_len_def chunk_src_def chunk_dst_def len one_line_def)
  then show ?thesis
    using clean_chunk_cleaned [of c] by (simp add: clean_chunk_def case_prod_beta)
qed

theorem clean_chunk_restores_witness:
  "line (chunk_lines (fst (clean_chunk \<lparr>chunk_lines = [set_src ''x '', set_dst ''x''], src_pos = 1, dst_pos = 1\<rparr>)) ! 1)
     = ''x ''"
proof -
  let ?c = "\<lparr>chunk_lines = [set_src ''x '', set_dst ''x''], src_pos = 1, dst_pos = 1\<rparr>"
  have pos: "positions is_src (chunk_lines ?c) = [0]" "positions is_dst (chunk_lines ?c) = [1]" by code_simp+
  show ?thesis
    using clean_chunk_restores [of 0 ?c "set_src ''x ''" 1 "CHR '' ''"] pos
    by (simp add: src_len_def dst_len_def chunk_src_def chunk_dst_def is_src_def is_dst_def set_src_def set_dst_def one_line_def)
qed

text \<open>
  Two blanks at the end of a removed line are not put back on the added line without
  them: the pattern's first group takes all blanks but the last.
\<close>
theorem two_blanks_kept_as_change:
  "remove_trailing_whitespace_changes [''--- a'' @ newline, ''+++ b'' @ newline, ''@@ -1,1 +1,1 @@'' @ newline,
      ''-x  '' @ newline, ''+x'' @ newline]
   = Inr [\<lparr>patch_src = ''a'', patch_dst = ''b'',
        chunks = [\<lparr>chunk_lines = [set_src ''x  '', set_dst ''x''], src_pos = 1, dst_pos = 1\<rparr>]\<rparr>]
   \<and> remove_trailing_whitespace_changes [''--- a'' @ newline, ''+++ b'' @ newline, ''@@ -1,1 +1,1 @@'' @ newline,
      ''-x '' @ newline, ''+x'' @ newline]
   = Inr [\<lparr>patch_src = ''a'', patch_dst = ''b'',
        chunks = [\<lparr>chunk_lines = [set_src ''x '', set_dst ''x ''], src_pos = 1, dst_pos = 1\<rparr>]\<rparr>]"
  by (rule conjI; code_simp)

text \<open>
  The parser rejects the header of a chunk whose source range has one line: such a range
  is written without a comma and a count, and the line matches no pattern.
\<close>
theorem one_line_hunk_rejected:
  "parse_line s (''@@ -'' @ show_nat n @ '' +'' @ rest) = Inl (OtherException [])"
proof -
  let ?l = "''@@ -'' @ show_nat n @ '' +'' @ rest"
  have "match_prefix (c # p) ?l = None" if "c \<noteq> CHR ''@''" for c p
    using that by (cases "endswith ?l newline") (auto simp: match_prefix_def line_body_def Let_def split: if_splits)
  moreover have "chunk_start ?l = None"
  proof -
    have "eat ''@@ -'' ?l = Some (show_nat n @ '' +'' @ rest)" using eat_append [of "''@@ -''"] by simp
    moreover have "eat_number (show_nat n @ '' +'' @ rest) = Some (n, '' +'' @ rest)"
      by (rule eat_number_show) simp
    moreover have "eat '','' ('' +'' @ rest) = None" by (simp add: eat_def)
    ultimately show ?thesis by (simp add: chunk_start_def del: append_Cons)
  qed
  ultimately show ?thesis by (simp add: parse_line_def del: append_Cons append_Nil)
qed

section \<open>The check\<close>

lemma indent_debug:
  assumes "uncrustify tools (uncrustify_config_file level) source \<noteq> None"
    and "\<And>c. apply_patch tools [] c = c"
  shows "indent tools source True level = Inr source"
  using assms by (auto simp: indent_def remove_trailing_whitespace_changes_def parse_patchset_def)

lemma indent_all_spec:
  "indent_all tools fs names debug level = Inr outs \<longleftrightarrow>
     map fst outs = names
     \<and> (\<forall>(f, dst)\<in>set outs. \<exists>src. map_of fs f = Some src \<and> indent tools src debug level = Inr dst)"
proof -
  have "for_each (\<lambda>outs f. case map_of fs f of None \<Rightarrow> Inl (OtherException ''IOError'')
       | Some src \<Rightarrow> and_then (indent tools src debug level) (\<lambda>dst. Inr (outs @ [(f, dst)]))) acc names = Inr outs
    \<longleftrightarrow> (\<exists>out. outs = acc @ out \<and> map fst out = names
     \<and> (\<forall>(f, dst)\<in>set out. \<exists>src. map_of fs f = Some src \<and> indent tools src debug level = Inr dst))" for acc
  proof (induction names arbitrary: acc)
    case (Cons f names)
    show ?case
    proof (cases "map_of fs f")
      case None
      then show ?thesis by auto
    next
      case (Some src)
      then show ?thesis
        by (cases "indent tools src debug level") (auto simp: Cons.IH Cons_eq_map_conv)
    qed
  qed auto
  from this [of "[]"] show ?thesis by (simp add: indent_all_def)
qed

text \<open>
  When a check (not in place) completes, its verdict is True exactly when for every
  file the tools would produce what the file already contains; it then reports nothing and
  never touches the files. In place, every named file ends up with what the tools produce.
\<close>
theorem indent_files_verdict:
  assumes "indent_files tools fs names diff debug level inplace = Inr out"
  shows "if inplace then verdict out \<and> (distinct names \<longrightarrow> (\<forall>f\<in>set names. \<exists>src dst. map_of fs f = Some src
        \<and> indent tools src debug level = Inr dst \<and> map_of (file_system out) f = Some dst))
    else file_system out = fs \<and> (verdict out \<longrightarrow> reported out = [])
      \<and> (verdict out \<longleftrightarrow> (\<forall>f\<in>set names. \<exists>src. map_of fs f = Some src \<and> indent tools src debug level = Inr src))"
proof -
  from assms obtain outs where all: "indent_all tools fs names debug level = Inr outs"
    by (auto simp: indent_files_def res_simps)
  then have out: "map fst outs = names"
    "\<forall>(f, dst)\<in>set outs. \<exists>src. map_of fs f = Some src \<and> indent tools src debug level = Inr dst"
    by (simp_all add: indent_all_spec)
  show ?thesis
  proof (cases inplace)
    case True
    have "\<exists>src dst. map_of fs f = Some src \<and> indent tools src debug level = Inr dst \<and> map_of (file_system out) f = Some dst"
      if "distinct names" "f \<in> set names" for f
    proof -
      from that(2) out(1) obtain dst where mem: "(f, dst) \<in> set outs" by auto
      have "distinct (map fst (rev outs))" using that(1) out(1) by (simp add: rev_map [symmetric])
      then have "map_of (rev outs) f = Some dst" using mem by (simp add: map_of_eq_Some_iff)
      moreover have "map_of (foldl (\<lambda>d (k, v). AList.update k v d) fs outs) f
          = (case map_of (rev outs) f of None \<Rightarrow> map_of fs f | Some v \<Rightarrow> Some v)"
        by (induction outs arbitrary: fs) (auto simp: update_conv' map_add_def split: option.splits)
      ultimately show ?thesis
        using assms all True out(2) mem by (auto simp: indent_files_def)
    qed
    then show ?thesis using assms all True by (auto simp: indent_files_def)
  next
    case False
    let ?failed = "filter (\<lambda>(src, dst). map_of fs src \<noteq> Some dst) outs"
    have v: "verdict out \<longleftrightarrow> ?failed = []" "file_system out = fs" "?failed = [] \<Longrightarrow> reported out = []"
      using assms all False by (auto simp: indent_files_def Let_def)
    have "?failed = [] \<longleftrightarrow> (\<forall>(f, dst)\<in>set outs. map_of fs f = Some dst)"
      by (auto simp: filter_empty_conv)
    also have "\<dots> \<longleftrightarrow> (\<forall>f\<in>set names. \<exists>src. map_of fs f = Some src \<and> indent tools src debug level = Inr src)"
      using out by (fastforce simp: image_iff)
    finally show ?thesis using v False by auto
  qed
qed

theorem indent_files_verdict_witness:
  "\<exists>out. indent_files \<lparr>uncrustify = (\<lambda>_ s. Some s), unified_diff = (\<lambda>_ _. []), apply_patch = (\<lambda>_ s. s)\<rparr>
      [(''a.cc'', ''x'')] [''a.cc''] False False 0 False = Inr out \<and> verdict out"
proof -
  let ?t = "\<lparr>uncrustify = (\<lambda>_ s. Some s), unified_diff = (\<lambda>_ _. []), apply_patch = (\<lambda>_ s. s)\<rparr>"
  have i: "indent ?t s False 0 = Inr s" for s
    by (simp add: indent_def remove_trailing_whitespace_changes_def parse_patchset_def)
  then have "indent_all ?t [(''a.cc'', ''x'')] [''a.cc''] False 0 = Inr [(''a.cc'', ''x'')]"
    by (simp add: indent_all_spec)
  then obtain out where "indent_files ?t [(''a.cc'', ''x'')] [''a.cc''] False False 0 False = Inr out"
    by (auto simp: indent_files_def Let_def)
  with indent_files_verdict [OF this] i show ?thesis by auto
qed

text \<open>
  With \<open>--debug\<close>, writing the initial diff uses up the generator of the diff, so the
  final diff is empty: provided uncrustify is installed and patch leaves a file alone when the
  diff is empty, every check succeeds, whatever uncrustify would change.
\<close>
theorem debug_check_always_succeeds:
  assumes "\<And>s. uncrustify tools (uncrustify_config_file level) s \<noteq> None"
    and "\<And>c. apply_patch tools [] c = c"
    and "\<forall>f\<in>set names. map_of fs f \<noteq> None"
  shows "\<exists>out. indent_files tools fs names diff True level False = Inr out \<and> verdict out"
proof -
  have i: "indent tools s True level = Inr s" for s using assms(1,2) by (rule indent_debug)
  have "indent_all tools fs names True level = Inr (map (\<lambda>f. (f, the (map_of fs f))) names)"
    using assms(3) by (auto simp: indent_all_spec i comp_def)
  then obtain out where out: "indent_files tools fs names diff True level False = Inr out"
    by (auto simp: indent_files_def Let_def)
  have "verdict out"
    using out assms(3) i \<open>indent_all tools fs names True level = _\<close>
    by (auto simp: indent_files_def Let_def filter_empty_conv)
  with out show ?thesis by blast
qed

theorem debug_check_always_succeeds_witness:
  "\<exists>out. indent_files \<lparr>uncrustify = (\<lambda>_ s. Some []), unified_diff = (\<lambda>_ _. [''x'']), apply_patch = (\<lambda>d s. if d = [] then s else [])\<rparr>
      [(''a.cc'', ''x'')] [''a.cc''] False True 0 False = Inr out \<and> verdict out"
  by (rule debug_check_always_succeeds) auto

end
