(* ===== verification/ConfigFile.thy ===== *)
theory ConfigFile
  imports PyStr
begin

text \<open>
  utils.py: reading lists and booleans out of Python-like configuration files, and the
  .ns3rc file. A file is the list of its lines, an absent file is None. Python's \<open>eval\<close> is
  a parameter: \<open>eval_list\<close> for lists of strings and \<open>eval_bool\<close> for booleans.
\<close>

section \<open>Definitions\<close>

text \<open>The part of a line before the first \<open>#\<close>; the line itself when there is none.\<close>

definition remove_comment :: "string \<Rightarrow> string" where
  "remove_comment l = (if CHR ''#'' \<in> set l then hd (split1 (CHR ''#'') l) else l)"

text \<open>\<open>s.split('=', 1)[1].strip()\<close>.\<close>

definition right_side :: "string \<Rightarrow> string res" where
  "right_side s = and_then (py_nth (split1 (CHR ''='') s) 1) (\<lambda>r. Inr (strip r))"

text \<open>
  The loop over the lines: the value is the text to evaluate, if the end of the list was
  found. The loop goes on with the next line as long as no \<open>]\<close> was read.
\<close>

fun find_list :: "string \<Rightarrow> bool \<Rightarrow> string \<Rightarrow> string list \<Rightarrow> string option res" where
  "find_list list_name parsing list_string [] = Inr None"
| "find_list list_name parsing list_string (l # ls) =
     (let l' = remove_comment l
      in if contains l' list_name \<or> parsing then
           (let list_string' = list_string @ l'
            in if CHR '']'' \<notin> set list_string' then find_list list_name True list_string' ls
               else and_then (right_side list_string') (\<lambda>e. Inr (Some e)))
         else find_list list_name parsing list_string ls)"

definition get_list_from_file ::
  "(string \<Rightarrow> 'a list res) \<Rightarrow> string list option \<Rightarrow> string \<Rightarrow> 'a list res" where
  "get_list_from_file eval_list file list_name =
     (case file of
        None \<Rightarrow> Inr []
      | Some ls \<Rightarrow> and_then (find_list list_name False [] ls)
          (\<lambda>r. case r of None \<Rightarrow> Inr [] | Some e \<Rightarrow> eval_list e))"

fun find_bool :: "(string \<Rightarrow> bool res) \<Rightarrow> string \<Rightarrow> string list \<Rightarrow> bool option res" where
  "find_bool eval_bool bool_name [] = Inr None"
| "find_bool eval_bool bool_name (l # ls) =
     (let l' = remove_comment l
      in if contains l' bool_name then
           and_then (right_side l') (\<lambda>e. and_then (eval_bool e) (\<lambda>b. Inr (Some b)))
         else find_bool eval_bool bool_name ls)"

text \<open>\<open>bool_found\<close> is assigned only when the file exists, but read in any case.\<close>

definition get_bool_from_file ::
  "(string \<Rightarrow> bool res) \<Rightarrow> string list option \<Rightarrow> string \<Rightarrow> bool \<Rightarrow> bool res" where
  "get_bool_from_file eval_bool file bool_name value_if_missing =
     (case file of
        None \<Rightarrow> Inl UnboundLocalError
      | Some ls \<Rightarrow> and_then (find_bool eval_bool bool_name ls)
          (\<lambda>r. Inr (case r of None \<Rightarrow> value_if_missing | Some b \<Rightarrow> b)))"

record ns3rc =
  config_file_exists :: bool
  modules_enabled :: "string list"
  examples_enabled :: bool
  tests_enabled :: bool

definition read_config_file ::
  "(string \<Rightarrow> string list res) \<Rightarrow> (string \<Rightarrow> bool res) \<Rightarrow> (string \<Rightarrow> string list option) \<Rightarrow> string \<Rightarrow> ns3rc res" where
  "read_config_file eval_list eval_bool files home =
     (let local_path = ''.ns3rc''; home_path = home @ ''.ns3rc'';
          path = (if files local_path = None then home_path else local_path)
      in if files path = None then
           Inr \<lparr>config_file_exists = False, modules_enabled = [''all_modules''],
                examples_enabled = False, tests_enabled = False\<rparr>
         else
           and_then (get_list_from_file eval_list (files path) ''modules_enabled'') (\<lambda>modules.
           and_then (get_bool_from_file eval_bool (files path) ''examples_enabled'' False) (\<lambda>examples.
           and_then (get_bool_from_file eval_bool (files path) ''tests_enabled'' False) (\<lambda>tests.
             Inr \<lparr>config_file_exists = True,
                  modules_enabled = (if modules = [] then [''all_modules''] else modules),
                  examples_enabled = examples, tests_enabled = tests\<rparr>))))"

section \<open>Reading lists\<close>

lemma find_list_skip:
  "\<forall>l\<in>set pre. \<not> contains (remove_comment l) list_name \<Longrightarrow>
     find_list list_name False acc (pre @ ls) = find_list list_name False acc ls"
  by (induction pre) (auto simp: Let_def)

lemma find_list_collect:
  assumes "\<forall>l\<in>set body. CHR '']'' \<notin> set (remove_comment l)" and "CHR '']'' \<notin> set acc"
    and "CHR '']'' \<in> set (remove_comment last_line)"
  shows "find_list list_name True acc (body @ last_line # post)
    = and_then (right_side (acc @ concat (map remove_comment (body @ [last_line])))) (\<lambda>e. Inr (Some e))"
  using assms
proof (induction body arbitrary: acc)
  case Nil
  then show ?case by (simp add: Let_def)
next
  case (Cons l body)
  then show ?case by (simp add: Let_def)
qed

lemma remove_comment_prefix: "remove_comment l = takeWhile (\<lambda>c. c \<noteq> CHR ''#'') l"
proof (cases "CHR ''#'' \<in> set l")
  case True
  then have "dropWhile (\<lambda>c. c \<noteq> CHR ''#'') l \<noteq> []" by (auto simp: dropWhile_eq_Nil_conv)
  with True show ?thesis by (auto simp: remove_comment_def split1_def split: list.splits)
next
  case False
  then have "takeWhile (\<lambda>c. c \<noteq> CHR ''#'') l = l" by (induction l) auto
  with False show ?thesis unfolding remove_comment_def by (simp only: if_False)
qed

text \<open>
  A list may be spread over lines and carry comments: when the name first occurs, outside
  comments, on the first of these lines and \<open>]\<close> first on the last of them,
  \<open>get_list_from_file\<close> evaluates what follows the first \<open>=\<close> of the lines without their
  comments; what precedes and follows does not matter.
\<close>
theorem get_list_multiline:
  assumes "\<forall>l\<in>set pre. \<not> contains (remove_comment l) list_name"
    and "body = init @ [last_line]" and "contains (remove_comment (hd body)) list_name"
    and "\<forall>l\<in>set init. CHR '']'' \<notin> set (remove_comment l)" and "CHR '']'' \<in> set (remove_comment last_line)"
    and "concat (map remove_comment body) = name_part @ CHR ''='' # expr" and "CHR ''='' \<notin> set name_part"
  shows "get_list_from_file eval_list (Some (pre @ body @ post)) list_name = eval_list (strip expr)"
proof -
  have rhs: "right_side (concat (map remove_comment body)) = Inr (strip expr)"
  proof -
    have "split1 (CHR ''='') (name_part @ CHR ''='' # expr) = [name_part, expr]"
      using span_neq_append [OF assms(7)] by (simp add: split1_def)
    then show ?thesis using assms(6) by (simp add: right_side_def)
  qed
  have "find_list list_name False [] (body @ post) = and_then (right_side (concat (map remove_comment body))) (\<lambda>e. Inr (Some e))"
  proof (cases init)
    case Nil
    then show ?thesis using assms(2,3,5) by (simp add: Let_def)
  next
    case (Cons l init')
    then show ?thesis
      using assms(2-5) find_list_collect [of init' "remove_comment l" last_line list_name post]
      by (simp add: Let_def)
  qed
  then show ?thesis
    using find_list_skip [OF assms(1), of "[]" "body @ post"] rhs by (simp add: get_list_from_file_def)
qed

theorem get_list_multiline_witness:
  "get_list_from_file (\<lambda>e. Inr [e]) (Some [''# x = [1]'', ''x = [1, # one'', '' 2] '', ''y = [3]'']) ''x''
    = Inr [''[1,  2]'']"
proof -
  have "get_list_from_file (\<lambda>e. Inr [e]) (Some ([''# x = [1]''] @ [''x = [1, # one'', '' 2] ''] @ [''y = [3]''])) ''x''
    = Inr [strip '' [1,  2] '']"
    by (rule get_list_multiline [where init = "[''x = [1, # one'']" and last_line = "'' 2] ''" and name_part = "''x ''"])
      (simp_all add: remove_comment_prefix)
  moreover have "strip '' [1,  2] '' = ''[1,  2]''" by code_simp
  ultimately show ?thesis by simp
qed

text \<open>
  \<open>get_bool_from_file\<close> raises \<open>UnboundLocalError\<close> for a missing file, where its
  documentation promises the default; on an existing file it returns the default exactly as
  documented when no line mentions the name outside a comment.
\<close>
theorem get_bool_missing:
  "get_bool_from_file eval_bool None bool_name d = Inl UnboundLocalError
   \<and> ((\<forall>l\<in>set ls. \<not> contains (remove_comment l) bool_name) \<longrightarrow>
        get_bool_from_file eval_bool (Some ls) bool_name d = Inr d)"
proof -
  have "(\<forall>l\<in>set ls. \<not> contains (remove_comment l) bool_name) \<Longrightarrow> find_bool eval_bool bool_name ls = Inr None"
    by (induction ls) (auto simp: Let_def)
  then show ?thesis by (simp add: get_bool_from_file_def)
qed

theorem get_bool_missing_witness:
  "get_bool_from_file (\<lambda>_. Inr True) (Some [''a = True # b'']) ''b'' False = Inr False"
  using get_bool_missing [of "\<lambda>_. Inr True" "''b''" False "[''a = True # b'']"]
  by (simp add: remove_comment_prefix)

text \<open>
  The defaults of the configuration: without a .ns3rc file in the working or the home
  directory all modules are enabled and examples and tests are not; a file in the working
  directory hides the one in the home directory; and reading never hits the unbound variable
  of \<open>get_bool_from_file\<close>, unless evaluating an expression raises that exception itself.
\<close>
theorem read_config_defaults:
  "(files ''.ns3rc'' = None \<and> files (home @ ''.ns3rc'') = None \<longrightarrow>
      read_config_file ev eb files home = Inr \<lparr>config_file_exists = False,
        modules_enabled = [''all_modules''], examples_enabled = False, tests_enabled = False\<rparr>)
   \<and> (files ''.ns3rc'' = files' ''.ns3rc'' \<and> files ''.ns3rc'' \<noteq> None \<longrightarrow>
        read_config_file ev eb files home = read_config_file ev eb files' home')
   \<and> ((\<forall>e. ev e \<noteq> Inl UnboundLocalError \<and> eb e \<noteq> Inl UnboundLocalError) \<longrightarrow>
        read_config_file ev eb files home \<noteq> Inl UnboundLocalError)"
proof -
  have rhs: "right_side s \<noteq> Inl UnboundLocalError" for s
    by (auto simp: right_side_def res_simps py_nth_def)
  have bools: "find_bool eb n ls \<noteq> Inl UnboundLocalError" if "\<forall>e. eb e \<noteq> Inl UnboundLocalError" for n ls
    using that rhs by (induction ls) (auto simp: Let_def res_simps)
  have lists: "find_list n p acc ls \<noteq> Inl UnboundLocalError" for n p acc ls
    using rhs by (induction ls arbitrary: p acc) (auto simp: Let_def res_simps)
  have "read_config_file ev eb files home \<noteq> Inl UnboundLocalError"
    if "\<forall>e. ev e \<noteq> Inl UnboundLocalError \<and> eb e \<noteq> Inl UnboundLocalError"
    using that bools lists
    by (auto simp: read_config_file_def Let_def res_simps get_list_from_file_def get_bool_from_file_def
        split: option.splits)
  moreover have "read_config_file ev eb files home = read_config_file ev eb files' home'"
    if "files ''.ns3rc'' = files' ''.ns3rc''" "files ''.ns3rc'' \<noteq> None"
    using that by (auto simp: read_config_file_def Let_def)
  moreover have "files ''.ns3rc'' = None \<and> files (home @ ''.ns3rc'') = None \<Longrightarrow>
      read_config_file ev eb files home = Inr \<lparr>config_file_exists = False,
        modules_enabled = [''all_modules''], examples_enabled = False, tests_enabled = False\<rparr>"
    by (simp add: read_config_file_def)
  ultimately show ?thesis by blast
qed

theorem read_config_defaults_witness:
  "read_config_file (\<lambda>_. Inr []) (\<lambda>_. Inr True) (\<lambda>_. None) ''/root/'' = Inr \<lparr>config_file_exists = False,
     modules_enabled = [''all_modules''], examples_enabled = False, tests_enabled = False\<rparr>"
  using read_config_defaults [of "\<lambda>_. None" "''/root/''" "\<lambda>_. Inr []" "\<lambda>_. Inr True" "\<lambda>_. None" "''/root/''"]
  by simp

end
