(* ===== verification/TestReport.thy ===== *)
theory TestReport
  imports PyStr
begin

text \<open>
  The reports of test.py: \<open>read_test\<close>, \<open>node_to_text\<close>, \<open>translate_to_text\<close> and
  \<open>translate_to_html\<close>, which turn the XML results into text and HTML, and the terminal
  colours. The XML is given as ElementTree presents it; the file written is the list of the
  arguments of \<open>f.write\<close>.
\<close>

section \<open>Colours\<close>

definition escape :: "string \<Rightarrow> string" where
  "escape s = CHR 0x1B # CHR 0x5B # s"

definition colors_lst :: "(string, string) dict" where
  "colors_lst = [(''BOLD'', escape ''01;1m''), (''RED'', escape ''01;31m''), (''GREEN'', escape ''32m''),
     (''YELLOW'', escape ''33m''), (''PINK'', escape ''35m''), (''BLUE'', escape ''01;34m''),
     (''CYAN'', escape ''36m''), (''GREY'', escape ''37m''), (''NORMAL'', escape ''0m''),
     (''cursor_on'', escape ''?25h''), (''cursor_off'', escape ''?25l'')]"

definition get_color :: "bool \<Rightarrow> string \<Rightarrow> string" where
  "get_color use cl = (if use then (case map_of colors_lst cl of Some s \<Rightarrow> s | None \<Rightarrow> []) else [])"

section \<open>XML elements\<close>

datatype xml = Elem (xtag: string) (xattrs: "(string, string) dict") (xtext: "string option") (xkids: "xml list")

definition findall :: "string \<Rightarrow> xml \<Rightarrow> xml list" where
  "findall tag e = filter (\<lambda>c. xtag c = tag) (xkids e)"

definition find_elem :: "string \<Rightarrow> xml \<Rightarrow> xml option" where
  "find_elem tag e = (case findall tag e of [] \<Rightarrow> None | c # _ \<Rightarrow> Some c)"

text \<open>\<open>e.find(tag).text\<close>; \<open>'%s' % None\<close> is \<open>None\<close>.\<close>

definition find_text :: "string \<Rightarrow> xml \<Rightarrow> string option res" where
  "find_text tag e = (case find_elem tag e of None \<Rightarrow> Inl AttributeError | Some c \<Rightarrow> Inr (xtext c))"

definition py_str :: "string option \<Rightarrow> string" where
  "py_str s = (case s of None \<Rightarrow> ''None'' | Some t \<Rightarrow> t)"

record test_info =
  t_result :: "string option"
  t_name :: "string option"
  t_reason :: "string option"
  t_time :: "string option"

definition read_test :: "xml \<Rightarrow> test_info res" where
  "read_test test =
     and_then (find_text ''Result'' test) (\<lambda>result.
     and_then (find_text ''Name'' test) (\<lambda>name.
       Inr \<lparr>t_result = result, t_name = name,
            t_reason = (case find_elem ''Reason'' test of None \<Rightarrow> Some [] | Some r \<Rightarrow> xtext r),
            t_time = (case find_elem ''Time'' test of None \<Rightarrow> Some [] | Some t \<Rightarrow> map_of (xattrs t) ''real'')\<rparr>))"

section \<open>The text report\<close>

type_synonym 'a out = "(string list, 'a) act"

definition write_str :: "string \<Rightarrow> unit out" where
  "write_str s = modify (\<lambda>f. f @ [s])"

definition dq :: "string \<Rightarrow> string" where
  "dq s = CHR 0x22 # s @ [CHR 0x22]"

definition write_field :: "string \<Rightarrow> string \<Rightarrow> string \<Rightarrow> xml \<Rightarrow> unit out" where
  "write_field pre tag post e =
     act_bind (from_res (find_text tag e)) (\<lambda>t. write_str (pre @ py_str t @ post))"

definition write_details :: "xml \<Rightarrow> unit out" where
  "write_details details =
     act_bind (write_str (''    Details:'' @ newline)) (\<lambda>_.
     act_bind (write_field ''      Message:   '' ''Message'' newline details) (\<lambda>_.
     act_bind (write_field ''      Condition: '' ''Condition'' newline details) (\<lambda>_.
     act_bind (write_field ''      Actual:    '' ''Actual'' newline details) (\<lambda>_.
     act_bind (write_field ''      Limit:     '' ''Limit'' newline details) (\<lambda>_.
     act_bind (write_field ''      File:      '' ''File'' newline details) (\<lambda>_.
       write_field ''      Line:      '' ''Line'' newline details))))))"

definition test_line :: "string \<Rightarrow> test_info \<Rightarrow> string" where
  "test_line test_type t =
     (let reason = (case t_reason t of Some (c # cs) \<Rightarrow> Some ('' ('' @ (c # cs) @ '')'') | r \<Rightarrow> r)
      in py_str (t_result t) @ '': Test '' @ test_type @ '' '' @ dq (py_str (t_name t)) @ '' ('' @
         py_str (t_time t) @ '')'' @ py_str reason @ newline)"

fun node_to_text :: "string \<Rightarrow> xml \<Rightarrow> unit out" and cases_to_text :: "xml list \<Rightarrow> unit out" where
  "node_to_text test_type (Elem tag attrs text kids) =
     (let test = Elem tag attrs text kids
      in act_bind (from_res (read_test test)) (\<lambda>t.
         act_bind (write_str (test_line test_type t)) (\<lambda>_.
         act_bind (act_for write_details (findall ''FailureDetails'' test)) (\<lambda>_.
           cases_to_text kids))))"
| "cases_to_text [] = ret ()"
| "cases_to_text (child # kids) =
     (if xtag child = ''Test'' then act_bind (node_to_text ''Case'' child) (\<lambda>_. cases_to_text kids)
      else cases_to_text kids)"

definition example_to_text :: "xml \<Rightarrow> unit out" where
  "example_to_text example =
     act_bind (from_res (find_text ''Result'' example)) (\<lambda>result.
     act_bind (from_res (find_text ''Name'' example)) (\<lambda>name.
       (let time_real = (case find_elem ''Time'' example of None \<Rightarrow> Some [] | Some t \<Rightarrow> map_of (xattrs t) ''real'')
        in write_str (py_str result @ '': Example '' @ dq (py_str name) @ '' ('' @ py_str time_real @ '')'' @ newline))))"

definition translate_to_text :: "xml \<Rightarrow> unit out" where
  "translate_to_text et =
     act_bind (act_for (node_to_text ''Suite'') (findall ''Test'' et)) (\<lambda>_.
       act_for example_to_text (findall ''Example'' et))"

section \<open>The HTML report\<close>

definition ln :: "string \<Rightarrow> string" where
  "ln s = s @ newline"

definition td :: "string option \<Rightarrow> string" where
  "td s = ln (''<td>'' @ py_str s @ ''</td>'')"

definition td_style :: "string \<Rightarrow> string option \<Rightarrow> string" where
  "td_style color s = ln (''<td style='' @ dq (''color:'' @ color) @ ''>'' @ py_str s @ ''</td>'')"

definition suite_header :: "test_info \<Rightarrow> string" where
  "suite_header t =
     (let body = py_str (t_result t) @ '': '' @ py_str (t_name t) @ '' ('' @ py_str (t_time t) @ '')''
      in if t_result t = Some ''PASS'' then ln (''<h3 style='' @ dq ''color:green'' @ ''>'' @ body @ ''</h3>'')
         else if t_result t = Some ''SKIP'' then
           ln (''<h3 style='' @ dq ''color:#ff6600'' @ ''>'' @ body @ '' ('' @ py_str (t_reason t) @ '')</h3>'')
         else ln (''<h3 style='' @ dq ''color:red'' @ ''>'' @ body @ ''</h3>''))"

text \<open>One row for each failure; the row is not closed by \<open></tr>\<close> but by a second \<open></td>\<close>.\<close>

definition failure_row :: "test_info \<Rightarrow> bool \<Rightarrow> xml \<Rightarrow> unit out" where
  "failure_row t first_row details =
     act_bind (write_str (ln ''<tr>'')) (\<lambda>_.
     act_bind (if first_row then
         act_bind (write_str (td_style ''red'' (t_result t))) (\<lambda>_.
         act_bind (write_str (td (t_name t))) (\<lambda>_. write_str (td (t_time t))))
       else
         act_bind (write_str (ln ''<td></td>'')) (\<lambda>_.
         act_bind (write_str (ln ''<td></td>'')) (\<lambda>_. write_str (ln ''<td></td>'')))) (\<lambda>_.
     act_bind (write_str ''<td>'') (\<lambda>_.
     act_bind (write_field ''<b>Message: </b>'' ''Message'' '', '' details) (\<lambda>_.
     act_bind (write_field ''<b>Condition: </b>'' ''Condition'' '', '' details) (\<lambda>_.
     act_bind (write_field ''<b>Actual: </b>'' ''Actual'' '', '' details) (\<lambda>_.
     act_bind (write_field ''<b>Limit: </b>'' ''Limit'' '', '' details) (\<lambda>_.
     act_bind (write_field ''<b>File: </b>'' ''File'' '', '' details) (\<lambda>_.
     act_bind (write_field ''<b>Line: </b>'' ''Line'' [] details) (\<lambda>_.
     act_bind (write_str (ln ''</td>'')) (\<lambda>_. write_str (ln ''</td>'')))))))))))"

fun failure_rows :: "test_info \<Rightarrow> bool \<Rightarrow> xml list \<Rightarrow> unit out" where
  "failure_rows t first_row [] = ret ()"
| "failure_rows t first_row (d # ds) = act_bind (failure_row t first_row d) (\<lambda>_. failure_rows t False ds)"

definition passed_row :: "test_info \<Rightarrow> unit out" where
  "passed_row t =
     act_bind (write_str (ln ''<tr>'')) (\<lambda>_.
     act_bind (write_str (td_style ''green'' (t_result t))) (\<lambda>_.
     act_bind (write_str (td (t_name t))) (\<lambda>_.
     act_bind (write_str (td (t_time t))) (\<lambda>_.
     act_bind (write_str (td (t_reason t))) (\<lambda>_. write_str (ln ''</tr>''))))))"

definition case_to_html :: "xml \<Rightarrow> unit out" where
  "case_to_html c =
     act_bind (from_res (read_test c)) (\<lambda>t.
       if t_result t = Some ''FAIL'' then failure_rows t True (findall ''FailureDetails'' c)
       else passed_row t)"

definition no_details :: "string option \<Rightarrow> bool" where
  "no_details result \<longleftrightarrow> result \<in> set [Some ''CRASH'', Some ''SKIP'', Some ''VALGR'']"

definition table_start :: string where
  "table_start = ln (''<table border='' @ dq ''1'' @ ''>'')"

text \<open>The rest of the table of a suite without details, and of one with details.\<close>

definition short_table :: "test_info \<Rightarrow> unit out" where
  "short_table t =
     act_bind (write_str (ln ''<tr>'')) (\<lambda>_.
     act_bind (write_str (if t_result t = Some ''SKIP'' then td_style ''#ff6600'' (t_result t)
                          else td_style ''red'' (t_result t))) (\<lambda>_.
     act_bind (write_str (ln ''</tr>'')) (\<lambda>_. write_str (ln ''</table>''))))"

definition case_table :: "test_info \<Rightarrow> xml \<Rightarrow> unit out" where
  "case_table t suite =
     act_bind (write_str (ln ''<th>Test Case Name</th>'')) (\<lambda>_.
     act_bind (write_str (ln ''<th> Time </th>'')) (\<lambda>_.
     act_bind (if t_result t = Some ''FAIL'' then write_str (ln ''<th>Failure Details</th>'') else ret ()) (\<lambda>_.
     act_bind (act_for case_to_html (findall ''Test'' suite)) (\<lambda>_.
       write_str (ln ''</table>'')))))"

definition suite_to_html :: "xml \<Rightarrow> unit out" where
  "suite_to_html suite =
     act_bind (from_res (read_test suite)) (\<lambda>t.
     act_bind (write_str (suite_header t)) (\<lambda>_.
     act_bind (write_str table_start) (\<lambda>_.
     act_bind (write_str (ln ''<th> Result </th>'')) (\<lambda>_.
       if no_details (t_result t) then short_table t else case_table t suite))))"

text \<open>The cell of a skipped example ends with \<open></fd>\<close>.\<close>

definition example_to_html :: "xml \<Rightarrow> unit out" where
  "example_to_html example =
     act_bind (write_str (ln ''<tr>'')) (\<lambda>_.
     act_bind (from_res (read_test example)) (\<lambda>t.
     act_bind (write_str
         (if t_result t = Some ''PASS'' then td_style ''green'' (t_result t)
          else if t_result t = Some ''SKIP'' then
            ln (''<td style='' @ dq ''color:#ff6600'' @ ''>'' @ py_str (t_result t) @ ''</fd>'')
          else td_style ''red'' (t_result t))) (\<lambda>_.
     act_bind (write_str (td (t_name t))) (\<lambda>_.
     act_bind (write_str (td (t_time t))) (\<lambda>_.
     act_bind (write_str (td (t_reason t))) (\<lambda>_. write_str (ln ''</tr>'')))))))"

definition translate_to_html :: "xml \<Rightarrow> unit out" where
  "translate_to_html et =
     act_bind (write_str (ln ''<html>'')) (\<lambda>_.
     act_bind (write_str (ln ''<body>'')) (\<lambda>_.
     act_bind (write_str (ln ''<center><h1>ns-3 Test Results</h1></center>'')) (\<lambda>_.
     act_bind (write_str (ln ''<h2>Test Suites</h2>'')) (\<lambda>_.
     act_bind (act_for suite_to_html (findall ''Test'' et)) (\<lambda>_.
     act_bind (write_str (ln ''<h2>Examples</h2>'')) (\<lambda>_.
     act_bind (write_str table_start) (\<lambda>_.
     act_bind (write_str (ln ''<th> Result </th>'')) (\<lambda>_.
     act_bind (write_str (ln ''<th>Example Name</th>'')) (\<lambda>_.
     act_bind (write_str (ln ''<th>Elapsed Time</th>'')) (\<lambda>_.
     act_bind (write_str (ln ''<th>Details</th>'')) (\<lambda>_.
     act_bind (act_for example_to_html (findall ''Example'' et)) (\<lambda>_.
     act_bind (write_str (ln ''</table>'')) (\<lambda>_.
     act_bind (write_str (ln ''</body>'')) (\<lambda>_.
       write_str (ln ''</html>'')))))))))))))))"

section \<open>Counting what is written\<close>

text \<open>
  \<open>shifts w m d\<close>: whenever the action ends normally, the sum of the weights of what is in
  the file has grown by \<open>d\<close>.
\<close>

definition weight_sum :: "(string \<Rightarrow> int) \<Rightarrow> string list \<Rightarrow> int" where
  "weight_sum w f = sum_list (map w f)"

definition shifts :: "(string \<Rightarrow> int) \<Rightarrow> 'a out \<Rightarrow> int \<Rightarrow> bool" where
  "shifts w m d \<longleftrightarrow> (\<forall>f x f'. m f = (Inr x, f') \<longrightarrow> weight_sum w f' = weight_sum w f + d)"

lemma shifts_ret: "shifts w (ret x) 0"
  by (simp add: shifts_def act_simps)

lemma shifts_write: "shifts w (write_str s) (w s)"
  by (simp add: shifts_def write_str_def act_simps weight_sum_def)

lemma shifts_bind: "shifts w m a \<Longrightarrow> (\<And>x. shifts w (f x) b) \<Longrightarrow> shifts w (act_bind m f) (a + b)"
  unfolding shifts_def by (fastforce simp: act_bind_eq_Inr)

lemma shifts_from_res:
  "(\<And>x. r = Inr x \<Longrightarrow> shifts w (f x) d) \<Longrightarrow> shifts w (act_bind (from_res r) f) d"
  by (cases r) (auto simp: shifts_def act_simps)

lemma shifts_for:
  "(\<And>x. x \<in> set xs \<Longrightarrow> shifts w (f x) (d x)) \<Longrightarrow> shifts w (act_for f xs) (\<Sum>x\<leftarrow>xs. d x)"
  by (induction xs) (auto intro: shifts_ret shifts_bind)

lemma shifts_write_then: "shifts w m d \<Longrightarrow> w s = 0 \<Longrightarrow> shifts w (act_bind (write_str s) (\<lambda>_. m)) d"
  using shifts_bind [OF shifts_write, of w "\<lambda>_. m" d s] by simp


lemma shifts_write_field:
  "(\<And>t. w (pre @ t @ post) = 0) \<Longrightarrow> shifts w (write_field pre tag post e) 0"
  unfolding write_field_def by (rule shifts_from_res) (metis shifts_write)

lemma shifts_seq: "shifts w m 0 \<Longrightarrow> shifts w n d \<Longrightarrow> shifts w (act_bind m (\<lambda>_. n)) d"
  using shifts_bind [of w m 0 "\<lambda>_. n" d] by simp

text \<open>Rows and tables: an opening tag weighs 1 and a closing tag -1.\<close>

definition row_weight :: "string \<Rightarrow> int" where
  "row_weight s = (if s = ln ''<tr>'' then 1 else if s = ln ''</tr>'' then - 1 else 0)"

definition table_weight :: "string \<Rightarrow> int" where
  "table_weight s = (if s = table_start then 1 else if s = ln ''</table>'' then - 1 else 0)"

lemma row_weight_simps [simp]:
  "row_weight (ln ''<tr>'') = 1" "row_weight (ln ''</tr>'') = - 1" "row_weight table_start = 0"
  "row_weight (ln ''</table>'') = 0" "row_weight (td s) = 0" "row_weight (td_style c s) = 0"
  "row_weight (ln ''<td></td>'') = 0" "row_weight (ln ''</td>'') = 0" "row_weight ''<td>'' = 0"
  "row_weight (suite_header t) = 0"
  by (auto simp: row_weight_def ln_def newline_def table_start_def td_def td_style_def suite_header_def Let_def dq_def)

lemma table_weight_simps [simp]:
  "table_weight (ln ''<tr>'') = 0" "table_weight (ln ''</tr>'') = 0" "table_weight table_start = 1"
  "table_weight (ln ''</table>'') = - 1" "table_weight (td s) = 0" "table_weight (td_style c s) = 0"
  "table_weight (ln ''<td></td>'') = 0" "table_weight (ln ''</td>'') = 0" "table_weight ''<td>'' = 0"
  "table_weight (suite_header t) = 0"
  by (auto simp: table_weight_def ln_def newline_def table_start_def td_def td_style_def suite_header_def Let_def dq_def)

lemma row_weight_lit [simp]:
  "row_weight (CHR ''<'' # CHR ''b'' # s) = 0" "row_weight (ln (CHR ''<'' # CHR ''t'' # CHR ''h'' # s)) = 0"
  "row_weight (ln (CHR ''<'' # CHR ''h'' # s)) = 0" "row_weight (ln (CHR ''<'' # CHR ''b'' # s)) = 0"
  "row_weight (ln (CHR ''<'' # CHR ''c'' # s)) = 0" "row_weight (ln (CHR ''<'' # CHR ''/'' # CHR ''b'' # s)) = 0"
  "row_weight (ln (CHR ''<'' # CHR ''/'' # CHR ''h'' # s)) = 0" "row_weight (ln (CHR ''<'' # CHR ''t'' # CHR ''d'' # s)) = 0"
  by (auto simp: row_weight_def ln_def newline_def)

lemma table_weight_lit [simp]:
  "table_weight (CHR ''<'' # CHR ''b'' # s) = 0" "table_weight (ln (CHR ''<'' # CHR ''t'' # CHR ''h'' # s)) = 0"
  "table_weight (ln (CHR ''<'' # CHR ''h'' # s)) = 0" "table_weight (ln (CHR ''<'' # CHR ''b'' # s)) = 0"
  "table_weight (ln (CHR ''<'' # CHR ''c'' # s)) = 0" "table_weight (ln (CHR ''<'' # CHR ''/'' # CHR ''b'' # s)) = 0"
  "table_weight (ln (CHR ''<'' # CHR ''/'' # CHR ''h'' # s)) = 0" "table_weight (ln (CHR ''<'' # CHR ''t'' # CHR ''d'' # s)) = 0"
  by (auto simp: table_weight_def ln_def newline_def table_start_def)

lemma shifts_cong: "shifts w m a \<Longrightarrow> a = b \<Longrightarrow> shifts w m b"
  by simp

lemma failure_row_rows: "shifts row_weight (failure_row t fr d) 1"
proof -
  have "shifts row_weight (failure_row t fr d) (1 + (0 + 0))"
    unfolding failure_row_def
    by (intro shifts_bind [where a = 1] shifts_bind [where a = 0])
      (auto intro!: shifts_seq shifts_cong [OF shifts_write] shifts_write_field)
  then show ?thesis by simp
qed

lemma failure_row_tables: "shifts table_weight (failure_row t fr d) 0"
  unfolding failure_row_def
  by (auto intro!: shifts_seq shifts_cong [OF shifts_write] shifts_write_field)

lemma failure_rows_rows: "shifts row_weight (failure_rows t fr ds) (int (length ds))"
proof (induction t fr ds rule: failure_rows.induct)
  case (2 t fr d ds)
  then show ?case using shifts_bind [OF failure_row_rows 2] by (simp add: algebra_simps)
qed (simp add: shifts_ret)

lemma failure_rows_tables: "shifts table_weight (failure_rows t fr ds) 0"
  by (induction t fr ds rule: failure_rows.induct) (auto intro: shifts_ret shifts_seq failure_row_tables)

text \<open>The failures that get a row: those of failed cases in suites that are listed in detail.\<close>

definition case_failures :: "xml \<Rightarrow> int" where
  "case_failures c =
     (case read_test c of Inr t \<Rightarrow> if t_result t = Some ''FAIL'' then int (length (findall ''FailureDetails'' c)) else 0
      | Inl _ \<Rightarrow> 0)"

definition suite_failures :: "xml \<Rightarrow> int" where
  "suite_failures s =
     (case read_test s of Inr t \<Rightarrow> if no_details (t_result t) then 0 else (\<Sum>c\<leftarrow>findall ''Test'' s. case_failures c)
      | Inl _ \<Rightarrow> 0)"

lemma passed_row_shift: "shifts row_weight (passed_row t) 0" "shifts table_weight (passed_row t) 0"
proof -
  have "shifts row_weight (passed_row t) (1 + - 1)"
    unfolding passed_row_def
    by (intro shifts_bind [where a = 1]) (auto intro!: shifts_write_then shifts_cong [OF shifts_write])
  then show "shifts row_weight (passed_row t) 0" by simp
  show "shifts table_weight (passed_row t) 0"
    unfolding passed_row_def by (auto intro!: shifts_write_then shifts_cong [OF shifts_write])
qed

lemma case_to_html_rows: "shifts row_weight (case_to_html c) (case_failures c)"
  unfolding case_to_html_def
  by (rule shifts_from_res) (simp add: case_failures_def failure_rows_rows passed_row_shift)

lemma case_to_html_tables: "shifts table_weight (case_to_html c) 0"
  unfolding case_to_html_def
  by (rule shifts_from_res) (simp add: failure_rows_tables passed_row_shift)

lemma short_table_shift: "shifts row_weight (short_table t) 0" "shifts table_weight (short_table t) (- 1)"
proof -
  have "shifts row_weight (short_table t) (1 + (0 + (- 1 + 0)))"
    unfolding short_table_def
    by (intro shifts_bind [where a = 1] shifts_bind [where a = 0] shifts_bind [where a = "- 1"])
      (auto intro!: shifts_cong [OF shifts_write])
  then show "shifts row_weight (short_table t) 0" by simp
  show "shifts table_weight (short_table t) (- 1)"
    unfolding short_table_def by (auto intro!: shifts_write_then shifts_cong [OF shifts_write])
qed

lemma heading_shift:
  "shifts row_weight (if b then write_str (ln ''<th>Failure Details</th>'') else ret ()) 0"
  "shifts table_weight (if b then write_str (ln ''<th>Failure Details</th>'') else ret ()) 0"
  by (auto intro!: shifts_ret shifts_cong [OF shifts_write])

lemma case_table_shift:
  "shifts row_weight (case_table t s) (\<Sum>c\<leftarrow>findall ''Test'' s. case_failures c)"
  "shifts table_weight (case_table t s) (- 1)"
proof -
  have a: "shifts row_weight (act_bind (act_for case_to_html (findall ''Test'' s)) (\<lambda>_.
           write_str (ln ''</table>''))) ((\<Sum>c\<leftarrow>findall ''Test'' s. case_failures c) + 0)"
    by (intro shifts_bind shifts_for case_to_html_rows) (auto intro!: shifts_cong [OF shifts_write])
  show "shifts row_weight (case_table t s) (\<Sum>c\<leftarrow>findall ''Test'' s. case_failures c)"
    unfolding case_table_def
    by (rule shifts_write_then, rule shifts_write_then, rule shifts_seq, rule heading_shift)
      (use a in simp_all)
  have b: "shifts table_weight (act_bind (act_for case_to_html (findall ''Test'' s)) (\<lambda>_.
           write_str (ln ''</table>''))) ((\<Sum>c\<leftarrow>findall ''Test'' s. 0) + - 1)"
    by (intro shifts_bind shifts_for case_to_html_tables) (auto intro!: shifts_cong [OF shifts_write])
  show "shifts table_weight (case_table t s) (- 1)"
    unfolding case_table_def
    by (rule shifts_write_then, rule shifts_write_then, rule shifts_seq, rule heading_shift)
      (use b in \<open>simp_all add: sum_list_triv\<close>)
qed

lemma suite_to_html_shift:
  "shifts row_weight (suite_to_html s) (suite_failures s)" "shifts table_weight (suite_to_html s) 0"
proof -
  show "shifts row_weight (suite_to_html s) (suite_failures s)"
    unfolding suite_to_html_def
    by (rule shifts_from_res)
      (auto simp: suite_failures_def short_table_shift case_table_shift intro!: shifts_write_then)
  have c: "shifts table_weight (act_bind (write_str table_start) (\<lambda>_.
     act_bind (write_str (ln ''<th> Result </th>'')) (\<lambda>_.
       if no_details (t_result t) then short_table t else case_table t s))) (1 + - 1)" for t
    by (intro shifts_bind [where a = 1] shifts_write_then)
      (auto simp: short_table_shift case_table_shift intro!: shifts_cong [OF shifts_write])
  show "shifts table_weight (suite_to_html s) 0"
    unfolding suite_to_html_def
    by (rule shifts_from_res, rule shifts_write_then) (use c in simp_all)
qed

lemma example_to_html_shift:
  "shifts row_weight (example_to_html e) 0" "shifts table_weight (example_to_html e) 0"
proof -
  have "shifts row_weight (example_to_html e) (1 + - 1)"
    unfolding example_to_html_def
    by (intro shifts_bind [where a = 1] shifts_from_res)
      (auto intro!: shifts_write_then shifts_cong [OF shifts_write])
  then show "shifts row_weight (example_to_html e) 0" by simp
  show "shifts table_weight (example_to_html e) 0"
    unfolding example_to_html_def
    by (intro shifts_write_then shifts_from_res) (auto intro!: shifts_write_then shifts_cong [OF shifts_write])
qed

text \<open>
  In the HTML report every table that is opened is closed, but each failure of a test
  case leaves one table row open: the rows opened exceed the rows closed by exactly the number
  of failure details of failed cases, in suites that are neither crashed nor skipped nor in
  valgrind errors.
\<close>
theorem html_rows_unclosed:
  assumes "translate_to_html et [] = (Inr (), f)"
  shows "int (count_list f (ln ''<tr>'')) - int (count_list f (ln ''</tr>''))
      = (\<Sum>s\<leftarrow>findall ''Test'' et. suite_failures s)
    \<and> count_list f table_start = count_list f (ln ''</table>'')"
proof -
  have rest: "shifts w (act_bind (write_str (ln ''</table>'')) (\<lambda>_.
     act_bind (write_str (ln ''</body>'')) (\<lambda>_. write_str (ln ''</html>'')))) (w (ln ''</table>''))"
    if "w = row_weight \<or> w = table_weight" for w
  proof -
    have "shifts w (act_bind (write_str (ln ''</body>'')) (\<lambda>_. write_str (ln ''</html>''))) 0"
      using that by (auto intro!: shifts_write_then shifts_cong [OF shifts_write])
    from shifts_bind [OF shifts_write this, of "ln ''</table>''"] show ?thesis by simp
  qed
  have examples: "shifts w (act_for example_to_html es) 0" if "w = row_weight \<or> w = table_weight" for w es
    using that shifts_for [of es w example_to_html "\<lambda>_. 0"] example_to_html_shift by auto
  let ?examples = "act_bind (act_for example_to_html (findall ''Example'' et)) (\<lambda>_.
     act_bind (write_str (ln ''</table>'')) (\<lambda>_.
     act_bind (write_str (ln ''</body>'')) (\<lambda>_. write_str (ln ''</html>''))))"
  let ?headings = "act_bind (write_str (ln ''<th> Result </th>'')) (\<lambda>_.
     act_bind (write_str (ln ''<th>Example Name</th>'')) (\<lambda>_.
     act_bind (write_str (ln ''<th>Elapsed Time</th>'')) (\<lambda>_.
     act_bind (write_str (ln ''<th>Details</th>'')) (\<lambda>_. ?examples))))"
  have tail: "shifts w (act_bind (write_str (ln ''<h2>Examples</h2>'')) (\<lambda>_.
      act_bind (write_str table_start) (\<lambda>_. ?headings))) (w table_start + w (ln ''</table>''))"
    if "w = row_weight \<or> w = table_weight" for w
  proof -
    have "shifts w ?examples (w (ln ''</table>''))"
      by (rule shifts_seq [OF examples [OF that] rest [OF that]])
    then have "shifts w ?headings (w (ln ''</table>''))"
      using that by (auto intro!: shifts_write_then)
    from shifts_bind [OF shifts_write this, of table_start]
    show ?thesis by (rule shifts_write_then) (use that in auto)
  qed
  have all: "shifts w (translate_to_html et) (d + (w table_start + w (ln ''</table>'')))"
    if "w = row_weight \<or> w = table_weight" and "shifts w (act_for suite_to_html (findall ''Test'' et)) d" for w d
    unfolding translate_to_html_def
    by (rule shifts_write_then, rule shifts_write_then, rule shifts_write_then, rule shifts_write_then,
        rule shifts_bind [OF that(2) tail [OF that(1)]]) (use that(1) in auto)
  have "shifts row_weight (act_for suite_to_html (findall ''Test'' et)) (\<Sum>s\<leftarrow>findall ''Test'' et. suite_failures s)"
    by (rule shifts_for) (rule suite_to_html_shift)
  from all [OF _ this] have rows: "weight_sum row_weight f = (\<Sum>s\<leftarrow>findall ''Test'' et. suite_failures s)"
    using assms by (auto simp: shifts_def weight_sum_def)
  have "shifts table_weight (act_for suite_to_html (findall ''Test'' et)) (\<Sum>s\<leftarrow>findall ''Test'' et. 0)"
    by (rule shifts_for) (rule suite_to_html_shift)
  from all [OF _ this] have tables: "weight_sum table_weight f = 0"
    using assms by (auto simp: shifts_def weight_sum_def)
  have "weight_sum row_weight f = int (count_list f (ln ''<tr>'')) - int (count_list f (ln ''</tr>''))"
    by (induction f) (auto simp: weight_sum_def row_weight_def ln_def)
  moreover have "weight_sum table_weight f = int (count_list f table_start) - int (count_list f (ln ''</table>''))"
    by (induction f) (auto simp: weight_sum_def table_weight_def ln_def table_start_def)
  ultimately show ?thesis using rows tables by simp
qed


theorem html_rows_unclosed_witness:
  "\<exists>f. translate_to_html (Elem ''Results'' [] None [Elem ''Test'' [] None
       [Elem ''Result'' [] (Some ''FAIL'') [], Elem ''Name'' [] (Some ''s'') [],
        Elem ''Test'' [] None [Elem ''Result'' [] (Some ''FAIL'') [], Elem ''Name'' [] (Some ''c'') [],
          Elem ''FailureDetails'' [] None [Elem ''Message'' [] None [], Elem ''Condition'' [] None [],
            Elem ''Actual'' [] None [], Elem ''Limit'' [] None [], Elem ''File'' [] None [], Elem ''Line'' [] None []]]]]) []
      = (Inr (), f) \<and> count_list f (ln ''<tr>'') = 1 + count_list f (ln ''</tr>'')"
proof -
  let ?c = "Elem ''Test'' [] None [Elem ''Result'' [] (Some ''FAIL'') [], Elem ''Name'' [] (Some ''c'') [],
          Elem ''FailureDetails'' [] None [Elem ''Message'' [] None [], Elem ''Condition'' [] None [],
            Elem ''Actual'' [] None [], Elem ''Limit'' [] None [], Elem ''File'' [] None [], Elem ''Line'' [] None []]]"
  let ?s = "Elem ''Test'' [] None [Elem ''Result'' [] (Some ''FAIL'') [], Elem ''Name'' [] (Some ''s'') [], ?c]"
  let ?et = "Elem ''Results'' [] None [?s]"
  have "fst (translate_to_html ?et []) = Inr ()" by code_simp
  then obtain f where f: "translate_to_html ?et [] = (Inr (), f)" by (metis prod.collapse)
  have "(\<Sum>s\<leftarrow>findall ''Test'' ?et. suite_failures s) = 1" by code_simp
  with html_rows_unclosed [OF f] f show ?thesis by auto
qed

section \<open>When the text report succeeds\<close>

definition has :: "string \<Rightarrow> xml \<Rightarrow> bool" where
  "has tag e \<longleftrightarrow> find_elem tag e \<noteq> None"

definition details_complete :: "xml \<Rightarrow> bool" where
  "details_complete d \<longleftrightarrow> (\<forall>tag\<in>{''Message'', ''Condition'', ''Actual'', ''Limit'', ''File'', ''Line''}. has tag d)"

fun test_complete :: "xml \<Rightarrow> bool" and tests_complete :: "xml list \<Rightarrow> bool" where
  "test_complete (Elem tag attrs text kids) \<longleftrightarrow>
     has ''Result'' (Elem tag attrs text kids) \<and> has ''Name'' (Elem tag attrs text kids)
     \<and> (\<forall>d\<in>set (findall ''FailureDetails'' (Elem tag attrs text kids)). details_complete d)
     \<and> tests_complete kids"
| "tests_complete [] \<longleftrightarrow> True"
| "tests_complete (c # kids) \<longleftrightarrow> (xtag c = ''Test'' \<longrightarrow> test_complete c) \<and> tests_complete kids"

definition examples_complete :: "xml list \<Rightarrow> bool" where
  "examples_complete es \<longleftrightarrow> list_all (\<lambda>e. has ''Result'' e \<and> has ''Name'' e) es"

text \<open>\<open>decided m b\<close>: the action succeeds if \<open>b\<close> and raises \<open>AttributeError\<close> if not.\<close>

definition decided :: "'a out \<Rightarrow> bool \<Rightarrow> bool" where
  "decided m b \<longleftrightarrow> (\<forall>f. case fst (m f) of Inr _ \<Rightarrow> b | Inl e \<Rightarrow> e = AttributeError \<and> \<not> b)"

lemma decided_basic: "decided (ret x) True" "decided (write_str s) True"
  by (simp_all add: decided_def write_str_def act_simps)

lemma decided_bind:
  assumes "decided m a" and "\<And>x. decided (f x) b"
  shows "decided (act_bind m f) (a \<and> b)"
  unfolding decided_def
proof
  fix s
  obtain r s' where m: "m s = (r, s')" by (cases "m s")
  have ma: "case r of Inr _ \<Rightarrow> a | Inl e \<Rightarrow> e = AttributeError \<and> \<not> a"
    using assms(1) m unfolding decided_def by (metis fst_conv)
  have fb: "case fst (f x s') of Inr _ \<Rightarrow> b | Inl e \<Rightarrow> e = AttributeError \<and> \<not> b" for x
    using assms(2) by (simp add: decided_def)
  show "case fst (act_bind m f s) of Inr _ \<Rightarrow> a \<and> b | Inl e \<Rightarrow> e = AttributeError \<and> \<not> (a \<and> b)"
  proof (cases r)
    case (Inl e)
    then show ?thesis using ma m by (simp add: act_simps)
  next
    case (Inr x)
    then show ?thesis using ma m fb [of x] by (cases "fst (f x s')") (simp_all add: act_simps)
  qed
qed

lemma decided_find:
  assumes "\<And>x. decided (f x) b"
  shows "decided (act_bind (from_res (find_text tag e)) f) (has tag e \<and> b)"
proof -
  have "decided (from_res (find_text tag e) :: string option out) (has tag e)"
    by (auto simp: find_text_def has_def decided_def act_simps split: option.splits)
  from decided_bind [OF this assms] show ?thesis .
qed

lemma decided_for: "(\<And>x. decided (f x) (P x)) \<Longrightarrow> decided (act_for f xs) (\<forall>x\<in>set xs. P x)"
proof (induction xs)
  case (Cons x xs)
  then show ?case using decided_bind [of "f x" "P x"] by simp
qed (simp add: decided_basic)

lemma decided_field: "decided (write_field pre tag post e) (has tag e)"
  using decided_find [of "\<lambda>t. write_str (pre @ py_str t @ post)" True] decided_basic
  by (simp add: write_field_def)

lemma decided_details: "decided (write_details d) (details_complete d)"
proof -
  have "decided (write_details d) (True \<and> has ''Message'' d \<and> has ''Condition'' d \<and> has ''Actual'' d
      \<and> has ''Limit'' d \<and> has ''File'' d \<and> has ''Line'' d)"
    unfolding write_details_def by (intro decided_bind decided_field decided_basic)
  then show ?thesis by (simp add: details_complete_def)
qed

lemma decided_read_test:
  assumes "\<And>x. decided (f x) b"
  shows "decided (act_bind (from_res (read_test e)) f) (has ''Result'' e \<and> has ''Name'' e \<and> b)"
proof -
  have "decided (from_res (read_test e) :: test_info out) (has ''Result'' e \<and> has ''Name'' e)"
    by (auto simp: read_test_def find_text_def has_def decided_def act_simps split: option.splits)
  from decided_bind [OF this assms] show ?thesis by simp
qed

lemma decided_node:
  "decided (node_to_text ty e) (test_complete e)" "decided (cases_to_text es) (tests_complete es)"
proof (induction ty e and es rule: node_to_text_cases_to_text.induct)
  case (1 ty tag attrs content kids)
  let ?e = "Elem tag attrs content kids"
  have "decided (act_bind (from_res (read_test ?e)) (\<lambda>t.
         act_bind (write_str (test_line ty t)) (\<lambda>_.
         act_bind (act_for write_details (findall ''FailureDetails'' ?e)) (\<lambda>_. cases_to_text kids))))
     (has ''Result'' ?e \<and> has ''Name'' ?e \<and> True \<and> (\<forall>d\<in>set (findall ''FailureDetails'' ?e). details_complete d) \<and> tests_complete kids)"
    by (intro decided_read_test decided_bind decided_basic decided_for decided_details) (rule 1, simp)
  then show ?case by (simp add: Let_def)
next
  case (3 c kids)
  then show ?case using decided_bind [of "node_to_text ''Case'' c" "test_complete c"] by auto
qed (simp add: decided_basic)

text \<open>
  The text report is written to the end exactly when every test, at whatever depth, and
  every example has a result and a name, and every failure all six details; otherwise
  \<open>AttributeError\<close> ends it.
\<close>
theorem text_report_complete:
  "case fst (translate_to_text et f) of
     Inr _ \<Rightarrow> tests_complete (findall ''Test'' et) \<and> examples_complete (findall ''Example'' et)
   | Inl err \<Rightarrow> err = AttributeError
       \<and> \<not> (tests_complete (findall ''Test'' et) \<and> examples_complete (findall ''Example'' et))"
proof -
  have ex: "decided (example_to_text e) (has ''Result'' e \<and> has ''Name'' e \<and> True)" for e
    unfolding example_to_text_def Let_def by (intro decided_find decided_basic)
  have tests: "tests_complete ts \<longleftrightarrow> (\<forall>t\<in>set ts. test_complete t)" if "\<forall>t\<in>set ts. xtag t = ''Test''" for ts
    using that by (induction ts) auto
  have "decided (translate_to_text et) ((\<forall>t\<in>set (findall ''Test'' et). test_complete t)
      \<and> (\<forall>e\<in>set (findall ''Example'' et). has ''Result'' e \<and> has ''Name'' e \<and> True))"
    unfolding translate_to_text_def by (intro decided_bind decided_for decided_node ex)
  moreover have "\<forall>t\<in>set (findall ''Test'' et). xtag t = ''Test''" by (simp add: findall_def)
  ultimately show ?thesis
    using tests [of "findall ''Test'' et"] unfolding decided_def examples_complete_def list_all_iff
    by (elim allE [of _ f]) (cases "fst (translate_to_text et f)"; simp)
qed

end
