(* ===== verification/PyPath.thy ===== *)
theory PyPath
  imports PyStr
begin

text \<open>
  The functions of Python's \<open>os.path\<close> (on POSIX) and \<open>fnmatch\<close> that test.py uses.
  The current directory is an argument, an absolute path.
\<close>

section \<open>Paths\<close>

definition basename :: "string \<Rightarrow> string" where
  "basename p = rev (takeWhile (\<lambda>c. c \<noteq> CHR ''/'') (rev p))"

text \<open>The components of an absolute path without empty ones, dots and double dots.\<close>

fun norm_parts :: "string list \<Rightarrow> string list \<Rightarrow> string list" where
  "norm_parts acc [] = rev acc"
| "norm_parts acc (c # cs) =
     (if c = [] \<or> c = ''.'' then norm_parts acc cs
      else if c = ''..'' then norm_parts (tl acc) cs
      else norm_parts (c # acc) cs)"

definition abs_parts :: "string \<Rightarrow> string \<Rightarrow> string list" where
  "abs_parts cur p = norm_parts [] (split_on (CHR ''/'') (path_join cur p))"

definition abspath :: "string \<Rightarrow> string \<Rightarrow> string" where
  "abspath cur p =
     (let q = path_join cur p;
          root = (if startswith q ''//'' \<and> \<not> startswith q ''///'' then ''//'' else ''/'')
      in root @ join ''/'' (abs_parts cur p))"

fun common_prefix :: "'a list \<Rightarrow> 'a list \<Rightarrow> nat" where
  "common_prefix (x # xs) (y # ys) = (if x = y then Suc (common_prefix xs ys) else 0)"
| "common_prefix xs ys = 0"

definition relpath :: "string \<Rightarrow> string \<Rightarrow> string \<Rightarrow> string" where
  "relpath cur p start =
     (let start_list = abs_parts cur start; path_list = abs_parts cur p;
          i = common_prefix start_list path_list;
          rel_list = replicate (length start_list - i) ''..'' @ drop i path_list
      in if rel_list = [] then ''.'' else join ''/'' rel_list)"

lemma basename_simple: "CHR ''/'' \<notin> set p \<Longrightarrow> basename p = p"
  unfolding basename_def by (subst takeWhile_eq_all_conv [THEN iffD2]) auto

lemma basename_append: "CHR ''/'' \<notin> set b \<Longrightarrow> basename (a @ CHR ''/'' # b) = b"
proof -
  assume "CHR ''/'' \<notin> set b"
  then have "takeWhile (\<lambda>c. c \<noteq> CHR ''/'') (rev b @ CHR ''/'' # rev a) = rev b"
    by (intro span_neq_append) simp
  then show ?thesis by (simp add: basename_def)
qed

lemma basename_no_slash: "CHR ''/'' \<notin> set (basename p)"
  by (auto simp: basename_def dest: set_takeWhileD)

lemma norm_parts_append: "norm_parts acc (xs @ ys) = norm_parts (rev (norm_parts acc xs)) ys"
  by (induction xs arbitrary: acc) simp_all

text \<open>Components that normalisation keeps.\<close>

definition plain_part :: "string \<Rightarrow> bool" where
  "plain_part c \<longleftrightarrow> c \<noteq> [] \<and> c \<noteq> ''.'' \<and> c \<noteq> ''..'' \<and> CHR ''/'' \<notin> set c"

lemma norm_parts_plain: "list_all plain_part cs \<Longrightarrow> norm_parts acc cs = rev acc @ cs"
  by (induction cs arbitrary: acc) (auto simp: plain_part_def)

lemma split_on_append_full: "split_on c (a @ c # b) = split_on c a @ split_on c b"
proof (induction a)
  case (Cons x a)
  obtain w ws where "split_on c a = w # ws" by (cases "split_on c a") auto
  with Cons show ?case by simp
qed simp

lemma common_prefix_append: "common_prefix xs (xs @ ys) = length xs"
  by (induction xs) (cases ys, auto)

text \<open>A path below a directory, relative to that directory.\<close>

lemma endswith_char: "endswith s [c] \<longleftrightarrow> s \<noteq> [] \<and> last s = c"
  by (cases s rule: rev_cases) (auto simp: endswith_suffix)

lemma path_join_assoc:
  "\<not> startswith r ''/'' \<Longrightarrow> path_join a (path_join b r) = path_join (path_join a b) r"
  by (cases b) (auto simp: path_join_def endswith_char)

lemma join_plain:
  assumes "list_all plain_part parts" "parts \<noteq> []"
  shows "split_on (CHR ''/'') (join ''/'' parts) = parts" and "\<not> startswith (join ''/'' parts) ''/''"
proof -
  show j: "split_on (CHR ''/'') (join ''/'' parts) = parts"
    using assms by (intro split_on_join) (auto simp: list_all_iff plain_part_def)
  show "\<not> startswith (join ''/'' parts) ''/''"
  proof
    assume "startswith (join ''/'' parts) ''/''"
    then obtain r where "join ''/'' parts = CHR ''/'' # r" by (auto simp: startswith_prefix prefix_def)
    with j have "hd parts = []" by (metis list.sel(1) split_on.simps(2))
    with assms show False by (cases parts) (simp_all add: plain_part_def)
  qed
qed

lemma split_join_plain:
  assumes "list_all plain_part parts" "parts \<noteq> []"
  shows "norm_parts [] (split_on (CHR ''/'') (path_join x (join ''/'' parts)))
    = norm_parts [] (split_on (CHR ''/'') x) @ parts"
proof -
  note j = join_plain [OF assms]
  have sep: "norm_parts [] (split_on (CHR ''/'') (y @ CHR ''/'' # join ''/'' parts))
      = norm_parts [] (split_on (CHR ''/'') y) @ parts" for y
    by (simp add: split_on_append_full norm_parts_append [of _ "split_on (CHR ''/'') y"] j(1) norm_parts_plain [OF assms(1)])
  show ?thesis
  proof (cases "x = []")
    case True
    with j show ?thesis by (simp add: path_join_def norm_parts_plain [OF assms(1)])
  next
    case False
    show ?thesis
    proof (cases "endswith x ''/''")
      case True
      then obtain y where y: "x = y @ ''/''" by (auto simp: endswith_suffix suffix_def)
      have "norm_parts [] (split_on (CHR ''/'') x) = norm_parts [] (split_on (CHR ''/'') y)"
        unfolding y split_on_append_full by (simp add: norm_parts_append [of _ "split_on (CHR ''/'') y"])
      with sep [of y] y True j(2) show ?thesis by (simp add: path_join_def)
    next
      case False
      with \<open>x \<noteq> []\<close> sep [of x] j(2) show ?thesis by (simp add: path_join_def)
    qed
  qed
qed

lemma relpath_join:
  assumes "list_all plain_part parts" "parts \<noteq> []"
  shows "relpath cur (path_join b (join ''/'' parts)) b = join ''/'' parts"
proof -
  have "abs_parts cur (path_join b (join ''/'' parts)) = abs_parts cur b @ parts"
    unfolding abs_parts_def path_join_assoc [OF join_plain(2) [OF assms]] by (rule split_join_plain [OF assms])
  with assms(2) show ?thesis by (simp add: relpath_def Let_def common_prefix_append)
qed

section \<open>Patterns\<close>

text \<open>
  \<open>fnmatch\<close>: a star stands for any characters, a question mark for one, and brackets for
  one of a set with ranges, or none of it after an exclamation mark; an unclosed bracket stands
  for itself.
\<close>

fun in_class :: "string \<Rightarrow> char \<Rightarrow> bool" where
  "in_class (a # d # b # cs) c \<longleftrightarrow>
     (if d = CHR ''-'' then ((of_char a :: nat) \<le> of_char c \<and> (of_char c :: nat) \<le> of_char b) \<or> in_class cs c
      else a = c \<or> in_class (d # b # cs) c)"
| "in_class cs c \<longleftrightarrow> c \<in> set cs"

text \<open>The inside of a bracket and what follows it; a closing bracket that comes first is inside.\<close>

definition bracket :: "string \<Rightarrow> (bool \<times> string \<times> string) option" where
  "bracket p =
     (let neg = startswith p ''!'';
          p = (if neg then tl p else p);
          first = (if startswith p '']'' then '']'' else []);
          p = drop (length first) p
      in case dropWhile (\<lambda>c. c \<noteq> CHR '']'') p of
           [] \<Rightarrow> None
         | _ # rest \<Rightarrow> Some (neg, first @ takeWhile (\<lambda>c. c \<noteq> CHR '']'') p, rest))"

lemma bracket_length: "bracket p = Some (neg, cs, rest) \<Longrightarrow> length rest < Suc (length p)"
proof -
  have d: "length rest < length q" if "dropWhile P q = x # rest" for P x and q :: string
    using that by (metis length_Cons length_dropWhile_le less_eq_Suc_le)
  assume "bracket p = Some (neg, cs, rest)"
  then obtain q x where q: "dropWhile (\<lambda>c. c \<noteq> CHR '']'') q = x # rest" "length q \<le> length p"
    by (simp add: bracket_def Let_def split: list.splits if_splits)
  from d [OF q(1)] q(2) show ?thesis by simp
qed

datatype glob = AnySequence | AnyCharacter | OneOf bool string | Exactly char

function parse_glob :: "string \<Rightarrow> glob list" where
  "parse_glob [] = []"
| "parse_glob (c # p) =
     (if c = CHR ''*'' then AnySequence # parse_glob p
      else if c = CHR ''?'' then AnyCharacter # parse_glob p
      else if c = CHR ''['' then
        (case bracket p of
           None \<Rightarrow> Exactly c # parse_glob p
         | Some (neg, cs, rest) \<Rightarrow> OneOf neg cs # parse_glob rest)
      else Exactly c # parse_glob p)"
  by pat_completeness auto
termination
  by (relation "measure length") (auto dest: bracket_length)

fun glob_match :: "glob list \<Rightarrow> string \<Rightarrow> bool" where
  "glob_match [] s \<longleftrightarrow> s = []"
| "glob_match (AnySequence # gs) [] \<longleftrightarrow> glob_match gs []"
| "glob_match (AnySequence # gs) (x # xs) \<longleftrightarrow> glob_match gs (x # xs) \<or> glob_match (AnySequence # gs) xs"
| "glob_match (AnyCharacter # gs) (x # xs) \<longleftrightarrow> glob_match gs xs"
| "glob_match (OneOf neg cs # gs) (x # xs) \<longleftrightarrow> in_class cs x \<noteq> neg \<and> glob_match gs xs"
| "glob_match (Exactly c # gs) (x # xs) \<longleftrightarrow> x = c \<and> glob_match gs xs"
| "glob_match (_ # gs) [] \<longleftrightarrow> False"

definition fnmatch_filter :: "string list \<Rightarrow> string \<Rightarrow> string list" where
  "fnmatch_filter names pat = filter (glob_match (parse_glob pat)) names"

definition plain_pattern :: "string \<Rightarrow> bool" where
  "plain_pattern p \<longleftrightarrow> CHR ''*'' \<notin> set p \<and> CHR ''?'' \<notin> set p \<and> CHR ''['' \<notin> set p"

text \<open>A pattern without special characters matches itself alone; a star matches everything.\<close>

lemma glob_match_exact: "plain_pattern p \<Longrightarrow> glob_match (parse_glob p) s \<longleftrightarrow> s = p"
proof (induction p arbitrary: s)
  case (Cons c p)
  then show ?case by (cases s) (auto simp: plain_pattern_def)
qed simp

lemma glob_match_star: "glob_match (parse_glob ''*'') s"
  by (induction s) simp_all

end
