(* ===== verification/TestJobs.thy ===== *)
theory TestJobs
  imports PyStr
begin

text \<open>
  The jobs of test.py and the threads that run them: \<open>Job\<close>, \<open>run_job_synchronously\<close>,
  \<open>worker_thread.run\<close>, and the part of \<open>run_tests\<close> that starts the threads, puts the
  jobs and the break jobs on the input queue, takes the results from the output queue and
  joins the threads. A step relation interleaves the main thread, the workers and the
  interrupt handler. What a process does is the parameter \<open>exec\<close>.
\<close>

section \<open>Queues\<close>

text \<open>
  \<open>queue.Queue\<close>: what the threads rely on is that elements come out in the order in
  which they went in. \<open>contents\<close> is the list of what is inside.
\<close>

locale fifo =
  fixes contents :: "'q \<Rightarrow> 'a list"
    and put :: "'q \<Rightarrow> 'a \<Rightarrow> 'q"
    and get :: "'q \<Rightarrow> ('a \<times> 'q) option"
  assumes contents_put: "contents (put q x) = contents q @ [x]"
    and get_None: "get q = None \<longleftrightarrow> contents q = []"
    and get_Some: "get q = Some (x, r) \<Longrightarrow> contents q = x # contents r"
begin

lemma contents_put_all: "contents (foldl put q xs) = contents q @ xs"
  by (induction xs arbitrary: q) (simp_all add: contents_put)

lemma get_put: "get q = Some (x, r) \<Longrightarrow> \<exists>r'. get (put q y) = Some (x, r') \<and> contents r' = contents r @ [y]"
proof -
  assume "get q = Some (x, r)"
  from get_Some [OF this] have c: "contents (put q y) = x # contents r @ [y]" by (simp add: contents_put)
  with get_None [of "put q y"] obtain z r' where g: "get (put q y) = Some (z, r')" by fastforce
  from get_Some [OF g] c g show ?thesis by simp
qed

lemma get_nonempty: "contents q = x # xs \<Longrightarrow> \<exists>r. get q = Some (x, r) \<and> contents r = xs"
proof -
  assume c: "contents q = x # xs"
  with get_None [of q] obtain z r where g: "get q = Some (z, r)" by fastforce
  from get_Some [OF g] c g show ?thesis by simp
qed

lemma length_get: "get q = Some (x, r) \<Longrightarrow> length (contents q) = Suc (length (contents r))"
  by (drule get_Some) simp

end

definition q_put :: "'a list \<Rightarrow> 'a \<Rightarrow> 'a list" where
  "q_put q x = q @ [x]"

definition q_get :: "'a list \<Rightarrow> ('a \<times> 'a list) option" where
  "q_get q = (case q of [] \<Rightarrow> None | x # r \<Rightarrow> Some (x, r))"

interpretation jobs_queue: fifo "\<lambda>q. q" q_put q_get
  by unfold_locales (auto simp: q_put_def q_get_def split: list.splits)

section \<open>Jobs\<close>

text \<open>The elapsed time is in thousandths of a second, the precision in which it is printed.\<close>

record job =
  is_break :: bool
  is_skip :: bool
  skip_reason :: string
  is_example :: bool
  is_pyexample :: bool
  shell_command :: string
  display_name :: string
  basedir :: string
  tempdir :: string
  cwd :: string
  tmp_file_name :: string
  returncode :: int
  elapsed_time :: nat
  build_path :: string

definition new_job :: job where
  "new_job = \<lparr>is_break = False, is_skip = False, skip_reason = [], is_example = False, is_pyexample = False,
     shell_command = [], display_name = [], basedir = [], tempdir = [], cwd = [], tmp_file_name = [],
     returncode = 0, elapsed_time = 0, build_path = []\<rparr>"

text \<open>The global variables and options that running a job reads.\<close>

record settings =
  ns3_basedir :: string
  ns3_builddir :: string
  python :: "string list"
  opt_valgrind :: bool
  opt_update_data :: bool

text \<open>What a process leaves: None for a stream that \<open>decode()\<close> rejects.\<close>

record process =
  p_returncode :: int
  p_stdout :: "string option"
  p_stderr :: "string option"
  p_time :: nat

type_synonym executor = "string \<Rightarrow> string \<Rightarrow> process"

definition valgrind_suppressions_file :: string where
  "valgrind_suppressions_file = ''testpy.supp''"

definition job_command :: "settings \<Rightarrow> string \<Rightarrow> bool \<Rightarrow> bool \<Rightarrow> string \<Rightarrow> string res" where
  "job_command g shell_cmd valgrind python_job path =
     (let suppressions_path = path_join (ns3_basedir g) valgrind_suppressions_file
      in and_then
        (if python_job then
           and_then (py_nth (python g) 0) (\<lambda>py. Inr (py @ '' '' @ path_join (ns3_basedir g) shell_cmd))
         else if path \<noteq> [] then Inr (path_join path shell_cmd)
         else Inr (path_join (ns3_builddir g) shell_cmd))
        (\<lambda>path_cmd. Inr
          (if valgrind then
             ''valgrind --suppressions='' @ suppressions_path @
             '' --leak-check=full --show-reachable=yes --error-exitcode=2 --errors-for-leak-kinds=all '' @ path_cmd
           else path_cmd)))"

definition job_retval :: "process \<Rightarrow> int" where
  "job_retval p =
     (let retval = p_returncode p;
          retval = (if p_stdout p = None then 1 else retval)
      in if p_stderr p = None then 1 else retval)"

definition run_job_synchronously ::
  "settings \<Rightarrow> executor \<Rightarrow> string \<Rightarrow> string \<Rightarrow> bool \<Rightarrow> bool \<Rightarrow> string \<Rightarrow> process res" where
  "run_job_synchronously g exec shell_cmd directory valgrind python_job path =
     and_then (job_command g shell_cmd valgrind python_job path)
       (\<lambda>cmd. let p = exec cmd directory in Inr (p\<lparr>p_returncode := job_retval p\<rparr>))"

section \<open>The worker threads\<close>

text \<open>The command a worker starts for a job, and the job with the result entered.\<close>

definition worker_command :: "settings \<Rightarrow> job \<Rightarrow> string res" where
  "worker_command g j =
     (if is_example j \<or> is_pyexample j then
        job_command g (shell_command j) (opt_valgrind g) (is_pyexample j) (build_path j)
      else
        (let update_data = (if opt_update_data g then ''--update-data'' else [])
         in job_command g (shell_command j @ '' --xml --tempdir='' @ tempdir j @ '' --out='' @ tmp_file_name j
                             @ '' '' @ update_data) (opt_valgrind g) False []))"

definition finish_job :: "process \<Rightarrow> job \<Rightarrow> job" where
  "finish_job p j = j\<lparr>returncode := job_retval p, elapsed_time := p_time p\<rparr>"

text \<open>
  A worker between two statements that touch shared state: waiting for the input queue,
  with a job just taken, running a process for a job, about to put a job on the output
  queue, returned, or ended by an exception.
\<close>

datatype worker = Idle | Got job | Running job string | Holding job | Stopped | Died job

definition decide_job :: "settings \<Rightarrow> bool \<Rightarrow> job \<Rightarrow> worker" where
  "decide_job g exiting j =
     (if is_break j then Stopped
      else if exiting then Holding (j\<lparr>is_break := True\<rparr>)
      else if is_skip j then Holding j
      else (case worker_command g j of Inl _ \<Rightarrow> Died j | Inr cmd \<Rightarrow> Running j cmd))"

text \<open>
  The state of the main thread is the list of jobs it still has to put, the number of
  results it still has to get, what it has got, and how many threads it has joined.
\<close>

record pool =
  to_put :: "job list"
  input_queue :: "job list"
  workers :: "worker list"
  output_queue :: "job list"
  thread_exit :: bool
  to_get :: nat
  collected :: "job list"
  joined :: nat

definition break_job :: job where
  "break_job = new_job\<lparr>is_break := True\<rparr>"

definition start_pool :: "job list \<Rightarrow> int \<Rightarrow> pool" where
  "start_pool jobs processors =
     \<lparr>to_put = jobs @ replicate (nat processors) break_job, input_queue = [],
      workers = replicate (nat processors) Idle, output_queue = [], thread_exit = False,
      to_get = length jobs, collected = [], joined = 0\<rparr>"

inductive pool_step :: "settings \<Rightarrow> executor \<Rightarrow> pool \<Rightarrow> pool \<Rightarrow> bool" for g exec where
  dispatch: "to_put p = j # js \<Longrightarrow>
    pool_step g exec p (p\<lparr>to_put := js, input_queue := q_put (input_queue p) j\<rparr>)"
| take_job: "i < length (workers p) \<Longrightarrow> workers p ! i = Idle \<Longrightarrow> q_get (input_queue p) = Some (j, q) \<Longrightarrow>
    pool_step g exec p (p\<lparr>workers := (workers p)[i := Got j], input_queue := q\<rparr>)"
| decide: "i < length (workers p) \<Longrightarrow> workers p ! i = Got j \<Longrightarrow>
    pool_step g exec p (p\<lparr>workers := (workers p)[i := decide_job g (thread_exit p) j]\<rparr>)"
| finish: "i < length (workers p) \<Longrightarrow> workers p ! i = Running j cmd \<Longrightarrow>
    pool_step g exec p (p\<lparr>workers := (workers p)[i := Holding (finish_job (exec cmd (cwd j)) j)]\<rparr>)"
| give_back: "i < length (workers p) \<Longrightarrow> workers p ! i = Holding j \<Longrightarrow>
    pool_step g exec p (p\<lparr>workers := (workers p)[i := Idle], output_queue := q_put (output_queue p) j\<rparr>)"
| collect: "to_put p = [] \<Longrightarrow> to_get p = Suc n \<Longrightarrow> q_get (output_queue p) = Some (j, q) \<Longrightarrow>
    pool_step g exec p (p\<lparr>to_get := n, output_queue := q, collected := collected p @ [j]\<rparr>)"
| join_thread: "to_put p = [] \<Longrightarrow> to_get p = 0 \<Longrightarrow> joined p < length (workers p) \<Longrightarrow>
    workers p ! joined p = Stopped \<or> workers p ! joined p = Died j \<Longrightarrow>
    pool_step g exec p (p\<lparr>joined := Suc (joined p)\<rparr>)"

inductive_cases pool_stepE: "pool_step g exec p p'"

text \<open>The signal handler may run at any time; a second signal changes nothing.\<close>

definition sigint_hook :: "pool \<Rightarrow> pool" where
  "sigint_hook p = p\<lparr>thread_exit := True\<rparr>"

inductive system_step :: "settings \<Rightarrow> executor \<Rightarrow> pool \<Rightarrow> pool \<Rightarrow> bool" for g exec where
  program: "pool_step g exec p p' \<Longrightarrow> system_step g exec p p'"
| interrupt: "\<not> thread_exit p \<Longrightarrow> system_step g exec p (sigint_hook p)"

inductive_cases system_stepE: "system_step g exec p p'"

definition finished :: "pool \<Rightarrow> bool" where
  "finished p \<longleftrightarrow> to_put p = [] \<and> to_get p = 0 \<and> joined p = length (workers p)"

section \<open>Termination\<close>

lemma sum_list_list_update:
  "i < length xs \<Longrightarrow> sum_list (map f (xs[i := x])) + f (xs ! i) = sum_list (map f xs) + (f x :: 'b::comm_monoid_add)"
proof (induction xs arbitrary: i)
  case (Cons y ys)
  then show ?case by (cases i) (simp_all add: ac_simps)
qed simp

fun worker_weight :: "worker \<Rightarrow> nat" where
  "worker_weight (Got j) = 5"
| "worker_weight (Running j cmd) = 4"
| "worker_weight (Holding j) = 3"
| "worker_weight w = 0"

definition pool_measure :: "pool \<Rightarrow> nat" where
  "pool_measure p =
     7 * length (to_put p) + 6 * length (input_queue p) + sum_list (map worker_weight (workers p))
       + 2 * length (output_queue p) + (length (workers p) - joined p) + (if thread_exit p then 0 else 1)"

lemma decide_weight: "worker_weight (decide_job g e j) < worker_weight (Got j)"
  by (simp add: decide_job_def split: sum.splits)

lemma pool_step_measure:
  assumes "pool_step g exec p p'"
  shows "pool_measure p' < pool_measure p"
  using assms
proof (cases rule: pool_step.cases)
  case (dispatch j js)
  then show ?thesis by (simp add: pool_measure_def q_put_def)
next
  case (take_job i j q)
  with sum_list_list_update [of i "workers p" worker_weight "Got j"] jobs_queue.length_get [OF take_job(4)]
  show ?thesis by (simp add: pool_measure_def)
next
  case (decide i j)
  with sum_list_list_update [of i "workers p" worker_weight "decide_job g (thread_exit p) j"]
    decide_weight [of g "thread_exit p" j]
  show ?thesis by (simp add: pool_measure_def)
next
  case (finish i j cmd)
  with sum_list_list_update [of i "workers p" worker_weight "Holding (finish_job (exec cmd (cwd j)) j)"]
  show ?thesis by (simp add: pool_measure_def)
next
  case (give_back i j)
  with sum_list_list_update [of i "workers p" worker_weight Idle]
  show ?thesis by (simp add: pool_measure_def q_put_def)
next
  case (collect n j q)
  with jobs_queue.length_get [OF collect(4)] show ?thesis by (simp add: pool_measure_def)
next
  case (join_thread j)
  then show ?thesis by (simp add: pool_measure_def)
qed

lemma start_pool_measure: "pool_measure (start_pool jobs n) = 7 * length jobs + 8 * nat n + 1"
  by (simp add: pool_measure_def start_pool_def sum_list_replicate)

lemma system_step_measure: "system_step g exec p p' \<Longrightarrow> pool_measure p' < pool_measure p"
  by (erule system_stepE) (simp_all add: pool_step_measure, simp add: pool_measure_def sigint_hook_def)

lemma relpow_measure: "(system_step g exec ^^ k) p p' \<Longrightarrow> k + pool_measure p' \<le> pool_measure p"
proof (induction k arbitrary: p')
  case (Suc k)
  then obtain m where "(system_step g exec ^^ k) p m" and s: "system_step g exec m p'" by (elim relpowp_Suc_E)
  from Suc.IH [OF this(1)] system_step_measure [OF s] show ?case by simp
qed simp

section \<open>What becomes of a job\<close>

text \<open>
  Give each job a value: \<open>v\<close> for a job that has not been run and \<open>u\<close> for one that has.
  If running preserves it, then so does every step, for all the jobs together. With a single
  worker their order is preserved too.
\<close>

fun held :: "(job \<Rightarrow> 'v) \<Rightarrow> (job \<Rightarrow> 'v) \<Rightarrow> worker \<Rightarrow> 'v list" where
  "held v u (Got j) = (if is_break j then [] else [v j])"
| "held v u (Running j cmd) = [v j]"
| "held v u (Holding j) = [u j]"
| "held v u (Died j) = [v j]"
| "held v u w = []"

definition in_order :: "(job \<Rightarrow> 'v) \<Rightarrow> (job \<Rightarrow> 'v) \<Rightarrow> pool \<Rightarrow> 'v list" where
  "in_order v u p = map u (collected p @ output_queue p) @ concat (map (held v u) (workers p))
     @ map v (filter (\<lambda>j. \<not> is_break j) (input_queue p @ to_put p))"

fun worker_ok :: "settings \<Rightarrow> worker \<Rightarrow> bool" where
  "worker_ok g (Running j cmd) \<longleftrightarrow> \<not> is_break j \<and> \<not> is_skip j \<and> worker_command g j = Inr cmd"
| "worker_ok g w \<longleftrightarrow> True"

lemma decide_ok: "worker_ok g (decide_job g e j)"
  by (simp add: decide_job_def split: sum.splits)

lemma pool_step_ok:
  "pool_step g exec p p' \<Longrightarrow> list_all (worker_ok g) (workers p) \<Longrightarrow> list_all (worker_ok g) (workers p')"
  by (erule pool_stepE) (auto simp: decide_ok list_all_length nth_list_update)

locale job_value =
  fixes g :: settings and exec :: executor and v u :: "job \<Rightarrow> 'v" and intr :: bool
  assumes skip: "\<not> is_break j \<Longrightarrow> is_skip j \<Longrightarrow> u j = v j"
    and run: "\<not> is_break j \<Longrightarrow> \<not> is_skip j \<Longrightarrow> worker_command g j = Inr cmd \<Longrightarrow>
      u (finish_job (exec cmd (cwd j)) j) = v j"
    and intr: "intr \<Longrightarrow> \<not> is_break j \<Longrightarrow> u (j\<lparr>is_break := True\<rparr>) = v j"
begin

lemma held_decide: "(e \<longrightarrow> intr) \<Longrightarrow> held v u (decide_job g e j) = held v u (Got j)"
  by (auto simp: decide_job_def skip intr split: sum.splits)

lemma held_finish: "worker_ok g (Running j cmd) \<Longrightarrow> held v u (Holding (finish_job (exec cmd (cwd j)) j)) = held v u (Running j cmd)"
  by (simp add: run)

lemma mset_held_update:
  assumes "i < length ws"
  shows "mset (concat (map (held v u) (ws[i := w]))) + mset (held v u (ws ! i))
    = mset (concat (map (held v u) ws)) + mset (held v u w)"
  using sum_list_list_update [OF assms, of "\<lambda>w. mset (held v u w)" w]
  by (simp add: mset_concat comp_def)

lemma held_same:
  assumes "i < length ws" "held v u w = held v u (ws ! i)"
  shows "map (held v u) (ws[i := w]) = map (held v u) ws"
  using assms by (simp add: map_update list_update_same_conv)

lemma step_mset:
  assumes step: "pool_step g exec p p'" and ok: "list_all (worker_ok g) (workers p)"
    and e: "thread_exit p \<longrightarrow> intr"
  shows "mset (in_order v u p') = mset (in_order v u p)"
  using step
proof (cases rule: pool_step.cases)
  case (dispatch j js)
  then show ?thesis by (simp add: in_order_def q_put_def)
next
  case (take_job i j q)
  with mset_held_update [OF take_job(2), of "Got j"] jobs_queue.get_Some [OF take_job(4)]
  show ?thesis by (simp add: in_order_def)
next
  case (decide i j)
  from decide held_same [OF decide(2)] held_decide [OF e, of j] show ?thesis
    by (simp add: in_order_def del: held.simps)
next
  case (finish i j cmd)
  from ok finish have "worker_ok g (Running j cmd)" by (metis list_all_length)
  from finish held_same [OF finish(2)] held_finish [OF this] show ?thesis
    by (simp add: in_order_def del: held.simps)
next
  case (give_back i j)
  with mset_held_update [OF give_back(2), of Idle] show ?thesis by (simp add: in_order_def q_put_def)
next
  case (collect n j q)
  with jobs_queue.get_Some [OF collect(4)] show ?thesis by (simp add: in_order_def)
next
  case (join_thread j)
  then show ?thesis by (simp add: in_order_def)
qed

lemma step_list:
  assumes step: "pool_step g exec p p'" and ok: "list_all (worker_ok g) (workers p)"
    and e: "thread_exit p \<longrightarrow> intr" and one: "workers p = [w]"
  shows "in_order v u p' = in_order v u p"
  using step
proof (cases rule: pool_step.cases)
  case (dispatch j js)
  then show ?thesis by (simp add: in_order_def q_put_def)
next
  case (take_job i j q)
  with jobs_queue.get_Some [OF take_job(4)] one show ?thesis by (simp add: in_order_def)
next
  case (decide i j)
  with held_decide [OF e, of j] one show ?thesis by (simp add: in_order_def)
next
  case (finish i j cmd)
  from ok finish have "worker_ok g (Running j cmd)" by (metis list_all_length)
  from finish held_finish [OF this] one show ?thesis by (simp add: in_order_def)
next
  case (give_back i j)
  with one show ?thesis by (simp add: in_order_def q_put_def)
next
  case (collect n j q)
  with jobs_queue.get_Some [OF collect(4)] show ?thesis by (simp add: in_order_def)
next
  case (join_thread j)
  then show ?thesis by (simp add: in_order_def)
qed

end

section \<open>Reachable states\<close>

definition reachable :: "settings \<Rightarrow> executor \<Rightarrow> job list \<Rightarrow> int \<Rightarrow> pool \<Rightarrow> bool" where
  "reachable g exec jobs n p \<longleftrightarrow> (system_step g exec)\<^sup>*\<^sup>* (start_pool jobs n) p"

lemma reachable_induct [consumes 1, case_names start step signal]:
  assumes "reachable g exec jobs n p" and "P (start_pool jobs n)"
    and "\<And>p p'. reachable g exec jobs n p \<Longrightarrow> P p \<Longrightarrow> pool_step g exec p p' \<Longrightarrow> P p'"
    and "\<And>p. reachable g exec jobs n p \<Longrightarrow> P p \<Longrightarrow> \<not> thread_exit p \<Longrightarrow> P (sigint_hook p)"
  shows "P p"
  using assms(1) unfolding reachable_def
proof (induction rule: rtranclp_induct)
  case base
  show ?case by (rule assms(2))
next
  case (step p p')
  from step.hyps(1) have r: "reachable g exec jobs n p" by (simp add: reachable_def)
  from step.hyps(2) show ?case
    by (cases rule: system_step.cases) (auto intro: assms(3,4) r step.IH)
qed

lemma sigint_hook_fields [simp]:
  "workers (sigint_hook p) = workers p" "to_put (sigint_hook p) = to_put p"
  "input_queue (sigint_hook p) = input_queue p" "output_queue (sigint_hook p) = output_queue p"
  "to_get (sigint_hook p) = to_get p" "collected (sigint_hook p) = collected p"
  "joined (sigint_hook p) = joined p" "thread_exit (sigint_hook p)"
  by (simp_all add: sigint_hook_def)

lemma reachable_workers_ok: "reachable g exec jobs n p \<Longrightarrow> list_all (worker_ok g) (workers p)"
proof (induction rule: reachable_induct)
  case start
  then show ?case by (simp add: start_pool_def list_all_iff)
next
  case (step p p')
  then show ?case by (blast intro: pool_step_ok)
qed simp

lemma pool_step_length: "pool_step g exec p p' \<Longrightarrow> length (workers p') = length (workers p)"
  by (erule pool_stepE) auto

lemma pool_step_exit: "pool_step g exec p p' \<Longrightarrow> thread_exit p \<Longrightarrow> thread_exit p'"
  by (erule pool_stepE) auto

lemma reachable_length: "reachable g exec jobs n p \<Longrightarrow> length (workers p) = nat n"
  by (induction rule: reachable_induct) (auto simp: start_pool_def dest: pool_step_length)

text \<open>The main thread has collected what it has waited for.\<close>

lemma pool_step_count:
  "pool_step g exec p p' \<Longrightarrow> length (collected p') + to_get p' = length (collected p) + to_get p"
  by (erule pool_stepE) auto

lemma reachable_count: "reachable g exec jobs n p \<Longrightarrow> length (collected p) + to_get p = length jobs"
  by (induction rule: reachable_induct) (auto simp: start_pool_def dest: pool_step_count)

section \<open>The break jobs come last\<close>

fun stopping :: "worker \<Rightarrow> nat" where
  "stopping (Got j) = (if is_break j then 1 else 0)"
| "stopping Stopped = 1"
| "stopping w = 0"

definition breaks_last :: "nat \<Rightarrow> pool \<Rightarrow> bool" where
  "breaks_last n p \<longleftrightarrow> (\<exists>a m. input_queue p @ to_put p = a @ replicate m break_job
     \<and> list_all (\<lambda>j. \<not> is_break j) a
     \<and> m + sum_list (map stopping (workers p)) = n
     \<and> (a \<noteq> [] \<longrightarrow> sum_list (map stopping (workers p)) = 0))"

lemma stopping_decide: "stopping (decide_job g e j) = stopping (Got j)"
  by (simp add: decide_job_def split: sum.splits)

lemma stopping_update:
  assumes "i < length ws" "stopping w = stopping (ws ! i)"
  shows "sum_list (map stopping (ws[i := w])) = sum_list (map stopping ws)"
  using sum_list_list_update [OF assms(1), of stopping w] assms(2) by simp

lemma breaks_last_take:
  assumes inv: "breaks_last n p" and i: "i < length (workers p)" "workers p ! i = Idle"
    and get: "q_get (input_queue p) = Some (j, q)"
  shows "breaks_last n (p\<lparr>workers := (workers p)[i := Got j], input_queue := q\<rparr>)"
proof -
  from jobs_queue.get_Some [OF get] have q: "input_queue p = j # q" .
  from inv obtain a m where a: "j # q @ to_put p = a @ replicate m break_job" "list_all (\<lambda>j. \<not> is_break j) a"
    and m: "m + sum_list (map stopping (workers p)) = n"
    and z: "a \<noteq> [] \<longrightarrow> sum_list (map stopping (workers p)) = 0"
    unfolding breaks_last_def q by auto
  from sum_list_list_update [OF i(1), of stopping "Got j"] i(2)
  have s: "sum_list (map stopping ((workers p)[i := Got j])) = sum_list (map stopping (workers p)) + stopping (Got j)"
    by simp
  show ?thesis
  proof (cases a)
    case Nil
    with a obtain k where "m = Suc k" "j = break_job" "q @ to_put p = replicate k break_job" by (cases m) auto
    with m s show ?thesis
      unfolding breaks_last_def
      by (intro exI [of _ "[]"] exI [of _ k]) (simp add: break_job_def)
  next
    case (Cons x b)
    with a have "q @ to_put p = b @ replicate m break_job" "\<not> is_break j" "list_all (\<lambda>j. \<not> is_break j) b" by auto
    with m s z Cons show ?thesis
      unfolding breaks_last_def by (intro exI [of _ b] exI [of _ m]) simp
  qed
qed

lemma pool_step_breaks_last:
  assumes "pool_step g exec p p'" "breaks_last n p"
  shows "breaks_last n p'"
  using assms(1)
proof (cases rule: pool_step.cases)
  case (take_job i j q)
  from breaks_last_take [OF assms(2) take_job(2-4)] show ?thesis unfolding take_job(1) .
next
  case (decide i j)
  then have "sum_list (map stopping ((workers p)[i := decide_job g (thread_exit p) j]))
      = sum_list (map stopping (workers p))"
    by (intro stopping_update) (simp_all add: stopping_decide)
  with assms(2) show ?thesis unfolding decide(1) breaks_last_def by simp
next
  case (finish i j cmd)
  then have "sum_list (map stopping ((workers p)[i := Holding (finish_job (exec cmd (cwd j)) j)]))
      = sum_list (map stopping (workers p))"
    by (intro stopping_update) simp_all
  with assms(2) show ?thesis unfolding finish(1) breaks_last_def by simp
next
  case (give_back i j)
  then have "sum_list (map stopping ((workers p)[i := Idle])) = sum_list (map stopping (workers p))"
    by (intro stopping_update) simp_all
  with assms(2) show ?thesis unfolding give_back(1) breaks_last_def by simp
qed (use assms(2) in \<open>simp_all add: breaks_last_def q_put_def\<close>)

lemma reachable_breaks_last:
  assumes "reachable g exec jobs n p" and "list_all (\<lambda>j. \<not> is_break j) jobs"
  shows "breaks_last (nat n) p"
  using assms(1)
proof (induction rule: reachable_induct)
  case start
  from assms(2) show ?case
    unfolding breaks_last_def
    by (intro exI [of _ jobs] exI [of _ "nat n"]) (simp add: start_pool_def sum_list_replicate)
next
  case (step p p')
  then show ?case by (blast intro: pool_step_breaks_last)
qed (simp add: breaks_last_def)

text \<open>A worker that has stopped, or is about to, leaves no job behind.\<close>

lemma breaks_last_no_jobs:
  assumes "breaks_last n p" and "i < length (workers p)" "workers p ! i = Stopped"
  shows "input_queue p @ to_put p = replicate (length (input_queue p @ to_put p)) break_job"
    and "length (input_queue p @ to_put p) + sum_list (map stopping (workers p)) = n"
proof -
  have "Stopped \<in> set (workers p)" using assms(2,3) by (metis nth_mem)
  then have "stopping Stopped \<in> set (map stopping (workers p))" unfolding set_map by (rule imageI)
  from member_le_sum_list [OF this] have pos: "sum_list (map stopping (workers p)) \<noteq> 0" unfolding stopping.simps by linarith
  from assms(1) obtain a m where a: "input_queue p @ to_put p = a @ replicate m break_job"
    and z: "a \<noteq> [] \<longrightarrow> sum_list (map stopping (workers p)) = 0"
    and m: "m + sum_list (map stopping (workers p)) = n"
    unfolding breaks_last_def by (elim exE conjE)
  from z pos have "a = []" by blast
  with a have e: "input_queue p @ to_put p = replicate m break_job" by simp
  then have l: "length (input_queue p @ to_put p) = m" by simp
  show "input_queue p @ to_put p = replicate (length (input_queue p @ to_put p)) break_job"
    unfolding l by (rule e)
  show "length (input_queue p @ to_put p) + sum_list (map stopping (workers p)) = n"
    unfolding l by (rule m)
qed

context job_value
begin

lemma reachable_mset:
  assumes "reachable g exec jobs n p" and "thread_exit p \<longrightarrow> intr"
    and jobs: "list_all (\<lambda>j. \<not> is_break j) jobs"
  shows "mset (in_order v u p) = image_mset v (mset jobs)"
  using assms(1,2)
proof (induction rule: reachable_induct)
  case start
  from jobs have "filter (\<lambda>j. \<not> is_break j) jobs = jobs" by (simp add: list_all_iff filter_id_conv)
  then show ?case
    by (simp add: in_order_def start_pool_def break_job_def filter_replicate map_replicate_const)
next
  case (step p p')
  from pool_step_exit [OF step(2)] step(4) have e: "thread_exit p \<longrightarrow> intr" by blast
  from step_mset [OF step(2) reachable_workers_ok [OF step(1)] e] step.IH [OF e] show ?case by simp
next
  case (signal p)
  then show ?case by (simp add: in_order_def)
qed

lemma reachable_list:
  assumes "reachable g exec jobs 1 p" and "thread_exit p \<longrightarrow> intr"
    and jobs: "list_all (\<lambda>j. \<not> is_break j) jobs"
  shows "in_order v u p = map v jobs"
  using assms(1,2)
proof (induction rule: reachable_induct)
  case start
  from jobs have "filter (\<lambda>j. \<not> is_break j) jobs = jobs" by (simp add: list_all_iff filter_id_conv)
  then show ?case by (simp add: in_order_def start_pool_def break_job_def)
next
  case (step p p')
  from pool_step_exit [OF step(2)] step(4) have e: "thread_exit p \<longrightarrow> intr" by blast
  from reachable_length [OF step(1)] obtain w where "workers p = [w]"
    by (auto simp: length_Suc_conv)
  from step_list [OF step(2) reachable_workers_ok [OF step(1)] e this] step.IH [OF e] show ?case by simp
next
  case (signal p)
  then show ?case by (simp add: in_order_def)
qed

lemma finished_in_order:
  assumes "reachable g exec jobs n p" "finished p" and jobs: "list_all (\<lambda>j. \<not> is_break j) jobs"
    and alive: "list_all (\<lambda>w. w = Stopped) (workers p)" and empty: "input_queue p = []"
  shows "in_order v u p = map u (collected p @ output_queue p)"
proof -
  from alive have "concat (map (held v u) (workers p)) = []" by (auto simp: list_all_iff)
  with assms(2) empty show ?thesis by (simp add: in_order_def finished_def)
qed

end

text \<open>A job as it was before it was run, and a job with the results of its process.\<close>

definition plan :: "job \<Rightarrow> job" where
  "plan j = j\<lparr>is_break := False, returncode := 0, elapsed_time := 0\<rparr>"

definition execute_job :: "settings \<Rightarrow> executor \<Rightarrow> job \<Rightarrow> job" where
  "execute_job g exec j =
     (if is_skip j then j
      else (case worker_command g j of Inl _ \<Rightarrow> j | Inr cmd \<Rightarrow> finish_job (exec cmd (cwd j)) j))"

interpretation planned: job_value g exec plan plan True for g exec
  by unfold_locales (simp_all add: plan_def finish_job_def)

interpretation executed: job_value g exec "execute_job g exec" "\<lambda>j. j" False for g exec
  by unfold_locales (simp_all add: execute_job_def)

text \<open>What has been collected without an interruption are jobs with their results.\<close>

lemma collected_executed:
  assumes "reachable g exec jobs n p" "\<not> thread_exit p" "list_all (\<lambda>j. \<not> is_break j) jobs"
  shows "set (collected p) \<subseteq> execute_job g exec ` set jobs"
proof -
  have "mset (in_order (execute_job g exec) (\<lambda>j. j) p) = image_mset (execute_job g exec) (mset jobs)"
    using assms by (intro executed.reachable_mset) simp_all
  then have "set (in_order (execute_job g exec) (\<lambda>j. j) p) = execute_job g exec ` set jobs"
    by (metis set_image_mset set_mset_mset)
  then show ?thesis by (auto simp: in_order_def)
qed

section \<open>Progress\<close>

lemma job_command_Inr: "python g \<noteq> [] \<Longrightarrow> \<exists>cmd. job_command g c valgrind py path = Inr cmd"
  using py_nth_nonneg [of "python g" 0] by (simp add: job_command_def Let_def)

lemma decide_not_Died: "python g \<noteq> [] \<Longrightarrow> decide_job g e j \<noteq> Died j'"
proof -
  assume "python g \<noteq> []"
  then obtain cmd where "worker_command g j = Inr cmd"
    unfolding worker_command_def Let_def by (metis job_command_Inr)
  then show ?thesis by (simp add: decide_job_def)
qed

fun alive :: "worker \<Rightarrow> bool" where
  "alive (Died j) = False"
| "alive w = True"

lemma reachable_alive:
  assumes "reachable g exec jobs n p" "python g \<noteq> []"
  shows "list_all alive (workers p)"
  using assms(1)
proof (induction rule: reachable_induct)
  case start
  show ?case by (simp add: start_pool_def list_all_iff)
next
  case (step p p')
  have d: "alive (decide_job g e j)" for e j
    using decide_not_Died [OF assms(2), of e j] by (cases "decide_job g e j") auto
  from step(2,3) show ?case
    by (cases rule: pool_step.cases) (auto simp: list_all_length nth_list_update d)
qed simp

text \<open>A worker that cannot take a step has stopped, or waits at an empty queue.\<close>

lemma worker_stuck:
  assumes "\<nexists>p'. pool_step g exec p p'" "i < length (workers p)" "alive (workers p ! i)"
  shows "workers p ! i = Stopped \<or> (workers p ! i = Idle \<and> input_queue p = [])"
proof (cases "workers p ! i")
  case Idle
  then show ?thesis
    using assms(1,2) take_job [of i p] by (cases "input_queue p") (auto simp: q_get_def)
qed (use assms decide [of i p] finish [of i p] give_back [of i p] in auto)

section \<open>Schedules\<close>

text \<open>
  The same steps as functions: \<open>main_step\<close> is the next step of the main thread and
  \<open>thread_step i\<close> that of worker \<open>i\<close>, if it can take one. A schedule is a list of
  threads, 0 for the main thread; a thread that cannot take a step is passed over.
\<close>

definition main_step :: "pool \<Rightarrow> pool option" where
  "main_step p =
     (case to_put p of
        j # js \<Rightarrow> Some (p\<lparr>to_put := js, input_queue := q_put (input_queue p) j\<rparr>)
      | [] \<Rightarrow>
     (case to_get p of
        Suc n \<Rightarrow> (case q_get (output_queue p) of
            None \<Rightarrow> None
          | Some (j, q) \<Rightarrow> Some (p\<lparr>to_get := n, output_queue := q, collected := collected p @ [j]\<rparr>))
      | 0 \<Rightarrow>
          if joined p < length (workers p) then
            (case workers p ! joined p of
               Stopped \<Rightarrow> Some (p\<lparr>joined := Suc (joined p)\<rparr>)
             | Died _ \<Rightarrow> Some (p\<lparr>joined := Suc (joined p)\<rparr>)
             | _ \<Rightarrow> None)
          else None))"

definition thread_step :: "settings \<Rightarrow> executor \<Rightarrow> nat \<Rightarrow> pool \<Rightarrow> pool option" where
  "thread_step g exec i p =
     (if i < length (workers p) then
       (case workers p ! i of
          Idle \<Rightarrow> (case q_get (input_queue p) of
              None \<Rightarrow> None
            | Some (j, q) \<Rightarrow> Some (p\<lparr>workers := (workers p)[i := Got j], input_queue := q\<rparr>))
        | Got j \<Rightarrow> Some (p\<lparr>workers := (workers p)[i := decide_job g (thread_exit p) j]\<rparr>)
        | Running j cmd \<Rightarrow> Some (p\<lparr>workers := (workers p)[i := Holding (finish_job (exec cmd (cwd j)) j)]\<rparr>)
        | Holding j \<Rightarrow> Some (p\<lparr>workers := (workers p)[i := Idle], output_queue := q_put (output_queue p) j\<rparr>)
        | _ \<Rightarrow> None)
      else None)"

fun schedule_step :: "settings \<Rightarrow> executor \<Rightarrow> nat \<Rightarrow> pool \<Rightarrow> pool option" where
  "schedule_step g exec 0 p = main_step p"
| "schedule_step g exec (Suc i) p = thread_step g exec i p"

fun run_schedule :: "settings \<Rightarrow> executor \<Rightarrow> nat list \<Rightarrow> pool \<Rightarrow> pool" where
  "run_schedule g exec [] p = p"
| "run_schedule g exec (k # ks) p =
     run_schedule g exec ks (case schedule_step g exec k p of None \<Rightarrow> p | Some p' \<Rightarrow> p')"

lemma schedule_step_sound: "schedule_step g exec k p = Some p' \<Longrightarrow> pool_step g exec p p'"
  by (cases k)
     (auto simp: main_step_def thread_step_def intro: pool_step.intros split: list.splits nat.splits option.splits
        worker.splits if_splits)

lemma schedule_step_complete:
  assumes "pool_step g exec p p'"
  shows "\<exists>k. schedule_step g exec k p = Some p'"
  using assms
proof (cases rule: pool_step.cases)
  case (dispatch j js)
  then have "schedule_step g exec 0 p = Some p'" by (simp add: main_step_def)
  then show ?thesis ..
next
  case (collect n j q)
  then have "schedule_step g exec 0 p = Some p'" by (simp add: main_step_def)
  then show ?thesis ..
next
  case (join_thread j)
  then have "schedule_step g exec 0 p = Some p'" by (auto simp: main_step_def)
  then show ?thesis ..
next
  case (take_job i j q)
  then have "schedule_step g exec (Suc i) p = Some p'" by (simp add: thread_step_def)
  then show ?thesis ..
next
  case (decide i j)
  then have "schedule_step g exec (Suc i) p = Some p'" by (simp add: thread_step_def)
  then show ?thesis ..
next
  case (finish i j cmd)
  then have "schedule_step g exec (Suc i) p = Some p'" by (simp add: thread_step_def)
  then show ?thesis ..
next
  case (give_back i j)
  then have "schedule_step g exec (Suc i) p = Some p'" by (simp add: thread_step_def)
  then show ?thesis ..
qed

lemma pool_step_iff: "pool_step g exec p p' \<longleftrightarrow> (\<exists>k. schedule_step g exec k p = Some p')"
  using schedule_step_sound schedule_step_complete by blast

lemma reachable_start: "reachable g exec jobs n (start_pool jobs n)"
  by (simp add: reachable_def)

lemma reachable_schedule:
  "reachable g exec jobs n p \<Longrightarrow> reachable g exec jobs n (run_schedule g exec ks p)"
proof (induction ks arbitrary: p)
  case (Cons k ks)
  show ?case
  proof (cases "schedule_step g exec k p")
    case None
    with Cons show ?thesis by simp
  next
    case (Some p')
    from Cons.prems system_step.program [OF schedule_step_sound [OF Some]]
    have "reachable g exec jobs n p'" by (simp add: reachable_def)
    with Some show ?thesis by (simp add: Cons.IH)
  qed
qed simp

section \<open>The threads finish\<close>

lemma joined_stopped:
  assumes "reachable g exec jobs n p"
  shows "joined p \<le> length (workers p) \<and> (\<forall>i<joined p. workers p ! i = Stopped \<or> (\<exists>j. workers p ! i = Died j))"
  using assms
proof (induction rule: reachable_induct)
  case start
  then show ?case by (simp add: start_pool_def)
next
  case (step p p')
  from step(2,3) show ?case
    by (cases rule: pool_step.cases) (auto simp: nth_list_update less_Suc_eq)
qed simp

text \<open>What holds once every worker has stopped.\<close>

lemma stopped_complete:
  assumes r: "reachable g exec jobs n p" and jobs: "list_all (\<lambda>j. \<not> is_break j) jobs" and n: "0 < n"
    and stopped: "list_all (\<lambda>w. w = Stopped) (workers p)"
  shows "input_queue p = []" and "to_put p = []"
    and "mset (map plan (collected p @ output_queue p)) = image_mset plan (mset jobs)"
    and "\<not> thread_exit p \<Longrightarrow> mset (collected p @ output_queue p) = image_mset (execute_job g exec) (mset jobs)"
proof -
  from reachable_length [OF r] n have len: "length (workers p) = nat n" "0 < length (workers p)" by simp_all
  from stopped len(2) have 0: "workers p ! 0 = Stopped" by (simp add: list_all_length)
  have "map stopping (workers p) = map (\<lambda>_. 1) (workers p)" using stopped by (auto simp: list_all_iff)
  then have s: "sum_list (map stopping (workers p)) = nat n" using len(1)
    by (simp add: map_replicate_const sum_list_replicate)
  from breaks_last_no_jobs(2) [OF reachable_breaks_last [OF r jobs] len(2) 0] s
  have "length (input_queue p @ to_put p) = 0" by linarith
  then show i: "input_queue p = []" and t: "to_put p = []" by simp_all
  have h: "concat (map (held v u) (workers p)) = []" for v u :: "job \<Rightarrow> job"
    using stopped by (auto simp: list_all_iff)
  from planned.reachable_mset [OF r _ jobs]
  show "mset (map plan (collected p @ output_queue p)) = image_mset plan (mset jobs)"
    unfolding in_order_def i t h by simp
  show "\<not> thread_exit p \<Longrightarrow> mset (collected p @ output_queue p) = image_mset (execute_job g exec) (mset jobs)"
    using executed.reachable_mset [OF r _ jobs] unfolding in_order_def i t h by simp
qed

lemma stuck_stopped:
  assumes r: "reachable g exec jobs n p" and jobs: "list_all (\<lambda>j. \<not> is_break j) jobs" and "python g \<noteq> []"
    and stuck: "\<nexists>p'. pool_step g exec p p'"
  shows "list_all (\<lambda>w. w = Stopped) (workers p)"
proof -
  from stuck dispatch [of p] have t: "to_put p = []" by (cases "to_put p") auto
  from reachable_alive [OF r assms(3)] have alive: "alive (workers p ! i)" if "i < length (workers p)" for i
    using that by (simp add: list_all_length)
  note w = worker_stuck [OF stuck _ alive]
  show ?thesis
  proof (cases "input_queue p = []")
    case True
    from reachable_breaks_last [OF r jobs] True t
    have "sum_list (map stopping (workers p)) = nat n" by (auto simp: breaks_last_def)
    then have "sum_list (map stopping (workers p)) = length (workers p)" by (simp add: reachable_length [OF r])
    moreover have "list_all (\<lambda>w. stopping w \<le> 1) ws \<Longrightarrow> sum_list (map stopping ws) = length ws \<Longrightarrow>
        list_all (\<lambda>w. stopping w = 1) ws" for ws
    proof (induction ws)
      case (Cons x ws)
      have "list_all (\<lambda>w. stopping w \<le> 1) ws \<Longrightarrow> sum_list (map stopping ws) \<le> length ws" for ws
        by (induction ws) auto
      from this [of ws] Cons show ?case by auto
    qed simp
    moreover have "stopping w \<le> 1" for w by (cases w) auto
    ultimately have "list_all (\<lambda>w. stopping w = 1) (workers p)" by (simp add: list_all_iff)
    with w show ?thesis by (fastforce simp: list_all_length)
  next
    case False
    with w show ?thesis by (auto simp: list_all_length)
  qed
qed

lemma finished_stopped:
  assumes "reachable g exec jobs n p" "finished p" "python g \<noteq> []"
  shows "list_all (\<lambda>w. w = Stopped) (workers p)"
  using joined_stopped [OF assms(1)] reachable_alive [OF assms(1,3)] assms(2)
  by (fastforce simp: finished_def list_all_length)

lemma stopped_output:
  assumes r: "reachable g exec jobs n p" and "list_all (\<lambda>j. \<not> is_break j) jobs" "0 < n"
    and "list_all (\<lambda>w. w = Stopped) (workers p)"
  shows "length (output_queue p) = to_get p"
proof -
  from stopped_complete(3) [OF assms] have "length (collected p @ output_queue p) = length jobs"
    by (metis length_map size_image_mset size_mset)
  with reachable_count [OF r] show ?thesis by simp
qed

lemma stuck_finished:
  assumes r: "reachable g exec jobs n p" and jobs: "list_all (\<lambda>j. \<not> is_break j) jobs"
    and py: "python g \<noteq> []" and n: "0 < n" and stuck: "\<nexists>p'. pool_step g exec p p'"
  shows "finished p"
proof (rule ccontr)
  assume nf: "\<not> finished p"
  note stopped = stuck_stopped [OF r jobs py stuck]
  note t = stopped_complete(2) [OF r jobs n stopped]
  show False
  proof (cases "to_get p")
    case 0
    with nf t joined_stopped [OF r] have j: "joined p < length (workers p)" by (auto simp: finished_def)
    with stopped have "workers p ! joined p = Stopped" by (simp add: list_all_length)
    with stuck join_thread [OF t 0 j] show False by blast
  next
    case (Suc m)
    with stopped_output [OF r jobs n stopped] obtain j q where "q_get (output_queue p) = Some (j, q)"
      by (cases "output_queue p") (auto simp: q_get_def)
    with stuck collect [OF t Suc] show False by blast
  qed
qed

text \<open>A run that is not interrupted can be continued to its end.\<close>

lemma pool_finishes:
  assumes "list_all (\<lambda>j. \<not> is_break j) jobs" "python g \<noteq> []" "0 < n"
  shows "\<exists>p. reachable g exec jobs n p \<and> finished p \<and> \<not> thread_exit p"
proof -
  have "\<exists>p'. reachable g exec jobs n p' \<and> finished p' \<and> \<not> thread_exit p'"
    if "reachable g exec jobs n p" "\<not> thread_exit p" for p
    using that
  proof (induction "pool_measure p" arbitrary: p rule: less_induct)
    case less
    show ?case
    proof (cases "\<exists>p'. pool_step g exec p p'")
      case True
      then obtain p' where s: "pool_step g exec p p'" ..
      from less.prems(1) system_step.program [OF s] have "reachable g exec jobs n p'" by (simp add: reachable_def)
      moreover have "\<not> thread_exit p'" using s less.prems(2) by (cases rule: pool_step.cases) simp_all
      ultimately show ?thesis using less.hyps [OF pool_step_measure [OF s]] by blast
    next
      case False
      from stuck_finished [OF less.prems(1) assms False] less.prems show ?thesis by blast
    qed
  qed
  from this [OF reachable_start] show ?thesis by (simp add: start_pool_def)
qed

lemma finished_collected:
  assumes r: "reachable g exec jobs n p" and f: "finished p" and jobs: "list_all (\<lambda>j. \<not> is_break j) jobs"
    and py: "python g \<noteq> []" and n: "0 < n" and e: "\<not> thread_exit p"
  shows "mset (collected p) = image_mset (execute_job g exec) (mset jobs)"
proof -
  note s = finished_stopped [OF r f py]
  from stopped_output [OF r jobs n s] f have "output_queue p = []" by (simp add: finished_def)
  with stopped_complete(4) [OF r jobs n s e] show ?thesis by simp
qed

section \<open>Properties of the pool\<close>

text \<open>
  C23. However the main thread, the workers and the interrupt handler interleave, a run ends:
  it has at most seven steps for each job, eight for each worker, and one for the interrupt.
\<close>
theorem pool_terminates:
  "(system_step g exec ^^ k) (start_pool jobs n) p \<Longrightarrow> k \<le> 7 * length jobs + 8 * nat n + 1"
  using relpow_measure [of k g exec "start_pool jobs n" p] by (simp add: start_pool_measure)

text \<open>
  C6. No interleaving deadlocks: with at least one worker and a Python interpreter configured,
  as long as main has not finished some thread of the program can take a step.
\<close>
theorem pool_no_deadlock:
  assumes "reachable g exec jobs n p" and "list_all (\<lambda>j. \<not> is_break j) jobs"
    and "python g \<noteq> []" and "0 < n"
  shows "finished p \<or> (\<exists>p'. pool_step g exec p p')"
  using stuck_finished [OF assms] by blast

text \<open>
  C3. When main has finished, every worker has stopped, the queues are empty, and what was
  collected is each job exactly once; without an interrupt, each with its own result.
\<close>
theorem pool_complete:
  assumes r: "reachable g exec jobs n p" and f: "finished p" and jobs: "list_all (\<lambda>j. \<not> is_break j) jobs"
    and py: "python g \<noteq> []" and n: "0 < n"
  shows "list_all (\<lambda>w. w = Stopped) (workers p) \<and> input_queue p = [] \<and> output_queue p = []
    \<and> image_mset plan (mset (collected p)) = image_mset plan (mset jobs)
    \<and> (\<not> thread_exit p \<longrightarrow> mset (collected p) = image_mset (execute_job g exec) (mset jobs))"
proof -
  note s = finished_stopped [OF r f py]
  from stopped_output [OF r jobs n s] f have "output_queue p = []" by (simp add: finished_def)
  with s stopped_complete [OF r jobs n s] show ?thesis by simp
qed

text \<open>
  A single worker returns the results in the order in which the jobs were queued.
\<close>
theorem single_worker_in_order:
  assumes r: "reachable g exec jobs 1 p" and f: "finished p" and jobs: "list_all (\<lambda>j. \<not> is_break j) jobs"
    and py: "python g \<noteq> []"
  shows "map plan (collected p) = map plan jobs
    \<and> (\<not> thread_exit p \<longrightarrow> collected p = map (execute_job g exec) jobs)"
proof -
  note s = finished_stopped [OF r f py] and fin = stopped_complete [OF r jobs zero_less_one finished_stopped [OF r f py]]
  from stopped_output [OF r jobs zero_less_one s] f have o: "output_queue p = []" by (simp add: finished_def)
  have "map plan (collected p) = map plan jobs"
    using planned.finished_in_order [OF r f jobs s fin(1)] planned.reachable_list [OF r _ jobs] o by simp
  moreover have "\<not> thread_exit p \<Longrightarrow> collected p = map (execute_job g exec) jobs"
    using executed.finished_in_order [OF r f jobs s fin(1)] executed.reachable_list [OF r _ jobs] o by simp
  ultimately show ?thesis by simp
qed

text \<open>
  Without a worker, which a negative \<open>--jobs\<close> brings about, main never gets a result
  and never finishes.
\<close>
theorem no_workers_hang:
  assumes r: "reachable g exec jobs n p" and "n \<le> 0" and "jobs \<noteq> []"
  shows "\<not> finished p \<and> collected p = []"
proof -
  from r have "workers p = [] \<and> output_queue p = [] \<and> collected p = []"
  proof (induction rule: reachable_induct)
    case start
    from assms(2) show ?case by (simp add: start_pool_def)
  next
    case (step p p')
    from step(2,3) show ?case by (cases rule: pool_step.cases) (auto simp: q_get_def)
  qed simp
  with reachable_count [OF r] assms(3) show ?thesis by (simp add: finished_def)
qed

section \<open>A run with two workers\<close>

definition sample_settings :: settings where
  "sample_settings = \<lparr>ns3_basedir = ''/ns3'', ns3_builddir = ''/ns3/build'', python = [''python3''],
     opt_valgrind = False, opt_update_data = False\<rparr>"

definition sample_exec :: executor where
  "sample_exec cmd dir = \<lparr>p_returncode = (if contains cmd ''bad'' then 1 else 0), p_stdout = Some [],
     p_stderr = (if contains cmd ''binary'' then None else Some []), p_time = length cmd\<rparr>"

definition sample_jobs :: "job list" where
  "sample_jobs =
     [new_job\<lparr>display_name := ''good'', shell_command := ''good'', is_example := True\<rparr>,
      new_job\<lparr>display_name := ''bad'', shell_command := ''bad''\<rparr>,
      new_job\<lparr>display_name := ''skip'', is_skip := True\<rparr>,
      new_job\<lparr>display_name := ''py'', shell_command := ''binary.py'', is_pyexample := True\<rparr>]"

definition sample_run :: "nat list \<Rightarrow> int \<Rightarrow> pool" where
  "sample_run ks n = run_schedule sample_settings sample_exec ks (start_pool sample_jobs n)"

definition two_workers :: "nat list" where
  "two_workers = [0, 0, 0, 1, 1, 0, 0, 0] @ replicate 8 2 @ [1, 1] @ replicate 7 2 @ [1, 1, 0, 0, 0, 0, 0, 0]"

definition one_worker :: "nat list" where
  "one_worker = [0, 0, 0, 0, 0] @ replicate 20 1 @ [0, 0, 0, 0, 0, 0]"

lemma sample_reachable: "reachable sample_settings sample_exec sample_jobs n (sample_run ks n)"
  unfolding sample_run_def by (rule reachable_schedule) (rule reachable_start)

lemma sample_two: "finished (sample_run two_workers 2) \<and> \<not> thread_exit (sample_run two_workers 2)
    \<and> map display_name (collected (sample_run two_workers 2)) = [''bad'', ''skip'', ''good'', ''py'']"
  by code_simp

lemma sample_one: "finished (sample_run one_worker 1) \<and> \<not> thread_exit (sample_run one_worker 1)
    \<and> map returncode (collected (sample_run one_worker 1)) = [0, 1, 0, 1]"
  by code_simp

lemma sample_real: "list_all (\<lambda>j. \<not> is_break j) sample_jobs \<and> python sample_settings \<noteq> [] \<and> sample_jobs \<noteq> []"
  by code_simp

theorem pool_terminates_witness: "(3::nat) \<le> 7 * length sample_jobs + 8 * nat 2 + 1"
proof -
  have s: "system_step sample_settings sample_exec (sample_run ks 2) (sample_run (ks @ [k]) 2)"
    if "schedule_step sample_settings sample_exec k (sample_run ks 2) = Some (sample_run (ks @ [k]) 2)" for ks k
    by (rule system_step.program) (rule schedule_step_sound [OF that])
  have "schedule_step sample_settings sample_exec 0 (sample_run [] 2) = Some (sample_run ([] @ [0]) 2)" by code_simp
  note 1 = s [OF this]
  have "schedule_step sample_settings sample_exec 1 (sample_run [0] 2) = Some (sample_run ([0] @ [1]) 2)" by code_simp
  note 2 = s [OF this]
  have "schedule_step sample_settings sample_exec 1 (sample_run [0, 1] 2) = Some (sample_run ([0, 1] @ [1]) 2)" by code_simp
  note 3 = s [OF this]
  have "(system_step sample_settings sample_exec ^^ 3) (start_pool sample_jobs 2) (sample_run [0, 1, 1] 2)"
    using 1 2 3 by (auto simp: eval_nat_numeral sample_run_def)
  from pool_terminates [OF this] show ?thesis .
qed

theorem pool_no_deadlock_witness:
  "finished (sample_run [0, 0, 1, 1, 1] 2) \<or> (\<exists>p'. pool_step sample_settings sample_exec (sample_run [0, 0, 1, 1, 1] 2) p')"
  by (rule pool_no_deadlock [OF sample_reachable]) (use sample_real in simp_all)

theorem pool_complete_witness:
  "mset (collected (sample_run two_workers 2)) = image_mset (execute_job sample_settings sample_exec) (mset sample_jobs)"
  using pool_complete [OF sample_reachable, of two_workers 2] sample_two sample_real by simp

theorem single_worker_in_order_witness:
  "collected (sample_run one_worker 1) = map (execute_job sample_settings sample_exec) sample_jobs"
  using single_worker_in_order [OF sample_reachable, of one_worker] sample_one sample_real by simp

theorem no_workers_hang_witness: "\<not> finished (sample_run [0, 0, 0, 0, 0, 1] (- 1))"
  using no_workers_hang [OF sample_reachable, of "- 1" "[0, 0, 0, 0, 0, 1]"] sample_real by simp

end
