(* ===== verification/TestRun.thy ===== *)
theory TestRun
  imports TestJobs TestReport "HOL-Library.List_Lexorder" "HOL-Library.Char_ord"
begin

text \<open>
  The second half of \<open>run_tests\<close> in test.py: what the main thread does with each job it
  gets from the output queue (counters, progress line, entry in the results file), the
  summary, the reports asked for, and the exit status. The file with the results is taken to be
  writable once \<open>run_tests\<close> has made it.
\<close>

section \<open>Processing one result\<close>

record run_options =
  opt_duration :: bool
  opt_constrain :: string
  opt_html :: string
  opt_text :: string
  opt_xml :: string
  opt_retain :: bool
  opt_grind :: bool
  use_colors :: bool
  enable_tests :: bool
  enable_examples :: bool
  valgrind_found :: bool

record tallies =
  passed_tests :: nat
  failed_tests :: nat
  failed_testnames :: "string list"
  skipped_tests :: nat
  skipped_testnames :: "string list"
  crashed_tests :: nat
  crashed_testnames :: "string list"
  valgrind_errors :: nat
  valgrind_testnames :: "string list"
  results_xml :: "string list"
  printed :: "string list"

definition start_tallies :: tallies where
  "start_tallies =
     \<lparr>passed_tests = 0, failed_tests = 0, failed_testnames = [], skipped_tests = 0, skipped_testnames = [],
      crashed_tests = 0, crashed_testnames = [], valgrind_errors = 0, valgrind_testnames = [],
      results_xml = [''<?xml version='' @ dq ''1.0'' @ ''?>'' @ newline, ''<Results>'' @ newline], printed = []\<rparr>"

text \<open>\<open>%.3f\<close> of a number of thousandths.\<close>

definition show_thousandths :: "nat \<Rightarrow> string" where
  "show_thousandths t =
     (let f = t mod 1000
      in show_nat (t div 1000) @ ''.'' @ show_nat (f div 100) @ show_nat (f div 10 mod 10) @ show_nat (f mod 10))"

definition kind_of :: "job \<Rightarrow> string" where
  "kind_of j = (if is_example j \<or> is_pyexample j then ''Example'' else ''TestSuite'')"

definition status_of :: "job \<Rightarrow> string" where
  "status_of j =
     (if is_skip j then ''SKIP''
      else if returncode j = 0 then ''PASS''
      else if returncode j = 1 then ''FAIL''
      else if returncode j = 2 then ''VALGR''
      else ''CRASH'')"

definition status_color :: "job \<Rightarrow> string" where
  "status_color j =
     (if is_skip j then ''GREY''
      else if returncode j = 0 then ''GREEN''
      else if returncode j = 1 then ''RED''
      else if returncode j = 2 then ''CYAN''
      else ''PINK'')"

definition count_result :: "job \<Rightarrow> tallies \<Rightarrow> tallies" where
  "count_result j s =
     (if is_skip j then
        s\<lparr>skipped_tests := skipped_tests s + 1,
          skipped_testnames := skipped_testnames s @ [display_name j @ '' ('' @ skip_reason j @ '')'']\<rparr>
      else if returncode j = 0 then s\<lparr>passed_tests := passed_tests s + 1\<rparr>
      else if returncode j = 1 then
        s\<lparr>failed_tests := failed_tests s + 1, failed_testnames := failed_testnames s @ [display_name j]\<rparr>
      else if returncode j = 2 then
        s\<lparr>valgrind_errors := valgrind_errors s + 1, valgrind_testnames := valgrind_testnames s @ [display_name j]\<rparr>
      else
        s\<lparr>crashed_tests := crashed_tests s + 1, crashed_testnames := crashed_testnames s @ [display_name j]\<rparr>)"

definition progress_count :: "tallies \<Rightarrow> nat" where
  "progress_count s = passed_tests s + failed_tests s + skipped_tests s + crashed_tests s"

definition print_progress :: "run_options \<Rightarrow> nat \<Rightarrow> job \<Rightarrow> tallies \<Rightarrow> tallies" where
  "print_progress opts total_tests j s =
     (let status_print = get_color (use_colors opts) (status_color j) @ status_of j @ get_color (use_colors opts) ''NORMAL'';
          counter = ''['' @ show_nat (progress_count s) @ ''/'' @ show_nat total_tests @ ''] '';
          result = (if opt_duration opts \<or> opt_constrain opts = ''performance'' then
              status_print @ '' ('' @ show_thousandths (elapsed_time j) @ ''): '' @ kind_of j @ '' '' @ display_name j
            else status_print @ '': '' @ kind_of j @ '' '' @ display_name j)
      in s\<lparr>printed := printed s @ [counter, result @ newline]\<rparr>)"

definition xml_tag :: "string \<Rightarrow> string \<Rightarrow> string" where
  "xml_tag tag content = ''  <'' @ tag @ ''>'' @ content @ ''</'' @ tag @ ''>'' @ newline"

definition example_entry :: "job \<Rightarrow> string list" where
  "example_entry j =
     [''<Example>'' @ newline, xml_tag ''Name'' (display_name j), xml_tag ''Result'' (status_of j),
      ''  <Time real='' @ dq (show_thousandths (elapsed_time j)) @ ''/>'' @ newline, ''</Example>'' @ newline]"

definition skip_entry :: "job \<Rightarrow> string list" where
  "skip_entry j =
     [''<Test>'' @ newline, xml_tag ''Name'' (display_name j), xml_tag ''Result'' ''SKIP'',
      xml_tag ''Reason'' (skip_reason j), ''</Test>'' @ newline]"

definition crash_entry :: "job \<Rightarrow> string list" where
  "crash_entry j =
     [''<Test>'' @ newline, xml_tag ''Name'' (display_name j), xml_tag ''Result'' ''CRASH'', ''</Test>'' @ newline]"

text \<open>\<open>files\<close> gives the content of the temporary file that a test suite has written.\<close>

definition result_entry :: "(string \<Rightarrow> string option) \<Rightarrow> job \<Rightarrow> string list res" where
  "result_entry files j =
     (if is_example j \<or> is_pyexample j then Inr (example_entry j)
      else if is_skip j then Inr (skip_entry j)
      else if returncode j = 0 \<or> returncode j = 1 \<or> returncode j = 2 then
        (case files (tmp_file_name j) of
           None \<Rightarrow> Inl (OtherException ''FileNotFoundError'')
         | Some content \<Rightarrow> Inr [content])
      else Inr (crash_entry j))"

definition process_result ::
  "run_options \<Rightarrow> (string \<Rightarrow> string option) \<Rightarrow> nat \<Rightarrow> tallies \<Rightarrow> job \<Rightarrow> tallies res" where
  "process_result opts files total_tests s j =
     (if is_break j then Inr s
      else
        (let s = print_progress opts total_tests j (count_result j s)
         in and_then (result_entry files j) (\<lambda>entry. Inr (s\<lparr>results_xml := results_xml s @ entry\<rparr>))))"

definition process_results ::
  "run_options \<Rightarrow> (string \<Rightarrow> string option) \<Rightarrow> nat \<Rightarrow> job list \<Rightarrow> tallies res" where
  "process_results opts files total_tests js =
     and_then (for_each (process_result opts files total_tests) start_tallies js)
       (\<lambda>s. Inr (s\<lparr>results_xml := results_xml s @ [''</Results>'' @ newline]\<rparr>))"

section \<open>The end of a run\<close>

definition name_list :: "string \<Rightarrow> string list \<Rightarrow> string list" where
  "name_list kind names =
     (if names = [] then []
      else [''List of '' @ kind @ '':'' @ newline @ ''    '' @ join (newline @ ''    '') (sort names) @ newline])"

definition summary :: "nat \<Rightarrow> tallies \<Rightarrow> string list" where
  "summary total_tests s =
     [show_nat (passed_tests s) @ '' of '' @ show_nat total_tests @ '' tests passed ('' @ show_nat (passed_tests s)
        @ '' passed, '' @ show_nat (skipped_tests s) @ '' skipped, '' @ show_nat (failed_tests s) @ '' failed, ''
        @ show_nat (crashed_tests s) @ '' crashed, '' @ show_nat (valgrind_errors s) @ '' valgrind errors)'' @ newline]
     @ name_list ''SKIPped tests'' (skipped_testnames s)
     @ name_list ''FAILed tests'' (failed_testnames s)
     @ name_list ''CRASHed tests'' (crashed_testnames s)
     @ name_list ''VALGR failures'' (valgrind_testnames s)"

text \<open>The reports to make from the results file, in order.\<close>

datatype report = HtmlReport string | TextReport string | XmlReport string

definition reports :: "run_options \<Rightarrow> report list" where
  "reports opts =
     (if opt_html opts \<noteq> [] then [HtmlReport (opt_html opts)] else [])
     @ (if opt_text opts \<noteq> [] then [TextReport (opt_text opts)] else [])
     @ (if opt_xml opts \<noteq> [] then [XmlReport (opt_xml opts)] else [])"

text \<open>
  What the end of a run needs of the system: the content of the temporary files the suites
  have written, the XML parser, opening a file for writing, \<open>shutil.copyfile\<close> to a file, and
  \<open>shutil.rmtree\<close> of the output directory. Any of them may raise.
\<close>

record report_host =
  h_results :: "string \<Rightarrow> string option"
  h_parse :: "string list \<Rightarrow> xml res"
  h_open :: "string \<Rightarrow> unit res"
  h_copy :: "string \<Rightarrow> unit res"
  h_rmtree :: "unit res"

text \<open>
  A report is opened first, then the results are parsed and translated. An element that a
  translation needs and does not find raises out of it.
\<close>

definition translate_file ::
  "report_host \<Rightarrow> (xml \<Rightarrow> unit out) \<Rightarrow> string \<Rightarrow> string list \<Rightarrow> (string \<times> string list) res" where
  "translate_file h translate file results =
     and_then (h_open h file) (\<lambda>_.
     and_then (h_parse h results) (\<lambda>et.
       case translate et [] of (Inl e, _) \<Rightarrow> Inl e | (Inr _, f) \<Rightarrow> Inr (file, f)))"

fun write_report :: "report_host \<Rightarrow> string list \<Rightarrow> report \<Rightarrow> (string \<times> string list) res" where
  "write_report h results (HtmlReport name) = translate_file h translate_to_html (name @ ''.html'') results"
| "write_report h results (TextReport name) = translate_file h translate_to_text (name @ ''.txt'') results"
| "write_report h results (XmlReport name) =
     and_then (h_copy h (name @ ''.xml'')) (\<lambda>_. Inr (name @ ''.xml'', results))"

definition write_reports :: "report_host \<Rightarrow> run_options \<Rightarrow> string list \<Rightarrow> (string \<times> string list) list res" where
  "write_reports h opts results = map_res (write_report h results) (reports opts)"

text \<open>The output directory of the run goes unless it is to be retained.\<close>

definition clean_up :: "report_host \<Rightarrow> run_options \<Rightarrow> unit res" where
  "clean_up h opts = (if opt_retain opts then Inr () else h_rmtree h)"

definition hints :: "run_options \<Rightarrow> string list" where
  "hints opts =
     (if \<not> enable_tests opts \<or> \<not> enable_examples opts then
        [newline]
        @ (if \<not> enable_tests opts then
             [''***  Note: ns-3 tests are currently disabled. Enable them by adding'' @ newline,
              ''***  '' @ dq ''--enable-tests'' @ '' to ./waf configure or modifying your .ns3rc file.'' @ newline, newline]
           else [])
        @ (if \<not> enable_examples opts then
             [''***  Note: ns-3 examples are currently disabled. Enable them by adding'' @ newline,
              ''***  '' @ dq ''--enable-examples'' @ '' to ./waf configure or modifying your .ns3rc file.'' @ newline, newline]
           else [])
      else [])
     @ (if opt_grind opts \<and> \<not> valgrind_found opts then
          [newline, ''***  Note: you are trying to use valgrind, but valgrind could not be found'' @ newline,
           ''***  on your machine.  All tests and examples will crash or be skipped.'' @ newline, newline]
        else [])"

definition exit_status :: "nat \<Rightarrow> tallies \<Rightarrow> int" where
  "exit_status total_tests s = (if passed_tests s + skipped_tests s = total_tests then 0 else 1)"

record run_result =
  status :: int
  standard_output :: "string list"
  results_file :: "string list"
  written :: "(string \<times> string list) list"
  keep_files :: bool

definition finish_run :: "report_host \<Rightarrow> run_options \<Rightarrow> nat \<Rightarrow> job list \<Rightarrow> run_result res" where
  "finish_run h opts total_tests js =
     and_then (process_results opts (h_results h) total_tests js) (\<lambda>s.
     and_then (write_reports h opts (results_xml s)) (\<lambda>files.
     and_then (clean_up h opts) (\<lambda>_.
       Inr \<lparr>status = exit_status total_tests s,
            standard_output = printed s @ summary total_tests s
              @ (if reports opts \<noteq> [] then [newline] else []) @ hints opts,
            results_file = results_xml s, written = files, keep_files = opt_retain opts\<rparr>)))"

section \<open>What the counters count\<close>

definition has_status :: "string \<Rightarrow> job \<Rightarrow> bool" where
  "has_status st j \<longleftrightarrow> \<not> is_break j \<and> status_of j = st"

definition readable :: "(string \<Rightarrow> string option) \<Rightarrow> job \<Rightarrow> bool" where
  "readable files j \<longleftrightarrow> is_break j \<or> (\<exists>entry. result_entry files j = Inr entry)"

definition agrees :: "tallies \<Rightarrow> job list \<Rightarrow> bool" where
  "agrees s js \<longleftrightarrow>
     passed_tests s = length (filter (has_status ''PASS'') js)
     \<and> failed_tests s = length (filter (has_status ''FAIL'') js)
     \<and> skipped_tests s = length (filter (has_status ''SKIP'') js)
     \<and> crashed_tests s = length (filter (has_status ''CRASH'') js)
     \<and> valgrind_errors s = length (filter (has_status ''VALGR'') js)
     \<and> failed_testnames s = map display_name (filter (has_status ''FAIL'') js)
     \<and> skipped_testnames s = map (\<lambda>j. display_name j @ '' ('' @ skip_reason j @ '')'') (filter (has_status ''SKIP'') js)
     \<and> crashed_testnames s = map display_name (filter (has_status ''CRASH'') js)
     \<and> valgrind_testnames s = map display_name (filter (has_status ''VALGR'') js)"

lemma agrees_count: "agrees s js \<Longrightarrow> \<not> is_break j \<Longrightarrow> agrees (count_result j s) (js @ [j])"
  by (simp add: agrees_def count_result_def has_status_def status_of_def)

lemma agrees_break: "agrees s js \<Longrightarrow> is_break j \<Longrightarrow> agrees s (js @ [j])"
  by (simp add: agrees_def has_status_def)

lemma agrees_output [simp]:
  "agrees (s\<lparr>results_xml := x\<rparr>) js = agrees s js" "agrees (print_progress opts n j s) js = agrees s js"
  by (simp_all add: agrees_def print_progress_def Let_def)

lemma process_results_agree:
  assumes "process_results opts files n js = Inr s"
  shows "agrees s js"
proof -
  from assms obtain t where t: "for_each (process_result opts files n) start_tallies js = Inr t"
    and s: "s = t\<lparr>results_xml := results_xml t @ [''</Results>'' @ newline]\<rparr>"
    unfolding process_results_def by (auto simp: res_simps)
  from t have "agrees t js"
  proof (rule for_each_invariant [where I = "\<lambda>seen t. agrees t seen"])
    show "agrees start_tallies []" by (simp add: agrees_def start_tallies_def)
  next
    fix seen j t t'
    assume "agrees t seen" "process_result opts files n t j = Inr t'"
    then show "agrees t' (seen @ [j])"
      by (cases "is_break j") (auto simp: process_result_def Let_def res_simps agrees_break agrees_count)
  qed
  with s show ?thesis by simp
qed

lemma process_results_returns:
  "(\<exists>s. process_results opts files n js = Inr s) \<longleftrightarrow> list_all (readable files) js"
proof -
  have "(\<exists>s. for_each (process_result opts files n) t js = Inr s) \<longleftrightarrow> list_all (readable files) js" for t
  proof (induction js arbitrary: t)
    case (Cons j js)
    have "(\<exists>t'. process_result opts files n t j = Inr t') \<longleftrightarrow> readable files j"
      by (auto simp: process_result_def readable_def Let_def res_simps)
    with Cons show ?case by (auto simp: res_simps)
  qed simp
  then show ?thesis by (simp add: process_results_def res_simps)
qed

lemma has_status_split:
  "length (filter (has_status ''PASS'') js) + length (filter (has_status ''FAIL'') js)
     + length (filter (has_status ''SKIP'') js) + length (filter (has_status ''CRASH'') js)
     + length (filter (has_status ''VALGR'') js) = length (filter (\<lambda>j. \<not> is_break j) js)"
  by (induction js) (auto simp: has_status_def status_of_def)

lemma passed_or_skipped:
  "length (filter (has_status ''PASS'') js) + length (filter (has_status ''SKIP'') js)
     = length (filter (\<lambda>j. \<not> is_break j \<and> (is_skip j \<or> returncode j = 0)) js)"
  by (induction js) (auto simp: has_status_def status_of_def)

lemma length_filter_all: "length (filter P xs) = length xs \<longleftrightarrow> list_all P xs"
  by (metis filter_id_conv length_filter_less list_all_iff nat_less_le)

lemma process_results_error:
  "process_results opts files n js = Inl e \<Longrightarrow> e = OtherException ''FileNotFoundError''"
proof -
  have "for_each (process_result opts files n) t js = Inl e \<Longrightarrow> e = OtherException ''FileNotFoundError''" for t
    by (induction js arbitrary: t)
       (auto simp: res_simps process_result_def result_entry_def Let_def split: if_splits option.splits)
  then show "process_results opts files n js = Inl e \<Longrightarrow> ?thesis" by (auto simp: process_results_def res_simps)
qed

lemma sort_mset_eq: "mset xs = mset ys \<Longrightarrow> sort xs = sort ys"
  by (rule properties_for_sort) simp_all

lemma name_list_mset: "mset xs = mset ys \<Longrightarrow> name_list kind xs = name_list kind ys"
  using sort_mset_eq [of xs ys] mset_zero_iff [of xs] mset_zero_iff [of ys] by (auto simp: name_list_def)

lemma agrees_mset:
  assumes "agrees s js" "agrees s' js'" "mset js = mset js'"
  shows "summary n s = summary n s' \<and> exit_status n s = exit_status n s' \<and> progress_count s = progress_count s'"
proof -
  have f: "mset (filter P js) = mset (filter P js')" for P using assms(3) by simp
  have l: "length (filter P js) = length (filter P js')" for P using f [of P] by (metis size_mset)
  have m: "mset (map h (filter P js)) = mset (map h (filter P js'))" for P and h :: "job \<Rightarrow> string"
    using f [of P] by (simp add: mset_map)
  show ?thesis
    using assms(1,2) unfolding agrees_def summary_def exit_status_def progress_count_def
    by (simp add: l name_list_mset [OF m])
qed

section \<open>Properties of the results\<close>

lemma run_status:
  assumes "finish_run h opts (length js) js = Inr r"
  shows "status r = 0 \<longleftrightarrow> list_all (\<lambda>j. \<not> is_break j \<and> (is_skip j \<or> returncode j = 0)) js"
proof -
  from assms obtain s where s: "process_results opts (h_results h) (length js) js = Inr s"
    and r: "status r = exit_status (length js) s"
    by (auto simp: finish_run_def res_simps)
  from process_results_agree [OF s]
  have "passed_tests s + skipped_tests s = length (filter (\<lambda>j. \<not> is_break j \<and> (is_skip j \<or> returncode j = 0)) js)"
    by (simp add: agrees_def passed_or_skipped)
  then show ?thesis by (simp add: r exit_status_def length_filter_all)
qed

text \<open>
  The end of a run is reached when the result files can be read, the reports asked for can be
  written, whatever the results are, and the output directory can be removed.
\<close>

definition host_serves :: "report_host \<Rightarrow> run_options \<Rightarrow> bool" where
  "host_serves h opts \<longleftrightarrow> clean_up h opts = Inr () \<and> (\<forall>results. \<exists>files. write_reports h opts results = Inr files)"

lemma host_serves_no_reports:
  "reports opts = [] \<Longrightarrow> clean_up h opts = Inr () \<Longrightarrow> host_serves h opts"
  by (simp add: host_serves_def write_reports_def)

lemma finish_run_returns:
  assumes "host_serves h opts"
  shows "(\<exists>r. finish_run h opts n js = Inr r) \<longleftrightarrow> list_all (readable (h_results h)) js"
proof -
  have "clean_up h opts = Inr ()" "\<exists>files. write_reports h opts results = Inr files" for results
    using assms by (simp_all add: host_serves_def)
  then show ?thesis
    unfolding process_results_returns [symmetric, where opts = opts and n = n] finish_run_def and_then_eq_Inr by fast
qed

text \<open>
  The number on the last progress line falls short of the number of results by the number of
  the errors that valgrind reports.
\<close>

lemma progress_without_valgrind:
  assumes "process_results opts files n js = Inr s"
  shows "progress_count s + valgrind_errors s = length (filter (\<lambda>j. \<not> is_break j) js)"
  using process_results_agree [OF assms] has_status_split [of js]
  by (simp add: agrees_def progress_count_def)

text \<open>
  The order in which the results arrive does not matter: whether the run ends, the summary
  and the exit status depend only on which results there are.
\<close>
theorem summary_order_independent:
  assumes "mset js = mset js'"
  shows "case (process_results opts files n js, process_results opts files n js') of
     (Inr s, Inr s') \<Rightarrow> summary n s = summary n s' \<and> exit_status n s = exit_status n s'
       \<and> progress_count s = progress_count s'
   | (Inl e, Inl e') \<Rightarrow> e = e'
   | _ \<Rightarrow> False"
proof -
  have "list_all (readable files) js = list_all (readable files) js'"
    using mset_eq_setD [OF assms] by (simp add: list_all_iff)
  with process_results_returns [of opts files n js] process_results_returns [of opts files n js']
  have iff: "(\<exists>s. process_results opts files n js = Inr s) \<longleftrightarrow> (\<exists>s. process_results opts files n js' = Inr s)" by simp
  show ?thesis
  proof (cases "process_results opts files n js")
    case (Inl e)
    with iff obtain e' where e': "process_results opts files n js' = Inl e'"
      by (cases "process_results opts files n js'") auto
    show ?thesis
      unfolding Inl e' process_results_error [OF Inl] process_results_error [OF e'] by simp
  next
    case (Inr s)
    with iff obtain s' where s': "process_results opts files n js' = Inr s'" by auto
    from agrees_mset [OF process_results_agree [OF Inr] process_results_agree [OF s'] assms] Inr s'
    show ?thesis by simp
  qed
qed

section \<open>A sample of results\<close>

definition sample_options :: run_options where
  "sample_options = \<lparr>opt_duration = True, opt_constrain = [], opt_html = ''report'', opt_text = [], opt_xml = [],
     opt_retain = False, opt_grind = True, use_colors = False, enable_tests = True, enable_examples = True,
     valgrind_found = True\<rparr>"

definition sample_results :: "job list" where
  "sample_results =
     [new_job\<lparr>display_name := ''e'', is_example := True, returncode := 2, elapsed_time := 1234\<rparr>,
      new_job\<lparr>display_name := ''s'', tmp_file_name := ''s.xml''\<rparr>,
      new_job\<lparr>display_name := ''k'', is_skip := True, skip_reason := ''requires NSC''\<rparr>]"

definition sample_files :: "string \<Rightarrow> string option" where
  "sample_files name = (if name = ''s.xml'' then Some ''<Test/>'' else None)"

theorem summary_order_independent_witness:
  "case (process_results sample_options sample_files 3 sample_results,
         process_results sample_options sample_files 3 (rev sample_results)) of
     (Inr s, Inr s') \<Rightarrow> summary 3 s = summary 3 s' \<and> exit_status 3 s = exit_status 3 s'
       \<and> progress_count s = progress_count s'
   | (Inl e, Inl e') \<Rightarrow> e = e'
   | _ \<Rightarrow> False"
  by (rule summary_order_independent) simp

end
