(* ===== verification/TestSelect.thy ===== *)
theory TestSelect
  imports TestRun ConfigFile PyPath PyCase
begin

text \<open>
  The first half of \<open>run_tests\<close> in test.py: the waf configuration, the environment, the
  examples found in the directories of the build, the choice of test suites, and the jobs that
  the options select; and \<open>run_tests\<close> as a whole, with every way in which it can end. Python's
  \<open>eval\<close> and \<open>exec\<close>, the files and the processes are parameters.
\<close>

section \<open>Configuration\<close>

definition interesting_config_items :: "string list" where
  "interesting_config_items =
     [''NS3_ENABLED_MODULES'', ''NS3_ENABLED_CONTRIBUTED_MODULES'', ''NS3_MODULE_PATH'', ''NSC_ENABLED'',
      ''ENABLE_REAL_TIME'', ''ENABLE_THREADING'', ''ENABLE_EXAMPLES'', ''ENABLE_TESTS'', ''EXAMPLE_DIRECTORIES'',
      ''ENABLE_PYTHON_BINDINGS'', ''NSCLICK'', ''ENABLE_BRITE'', ''ENABLE_OPENFLOW'', ''APPNAME'',
      ''BUILD_PROFILE'', ''VERSION'', ''PYTHON'', ''VALGRIND_FOUND'']"

definition core_kinds :: "string list" where
  "core_kinds = [''core'', ''performance'', ''system'', ''unit'']"

definition core_valgrind_skip_tests :: "string list" where
  "core_valgrind_skip_tests =
     [''ns3-tcp-cwnd'', ''nsc-tcp-loss'', ''ns3-tcp-interoperability'', ''routing-click'',
      ''lte-rr-ff-mac-scheduler'', ''lte-tdmt-ff-mac-scheduler'', ''lte-fdmt-ff-mac-scheduler'',
      ''lte-pf-ff-mac-scheduler'', ''lte-tta-ff-mac-scheduler'', ''lte-fdbet-ff-mac-scheduler'',
      ''lte-ttbet-ff-mac-scheduler'', ''lte-fdtbfq-ff-mac-scheduler'', ''lte-tdtbfq-ff-mac-scheduler'',
      ''lte-pss-ff-mac-scheduler'']"

definition core_nsc_missing_skip_tests :: "string list" where
  "core_nsc_missing_skip_tests = [''ns3-tcp-cwnd'', ''nsc-tcp-loss'', ''ns3-tcp-interoperability'']"

text \<open>
  \<open>read_waf_config\<close>: the lock file gives the two directories, and every line of the cache
  that begins with an interesting name is executed, once for each such name.
\<close>

definition dir_value :: "(string \<Rightarrow> string res) \<Rightarrow> string \<Rightarrow> string res" where
  "dir_value eval_str l =
     (case split_on (CHR ''='') l of [key, val] \<Rightarrow> eval_str (strip val) | _ \<Rightarrow> Inl ValueError)"

definition read_dir_line ::
  "(string \<Rightarrow> string res) \<Rightarrow> string option \<times> string option \<Rightarrow> string \<Rightarrow> (string option \<times> string option) res" where
  "read_dir_line eval_str dirs l =
     and_then (if startswith l ''top_dir ='' then and_then (dir_value eval_str l) (\<lambda>d. Inr (Some d, snd dirs))
               else Inr dirs) (\<lambda>dirs.
       if startswith l ''out_dir ='' then and_then (dir_value eval_str l) (\<lambda>d. Inr (fst dirs, Some d))
       else Inr dirs)"

definition executed_lines :: "string list \<Rightarrow> string list" where
  "executed_lines ls = concat (map (\<lambda>l. map (\<lambda>_. l) (filter (startswith l) interesting_config_items)) ls)"

record 'g waf_config =
  waf_basedir :: string
  waf_builddir :: string
  waf_globals :: 'g

definition read_waf_config ::
  "(string \<Rightarrow> string res) \<Rightarrow> (string \<Rightarrow> 'g \<Rightarrow> 'g res) \<Rightarrow> (string \<Rightarrow> string list option) \<Rightarrow> string \<Rightarrow> 'g \<Rightarrow> 'g waf_config res" where
  "read_waf_config eval_str exec_line files platform glob =
     (let lock_name = ''.lock-waf_'' @ platform @ ''_build'';
          lock = (case files lock_name of Some ls \<Rightarrow> Some ls | None \<Rightarrow> files ''.lock-waf_linux2_build'')
      in case lock of
           None \<Rightarrow> Inl (OtherException ''SystemExit 2'')
         | Some ls \<Rightarrow>
             and_then (for_each (read_dir_line eval_str) (None, None) ls) (\<lambda>dirs.
               case dirs of
                 (Some top_dir, Some out_dir) \<Rightarrow>
                   (case files (out_dir @ ''/c4che/_cache.py'') of
                      None \<Rightarrow> Inl (OtherException ''FileNotFoundError'')
                    | Some cache \<Rightarrow>
                        and_then (for_each (\<lambda>glob l. exec_line l glob) glob (executed_lines cache)) (\<lambda>glob.
                          Inr \<lparr>waf_basedir = top_dir, waf_builddir = out_dir, waf_globals = glob\<rparr>))
               | _ \<Rightarrow> Inl UnboundLocalError))"

section \<open>Environment\<close>

text \<open>
  \<open>make_paths\<close>: the module path is appended to the variable of the platform. PYTHONPATH
  is overwritten before its old value would be used.
\<close>

definition append_paths :: "string \<Rightarrow> string \<Rightarrow> string list \<Rightarrow> (string, string) dict \<Rightarrow> (string, string) dict" where
  "append_paths var sep paths envr =
     (let envr = (if map_of envr var = None then AList.update var [] envr else envr)
      in foldl (\<lambda>envr path. AList.update var (the (map_of envr var) @ sep @ path) envr) envr paths)"

definition make_paths :: "string \<Rightarrow> string \<Rightarrow> string list \<Rightarrow> (string, string) dict \<Rightarrow> (string, string) dict" where
  "make_paths platform builddir module_path envr =
     (let have_pythonpath = map_of envr ''PYTHONPATH'' \<noteq> None;
          pypath = path_join (path_join builddir ''bindings'') ''python'';
          envr = AList.update ''PYTHONPATH'' pypath envr;
          envr = (if \<not> have_pythonpath then AList.update ''PYTHONPATH'' pypath envr
                  else AList.update ''PYTHONPATH'' (the (map_of envr ''PYTHONPATH'') @ '':'' @ pypath) envr)
      in if platform = ''darwin'' then append_paths ''DYLD_LIBRARY_PATH'' '':'' module_path envr
         else if platform = ''win32'' then append_paths ''PATH'' '';'' module_path envr
         else if platform = ''cygwin'' then append_paths ''PATH'' '':'' module_path envr
         else append_paths ''LD_LIBRARY_PATH'' '':'' module_path envr)"

section \<open>Examples\<close>

record build =
  appname :: string
  version :: string
  build_profile :: string
  nsc_enabled :: bool
  examples_on :: bool
  python_bindings_on :: bool
  example_directories :: "string list"
  enabled_modules :: "string list"
  contributed_modules :: "string list"
  builddir :: string
  cur_dir :: string

definition build_profile_suffix :: "build \<Rightarrow> string" where
  "build_profile_suffix b = (if build_profile b = ''release'' then [] else ''-'' @ build_profile b)"

definition program_name :: "build \<Rightarrow> string \<Rightarrow> string" where
  "program_name b name = appname b @ version b @ ''-'' @ name @ build_profile_suffix b"

record found_examples =
  example_tests :: "(string \<times> string \<times> string \<times> string) list"
  example_names_original :: "string list"
  python_tests :: "(string \<times> string) list"

definition with_arguments :: "string \<Rightarrow> string list \<Rightarrow> string" where
  "with_arguments path parts = (case parts of [_, arguments] \<Rightarrow> path @ '' '' @ arguments | _ \<Rightarrow> path)"

definition add_cpp_example ::
  "build \<Rightarrow> (string \<Rightarrow> bool) \<Rightarrow> string \<Rightarrow> found_examples \<Rightarrow> string \<times> string \<times> string \<Rightarrow> found_examples" where
  "add_cpp_example b path_exists cpp_executable_dir s ex =
     (case ex of (example_name_original, do_run, do_valgrind_run) \<Rightarrow>
       (let parts = split1 (CHR '' '') example_name_original;
            example_name = hd parts;
            example_path = path_join cpp_executable_dir (program_name b example_name);
            example_name = path_join (relpath (cur_dir b) cpp_executable_dir (builddir b)) example_name
        in if path_exists example_path then
             s\<lparr>example_tests := example_tests s
                 @ [(with_arguments example_name parts, with_arguments example_path parts, do_run, do_valgrind_run)],
               example_names_original := example_names_original s @ [example_name_original]\<rparr>
           else s))"

definition add_python_example ::
  "(string \<Rightarrow> bool) \<Rightarrow> string \<Rightarrow> found_examples \<Rightarrow> string \<times> string \<Rightarrow> found_examples" where
  "add_python_example path_exists python_script_dir s ex =
     (case ex of (name, do_run) \<Rightarrow>
       (let parts = split1 (CHR '' '') name;
            example_path = path_join python_script_dir (hd parts)
        in if path_exists example_path then
             s\<lparr>python_tests := python_tests s @ [(with_arguments example_path parts, do_run)]\<rparr>
           else s))"

record evaluation =
  eval_cpp :: "string \<Rightarrow> (string \<times> string \<times> string) list res"
  eval_python :: "string \<Rightarrow> (string \<times> string) list res"
  eval_names :: "string \<Rightarrow> string list res"
  eval_cond :: "string \<Rightarrow> bool res"

definition parse_examples_to_run_file ::
  "build \<Rightarrow> evaluation \<Rightarrow> (string \<Rightarrow> string list option) \<Rightarrow> (string \<Rightarrow> bool) \<Rightarrow> string \<Rightarrow> string \<Rightarrow> string
     \<Rightarrow> found_examples \<Rightarrow> found_examples res" where
  "parse_examples_to_run_file b ev files path_exists examples_to_run_path cpp_executable_dir python_script_dir s =
     (if files examples_to_run_path = None then Inr s
      else
        and_then (get_list_from_file (eval_cpp ev) (files examples_to_run_path) ''cpp_examples'') (\<lambda>cpp_examples.
        (let s = foldl (add_cpp_example b path_exists cpp_executable_dir) s cpp_examples
         in and_then (get_list_from_file (eval_python ev) (files examples_to_run_path) ''python_examples'') (\<lambda>python_examples.
              Inr (foldl (add_python_example path_exists python_script_dir) s python_examples)))))"

definition parse_directory ::
  "build \<Rightarrow> evaluation \<Rightarrow> (string \<Rightarrow> string list option) \<Rightarrow> (string \<Rightarrow> bool) \<Rightarrow> found_examples \<Rightarrow> string \<Rightarrow> found_examples res" where
  "parse_directory b ev files path_exists s directory =
     (let example_directory = path_join ''examples'' directory
      in parse_examples_to_run_file b ev files path_exists (path_join example_directory ''examples-to-run.py'')
           (path_join (builddir b) example_directory) example_directory s)"

text \<open>\<open>top_directory\<close> is \<open>src\<close> for the modules of ns-3 and \<open>contrib\<close> for contributed ones.\<close>

definition parse_module ::
  "build \<Rightarrow> evaluation \<Rightarrow> (string \<Rightarrow> string list option) \<Rightarrow> (string \<Rightarrow> bool) \<Rightarrow> string \<Rightarrow> found_examples \<Rightarrow> string
     \<Rightarrow> found_examples res" where
  "parse_module b ev files path_exists top_directory s module =
     (let module_directory = path_join top_directory (drop (length ''ns3-'') module);
          example_directory = path_join module_directory ''examples''
      in parse_examples_to_run_file b ev files path_exists
           (path_join (path_join module_directory ''test'') ''examples-to-run.py'')
           (path_join (builddir b) example_directory) example_directory s)"

definition find_examples ::
  "build \<Rightarrow> evaluation \<Rightarrow> (string \<Rightarrow> string list option) \<Rightarrow> (string \<Rightarrow> bool) \<Rightarrow> found_examples res" where
  "find_examples b ev files path_exists =
     and_then (for_each (parse_directory b ev files path_exists)
         \<lparr>example_tests = [], example_names_original = [], python_tests = []\<rparr> (example_directories b)) (\<lambda>s.
     and_then (for_each (parse_module b ev files path_exists ''src'') s (enabled_modules b)) (\<lambda>s.
       for_each (parse_module b ev files path_exists ''contrib'') s (contributed_modules b)))"

definition program_dictionary :: "string list \<Rightarrow> (string, string) dict" where
  "program_dictionary programs = foldl (\<lambda>d program. AList.update (basename program) program d) [] programs"

section \<open>Options\<close>

record test_options = run_options +
  opt_buildpath :: string
  opt_example :: string
  opt_fullness :: string
  opt_kinds :: bool
  opt_list :: bool
  opt_multiple :: bool
  opt_nowaf :: bool
  opt_pyexample :: string
  opt_suite :: string
  opt_nocolor :: bool
  opt_process_limit :: int

definition default_options :: test_options where
  "default_options =
     \<lparr>opt_duration = False, opt_constrain = [], opt_html = [], opt_text = [], opt_xml = [], opt_retain = False,
      opt_grind = False, use_colors = True, enable_tests = True, enable_examples = True, valgrind_found = True,
      opt_buildpath = [], opt_example = [], opt_fullness = ''QUICK'', opt_kinds = False, opt_list = False,
      opt_multiple = False, opt_nowaf = False, opt_pyexample = [], opt_suite = [], opt_nocolor = False,
      opt_process_limit = 0\<rparr>"

text \<open>
  The guard on colours in \<open>main\<close>: \<open>x and 'no' or 'auto' or 'yes'\<close> is \<open>no\<close> when
  the variable is set to something and \<open>auto\<close> otherwise.
\<close>

definition envcolor :: "(string, string) dict \<Rightarrow> string" where
  "envcolor envr = (case map_of envr ''NOCOLOR'' of Some (c # cs) \<Rightarrow> ''no'' | _ \<Rightarrow> ''auto'')"

definition choose_colors :: "(string, string) dict \<Rightarrow> test_options \<Rightarrow> test_options" where
  "choose_colors envr opts =
     (if opt_nocolor opts \<or> envcolor envr = ''no'' then opts\<lparr>use_colors := False\<rparr> else opts)"

definition waf_command :: "test_options \<Rightarrow> string" where
  "waf_command opts =
     (if opt_kinds opts \<or> opt_list opts \<or> (opt_constrain opts \<noteq> [] \<and> opt_constrain opts \<in> set core_kinds)
      then ''./waf --target=test-runner''
      else if opt_example opts \<noteq> [] then ''./waf --target='' @ basename (opt_example opts)
      else ''./waf'')"

definition processors :: "int \<Rightarrow> int \<Rightarrow> int" where
  "processors available process_limit =
     (if process_limit \<noteq> 0 then (if available < process_limit then available else process_limit) else available)"

section \<open>Test suites\<close>

text \<open>
  The standard output of a call of the test runner. Output that does not decode comes back as
  bytes, whose own \<open>decode()\<close> raises \<open>UnicodeDecodeError\<close>, a \<open>ValueError\<close>.
\<close>

definition call_runner :: "build \<Rightarrow> settings \<Rightarrow> executor \<Rightarrow> string \<Rightarrow> process res" where
  "call_runner b g exec arguments =
     run_job_synchronously g exec (path_join ''utils'' (program_name b ''test-runner'' @ arguments))
       (cur_dir b) False False []"

definition runner_output :: "build \<Rightarrow> settings \<Rightarrow> executor \<Rightarrow> string \<Rightarrow> string res" where
  "runner_output b g exec arguments =
     and_then (call_runner b g exec arguments) (\<lambda>p.
       case p_stdout p of None \<Rightarrow> Inl ValueError | Some out \<Rightarrow> Inr out)"

definition lines_of :: "string \<Rightarrow> string list" where
  "lines_of s = split_on (CHR 0x0A) s"

text \<open>The suites to run, and whether a single one was asked for.\<close>

definition choose_suites :: "build \<Rightarrow> settings \<Rightarrow> executor \<Rightarrow> test_options \<Rightarrow> (string list \<times> bool) res" where
  "choose_suites b g exec opts =
     (if opt_suite opts \<noteq> [] then
        and_then (runner_output b g exec '' --print-test-name-list'') (\<lambda>out.
          (let suites_found = fnmatch_filter (lines_of out) (opt_suite opts)
           in if suites_found = [] then Inl (OtherException ''SystemExit 2'')
              else Inr (lines_of (join newline suites_found), length suites_found = 1)))
      else if opt_example opts = [] \<and> opt_pyexample opts = [] then
        and_then (runner_output b g exec
            (if opt_constrain opts \<noteq> [] then '' --print-test-name-list --test-type='' @ opt_constrain opts
             else '' --print-test-name-list'')) (\<lambda>out. Inr (lines_of out, False))
      else Inr ([[]], False))"

text \<open>\<open>suite_list.remove(t)\<close> for each performance test that is in the list.\<close>

definition remove_performance :: "string list \<Rightarrow> string list \<Rightarrow> string list" where
  "remove_performance performance_tests suites = foldl (\<lambda>suites t. remove1 t suites) suites performance_tests"

definition suite_list :: "build \<Rightarrow> settings \<Rightarrow> executor \<Rightarrow> test_options \<Rightarrow> string list res" where
  "suite_list b g exec opts =
     and_then (choose_suites b g exec opts) (\<lambda>(suites, single_suite).
       if \<not> single_suite \<and> opt_constrain opts \<noteq> ''performance'' then
         and_then (runner_output b g exec '' --print-test-name-list --test-type=performance'') (\<lambda>out.
           Inr (remove_performance (lines_of out) suites))
       else Inr suites)"

section \<open>Jobs\<close>

definition suite_job :: "build \<Rightarrow> test_options \<Rightarrow> string \<Rightarrow> string \<Rightarrow> job" where
  "suite_job b opts output_dir test =
     (let multiple = (if opt_multiple opts then [] else '' --stop-on-failure'');
          fullness = (if opt_fullness opts \<noteq> [] then '' --fullness='' @ upper (opt_fullness opts) else '' --fullness=QUICK'');
          path_cmd = path_join ''utils'' (program_name b ''test-runner'' @ '' --test-name='' @ test @ multiple @ fullness);
          j = new_job\<lparr>is_example := False, is_pyexample := False, display_name := test,
                tmp_file_name := path_join output_dir (test @ ''.xml''), cwd := cur_dir b, basedir := cur_dir b,
                tempdir := output_dir, shell_command := path_cmd\<rparr>;
          j = (if opt_grind opts \<and> test \<in> set core_valgrind_skip_tests
               then j\<lparr>is_skip := True, skip_reason := ''crashes valgrind''\<rparr> else j)
      in if \<not> nsc_enabled b \<and> test \<in> set core_nsc_missing_skip_tests
         then j\<lparr>is_skip := True, skip_reason := ''requires NSC''\<rparr> else j)"

definition suite_jobs :: "build \<Rightarrow> test_options \<Rightarrow> string \<Rightarrow> string list \<Rightarrow> job list" where
  "suite_jobs b opts output_dir suites =
     map (suite_job b opts output_dir) (filter (\<lambda>t. t \<noteq> []) (map strip suites))"

definition example_job :: "build \<Rightarrow> string \<Rightarrow> string \<Rightarrow> string \<Rightarrow> string \<Rightarrow> job" where
  "example_job b output_dir buildpath name command =
     new_job\<lparr>is_example := True, is_pyexample := False, display_name := name, tmp_file_name := [],
       cwd := output_dir, basedir := cur_dir b, tempdir := output_dir, shell_command := command, build_path := buildpath\<rparr>"

definition pyexample_job :: "build \<Rightarrow> string \<Rightarrow> string \<Rightarrow> job" where
  "pyexample_job b output_dir test =
     new_job\<lparr>is_example := False, is_pyexample := True, display_name := test, tmp_file_name := [],
       cwd := output_dir, basedir := cur_dir b, tempdir := output_dir, shell_command := test, build_path := []\<rparr>"

text \<open>The last component of the program, without its arguments.\<close>

definition test_program :: "string \<Rightarrow> string" where
  "test_program test = basename (hd (split1 (CHR '' '') test))"

definition queue_example ::
  "build \<Rightarrow> test_options \<Rightarrow> (string \<Rightarrow> bool res) \<Rightarrow> (string, string) dict \<Rightarrow> string \<Rightarrow> job list
     \<Rightarrow> string \<times> string \<times> string \<times> string \<Rightarrow> job list res" where
  "queue_example b opts eval_c programs output_dir js ex =
     (case ex of (name, test, do_run, do_valgrind_run) \<Rightarrow>
       if map_of programs (test_program test) = None then Inr js
       else and_then (eval_c do_run) (\<lambda>run.
         if \<not> run then Inr js
         else
           (let j = example_job b output_dir (opt_buildpath opts) name test
            in if opt_grind opts then
                 and_then (eval_c do_valgrind_run) (\<lambda>v.
                   Inr (js @ [if \<not> v then j\<lparr>is_skip := True, skip_reason := ''skip in valgrind runs''\<rparr> else j]))
               else Inr (js @ [j]))))"

definition example_jobs ::
  "build \<Rightarrow> test_options \<Rightarrow> (string \<Rightarrow> bool res) \<Rightarrow> (string, string) dict \<Rightarrow> string
     \<Rightarrow> (string \<times> string \<times> string \<times> string) list \<Rightarrow> job list res" where
  "example_jobs b opts eval_c programs output_dir tests =
     (if opt_suite opts = [] \<and> opt_example opts = [] \<and> opt_pyexample opts = [] then
        (if (opt_constrain opts = [] \<or> opt_constrain opts = ''example'') \<and> examples_on b
         then for_each (queue_example b opts eval_c programs output_dir) [] tests else Inr [])
      else if opt_example opts \<noteq> [] then
        Inr (map (\<lambda>key.
               let example_path = abspath (cur_dir b) (the (map_of programs key))
               in example_job b output_dir (opt_buildpath opts) example_path example_path)
          (fnmatch_filter (keys programs) (program_name b (opt_example opts))))
      else Inr [])"

definition queue_pyexample ::
  "build \<Rightarrow> test_options \<Rightarrow> (string \<Rightarrow> bool res) \<Rightarrow> string list \<Rightarrow> string \<Rightarrow> job list \<Rightarrow> string \<times> string \<Rightarrow> job list res" where
  "queue_pyexample b opts eval_c scripts output_dir js ex =
     (case ex of (test, do_run) \<Rightarrow>
       if test_program test \<notin> set scripts then Inr js
       else and_then (eval_c do_run) (\<lambda>run.
         if \<not> run then Inr js
         else
           (let j = pyexample_job b output_dir test;
                j = (if opt_grind opts then j\<lparr>is_skip := True, skip_reason := ''skip in valgrind runs''\<rparr> else j);
                j = (if \<not> python_bindings_on b then j\<lparr>is_skip := True, skip_reason := ''requires Python bindings''\<rparr> else j)
            in Inr (js @ [j]))))"

definition pyexample_jobs ::
  "build \<Rightarrow> test_options \<Rightarrow> (string \<Rightarrow> bool res) \<Rightarrow> string list \<Rightarrow> string \<Rightarrow> (string \<times> string) list \<Rightarrow> job list res" where
  "pyexample_jobs b opts eval_c scripts output_dir tests =
     (if opt_suite opts = [] \<and> opt_example opts = [] \<and> opt_pyexample opts = [] then
        (if (opt_constrain opts = [] \<or> opt_constrain opts = ''pyexample'') \<and> examples_on b
         then for_each (queue_pyexample b opts eval_c scripts output_dir) [] tests else Inr [])
      else if opt_pyexample opts \<noteq> [] then
        Inr (if basename (opt_pyexample opts) \<notin> set scripts then []
             else [pyexample_job b output_dir (opt_pyexample opts)])
      else Inr [])"

text \<open>What \<open>run_tests\<close> puts on the input queue, in order, once the suites are chosen.\<close>

definition queue_jobs ::
  "build \<Rightarrow> test_options \<Rightarrow> (string \<Rightarrow> bool res) \<Rightarrow> string list \<Rightarrow> string list
     \<Rightarrow> found_examples \<Rightarrow> string \<Rightarrow> string list \<Rightarrow> job list res" where
  "queue_jobs b opts eval_c programs scripts found output_dir suites =
     and_then (example_jobs b opts eval_c (program_dictionary programs) output_dir (example_tests found)) (\<lambda>ejs.
     and_then (pyexample_jobs b opts eval_c scripts output_dir (python_tests found)) (\<lambda>pjs.
       Inr (suite_jobs b opts output_dir suites @ ejs @ pjs)))"

definition select_jobs ::
  "build \<Rightarrow> settings \<Rightarrow> executor \<Rightarrow> test_options \<Rightarrow> (string \<Rightarrow> bool res) \<Rightarrow> string list \<Rightarrow> string list
     \<Rightarrow> found_examples \<Rightarrow> string \<Rightarrow> job list res" where
  "select_jobs b g exec opts eval_c programs scripts found output_dir =
     and_then (suite_list b g exec opts) (queue_jobs b opts eval_c programs scripts found output_dir)"

section \<open>Listing\<close>

text \<open>
  The lines that \<open>--kinds\<close> and \<open>--list\<close> print; the test runner's exit status ends the
  list early.
\<close>

definition print_kinds :: "build \<Rightarrow> settings \<Rightarrow> executor \<Rightarrow> string option res" where
  "print_kinds b g exec =
     and_then (call_runner b g exec '' --print-test-type-list'') (\<lambda>p. Inr (p_stdout p))"

definition print_list :: "build \<Rightarrow> settings \<Rightarrow> executor \<Rightarrow> test_options \<Rightarrow> string list \<Rightarrow> string list res" where
  "print_list b g exec opts example_names =
     and_then (call_runner b g exec (if opt_constrain opts \<noteq> []
         then '' --print-test-name-list --print-test-types --test-type='' @ opt_constrain opts
         else '' --print-test-name-list --print-test-types'')) (\<lambda>p.
       if p_returncode p \<noteq> 0 then
         Inr [''test.py error:  test-runner return code returned '' @ show_int (p_returncode p),
              ''To debug, try running '' @ [CHR 0x27] @ ''./waf --run '' @ dq ''test-runner --print-test-name-list''
                @ [CHR 0x27] @ newline]
       else
         (case p_stdout p of
            None \<Rightarrow> Inl ValueError
          | Some out \<Rightarrow>
              Inr ([''Test Type    Test Name'', ''---------    ---------'']
                @ filter (\<lambda>item. strip item \<noteq> []) (sort (lines_of out))
                @ map (\<lambda>item. ''example      '' @ item) (sort example_names) @ [[]])))"

text \<open>
  Both: what \<open>--kinds\<close> prints, if it is given, and the lines of \<open>--list\<close>, if it is
  given. None in the first list is output that did not decode, printed as bytes.
\<close>

definition list_tests ::
  "build \<Rightarrow> settings \<Rightarrow> executor \<Rightarrow> test_options \<Rightarrow> string list \<Rightarrow> (string option list \<times> string list) res" where
  "list_tests b g exec opts example_names =
     and_then (if opt_kinds opts then and_then (print_kinds b g exec) (\<lambda>out. Inr [out]) else Inr []) (\<lambda>kinds.
     and_then (if opt_list opts then print_list b g exec opts example_names else Inr []) (\<lambda>lines.
       Inr (kinds, lines)))"

section \<open>A run of test.py\<close>

text \<open>
  What the code before the threads needs of the system, beside what its end needs: the
  interpreter (\<open>exec\<close> of a line of waf's cache and \<open>eval\<close>, which see the global variables), the
  files before and after waf has run, the exit status of waf's command, the directory made for
  the output (with \<open>results.xml\<close> begun in it) and the number of processors found.
\<close>

record test_host = report_host +
  h_eval_str :: "string \<Rightarrow> string res"
  h_exec_line :: "string \<Rightarrow> build \<times> settings \<Rightarrow> (build \<times> settings) res"
  h_evaluation :: "build \<Rightarrow> evaluation"
  h_globals :: "build \<times> settings"
  h_platform :: string
  h_config_files :: "string \<Rightarrow> string list option"
  h_waf :: "string \<Rightarrow> int"
  h_files :: "string \<Rightarrow> string list option"
  h_exists :: "string \<Rightarrow> bool"
  h_output_dir :: "string res"
  h_processors :: int

text \<open>
  How \<open>test.py\<close> ends: with the exit status of waf, with a list of tests, with an exception
  that nothing catches, not at all, or with the results of the tests.
\<close>

datatype test_end =
    WafFailed int
  | Listed "string option list" "string list"
  | Escaped py_error
  | Hangs
  | Completed run_result

text \<open>
  \<open>sys.exit(main(sys.argv))\<close>: a number is cut to the exit status of a process, \<open>None\<close>
  is 0, and an exception other than \<open>sys.exit(2)\<close> gives 1.
\<close>

fun process_status :: "test_end \<Rightarrow> int option" where
  "process_status (WafFailed n) = Some (n mod 256)"
| "process_status (Listed kinds lines) = Some 0"
| "process_status (Escaped e) = Some (if e = OtherException ''SystemExit 2'' then 2 else 1)"
| "process_status Hangs = None"
| "process_status (Completed r) = Some (status r mod 256)"

text \<open>Sequencing in \<open>run_tests\<close>: an exception ends the run.\<close>

definition proceed :: "'a res \<Rightarrow> ('a \<Rightarrow> test_end + 'b) \<Rightarrow> test_end + 'b" where
  "proceed m f = (case m of Inl e \<Rightarrow> Inl (Escaped e) | Inr x \<Rightarrow> f x)"

definition configure_run :: "'z test_host_scheme \<Rightarrow> test_options \<Rightarrow> (build \<times> settings) res" where
  "configure_run h opts =
     and_then (read_waf_config (h_eval_str h) (h_exec_line h) (h_config_files h) (h_platform h) (h_globals h)) (\<lambda>c.
       let (b, g) = waf_globals c
       in Inr (b\<lparr>builddir := waf_builddir c\<rparr>,
               g\<lparr>ns3_basedir := waf_basedir c, ns3_builddir := waf_builddir c, opt_valgrind := opt_grind opts\<rparr>))"

text \<open>
  The jobs are put on the queue when the threads already wait there. An exception at this
  point leaves them waiting: they are never told to stop, and the interpreter waits for them.
\<close>

definition dispatch_jobs ::
  "'z test_host_scheme \<Rightarrow> executor \<Rightarrow> test_options \<Rightarrow> build \<Rightarrow> settings \<Rightarrow> string list \<Rightarrow> string list
     \<Rightarrow> found_examples \<Rightarrow> test_end + settings \<times> job list" where
  "dispatch_jobs h exec opts b g programs scripts found =
     proceed (h_output_dir h) (\<lambda>output_dir.
     proceed (suite_list b g exec opts) (\<lambda>suites.
       case queue_jobs b opts (eval_cond (h_evaluation h b)) programs scripts found output_dir suites of
         Inl e \<Rightarrow> Inl (if 0 < processors (h_processors h) (opt_process_limit opts) then Hangs else Escaped e)
       | Inr jobs \<Rightarrow> Inr (g, jobs)))"

text \<open>What happens when waf has built: listing, if that is all that is asked for, or the jobs.\<close>

definition list_or_dispatch ::
  "'z test_host_scheme \<Rightarrow> executor \<Rightarrow> test_options \<Rightarrow> build \<Rightarrow> settings \<Rightarrow> test_end + settings \<times> job list" where
  "list_or_dispatch h exec opts b g =
     (case h_files h (path_join (builddir b) ''build-status.py'') of
        None \<Rightarrow> Inl (Escaped (OtherException ''SystemExit 2''))
      | Some build_status \<Rightarrow>
          (let names = eval_names (h_evaluation h b)
           in proceed (get_list_from_file names (Some build_status) ''ns3_runnable_programs'') (\<lambda>programs.
              proceed (get_list_from_file names (Some build_status) ''ns3_runnable_scripts'') (\<lambda>scripts.
              proceed (find_examples b (h_evaluation h b) (h_files h) (h_exists h)) (\<lambda>found.
                if opt_kinds opts \<or> opt_list opts then
                  proceed (list_tests b g exec opts (example_names_original found))
                    (\<lambda>(kinds, lines). Inl (Listed kinds lines))
                else dispatch_jobs h exec opts b g programs scripts found)))))"

text \<open>\<open>run_tests\<close> up to the last job: it either ends on the way, or the threads have the jobs.\<close>

definition prepare_run ::
  "'z test_host_scheme \<Rightarrow> executor \<Rightarrow> test_options \<Rightarrow> test_end + settings \<times> job list" where
  "prepare_run h exec opts =
     proceed (configure_run h opts) (\<lambda>(b, g).
       let waf_status = h_waf h (waf_command opts)
       in if \<not> opt_nowaf opts \<and> waf_status \<noteq> 0 then Inl (WafFailed waf_status)
          else list_or_dispatch h exec opts b g)"

text \<open>
  A run: it may end before the threads start; the main thread may raise at a result, when the
  threads have all they need to end; or all results are processed and all threads joined, and
  the rest of \<open>run_tests\<close> follows. \<open>interrupted\<close> says whether the interrupt handler has run.
\<close>

definition run_end :: "run_result res \<Rightarrow> test_end" where
  "run_end m = (case m of Inl e \<Rightarrow> Escaped e | Inr r \<Rightarrow> Completed r)"

inductive run_tests :: "test_host \<Rightarrow> executor \<Rightarrow> test_options \<Rightarrow> bool \<Rightarrow> test_end \<Rightarrow> bool"
  for h exec opts where
  ends_early: "prepare_run h exec opts = Inl e \<Longrightarrow> run_tests h exec opts interrupted e"
| result_fails: "prepare_run h exec opts = Inr (g, jobs) \<Longrightarrow>
    reachable g exec jobs (processors (h_processors h) (opt_process_limit opts)) p \<Longrightarrow>
    for_each (process_result (run_options.truncate opts) (h_results h) (length jobs)) start_tallies (collected p) = Inl e \<Longrightarrow>
    run_tests h exec opts (thread_exit p) (Escaped e)"
| run_to_end: "prepare_run h exec opts = Inr (g, jobs) \<Longrightarrow>
    reachable g exec jobs (processors (h_processors h) (opt_process_limit opts)) p \<Longrightarrow> finished p \<Longrightarrow>
    run_tests h exec opts (thread_exit p)
      (run_end (finish_run (report_host.truncate h) (run_options.truncate opts) (length jobs) (collected p)))"

inductive_cases run_testsE: "run_tests h exec opts interrupted e"

lemma proceed_simps [simp]:
  "proceed (Inl e) f = Inl (Escaped e)" "proceed (Inr x) f = f x"
  by (simp_all add: proceed_def)

lemma proceed_Inr: "proceed m f = Inr y \<longleftrightarrow> (\<exists>x. m = Inr x \<and> f x = Inr y)"
  by (cases m) auto

text \<open>The jobs of a run are those that \<open>select_jobs\<close> gives.\<close>

lemma dispatch_jobs_select:
  assumes "dispatch_jobs h exec opts b g programs scripts found = Inr (g', jobs)"
  shows "\<exists>output_dir. g' = g \<and>
    select_jobs b g exec opts (eval_cond (h_evaluation h b)) programs scripts found output_dir = Inr jobs"
proof -
  let ?queue = "queue_jobs b opts (eval_cond (h_evaluation h b)) programs scripts found"
  from assms obtain output_dir suites where "suite_list b g exec opts = Inr suites"
    and q: "(case ?queue output_dir suites of
        Inl e \<Rightarrow> Inl (if 0 < processors (h_processors h) (opt_process_limit opts) then Hangs else Escaped e)
      | Inr jobs \<Rightarrow> Inr (g, jobs)) = Inr (g', jobs)"
    by (auto simp: dispatch_jobs_def proceed_Inr)
  moreover from q have "g' = g \<and> ?queue output_dir suites = Inr jobs" by (cases "?queue output_dir suites") auto
  ultimately show ?thesis by (auto simp: select_jobs_def res_simps)
qed

lemma prepare_run_jobs:
  assumes "prepare_run h exec opts = Inr (g, jobs)"
  shows "\<exists>b eval_c programs scripts found output_dir.
    select_jobs b g exec opts eval_c programs scripts found output_dir = Inr jobs"
proof -
  from assms obtain b g' where "list_or_dispatch h exec opts b g' = Inr (g, jobs)"
    by (auto simp: prepare_run_def proceed_Inr Let_def split: if_splits)
  then obtain programs scripts found where "dispatch_jobs h exec opts b g' programs scripts found = Inr (g, jobs)"
    by (auto simp: list_or_dispatch_def proceed_Inr Let_def split: if_splits option.splits)
  from dispatch_jobs_select [OF this] show ?thesis by blast
qed

text \<open>How a run may end before the threads have the jobs, and that listing excludes running.\<close>

lemma proceed_Inl:
  "proceed m f = Inl y \<longleftrightarrow> (\<exists>e. m = Inl e \<and> y = Escaped e) \<or> (\<exists>x. m = Inr x \<and> f x = Inl y)"
  by (cases m) auto

lemma dispatch_jobs_ends:
  assumes "dispatch_jobs h exec opts b g programs scripts found = Inl e"
  shows "e = Hangs \<or> (\<exists>err. e = Escaped err)"
proof -
  let ?queue = "queue_jobs b opts (eval_cond (h_evaluation h b)) programs scripts found"
  have "e = Hangs \<or> (\<exists>err. e = Escaped err)"
    if "(case ?queue output_dir suites of
        Inl err \<Rightarrow> Inl (if 0 < processors (h_processors h) (opt_process_limit opts) then Hangs else Escaped err)
      | Inr jobs \<Rightarrow> Inr (g, jobs)) = Inl e" for output_dir suites
    using that by (cases "?queue output_dir suites") (auto split: if_splits)
  with assms show ?thesis by (auto simp: dispatch_jobs_def proceed_Inl)
qed

lemma list_or_dispatch_ends:
  assumes "list_or_dispatch h exec opts b g = Inl e"
  shows "e = Hangs \<or> (\<exists>err. e = Escaped err) \<or> (opt_kinds opts \<or> opt_list opts) \<and> (\<exists>kinds lines. e = Listed kinds lines)"
proof (cases "h_files h (path_join (builddir b) ''build-status.py'')")
  case (Some build_status)
  with assms show ?thesis
    by (auto simp: list_or_dispatch_def Let_def proceed_Inl split: if_splits dest!: dispatch_jobs_ends)
qed (use assms in \<open>auto simp: list_or_dispatch_def\<close>)

lemma prepare_run_ends:
  assumes "prepare_run h exec opts = Inl e"
  shows "e = Hangs \<or> (\<exists>err. e = Escaped err)
    \<or> (\<not> opt_nowaf opts \<and> h_waf h (waf_command opts) \<noteq> 0 \<and> e = WafFailed (h_waf h (waf_command opts)))
    \<or> (opt_kinds opts \<or> opt_list opts) \<and> (\<exists>kinds lines. e = Listed kinds lines)"
  using assms list_or_dispatch_ends [of h exec opts _ _ e]
  by (auto simp: prepare_run_def Let_def proceed_Inl split: if_splits)

section \<open>What is selected\<close>

lemma remove_performance_filter:
  "distinct suites \<Longrightarrow> remove_performance performance_tests suites = filter (\<lambda>t. t \<notin> set performance_tests) suites"
proof (induction performance_tests arbitrary: suites)
  case (Cons t ts)
  have r: "remove1 t suites = filter (\<lambda>u. u \<noteq> t) suites"
    using Cons.prems by (simp add: distinct_remove1_removeAll removeAll_filter_not_eq neq_commute)
  have "remove_performance (t # ts) suites = remove_performance ts (filter (\<lambda>u. u \<noteq> t) suites)"
    by (simp add: remove_performance_def r)
  also have "\<dots> = filter (\<lambda>u. u \<notin> set ts) (filter (\<lambda>u. u \<noteq> t) suites)"
    using Cons.prems by (intro Cons.IH) simp
  finally show ?case by (simp add: conj_commute)
qed (simp add: remove_performance_def)

lemma filter_eq_replicate: "filter (\<lambda>t. t = s) xs = replicate (count_list xs s) s"
  by (induction xs) simp_all

lemma lines_of_no_newline: "s \<in> set (lines_of out) \<Longrightarrow> lines_of s = [s]"
  unfolding lines_of_def by (intro split_on_fresh split_on_no_sep)

text \<open>
  \<open>--suite\<close> with a name that the test runner lists once selects that suite and nothing
  else, whatever kind of suite it is, a performance suite included.
\<close>
theorem single_suite_selected:
  assumes "opt_suite opts = s" "s \<noteq> []" "plain_pattern s"
    and "runner_output b g exec '' --print-test-name-list'' = Inr out"
    and "count_list (lines_of out) s = 1"
    and "opt_example opts = []" "opt_pyexample opts = []"
  shows "select_jobs b g exec opts eval_c programs scripts found output_dir = Inr (suite_jobs b opts output_dir [s])"
proof -
  have "filter (glob_match (parse_glob s)) (lines_of out) = filter (\<lambda>t. t = s) (lines_of out)"
    by (rule filter_cong) (simp_all add: glob_match_exact [OF assms(3)])
  also have "\<dots> = replicate (count_list (lines_of out) s) s"
    by (rule filter_eq_replicate)
  finally have f: "fnmatch_filter (lines_of out) s = [s]" using assms(5) by (simp add: fnmatch_filter_def)
  have "s \<in> set (lines_of out)" using assms(5) count_notin by fastforce
  then have "choose_suites b g exec opts = Inr ([s], True)"
    using assms(1,2,4) f by (simp add: choose_suites_def lines_of_no_newline)
  with assms show ?thesis
    by (simp add: select_jobs_def queue_jobs_def suite_list_def example_jobs_def pyexample_jobs_def)
qed

text \<open>
  Without \<open>--suite\<close>, \<open>--example\<close> and \<open>--pyexample\<close> the suites that run are those
  that the test runner lists, in its order, without the performance suites; only
  \<open>--constrain=performance\<close> keeps these.
\<close>
theorem performance_suites_left_out:
  assumes "opt_suite opts = []" "opt_example opts = []" "opt_pyexample opts = []"
    and "runner_output b g exec (if opt_constrain opts \<noteq> [] then '' --print-test-name-list --test-type='' @ opt_constrain opts
           else '' --print-test-name-list'') = Inr out"
    and "runner_output b g exec '' --print-test-name-list --test-type=performance'' = Inr perf"
    and "distinct (lines_of out)"
  shows "suite_list b g exec opts =
    Inr (if opt_constrain opts = ''performance'' then lines_of out
         else filter (\<lambda>t. t \<notin> set (lines_of perf)) (lines_of out))"
  using assms by (simp add: suite_list_def choose_suites_def remove_performance_filter)

text \<open>The tests of a default run, when no condition raises.\<close>

definition selected_example :: "(string \<Rightarrow> bool) \<Rightarrow> (string, string) dict \<Rightarrow> string \<times> string \<times> string \<times> string \<Rightarrow> bool" where
  "selected_example cond programs ex =
     (case ex of (name, test, do_run, do_valgrind_run) \<Rightarrow> test_program test \<in> set (keys programs) \<and> cond do_run)"

definition selected_example_job ::
  "build \<Rightarrow> test_options \<Rightarrow> (string \<Rightarrow> bool) \<Rightarrow> string \<Rightarrow> string \<times> string \<times> string \<times> string \<Rightarrow> job" where
  "selected_example_job b opts cond output_dir ex =
     (case ex of (name, test, do_run, do_valgrind_run) \<Rightarrow>
       (let j = example_job b output_dir (opt_buildpath opts) name test
        in if opt_grind opts \<and> \<not> cond do_valgrind_run
           then j\<lparr>is_skip := True, skip_reason := ''skip in valgrind runs''\<rparr> else j))"

lemma queue_example_selected:
  "queue_example b opts (\<lambda>c. Inr (cond c)) programs output_dir js ex =
     Inr (if selected_example cond programs ex then js @ [selected_example_job b opts cond output_dir ex] else js)"
  using map_of_keys [of programs] by (cases ex) (simp add: queue_example_def selected_example_def selected_example_job_def Let_def)

lemma queue_examples_selected:
  "for_each (queue_example b opts (\<lambda>c. Inr (cond c)) programs output_dir) js tests =
     Inr (js @ map (selected_example_job b opts cond output_dir) (filter (selected_example cond programs) tests))"
  by (induction tests arbitrary: js) (simp_all add: queue_example_selected)

text \<open>
  A run without a choice of suites or examples queues exactly the C++ examples whose program
  was built and whose condition holds, if examples are enabled and the run is not constrained to
  another kind; under valgrind those whose second condition fails are marked to be skipped.
\<close>
theorem examples_selected:
  assumes "opt_suite opts = []" "opt_example opts = []" "opt_pyexample opts = []"
  shows "example_jobs b opts (\<lambda>c. Inr (cond c)) programs output_dir tests =
    Inr (if examples_on b \<and> opt_constrain opts \<in> {[], ''example''}
         then map (selected_example_job b opts cond output_dir) (filter (selected_example cond programs) tests) else [])"
  using assms by (simp add: example_jobs_def queue_examples_selected)

text \<open>
  \<open>make_paths\<close> loses the PYTHONPATH of the user: what the variable held before does not
  influence what it holds afterwards, beyond the doubling of the directory of the bindings.
\<close>
theorem pythonpath_lost:
  assumes "map_of envr ''PYTHONPATH'' = Some old"
  shows "map_of (make_paths platform build_dir paths envr) ''PYTHONPATH'' =
    Some (path_join (path_join build_dir ''bindings'') ''python'' @ '':'' @ path_join (path_join build_dir ''bindings'') ''python'')"
proof -
  have a: "map_of (append_paths var sep paths d) ''PYTHONPATH'' = map_of d ''PYTHONPATH''" if "var \<noteq> ''PYTHONPATH''" for var sep d
  proof -
    have "map_of (foldl (\<lambda>envr path. AList.update var (the (map_of envr var) @ sep @ path) envr) d paths) ''PYTHONPATH''
        = map_of d ''PYTHONPATH''" for d
      using that by (induction paths arbitrary: d) (simp_all add: update_conv')
    with that show ?thesis by (simp add: append_paths_def Let_def update_conv')
  qed
  show ?thesis using assms by (simp add: make_paths_def Let_def a update_conv')
qed

section \<open>A build with three suites\<close>

definition sample_build :: build where
  "sample_build = \<lparr>appname = ''ns'', version = ''3.30'', build_profile = ''debug'', nsc_enabled = False,
     examples_on = True, python_bindings_on = False, example_directories = [''tcp''], enabled_modules = [''ns3-core''],
     contributed_modules = [], builddir = ''/ns3/build'', cur_dir = ''/ns3''\<rparr>"

definition sample_runner :: executor where
  "sample_runner cmd dir = \<lparr>p_returncode = 0,
     p_stdout = Some (if contains cmd ''--test-type=performance'' then ''perf'' @ newline
                      else ''nsc-tcp-loss'' @ newline @ ''perf'' @ newline @ ''unit-a'' @ newline),
     p_stderr = Some [], p_time = 0\<rparr>"

lemma sample_listing:
  "runner_output sample_build sample_settings sample_runner '' --print-test-name-list'' =
     Inr (''nsc-tcp-loss'' @ newline @ ''perf'' @ newline @ ''unit-a'' @ newline)"
  "runner_output sample_build sample_settings sample_runner '' --print-test-name-list --test-type=performance'' =
     Inr (''perf'' @ newline)"
  by code_simp+

theorem single_suite_selected_witness:
  "select_jobs sample_build sample_settings sample_runner (default_options\<lparr>opt_suite := ''perf''\<rparr>) (\<lambda>c. Inr True) [] []
     \<lparr>example_tests = [], example_names_original = [], python_tests = []\<rparr> ''out''
   = Inr (suite_jobs sample_build (default_options\<lparr>opt_suite := ''perf''\<rparr>) ''out'' [''perf''])"
proof (rule single_suite_selected [OF _ _ _ sample_listing(1)])
  show "plain_pattern ''perf''" by code_simp
  show "count_list (lines_of (''nsc-tcp-loss'' @ newline @ ''perf'' @ newline @ ''unit-a'' @ newline)) ''perf'' = 1"
    by code_simp
qed (simp_all add: default_options_def)

theorem performance_suites_left_out_witness:
  "suite_list sample_build sample_settings sample_runner default_options = Inr [''nsc-tcp-loss'', ''unit-a'']"
proof -
  have "suite_list sample_build sample_settings sample_runner default_options =
      Inr (if opt_constrain default_options = ''performance'' then lines_of (''nsc-tcp-loss'' @ newline @ ''perf'' @ newline @ ''unit-a'' @ newline)
           else filter (\<lambda>t. t \<notin> set (lines_of (''perf'' @ newline)))
             (lines_of (''nsc-tcp-loss'' @ newline @ ''perf'' @ newline @ ''unit-a'' @ newline)))"
  proof (rule performance_suites_left_out [OF _ _ _ _ sample_listing(2)])
    show "distinct (lines_of (''nsc-tcp-loss'' @ newline @ ''perf'' @ newline @ ''unit-a'' @ newline))" by code_simp
  qed (use sample_listing(1) in \<open>simp_all add: default_options_def\<close>)
  moreover have "(if opt_constrain default_options = ''performance'' then lines_of (''nsc-tcp-loss'' @ newline @ ''perf'' @ newline @ ''unit-a'' @ newline)
           else filter (\<lambda>t. t \<notin> set (lines_of (''perf'' @ newline)))
             (lines_of (''nsc-tcp-loss'' @ newline @ ''perf'' @ newline @ ''unit-a'' @ newline))) = [''nsc-tcp-loss'', ''unit-a'']"
    by code_simp
  ultimately show ?thesis by simp
qed

theorem examples_selected_witness:
  "example_jobs sample_build default_options (\<lambda>c. Inr (c = ''True'')) [(''udp'', ''build/udp'')] ''out''
     [(''udp'', ''build/udp --x=1'', ''True'', ''True''), (''tcp'', ''build/tcp'', ''True'', ''True'')]
   = Inr [example_job sample_build ''out'' [] ''udp'' ''build/udp --x=1'']"
proof -
  have "map (selected_example_job sample_build default_options (\<lambda>c. c = ''True'') ''out'')
     (filter (selected_example (\<lambda>c. c = ''True'') [(''udp'', ''build/udp'')])
       [(''udp'', ''build/udp --x=1'', ''True'', ''True''), (''tcp'', ''build/tcp'', ''True'', ''True'')])
     = [example_job sample_build ''out'' [] ''udp'' ''build/udp --x=1''] \<and> examples_on sample_build
       \<and> opt_suite default_options = [] \<and> opt_example default_options = [] \<and> opt_pyexample default_options = []
       \<and> opt_constrain default_options = []"
    by code_simp
  with examples_selected [of default_options] show ?thesis by simp
qed

theorem pythonpath_lost_witness:
  "map_of (make_paths ''linux'' ''/b'' [''/b/lib''] [(''PYTHONPATH'', ''/home/me'')]) ''PYTHONPATH''
    = Some ''/b/bindings/python:/b/bindings/python''"
proof -
  have "path_join (path_join ''/b'' ''bindings'') ''python'' @ '':'' @ path_join (path_join ''/b'' ''bindings'') ''python''
      = ''/b/bindings/python:/b/bindings/python''" by code_simp
  with pythonpath_lost [of "[(''PYTHONPATH'', ''/home/me'')]" "''/home/me''" "''linux''" "''/b''" "[''/b/lib'']"]
  show ?thesis by simp
qed

end
