(* ===== verification/Timeline.thy ===== *)
theory Timeline
  imports PyStr Complex_Main
begin

text \<open>
  The data model of utils/grid.py: ranges and events, their binary searches, the timelines
  that hold them, the bounds, and the reader of the data file. Numbers are rationals: these
  contain Python's integers, and its floats as long as nothing is rounded.
\<close>

section \<open>Ranges and events\<close>

record data_range =
  range_start :: rat
  range_end :: rat
  range_value :: string

record 'v event =
  event_at :: rat
  event_value :: 'v

definition ranges_cmp :: "data_range \<Rightarrow> data_range \<Rightarrow> int" where
  "ranges_cmp a b = (let diff = range_start a - range_start b in if diff < 0 then - 1 else if diff > 0 then 1 else 0)"

definition events_cmp :: "'v event \<Rightarrow> 'v event \<Rightarrow> int" where
  "events_cmp a b = (let diff = event_at a - event_at b in if diff < 0 then - 1 else if diff > 0 then 1 else 0)"

section \<open>Binary search\<close>

text \<open>
  Both searches halve an interval of positions until a probe hits. They differ in the probe
  and in what they return when there is no hit.
\<close>

datatype probe = Hit | Below | Above

function bsearch :: "(nat \<Rightarrow> probe) \<Rightarrow> int \<Rightarrow> int \<Rightarrow> int option \<times> int" where
  "bsearch probe l u =
     (if l \<le> u then
        (let i = (l + u) div 2
         in case probe (nat i) of
              Hit \<Rightarrow> (Some i, l)
            | Below \<Rightarrow> bsearch probe l (i - 1)
            | Above \<Rightarrow> bsearch probe (i + 1) u)
      else (None, l))"
  by pat_completeness auto
termination by (relation "measure (\<lambda>(_, l, u). nat (u - l + 1))") auto

declare bsearch.simps [simp del]

text \<open>
  The search is right when the probe is monotone: positions above the key follow those that
  are not, and likewise below. It finds a hit if there is one, and otherwise the number of
  positions that the key is above.
\<close>

locale monotone_probe =
  fixes probe :: "nat \<Rightarrow> probe" and n :: nat
  assumes above: "probe j = Above \<Longrightarrow> i \<le> j \<Longrightarrow> j < n \<Longrightarrow> probe i = Above"
    and below: "probe i = Below \<Longrightarrow> i \<le> j \<Longrightarrow> j < n \<Longrightarrow> probe j = Below"
begin

lemma bsearch_correct:
  assumes "0 \<le> l" "u < int n" "l \<le> u + 1"
    and "\<forall>i. int i < l \<longrightarrow> probe i = Above" and "\<forall>i < n. u < int i \<longrightarrow> probe i = Below"
  shows "case bsearch probe l u of
      (Some i, _) \<Rightarrow> 0 \<le> i \<and> i < int n \<and> probe (nat i) = Hit
    | (None, k) \<Rightarrow> 0 \<le> k \<and> k \<le> int n \<and> (\<forall>i < n. probe i = (if int i < k then Above else Below))"
  using assms
proof (induction "nat (u - l + 1)" arbitrary: l u rule: less_induct)
  case less
  show ?case
  proof (cases "l \<le> u")
    case True
    let ?i = "(l + u) div 2"
    from True less.prems have i: "l \<le> ?i" "?i \<le> u" "0 \<le> ?i" "nat ?i < n" "int (nat ?i) = ?i" by auto
    show ?thesis
    proof (cases "probe (nat ?i)")
      case Hit
      with True i show ?thesis by (subst bsearch.simps) (simp add: Let_def)
    next
      case Below
      have step: "bsearch probe l u = bsearch probe l (?i - 1)"
        using True Below by (subst bsearch.simps) (simp add: Let_def)
      have "\<forall>j < n. ?i - 1 < int j \<longrightarrow> probe j = Below"
        using below [OF Below] i(5) by (metis nat_le_iff zle_diff1_eq not_less)
      then show ?thesis
        unfolding step using less.prems i by (intro less.hyps) auto
    next
      case Above
      have step: "bsearch probe l u = bsearch probe (?i + 1) u"
        using True Above by (subst bsearch.simps) (simp add: Let_def)
      have "\<forall>j. int j < ?i + 1 \<longrightarrow> probe j = Above"
        using above [OF Above _ i(4)] i(5) by (metis nat_int_comparison(3) zless_add1_eq le_less)
      then show ?thesis
        unfolding step using less.prems i by (intro less.hyps) auto
    qed
  next
    case False
    with less.prems have "l = u + 1" by simp
    moreover have "bsearch probe l u = (None, l)" using False by (subst bsearch.simps) simp
    ultimately show ?thesis using less.prems by auto
  qed
qed

lemma bsearch_all:
  "case bsearch probe 0 (int n - 1) of
      (Some i, _) \<Rightarrow> 0 \<le> i \<and> i < int n \<and> probe (nat i) = Hit
    | (None, k) \<Rightarrow> 0 \<le> k \<and> k \<le> int n \<and> (\<forall>i < n. probe i = (if int i < k then Above else Below))"
  by (rule bsearch_correct) auto

end

section \<open>Ranges of a timeline\<close>

record data_ranges =
  dr_name :: string
  dr_ranges :: "data_range list"

definition range_probe :: "data_range list \<Rightarrow> rat \<Rightarrow> nat \<Rightarrow> probe" where
  "range_probe rs key i =
     (if key \<ge> range_start (rs ! i) \<and> key \<le> range_end (rs ! i) then Hit
      else if key < range_start (rs ! i) then Below else Above)"

definition range_search :: "data_range list \<Rightarrow> rat \<Rightarrow> int" where
  "range_search rs key = (case bsearch (range_probe rs key) 0 (int (length rs) - 1) of (Some i, _) \<Rightarrow> i | (None, _) \<Rightarrow> - 1)"

definition get_ranges_bounds :: "data_range list \<Rightarrow> rat \<Rightarrow> rat \<Rightarrow> int \<times> int" where
  "get_ranges_bounds rs start_key end_key =
     (let s = range_search rs start_key; e = range_search rs end_key
      in if s = - 1 \<and> e = - 1 then (0, 0)
         else if s = - 1 then (0, e + 1)
         else if e = - 1 then (s, int (length rs))
         else (s, e + 1))"

definition get_ranges :: "data_range list \<Rightarrow> rat \<Rightarrow> rat \<Rightarrow> data_range list" where
  "get_ranges rs start_key end_key =
     (let s = range_search rs start_key; e = range_search rs end_key
      in if s = - 1 \<and> e = - 1 then []
         else if s = - 1 then slice rs 0 (e + 1)
         else if e = - 1 then slice rs s (int (length rs))
         else slice rs s (e + 1))"

definition ranges_bounds :: "data_range list \<Rightarrow> rat \<times> rat" where
  "ranges_bounds rs = (if rs \<noteq> [] then (range_start (hd rs), range_end (rs ! (length rs - 1))) else (0, 0))"

section \<open>Events of a timeline\<close>

record 'v events =
  ev_name :: string
  ev_events :: "'v event list"

definition event_probe :: "'v event list \<Rightarrow> rat \<Rightarrow> nat \<Rightarrow> probe" where
  "event_probe es key i =
     (if key = event_at (es ! i) then Hit else if key < event_at (es ! i) then Below else Above)"

definition event_search :: "'v event list \<Rightarrow> rat \<Rightarrow> int" where
  "event_search es key = (case bsearch (event_probe es key) 0 (int (length es) - 1) of (Some i, _) \<Rightarrow> i | (None, l) \<Rightarrow> l)"

definition get_events :: "'v event list \<Rightarrow> rat \<Rightarrow> rat \<Rightarrow> 'v event list" where
  "get_events es start_key end_key =
     (let s = event_search es start_key; e = event_search es end_key in slice es s (e + 1))"

definition get_events_bounds :: "'v event list \<Rightarrow> rat \<Rightarrow> rat \<Rightarrow> int \<times> int" where
  "get_events_bounds es start_key end_key =
     (let s = event_search es start_key; e = event_search es end_key in (s, e + 1))"

definition events_bounds :: "'v event list \<Rightarrow> rat \<times> rat" where
  "events_bounds es = (if es \<noteq> [] then (event_at (hd es), event_at (last es)) else (0, 0))"

section \<open>The searches are right\<close>

text \<open>Ranges in order that do not touch, and events in order.\<close>

definition separated :: "data_range list \<Rightarrow> bool" where
  "separated rs \<longleftrightarrow> (\<forall>r\<in>set rs. range_start r \<le> range_end r) \<and> sorted_wrt (\<lambda>a b. range_end a < range_start b) rs"

definition separated_or_none :: "data_range list \<Rightarrow> data_range list" where
  "separated_or_none rs = (if separated rs then rs else [])"

lemma separated_nth:
  "separated rs \<Longrightarrow> i < j \<Longrightarrow> j < length rs \<Longrightarrow> range_end (rs ! i) < range_start (rs ! j)"
  "separated rs \<Longrightarrow> i < length rs \<Longrightarrow> range_start (rs ! i) \<le> range_end (rs ! i)"
  by (auto simp: separated_def sorted_wrt_iff_nth_less)

lemma range_probe_above:
  assumes "separated rs" "range_probe rs key j = Above" "i \<le> j" "j < length rs"
  shows "range_probe rs key i = Above"
proof (cases "i = j")
  case False
  with assms separated_nth(1) [OF assms(1), of i j] separated_nth(2) [OF assms(1), of i]
    separated_nth(2) [OF assms(1), of j]
  show ?thesis by (auto simp: range_probe_def split: if_splits)
qed (use assms in simp)

lemma range_probe_below:
  assumes "separated rs" "range_probe rs key i = Below" "i \<le> j" "j < length rs"
  shows "range_probe rs key j = Below"
proof (cases "i = j")
  case False
  with assms separated_nth(1) [OF assms(1), of i j] separated_nth(2) [OF assms(1), of i]
  show ?thesis by (auto simp: range_probe_def split: if_splits)
qed (use assms in simp)

interpretation ranges_probe: monotone_probe "range_probe (separated_or_none rs) key" "length (separated_or_none rs)" for rs key
  by unfold_locales
    (auto simp: separated_or_none_def intro: range_probe_above range_probe_below split: if_splits)

interpretation events_probe: monotone_probe "event_probe (sort_key event_at es) key" "length es" for es key
proof
  fix i j
  assume ij: "i \<le> j" "j < length es"
  then have le: "event_at (sort_key event_at es ! i) \<le> event_at (sort_key event_at es ! j)"
    using sorted_nth_mono [OF sorted_sort_key [of event_at es], of i j] by simp
  show "event_probe (sort_key event_at es) key i = Above" if "event_probe (sort_key event_at es) key j = Above"
    using that le by (auto simp: event_probe_def split: if_splits)
  show "event_probe (sort_key event_at es) key j = Below" if "event_probe (sort_key event_at es) key i = Below"
    using that le by (auto simp: event_probe_def split: if_splits)
qed

lemma range_search_cases:
  assumes "separated rs"
  obtains i where "range_search rs key = int i" "i < length rs" "range_start (rs ! i) \<le> key" "key \<le> range_end (rs ! i)"
  | "range_search rs key = - 1" "\<forall>r\<in>set rs. \<not> (range_start r \<le> key \<and> key \<le> range_end r)"
proof -
  have eq: "separated_or_none rs = rs" using assms by (simp add: separated_or_none_def)
  note all = ranges_probe.bsearch_all [of rs key, unfolded eq]
  show thesis
  proof (cases "bsearch (range_probe rs key) 0 (int (length rs) - 1)")
    case (Pair r k)
    show thesis
    proof (cases r)
      case (Some i)
      from all Pair Some have "0 \<le> i" "i < int (length rs)" "range_probe rs key (nat i) = Hit" by auto
      with that(1) [of "nat i"] Pair Some show thesis
        by (auto simp: range_search_def range_probe_def split: if_splits)
    next
      case None
      with all Pair have "\<forall>i < length rs. range_probe rs key i \<noteq> Hit" by auto
      then have "\<forall>r\<in>set rs. \<not> (range_start r \<le> key \<and> key \<le> range_end r)"
        by (auto simp: in_set_conv_nth range_probe_def split: if_splits)
      with that(2) Pair None show thesis by (simp add: range_search_def)
    qed
  qed
qed

lemma filter_interval:
  "\<forall>j < length xs. P (xs ! j) \<longleftrightarrow> lo \<le> j \<and> j < hi \<Longrightarrow> filter P xs = drop lo (take hi xs)"
proof (induction xs rule: rev_induct)
  case (snoc x xs)
  from snoc.prems have "\<forall>j < length xs. P (xs ! j) \<longleftrightarrow> lo \<le> j \<and> j < hi"
    by (metis length_append_singleton less_SucI nth_append)
  with snoc.IH have "filter P xs = drop lo (take hi xs)" .
  moreover from snoc.prems have "P x \<longleftrightarrow> lo \<le> length xs \<and> length xs < hi"
    by (metis length_append_singleton lessI nth_append_length)
  ultimately show ?case by auto
qed simp

definition covers :: "data_range list \<Rightarrow> rat \<Rightarrow> bool" where
  "covers rs key \<longleftrightarrow> list_ex (\<lambda>r. range_start r \<le> key \<and> key \<le> range_end r) rs"

lemma covering_index:
  assumes sep: "separated rs" and i: "i < length rs" "range_start (rs ! i) \<le> key" "key \<le> range_end (rs ! i)" and j: "j < length rs"
  shows "key \<le> range_end (rs ! j) \<longleftrightarrow> i \<le> j" and "range_start (rs ! j) \<le> key \<longleftrightarrow> j \<le> i"
proof -
  note nth = separated_nth(1) [OF sep, of i j] separated_nth(1) [OF sep, of j i] separated_nth(2) [OF sep j]
  have "(key \<le> range_end (rs ! j) \<longleftrightarrow> i \<le> j) \<and> (range_start (rs ! j) \<le> key \<longleftrightarrow> j \<le> i)"
    using nth i j by (cases i j rule: linorder_cases) simp_all
  then show "key \<le> range_end (rs ! j) \<longleftrightarrow> i \<le> j" and "range_start (rs ! j) \<le> key \<longleftrightarrow> j \<le> i" by simp_all
qed

lemma slice_take_drop: "slice xs (int a) (int b) = drop a (take b xs)"
  by (simp add: slice_def slice_bound_def min_def)

text \<open>
  \<open>get_ranges\<close>, exactly: when neither bound lies in a range it returns nothing, even if
  there are ranges between the two; otherwise it returns the ranges that end after the start, if
  the start lies in a range, and begin before the end, if the end does. With both bounds in a
  range these are the ranges that overlap the interval.
\<close>
theorem get_ranges_exact:
  assumes sep: "separated rs"
  shows "get_ranges rs a b =
    (if \<not> covers rs a \<and> \<not> covers rs b then []
     else filter (\<lambda>r. (covers rs a \<longrightarrow> a \<le> range_end r) \<and> (covers rs b \<longrightarrow> range_start r \<le> b)) rs)"
proof -
  have no: "\<not> covers rs key" if "\<forall>r\<in>set rs. \<not> (range_start r \<le> key \<and> key \<le> range_end r)" for key
    using that by (auto simp: covers_def list_ex_iff)
  have yes: "covers rs key" if "i < length rs" "range_start (rs ! i) \<le> key" "key \<le> range_end (rs ! i)" for key i
    using that by (auto simp: covers_def list_ex_iff intro: bexI [OF _ nth_mem])
  show ?thesis
  proof (rule range_search_cases [OF sep, of a]; rule range_search_cases [OF sep, of b])
    fix i k
    assume i: "range_search rs a = int i" "i < length rs" "range_start (rs ! i) \<le> a" "a \<le> range_end (rs ! i)"
      and k: "range_search rs b = int k" "k < length rs" "range_start (rs ! k) \<le> b" "b \<le> range_end (rs ! k)"
    have "get_ranges rs a b = drop i (take (Suc k) rs)"
      using i k slice_take_drop [of rs i "Suc k"] by (simp add: get_ranges_def Let_def add.commute)
    also have "\<dots> = filter (\<lambda>r. a \<le> range_end r \<and> range_start r \<le> b) rs"
      by (rule filter_interval [symmetric])
        (use covering_index(1) [OF sep i(2-4)] covering_index(2) [OF sep k(2-4)] in auto)
    finally show ?thesis using yes [OF i(2-4)] yes [OF k(2-4)] by simp
  next
    fix i
    assume i: "range_search rs a = int i" "i < length rs" "range_start (rs ! i) \<le> a" "a \<le> range_end (rs ! i)"
      and k: "range_search rs b = - 1" "\<forall>r\<in>set rs. \<not> (range_start r \<le> b \<and> b \<le> range_end r)"
    have "get_ranges rs a b = drop i (take (length rs) rs)"
      using i k slice_take_drop [of rs i "length rs"] by (simp add: get_ranges_def Let_def)
    also have "\<dots> = filter (\<lambda>r. a \<le> range_end r) rs"
      by (rule filter_interval [symmetric]) (use covering_index(1) [OF sep i(2-4)] in auto)
    finally show ?thesis using yes [OF i(2-4)] no [OF k(2)] by simp
  next
    fix k
    assume i: "range_search rs a = - 1" "\<forall>r\<in>set rs. \<not> (range_start r \<le> a \<and> a \<le> range_end r)"
      and k: "range_search rs b = int k" "k < length rs" "range_start (rs ! k) \<le> b" "b \<le> range_end (rs ! k)"
    have "get_ranges rs a b = drop 0 (take (Suc k) rs)"
      using i k slice_take_drop [of rs 0 "Suc k"] by (simp add: get_ranges_def Let_def add.commute)
    also have "\<dots> = filter (\<lambda>r. range_start r \<le> b) rs"
      by (rule filter_interval [symmetric]) (use covering_index(2) [OF sep k(2-4)] in auto)
    finally show ?thesis using no [OF i(2)] yes [OF k(2-4)] by simp
  next
    assume i: "range_search rs a = - 1" "\<forall>r\<in>set rs. \<not> (range_start r \<le> a \<and> a \<le> range_end r)"
      and k: "range_search rs b = - 1" "\<forall>r\<in>set rs. \<not> (range_start r \<le> b \<and> b \<le> range_end r)"
    show ?thesis using no [OF i(2)] no [OF k(2)] i(1) k(1) by (simp add: get_ranges_def)
  qed
qed

theorem get_ranges_exact_witness:
  "get_ranges [\<lparr>range_start = 1, range_end = 2, range_value = ''a''\<rparr>, \<lparr>range_start = 4, range_end = 6, range_value = ''b''\<rparr>] 2 5
     = [\<lparr>range_start = 1, range_end = 2, range_value = ''a''\<rparr>, \<lparr>range_start = 4, range_end = 6, range_value = ''b''\<rparr>]
   \<and> get_ranges [\<lparr>range_start = 4, range_end = 6, range_value = ''b''\<rparr>] 0 9 = []"
  by (simp add: get_ranges_exact separated_def covers_def)

lemma event_search_spec:
  assumes "sorted_wrt (<) (map event_at es)"
  obtains k where "event_search es key = int k" "k \<le> length es" "\<forall>j < length es. event_at (es ! j) < key \<longleftrightarrow> j < k"
    "key \<in> event_at ` set es \<longrightarrow> k < length es \<and> event_at (es ! k) = key"
proof -
  have lt: "event_at (es ! i) < event_at (es ! j)" if "i < j" "j < length es" for i j
    using assms that by (simp add: sorted_wrt_iff_nth_less)
  have "sort_key event_at es = es" using assms by (intro sort_key_id_if_sorted strict_sorted_imp_sorted)
  note all = events_probe.bsearch_all [of es key, unfolded this]
  show thesis
  proof (cases "bsearch (event_probe es key) 0 (int (length es) - 1)")
    case (Pair r k)
    show thesis
    proof (cases r)
      case (Some i)
      from all Pair Some have "0 \<le> i" "i < int (length es)" "event_probe es key (nat i) = Hit" by auto
      then have i: "nat i < length es" "event_at (es ! nat i) = key" "event_search es key = int (nat i)"
        using Pair Some by (auto simp: event_probe_def event_search_def split: if_splits)
      have "event_at (es ! j) < key \<longleftrightarrow> j < nat i" if "j < length es" for j
        using lt [of j "nat i"] lt [of "nat i" j] i(1,2) that by (cases "j < nat i"; cases "j = nat i") auto
      with that [of "nat i"] i show thesis by simp
    next
      case None
      with all Pair have k: "0 \<le> k" "k \<le> int (length es)"
        "\<forall>j < length es. event_probe es key j = (if int j < k then Above else Below)" by auto
      have p: "event_at (es ! j) \<noteq> key \<and> (event_at (es ! j) < key \<longleftrightarrow> j < nat k)" if "j < length es" for j
        using k(3) [rule_format, OF that] k(1) by (auto simp: event_probe_def zless_nat_eq_int_zless split: if_splits)
      then have "key \<notin> event_at ` set es" by (metis imageE in_set_conv_nth)
      with that [of "nat k"] k(1,2) p Pair None show thesis by (simp add: event_search_def)
    qed
  qed
qed

lemma get_events_interval:
  assumes sorted: "sorted_wrt (<) (map event_at es)" and "a \<le> b"
  shows "get_events es a b = filter (\<lambda>x. a \<le> event_at x \<and> event_at x \<le> b) es
    @ (if b \<in> event_at ` set es then [] else take 1 (filter (\<lambda>x. b < event_at x) es))"
proof -
  have lt: "event_at (es ! i) < event_at (es ! j)" if "i < j" "j < length es" for i j
    using sorted that by (simp add: sorted_wrt_iff_nth_less)
  obtain s where s: "event_search es a = int s" "s \<le> length es" "\<forall>j < length es. event_at (es ! j) < a \<longleftrightarrow> j < s"
    by (rule event_search_spec [OF sorted])
  obtain e where e: "event_search es b = int e" "e \<le> length es" "\<forall>j < length es. event_at (es ! j) < b \<longleftrightarrow> j < e"
    and hit: "b \<in> event_at ` set es \<longrightarrow> e < length es \<and> event_at (es ! e) = b"
    by (rule event_search_spec [OF sorted])
  have se: "s \<le> e"
  proof (rule ccontr)
    assume "\<not> s \<le> e"
    with s have "event_at (es ! e) < a" "e < length es" by auto
    with e assms(2) show False by force
  qed
  have res: "get_events es a b = drop s (take (Suc e) es)"
    using slice_take_drop [of es s "Suc e"] s e by (simp add: get_events_def Let_def add.commute)
  show ?thesis
  proof (cases "b \<in> event_at ` set es")
    case True
    with hit have h: "e < length es" "event_at (es ! e) = b" by auto
    have "event_at (es ! j) \<le> b \<longleftrightarrow> j < Suc e" if "j < length es" for j
      using lt [of j e] lt [of e j] h that by (cases "j < e"; cases "j = e") auto
    then have "filter (\<lambda>x. a \<le> event_at x \<and> event_at x \<le> b) es = drop s (take (Suc e) es)"
      using s(3) by (intro filter_interval) (simp add: not_less [symmetric])
    with res True show ?thesis by simp
  next
    case False
    then have ne: "event_at (es ! j) \<noteq> b" if "j < length es" for j using that nth_mem by blast
    have le: "event_at (es ! j) \<le> b \<longleftrightarrow> j < e" if "j < length es" for j
      using ne [OF that] e(3) that by (simp add: le_less)
    then have "filter (\<lambda>x. a \<le> event_at x \<and> event_at x \<le> b) es = drop s (take e es)"
      using s(3) by (intro filter_interval) (simp add: not_less [symmetric])
    moreover have "filter (\<lambda>x. b < event_at x) es = drop e (take (length es) es)"
      using le by (intro filter_interval) (simp add: not_le [symmetric])
    moreover have "drop s (take (Suc e) es) = drop s (take e es) @ take 1 (drop e es)"
      using take_add [of e 1 es] se e(2) by simp
    ultimately show ?thesis using res False by simp
  qed
qed

text \<open>
  \<open>get_events\<close> returns the events within the bounds and, unless there is an event at
  the upper bound itself, the first event after it, if there is one.
\<close>
theorem get_events_exact:
  assumes sorted: "sorted_wrt (<) (map event_at es)" and "a \<le> b"
  shows "get_events es a b = filter (\<lambda>x. a \<le> event_at x \<and> event_at x \<le> b) es
    @ (if b \<in> event_at ` set es then [] else take 1 (filter (\<lambda>x. b < event_at x) es))"
  by (rule get_events_interval [OF assms])

theorem get_events_exact_witness:
  "map event_value (get_events [\<lparr>event_at = 1, event_value = 10 :: int\<rparr>, \<lparr>event_at = 3, event_value = 30\<rparr>,
     \<lparr>event_at = 7, event_value = 70\<rparr>, \<lparr>event_at = 9, event_value = 90\<rparr>] 2 5) = [30, 70]"
  by (subst get_events_exact) simp_all

section \<open>Named elements\<close>

text \<open>
  \<open>get\<close>, \<open>get_range\<close>, \<open>get_event_str\<close> and \<open>get_event_int\<close> return the element of a
  list that has the name, or append a new one; what they return is a reference, and \<open>f\<close> is
  what the caller does to it.
\<close>

fun with_named :: "('a \<Rightarrow> string) \<Rightarrow> (string \<Rightarrow> 'a) \<Rightarrow> string \<Rightarrow> ('a \<Rightarrow> 'a) \<Rightarrow> 'a list \<Rightarrow> 'a list" where
  "with_named name_of new n f [] = [f (new n)]"
| "with_named name_of new n f (x # xs) = (if name_of x = n then f x # xs else x # with_named name_of new n f xs)"

definition find_named :: "('a \<Rightarrow> string) \<Rightarrow> string \<Rightarrow> 'a list \<Rightarrow> 'a option" where
  "find_named name_of n xs = List.find (\<lambda>x. name_of x = n) xs"

locale named =
  fixes name_of :: "'a \<Rightarrow> string" and new :: "string \<Rightarrow> 'a"
  assumes name_new: "name_of (new n) = n"
begin

lemma find_with_named:
  assumes "\<forall>x. name_of (f x) = name_of x"
  shows "find_named name_of m (with_named name_of new n f xs) =
    (if m = n then Some (f (case find_named name_of n xs of None \<Rightarrow> new n | Some x \<Rightarrow> x)) else find_named name_of m xs)"
  using assms by (induction xs) (auto simp: find_named_def name_new)

lemma names_with_named:
  assumes "\<forall>x. name_of (f x) = name_of x"
  shows "map name_of (with_named name_of new n f xs)
    = (if n \<in> name_of ` set xs then map name_of xs else map name_of xs @ [n])"
  using assms by (induction xs) (auto simp: name_new)

lemma distinct_with_named:
  assumes "\<forall>x. name_of (f x) = name_of x" "distinct (map name_of xs)"
  shows "distinct (map name_of (with_named name_of new n f xs))"
  using assms(2) unfolding names_with_named [OF assms(1)] by simp

end

section \<open>Timelines\<close>

record timeline =
  tl_name :: string
  tl_ranges :: "data_ranges list"
  tl_event_str :: "string events list"
  tl_event_int :: "int events list"

definition new_data_ranges :: "string \<Rightarrow> data_ranges" where
  "new_data_ranges n = \<lparr>dr_name = n, dr_ranges = []\<rparr>"

definition new_events :: "string \<Rightarrow> 'v events" where
  "new_events n = \<lparr>ev_name = n, ev_events = []\<rparr>"

definition new_timeline :: "string \<Rightarrow> timeline" where
  "new_timeline n = \<lparr>tl_name = n, tl_ranges = [], tl_event_str = [], tl_event_int = []\<rparr>"

interpretation range_names: named dr_name new_data_ranges
  by unfold_locales (simp add: new_data_ranges_def)

interpretation event_names: named ev_name "new_events :: string \<Rightarrow> 'v events"
  by unfold_locales (simp add: new_events_def)

interpretation timeline_names: named tl_name new_timeline
  by unfold_locales (simp add: new_timeline_def)

definition add_range :: "data_range \<Rightarrow> data_ranges \<Rightarrow> data_ranges" where
  "add_range r d = d\<lparr>dr_ranges := dr_ranges d @ [r]\<rparr>"

definition add_event :: "'v event \<Rightarrow> 'v events \<Rightarrow> 'v events" where
  "add_event e d = d\<lparr>ev_events := ev_events d @ [e]\<rparr>"

definition get_range :: "string \<Rightarrow> (data_ranges \<Rightarrow> data_ranges) \<Rightarrow> timeline \<Rightarrow> timeline" where
  "get_range n f t = t\<lparr>tl_ranges := with_named dr_name new_data_ranges n f (tl_ranges t)\<rparr>"

definition get_event_str :: "string \<Rightarrow> (string events \<Rightarrow> string events) \<Rightarrow> timeline \<Rightarrow> timeline" where
  "get_event_str n f t = t\<lparr>tl_event_str := with_named ev_name new_events n f (tl_event_str t)\<rparr>"

definition get_event_int :: "string \<Rightarrow> (int events \<Rightarrow> int events) \<Rightarrow> timeline \<Rightarrow> timeline" where
  "get_event_int n f t = t\<lparr>tl_event_int := with_named ev_name new_events n f (tl_event_int t)\<rparr>"

definition get_timeline :: "string \<Rightarrow> (timeline \<Rightarrow> timeline) \<Rightarrow> timeline list \<Rightarrow> timeline list" where
  "get_timeline n f ts = with_named tl_name new_timeline n f ts"

text \<open>\<open>list.sort\<close> of Python 3 takes no comparison function: every call raises.\<close>

definition sort_with_cmp :: "('a \<Rightarrow> 'a \<Rightarrow> int) \<Rightarrow> 'a list \<Rightarrow> 'a list res" where
  "sort_with_cmp cmp xs = Inl TypeError"

definition sort_timeline :: "timeline \<Rightarrow> timeline res" where
  "sort_timeline t =
     and_then (for_each (\<lambda>ds d. and_then (sort_with_cmp ranges_cmp (dr_ranges d)) (\<lambda>rs. Inr (ds @ [d\<lparr>dr_ranges := rs\<rparr>]))) [] (tl_ranges t)) (\<lambda>ranges.
     and_then (for_each (\<lambda>ds d. and_then (sort_with_cmp events_cmp (ev_events d)) (\<lambda>es. Inr (ds @ [d\<lparr>ev_events := es\<rparr>]))) [] (tl_event_int t)) (\<lambda>ints.
     and_then (for_each (\<lambda>ds d. and_then (sort_with_cmp events_cmp (ev_events d)) (\<lambda>es. Inr (ds @ [d\<lparr>ev_events := es\<rparr>]))) [] (tl_event_str t)) (\<lambda>strs.
       Inr (t\<lparr>tl_ranges := ranges, tl_event_int := ints, tl_event_str := strs\<rparr>))))"

definition sort_timelines :: "timeline list \<Rightarrow> timeline list res" where
  "sort_timelines ts = for_each (\<lambda>ts' t. and_then (sort_timeline t) (\<lambda>t'. Inr (ts' @ [t']))) [] ts"

text \<open>The loops that widen the bounds.\<close>

definition widen :: "rat \<times> rat \<Rightarrow> rat \<times> rat \<Rightarrow> rat \<times> rat" where
  "widen b c = (if fst c < fst b then fst c else fst b, if snd c > snd b then snd c else snd b)"

definition timeline_bounds :: "timeline \<Rightarrow> rat \<times> rat" where
  "timeline_bounds t =
     foldl widen (foldl widen (foldl widen (0, 0) (map (ranges_bounds \<circ> dr_ranges) (tl_ranges t)))
       (map (events_bounds \<circ> ev_events) (tl_event_str t))) (map (events_bounds \<circ> ev_events) (tl_event_int t))"

definition timelines_bounds :: "timeline list \<Rightarrow> rat \<times> rat" where
  "timelines_bounds ts = foldl widen (0, 0) (map timeline_bounds ts)"

definition get_all_range_values :: "timeline list \<Rightarrow> string list" where
  "get_all_range_values ts =
     keys (foldl (\<lambda>d r. AList.update (range_value r) (1 :: int) d) []
       (concat (map (\<lambda>t. concat (map dr_ranges (tl_ranges t))) ts)))"

section \<open>Colours\<close>

record color =
  red :: rat
  green :: rat
  blue :: rat

definition default_colors :: "color list" where
  "default_colors = map (\<lambda>(r, g, b). \<lparr>red = r, green = g, blue = b\<rparr>)
     [(1, 0, 0), (0, 1, 0), (0, 0, 1), (1, 1, 0), (1, 0, 1), (0, 1, 1)]"

definition add_color :: "string \<Rightarrow> color \<Rightarrow> (string, color) dict \<Rightarrow> (string, color) dict" where
  "add_color n c cs = AList.update n c cs"

text \<open>\<open>lookup\<close> calls \<open>has_key\<close>, which dictionaries of Python 3 do not have.\<close>

definition lookup_color :: "string \<Rightarrow> (string, color) dict \<Rightarrow> color res" where
  "lookup_color n cs = Inl AttributeError"

section \<open>Reading the data file\<close>

datatype data_line =
    RangeLine string string data_range
  | StrLine string string "string event"
  | IntLine string string "int event"
  | ColorLine string color

definition scan_range :: "string \<Rightarrow> data_line option" where
  "scan_range l =
     Option.bind (eat ''range '' l) (\<lambda>s. Option.bind (eat_word s) (\<lambda>(t, s).
     Option.bind (eat '' '' s) (\<lambda>s. Option.bind (eat_word s) (\<lambda>(n, s).
     Option.bind (eat '' '' s) (\<lambda>s. Option.bind (eat_word s) (\<lambda>(v, s).
     Option.bind (eat '' '' s) (\<lambda>s. Option.bind (eat_number s) (\<lambda>(a, s).
     Option.bind (eat '' '' s) (\<lambda>s. Option.bind (eat_number s) (\<lambda>(b, s).
       Some (RangeLine t n \<lparr>range_start = of_nat a, range_end = of_nat b, range_value = v\<rparr>)))))))))))"

definition scan_str :: "string \<Rightarrow> data_line option" where
  "scan_str l =
     Option.bind (eat ''event-str '' l) (\<lambda>s. Option.bind (eat_word s) (\<lambda>(t, s).
     Option.bind (eat '' '' s) (\<lambda>s. Option.bind (eat_word s) (\<lambda>(n, s).
     Option.bind (eat '' '' s) (\<lambda>s. Option.bind (eat_word s) (\<lambda>(v, s).
     Option.bind (eat '' '' s) (\<lambda>s. Option.bind (eat_number s) (\<lambda>(a, s).
       Some (StrLine t n \<lparr>event_at = of_nat a, event_value = v\<rparr>)))))))))"

definition scan_int :: "string \<Rightarrow> data_line option" where
  "scan_int l =
     Option.bind (eat ''event-int '' l) (\<lambda>s. Option.bind (eat_word s) (\<lambda>(t, s).
     Option.bind (eat '' '' s) (\<lambda>s. Option.bind (eat_word s) (\<lambda>(n, s).
     Option.bind (eat '' '' s) (\<lambda>s. Option.bind (eat_number s) (\<lambda>(v, s).
     Option.bind (eat '' '' s) (\<lambda>s. Option.bind (eat_number s) (\<lambda>(a, s).
       Some (IntLine t n \<lparr>event_at = of_nat a, event_value = int v\<rparr>)))))))))"

definition hex_value :: "char \<Rightarrow> nat option" where
  "hex_value c = map_of (zip ''0123456789abcdefABCDEF'' ([0..<16] @ [10..<16])) c"

fun eat_hex :: "string \<Rightarrow> (nat \<times> string) option" where
  "eat_hex (a # b # s) =
     Option.bind (hex_value a) (\<lambda>x. Option.bind (hex_value b) (\<lambda>y. Some (16 * x + y, s)))"
| "eat_hex s = None"

definition scan_color :: "string \<Rightarrow> data_line option" where
  "scan_color l =
     Option.bind (eat ''color '' l) (\<lambda>s. Option.bind (eat_word s) (\<lambda>(n, s).
     Option.bind (eat '' #'' s) (\<lambda>s. Option.bind (eat_hex s) (\<lambda>(r, s).
     Option.bind (eat_hex s) (\<lambda>(g, s). Option.bind (eat_hex s) (\<lambda>(b, s).
       Some (ColorLine n \<lparr>red = of_nat r / 255, green = of_nat g / 255, blue = of_nat b / 255\<rparr>)))))))"

fun first_some :: "('a \<Rightarrow> 'b option) list \<Rightarrow> 'a \<Rightarrow> 'b option" where
  "first_some [] x = None"
| "first_some (f # fs) x = (case f x of None \<Rightarrow> first_some fs x | r \<Rightarrow> r)"

definition scan_line :: "string \<Rightarrow> data_line option" where
  "scan_line = first_some [scan_range, scan_str, scan_int, scan_color]"

type_synonym grid_data = "(string, color) dict \<times> timeline list"

fun read_line :: "grid_data \<Rightarrow> data_line option \<Rightarrow> grid_data" where
  "read_line (cs, ts) (Some (RangeLine t n r)) = (cs, get_timeline t (get_range n (add_range r)) ts)"
| "read_line (cs, ts) (Some (StrLine t n e)) = (cs, get_timeline t (get_event_str n (add_event e)) ts)"
| "read_line (cs, ts) (Some (IntLine t n e)) = (cs, get_timeline t (get_event_int n (add_event e)) ts)"
| "read_line (cs, ts) (Some (ColorLine n c)) = (add_color n c cs, ts)"
| "read_line d None = d"

definition read_lines :: "string list \<Rightarrow> grid_data" where
  "read_lines ls = foldl (\<lambda>d l. read_line d (scan_line l)) ([], []) ls"

definition read_data :: "string list \<Rightarrow> grid_data res" where
  "read_data ls =
     (let (cs, ts) = read_lines ls in and_then (sort_timelines ts) (\<lambda>ts. Inr (cs, ts)))"

section \<open>What the reader collects\<close>

definition lookup_ranges :: "timeline list \<Rightarrow> string \<Rightarrow> string \<Rightarrow> data_range list" where
  "lookup_ranges ts t n =
     (case find_named tl_name t ts of None \<Rightarrow> []
      | Some tline \<Rightarrow> (case find_named dr_name n (tl_ranges tline) of None \<Rightarrow> [] | Some d \<Rightarrow> dr_ranges d))"

definition lookup_strs :: "timeline list \<Rightarrow> string \<Rightarrow> string \<Rightarrow> string event list" where
  "lookup_strs ts t n =
     (case find_named tl_name t ts of None \<Rightarrow> []
      | Some tline \<Rightarrow> (case find_named ev_name n (tl_event_str tline) of None \<Rightarrow> [] | Some d \<Rightarrow> ev_events d))"

definition lookup_ints :: "timeline list \<Rightarrow> string \<Rightarrow> string \<Rightarrow> int event list" where
  "lookup_ints ts t n =
     (case find_named tl_name t ts of None \<Rightarrow> []
      | Some tline \<Rightarrow> (case find_named ev_name n (tl_event_int tline) of None \<Rightarrow> [] | Some d \<Rightarrow> ev_events d))"

lemma find_get_timeline:
  assumes "\<forall>x. tl_name (f x) = tl_name x"
  shows "find_named tl_name t' (get_timeline t f ts) =
    (if t' = t then Some (f (case find_named tl_name t ts of None \<Rightarrow> new_timeline t | Some x \<Rightarrow> x)) else find_named tl_name t' ts)"
  using timeline_names.find_with_named [OF assms] by (simp add: get_timeline_def)

lemma keeps_name [simp]:
  "tl_name (get_range n f t) = tl_name t" "tl_name (get_event_str n g t) = tl_name t"
  "tl_name (get_event_int n h t) = tl_name t" "dr_name (add_range r d) = dr_name d" "ev_name (add_event e s) = ev_name s"
  by (simp_all add: get_range_def get_event_str_def get_event_int_def add_range_def add_event_def)

lemma fields_kept [simp]:
  "tl_event_str (get_range n f t) = tl_event_str t" "tl_event_int (get_range n f t) = tl_event_int t"
  "tl_ranges (get_event_str n g t) = tl_ranges t" "tl_event_int (get_event_str n g t) = tl_event_int t"
  "tl_ranges (get_event_int n h t) = tl_ranges t" "tl_event_str (get_event_int n h t) = tl_event_str t"
  "tl_ranges (new_timeline m) = []" "tl_event_str (new_timeline m) = []" "tl_event_int (new_timeline m) = []"
  by (simp_all add: get_range_def get_event_str_def get_event_int_def new_timeline_def)

lemma find_named_Nil [simp]: "find_named nm n [] = None"
  by (simp add: find_named_def)

lemma lookup_add_range:
  "lookup_ranges (get_timeline t (get_range n (add_range r)) ts) t' n'
     = lookup_ranges ts t' n' @ (if t' = t \<and> n' = n then [r] else [])"
  "lookup_strs (get_timeline t (get_range n (add_range r)) ts) t' n' = lookup_strs ts t' n'"
  "lookup_ints (get_timeline t (get_range n (add_range r)) ts) t' n' = lookup_ints ts t' n'"
  by (auto simp: lookup_ranges_def lookup_strs_def lookup_ints_def find_get_timeline range_names.find_with_named
      get_range_def [of n] add_range_def [of r] new_data_ranges_def split: option.splits)

lemma lookup_add_str:
  "lookup_strs (get_timeline t (get_event_str n (add_event e)) ts) t' n'
     = lookup_strs ts t' n' @ (if t' = t \<and> n' = n then [e] else [])"
  "lookup_ranges (get_timeline t (get_event_str n (add_event e)) ts) t' n' = lookup_ranges ts t' n'"
  "lookup_ints (get_timeline t (get_event_str n (add_event e)) ts) t' n' = lookup_ints ts t' n'"
  by (auto simp: lookup_ranges_def lookup_strs_def lookup_ints_def find_get_timeline event_names.find_with_named
      get_event_str_def [of n] add_event_def [of e] new_events_def split: option.splits)

lemma lookup_add_int:
  "lookup_ints (get_timeline t (get_event_int n (add_event e)) ts) t' n'
     = lookup_ints ts t' n' @ (if t' = t \<and> n' = n then [e] else [])"
  "lookup_ranges (get_timeline t (get_event_int n (add_event e)) ts) t' n' = lookup_ranges ts t' n'"
  "lookup_strs (get_timeline t (get_event_int n (add_event e)) ts) t' n' = lookup_strs ts t' n'"
  by (auto simp: lookup_ranges_def lookup_strs_def lookup_ints_def find_get_timeline event_names.find_with_named
      get_event_int_def [of n] add_event_def [of e] new_events_def split: option.splits)

text \<open>The ranges, the events and the colour that the lines of a file give to a name.\<close>

definition file_ranges :: "string list \<Rightarrow> string \<Rightarrow> string \<Rightarrow> data_range list" where
  "file_ranges ls t n = concat (map (\<lambda>l. case scan_line l of
      Some (RangeLine t' n' r) \<Rightarrow> if t' = t \<and> n' = n then [r] else [] | _ \<Rightarrow> []) ls)"

definition file_strs :: "string list \<Rightarrow> string \<Rightarrow> string \<Rightarrow> string event list" where
  "file_strs ls t n = concat (map (\<lambda>l. case scan_line l of
      Some (StrLine t' n' e) \<Rightarrow> if t' = t \<and> n' = n then [e] else [] | _ \<Rightarrow> []) ls)"

definition file_ints :: "string list \<Rightarrow> string \<Rightarrow> string \<Rightarrow> int event list" where
  "file_ints ls t n = concat (map (\<lambda>l. case scan_line l of
      Some (IntLine t' n' e) \<Rightarrow> if t' = t \<and> n' = n then [e] else [] | _ \<Rightarrow> []) ls)"

definition file_color :: "string list \<Rightarrow> string \<Rightarrow> color option" where
  "file_color ls n = map_of (rev (concat (map (\<lambda>l. case scan_line l of
      Some (ColorLine m c) \<Rightarrow> [(m, c)] | _ \<Rightarrow> []) ls))) n"

lemma read_lines_snoc: "read_lines (ls @ [l]) = read_line (read_lines ls) (scan_line l)"
  by (simp add: read_lines_def)

text \<open>
  C35. The lines of the data file are grouped by timeline and by name, in the order of the
  file: whatever else the file contains, the ranges, the events with strings and the events with
  numbers recorded under a timeline and a name are those of its lines, and a colour is the last
  one given to the name.
\<close>
theorem read_lines_groups:
  "lookup_ranges (snd (read_lines ls)) t n = file_ranges ls t n
   \<and> lookup_strs (snd (read_lines ls)) t n = file_strs ls t n
   \<and> lookup_ints (snd (read_lines ls)) t n = file_ints ls t n
   \<and> map_of (fst (read_lines ls)) n = file_color ls n"
proof (induction ls rule: rev_induct)
  case Nil
  show ?case
    by (simp add: read_lines_def lookup_ranges_def lookup_strs_def lookup_ints_def file_ranges_def file_strs_def
        file_ints_def file_color_def)
next
  case (snoc l ls)
  obtain cs ts where d: "read_lines ls = (cs, ts)" by (cases "read_lines ls")
  show ?case
  proof (cases "scan_line l")
    case None
    with snoc d show ?thesis
      by (simp add: read_lines_snoc file_ranges_def file_strs_def file_ints_def file_color_def)
  next
    case (Some dl)
    with snoc d show ?thesis
      by (cases dl) (auto simp: read_lines_snoc file_ranges_def file_strs_def file_ints_def file_color_def
          lookup_add_range lookup_add_str lookup_add_int add_color_def update_conv')
  qed
qed

definition adds_data :: "string \<Rightarrow> bool" where
  "adds_data l \<longleftrightarrow> (case scan_line l of None \<Rightarrow> False | Some (ColorLine n c) \<Rightarrow> False | _ \<Rightarrow> True)"

definition has_data :: "timeline \<Rightarrow> bool" where
  "has_data t \<longleftrightarrow> tl_ranges t \<noteq> [] \<or> tl_event_str t \<noteq> [] \<or> tl_event_int t \<noteq> []"

lemma with_named_not_Nil [simp]: "with_named nm new n f xs \<noteq> []"
  by (cases xs) auto

lemma get_timeline_has_data:
  assumes "\<forall>x. has_data (f x)" "list_all has_data ts"
  shows "get_timeline t f ts \<noteq> [] \<and> list_all has_data (get_timeline t f ts)"
proof -
  have "list_all has_data (with_named nm new t f ts)" for nm new
    using assms(2) by (induction ts) (auto simp: assms(1))
  then show ?thesis by (simp add: get_timeline_def)
qed

lemma adders_have_data [simp]:
  "has_data (get_range n f t)" "has_data (get_event_str n g t)" "has_data (get_event_int n h t)"
  by (simp_all add: has_data_def get_range_def get_event_str_def get_event_int_def)

lemma read_lines_has_data:
  "list_all has_data (snd (read_lines ls)) \<and> (snd (read_lines ls) = [] \<longleftrightarrow> \<not> list_ex adds_data ls)"
proof (induction ls rule: rev_induct)
  case Nil
  show ?case by (simp add: read_lines_def)
next
  case (snoc l ls)
  obtain cs ts where d: "read_lines ls = (cs, ts)" by (cases "read_lines ls")
  show ?case
  proof (cases "scan_line l")
    case None
    with snoc d show ?thesis by (simp add: read_lines_snoc adds_data_def)
  next
    case (Some dl)
    with snoc d get_timeline_has_data [of _ ts] show ?thesis
      by (cases dl) (simp_all add: read_lines_snoc adds_data_def)
  qed
qed

lemma sort_timeline_raises: "has_data t \<Longrightarrow> sort_timeline t = Inl TypeError"
  unfolding has_data_def sort_timeline_def sort_with_cmp_def
  by (cases "tl_ranges t"; cases "tl_event_int t"; cases "tl_event_str t") simp_all

text \<open>
  \<open>read_data\<close> raises \<open>TypeError\<close> for every file with a range or an event, because
  it passes a comparison function to \<open>list.sort\<close>; it returns for the other files only.
\<close>
theorem read_data_type_error:
  "read_data ls = (if list_ex adds_data ls then Inl TypeError else Inr (fst (read_lines ls), []))"
proof -
  obtain cs ts where d: "read_lines ls = (cs, ts)" by (cases "read_lines ls")
  show ?thesis
  proof (cases ts)
    case Nil
    with read_lines_has_data [of ls] d have "\<not> list_ex adds_data ls" by simp
    with Nil d show ?thesis by (simp add: read_data_def sort_timelines_def)
  next
    case (Cons t ts')
    with read_lines_has_data [of ls] d have "has_data t" "list_ex adds_data ls" by simp_all
    with Cons d show ?thesis by (simp add: read_data_def sort_timelines_def sort_timeline_raises)
  qed
qed

section \<open>Bounds\<close>

definition inside :: "rat \<times> rat \<Rightarrow> rat \<times> rat \<Rightarrow> bool" where
  "inside c b \<longleftrightarrow> fst b \<le> fst c \<and> snd c \<le> snd b"

lemma inside_trans: "inside a b \<Longrightarrow> inside b c \<Longrightarrow> inside a c"
  by (auto simp: inside_def)

lemma inside_widen: "inside b (widen b c)" "inside c (widen b c)"
  by (auto simp: inside_def widen_def)

lemma inside_foldl_base: "inside b (foldl widen b cs)"
proof (induction cs arbitrary: b)
  case (Cons c cs)
  show ?case using inside_trans [OF inside_widen(1) Cons.IH] by simp
qed (simp add: inside_def)

lemma inside_foldl_member: "c \<in> set cs \<Longrightarrow> inside c (foldl widen b cs)"
proof (induction cs arbitrary: b)
  case (Cons c' cs)
  show ?case
  proof (cases "c \<in> set cs")
    case True
    with Cons.IH show ?thesis by simp
  next
    case False
    with Cons.prems have "c = c'" by simp
    then show ?thesis using inside_trans [OF inside_widen(2) inside_foldl_base] by simp
  qed
qed simp

lemma ranges_bounds_inside_timeline:
  assumes "d \<in> set (tl_ranges t)"
  shows "inside (ranges_bounds (dr_ranges d)) (timeline_bounds t)"
proof -
  have "inside (ranges_bounds (dr_ranges d)) (foldl widen (0, 0) (map (ranges_bounds \<circ> dr_ranges) (tl_ranges t)))"
    by (rule inside_foldl_member) (use assms in auto)
  from inside_trans [OF this] inside_trans [OF inside_foldl_base inside_foldl_base]
  show ?thesis unfolding timeline_bounds_def by blast
qed

lemma timelines_bounds_inside:
  assumes "t \<in> set ts"
  shows "inside (timeline_bounds t) (timelines_bounds ts)"
  unfolding timelines_bounds_def by (rule inside_foldl_member) (use assms in simp)

text \<open>
  The bounds of the timelines contain zero and, when the ranges of a timeline are in order
  and do not touch, every one of them.
\<close>
theorem timelines_bounds_cover:
  assumes "t \<in> set ts" "d \<in> set (tl_ranges t)" "separated (dr_ranges d)" "r \<in> set (dr_ranges d)"
  shows "fst (timelines_bounds ts) \<le> range_start r \<and> range_end r \<le> snd (timelines_bounds ts)
    \<and> fst (timelines_bounds ts) \<le> 0 \<and> 0 \<le> snd (timelines_bounds ts)"
proof -
  from assms(4) obtain k where k: "k < length (dr_ranges d)" "dr_ranges d ! k = r" by (auto simp: in_set_conv_nth)
  let ?last = "length (dr_ranges d) - 1"
  have ne: "0 < length (dr_ranges d)" "?last < length (dr_ranges d)" using k(1) by linarith+
  have "range_start (dr_ranges d ! 0) \<le> range_start r"
    using separated_nth(1) [OF assms(3), of 0 k] separated_nth(2) [OF assms(3) ne(1)] k by (cases "k = 0") auto
  moreover have "range_end r \<le> range_end (dr_ranges d ! ?last)"
    using separated_nth(1) [OF assms(3) _ ne(2), of k] separated_nth(2) [OF assms(3) k(1)] separated_nth(2) [OF assms(3) ne(2)] k
    by (cases "k < ?last"; cases "k = ?last") auto
  ultimately have "inside (range_start r, range_end r) (ranges_bounds (dr_ranges d))"
    using k by (auto simp: inside_def ranges_bounds_def hd_conv_nth)
  from inside_trans [OF this inside_trans [OF ranges_bounds_inside_timeline [OF assms(2)] timelines_bounds_inside [OF assms(1)]]]
    inside_foldl_base [of "(0, 0)" "map timeline_bounds ts"]
  show ?thesis by (simp add: inside_def timelines_bounds_def)
qed

theorem timelines_bounds_cover_witness:
  "snd (timelines_bounds [\<lparr>tl_name = ''t'', tl_ranges = [\<lparr>dr_name = ''n'',
     dr_ranges = [\<lparr>range_start = 1, range_end = 2, range_value = ''a''\<rparr>, \<lparr>range_start = 4, range_end = 6, range_value = ''b''\<rparr>]\<rparr>],
     tl_event_str = [], tl_event_int = []\<rparr>]) \<ge> 6"
  (is "snd (timelines_bounds [?t]) \<ge> 6")
  using timelines_bounds_cover [of ?t "[?t]" "hd (tl_ranges ?t)" "dr_ranges (hd (tl_ranges ?t)) ! 1"]
  by (simp add: separated_def)

section \<open>Data from a file begin at zero\<close>

text \<open>The numbers in the file have no sign, so that no moment is before zero.\<close>

definition from_zero :: "timeline \<Rightarrow> bool" where
  "from_zero t \<longleftrightarrow>
     list_all (list_all (\<lambda>r. 0 \<le> range_start r) \<circ> dr_ranges) (tl_ranges t)
     \<and> list_all (list_all (\<lambda>e. 0 \<le> event_at e) \<circ> ev_events) (tl_event_str t)
     \<and> list_all (list_all (\<lambda>e. 0 \<le> event_at e) \<circ> ev_events) (tl_event_int t)"

lemma list_all_with_named:
  "P (new n) \<Longrightarrow> (\<And>x. P x \<Longrightarrow> P (f x)) \<Longrightarrow> list_all P xs \<Longrightarrow> list_all P (with_named nm new n f xs)"
  by (induction xs) auto

lemma from_zero_add:
  "0 \<le> range_start r \<Longrightarrow> from_zero t \<Longrightarrow> from_zero (get_range n (add_range r) t)"
  "0 \<le> event_at e \<Longrightarrow> from_zero t \<Longrightarrow> from_zero (get_event_str n (add_event e) t)"
  "0 \<le> event_at i \<Longrightarrow> from_zero t \<Longrightarrow> from_zero (get_event_int n (add_event i) t)"
  by (auto simp: from_zero_def get_range_def get_event_str_def get_event_int_def add_range_def add_event_def new_data_ranges_def
      new_events_def intro!: list_all_with_named)

lemma scan_line_nonneg:
  "scan_line l = Some (RangeLine t n r) \<Longrightarrow> 0 \<le> range_start r"
  "scan_line l = Some (StrLine t n e) \<Longrightarrow> 0 \<le> event_at e"
  "scan_line l = Some (IntLine t n i) \<Longrightarrow> 0 \<le> event_at i"
  by (auto simp: scan_line_def scan_range_def scan_str_def scan_int_def scan_color_def bind_eq_Some_conv
      split: option.splits)

lemma read_lines_from_zero: "list_all from_zero (snd (read_lines ls))"
proof (induction ls rule: rev_induct)
  case Nil
  show ?case by (simp add: read_lines_def)
next
  case (snoc l ls)
  obtain cs ts where d: "read_lines ls = (cs, ts)" by (cases "read_lines ls")
  have new: "from_zero (new_timeline m)" for m by (simp add: from_zero_def)
  show ?case
  proof (cases "scan_line l")
    case None
    with snoc d show ?thesis by (simp add: read_lines_snoc)
  next
    case (Some dl)
    with snoc d scan_line_nonneg [of l] show ?thesis
      by (cases dl) (auto simp: read_lines_snoc get_timeline_def intro!: list_all_with_named new from_zero_add)
  qed
qed

lemma foldl_widen_zero: "fst b = 0 \<Longrightarrow> list_all (\<lambda>c. 0 \<le> fst c) cs \<Longrightarrow> fst (foldl widen b cs) = 0"
  by (induction cs arbitrary: b) (simp_all add: widen_def)

lemma timeline_bounds_zero:
  assumes "from_zero t"
  shows "fst (timeline_bounds t) = 0"
proof -
  have r: "list_all (\<lambda>c. 0 \<le> fst c) (map (ranges_bounds \<circ> dr_ranges) (tl_ranges t))"
    using assms by (auto simp: from_zero_def list_all_iff ranges_bounds_def)
  have e: "list_all (\<lambda>c. 0 \<le> fst c) (map (events_bounds \<circ> ev_events) es)"
    if "list_all (list_all (\<lambda>e. 0 \<le> event_at e) \<circ> ev_events) es" for es :: "'v events list"
    using that by (auto simp: list_all_iff events_bounds_def)
  show ?thesis
    unfolding timeline_bounds_def using assms r by (intro foldl_widen_zero e) (simp_all add: from_zero_def)
qed

text \<open>
  The bounds of the timelines read from a file begin at zero, which the handlers that end a drag of
  a border rely on: \<open>scale_selection\<close> does not add the lower bound.
\<close>
theorem file_begins_at_zero: "fst (timelines_bounds (snd (read_lines ls))) = 0"
  unfolding timelines_bounds_def
  by (rule foldl_widen_zero) (use read_lines_from_zero [of ls] timeline_bounds_zero in \<open>auto simp: list_all_iff\<close>)

end
