(* ===== verification/GridDraw.thy ===== *)
theory GridDraw
  imports Timeline "HOL-Library.Sublist"
begin

text \<open>
  The drawing code of \<open>utils/grid.py\<close>: \<open>TopLegendRenderer\<close>,
  \<open>TimelinesRenderer\<close> and \<open>ScaleRenderer\<close>. A cairo context is the list of the calls
  made on it; drawing is an action on it that may raise. The size of a piece of text is asked of
  cairo, so it is a parameter \<open>ext\<close> here; coordinates, which Python keeps as floats, are
  rational numbers.
\<close>

section \<open>The drawing context\<close>

datatype call =
    Rectangle rat rat rat rat
  | MoveTo rat rat
  | LineTo rat rat
  | RelLineTo rat rat
  | ClosePath
  | SetSourceRgb rat rat rat
  | SetLineWidth rat
  | SetDash "rat list" rat
  | SetOperatorSource
  | Stroke
  | StrokePreserve
  | Fill
  | ShowText string
  | Translate rat rat
  | Save
  | Restore
  | Clip
  | SetSourceSurface "call list"
  | Paint

text \<open>Of the renderer's fields only the counter of background stripes changes while it draws.\<close>

record canvas =
  calls :: "call list"
  grey_background :: int

type_synonym drawing = "(canvas, unit) act"

definition paint :: "call list \<Rightarrow> drawing" where
  "paint cs = modify (\<lambda>s. s\<lparr>calls := calls s @ cs\<rparr>)"

record extents =
  y_bearing :: rat
  text_width :: rat
  text_height :: rat

type_synonym measuring = "string \<Rightarrow> extents"

section \<open>Numbers\<close>

text \<open>True division, the conversion \<open>int\<close> (towards zero), the remainder and \<open>range\<close>.\<close>

definition true_div :: "rat \<Rightarrow> rat \<Rightarrow> rat res" where
  "true_div a b = (if b = 0 then Inl ZeroDivisionError else Inr (a / b))"

definition py_int :: "rat \<Rightarrow> int" where
  "py_int q = (if q \<ge> 0 then \<lfloor>q\<rfloor> else \<lceil>q\<rceil>)"

definition py_mod :: "rat \<Rightarrow> rat \<Rightarrow> rat" where
  "py_mod a b = a - b * of_int \<lfloor>a / b\<rfloor>"

definition py_range :: "int \<Rightarrow> int \<Rightarrow> int \<Rightarrow> int list res" where
  "py_range a b s =
     (if s = 0 then Inl ValueError
      else Inr (map (\<lambda>k. a + int k * s)
        [0..<nat (if s > 0 then (b - a + s - 1) div s else (a - b - s - 1) div (- s))]))"

section \<open>The legend\<close>

record legend =
  lg_padding :: rat
  lg_legends :: "string list"
  lg_colors :: "color list"
  lg_width :: rat
  lg_height :: rat

text \<open>The variables of the loop that breaks the legend into lines.\<close>

record flow =
  line_height :: rat
  total_height :: rat
  line_used :: rat

definition start_flow :: "legend \<Rightarrow> flow" where
  "start_flow l = \<lparr>line_height = 0, total_height = lg_padding l, line_used = lg_padding l\<rparr>"

definition item_width :: "measuring \<Rightarrow> legend \<Rightarrow> string \<Rightarrow> rat" where
  "item_width ext l s = lg_padding l + lg_padding l + text_width (ext s) + lg_padding l"

definition place_item :: "measuring \<Rightarrow> legend \<Rightarrow> flow \<Rightarrow> string \<Rightarrow> flow" where
  "place_item ext l f s =
     (let width = item_width ext l s;
          height = text_height (ext s) + lg_padding l;
          f = (if height > line_height f then f\<lparr>line_height := height\<rparr> else f)
      in if line_used f + width > lg_width l
         then f\<lparr>line_used := lg_padding l + width, total_height := total_height f + line_height f\<rparr>
         else f\<lparr>line_used := line_used f + width\<rparr>)"

definition layout_legend :: "measuring \<Rightarrow> rat \<Rightarrow> legend \<Rightarrow> legend" where
  "layout_legend ext width l =
     (let l = l\<lparr>lg_width := width\<rparr>;
          f = foldl (place_item ext l) (start_flow l) (lg_legends l)
      in l\<lparr>lg_height := total_height f + line_height f\<rparr>)"

definition draw_item :: "measuring \<Rightarrow> legend \<Rightarrow> flow \<Rightarrow> int \<Rightarrow> string \<Rightarrow> drawing" where
  "draw_item ext l f i s =
     (let x = line_used f - item_width ext l s
      in act_bind (paint [Rectangle x (total_height f) (lg_padding l) (lg_padding l), SetSourceRgb 0 0 0,
                          SetLineWidth 2, StrokePreserve]) (\<lambda>_.
         act_bind (from_res (py_nth (lg_colors l) i)) (\<lambda>c.
           paint [SetSourceRgb (red c) (green c) (blue c), Fill,
                  MoveTo (x + lg_padding l * 2) (total_height f + text_height (ext s)), SetSourceRgb 0 0 0, ShowText s])))"

fun draw_items :: "measuring \<Rightarrow> legend \<Rightarrow> flow \<Rightarrow> int \<Rightarrow> string list \<Rightarrow> drawing" where
  "draw_items ext l f i [] = ret ()"
| "draw_items ext l f i (s # ss) =
     (let f = place_item ext l f s
      in act_bind (draw_item ext l f i s) (\<lambda>_. draw_items ext l f (i + 1) ss))"

definition draw_legend :: "measuring \<Rightarrow> legend \<Rightarrow> drawing" where
  "draw_legend ext l = draw_items ext l (start_flow l) 0 (lg_legends l)"

section \<open>The timelines\<close>

record renderer =
  rd_padding :: rat
  rd_timelines :: "timeline list"
  rd_colors :: "(string, color) dict"
  rd_start :: rat
  rd_end :: rat
  rd_left_width :: rat
  rd_right_width :: rat
  rd_max_text_height :: rat
  rd_width :: rat
  rd_height :: rat

definition get_data_x_start :: "renderer \<Rightarrow> rat" where
  "get_data_x_start r = rd_padding r / 2 + rd_left_width r + rd_padding r + rd_right_width r + rd_padding r / 2"

definition alphabet :: string where
  "alphabet = ''ABCDEFGHIJKLMNOPQRSTUVWXYZabcedefghijklmnopqrstuvwxyz0123456789''"

text \<open>The names in the right column.\<close>

definition row_names :: "timeline \<Rightarrow> string list" where
  "row_names t = map dr_name (tl_ranges t) @ map ev_name (tl_event_int t) @ map ev_name (tl_event_str t)"

definition count_rows :: "(timeline \<Rightarrow> 'a list) \<Rightarrow> timeline list \<Rightarrow> rat" where
  "count_rows f ts = of_nat (sum_list (map (length \<circ> f) ts))"

definition layout_renderer :: "measuring \<Rightarrow> rat \<Rightarrow> renderer \<Rightarrow> renderer" where
  "layout_renderer ext width r =
     (let max_text_height = text_height (ext alphabet);
          ts = rd_timelines r;
          left_width = foldl (\<lambda>w t. max w (text_width (ext (tl_name t)))) 0 ts;
          right_width = foldl (\<lambda>w n. max w (text_width (ext n))) 0 (concat (map row_names ts));
          left_n_lines = of_nat (length ts);
          range_n = count_rows tl_ranges ts;
          event_n = count_rows tl_event_int ts + count_rows tl_event_str ts;
          left_height = left_n_lines * max_text_height + (left_n_lines - 1) * rd_padding r;
          right_n_lines = range_n + event_n;
          right_height = (right_n_lines - 1) * rd_padding r + right_n_lines * max_text_height;
          right_data_height = event_n * (max_text_height + 5) + range_n * 10 + (right_n_lines - 1) * rd_padding r;
          height = max (max left_height right_height) right_data_height
      in r\<lparr>rd_left_width := left_width, rd_right_width := right_width, rd_max_text_height := max_text_height,
           rd_width := width, rd_height := height + rd_padding r\<rparr>)"

definition draw_line :: "rat \<Rightarrow> rat \<Rightarrow> rat \<Rightarrow> rat \<Rightarrow> drawing" where
  "draw_line x y width height =
     paint [MoveTo x y, RelLineTo width height, ClosePath, SetOperatorSource, SetLineWidth 1, SetSourceRgb 0 0 0, Stroke]"

text \<open>Every other row has a grey background.\<close>

definition draw_stripe :: "renderer \<Rightarrow> rat \<Rightarrow> rat \<Rightarrow> rat \<Rightarrow> rat \<Rightarrow> drawing" where
  "draw_stripe r x y width height =
     modify (\<lambda>s. if grey_background s mod 2 = 0
       then s\<lparr>calls := calls s @ [Rectangle x (y - rd_padding r / 2) width (height + rd_padding r),
                                 SetSourceRgb (9 / 10) (9 / 10) (9 / 10), Fill]\<rparr> else s)"

definition next_stripe :: drawing where
  "next_stripe = modify (\<lambda>s. s\<lparr>grey_background := grey_background s + 1\<rparr>)"

text \<open>The column of a moment of time; the loops go on from the last column drawn.\<close>

definition data_column :: "renderer \<Rightarrow> rat \<Rightarrow> rat \<Rightarrow> rat \<Rightarrow> int res" where
  "data_column r x width t =
     and_then (true_div ((t - rd_start r) * width) (rd_end r - rd_start r)) (\<lambda>d. Inr (py_int (x + d)))"

fun label_events :: "renderer \<Rightarrow> ('v \<Rightarrow> string) \<Rightarrow> rat \<Rightarrow> rat \<Rightarrow> rat \<Rightarrow> int \<Rightarrow> 'v event list \<Rightarrow> drawing" where
  "label_events r shw x y width last_x [] = ret ()"
| "label_events r shw x y width last_x (e # es) =
     act_bind (from_res (data_column r x width (event_at e))) (\<lambda>real_x.
       if real_x > last_x + 2
       then act_bind (paint [Rectangle (of_int real_x) y 1 1, SetSourceRgb 1 0 0, Stroke,
                             MoveTo (of_int real_x) (y + rd_max_text_height r), SetSourceRgb 0 0 0,
                             ShowText (shw (event_value e))])
              (\<lambda>_. label_events r shw x y width real_x es)
       else label_events r shw x y width last_x es)"

definition draw_events :: "renderer \<Rightarrow> ('v \<Rightarrow> string) \<Rightarrow> 'v events \<Rightarrow> rat \<Rightarrow> rat \<Rightarrow> rat \<Rightarrow> rat \<Rightarrow> drawing" where
  "draw_events r shw es x y width height =
     act_bind (draw_stripe r x y width height) (\<lambda>_.
     act_bind (case get_events_bounds (ev_events es) (rd_start r) (rd_end r) of (lo, hi) \<Rightarrow>
                 label_events r shw x y width (py_int x) (slice (ev_events es) lo hi)) (\<lambda>_.
       next_stripe))"

fun fill_ranges :: "renderer \<Rightarrow> rat \<Rightarrow> rat \<Rightarrow> rat \<Rightarrow> int \<Rightarrow> data_range list \<Rightarrow> drawing" where
  "fill_ranges r x y width last_x [] = ret ()"
| "fill_ranges r x y width last_x (d # ds) =
     act_bind (from_res (data_column r x width (max (range_start d) (rd_start r)))) (\<lambda>x_start.
     act_bind (from_res (data_column r x width (min (range_end d) (rd_end r)))) (\<lambda>x_end.
       if x_end > last_x
       then act_bind (paint [Rectangle (of_int x_start) y (of_int x_end - of_int x_start) 10, SetSourceRgb 0 0 0, StrokePreserve]) (\<lambda>_.
            act_bind (from_res (lookup_color (range_value d) (rd_colors r))) (\<lambda>c.
            act_bind (paint [SetSourceRgb (red c) (green c) (blue c), Fill])
              (\<lambda>_. fill_ranges r x y width x_end ds)))
       else fill_ranges r x y width last_x ds))"

definition draw_ranges :: "renderer \<Rightarrow> data_ranges \<Rightarrow> rat \<Rightarrow> rat \<Rightarrow> rat \<Rightarrow> rat \<Rightarrow> drawing" where
  "draw_ranges r rs x y width height =
     act_bind (draw_stripe r x y width height) (\<lambda>_.
     act_bind (case get_ranges_bounds (dr_ranges rs) (rd_start r) (rd_end r) of (lo, hi) \<Rightarrow>
                 fill_ranges r x y width (py_int (x - 1)) (slice (dr_ranges rs) lo hi)) (\<lambda>_.
       next_stripe))"

text \<open>A loop that hands the vertical position on from row to row.\<close>

fun act_fold :: "('b \<Rightarrow> 'a \<Rightarrow> ('s, 'b) act) \<Rightarrow> 'b \<Rightarrow> 'a list \<Rightarrow> ('s, 'b) act" where
  "act_fold f y [] = ret y"
| "act_fold f y (x # xs) = act_bind (f y x) (\<lambda>y'. act_fold f y' xs)"

definition right_x_start :: "renderer \<Rightarrow> rat" where
  "right_x_start r = rd_padding r / 2 + rd_left_width r + rd_padding r"

definition draw_name :: "measuring \<Rightarrow> renderer \<Rightarrow> rat \<Rightarrow> rat \<Rightarrow> string \<Rightarrow> drawing" where
  "draw_name ext r x y s =
     paint [MoveTo x (y + rd_max_text_height r - (text_height (ext s) + y_bearing (ext s))), ShowText s]"

definition draw_row :: "measuring \<Rightarrow> renderer \<Rightarrow> string \<Rightarrow> (rat \<Rightarrow> drawing) \<Rightarrow> rat \<Rightarrow> rat \<Rightarrow> (canvas, rat) act" where
  "draw_row ext r s draw_data height y =
     act_bind (draw_name ext r (right_x_start r) y s) (\<lambda>_.
     act_bind (draw_data y) (\<lambda>_.
       let y = y + height + rd_padding r
       in act_bind (draw_line (right_x_start r - rd_padding r / 2) (y - rd_padding r / 2) (rd_right_width r + rd_padding r) 0)
            (\<lambda>_. ret y)))"

definition draw_events_row :: "measuring \<Rightarrow> renderer \<Rightarrow> ('v \<Rightarrow> string) \<Rightarrow> rat \<Rightarrow> 'v events \<Rightarrow> (canvas, rat) act" where
  "draw_events_row ext r shw y es =
     draw_row ext r (ev_name es)
       (\<lambda>y. draw_events r shw es (get_data_x_start r) y (rd_width r - get_data_x_start r) (rd_max_text_height r + 5))
       (rd_max_text_height r + 5) y"

definition draw_ranges_row :: "measuring \<Rightarrow> renderer \<Rightarrow> rat \<Rightarrow> data_ranges \<Rightarrow> (canvas, rat) act" where
  "draw_ranges_row ext r y rs =
     draw_row ext r (dr_name rs)
       (\<lambda>y. draw_ranges r rs (get_data_x_start r) y (rd_width r - get_data_x_start r) 10)
       (rd_max_text_height r) y"

definition draw_timeline :: "measuring \<Rightarrow> renderer \<Rightarrow> rat \<Rightarrow> timeline \<Rightarrow> (canvas, rat) act" where
  "draw_timeline ext r y t =
     act_bind (draw_name ext r (rd_padding r / 2) y (tl_name t)) (\<lambda>_.
     act_bind (act_fold (draw_events_row ext r show_int) y (tl_event_int t)) (\<lambda>y.
     act_bind (act_fold (draw_events_row ext r (\<lambda>s. s)) y (tl_event_str t)) (\<lambda>y.
     act_bind (act_fold (draw_ranges_row ext r) y (tl_ranges t)) (\<lambda>y.
     act_bind (draw_line 0 (y - rd_padding r / 2) (rd_width r) 0) (\<lambda>_. ret y)))))"

definition draw_rows :: "measuring \<Rightarrow> renderer \<Rightarrow> (canvas, rat) act" where
  "draw_rows ext r =
     act_bind (draw_line 0 0 (rd_width r) 0) (\<lambda>_.
     act_bind (modify (\<lambda>s. s\<lparr>grey_background := 1\<rparr>)) (\<lambda>_.
       act_fold (draw_timeline ext r) (rd_padding r / 2) (rd_timelines r)))"

definition draw_renderer :: "measuring \<Rightarrow> renderer \<Rightarrow> drawing" where
  "draw_renderer ext r =
     act_bind (draw_rows ext r) (\<lambda>cur_y.
       let bot_y = cur_y - rd_padding r / 2;
           left_x_end = rd_padding r / 2 + rd_left_width r;
           right_x_end = right_x_start r + rd_right_width r
       in act_bind (draw_line (left_x_end + rd_padding r / 2) 0 0 bot_y) (\<lambda>_.
            draw_line (right_x_end + rd_padding r / 2) 0 0 bot_y))"

section \<open>The scales\<close>

record scale =
  sc_top :: bool
  sc_lo :: rat
  sc_hi :: rat
  sc_delta :: rat
  sc_width :: rat
  sc_height :: rat

definition set_bounds :: "rat \<Rightarrow> rat \<Rightarrow> scale \<Rightarrow> scale" where
  "set_bounds lo hi sc = sc\<lparr>sc_lo := lo, sc_hi := hi\<rparr>"

definition get_position :: "scale \<Rightarrow> rat \<Rightarrow> rat res" where
  "get_position sc x = true_div ((x - sc_lo sc) * sc_width sc) (sc_hi sc - sc_lo sc)"

text \<open>The loop \<open>while (closest*10) < data_delta\<close>, when \<open>closest\<close> is the power \<open>10 ^ k\<close>.\<close>

function closest_power :: "rat \<Rightarrow> nat \<Rightarrow> int" where
  "closest_power data_delta k =
     (if of_int (10 ^ k * 10) < data_delta then closest_power data_delta (k + 1) else 10 ^ k)"
  by pat_completeness auto

termination
proof (relation "measure (\<lambda>(d, k). nat (\<lceil>d\<rceil> - 10 ^ k))")
  fix d :: rat and k :: nat
  assume "of_int (10 ^ k * 10) < d"
  then have "10 ^ k * 10 < \<lceil>d\<rceil>" by (simp only: less_ceiling_iff)
  moreover have "(10 :: int) ^ k > 0" by simp
  ultimately have "10 ^ k < \<lceil>d\<rceil>" by linarith
  then show "((d, k + 1), d, k) \<in> measure (\<lambda>(d, k). nat (\<lceil>d\<rceil> - 10 ^ k))" by simp
qed simp

declare closest_power.simps [simp del]

definition scale_delta :: "rat \<Rightarrow> rat" where
  "scale_delta data_delta =
     (let closest = of_int (closest_power data_delta 0)
      in if data_delta / closest = 0 then closest
         else if data_delta / closest = 1 then closest / 10
         else closest)"

definition layout_scale :: "measuring \<Rightarrow> rat \<Rightarrow> scale \<Rightarrow> scale" where
  "layout_scale ext width sc =
     sc\<lparr>sc_delta := scale_delta (sc_hi sc - sc_lo sc), sc_width := width, sc_height := text_height (ext alphabet) + 10\<rparr>"

text \<open>The whole numbers at which a scale with the given step has its marks.\<close>

definition scale_marks :: "scale \<Rightarrow> rat \<Rightarrow> int list res" where
  "scale_marks sc delta =
     (let start = sc_lo sc - py_mod (sc_lo sc) delta + delta; end_mark = sc_hi sc - py_mod (sc_hi sc) delta
      in py_range (py_int start) (py_int (end_mark + delta)) (py_int delta))"

definition draw_mark :: "measuring \<Rightarrow> scale \<Rightarrow> rat \<Rightarrow> int \<Rightarrow> drawing" where
  "draw_mark ext sc s x =
     act_bind (from_res (get_position sc (of_int x))) (\<lambda>real_x.
       let e = ext (show_int x);
           text_delta = (if sc_top sc then text_height e + y_bearing e else - y_bearing e)
       in paint [MoveTo real_x 0, LineTo real_x (5 * s), ClosePath, Stroke,
                 MoveTo (real_x - text_width e / 2) ((5 + 5 + text_delta) * s), ShowText (show_int x)])"

definition draw_submark :: "scale \<Rightarrow> rat \<Rightarrow> int \<Rightarrow> drawing" where
  "draw_submark sc s x =
     act_bind (from_res (get_position sc (of_int x))) (\<lambda>real_x.
       paint [MoveTo real_x 0, LineTo real_x (3 * s), ClosePath, Stroke])"

definition draw_scale :: "measuring \<Rightarrow> scale \<Rightarrow> drawing" where
  "draw_scale ext sc =
     (let s = (if sc_top sc then - 1 else 1); sub = sc_delta sc / 10
      in act_bind (paint [SetSourceRgb 0 0 0, SetLineWidth 1]) (\<lambda>_.
         act_bind (from_res (scale_marks sc (sc_delta sc))) (\<lambda>ticks.
         act_bind (act_for (draw_mark ext sc s) ticks) (\<lambda>_.
           if sub > 0
           then act_bind (from_res (scale_marks sc sub)) (act_for (draw_submark sc s))
           else ret ()))))"

section \<open>Drawing actions\<close>

lemma paint_run [act_simps]: "paint cs s = (Inr (), s\<lparr>calls := calls s @ cs\<rparr>)"
  by (simp add: paint_def act_simps)

lemma paint_paint: "act_bind (paint as) (\<lambda>_. paint bs) = paint (as @ bs)"
  by (rule ext) (simp add: act_simps)

lemma act_for_paint: "\<forall>x\<in>set xs. f x = paint (g x) \<Longrightarrow> act_for f xs = paint (concat (map g xs))"
proof (induction xs)
  case Nil
  show ?case by (rule ext) (simp add: act_simps)
next
  case (Cons x xs)
  then show ?case by (simp add: paint_paint)
qed

section \<open>The marks of a scale\<close>

lemma closest_power_spec:
  "\<exists>n\<ge>k. closest_power d k = 10 ^ n \<and> d \<le> 10 ^ (n + 1) \<and> (n = k \<or> 10 ^ n < d)"
proof (induction d k rule: closest_power.induct)
  case (1 d k)
  show ?case
  proof (cases "of_int (10 ^ k * 10) < d")
    case True
    with 1 obtain n where n: "n \<ge> k + 1" "closest_power d (k + 1) = 10 ^ n" "d \<le> 10 ^ (n + 1)" "n = k + 1 \<or> 10 ^ n < d"
      by blast
    with True have "10 ^ n < d" by (auto simp: mult.commute)
    with n True show ?thesis by (subst closest_power.simps) auto
  next
    case False
    then show ?thesis by (subst closest_power.simps) (auto simp: not_less mult.commute)
  qed
qed

lemma scale_delta_small: "d \<le> 10 \<Longrightarrow> scale_delta d = (if d = 1 then 1 / 10 else 1)"
  by (simp add: scale_delta_def closest_power.simps)

lemma scale_delta_large:
  assumes "10 < d"
  obtains n where "scale_delta d = 10 ^ (n + 1)" "10 ^ (n + 1) < d" "d \<le> 10 ^ (n + 2)"
proof -
  from closest_power_spec [of 0 d] obtain n where
    n: "closest_power d 0 = 10 ^ n" "d \<le> 10 ^ (n + 1)" "n = 0 \<or> 10 ^ n < d" by blast
  have "n \<noteq> 0"
  proof
    assume "n = 0"
    with n(2) assms show False by simp
  qed
  with n(3) obtain m where m: "n = m + 1" "10 ^ n < d" by (cases n) auto
  from m(2) have "d / 10 ^ n > 1" by (simp add: pos_less_divide_eq)
  then have "scale_delta d = 10 ^ n" using n(1) by (auto simp: scale_delta_def Let_def)
  with m n(2) that show ?thesis by simp
qed

text \<open>The multiples of a step that are greater than one bound and at most the other.\<close>

definition multiples :: "int \<Rightarrow> rat \<Rightarrow> rat \<Rightarrow> int list" where
  "multiples m lo hi = map (\<lambda>j. m * j) [\<lfloor>lo / of_int m\<rfloor> + 1..\<lfloor>hi / of_int m\<rfloor>]"

lemma set_multiples: "0 < m \<Longrightarrow> set (multiples m lo hi) = {x. m dvd x \<and> lo < of_int x \<and> of_int x \<le> hi}"
  by (auto simp: multiples_def image_iff dvd_def add1_zle_eq floor_less_iff le_floor_iff pos_divide_less_eq
      pos_le_divide_eq mult.commute)

lemma sorted_multiples: "0 < m \<Longrightarrow> sorted_wrt (<) (multiples m lo hi)"
  by (auto simp: multiples_def sorted_wrt_map intro!: sorted_wrt_mono_rel [OF _ sorted_wrt_upto])

lemma length_multiples:
  assumes "0 < m"
  shows "of_int m < hi - lo \<Longrightarrow> 1 \<le> length (multiples m lo hi)"
    and "hi - lo \<le> 10 * of_int m \<Longrightarrow> length (multiples m lo hi) \<le> 10"
proof -
  have len: "length (multiples m lo hi) = nat (\<lfloor>hi / of_int m\<rfloor> - \<lfloor>lo / of_int m\<rfloor>)"
    by (simp add: multiples_def)
  have d: "(hi - lo) / of_int m = hi / of_int m - lo / of_int m" by (rule diff_divide_distrib)
  show "1 \<le> length (multiples m lo hi)" if "of_int m < hi - lo"
  proof -
    from that assms have "1 < (hi - lo) / of_int m" by (simp add: pos_less_divide_eq)
    with d have "lo / of_int m + 1 < hi / of_int m" by linarith
    then have "\<lfloor>lo / of_int m\<rfloor> + 1 \<le> \<lfloor>hi / of_int m\<rfloor>" by linarith
    then show ?thesis unfolding len by simp
  qed
  show "length (multiples m lo hi) \<le> 10" if "hi - lo \<le> 10 * of_int m"
  proof -
    from that assms have "(hi - lo) / of_int m \<le> 10" by (simp add: pos_divide_le_eq)
    with d have "hi / of_int m \<le> lo / of_int m + 10" by linarith
    then have "\<lfloor>hi / of_int m\<rfloor> \<le> \<lfloor>lo / of_int m\<rfloor> + 10" by linarith
    then show ?thesis unfolding len by simp
  qed
qed

lemma py_int_of_int [simp]: "py_int (of_int n) = n"
  by (simp add: py_int_def)

lemma scale_marks_multiples:
  assumes "0 < m"
  shows "scale_marks sc (of_int m) = Inr (multiples m (sc_lo sc) (sc_hi sc))"
proof -
  let ?a = "\<lfloor>sc_lo sc / of_int m\<rfloor>" and ?b = "\<lfloor>sc_hi sc / of_int m\<rfloor>"
  have start: "sc_lo sc - py_mod (sc_lo sc) (of_int m) + of_int m = of_int (m * (?a + 1))"
    and stop: "sc_hi sc - py_mod (sc_hi sc) (of_int m) + of_int m = of_int (m * (?b + 1))"
    by (simp_all add: py_mod_def algebra_simps)
  have "(m * (?b + 1) - m * (?a + 1) + m - 1) div m = ?b - ?a"
  proof -
    have "m * (?b + 1) - m * (?a + 1) + m - 1 = (?b - ?a) * m + (m - 1)" by (simp add: algebra_simps)
    then show ?thesis using assms by (simp only: div_mult_self3 div_pos_pos_trivial)
  qed
  moreover have upto: "[?a + 1..?b] = map (\<lambda>k. ?a + 1 + int k) [0..<nat (?b - ?a)]"
  proof (rule nth_equalityI)
    show "[?a + 1..?b] ! i = map (\<lambda>k. ?a + 1 + int k) [0..<nat (?b - ?a)] ! i" if "i < length [?a + 1..?b]" for i
      using that by (subst nth_upto) auto
  qed simp
  have "multiples m (sc_lo sc) (sc_hi sc) = map (\<lambda>k. m * (?a + 1) + int k * m) [0..<nat (?b - ?a)]"
    unfolding multiples_def upto map_map o_def by (simp add: distrib_left mult.commute)
  ultimately show ?thesis
    using assms unfolding scale_marks_def Let_def start stop py_int_of_int py_range_def by simp
qed

lemma py_int_tenth [simp]: "py_int (1 / 10) = 0"
  by (simp add: py_int_def floor_eq_iff)

text \<open>The calls that draw one mark.\<close>

definition mark_calls :: "measuring \<Rightarrow> scale \<Rightarrow> rat \<Rightarrow> int \<Rightarrow> call list" where
  "mark_calls ext sc s x =
     (let real_x = (of_int x - sc_lo sc) * sc_width sc / (sc_hi sc - sc_lo sc); e = ext (show_int x)
      in [MoveTo real_x 0, LineTo real_x (5 * s), ClosePath, Stroke,
          MoveTo (real_x - text_width e / 2) ((10 + (if sc_top sc then text_height e + y_bearing e else - y_bearing e)) * s),
          ShowText (show_int x)])"

definition submark_calls :: "scale \<Rightarrow> rat \<Rightarrow> int \<Rightarrow> call list" where
  "submark_calls sc s x =
     (let real_x = (of_int x - sc_lo sc) * sc_width sc / (sc_hi sc - sc_lo sc)
      in [MoveTo real_x 0, LineTo real_x (3 * s), ClosePath, Stroke])"

lemma draw_mark_paint:
  assumes "sc_lo sc \<noteq> sc_hi sc"
  shows "draw_mark ext sc s x = paint (mark_calls ext sc s x)" "draw_submark sc s x = paint (submark_calls sc s x)"
  by (rule HOL.ext; use assms in \<open>simp add: draw_mark_def draw_submark_def mark_calls_def submark_calls_def get_position_def
      true_div_def act_simps Let_def\<close>)+

lemma layout_scale_fields [simp]:
  "sc_lo (layout_scale ext w sc) = sc_lo sc" "sc_hi (layout_scale ext w sc) = sc_hi sc" "sc_top (layout_scale ext w sc) = sc_top sc"
  "sc_width (layout_scale ext w sc) = w" "sc_delta (layout_scale ext w sc) = scale_delta (sc_hi sc - sc_lo sc)"
  "sc_height (layout_scale ext w sc) = text_height (ext alphabet) + 10"
  by (simp_all add: layout_scale_def)

abbreviation side :: "scale \<Rightarrow> rat" where
  "side sc \<equiv> if sc_top sc then - 1 else 1"

text \<open>
  C39. Where the interval shown is longer than ten, the scale is drawn with between one and ten
  labelled marks: at every multiple of the greatest power of ten that is less than the length, from
  the lower bound (excluded) to the upper bound (included), from left to right; and with a smaller
  mark at every multiple of a tenth of it.
\<close>
theorem draw_scale_marks:
  assumes "10 < sc_hi sc - sc_lo sc"
  shows "\<exists>n ticks subticks.
    10 ^ (n + 1) < sc_hi sc - sc_lo sc \<and> sc_hi sc - sc_lo sc \<le> 10 ^ (n + 2)
    \<and> draw_scale ext (layout_scale ext w sc) c = (Inr (), c\<lparr>calls := calls c @ [SetSourceRgb 0 0 0, SetLineWidth 1]
        @ concat (map (mark_calls ext (layout_scale ext w sc) (side sc)) ticks)
        @ concat (map (submark_calls (layout_scale ext w sc) (side sc)) subticks)\<rparr>)
    \<and> sorted_wrt (<) ticks \<and> set ticks = {x. 10 ^ (n + 1) dvd x \<and> sc_lo sc < of_int x \<and> of_int x \<le> sc_hi sc}
    \<and> sorted_wrt (<) subticks \<and> set subticks = {x. 10 ^ n dvd x \<and> sc_lo sc < of_int x \<and> of_int x \<le> sc_hi sc}
    \<and> 1 \<le> length ticks \<and> length ticks \<le> 10"
proof -
  let ?sc = "layout_scale ext w sc"
  from scale_delta_large [OF assms] obtain n where
    n: "scale_delta (sc_hi sc - sc_lo sc) = 10 ^ (n + 1)" "10 ^ (n + 1) < sc_hi sc - sc_lo sc" "sc_hi sc - sc_lo sc \<le> 10 ^ (n + 2)" .
  let ?ticks = "multiples (10 ^ (n + 1)) (sc_lo sc) (sc_hi sc)" and ?subticks = "multiples (10 ^ n) (sc_lo sc) (sc_hi sc)"
  have marks: "scale_marks ?sc (sc_delta ?sc) = Inr ?ticks" "scale_marks ?sc (sc_delta ?sc / 10) = Inr ?subticks"
    using scale_marks_multiples [of "10 ^ (n + 1)" ?sc] scale_marks_multiples [of "10 ^ n" ?sc] n(1) by simp_all
  have "sc_lo ?sc \<noteq> sc_hi ?sc" using assms by auto
  note paints = draw_mark_paint [OF this]
  have "draw_scale ext ?sc c = (Inr (), c\<lparr>calls := calls c @ [SetSourceRgb 0 0 0, SetLineWidth 1]
        @ concat (map (mark_calls ext ?sc (side sc)) ?ticks) @ concat (map (submark_calls ?sc (side sc)) ?subticks)\<rparr>)"
    using n(1) marks act_for_paint [of ?ticks "draw_mark ext ?sc (side sc)" "mark_calls ext ?sc (side sc)"]
      act_for_paint [of ?subticks "draw_submark ?sc (side sc)" "submark_calls ?sc (side sc)"]
    by (cases "sc_top sc") (simp_all add: draw_scale_def Let_def paints act_simps)
  moreover have "1 \<le> length ?ticks" "length ?ticks \<le> 10"
    using length_multiples [of "10 ^ (n + 1)" "sc_hi sc" "sc_lo sc"] n by simp_all
  ultimately show ?thesis
    using n set_multiples [of "10 ^ (n + 1)" "sc_lo sc" "sc_hi sc"] set_multiples [of "10 ^ n" "sc_lo sc" "sc_hi sc"]
      sorted_multiples [of "10 ^ (n + 1)" "sc_lo sc" "sc_hi sc"] sorted_multiples [of "10 ^ n" "sc_lo sc" "sc_hi sc"]
    by (intro exI [of _ n] exI [of _ ?ticks] exI [of _ ?subticks]) simp
qed

theorem draw_scale_marks_witness:
  "fst (draw_scale (\<lambda>s. \<lparr>y_bearing = - 8, text_width = 30, text_height = 8\<rparr>)
     (layout_scale (\<lambda>s. \<lparr>y_bearing = - 8, text_width = 30, text_height = 8\<rparr>) 200
       \<lparr>sc_top = True, sc_lo = 3, sc_hi = 103, sc_delta = 0, sc_width = 0, sc_height = 0\<rparr>)
     \<lparr>calls = [], grey_background = 0\<rparr>) = Inr ()"
  (is "fst (draw_scale ?ext (layout_scale ?ext 200 ?sc) ?c) = _")
  using draw_scale_marks [of ?sc ?ext 200 ?c] by (elim exE conjE meta_impE) (simp, simp only: fst_conv)

text \<open>
  A scale cannot be drawn for an interval of length ten or less, however often it is laid
  out: the tenth of its step is rounded down to zero, which \<open>range\<close> refuses.
\<close>
theorem draw_scale_short:
  assumes "sc_hi sc - sc_lo sc \<le> 10"
  shows "fst (draw_scale ext (layout_scale ext w sc) c) = Inl ValueError"
proof -
  let ?sc = "layout_scale ext w sc"
  have tenth: "scale_marks sc' (1 / 10) = Inl ValueError" for sc'
    by (simp add: scale_marks_def py_range_def)
  show ?thesis
  proof (cases "sc_hi sc - sc_lo sc = 1")
    case True
    then have delta: "sc_delta ?sc = 1 / 10" by (simp add: scale_delta_small)
    show ?thesis by (simp add: draw_scale_def Let_def act_simps tenth delta del: layout_scale_fields)
  next
    case False
    then have delta: "sc_delta ?sc = 1" using assms by (simp add: scale_delta_small)
    have marks: "scale_marks ?sc 1 = Inr (multiples 1 (sc_lo sc) (sc_hi sc))"
      using scale_marks_multiples [of 1 ?sc] by simp
    show ?thesis
    proof (cases "sc_lo sc < sc_hi sc")
      case True
      then have "sc_lo ?sc \<noteq> sc_hi ?sc" by simp
      note paints = draw_mark_paint [OF this]
      have "act_for (draw_mark ext ?sc s) xs = paint (concat (map (mark_calls ext ?sc s) xs))" for s xs
        by (rule act_for_paint) (simp add: paints)
      then show ?thesis by (simp add: draw_scale_def Let_def act_simps tenth marks delta del: layout_scale_fields)
    next
      case False
      then have "multiples 1 (sc_lo sc) (sc_hi sc) = []"
        using floor_mono [of "sc_hi sc" "sc_lo sc"] by (simp add: multiples_def)
      then show ?thesis by (simp add: draw_scale_def Let_def act_simps tenth marks delta del: layout_scale_fields)
    qed
  qed
qed

section \<open>The lines of the legend\<close>

text \<open>The place of every item: left and upper border, width and height.\<close>

type_synonym box = "rat \<times> rat \<times> rat \<times> rat"

fun boxes :: "measuring \<Rightarrow> legend \<Rightarrow> flow \<Rightarrow> string list \<Rightarrow> box list" where
  "boxes ext l f [] = []"
| "boxes ext l f (s # ss) =
     (let f = place_item ext l f s
      in (line_used f - item_width ext l s, total_height f, item_width ext l s, text_height (ext s) + lg_padding l)
         # boxes ext l f ss)"

lemma length_boxes [simp]: "length (boxes ext l f ss) = length ss"
  by (induction ss arbitrary: f) (simp_all add: Let_def)

text \<open>One item ends above the other, or in the same line on its left.\<close>

fun apart :: "box \<Rightarrow> box \<Rightarrow> bool" where
  "apart (x, y, w, h) (x', y', w', h') \<longleftrightarrow> y + h \<le> y' \<or> (y = y' \<and> x + w \<le> x')"

fun box_calls :: "rat \<Rightarrow> (box \<times> string) \<times> color \<Rightarrow> call list" where
  "box_calls p (((x, y, w, h), s), c) =
     [Rectangle x y p p, SetSourceRgb 0 0 0, SetLineWidth 2, StrokePreserve,
      SetSourceRgb (red c) (green c) (blue c), Fill, MoveTo (x + p * 2) (y + (h - p)), SetSourceRgb 0 0 0, ShowText s]"

fun after_flow :: "flow \<Rightarrow> box \<Rightarrow> bool" where
  "after_flow f (x, y, w, h) \<longleftrightarrow> total_height f + line_height f \<le> y \<or> (y = total_height f \<and> line_used f \<le> x)"

lemma place_item_cases:
  fixes ext l f s
  defines "f' \<equiv> place_item ext l f s"
  shows "line_height f' = max (line_height f) (text_height (ext s) + lg_padding l)"
    and "(line_used f + item_width ext l s > lg_width l \<and> line_used f' = lg_padding l + item_width ext l s
           \<and> total_height f' = total_height f + line_height f')
       \<or> (line_used f + item_width ext l s \<le> lg_width l \<and> line_used f' = line_used f + item_width ext l s
           \<and> total_height f' = total_height f)"
  by (auto simp: f'_def place_item_def Let_def max_def not_less)

lemma item_width_nonneg: "0 \<le> lg_padding l \<Longrightarrow> \<forall>s. 0 \<le> text_width (ext s) \<Longrightarrow> 0 \<le> item_width ext l s"
  by (simp add: item_width_def)

lemma boxes_after:
  assumes "0 \<le> lg_padding l" "\<forall>s. 0 \<le> text_width (ext s)" "0 \<le> line_height f" "b \<in> set (boxes ext l f ss)"
  shows "after_flow f b"
  using assms(3,4)
proof (induction ss arbitrary: f)
  case (Cons s ss)
  let ?f = "place_item ext l f s"
  note placed = place_item_cases [where ext = ext and l = l and f = f and s = s]
  from placed(1) Cons.prems(1) have lh: "line_height f \<le> line_height ?f" "0 \<le> line_height ?f" by simp_all
  note w = item_width_nonneg [OF assms(1,2), of s]
  from Cons.prems(2) consider
      "b = (line_used ?f - item_width ext l s, total_height ?f, item_width ext l s, text_height (ext s) + lg_padding l)"
    | "b \<in> set (boxes ext l ?f ss)"
    by (auto simp: Let_def)
  then show ?case
  proof cases
    case 1
    with placed(2) lh show ?thesis by auto
  next
    case 2
    then have "after_flow ?f b" using Cons.IH lh by blast
    with placed(2) lh w show ?thesis by (cases b) auto
  qed
qed simp

lemma boxes_apart:
  assumes "0 \<le> lg_padding l" "\<forall>s. 0 \<le> text_width (ext s)" "0 \<le> line_height f"
  shows "sorted_wrt apart (boxes ext l f ss)"
  using assms(3)
proof (induction ss arbitrary: f)
  case (Cons s ss)
  let ?f = "place_item ext l f s"
  note placed = place_item_cases(1) [where ext = ext and l = l and f = f and s = s]
  with Cons.prems have lh: "0 \<le> line_height ?f" by simp
  have "apart (line_used ?f - item_width ext l s, total_height ?f, item_width ext l s, text_height (ext s) + lg_padding l) b"
    if "b \<in> set (boxes ext l ?f ss)" for b
    using boxes_after [OF assms(1,2) lh that] placed by (cases b) auto
  with Cons.IH [OF lh] show ?case by (simp add: Let_def)
qed simp

lemma boxes_inside_width:
  assumes "lg_padding l \<le> line_used f" "0 \<le> lg_padding l" "\<forall>s. 0 \<le> text_width (ext s)" "(x, y, w, h) \<in> set (boxes ext l f ss)"
  shows "lg_padding l \<le> x \<and> (x + w \<le> lg_width l \<or> x = lg_padding l)"
  using assms(1,4)
proof (induction ss arbitrary: f)
  case (Cons s ss)
  let ?f = "place_item ext l f s"
  note placed = place_item_cases(2) [where ext = ext and l = l and f = f and s = s]
  from placed item_width_nonneg [OF assms(2,3), of s] Cons.prems(1) have "lg_padding l \<le> line_used ?f" by auto
  with Cons placed show ?case by (auto simp: Let_def)
qed simp

lemma foldl_place_height:
  "0 \<le> line_height f \<Longrightarrow> total_height f + line_height f
     \<le> total_height (foldl (place_item ext l) f ss) + line_height (foldl (place_item ext l) f ss)"
proof (induction ss arbitrary: f)
  case (Cons s ss)
  let ?f = "place_item ext l f s"
  note placed = place_item_cases [where ext = ext and l = l and f = f and s = s]
  from placed(1) Cons.prems have lh: "line_height f \<le> line_height ?f" "0 \<le> line_height ?f" by simp_all
  with placed(2) Cons.prems have "total_height f + line_height f \<le> total_height ?f + line_height ?f" by auto
  with Cons.IH [OF lh(2)] show ?case by simp
qed simp

lemma boxes_height:
  assumes "0 \<le> line_height f" "(x, y, w, h) \<in> set (boxes ext l f ss)"
  shows "y + h \<le> total_height (foldl (place_item ext l) f ss) + line_height (foldl (place_item ext l) f ss)"
  using assms
proof (induction ss arbitrary: f)
  case (Cons s ss)
  let ?f = "place_item ext l f s"
  note placed = place_item_cases(1) [where ext = ext and l = l and f = f and s = s]
  with Cons.prems(1) have lh: "0 \<le> line_height ?f" "text_height (ext s) + lg_padding l \<le> line_height ?f" by simp_all
  from Cons.prems(2) consider "y = total_height ?f" "h = text_height (ext s) + lg_padding l" | "(x, y, w, h) \<in> set (boxes ext l ?f ss)"
    by (auto simp: Let_def)
  then show ?case
  proof cases
    case 1
    with foldl_place_height [OF lh(1), of ext l ss] lh(2) show ?thesis by simp
  next
    case 2
    with Cons.IH [OF lh(1)] show ?thesis by simp
  qed
qed simp

lemma place_item_height: "place_item ext (l\<lparr>lg_height := h\<rparr>) f s = place_item ext l f s"
  by (simp add: place_item_def item_width_def Let_def)

lemma draw_item_run:
  assumes "py_nth (lg_colors l) i = Inr c"
  shows "draw_item ext l f i s = paint (box_calls (lg_padding l)
    (((line_used f - item_width ext l s, total_height f, item_width ext l s, text_height (ext s) + lg_padding l), s), c))"
  by (rule HOL.ext) (simp add: draw_item_def act_simps assms Let_def)

lemma draw_items_run:
  assumes "k + length ss \<le> length (lg_colors l)"
  shows "draw_items ext l f (int k) ss
    = paint (concat (map (box_calls (lg_padding l)) (zip (zip (boxes ext l f ss) ss) (drop k (lg_colors l)))))"
  using assms
proof (induction ss arbitrary: f k)
  case Nil
  show ?case by (rule HOL.ext) (simp add: act_simps)
next
  case (Cons s ss)
  let ?f = "place_item ext l f s"
  from Cons.prems have c: "py_nth (lg_colors l) (int k) = Inr (lg_colors l ! k)"
    and d: "drop k (lg_colors l) = lg_colors l ! k # drop (Suc k) (lg_colors l)"
    by (simp_all add: py_nth_nonneg Cons_nth_drop_Suc)
  have "draw_items ext l ?f (int k + 1) ss
      = paint (concat (map (box_calls (lg_padding l)) (zip (zip (boxes ext l ?f ss) ss) (drop (Suc k) (lg_colors l)))))"
    using Cons.IH [of "Suc k" ?f] Cons.prems by (simp add: add.commute)
  then show ?case unfolding d by (simp add: Let_def draw_item_run [OF c] paint_paint)
qed

text \<open>
  The legend: when there is a colour for every item, drawing paints the items at places that
  do not overlap, each below or on the right of the one before, all within the height that
  \<open>layout\<close> computed, and within the width unless a single item is wider than the line.
\<close>
theorem legend_fits:
  fixes w l ext
  defines "l' \<equiv> layout_legend ext w l"
  assumes "0 \<le> lg_padding l" "\<forall>s. 0 \<le> text_width (ext s)" "length (lg_legends l) \<le> length (lg_colors l)"
  shows "\<exists>bs. length bs = length (lg_legends l)
    \<and> draw_legend ext l' c
        = (Inr (), c\<lparr>calls := calls c @ concat (map (box_calls (lg_padding l)) (zip (zip bs (lg_legends l)) (lg_colors l)))\<rparr>)
    \<and> sorted_wrt apart bs
    \<and> (\<forall>(x, y, width, height)\<in>set bs. lg_padding l \<le> x \<and> (x + width \<le> w \<or> x = lg_padding l) \<and> y + height \<le> lg_height l')"
proof -
  let ?l = "l\<lparr>lg_width := w\<rparr>"
  let ?bs = "boxes ext ?l (start_flow ?l) (lg_legends l)"
  have l': "l' = ?l\<lparr>lg_height := lg_height l'\<rparr>"
    and height: "lg_height l' = total_height (foldl (place_item ext ?l) (start_flow ?l) (lg_legends l))
        + line_height (foldl (place_item ext ?l) (start_flow ?l) (lg_legends l))"
    by (simp_all add: l'_def layout_legend_def Let_def)
  have start: "start_flow l' = start_flow ?l" "0 \<le> line_height (start_flow ?l)" "lg_padding ?l \<le> line_used (start_flow ?l)"
    by (simp_all add: start_flow_def l'_def layout_legend_def Let_def)
  have fields: "lg_padding l' = lg_padding l" "lg_legends l' = lg_legends l" "lg_colors l' = lg_colors l"
    by (simp_all add: l'_def layout_legend_def Let_def)
  have same: "boxes ext l' f ss = boxes ext ?l f ss" for f ss
  proof (induction ss arbitrary: f)
    case (Cons s ss)
    have "place_item ext l' f s = place_item ext ?l f s" by (subst l') (rule place_item_height)
    with Cons fields show ?case by (simp add: Let_def item_width_def)
  qed simp
  have "draw_legend ext l' = paint (concat (map (box_calls (lg_padding l)) (zip (zip ?bs (lg_legends l)) (lg_colors l))))"
    using draw_items_run [of 0 "lg_legends l" l' ext "start_flow l'"] assms(4)
    by (simp add: draw_legend_def fields same start)
  moreover have "length ?bs = length (lg_legends l)"
    by (rule length_boxes)
  moreover have "sorted_wrt apart ?bs" using boxes_apart [of ?l ext "start_flow ?l"] assms(2,3) start(2) by simp
  moreover have "lg_padding l \<le> x \<and> (x + width \<le> w \<or> x = lg_padding l) \<and> y + h \<le> lg_height l'"
    if "(x, y, width, h) \<in> set ?bs" for x y width h
    using boxes_inside_width [OF start(3) _ _ that] boxes_height [OF start(2) that] assms(2,3) height by simp
  ultimately show ?thesis by (intro exI [of _ ?bs]) (auto simp: paint_run)
qed

theorem legend_fits_witness:
  "fst (draw_legend (\<lambda>s. \<lparr>y_bearing = - 8, text_width = 30, text_height = 8\<rparr>)
     (layout_legend (\<lambda>s. \<lparr>y_bearing = - 8, text_width = 30, text_height = 8\<rparr>) 100
        \<lparr>lg_padding = 10, lg_legends = [''a'', ''b''], lg_colors = default_colors, lg_width = 0, lg_height = 0\<rparr>)
     \<lparr>calls = [], grey_background = 0\<rparr>) = Inr ()
   \<and> lg_height (layout_legend (\<lambda>s. \<lparr>y_bearing = - 8, text_width = 30, text_height = 8\<rparr>) 100
        \<lparr>lg_padding = 10, lg_legends = [''a'', ''b''], lg_colors = default_colors, lg_width = 0, lg_height = 0\<rparr>) = 46"
  (is "fst (draw_legend ?e (layout_legend ?e 100 ?l) ?c) = _ \<and> _")
proof
  have p: "0 \<le> lg_padding ?l" "\<forall>s. 0 \<le> text_width (?e s)" "length (lg_legends ?l) \<le> length (lg_colors ?l)"
    by (simp_all add: default_colors_def)
  from legend_fits [OF p, of 100 ?c] show "fst (draw_legend ?e (layout_legend ?e 100 ?l) ?c) = Inr ()"
    by (elim exE conjE) (simp only: fst_conv)
  show "lg_height (layout_legend ?e 100 ?l) = 46"
    by (simp add: layout_legend_def start_flow_def place_item_def item_width_def Let_def)
qed

section \<open>The rows of the timelines\<close>

text \<open>What an action returns, whenever it returns.\<close>

definition yields :: "('s, 'a) act \<Rightarrow> ('a \<Rightarrow> bool) \<Rightarrow> bool" where
  "yields m P \<longleftrightarrow> (\<forall>s x s'. m s = (Inr x, s') \<longrightarrow> P x)"

lemma yieldsD: "yields m P \<Longrightarrow> m s = (Inr x, s') \<Longrightarrow> P x"
  unfolding yields_def by blast

lemma yields_ret: "P x \<Longrightarrow> yields (ret x) P"
  by (simp add: yields_def ret_def)

lemma yields_then: "yields (f ()) P \<Longrightarrow> yields (act_bind (m :: ('s, unit) act) f) P"
  by (auto simp: yields_def act_bind_eq_Inr)

lemma yields_bind: "yields m Q \<Longrightarrow> (\<And>x. Q x \<Longrightarrow> yields (f x) P) \<Longrightarrow> yields (act_bind m f) P"
  unfolding yields_def act_bind_eq_Inr by blast

lemma yields_fold:
  assumes "\<And>y x. yields (f y x) (\<lambda>y'. y' = y + (h x :: rat))"
  shows "yields (act_fold f y xs) (\<lambda>y'. y' = y + sum_list (map h xs))"
proof (induction xs arbitrary: y)
  case Nil
  show ?case by (simp add: yields_ret)
next
  case (Cons x xs)
  show ?case
    unfolding act_fold.simps
  proof (rule yields_bind [OF assms])
    fix y'
    assume "y' = y + h x"
    with Cons.IH [of y'] show "yields (act_fold f y' xs) (\<lambda>y'. y' = y + sum_list (map h (x # xs)))"
      by (simp add: add.assoc)
  qed
qed

lemma yields_row: "yields (draw_row ext r s d h y) (\<lambda>y'. y' = y + (h + rd_padding r))"
  unfolding draw_row_def Let_def by (intro yields_then yields_ret) simp

definition timeline_height :: "renderer \<Rightarrow> timeline \<Rightarrow> rat" where
  "timeline_height r t =
     of_nat (length (tl_event_int t) + length (tl_event_str t)) * (rd_max_text_height r + 5 + rd_padding r)
     + of_nat (length (tl_ranges t)) * (rd_max_text_height r + rd_padding r)"

lemma yields_timeline: "yields (draw_timeline ext r y t) (\<lambda>y'. y' = y + timeline_height r t)"
proof -
  let ?e = "rd_max_text_height r + 5 + rd_padding r" and ?r = "rd_max_text_height r + rd_padding r"
  have "yields (act_fold (draw_events_row ext r shw) y es) (\<lambda>y'. y' = y + of_nat (length es) * ?e)"
    for y shw and es :: "'v events list"
    using yields_fold [of "draw_events_row ext r shw" "\<lambda>_. ?e"] yields_row
    by (simp add: draw_events_row_def sum_list_triv)
  note events = this
  have ranges: "yields (act_fold (draw_ranges_row ext r) y rs) (\<lambda>y'. y' = y + of_nat (length rs) * ?r)" for y rs
    using yields_fold [of "draw_ranges_row ext r" "\<lambda>_. ?r"] yields_row
    by (simp add: draw_ranges_row_def sum_list_triv)
  show ?thesis
    unfolding draw_timeline_def
    by (rule yields_then, rule yields_bind [OF events], rule yields_bind [OF events], rule yields_bind [OF ranges],
        rule yields_then, rule yields_ret) (simp add: timeline_height_def algebra_simps)
qed

lemma timeline_heights:
  "sum_list (map (timeline_height r) ts)
     = (count_rows tl_event_int ts + count_rows tl_event_str ts) * (rd_max_text_height r + 5 + rd_padding r)
       + count_rows tl_ranges ts * (rd_max_text_height r + rd_padding r)"
  by (induction ts) (simp_all add: count_rows_def timeline_height_def algebra_simps)

lemma yields_rows: "yields (draw_rows ext r) (\<lambda>y. y = rd_padding r / 2 + sum_list (map (timeline_height r) (rd_timelines r)))"
  unfolding draw_rows_def by (intro yields_then) (rule yields_fold [OF yields_timeline])

lemma rows_of_data:
  "list_all has_data ts \<Longrightarrow> of_nat (length ts) \<le> count_rows tl_ranges ts + (count_rows tl_event_int ts + count_rows tl_event_str ts)"
proof (induction ts)
  case (Cons t ts)
  from Cons.prems have "1 \<le> length (tl_ranges t) + (length (tl_event_int t) + length (tl_event_str t))"
    by (auto simp: has_data_def Suc_le_eq)
  then have "(1 :: rat) \<le> of_nat (length (tl_ranges t)) + (of_nat (length (tl_event_int t)) + of_nat (length (tl_event_str t)))"
    by (metis of_nat_1 of_nat_add of_nat_le_iff)
  with Cons show ?case by (simp add: count_rows_def)
qed (simp add: count_rows_def)

lemma height_suffices:
  fixes e g m p :: rat
  shows "e * (m + 5 + p) + g * (m + p) \<le> max ((g + e - 1) * p + (g + e) * m) (e * (m + 5) + g * 10 + (g + e - 1) * p) + p
     \<longleftrightarrow> e * 5 \<le> 0 \<or> g * m \<le> g * 10"
proof -
  have "e * (m + 5 + p) + g * (m + p) - p \<le> (g + e - 1) * p + (g + e) * m \<longleftrightarrow> e * 5 \<le> 0"
    "e * (m + 5 + p) + g * (m + p) - p \<le> e * (m + 5) + g * 10 + (g + e - 1) * p \<longleftrightarrow> g * m \<le> g * 10"
    by (simp_all add: algebra_simps)
  then show ?thesis by (simp only: diff_le_eq [symmetric] le_max_iff_disj)
qed

text \<open>
  The rows and the height that \<open>layout\<close> reserves for them: when every timeline has a
  row, what is drawn ends within the reserved height exactly if the text is at most ten high, or there are
  no events, or no ranges (\<open>layout\<close> counts ten for a range where drawing advances by the
  height of the text).
\<close>
theorem rows_fit:
  fixes ext w r
  defines "r' \<equiv> layout_renderer ext w r"
  assumes "draw_rows ext r' c = (Inr y, c')" "list_all has_data (rd_timelines r)" "0 \<le> rd_padding r" "0 \<le> text_height (ext alphabet)"
  shows "y - rd_padding r / 2 \<le> rd_height r' \<longleftrightarrow>
    text_height (ext alphabet) \<le> 10 \<or> count_rows tl_ranges (rd_timelines r) = 0
    \<or> count_rows tl_event_int (rd_timelines r) + count_rows tl_event_str (rd_timelines r) = 0"
proof -
  let ?ts = "rd_timelines r" and ?m = "text_height (ext alphabet)" and ?p = "rd_padding r"
  let ?L = "of_nat (length ?ts) :: rat" and ?R = "count_rows tl_ranges ?ts"
    and ?E = "count_rows tl_event_int ?ts + count_rows tl_event_str ?ts"
  have fields: "rd_padding r' = ?p" "rd_timelines r' = ?ts" "rd_max_text_height r' = ?m"
    by (simp_all add: r'_def layout_renderer_def Let_def)
  have y: "y - ?p / 2 = ?E * (?m + 5 + ?p) + ?R * (?m + ?p)"
    using yieldsD [OF yields_rows assms(2)] by (simp add: fields timeline_heights)
  have nonneg: "0 \<le> ?R" "0 \<le> ?E" by (simp_all add: count_rows_def)
  have left: "?L * ?m + (?L - 1) * ?p \<le> (?R + ?E - 1) * ?p + (?R + ?E) * ?m"
    using mult_right_mono [OF rows_of_data [OF assms(3)] assms(5)]
      mult_right_mono [of "?L - 1" "?R + ?E - 1" ?p] rows_of_data [OF assms(3)] assms(4) by simp
  have "rd_height r' = max ((?R + ?E - 1) * ?p + (?R + ?E) * ?m) (?E * (?m + 5) + ?R * 10 + (?R + ?E - 1) * ?p) + ?p"
    using left by (simp add: r'_def layout_renderer_def Let_def max_absorb2)
  then have "y - ?p / 2 \<le> rd_height r' \<longleftrightarrow> ?E * 5 \<le> 0 \<or> ?R * ?m \<le> ?R * 10"
    unfolding y by (simp only: height_suffices)
  also have "\<dots> \<longleftrightarrow> ?m \<le> 10 \<or> ?R = 0 \<or> ?E = 0"
    using nonneg mult_le_cancel_left [of ?R ?m 10] by auto
  finally show ?thesis .
qed

definition sample_view :: renderer where
  "sample_view = \<lparr>rd_padding = 10, rd_timelines =
       [\<lparr>tl_name = ''t'', tl_ranges = [\<lparr>dr_name = ''n'', dr_ranges = [\<lparr>range_start = 1, range_end = 2, range_value = ''a''\<rparr>]\<rparr>],
         tl_event_str = [\<lparr>ev_name = ''m'', ev_events = [\<lparr>event_at = 30, event_value = ''e''\<rparr>]\<rparr>], tl_event_int = []\<rparr>],
     rd_colors = [], rd_start = 20, rd_end = 40, rd_left_width = 0, rd_right_width = 0, rd_max_text_height = 0,
     rd_width = 0, rd_height = 0\<rparr>"

definition sample_text :: measuring where
  "sample_text s = \<lparr>y_bearing = - 12, text_width = 6, text_height = 12\<rparr>"

lemma sample_rows:
  "fst (draw_rows sample_text (layout_renderer sample_text 200 sample_view) \<lparr>calls = [], grey_background = 0\<rparr>) = Inr 54"
  by code_simp

theorem rows_fit_witness:
  "\<exists>y c'. draw_rows sample_text (layout_renderer sample_text 200 sample_view) \<lparr>calls = [], grey_background = 0\<rparr> = (Inr y, c')
     \<and> \<not> y - 5 \<le> rd_height (layout_renderer sample_text 200 sample_view)"
proof -
  let ?d = "draw_rows sample_text (layout_renderer sample_text 200 sample_view) \<lparr>calls = [], grey_background = 0\<rparr>"
  have d: "?d = (Inr 54, snd ?d)" using sample_rows by (metis prod.collapse)
  have p: "list_all has_data (rd_timelines sample_view)" "0 \<le> rd_padding sample_view" "0 \<le> text_height (sample_text alphabet)"
    by (simp_all add: sample_view_def has_data_def sample_text_def)
  have "rd_padding sample_view = 10" "text_height (sample_text alphabet) = 12" "count_rows tl_ranges (rd_timelines sample_view) = 1"
    "count_rows tl_event_int (rd_timelines sample_view) + count_rows tl_event_str (rd_timelines sample_view) = 1"
    by (simp_all add: sample_view_def sample_text_def count_rows_def)
  with rows_fit [OF d p] have "\<not> 54 - 5 \<le> rd_height (layout_renderer sample_text 200 sample_view)" by simp
  with d show ?thesis by blast
qed

section \<open>The labels of the events\<close>

text \<open>The events that get a label, given the column of each and the last column drawn.\<close>

fun labelled :: "('v event \<Rightarrow> int) \<Rightarrow> int \<Rightarrow> 'v event list \<Rightarrow> 'v event list" where
  "labelled col k [] = []"
| "labelled col k (e # es) = (if col e > k + 2 then e # labelled col (col e) es else labelled col k es)"

definition column :: "renderer \<Rightarrow> rat \<Rightarrow> rat \<Rightarrow> 'v event \<Rightarrow> int" where
  "column r x width e = py_int (x + (event_at e - rd_start r) * width / (rd_end r - rd_start r))"

definition label_calls :: "renderer \<Rightarrow> ('v \<Rightarrow> string) \<Rightarrow> rat \<Rightarrow> rat \<Rightarrow> rat \<Rightarrow> 'v event \<Rightarrow> call list" where
  "label_calls r shw x y width e =
     [Rectangle (of_int (column r x width e)) y 1 1, SetSourceRgb 1 0 0, Stroke,
      MoveTo (of_int (column r x width e)) (y + rd_max_text_height r), SetSourceRgb 0 0 0, ShowText (shw (event_value e))]"

lemma label_events_run:
  assumes "rd_start r \<noteq> rd_end r"
  shows "label_events r shw x y width k es = paint (concat (map (label_calls r shw x y width) (labelled (column r x width) k es)))"
proof (induction es arbitrary: k)
  case Nil
  show ?case by (rule HOL.ext) (simp add: act_simps paint_run)
next
  case (Cons e es)
  have "data_column r x width (event_at e) = Inr (column r x width e)"
    using assms by (simp add: data_column_def true_div_def column_def)
  with Cons show ?case
    by (intro HOL.ext) (simp add: act_simps paint_run label_calls_def)
qed

lemma labelled_spaced: "sorted_wrt (\<lambda>a b. col a + 2 < col b) (labelled col k es) \<and> (\<forall>e\<in>set (labelled col k es). k + 2 < col e)"
proof (induction es arbitrary: k)
  case (Cons e es)
  show ?case
  proof (cases "col e > k + 2")
    case True
    with Cons.IH [of "col e"] show ?thesis by auto
  next
    case False
    with Cons.IH [of k] show ?thesis by simp
  qed
qed simp

lemma subseq_labelled: "subseq (labelled col k es) es"
  by (induction es arbitrary: k) auto

text \<open>An event without a label is at most two columns to the right of one with a label.\<close>

lemma labelled_near:
  assumes "sorted (map col es)" "\<forall>e\<in>set es. k \<le> col e" "e \<in> set es"
  shows "\<exists>j \<in> insert k (col ` set (labelled col k es)). j \<le> col e \<and> col e \<le> j + 2"
  using assms
proof (induction es arbitrary: k)
  case (Cons a es)
  show ?case
  proof (cases "col a > k + 2")
    case True
    from Cons.prems(3) consider "e = a" | "e \<in> set es" by auto
    then show ?thesis
    proof cases
      case 1
      with True show ?thesis by (intro bexI [of _ "col a"]) auto
    next
      case 2
      with Cons.IH [of "col a"] Cons.prems(1) True show ?thesis by auto
    qed
  next
    case False
    from Cons.prems(3) consider "e = a" | "e \<in> set es" by auto
    then show ?thesis
    proof cases
      case 1
      with False Cons.prems(2) show ?thesis by (intro bexI [of _ k]) auto
    next
      case 2
      with Cons.IH [of k] Cons.prems(1,2) False show ?thesis by auto
    qed
  qed
qed simp

lemma py_int_mono:
  assumes "a \<le> b"
  shows "py_int a \<le> py_int b"
proof (cases "0 \<le> a"; cases "0 \<le> b")
  assume "\<not> 0 \<le> a" "0 \<le> b"
  then have "\<lceil>a\<rceil> \<le> 0" "0 \<le> \<lfloor>b\<rfloor>" by (simp_all add: ceiling_le_iff)
  then have "\<lceil>a\<rceil> \<le> \<lfloor>b\<rfloor>" by linarith
  with \<open>\<not> 0 \<le> a\<close> \<open>0 \<le> b\<close> show ?thesis by (simp add: py_int_def)
qed (use assms in \<open>auto simp: py_int_def floor_mono ceiling_mono\<close>)

lemma column_mono:
  assumes "rd_start r < rd_end r" "0 \<le> width" "event_at a \<le> event_at b"
  shows "column r x width a \<le> column r x width b"
  unfolding column_def using assms
  by (intro py_int_mono add_left_mono divide_right_mono mult_right_mono) simp_all

lemma columns_sorted:
  assumes "rd_start r < rd_end r" "0 \<le> width" "sorted_wrt (<) (map event_at es)"
  shows "sorted (map (column r x width) es)"
  unfolding sorted_map
  by (rule sorted_wrt_mono_rel [OF _ assms(3) [unfolded sorted_wrt_map]]) (rule column_mono [OF assms(1,2) less_imp_le])

lemma column_start:
  assumes "rd_start r < rd_end r" "0 \<le> width" "rd_start r \<le> event_at e"
  shows "py_int x \<le> column r x width e"
  unfolding column_def using assms by (intro py_int_mono) simp

definition stripe_calls :: "renderer \<Rightarrow> rat \<Rightarrow> rat \<Rightarrow> rat \<Rightarrow> rat \<Rightarrow> canvas \<Rightarrow> call list" where
  "stripe_calls r x y width height c =
     (if grey_background c mod 2 = 0
      then [Rectangle x (y - rd_padding r / 2) width (height + rd_padding r), SetSourceRgb (9 / 10) (9 / 10) (9 / 10), Fill]
      else [])"

text \<open>
  The events of a row: with the events in the order of time, \<open>draw_events\<close> labels some
  of them, from left to right and more than two columns apart; and every event of the interval shown is
  labelled or at most two columns to the right of a labelled one or of the border.
\<close>
theorem draw_events_labels:
  assumes "rd_start r < rd_end r" "0 \<le> width" "sorted_wrt (<) (map event_at (ev_events es))"
  shows "\<exists>labels. draw_events r shw es x y width height c
      = (Inr (), c\<lparr>calls := calls c @ stripe_calls r x y width height c @ concat (map (label_calls r shw x y width) labels),
                   grey_background := grey_background c + 1\<rparr>)
    \<and> subseq labels (ev_events es)
    \<and> sorted_wrt (\<lambda>a b. column r x width a + 2 < column r x width b) labels
    \<and> (\<forall>e\<in>set (ev_events es). rd_start r \<le> event_at e \<and> event_at e \<le> rd_end r \<longrightarrow>
         (\<exists>k \<in> insert (py_int x) (column r x width ` set labels). k \<le> column r x width e \<and> column r x width e \<le> k + 2))"
proof -
  let ?es = "ev_events es" and ?col = "column r x width"
  let ?shown = "get_events ?es (rd_start r) (rd_end r)"
  let ?labels = "labelled ?col (py_int x) ?shown"
  have shown: "?shown = filter (\<lambda>x. rd_start r \<le> event_at x \<and> event_at x \<le> rd_end r) ?es
      @ (if rd_end r \<in> event_at ` set ?es then [] else take 1 (filter (\<lambda>x. rd_end r < event_at x) ?es))"
    using get_events_interval [OF assms(3)] assms(1) by simp
  have slice: "subseq ?shown ?es"
    unfolding get_events_def slice_def Let_def
    by (rule subseq_order.trans [OF suffix_imp_subseq [OF suffix_drop] prefix_imp_subseq [OF take_is_prefix]])
  have "sorted_wrt (<) (map event_at ?shown)"
    using assms(3) unfolding get_events_def slice_def Let_def drop_map [symmetric] take_map [symmetric]
    by (intro sorted_wrt_drop sorted_wrt_take)
  then have sorted: "sorted (map ?col ?shown)" by (rule columns_sorted [OF assms(1,2)])
  have "rd_start r \<le> event_at e" if "e \<in> set ?shown" for e
    using that assms(1) set_take_subset [of 1 "filter (\<lambda>x. rd_end r < event_at x) ?es"]
    by (auto simp: shown split: if_splits)
  then have start: "\<forall>e\<in>set ?shown. py_int x \<le> ?col e" using column_start [OF assms(1,2)] by blast
  have "draw_events r shw es x y width height c
      = (Inr (), c\<lparr>calls := calls c @ stripe_calls r x y width height c @ concat (map (label_calls r shw x y width) ?labels),
                   grey_background := grey_background c + 1\<rparr>)"
    using label_events_run [of r shw x y width "py_int x" ?shown] assms(1)
    by (simp add: draw_events_def get_events_bounds_def get_events_def Let_def act_simps paint_run draw_stripe_def next_stripe_def
        stripe_calls_def)
  moreover have "subseq ?labels ?es" using subseq_labelled slice by (rule subseq_order.trans)
  moreover have "\<exists>k \<in> insert (py_int x) (?col ` set ?labels). k \<le> ?col e \<and> ?col e \<le> k + 2"
    if "e \<in> set ?es" "rd_start r \<le> event_at e" "event_at e \<le> rd_end r" for e
    using that by (intro labelled_near [OF sorted start]) (simp add: shown)
  ultimately show ?thesis using labelled_spaced [of ?col "py_int x" ?shown] by (intro exI [of _ ?labels]) blast
qed

theorem draw_events_labels_witness:
  "fst (draw_events (sample_view\<lparr>rd_start := 0, rd_end := 100\<rparr>) show_int
     \<lparr>ev_name = ''n'', ev_events = [\<lparr>event_at = 10, event_value = 1\<rparr>, \<lparr>event_at = 11, event_value = 2\<rparr>]\<rparr>
     0 0 100 17 \<lparr>calls = [], grey_background = 1\<rparr>) = Inr ()"
  (is "fst (draw_events ?r _ ?es 0 0 100 17 ?c) = _")
proof -
  have "rd_start ?r < rd_end ?r" "(0 :: rat) \<le> 100" "sorted_wrt (<) (map event_at (ev_events ?es))" by simp_all
  from draw_events_labels [OF this, of show_int 0 0 17 ?c] show ?thesis by (elim exE conjE) (simp only: fst_conv)
qed

end
