(* ===== verification/GridView.thy ===== *)
theory GridView
  imports GridDraw
begin

text \<open>
  The interactive part of \<open>utils/grid.py\<close>: \<open>GraphicRenderer\<close>, which puts the legend, the
  timelines and the two scales together and keeps the interval shown; \<open>GtkGraphicRenderer\<close>, the
  state machine of the mouse; and \<open>main\<close>. GTK calls the handlers one at a time and prints what
  they raise: a handler that raises leaves the state it has reached, and the next one starts from there.
  The script names Python 3 as its interpreter but imports \<open>gtk\<close>, PyGTK, which exists for Python 2
  only: the theory says what its code does on Python 3 with a module \<open>gtk\<close> in its place; without one
  the script ends with an \<open>ImportError\<close> before it reads anything.
\<close>

section \<open>The whole picture\<close>

record graphic =
  gr_start :: rat
  gr_end :: rat
  gr_width :: rat
  gr_height :: rat
  gr_r_start :: rat
  gr_r_end :: rat
  gr_data :: renderer
  gr_legend :: legend
  gr_mid :: scale
  gr_bot :: scale

definition get_data_rectangle :: "graphic \<Rightarrow> rat \<times> rat \<times> rat \<times> rat" where
  "get_data_rectangle g =
     (let x_start = get_data_x_start (gr_data g)
      in (x_start, lg_height (gr_legend g), gr_width g - x_start, rd_height (gr_data g)))"

definition scale_data :: "graphic \<Rightarrow> rat \<Rightarrow> rat res" where
  "scale_data g x =
     and_then (true_div x (gr_width g - get_data_x_start (gr_data g))) (\<lambda>d. Inr (d * (gr_r_end g - gr_r_start g)))"

definition get_selection_rectangle :: "graphic \<Rightarrow> (rat \<times> rat \<times> rat \<times> rat) res" where
  "get_selection_rectangle g =
     (let y_start = lg_height (gr_legend g) + rd_height (gr_data g) + sc_height (gr_mid g) + 20;
          y_height = sc_height (gr_bot g) + 20
      in and_then (get_position (gr_bot g) (gr_r_start g)) (\<lambda>x_start.
         and_then (get_position (gr_bot g) (gr_r_end g)) (\<lambda>x_end.
           Inr (x_start, y_start, x_end - x_start, y_height))))"

definition scale_selection :: "graphic \<Rightarrow> rat \<Rightarrow> rat res" where
  "scale_selection g x = and_then (true_div x (gr_width g)) (\<lambda>d. Inr (d * (gr_end g - gr_start g)))"

definition layout_graphic :: "measuring \<Rightarrow> rat \<Rightarrow> rat \<Rightarrow> graphic \<Rightarrow> graphic" where
  "layout_graphic ext width height g =
     (let data = layout_renderer ext width (gr_data g)
      in g\<lparr>gr_width := width, gr_height := height,
           gr_legend := layout_legend ext width (gr_legend g),
           gr_data := data,
           gr_mid := layout_scale ext (width - get_data_x_start data) (gr_mid g),
           gr_bot := layout_scale ext width (gr_bot g)\<rparr>)"

definition set_range :: "measuring \<Rightarrow> rat \<Rightarrow> rat \<Rightarrow> graphic \<Rightarrow> graphic" where
  "set_range ext a b g =
     (let s = min a b; e = max a b;
          start = max (gr_start g) s; end_time = min (gr_end g) e
      in layout_graphic ext (gr_width g) (gr_height g)
           (g\<lparr>gr_r_start := start, gr_r_end := end_time,
              gr_data := (gr_data g)\<lparr>rd_start := start, rd_end := end_time\<rparr>,
              gr_mid := set_bounds start end_time (gr_mid g)\<rparr>))"

text \<open>The connections between the two scales, and the borders of the lower one.\<close>

definition separations :: "graphic \<Rightarrow> rat \<Rightarrow> call list" where
  "separations g used =
     [MoveTo (get_data_x_start (gr_data g)) used, RelLineTo 0 (- sc_height (gr_mid g)), ClosePath,
      SetSourceRgb 0 0 0, SetLineWidth 2, Stroke,
      MoveTo 0 used, LineTo (gr_width g) used, ClosePath, SetLineWidth 2, SetSourceRgb 0 0 0, Stroke]"

definition connections :: "graphic \<Rightarrow> rat \<Rightarrow> rat \<Rightarrow> rat \<Rightarrow> call list" where
  "connections g used select_start select_end =
     [MoveTo 0 used, LineTo (get_data_x_start (gr_data g)) used, LineTo select_start (used + 20), LineTo 0 (used + 20),
      LineTo 0 used, SetSourceRgb 0 0 0, SetLineWidth 1, StrokePreserve, SetSourceRgb (9 / 10) (9 / 10) (9 / 10), Fill,
      MoveTo (gr_width g) used, LineTo (gr_width g) (used + 20), LineTo select_end (used + 20), LineTo (gr_width g) used,
      SetSourceRgb 0 0 0, SetLineWidth 1, StrokePreserve, SetSourceRgb (9 / 10) (9 / 10) (9 / 10), Fill]"

definition borders :: "graphic \<Rightarrow> rat \<Rightarrow> rat \<Rightarrow> rat \<Rightarrow> call list" where
  "borders g used unused_start unused_end =
     (let h = sc_height (gr_bot g) + 20; w = gr_width g
      in [Rectangle 0 used unused_start h, Rectangle unused_end used (w - unused_end) h,
          SetSourceRgb (9 / 10) (9 / 10) (9 / 10), Fill,
          MoveTo unused_end used, LineTo w used, LineTo w (used + h), LineTo 0 (used + h), LineTo 0 used,
          LineTo unused_start used, ClosePath, SetLineWidth 2, SetSourceRgb 0 0 0, Stroke,
          MoveTo unused_start used, LineTo unused_end used, ClosePath, SetLineWidth 1,
          SetSourceRgb (9 / 10) (9 / 10) (9 / 10), Stroke,
          Save, MoveTo (max unused_start 2) used, RelLineTo 0 h, MoveTo (min unused_end (w - 2)) used, RelLineTo 0 h,
          SetDash [5] 0, SetSourceRgb 0 0 0, SetLineWidth 1, Stroke, Restore])"

definition draw_graphic :: "measuring \<Rightarrow> graphic \<Rightarrow> drawing" where
  "draw_graphic ext g =
     (let top_height = lg_height (gr_legend g);
          used = top_height + rd_height (gr_data g) + sc_height (gr_mid g)
      in act_bind (paint [Save, SetSourceRgb 1 1 1, SetOperatorSource, Rectangle 0 0 (gr_width g) (gr_height g), Fill, Save]) (\<lambda>_.
         act_bind (draw_legend ext (gr_legend g)) (\<lambda>_.
         act_bind (paint [Restore, MoveTo 0 top_height, LineTo (gr_width g) top_height, ClosePath, SetLineWidth 2,
                          SetSourceRgb 0 0 0, Stroke, Save, Translate 0 top_height]) (\<lambda>_.
         act_bind (draw_renderer ext (gr_data g)) (\<lambda>_.
         act_bind (paint [Restore, Save, Translate (get_data_x_start (gr_data g)) used]) (\<lambda>_.
         act_bind (draw_scale ext (gr_mid g)) (\<lambda>_.
         act_bind (paint (Restore # separations g used)) (\<lambda>_.
         act_bind (from_res (get_position (gr_bot g) (gr_r_start g))) (\<lambda>select_start.
         act_bind (from_res (get_position (gr_bot g) (gr_r_end g))) (\<lambda>select_end.
         act_bind (paint (connections g used select_start select_end)) (\<lambda>_.
         act_bind (paint (borders g (used + 20) select_start select_end @ [Save, Translate 0 (used + 20)])) (\<lambda>_.
         act_bind (draw_scale ext (gr_bot g)) (\<lambda>_.
           paint [Restore])))))))))))))"

section \<open>The mouse\<close>

text \<open>
  The flags of the drags in progress: \<open>moving_right\<close> is a number, because one branch of the code
  assigns the width of the window to it (\<open>False\<close> is 0 and \<open>True\<close> is 1). An attribute that
  only some handler assigns is \<^term>\<open>None\<close> until then, and reading it raises.
\<close>

datatype request =
    QueueDraw
  | QueueDrawArea int int int int
  | SetCursor "string option"

record view =
  graphic_of :: graphic
  moving_left :: bool
  moving_right :: rat
  moving_both :: bool
  moving_top :: bool
  force_full_redraw :: bool
  left_cur :: "rat option"
  right_cur :: "rat option"
  both_start :: "rat option"
  both_cur :: "rat option"
  top_start :: "rat option"
  top_cur :: "rat option"
  vw_width :: "rat option"
  vw_height :: "rat option"
  buffer_surface :: "canvas option"
  requests :: "request list"
  window_calls :: "call list"
  files_written :: "(string \<times> call list) list"

type_synonym 'a handler = "(view, 'a) act"

definition new_view :: "graphic \<Rightarrow> view" where
  "new_view g =
     \<lparr>graphic_of = g, moving_left = False, moving_right = 0, moving_both = False, moving_top = False,
      force_full_redraw = True, left_cur = None, right_cur = None, both_start = None, both_cur = None,
      top_start = None, top_cur = None, vw_width = None, vw_height = None, buffer_surface = None,
      requests = [], window_calls = [], files_written = []\<rparr>"

definition ask :: "(view \<Rightarrow> 'a res) \<Rightarrow> 'a handler" where
  "ask f = (\<lambda>v. (f v, v))"

definition attribute :: "(view \<Rightarrow> 'a option) \<Rightarrow> 'a handler" where
  "attribute f = ask (\<lambda>v. case f v of None \<Rightarrow> Inl AttributeError | Some x \<Rightarrow> Inr x)"

definition request :: "request \<Rightarrow> unit handler" where
  "request r = modify (\<lambda>v. v\<lparr>requests := requests v @ [r]\<rparr>)"

definition change_range :: "measuring \<Rightarrow> rat \<Rightarrow> rat \<Rightarrow> unit handler" where
  "change_range ext a b =
     modify (\<lambda>v. v\<lparr>graphic_of := set_range ext a b (graphic_of v), force_full_redraw := True\<rparr>)"

definition zoom :: "measuring \<Rightarrow> (rat \<Rightarrow> rat) \<Rightarrow> unit handler" where
  "zoom ext f =
     act_bind (ask (\<lambda>v. Inr (gr_r_start (graphic_of v), gr_r_end (graphic_of v)))) (\<lambda>(start, stop).
     act_bind (change_range ext start (start + f (stop - start))) (\<lambda>_. request QueueDraw))"

definition set_smaller_zoom :: "measuring \<Rightarrow> unit handler" where
  "set_smaller_zoom ext = zoom ext (\<lambda>width. width * 2)"

definition set_bigger_zoom :: "measuring \<Rightarrow> unit handler" where
  "set_bigger_zoom ext = zoom ext (\<lambda>width. width / 2)"

definition button_press :: "rat \<Rightarrow> rat \<Rightarrow> bool handler" where
  "button_press ex ey =
     act_bind (ask (\<lambda>v. get_selection_rectangle (graphic_of v))) (\<lambda>(x, y, width, height).
     act_bind (ask (\<lambda>v. Inr (get_data_rectangle (graphic_of v)))) (\<lambda>(d_x, d_y, d_width, d_height).
       if ey > y \<and> ey < y + height \<and> \<bar>ex - x\<bar> < 5
       then act_bind (modify (\<lambda>v. v\<lparr>moving_left := True\<rparr>)) (\<lambda>_. ret True)
       else if ey > y \<and> ey < y + height \<and> \<bar>ex - (x + width)\<bar> < 5
       then act_bind (modify (\<lambda>v. v\<lparr>moving_right := 1\<rparr>)) (\<lambda>_. ret True)
       else if ey > y \<and> ey < y + height \<and> ex > x \<and> ex < x + width
       then act_bind (modify (\<lambda>v. v\<lparr>moving_both := True, both_start := Some ex, both_cur := Some ex\<rparr>)) (\<lambda>_. ret True)
       else if ey > d_y \<and> ey < d_y + d_height \<and> ex > d_x \<and> ex < d_x + d_width
       then act_bind (modify (\<lambda>v. v\<lparr>moving_top := True, top_start := Some ex, top_cur := Some ex\<rparr>)) (\<lambda>_. ret True)
       else ret False))"

definition button_release :: "measuring \<Rightarrow> bool handler" where
  "button_release ext = (\<lambda>v.
     if moving_left v
     then act_bind (modify (\<lambda>v. v\<lparr>moving_left := False\<rparr>)) (\<lambda>_.
          act_bind (attribute left_cur) (\<lambda>cur.
          act_bind (ask (\<lambda>v. scale_selection (graphic_of v) cur)) (\<lambda>left.
          act_bind (ask (\<lambda>v. Inr (gr_r_end (graphic_of v)))) (\<lambda>right.
          act_bind (change_range ext left right) (\<lambda>_.
          act_bind (request QueueDraw) (\<lambda>_. ret True)))))) v
     else if moving_right v \<noteq> 0
     then act_bind (modify (\<lambda>v. v\<lparr>moving_right := 0\<rparr>)) (\<lambda>_.
          act_bind (attribute right_cur) (\<lambda>cur.
          act_bind (ask (\<lambda>v. scale_selection (graphic_of v) cur)) (\<lambda>right.
          act_bind (ask (\<lambda>v. Inr (gr_r_start (graphic_of v)))) (\<lambda>left.
          act_bind (change_range ext left right) (\<lambda>_.
          act_bind (request QueueDraw) (\<lambda>_. ret True)))))) v
     else if moving_both v
     then act_bind (modify (\<lambda>v. v\<lparr>moving_both := False\<rparr>)) (\<lambda>_.
          act_bind (attribute both_cur) (\<lambda>cur.
          act_bind (attribute both_start) (\<lambda>start.
          act_bind (ask (\<lambda>v. scale_selection (graphic_of v) (cur - start))) (\<lambda>delta.
          act_bind (ask (\<lambda>v. Inr (gr_r_start (graphic_of v), gr_r_end (graphic_of v)))) (\<lambda>(left, right).
          act_bind (change_range ext (left + delta) (right + delta)) (\<lambda>_.
          act_bind (request QueueDraw) (\<lambda>_. ret True))))))) v
     else if moving_top v
     then act_bind (modify (\<lambda>v. v\<lparr>moving_top := False\<rparr>)) (\<lambda>_. ret False) v
     else ret False v)"

text \<open>The strip of the window that the scale of the whole interval takes.\<close>

definition redraw_strip :: "rat \<Rightarrow> rat \<Rightarrow> bool handler" where
  "redraw_strip y height =
     act_bind (attribute vw_width) (\<lambda>w.
     act_bind (request (QueueDrawArea 0 (py_int y) (py_int w) (py_int height))) (\<lambda>_. ret True))"

definition move_left :: "rat \<Rightarrow> rat \<times> rat \<times> rat \<times> rat \<Rightarrow> bool handler" where
  "move_left ex = (\<lambda>(x, y, width, height).
     act_bind (modify (\<lambda>v. v\<lparr>left_cur := Some (if ex \<le> 0 then 0 else if ex \<ge> x + width then x + width else ex)\<rparr>))
       (\<lambda>_. redraw_strip y height))"

definition move_right :: "rat \<Rightarrow> rat \<times> rat \<times> rat \<times> rat \<Rightarrow> bool handler" where
  "move_right ex = (\<lambda>(x, y, width, height).
     act_bind (attribute vw_width) (\<lambda>w.
     act_bind (modify (\<lambda>v.
         if ex \<ge> w then v\<lparr>moving_right := w\<rparr>
         else if ex < x then v\<lparr>right_cur := Some x\<rparr>
         else v\<lparr>right_cur := Some ex\<rparr>))
       (\<lambda>_. redraw_strip y height)))"

definition move_both :: "rat \<Rightarrow> rat \<times> rat \<times> rat \<times> rat \<Rightarrow> bool handler" where
  "move_both ex = (\<lambda>(x, y, width, height).
     act_bind (attribute vw_width) (\<lambda>w.
     act_bind (attribute both_start) (\<lambda>start.
       let cur_e = w - (x + width - start); cur_s = start - x
       in act_bind (modify (\<lambda>v. v\<lparr>both_cur := Some (if ex < cur_s then cur_s else if ex > cur_e then cur_e else ex)\<rparr>))
            (\<lambda>_. redraw_strip y height))))"

definition move_top :: "measuring \<Rightarrow> rat \<Rightarrow> bool handler" where
  "move_top ext ex =
     act_bind (modify (\<lambda>v. v\<lparr>top_cur := Some ex\<rparr>)) (\<lambda>_.
     act_bind (attribute top_start) (\<lambda>start.
     act_bind (ask (\<lambda>v. scale_data (graphic_of v) (start - ex))) (\<lambda>delta.
     act_bind (ask (\<lambda>v. Inr (gr_r_start (graphic_of v), gr_r_end (graphic_of v)))) (\<lambda>(left, right).
     act_bind (change_range ext (left + delta) (right + delta)) (\<lambda>_.
     act_bind (modify (\<lambda>v. v\<lparr>top_start := Some ex\<rparr>)) (\<lambda>_.
     act_bind (request QueueDraw) (\<lambda>_. ret True)))))))"

definition show_cursor :: "rat \<Rightarrow> rat \<Rightarrow> rat \<times> rat \<times> rat \<times> rat \<Rightarrow> bool handler" where
  "show_cursor ex ey = (\<lambda>(x, y, width, height).
     act_bind (ask (\<lambda>v. Inr (get_data_rectangle (graphic_of v)))) (\<lambda>(d_x, d_y, d_width, d_height).
       if ey > y \<and> ey < y + height \<and> (\<bar>ex - x\<bar> < 5 \<or> \<bar>ex - (x + width)\<bar> < 5)
       then act_bind (request (SetCursor (Some ''SB_H_DOUBLE_ARROW''))) (\<lambda>_. ret True)
       else if ey > y \<and> ey < y + height \<and> ex > x \<and> ex < x + width
       then act_bind (request (SetCursor (Some ''FLEUR''))) (\<lambda>_. ret True)
       else if ey > d_y \<and> ey < d_y + d_height \<and> ex > d_x \<and> ex < d_x + d_width
       then act_bind (request (SetCursor (Some ''FLEUR''))) (\<lambda>_. ret True)
       else act_bind (request (SetCursor None)) (\<lambda>_. ret False)))"

definition motion_notify :: "measuring \<Rightarrow> rat \<Rightarrow> rat \<Rightarrow> bool handler" where
  "motion_notify ext ex ey =
     act_bind (ask (\<lambda>v. get_selection_rectangle (graphic_of v))) (\<lambda>rectangle v.
       if moving_left v then move_left ex rectangle v
       else if moving_right v \<noteq> 0 then move_right ex rectangle v
       else if moving_both v then move_both ex rectangle v
       else if moving_top v then move_top ext ex v
       else show_cursor ex ey rectangle v)"

definition size_allocate :: "measuring \<Rightarrow> rat \<Rightarrow> rat \<Rightarrow> unit handler" where
  "size_allocate ext width height =
     act_bind (modify (\<lambda>v. v\<lparr>vw_width := Some width, vw_height := Some height,
        graphic_of := layout_graphic ext width height (graphic_of v), force_full_redraw := True\<rparr>))
       (\<lambda>_. request QueueDraw)"

text \<open>Drawing the picture into the buffer: what was drawn before an exception stays there.\<close>

definition full_redraw :: "measuring \<Rightarrow> unit handler" where
  "full_redraw ext = (\<lambda>v.
     if force_full_redraw v
     then case draw_graphic ext (graphic_of v) \<lparr>calls = [], grey_background = 0\<rparr> of
         (Inl e, c) \<Rightarrow> (Inl e, v\<lparr>buffer_surface := Some c\<rparr>)
       | (Inr _, c) \<Rightarrow> (Inr (), v\<lparr>buffer_surface := Some c, force_full_redraw := False\<rparr>)
     else (Inr (), v))"

definition on_window :: "call list \<Rightarrow> unit handler" where
  "on_window cs = modify (\<lambda>v. v\<lparr>window_calls := window_calls v @ cs\<rparr>)"

definition vertical_line :: "rat \<Rightarrow> rat \<Rightarrow> rat \<Rightarrow> call list" where
  "vertical_line x y height =
     [MoveTo x y, RelLineTo 0 height, ClosePath, SetLineWidth 1, SetSourceRgb 0 0 0, Stroke]"

definition expose_left :: "rat \<times> rat \<times> rat \<times> rat \<Rightarrow> unit handler" where
  "expose_left = (\<lambda>(x, y, width, height) v.
     if moving_left v
     then act_bind (attribute left_cur) (\<lambda>cur. on_window (vertical_line (max cur 2) y height)) v
     else ret () v)"

definition expose_right :: "rat \<times> rat \<times> rat \<times> rat \<Rightarrow> unit handler" where
  "expose_right = (\<lambda>(x, y, width, height) v.
     if moving_right v \<noteq> 0
     then act_bind (attribute right_cur) (\<lambda>cur. act_bind (attribute vw_width) (\<lambda>w.
            on_window (vertical_line (min cur (w - 2)) y height))) v
     else ret () v)"

definition expose_both :: "rat \<times> rat \<times> rat \<times> rat \<Rightarrow> unit handler" where
  "expose_both = (\<lambda>(x, y, width, height) v.
     if moving_both v
     then act_bind (attribute both_cur) (\<lambda>cur. act_bind (attribute both_start) (\<lambda>start.
            on_window [MoveTo (x + (cur - start)) y, RelLineTo 0 height, ClosePath,
                       MoveTo (x + width + (cur - start)) y, RelLineTo 0 height, ClosePath,
                       SetSourceRgb 0 0 0, SetLineWidth 1, Stroke])) v
     else ret () v)"

definition expose :: "measuring \<Rightarrow> rat \<times> rat \<times> rat \<times> rat \<Rightarrow> bool handler" where
  "expose ext = (\<lambda>(area_x, area_y, area_width, area_height).
     act_bind (full_redraw ext) (\<lambda>_.
     act_bind (attribute (\<lambda>v. map_option calls (buffer_surface v))) (\<lambda>cs.
     act_bind (on_window [Rectangle area_x area_y area_width area_height, Clip, SetSourceSurface cs, Paint]) (\<lambda>_.
     act_bind (ask (\<lambda>v. get_selection_rectangle (graphic_of v))) (\<lambda>rectangle.
     act_bind (expose_left rectangle) (\<lambda>_.
     act_bind (expose_right rectangle) (\<lambda>_.
     act_bind (expose_both rectangle) (\<lambda>_. ret False))))))))"

text \<open>The surface that is written is a new one, the one that is drawn on is the buffer.\<close>

definition output_png :: "measuring \<Rightarrow> string \<Rightarrow> unit handler" where
  "output_png ext filename =
     act_bind (attribute buffer_surface) (\<lambda>c.
     act_bind (\<lambda>v. case draw_graphic ext (graphic_of v) c of (r, c') \<Rightarrow> (r, v\<lparr>buffer_surface := Some c'\<rparr>)) (\<lambda>_.
       modify (\<lambda>v. v\<lparr>files_written := files_written v @ [(filename, [])]\<rparr>)))"

section \<open>Running the program\<close>

text \<open>Attributes that \<open>set_range\<close> and the layout it triggers assign before they are read are zero at first.\<close>

definition new_legend :: "string list \<Rightarrow> color list \<Rightarrow> legend" where
  "new_legend legends cs = \<lparr>lg_padding = 10, lg_legends = legends, lg_colors = cs, lg_width = 0, lg_height = 0\<rparr>"

definition new_renderer :: "grid_data \<Rightarrow> renderer" where
  "new_renderer d =
     \<lparr>rd_padding = 10, rd_timelines = snd d, rd_colors = fst d, rd_start = 0, rd_end = 0, rd_left_width = 0,
      rd_right_width = 0, rd_max_text_height = 0, rd_width = 0, rd_height = 0\<rparr>"

definition new_scale :: "bool \<Rightarrow> scale" where
  "new_scale on_top = \<lparr>sc_top = on_top, sc_lo = 0, sc_hi = 0, sc_delta = 0, sc_width = 0, sc_height = 0\<rparr>"

definition new_graphic :: "rat \<Rightarrow> rat \<Rightarrow> legend \<Rightarrow> renderer \<Rightarrow> graphic" where
  "new_graphic start stop l r =
     \<lparr>gr_start = start, gr_end = stop, gr_width = 1, gr_height = 1, gr_r_start = 0, gr_r_end = 0, gr_data = r,
      gr_legend = l, gr_mid = new_scale True, gr_bot = set_bounds start stop (new_scale False)\<rparr>"

text \<open>The middle tenth of the time from the first moment to the last.\<close>

definition default_range :: "measuring \<Rightarrow> rat \<Rightarrow> rat \<Rightarrow> graphic \<Rightarrow> graphic" where
  "default_range ext lower upper =
     (let range_mid = (upper - lower) / 2; range_width = (upper - lower) / 10
      in set_range ext (range_mid - range_width / 2) (range_mid + range_width / 2))"

definition main_view :: "measuring \<Rightarrow> string list \<Rightarrow> view res" where
  "main_view ext ls =
     and_then (read_data ls) (\<lambda>d.
       let (lower, upper) = timelines_bounds (snd d); legends = get_all_range_values (snd d)
       in and_then (for_each (\<lambda>cs n. and_then (lookup_color n (fst d)) (\<lambda>c. Inr (cs @ [c]))) [] legends) (\<lambda>cs.
            Inr (new_view (default_range ext lower upper
              (new_graphic lower upper (new_legend legends cs) (new_renderer d))))))"

datatype user_event =
    Press rat rat
  | Release
  | Motion rat rat
  | ZoomOut
  | ZoomIn
  | Resize rat rat
  | Expose "rat \<times> rat \<times> rat \<times> rat"
  | OutputPng string

fun handle :: "measuring \<Rightarrow> user_event \<Rightarrow> view \<Rightarrow> view" where
  "handle ext (Press x y) v = snd (button_press x y v)"
| "handle ext Release v = snd (button_release ext v)"
| "handle ext (Motion x y) v = snd (motion_notify ext x y v)"
| "handle ext ZoomOut v = snd (set_smaller_zoom ext v)"
| "handle ext ZoomIn v = snd (set_bigger_zoom ext v)"
| "handle ext (Resize w h) v = snd (size_allocate ext w h v)"
| "handle ext (Expose area) v = snd (expose ext area v)"
| "handle ext (OutputPng filename) v = snd (output_png ext filename v)"

inductive view_step :: "measuring \<Rightarrow> view \<Rightarrow> view \<Rightarrow> bool" for ext where
  "view_step ext v (handle ext e v)"

inductive_cases view_stepE: "view_step ext v v'"

section \<open>The interval shown\<close>

lemma layout_graphic_fields [simp]:
  "gr_start (layout_graphic ext w h g) = gr_start g" "gr_end (layout_graphic ext w h g) = gr_end g"
  "gr_r_start (layout_graphic ext w h g) = gr_r_start g" "gr_r_end (layout_graphic ext w h g) = gr_r_end g"
  "gr_width (layout_graphic ext w h g) = w" "gr_height (layout_graphic ext w h g) = h"
  "gr_bot (layout_graphic ext w h g) = layout_scale ext w (gr_bot g)"
  "gr_legend (layout_graphic ext w h g) = layout_legend ext w (gr_legend g)"
  "gr_data (layout_graphic ext w h g) = layout_renderer ext w (gr_data g)"
  "gr_mid (layout_graphic ext w h g)
     = layout_scale ext (w - get_data_x_start (layout_renderer ext w (gr_data g))) (gr_mid g)"
  by (simp_all add: layout_graphic_def Let_def)

lemma layout_renderer_fields [simp]:
  "rd_start (layout_renderer ext w r) = rd_start r" "rd_end (layout_renderer ext w r) = rd_end r"
  "rd_timelines (layout_renderer ext w r) = rd_timelines r" "rd_padding (layout_renderer ext w r) = rd_padding r"
  by (simp_all add: layout_renderer_def Let_def)

lemma set_range_fields [simp]:
  "gr_start (set_range ext a b g) = gr_start g" "gr_end (set_range ext a b g) = gr_end g"
  "gr_r_start (set_range ext a b g) = max (gr_start g) (min a b)" "gr_r_end (set_range ext a b g) = min (gr_end g) (max a b)"
  "gr_width (set_range ext a b g) = gr_width g" "gr_height (set_range ext a b g) = gr_height g"
  "gr_bot (set_range ext a b g) = layout_scale ext (gr_width g) (gr_bot g)"
  "rd_start (gr_data (set_range ext a b g)) = max (gr_start g) (min a b)"
  "rd_end (gr_data (set_range ext a b g)) = min (gr_end g) (max a b)"
  "rd_timelines (gr_data (set_range ext a b g)) = rd_timelines (gr_data g)"
  "sc_lo (gr_mid (set_range ext a b g)) = max (gr_start g) (min a b)"
  "sc_hi (gr_mid (set_range ext a b g)) = min (gr_end g) (max a b)"
  by (simp_all add: set_range_def set_bounds_def Let_def)

text \<open>The parts of the picture agree on the interval, which does not go beyond the data on either side.\<close>

definition coherent_graphic :: "graphic \<Rightarrow> bool" where
  "coherent_graphic g \<longleftrightarrow>
     sc_lo (gr_bot g) = gr_start g \<and> sc_hi (gr_bot g) = gr_end g \<and> sc_width (gr_bot g) = gr_width g
     \<and> rd_start (gr_data g) = gr_r_start g \<and> rd_end (gr_data g) = gr_r_end g
     \<and> sc_lo (gr_mid g) = gr_r_start g \<and> sc_hi (gr_mid g) = gr_r_end g
     \<and> gr_start g \<le> gr_r_start g \<and> gr_r_end g \<le> gr_end g"

definition coherent :: "view \<Rightarrow> bool" where
  "coherent v \<longleftrightarrow> coherent_graphic (graphic_of v) \<and> (vw_width v = None \<or> vw_width v = Some (gr_width (graphic_of v)))"

lemma coherent_set_range: "coherent_graphic g \<Longrightarrow> coherent_graphic (set_range ext a b g)"
  by (simp add: coherent_graphic_def)

lemma coherent_layout: "coherent_graphic g \<Longrightarrow> coherent_graphic (layout_graphic ext w h g)"
  by (simp add: coherent_graphic_def)

text \<open>
  What every handler keeps: a property of the picture and of the width of the window that survives a
  change of the interval and a new layout survives whatever the user does.
\<close>

locale view_property =
  fixes ext :: measuring and P :: "graphic \<Rightarrow> rat option \<Rightarrow> bool"
  assumes keeps_range: "P g w \<Longrightarrow> P (set_range ext a b g) w"
    and keeps_layout: "P g w \<Longrightarrow> P (layout_graphic ext width height g) (Some width)"
begin

definition holds :: "view \<Rightarrow> bool" where
  "holds v \<longleftrightarrow> P (graphic_of v) (vw_width v)"

definition kept :: "'a handler \<Rightarrow> bool" where
  "kept m \<longleftrightarrow> (\<forall>v. holds v \<longrightarrow> holds (snd (m v)))"

lemma kept_bind: "kept m \<Longrightarrow> (\<And>x. kept (f x)) \<Longrightarrow> kept (act_bind m f)"
  by (auto simp: kept_def act_bind_def split: prod.splits sum.splits)

lemma kept_if: "(b \<Longrightarrow> kept m) \<Longrightarrow> (\<not> b \<Longrightarrow> kept n) \<Longrightarrow> kept (if b then m else n)"
  by simp

lemma kept_cases: "kept m \<Longrightarrow> kept n \<Longrightarrow> kept (\<lambda>v. if b v then m v else n v)"
  by (auto simp: kept_def)

lemma kept_basic: "kept (ret x)" "kept (ask f)" "kept (attribute h)" "kept (request r)" "kept (on_window cs)"
  by (simp_all add: kept_def ask_def attribute_def request_def on_window_def act_simps holds_def)

lemma kept_modify: "(\<And>v. graphic_of (f v) = graphic_of v \<and> vw_width (f v) = vw_width v) \<Longrightarrow> kept (modify f)"
  by (simp add: kept_def act_simps holds_def)

lemma kept_change_range: "kept (change_range ext a b)"
  by (simp add: kept_def change_range_def act_simps holds_def keeps_range)

lemmas kept_rules = kept_bind kept_basic kept_modify kept_change_range

lemma kept_zoom: "kept (zoom ext f)"
  unfolding zoom_def by (intro kept_rules) (auto intro!: kept_rules)

lemma kept_press: "kept (button_press x y)"
  unfolding button_press_def by (auto intro!: kept_rules kept_if split: prod.splits)

lemma kept_release: "kept (button_release ext)"
  unfolding button_release_def by (auto intro!: kept_rules kept_cases split: prod.splits)

lemma kept_motion: "kept (motion_notify ext x y)"
  unfolding motion_notify_def move_left_def move_right_def move_both_def move_top_def redraw_strip_def show_cursor_def Let_def
  by (auto intro!: kept_rules kept_cases kept_if split: prod.splits)

lemma kept_size: "kept (size_allocate ext w h)"
  by (simp add: kept_def size_allocate_def request_def act_simps holds_def keeps_layout)

lemma kept_redraw: "kept (full_redraw ext)"
  by (auto simp: kept_def full_redraw_def holds_def split: prod.splits sum.splits)

lemma kept_expose: "kept (expose ext area)"
  unfolding expose_def expose_left_def expose_right_def expose_both_def
  by (auto intro!: kept_rules kept_redraw kept_cases split: prod.splits)

lemma kept_png: "kept (output_png ext filename)"
  unfolding output_png_def
  by (intro kept_rules) (auto simp: kept_def holds_def split: prod.splits)

lemma step_holds:
  assumes "view_step ext v v'" "holds v"
  shows "holds v'"
  using assms(1)
proof (rule view_stepE)
  fix e
  assume "v' = handle ext e v"
  then show ?thesis
    using assms(2) kept_zoom kept_press kept_release kept_motion kept_size kept_expose kept_png
    by (cases e) (simp_all add: kept_def set_smaller_zoom_def set_bigger_zoom_def)
qed

lemma reachable_holds: "(view_step ext)\<^sup>*\<^sup>* v v' \<Longrightarrow> holds v \<Longrightarrow> holds v'"
  by (induction rule: rtranclp_induct) (auto intro: step_holds)

end

interpretation coherence: view_property ext "\<lambda>g w. coherent_graphic g \<and> (w = None \<or> w = Some (gr_width g))" for ext
  by unfold_locales (auto simp: coherent_set_range coherent_layout)

interpretation constant_data: view_property ext "\<lambda>g w. gr_start g = a \<and> gr_end g = b \<and> rd_timelines (gr_data g) = ts" for ext a b ts
  by unfold_locales auto

lemma coherent_holds: "coherent v \<longleftrightarrow> coherence.holds v"
  by (simp add: coherent_def coherence.holds_def)

text \<open>
  C28. Whatever the user does - presses, releases, moves the mouse, zooms, resizes the window, in any
  order, also when handlers raise - the legend, the timelines and both scales agree on the interval
  shown, it starts no earlier and ends no later than the data, and the data are not touched.
\<close>
theorem view_coherent:
  assumes "(view_step ext)\<^sup>*\<^sup>* (new_view (set_range ext a b (new_graphic lower upper l r))) v"
  shows "coherent v \<and> gr_start (graphic_of v) = lower \<and> gr_end (graphic_of v) = upper
    \<and> rd_timelines (gr_data (graphic_of v)) = rd_timelines r"
proof -
  let ?v = "new_view (set_range ext a b (new_graphic lower upper l r))"
  have "coherence.holds ?v"
    unfolding coherence.holds_def by (simp add: new_view_def coherent_graphic_def new_graphic_def set_bounds_def new_scale_def)
  from coherence.reachable_holds [OF assms this] have "coherent v" by (simp add: coherent_holds)
  moreover have "constant_data.holds lower upper (rd_timelines r) ?v"
    unfolding constant_data.holds_def by (simp add: new_view_def new_graphic_def)
  from constant_data.reachable_holds [OF assms this] have "constant_data.holds lower upper (rd_timelines r) v" .
  ultimately show ?thesis by (simp add: constant_data.holds_def)
qed

end
