(* ===== verification/GridDrag.thy ===== *)
theory GridDrag
  imports GridView
begin

text \<open>
  What the user of \<open>utils/grid.py\<close> gets: sequences of mouse events as drags of the borders and of
  the whole interval, zooming, which events keep the bounds in order, and when nothing can be drawn.
\<close>

section \<open>Dragging the borders of the interval\<close>

definition pos :: "graphic \<Rightarrow> rat \<Rightarrow> rat" where
  "pos g t = (t - gr_start g) * gr_width g / (gr_end g - gr_start g)"

definition strip_top :: "graphic \<Rightarrow> rat" where
  "strip_top g = lg_height (gr_legend g) + rd_height (gr_data g) + sc_height (gr_mid g) + 20"

definition strip_height :: "graphic \<Rightarrow> rat" where
  "strip_height g = sc_height (gr_bot g) + 20"

lemma selection_rectangle:
  assumes "coherent_graphic g" "gr_start g < gr_end g"
  shows "get_selection_rectangle g
    = Inr (pos g (gr_r_start g), strip_top g, pos g (gr_r_end g) - pos g (gr_r_start g), strip_height g)"
  using assms by (simp add: get_selection_rectangle_def get_position_def true_div_def coherent_graphic_def pos_def
      strip_top_def strip_height_def)

text \<open>A view that can be dragged: data of some length in a window of some width, no drag in progress.\<close>

definition idle :: "view \<Rightarrow> bool" where
  "idle v \<longleftrightarrow> coherent v \<and> gr_start (graphic_of v) < gr_end (graphic_of v)
     \<and> gr_r_start (graphic_of v) \<le> gr_r_end (graphic_of v)
     \<and> 0 < gr_width (graphic_of v) \<and> vw_width v = Some (gr_width (graphic_of v))
     \<and> \<not> moving_left v \<and> moving_right v = 0 \<and> \<not> moving_both v \<and> \<not> moving_top v"

definition in_strip :: "view \<Rightarrow> rat \<Rightarrow> bool" where
  "in_strip v y \<longleftrightarrow> strip_top (graphic_of v) < y \<and> y < strip_top (graphic_of v) + strip_height (graphic_of v)"

abbreviation left_border :: "view \<Rightarrow> rat" where
  "left_border v \<equiv> pos (graphic_of v) (gr_r_start (graphic_of v))"

abbreviation right_border :: "view \<Rightarrow> rat" where
  "right_border v \<equiv> pos (graphic_of v) (gr_r_end (graphic_of v))"

definition run_events :: "measuring \<Rightarrow> user_event list \<Rightarrow> view \<Rightarrow> view" where
  "run_events ext es v = foldl (\<lambda>v e. handle ext e v) v es"

definition motions :: "(rat \<times> rat) list \<Rightarrow> user_event list" where
  "motions ps = map (\<lambda>(x, y). Motion x y) ps"

lemma run_events_simps [simp]:
  "run_events ext [] v = v" "run_events ext (e # es) v = run_events ext es (handle ext e v)"
  "run_events ext (es @ es') v = run_events ext es' (run_events ext es v)"
  by (simp_all add: run_events_def)

lemma idle_rectangle:
  assumes "idle v"
  shows "get_selection_rectangle (graphic_of v)
    = Inr (left_border v, strip_top (graphic_of v), right_border v - left_border v, strip_height (graphic_of v))"
  using assms selection_rectangle by (auto simp: idle_def coherent_def)

lemma press_left:
  assumes "idle v" "in_strip v y" "\<bar>x - left_border v\<bar> < 5"
  shows "handle ext (Press x y) v = v\<lparr>moving_left := True\<rparr>"
  using assms by (simp add: button_press_def act_simps ask_def idle_rectangle in_strip_def get_data_rectangle_def Let_def)

lemma press_right:
  assumes "idle v" "in_strip v y" "\<not> \<bar>x - left_border v\<bar> < 5" "\<bar>x - right_border v\<bar> < 5"
  shows "handle ext (Press x y) v = v\<lparr>moving_right := 1\<rparr>"
  using assms by (simp add: button_press_def act_simps ask_def idle_rectangle in_strip_def get_data_rectangle_def Let_def)

lemma press_both:
  assumes "idle v" "in_strip v y" "left_border v + 5 \<le> x" "x \<le> right_border v - 5"
  shows "handle ext (Press x y) v = v\<lparr>moving_both := True, both_start := Some x, both_cur := Some x\<rparr>"
  using assms by (simp add: button_press_def act_simps ask_def idle_rectangle in_strip_def get_data_rectangle_def Let_def)

definition clamp :: "rat \<Rightarrow> rat \<Rightarrow> rat \<Rightarrow> rat" where
  "clamp lo hi x = max lo (min hi x)"

lemma borders_order:
  assumes "idle v"
  shows "0 \<le> left_border v" "left_border v \<le> right_border v" "right_border v \<le> gr_width (graphic_of v)"
proof -
  let ?g = "graphic_of v"
  have facts: "gr_start ?g < gr_end ?g" "gr_start ?g \<le> gr_r_start ?g" "gr_r_start ?g \<le> gr_r_end ?g" "gr_r_end ?g \<le> gr_end ?g"
    "0 < gr_width ?g"
    using assms by (auto simp: idle_def coherent_def coherent_graphic_def)
  then show "0 \<le> left_border v" by (simp add: pos_def)
  show "left_border v \<le> right_border v"
    unfolding pos_def using facts by (intro divide_right_mono mult_right_mono) simp_all
  have "(gr_r_end ?g - gr_start ?g) * gr_width ?g \<le> gr_width ?g * (gr_end ?g - gr_start ?g)"
    using facts by (subst mult.commute) (intro mult_left_mono, simp_all)
  then show "right_border v \<le> gr_width ?g" using facts by (simp add: pos_def pos_divide_le_eq)
qed

lemma drag_motions:
  assumes step: "\<And>x y s. (x, y) \<in> set ps \<Longrightarrow> Q s \<Longrightarrow> Q (handle ext (Motion x y) s) \<and> R x (handle ext (Motion x y) s)"
    and start: "Q s"
  shows "Q (run_events ext (motions ps) s) \<and> (ps \<noteq> [] \<longrightarrow> R (fst (last ps)) (run_events ext (motions ps) s))"
  using step
proof (induction ps rule: rev_induct)
  case Nil
  show ?case using start by (simp add: motions_def)
next
  case (snoc p ps)
  obtain x y where p: "p = (x, y)" by (cases p)
  from snoc.IH snoc.prems have "Q (run_events ext (motions ps) s)" by simp
  from snoc.prems [OF _ this, of x y] show ?case by (simp add: motions_def p)
qed

lemma rectangle_sum: "a + (b - a) = (b :: rat)"
  by simp

definition dragging_left :: "view \<Rightarrow> view \<Rightarrow> bool" where
  "dragging_left v s \<longleftrightarrow> (\<exists>c qs. s = v\<lparr>moving_left := True, left_cur := c, requests := qs\<rparr>)"

lemma motion_left:
  assumes "idle v" "dragging_left v s"
  shows "dragging_left v (handle ext (Motion x y) s) \<and> left_cur (handle ext (Motion x y) s) = Some (clamp 0 (right_border v) x)"
proof -
  from assms(2) obtain c qs where s: "s = v\<lparr>moving_left := True, left_cur := c, requests := qs\<rparr>"
    by (auto simp: dragging_left_def)
  have w: "vw_width v = Some (gr_width (graphic_of v))" using assms by (simp add: idle_def)
  have cur: "(if x \<le> 0 then 0 else if x \<ge> right_border v then right_border v else x) = clamp 0 (right_border v) x"
    using borders_order [OF assms(1)] by (auto simp: clamp_def)
  have "handle ext (Motion x y) s = v\<lparr>moving_left := True,
      left_cur := Some (if x \<le> 0 then 0 else if x \<ge> right_border v then right_border v else x),
      requests := qs @ [QueueDrawArea 0 (py_int (strip_top (graphic_of v))) (py_int (gr_width (graphic_of v)))
        (py_int (strip_height (graphic_of v)))]\<rparr>"
    unfolding s using w by (simp add: motion_notify_def act_simps ask_def idle_rectangle [OF assms(1)] move_left_def redraw_strip_def
        attribute_def request_def rectangle_sum cong: if_cong split del: if_split)
  then show ?thesis unfolding cur by (auto simp: dragging_left_def)
qed

definition dragging_right :: "view \<Rightarrow> view \<Rightarrow> bool" where
  "dragging_right v s \<longleftrightarrow> (\<exists>m c qs. m \<noteq> 0 \<and> s = v\<lparr>moving_right := m, right_cur := c, requests := qs\<rparr>)"

text \<open>Beyond the border of the window the position is not recorded.\<close>

lemma motion_right:
  assumes "idle v" "dragging_right v s"
  shows "dragging_right v (handle ext (Motion x y) s)
    \<and> right_cur (handle ext (Motion x y) s)
      = (if x \<ge> gr_width (graphic_of v) then right_cur s else Some (max (left_border v) x))"
proof -
  from assms(2) obtain m c qs where s: "m \<noteq> 0" "s = v\<lparr>moving_right := m, right_cur := c, requests := qs\<rparr>"
    by (auto simp: dragging_right_def)
  have w: "vw_width v = Some (gr_width (graphic_of v))" "0 < gr_width (graphic_of v)" "\<not> moving_left v"
    using assms by (simp_all add: idle_def)
  have "handle ext (Motion x y) s = v\<lparr>
      moving_right := (if x \<ge> gr_width (graphic_of v) then gr_width (graphic_of v) else m),
      right_cur := (if x \<ge> gr_width (graphic_of v) then c else Some (max (left_border v) x)),
      requests := qs @ [QueueDrawArea 0 (py_int (strip_top (graphic_of v))) (py_int (gr_width (graphic_of v)))
        (py_int (strip_height (graphic_of v)))]\<rparr>"
    unfolding s(2) using w s(1) by (auto simp: motion_notify_def act_simps ask_def idle_rectangle [OF assms(1)] move_right_def
        redraw_strip_def attribute_def request_def max_def)
  note moved = this
  have "dragging_right v (handle ext (Motion x y) s)"
    unfolding moved dragging_right_def by (rule exI, rule exI, rule exI, rule conjI [rotated], rule refl) (use s w(2) in simp)
  then show ?thesis unfolding moved using s(2) by simp
qed

definition dragging_both :: "view \<Rightarrow> rat \<Rightarrow> view \<Rightarrow> bool" where
  "dragging_both v p s \<longleftrightarrow> (\<exists>c qs. s = v\<lparr>moving_both := True, both_start := Some p, both_cur := c, requests := qs\<rparr>)"

definition both_position :: "view \<Rightarrow> rat \<Rightarrow> rat \<Rightarrow> rat" where
  "both_position v p x = clamp (p - left_border v) (gr_width (graphic_of v) - (right_border v - p)) x"

lemma motion_both:
  assumes "idle v" "dragging_both v p s"
  shows "dragging_both v p (handle ext (Motion x y) s) \<and> both_cur (handle ext (Motion x y) s) = Some (both_position v p x)"
proof -
  from assms(2) obtain c qs where s: "s = v\<lparr>moving_both := True, both_start := Some p, both_cur := c, requests := qs\<rparr>"
    by (auto simp: dragging_both_def)
  have w: "vw_width v = Some (gr_width (graphic_of v))" "\<not> moving_left v" "moving_right v = 0"
    using assms by (simp_all add: idle_def)
  let ?lo = "p - left_border v" and ?hi = "gr_width (graphic_of v) - (right_border v - p)"
  have cur: "(if x < ?lo then ?lo else if x > ?hi then ?hi else x) = both_position v p x"
    using borders_order [OF assms(1)] by (auto simp: both_position_def clamp_def)
  have "handle ext (Motion x y) s = v\<lparr>moving_both := True, both_start := Some p,
      both_cur := Some (if x < ?lo then ?lo else if x > ?hi then ?hi else x),
      requests := qs @ [QueueDrawArea 0 (py_int (strip_top (graphic_of v))) (py_int (gr_width (graphic_of v)))
        (py_int (strip_height (graphic_of v)))]\<rparr>"
    unfolding s using w by (simp add: motion_notify_def act_simps ask_def idle_rectangle [OF assms(1)] move_both_def redraw_strip_def
        attribute_def request_def rectangle_sum Let_def cong: if_cong split del: if_split)
  then show ?thesis unfolding cur by (auto simp: dragging_both_def)
qed

text \<open>Between columns of the lower scale and time.\<close>

definition time_of :: "graphic \<Rightarrow> rat \<Rightarrow> rat" where
  "time_of g c = c / gr_width g * (gr_end g - gr_start g)"

lemma idle_facts:
  assumes "idle v"
  shows "gr_start (graphic_of v) < gr_end (graphic_of v)" "gr_start (graphic_of v) \<le> gr_r_start (graphic_of v)"
    "gr_r_start (graphic_of v) \<le> gr_r_end (graphic_of v)" "gr_r_end (graphic_of v) \<le> gr_end (graphic_of v)"
    "0 < gr_width (graphic_of v)" "coherent_graphic (graphic_of v)" "vw_width v = Some (gr_width (graphic_of v))"
    "\<not> moving_left v" "moving_right v = 0" "\<not> moving_both v" "\<not> moving_top v"
  using assms by (auto simp: idle_def coherent_def coherent_graphic_def)

lemma time_of_linear: "time_of g (a - b) = time_of g a - time_of g b" "time_of g (- a) = - time_of g a"
  by (simp_all add: time_of_def diff_divide_distrib left_diff_distrib)

lemma pos_time_of:
  assumes "idle v"
  shows "pos (graphic_of v) (gr_start (graphic_of v) + time_of (graphic_of v) c) = c"
    and "time_of (graphic_of v) (pos (graphic_of v) t) = t - gr_start (graphic_of v)"
  using idle_facts(1,5) [OF assms] by (simp_all add: pos_def time_of_def)

lemma pos_cong: "gr_start g' = gr_start g \<Longrightarrow> gr_end g' = gr_end g \<Longrightarrow> gr_width g' = gr_width g \<Longrightarrow> pos g' = pos g"
  by (simp add: pos_def fun_eq_iff)

lemma time_of_mono:
  assumes "idle v" "a \<le> b"
  shows "time_of (graphic_of v) a \<le> time_of (graphic_of v) b"
  unfolding time_of_def using idle_facts [OF assms(1)] assms(2)
  by (intro mult_right_mono divide_right_mono) simp_all

lemma time_of_width: "idle v \<Longrightarrow> time_of (graphic_of v) (gr_width (graphic_of v)) = gr_end (graphic_of v) - gr_start (graphic_of v)"
  using idle_facts(5) [of v] by (simp add: time_of_def)

lemma scale_selection_time: "idle v \<Longrightarrow> scale_selection (graphic_of v) c = Inr (time_of (graphic_of v) c)"
  using idle_facts(5) [of v] by (simp add: scale_selection_def true_div_def time_of_def)

lemma idle_set_range:
  assumes "idle v" "max (gr_start (graphic_of v)) (min a b) \<le> min (gr_end (graphic_of v)) (max a b)"
    "graphic_of v' = set_range ext a b (graphic_of v)" "vw_width v' = vw_width v"
    "\<not> moving_left v'" "moving_right v' = 0" "\<not> moving_both v'" "\<not> moving_top v'"
  shows "idle v'"
  using assms idle_facts [OF assms(1)] coherent_set_range [of "graphic_of v" ext a b] by (simp add: idle_def coherent_def)

lemma release_left:
  assumes "idle v" "dragging_left v s" "left_cur s = Some c"
  shows "handle ext Release s = s\<lparr>moving_left := False,
    graphic_of := set_range ext (time_of (graphic_of v) c) (gr_r_end (graphic_of v)) (graphic_of v),
    force_full_redraw := True, requests := requests s @ [QueueDraw]\<rparr>"
  using assms scale_selection_time [OF assms(1)]
  by (auto simp: dragging_left_def button_release_def act_simps attribute_def ask_def change_range_def request_def)

lemma release_right:
  assumes "idle v" "dragging_right v s" "right_cur s = Some c"
  shows "handle ext Release s = s\<lparr>moving_right := 0,
    graphic_of := set_range ext (gr_r_start (graphic_of v)) (time_of (graphic_of v) c) (graphic_of v),
    force_full_redraw := True, requests := requests s @ [QueueDraw]\<rparr>"
  using assms scale_selection_time [OF assms(1)] idle_facts(8) [OF assms(1)]
  by (auto simp: dragging_right_def button_release_def act_simps attribute_def ask_def change_range_def request_def)

lemma release_both:
  assumes "idle v" "dragging_both v p s" "both_cur s = Some c"
  shows "handle ext Release s = s\<lparr>moving_both := False,
    graphic_of := set_range ext (gr_r_start (graphic_of v) + time_of (graphic_of v) (c - p))
       (gr_r_end (graphic_of v) + time_of (graphic_of v) (c - p)) (graphic_of v),
    force_full_redraw := True, requests := requests s @ [QueueDraw]\<rparr>"
  using assms scale_selection_time [OF assms(1)] idle_facts(8,9) [OF assms(1)]
  by (auto simp: dragging_both_def button_release_def act_simps attribute_def ask_def change_range_def request_def)

lemma dragging_fields:
  "dragging_left v s \<Longrightarrow> graphic_of s = graphic_of v \<and> vw_width s = vw_width v \<and> moving_right s = moving_right v
     \<and> moving_both s = moving_both v \<and> moving_top s = moving_top v"
  "dragging_right v s \<Longrightarrow> graphic_of s = graphic_of v \<and> vw_width s = vw_width v \<and> moving_left s = moving_left v
     \<and> moving_both s = moving_both v \<and> moving_top s = moving_top v"
  "dragging_both v p s \<Longrightarrow> graphic_of s = graphic_of v \<and> vw_width s = vw_width v \<and> moving_left s = moving_left v
     \<and> moving_right s = moving_right v \<and> moving_top s = moving_top v"
  by (auto simp: dragging_left_def dragging_right_def dragging_both_def)

text \<open>After a release the interval is the new one, when that lies within the data.\<close>

lemma released:
  assumes "idle v" "graphic_of v' = set_range ext a b (graphic_of v)" "gr_start (graphic_of v) \<le> a" "a \<le> b" "b \<le> gr_end (graphic_of v)"
    "vw_width v' = vw_width v" "\<not> moving_left v'" "moving_right v' = 0" "\<not> moving_both v'" "\<not> moving_top v'"
  shows "gr_r_start (graphic_of v') = a" "gr_r_end (graphic_of v') = b" "pos (graphic_of v') = pos (graphic_of v)" "idle v'"
proof -
  show "gr_r_start (graphic_of v') = a" "gr_r_end (graphic_of v') = b" using assms by simp_all
  show "pos (graphic_of v') = pos (graphic_of v)" by (rule pos_cong) (simp_all add: assms(2))
  show "idle v'" by (rule idle_set_range [OF assms(1) _ assms(2)]) (use assms in simp_all)
qed

text \<open>
  Dragging the left border: with data that begin at time zero, after pressing at the border,
  any movements of the mouse and the release, the border is where the mouse was last (at least at
  the left of the window, at most at the right border), the right border has not moved, and no drag is
  in progress.
\<close>
theorem drag_left_border:
  assumes "idle v" "gr_start (graphic_of v) = 0" "in_strip v y" "\<bar>x - left_border v\<bar> < 5" "ps \<noteq> []"
    and v': "v' = run_events ext (Press x y # motions ps @ [Release]) v"
  shows "left_border v' = clamp 0 (right_border v) (fst (last ps)) \<and> right_border v' = right_border v
    \<and> gr_r_end (graphic_of v') = gr_r_end (graphic_of v) \<and> idle v'"
proof -
  let ?g = "graphic_of v" and ?c = "clamp 0 (right_border v) (fst (last ps))"
  define s where "s = run_events ext (motions ps) (v\<lparr>moving_left := True\<rparr>)"
  have start: "dragging_left v (v\<lparr>moving_left := True\<rparr>)"
    unfolding dragging_left_def by (rule exI [of _ "left_cur v"], rule exI [of _ "requests v"]) simp
  have s: "dragging_left v s" "left_cur s = Some ?c"
    using drag_motions [where Q = "dragging_left v" and R = "\<lambda>x s. left_cur s = Some (clamp 0 (right_border v) x)" and ps = ps,
        OF motion_left [OF assms(1)] start] assms(5) by (auto simp: s_def)
  have v'_eq: "v' = handle ext Release s"
    unfolding v' s_def run_events_simps press_left [OF assms(1,3,4)] ..
  have c: "0 \<le> ?c" "?c \<le> right_border v" using borders_order [OF assms(1)] by (auto simp: clamp_def)
  have t: "0 \<le> time_of ?g ?c" "time_of ?g ?c \<le> gr_r_end ?g"
    using time_of_mono [OF assms(1) c(1)] time_of_mono [OF assms(1) c(2)] pos_time_of(2) [OF assms(1), of "gr_r_end ?g"] assms(2)
    by (simp_all add: time_of_def)
  note moved = v'_eq [unfolded release_left [OF assms(1) s, of ext]]
  have g': "graphic_of v' = set_range ext (time_of ?g ?c) (gr_r_end ?g) ?g" unfolding moved by simp
  note idle = idle_facts [OF assms(1)]
  have flags: "vw_width v' = vw_width v" "\<not> moving_left v'" "moving_right v' = 0" "\<not> moving_both v'" "\<not> moving_top v'"
    using dragging_fields(1) [OF s(1)] idle unfolding moved by simp_all
  note after = released [OF assms(1) g' _ t(2) idle(4) flags]
  show ?thesis using after t(1) assms(2) pos_time_of(1) [OF assms(1), of ?c] by simp
qed

text \<open>
  Dragging the right border: the same, as long as the mouse ends inside the window.
\<close>
theorem drag_right_border:
  assumes "idle v" "gr_start (graphic_of v) = 0" "in_strip v y" "\<not> \<bar>x - left_border v\<bar> < 5" "\<bar>x - right_border v\<bar> < 5"
    "ps \<noteq> []" "fst (last ps) < gr_width (graphic_of v)"
    and v': "v' = run_events ext (Press x y # motions ps @ [Release]) v"
  shows "right_border v' = max (left_border v) (fst (last ps)) \<and> left_border v' = left_border v
    \<and> gr_r_start (graphic_of v') = gr_r_start (graphic_of v) \<and> idle v'"
proof -
  let ?g = "graphic_of v" and ?c = "max (left_border v) (fst (last ps))"
  define s where "s = run_events ext (motions ps) (v\<lparr>moving_right := 1\<rparr>)"
  have start: "dragging_right v (v\<lparr>moving_right := 1\<rparr>)"
    unfolding dragging_right_def by (rule exI [of _ 1], rule exI [of _ "right_cur v"], rule exI [of _ "requests v"]) simp
  have "dragging_right v (handle ext (Motion x y) s) \<and> (x < gr_width ?g \<longrightarrow> right_cur (handle ext (Motion x y) s) = Some (max (left_border v) x))"
    if "dragging_right v s" for x y s
    using motion_right [OF assms(1) that, of ext x y] by simp
  from drag_motions [where Q = "dragging_right v"
      and R = "\<lambda>x s. x < gr_width ?g \<longrightarrow> right_cur s = Some (max (left_border v) x)" and ps = ps, OF this start]
  have s: "dragging_right v s" "right_cur s = Some ?c" using assms(6,7) by (auto simp: s_def)
  have v'_eq: "v' = handle ext Release s"
    unfolding v' s_def run_events_simps press_right [OF assms(1,3-5)] ..
  note idle = idle_facts [OF assms(1)]
  have c: "left_border v \<le> ?c" "?c \<le> gr_width ?g" using borders_order [OF assms(1)] assms(7) by auto
  have t: "gr_r_start ?g \<le> time_of ?g ?c" "time_of ?g ?c \<le> gr_end ?g"
    using time_of_mono [OF assms(1) c(1)] time_of_mono [OF assms(1) c(2)] pos_time_of(2) [OF assms(1), of "gr_r_start ?g"]
      time_of_width [OF assms(1)] assms(2) by simp_all
  note moved = v'_eq [unfolded release_right [OF assms(1) s, of ext]]
  have g': "graphic_of v' = set_range ext (gr_r_start ?g) (time_of ?g ?c) ?g" unfolding moved by simp
  have flags: "vw_width v' = vw_width v" "\<not> moving_left v'" "moving_right v' = 0" "\<not> moving_both v'" "\<not> moving_top v'"
    using dragging_fields(2) [OF s(1)] idle unfolding moved by simp_all
  note after = released [OF assms(1) g' idle(2) t flags]
  show ?thesis using after assms(2) pos_time_of(1) [OF assms(1), of ?c] by simp
qed

text \<open>
  A drag of the right border that only ever moves beyond the window is lost: the position is
  never recorded, since the branch assigns to the flag instead, and the release raises and leaves the
  interval as it was.
\<close>
theorem drag_right_outside:
  assumes "idle v" "right_cur v = None" "in_strip v y" "\<not> \<bar>x - left_border v\<bar> < 5" "\<bar>x - right_border v\<bar> < 5"
    "list_all (\<lambda>(x, y). gr_width (graphic_of v) \<le> x) ps"
    and s: "s = run_events ext (Press x y # motions ps) v"
  shows "fst (button_release ext s) = Inl AttributeError \<and> graphic_of (handle ext Release s) = graphic_of v"
proof -
  have start: "dragging_right v (v\<lparr>moving_right := 1\<rparr>) \<and> right_cur (v\<lparr>moving_right := 1\<rparr>) = None"
    unfolding dragging_right_def
    using assms(2) by (intro conjI exI [of _ 1] exI [of _ "right_cur v"] exI [of _ "requests v"]) simp_all
  have "(dragging_right v (handle ext (Motion x y) s) \<and> right_cur (handle ext (Motion x y) s) = None) \<and> True"
    if "(x, y) \<in> set ps" "dragging_right v s \<and> right_cur s = None" for x y s
    using motion_right [OF assms(1), of s ext x y] that assms(6) by (auto simp: list_all_iff)
  from drag_motions [where Q = "\<lambda>s. dragging_right v s \<and> right_cur s = None" and R = "\<lambda>x s. True" and ps = ps, OF this start]
  have d: "dragging_right v s \<and> right_cur s = None"
    unfolding s run_events_simps press_right [OF assms(1,3-5)] by blast
  then obtain m c qs where "m \<noteq> 0" "s = v\<lparr>moving_right := m, right_cur := c, requests := qs\<rparr>" by (auto simp: dragging_right_def)
  then show ?thesis
    using d idle_facts [OF assms(1)] by (simp add: button_release_def act_simps attribute_def ask_def)
qed

text \<open>
  A click on the left border before any drag raises in the release handler, which reads a
  position that only moving the mouse records; the interval stays as it was.
\<close>
theorem click_left_border:
  assumes "idle v" "left_cur v = None" "in_strip v y" "\<bar>x - left_border v\<bar> < 5"
  shows "button_release ext (handle ext (Press x y) v) = (Inl AttributeError, v)"
  using idle_facts [OF assms(1)] assms(2) unfolding press_left [OF assms(1,3,4)]
  by (simp add: button_release_def act_simps attribute_def ask_def)

text \<open>
  C19. Dragging the interval as a whole keeps its length and shifts it by the movement of the
  mouse, which is cut off where the interval reaches the first or the last moment of the data.
\<close>
theorem drag_interval:
  assumes "idle v" "in_strip v y" "left_border v + 5 \<le> x" "x \<le> right_border v - 5"
    and v': "v' = run_events ext (Press x y # motions ps @ [Release]) v"
    and d: "d = (if ps = [] then 0
      else clamp (- left_border v) (gr_width (graphic_of v) - right_border v) (fst (last ps) - x))"
  shows "left_border v' = left_border v + d \<and> right_border v' = right_border v + d
    \<and> gr_r_end (graphic_of v') - gr_r_start (graphic_of v') = gr_r_end (graphic_of v) - gr_r_start (graphic_of v) \<and> idle v'"
proof -
  let ?g = "graphic_of v" and ?s = "v\<lparr>moving_both := True, both_start := Some x, both_cur := Some x\<rparr>"
  define s where "s = run_events ext (motions ps) ?s"
  have start: "dragging_both v x ?s"
    unfolding dragging_both_def by (rule exI [of _ "Some x"], rule exI [of _ "requests v"]) simp
  have "dragging_both v x (handle ext (Motion z y) s) \<and> both_cur (handle ext (Motion z y) s) = Some (both_position v x z)"
    if "dragging_both v x s" for z y s
    using motion_both [OF assms(1) that] .
  note run = drag_motions [where Q = "dragging_both v x" and R = "\<lambda>z s. both_cur s = Some (both_position v x z)" and ps = ps,
      OF this start, folded s_def]
  have s: "dragging_both v x s" "both_cur s = Some (x + d)"
  proof -
    show "dragging_both v x s" using run by blast
    show "both_cur s = Some (x + d)"
    proof (cases "ps = []")
      case True
      then show ?thesis by (simp add: s_def motions_def d)
    next
      case False
      with run have "both_cur s = Some (both_position v x (fst (last ps)))" by blast
      with False show ?thesis by (auto simp: both_position_def clamp_def d max_def min_def)
    qed
  qed
  have v'_eq: "v' = handle ext Release s"
    unfolding v' s_def run_events_simps press_both [OF assms(1-4)] ..
  note idle = idle_facts [OF assms(1)] and order = borders_order [OF assms(1)]
  have range: "- left_border v \<le> d" "d \<le> gr_width ?g - right_border v"
    using order by (auto simp: d clamp_def)
  have t: "gr_start ?g \<le> gr_r_start ?g + time_of ?g d" "gr_r_end ?g + time_of ?g d \<le> gr_end ?g"
    using time_of_mono [OF assms(1) range(1)] time_of_mono [OF assms(1) range(2)] time_of_width [OF assms(1)]
      pos_time_of(2) [OF assms(1), of "gr_r_start ?g"] pos_time_of(2) [OF assms(1), of "gr_r_end ?g"]
    by (simp_all add: time_of_linear)
  note moved = v'_eq [unfolded release_both [OF assms(1) s, of ext]]
  have g': "graphic_of v' = set_range ext (gr_r_start ?g + time_of ?g d) (gr_r_end ?g + time_of ?g d) ?g" unfolding moved by simp
  have flags: "vw_width v' = vw_width v" "\<not> moving_left v'" "moving_right v' = 0" "\<not> moving_both v'" "\<not> moving_top v'"
    using dragging_fields(3) [OF s(1)] idle unfolding moved by simp_all
  note after = released [OF assms(1) g' t(1) _ t(2) flags]
  have "pos ?g (z + time_of ?g d) = pos ?g z + d" for z
    using idle by (simp add: pos_def time_of_def field_simps)
  with after idle(3) show ?thesis by simp
qed

text \<open>Data from 0 to 1000 in a window of width 200, of which 300 to 600 are shown.\<close>

definition sample_start :: view where
  "sample_start = handle sample_text (Resize 200 300)
     (new_view (set_range sample_text 300 600 (new_graphic 0 1000 (new_legend [] []) (new_renderer ([], [])))))"

lemma sample_idle: "idle sample_start" "gr_start (graphic_of sample_start) = 0" "in_strip sample_start 60"
  "left_border sample_start = 60" "right_border sample_start = 120" "gr_width (graphic_of sample_start) = 200"
  "left_cur sample_start = None" "right_cur sample_start = None"
  by code_simp+

theorem drag_left_border_witness:
  "left_border (run_events sample_text [Press 62 60, Motion 50 60, Motion 40 70, Release] sample_start) = 40"
  using drag_left_border [OF sample_idle(1,2,3), of 62 "[(50, 60), (40, 70)]" _ sample_text]
  by (simp add: motions_def sample_idle clamp_def del: run_events_simps handle.simps)

theorem drag_right_border_witness:
  "right_border (run_events sample_text [Press 118 60, Motion 150 60, Release] sample_start) = 150"
  using drag_right_border [OF sample_idle(1,2,3), of 118 "[(150, 60)]" _ sample_text]
  by (simp add: motions_def sample_idle del: run_events_simps handle.simps)

theorem drag_right_outside_witness:
  "fst (button_release sample_text (run_events sample_text [Press 118 60, Motion 201 60] sample_start)) = Inl AttributeError"
  using drag_right_outside [OF sample_idle(1,8,3), of 118 "[(201, 60)]" _ sample_text]
  by (simp add: motions_def sample_idle del: run_events_simps handle.simps)

theorem click_left_border_witness:
  "fst (button_release sample_text (handle sample_text (Press 60 60) sample_start)) = Inl AttributeError"
  using click_left_border [OF sample_idle(1,7,3), of 60 sample_text] by (simp add: sample_idle del: handle.simps)

theorem drag_interval_witness:
  "left_border (run_events sample_text [Press 90 60, Motion 250 60, Release] sample_start) = 140"
  using drag_interval [OF sample_idle(1,3), of 90 _ sample_text "[(250, 60)]"]
  by (simp add: motions_def sample_idle clamp_def del: run_events_simps handle.simps)

theorem view_coherent_witness:
  "coherent (handle sample_text ZoomIn (new_view (set_range sample_text 300 600
     (new_graphic 0 1000 (new_legend [] []) (new_renderer ([], []))))))"
  by (rule view_coherent [THEN conjunct1]) (rule r_into_rtranclp, rule view_step.intros)

section \<open>Zooming\<close>

lemma zoom_run:
  "zoom ext f v = (Inr (), v\<lparr>graphic_of := set_range ext (gr_r_start (graphic_of v))
      (gr_r_start (graphic_of v) + f (gr_r_end (graphic_of v) - gr_r_start (graphic_of v))) (graphic_of v),
    force_full_redraw := True, requests := requests v @ [QueueDraw]\<rparr>)"
  by (simp add: zoom_def act_simps ask_def change_range_def request_def)

lemma idle_zoom_in:
  assumes "idle v"
  shows "gr_r_start (graphic_of (handle ext ZoomIn v)) = gr_r_start (graphic_of v)"
    "gr_r_end (graphic_of (handle ext ZoomIn v)) - gr_r_start (graphic_of v) = (gr_r_end (graphic_of v) - gr_r_start (graphic_of v)) / 2"
    "gr_end (graphic_of (handle ext ZoomIn v)) = gr_end (graphic_of v)"
    "idle (handle ext ZoomIn v)"
proof -
  let ?g = "graphic_of v" and ?v = "handle ext ZoomIn v"
  note idle = idle_facts [OF assms]
  have g': "graphic_of ?v = set_range ext (gr_r_start ?g) (gr_r_start ?g + (gr_r_end ?g - gr_r_start ?g) / 2) ?g"
    by (simp add: set_bigger_zoom_def zoom_run)
  have flags: "vw_width ?v = vw_width v" "\<not> moving_left ?v" "moving_right ?v = 0" "\<not> moving_both ?v" "\<not> moving_top ?v"
    using idle by (simp_all add: set_bigger_zoom_def zoom_run)
  have mid: "gr_r_start ?g \<le> gr_r_start ?g + (gr_r_end ?g - gr_r_start ?g) / 2"
    "gr_r_start ?g + (gr_r_end ?g - gr_r_start ?g) / 2 \<le> gr_end ?g"
    using idle(3,4) by (simp_all add: field_simps)
  note after = released [OF assms g' idle(2) mid flags]
  show "gr_r_start (graphic_of ?v) = gr_r_start ?g"
    "gr_r_end (graphic_of ?v) - gr_r_start ?g = (gr_r_end ?g - gr_r_start ?g) / 2"
    "gr_end (graphic_of ?v) = gr_end ?g" "idle ?v"
    using after unfolding g' by simp_all
qed

lemma idle_zoom_out:
  assumes "idle v"
  shows "gr_r_start (graphic_of (handle ext ZoomOut v)) = gr_r_start (graphic_of v)"
    "gr_r_end (graphic_of (handle ext ZoomOut v))
       = min (gr_end (graphic_of v)) (gr_r_start (graphic_of v) + (gr_r_end (graphic_of v) - gr_r_start (graphic_of v)) * 2)"
    "gr_end (graphic_of (handle ext ZoomOut v)) = gr_end (graphic_of v)"
    "idle (handle ext ZoomOut v)"
proof -
  let ?g = "graphic_of v" and ?v = "handle ext ZoomOut v"
  note idle = idle_facts [OF assms]
  have g': "graphic_of ?v = set_range ext (gr_r_start ?g) (gr_r_start ?g + (gr_r_end ?g - gr_r_start ?g) * 2) ?g"
    by (simp add: set_smaller_zoom_def zoom_run)
  show start: "gr_r_start (graphic_of ?v) = gr_r_start ?g" "gr_end (graphic_of ?v) = gr_end ?g"
    "gr_r_end (graphic_of ?v) = min (gr_end ?g) (gr_r_start ?g + (gr_r_end ?g - gr_r_start ?g) * 2)"
    using idle unfolding g' by simp_all
  show "idle ?v"
    by (rule idle_set_range [OF assms _ g']) (use idle in \<open>simp_all add: set_smaller_zoom_def zoom_run\<close>)
qed

text \<open>
  Zooming in \<open>n\<close> times shows the first part of the interval, \<open>2 ^ n\<close> times
  shorter; zooming out as often shows the whole interval again.
\<close>
theorem zoom_in_out:
  fixes ext n v
  assumes "idle v"
  defines "v' \<equiv> run_events ext (replicate n ZoomIn) v"
  defines "v'' \<equiv> run_events ext (replicate n ZoomOut) v'"
  shows "gr_r_start (graphic_of v') = gr_r_start (graphic_of v)
    \<and> gr_r_end (graphic_of v') = gr_r_start (graphic_of v) + (gr_r_end (graphic_of v) - gr_r_start (graphic_of v)) / 2 ^ n
    \<and> gr_r_start (graphic_of v'') = gr_r_start (graphic_of v) \<and> gr_r_end (graphic_of v'') = gr_r_end (graphic_of v)"
  unfolding v''_def v'_def
  using assms(1)
proof (induction n arbitrary: v)
  case 0
  show ?case by simp
next
  case (Suc n)
  let ?u = "handle ext ZoomIn v"
  note u = idle_zoom_in [OF Suc.prems, of ext]
  note ih = Suc.IH [OF u(4)]
  let ?w = "run_events ext (replicate n ZoomIn) ?u"
  have all_idle: "idle x \<Longrightarrow> idle (run_events ext (replicate m ZoomIn) x)" "idle x \<Longrightarrow> idle (run_events ext (replicate m ZoomOut) x)" for x m
    by (induction m arbitrary: x) (simp_all add: idle_zoom_in(4) idle_zoom_out(4) del: handle.simps)
  let ?z = "run_events ext (replicate n ZoomOut) ?w"
  have z: "idle ?z" using all_idle u(4) by blast
  have "replicate (Suc n) ZoomOut = replicate n ZoomOut @ [ZoomOut]" by (simp add: replicate_append_same)
  then have last: "run_events ext (replicate (Suc n) ZoomOut) (run_events ext (replicate (Suc n) ZoomIn) v) = handle ext ZoomOut ?z"
    by (simp del: handle.simps replicate_Suc) (simp del: handle.simps)
  have "gr_end (graphic_of ?z) = gr_end (graphic_of v)"
  proof -
    have "gr_end (graphic_of (run_events ext (replicate m ZoomIn) x)) = gr_end (graphic_of x)" if "idle x" for m x
      using that by (induction m arbitrary: x) (simp_all add: idle_zoom_in(3,4) del: handle.simps)
    moreover have "gr_end (graphic_of (run_events ext (replicate m ZoomOut) x)) = gr_end (graphic_of x)" if "idle x" for m x
      using that by (induction m arbitrary: x) (simp_all add: idle_zoom_out(3,4) del: handle.simps)
    ultimately show ?thesis using all_idle u(3,4) Suc.prems by simp
  qed
  then show ?case
    using ih u(1,2) idle_zoom_out(1,2) [OF z, of ext] idle_facts(4) [OF Suc.prems] unfolding last
    by (simp add: divide_divide_eq_left del: handle.simps)
qed

theorem zoom_in_out_witness:
  "gr_r_end (graphic_of (run_events sample_text [ZoomOut, ZoomOut] (run_events sample_text [ZoomIn, ZoomIn] sample_start))) = 600"
proof -
  have "gr_r_end (graphic_of sample_start) = 600" by code_simp
  with zoom_in_out [OF sample_idle(1), where n = 2 and ext = sample_text] show ?thesis
    by (simp add: numeral_2_eq_2 del: run_events_simps handle.simps)
qed

section \<open>The order of the bounds\<close>

text \<open>Handlers that leave the picture alone.\<close>

definition still :: "'a handler \<Rightarrow> bool" where
  "still m \<longleftrightarrow> (\<forall>v. graphic_of (snd (m v)) = graphic_of v)"

lemma still_bind: "still m \<Longrightarrow> (\<And>x. still (f x)) \<Longrightarrow> still (act_bind m f)"
  by (auto simp: still_def act_bind_def split: prod.splits sum.splits) (metis snd_conv)+

lemma still_basic: "still (ret x)" "still (ask f)" "still (attribute h)" "still (request r)" "still (on_window cs)"
  by (simp_all add: still_def ask_def attribute_def request_def on_window_def act_simps)

lemma still_modify: "(\<And>v. graphic_of (f v) = graphic_of v) \<Longrightarrow> still (modify f)"
  by (simp add: still_def act_simps)

lemma still_cases: "still m \<Longrightarrow> still n \<Longrightarrow> still (\<lambda>v. if b v then m v else n v)"
  by (auto simp: still_def)

lemmas still_rules = still_bind still_basic still_modify

lemma still_press: "still (button_press x y)"
  unfolding button_press_def by (auto intro!: still_rules split: prod.splits)

lemma still_moves: "still (move_left x r)" "still (move_right x r)" "still (move_both x r)" "still (show_cursor x y r)"
  unfolding move_left_def move_right_def move_both_def show_cursor_def redraw_strip_def Let_def
  by (auto intro!: still_rules split: prod.splits)

lemma motion_still: "\<not> moving_top v \<Longrightarrow> graphic_of (snd (motion_notify ext x y v)) = graphic_of v"
  using still_moves by (auto simp: motion_notify_def act_simps ask_def still_def split: sum.splits)

lemma still_expose: "still (expose ext area)"
  unfolding expose_def expose_left_def expose_right_def expose_both_def
  by (auto intro!: still_rules still_cases split: prod.splits)
    (auto simp: still_def full_redraw_def split: prod.splits sum.splits)

lemma still_png: "still (output_png ext filename)"
  unfolding output_png_def by (intro still_rules) (auto simp: still_def split: prod.splits)

lemma release_range:
  assumes "\<not> moving_both v"
  shows "graphic_of (snd (button_release ext v)) = graphic_of v
    \<or> (\<exists>t. graphic_of (snd (button_release ext v)) = set_range ext t (gr_r_end (graphic_of v)) (graphic_of v))
    \<or> (\<exists>t. graphic_of (snd (button_release ext v)) = set_range ext (gr_r_start (graphic_of v)) t (graphic_of v))"
  using assms
  by (auto simp: button_release_def act_simps attribute_def ask_def change_range_def request_def split: option.splits sum.splits)

text \<open>Each of these steps leaves the interval alone or keeps one of its bounds.\<close>

lemma step_range:
  assumes "view_step ext v v'" "\<not> moving_both v" "\<not> moving_top v"
  shows "(gr_r_start (graphic_of v') = gr_r_start (graphic_of v) \<and> gr_r_end (graphic_of v') = gr_r_end (graphic_of v))
    \<or> (\<exists>t. graphic_of v' = set_range ext t (gr_r_end (graphic_of v)) (graphic_of v))
    \<or> (\<exists>t. graphic_of v' = set_range ext (gr_r_start (graphic_of v)) t (graphic_of v))"
  using assms(1)
proof (rule view_stepE)
  fix e
  assume v': "v' = handle ext e v"
  show ?thesis
  proof (cases e)
    case Release
    with release_range [OF assms(2), of ext] v' show ?thesis by (auto simp del: set_range_fields)
  next
    case ZoomOut
    with v' show ?thesis by (auto simp: set_smaller_zoom_def zoom_run simp del: set_range_fields)
  next
    case ZoomIn
    with v' show ?thesis by (auto simp: set_bigger_zoom_def zoom_run simp del: set_range_fields)
  next
    case (Resize w h)
    with v' show ?thesis by (simp add: size_allocate_def act_simps request_def)
  qed (use v' still_press still_expose still_png motion_still [OF assms(3)] in \<open>simp_all add: still_def\<close>)
qed

definition ordered :: "graphic \<Rightarrow> bool" where
  "ordered g \<longleftrightarrow> gr_start g \<le> gr_r_start g \<and> gr_r_start g \<le> gr_r_end g \<and> gr_r_end g \<le> gr_end g"

text \<open>
  As long as the interval is not moved as a whole, its bounds stay in order and within the
  data, whatever borders are dragged and however the view is zoomed, resized and redrawn.
\<close>
theorem ordered_without_panning:
  assumes "lower \<le> upper" "max lower (min a b) \<le> min upper (max a b)"
    and "(\<lambda>v v'. view_step ext v v' \<and> \<not> moving_both v' \<and> \<not> moving_top v')\<^sup>*\<^sup>*
      (new_view (set_range ext a b (new_graphic lower upper l r))) v"
  shows "lower \<le> gr_r_start (graphic_of v) \<and> gr_r_start (graphic_of v) \<le> gr_r_end (graphic_of v) \<and> gr_r_end (graphic_of v) \<le> upper"
proof -
  have "ordered (graphic_of v) \<and> gr_start (graphic_of v) = lower \<and> gr_end (graphic_of v) = upper
      \<and> \<not> moving_both v \<and> \<not> moving_top v"
    using assms(3)
  proof (induction rule: rtranclp_induct)
    case base
    show ?case using assms(1,2) by (simp add: new_view_def ordered_def new_graphic_def)
  next
    case (step v v')
    then have calm: "view_step ext v v'" "\<not> moving_both v" "\<not> moving_top v" by simp_all
    have "constant_data.holds lower upper (rd_timelines (gr_data (graphic_of v))) v"
      using step.IH by (simp add: constant_data.holds_def)
    from constant_data.step_holds [OF calm(1) this]
    have ends: "gr_start (graphic_of v') = lower" "gr_end (graphic_of v') = upper" by (simp_all add: constant_data.holds_def)
    from step.IH have o: "ordered (graphic_of v)" "gr_start (graphic_of v) = lower" "gr_end (graphic_of v) = upper" by simp_all
    have "ordered (graphic_of v')"
      using step_range [OF calm] o ends by (auto simp: ordered_def)
    with ends step.hyps(2) show ?case by simp
  qed
  then show ?thesis by (simp add: ordered_def)
qed

theorem ordered_without_panning_witness:
  "let v = handle sample_text ZoomIn (new_view (set_range sample_text 300 600
       (new_graphic 0 1000 (new_legend [] []) (new_renderer ([], []))))) in gr_r_start (graphic_of v) \<le> gr_r_end (graphic_of v)"
proof -
  let ?v = "new_view (set_range sample_text 300 600 (new_graphic 0 1000 (new_legend [] []) (new_renderer ([], []))))"
  let ?w = "handle sample_text ZoomIn ?v"
  have "\<not> moving_both ?w" "\<not> moving_top ?w" by (simp_all add: set_bigger_zoom_def zoom_run new_view_def)
  with view_step.intros have "(\<lambda>v v'. view_step sample_text v v' \<and> \<not> moving_both v' \<and> \<not> moving_top v')\<^sup>*\<^sup>* ?v ?w"
    by (intro r_into_rtranclp conjI)
  from ordered_without_panning [OF _ _ this] show ?thesis by (simp del: handle.simps)
qed

section \<open>Intervals that cannot be drawn\<close>

lemma act_bind_Inl: "m s = (Inl e, s') \<Longrightarrow> act_bind m f s = (Inl e, s')"
  by (simp add: act_bind_def)

text \<open>An action that raises in every state.\<close>

definition fails :: "('s, 'a) act \<Rightarrow> bool" where
  "fails m \<longleftrightarrow> (\<forall>s. \<exists>e s'. m s = (Inl e, s'))"

lemma fails_first: "fails m \<Longrightarrow> fails (act_bind m f)"
  unfolding fails_def by (metis act_bind_Inl)

lemma fails_later: "(\<And>x. fails (f x)) \<Longrightarrow> fails (act_bind m f)"
  unfolding fails_def act_bind_def by (auto split: prod.splits sum.splits)

text \<open>An action that returns, and one that raises a certain exception, in every state.\<close>

definition returns :: "('s, 'a) act \<Rightarrow> bool" where
  "returns m \<longleftrightarrow> (\<forall>s. \<exists>x s'. m s = (Inr x, s'))"

definition raises :: "('s, 'a) act \<Rightarrow> py_error \<Rightarrow> bool" where
  "raises m e \<longleftrightarrow> (\<forall>s. \<exists>s'. m s = (Inl e, s'))"

lemma returns_basic: "returns (ret x)" "returns (modify f)" "returns (paint cs)" "returns (draw_line a b w h)"
  by (simp_all add: returns_def act_simps paint_run draw_line_def)

lemma returns_bind: "returns m \<Longrightarrow> (\<And>x. returns (f x)) \<Longrightarrow> returns (act_bind m f)"
  unfolding returns_def act_bind_eq_Inr by meson

lemma raises_first: "raises m e \<Longrightarrow> raises (act_bind m f) e"
  unfolding raises_def by (metis act_bind_Inl)

lemma raises_later: "returns m \<Longrightarrow> (\<And>x. raises (f x) e) \<Longrightarrow> raises (act_bind m f) e"
  unfolding raises_def returns_def act_bind_def by (metis (mono_tags, lifting) case_prod_conv sum.case(2))

lemma short_scale_raises: "sc_hi sc - sc_lo sc \<le> 10 \<Longrightarrow> raises (draw_scale ext (layout_scale ext w sc)) ValueError"
  using draw_scale_short unfolding raises_def by (metis prod.collapse)

lemma empty_picture_raises:
  assumes "gr_mid g = layout_scale ext w sc" "sc_hi sc - sc_lo sc \<le> 10" "lg_legends (gr_legend g) = []" "rd_timelines (gr_data g) = []"
  shows "raises (draw_graphic ext g) ValueError"
proof -
  have "returns (draw_legend ext (gr_legend g))" by (simp add: draw_legend_def assms(3) returns_basic)
  moreover have "returns (draw_renderer ext (gr_data g))"
    unfolding draw_renderer_def draw_rows_def Let_def by (intro returns_bind returns_basic) (simp add: assms(4) returns_basic)
  ultimately show ?thesis
    unfolding draw_graphic_def Let_def assms(1)
    by (intro raises_later returns_basic raises_first [OF short_scale_raises [OF assms(2)]])
qed

lemma short_scale_fails: "sc_hi sc - sc_lo sc \<le> 10 \<Longrightarrow> fails (draw_scale ext (layout_scale ext w sc))"
  using draw_scale_short unfolding fails_def by (metis fst_conv surj_pair)

lemma draw_graphic_fails:
  assumes "gr_mid g = layout_scale ext w sc" "sc_hi sc - sc_lo sc \<le> 10"
  shows "fails (draw_graphic ext g)"
  unfolding draw_graphic_def Let_def assms(1)
  by (rule fails_later fails_later fails_later fails_later fails_later fails_first short_scale_fails [OF assms(2)])+

lemma expose_fails:
  assumes "gr_mid (graphic_of v) = layout_scale ext w sc" "sc_hi sc - sc_lo sc \<le> 10" "force_full_redraw v"
  shows "\<exists>e. fst (expose ext area v) = Inl e"
proof -
  from draw_graphic_fails [OF assms(1,2)] obtain e c where
    "draw_graphic ext (graphic_of v) \<lparr>calls = [], grey_background = 0\<rparr> = (Inl e, c)"
    unfolding fails_def by blast
  then have "full_redraw ext v = (Inl e, v\<lparr>buffer_surface := Some c\<rparr>)" using assms(3) by (simp add: full_redraw_def)
  then show ?thesis by (cases area) (simp add: expose_def act_bind_def)
qed

lemma set_range_mid:
  "\<exists>w sc. gr_mid (set_range ext a b g) = layout_scale ext w sc
     \<and> sc_hi sc - sc_lo sc = min (gr_end g) (max a b) - max (gr_start g) (min a b)"
  by (auto simp: set_range_def set_bounds_def Let_def intro!: exI)

text \<open>
  Moving the data with the mouse is not cut off at the ends: when the movement is longer than
  what is left of the data after the first moment shown, the bounds of the interval are swapped, and the
  picture cannot be drawn any more.
\<close>
theorem panned_past_end:
  assumes "idle v" "get_data_x_start (gr_data (graphic_of v)) < gr_width (graphic_of v)"
    and far: "gr_end (graphic_of v) - gr_r_start (graphic_of v)
      < (p - x) / (gr_width (graphic_of v) - get_data_x_start (gr_data (graphic_of v))) * (gr_r_end (graphic_of v) - gr_r_start (graphic_of v))"
    and v': "v' = handle ext (Motion x y) (v\<lparr>moving_top := True, top_start := Some p\<rparr>)"
  shows "gr_r_end (graphic_of v') < gr_r_start (graphic_of v') \<and> (\<exists>e. fst (expose ext area v') = Inl e)"
proof -
  let ?g = "graphic_of v"
  let ?delta = "(p - x) / (gr_width ?g - get_data_x_start (gr_data ?g)) * (gr_r_end ?g - gr_r_start ?g)"
  note idle = idle_facts [OF assms(1)]
  have v'_g: "graphic_of v' = set_range ext (gr_r_start ?g + ?delta) (gr_r_end ?g + ?delta) ?g" and redraw: "force_full_redraw v'"
    using idle assms(2) unfolding v'
    by (simp_all add: motion_notify_def act_simps ask_def idle_rectangle [OF assms(1)] move_top_def attribute_def scale_data_def
        true_div_def change_range_def request_def del: set_range_fields)
  have swapped: "gr_r_end (graphic_of v') < gr_r_start (graphic_of v')"
    using far idle(1-4) unfolding v'_g by simp
  from set_range_mid obtain w sc where mid: "gr_mid (graphic_of v') = layout_scale ext w sc"
    and len: "sc_hi sc - sc_lo sc = min (gr_end ?g) (max (gr_r_start ?g + ?delta) (gr_r_end ?g + ?delta))
      - max (gr_start ?g) (min (gr_r_start ?g + ?delta) (gr_r_end ?g + ?delta))"
    unfolding v'_g by blast
  have "sc_hi sc - sc_lo sc \<le> 10" using swapped unfolding len v'_g by simp
  from expose_fails [OF mid this redraw] swapped show ?thesis by blast
qed

theorem panned_past_end_witness:
  "\<exists>e. fst (expose sample_text (0, 0, 200, 300)
     (handle sample_text (Motion (- 300) 20) (sample_start\<lparr>moving_top := True, top_start := Some 190\<rparr>))) = Inl e"
proof -
  have vals: "get_data_x_start (gr_data (graphic_of sample_start)) = 20" "gr_end (graphic_of sample_start) = 1000"
    "gr_r_start (graphic_of sample_start) = 300" "gr_r_end (graphic_of sample_start) = 600"
    by code_simp+
  show ?thesis
    by (rule panned_past_end [OF sample_idle(1) _ _ refl, THEN conjunct2]) (simp_all add: vals sample_idle)
qed

text \<open>
  C38. The program as a whole, on the interpreter its first line names: it ends with a
  \<open>TypeError\<close> for every file that has a range or an event, and for the other files it opens a
  window whose picture can never be drawn, because \<open>range\<close> raises a \<open>ValueError\<close>.
\<close>
theorem main_shows_nothing:
  "if list_ex adds_data ls then main_view ext ls = Inl TypeError
   else \<exists>v. main_view ext ls = Inr v \<and> fst (expose ext area (handle ext (Resize w h) v)) = Inl ValueError"
proof (cases "list_ex adds_data ls")
  case True
  then have "read_data ls = Inl TypeError" by (simp add: read_data_type_error)
  with True show ?thesis by (simp add: main_view_def)
next
  case False
  then have d: "read_data ls = Inr (fst (read_lines ls), [])" by (simp add: read_data_type_error)
  let ?r = "new_renderer (fst (read_lines ls), [])"
  let ?g = "default_range ext 0 0 (new_graphic 0 0 (new_legend [] []) ?r)"
  have main: "main_view ext ls = Inr (new_view ?g)"
    by (simp add: main_view_def d timelines_bounds_def get_all_range_values_def)
  let ?v = "handle ext (Resize w h) (new_view ?g)"
  have g: "graphic_of ?v = layout_graphic ext w h ?g" "force_full_redraw ?v"
    by (simp_all add: size_allocate_def act_simps request_def new_view_def)
  have legend: "lg_legends (gr_legend (layout_graphic ext w h ?g)) = []"
    by (simp add: default_range_def set_range_def layout_graphic_def layout_legend_def new_graphic_def new_legend_def Let_def)
  have data: "rd_timelines (gr_data (layout_graphic ext w h ?g)) = []"
    by (simp add: default_range_def new_graphic_def new_renderer_def)
  have "\<exists>w' sc. gr_mid (layout_graphic ext w h ?g) = layout_scale ext w' sc \<and> sc_hi sc - sc_lo sc \<le> 10"
    by (auto simp: default_range_def new_graphic_def intro!: exI)
  then obtain w' sc where mid: "gr_mid (layout_graphic ext w h ?g) = layout_scale ext w' sc" "sc_hi sc - sc_lo sc \<le> 10" by blast
  from empty_picture_raises [OF mid legend data] obtain c where
    "draw_graphic ext (graphic_of ?v) \<lparr>calls = [], grey_background = 0\<rparr> = (Inl ValueError, c)"
    unfolding raises_def g(1) by blast
  then have "full_redraw ext ?v = (Inl ValueError, ?v\<lparr>buffer_surface := Some c\<rparr>)"
    unfolding full_redraw_def using g(2) by (simp del: handle.simps)
  then have "fst (expose ext area ?v) = Inl ValueError" by (cases area) (simp add: expose_def act_bind_def del: handle.simps)
  with main False show ?thesis by (simp del: handle.simps)
qed

end
