(* ===== verification/WafModules.thy ===== *)
theory WafModules
  imports ConfigFile "HOL-Library.List_Lexorder" "HOL-Library.Char_ord"
begin

text \<open>
  Which modules are built: the module directories that src/wscript and contrib/wscript find, the
  choice of modules in \<open>configure\<close> of the top-level wscript, and the loop of its
  \<open>build\<close> that adds the modules the chosen ones depend on.
\<close>

section \<open>Module directories\<close>

text \<open>
  A directory is the list of its entries in the order \<open>listdir\<close> gives them; an entry can
  be a dangling link, which \<open>find_node\<close> does not find. A module of src/ is an entry with a
  wscript; \<open>find_contrib_modules\<close> also looks for modules inside the directories of
  contrib/ that have none, breadth first. An entry of its queue is the path of the directory from
  contrib/ and the entry to look at.
\<close>

datatype fs_node = Dangling | PlainFile | Directory "(string \<times> fs_node) list"

fun listing :: "fs_node \<Rightarrow> (string \<times> fs_node) list" where
  "listing (Directory es) = es"
| "listing _ = []"

definition has_wscript :: "fs_node \<Rightarrow> bool" where
  "has_wscript n = (case map_of (listing n) ''wscript'' of None \<Rightarrow> False | Some w \<Rightarrow> w \<noteq> Dangling)"

fun is_directory :: "fs_node \<Rightarrow> bool" where
  "is_directory (Directory es) = True"
| "is_directory _ = False"

definition is_src_module :: "string \<times> fs_node \<Rightarrow> bool" where
  "is_src_module e =
     (\<not> (startswith (fst e) ''.'' \<or> fst e = ''CVS'') \<and> is_directory (snd e) \<and> has_wscript (snd e))"

definition all_src_modules :: "(string \<times> fs_node) list \<Rightarrow> string list" where
  "all_src_modules es = sort (map fst (filter is_src_module es))"

definition skipped_entry :: "string \<Rightarrow> bool" where
  "skipped_entry e = (e = [] \<or> startswith e ''.'' \<or> endswith e ''CVS'')"

type_synonym queued = "string list \<times> string \<times> fs_node"

definition entries_of :: "string list \<Rightarrow> fs_node \<Rightarrow> queued list" where
  "entries_of path n = map (\<lambda>e. (path, fst e, snd e)) (listing n)"

text \<open>The number of nodes that an entry can still lead to bounds the loop.\<close>

fun tree_size :: "fs_node \<Rightarrow> nat" where
  "tree_size (Directory es) = Suc (\<Sum>e\<leftarrow>es. tree_size (snd e))"
| "tree_size _ = 1"

definition queue_size :: "queued list \<Rightarrow> nat" where
  "queue_size q = (\<Sum>e\<leftarrow>q. tree_size (snd (snd e)))"

lemma tree_size_listing: "(\<Sum>e\<leftarrow>listing n. tree_size (snd e)) < tree_size n"
  by (cases n) simp_all

lemma tree_size_pos [simp]: "0 < tree_size n"
  by (cases n) simp_all

lemma queue_size_simps [simp]:
  "queue_size [] = 0" "queue_size (e # q) = tree_size (snd (snd e)) + queue_size q"
  "queue_size (p @ q) = queue_size p + queue_size q"
  by (simp_all add: queue_size_def)

lemma queue_size_entries: "queue_size (entries_of path n) < tree_size n"
  using tree_size_listing [of n] by (simp add: queue_size_def entries_of_def comp_def)

function find_modules_loop :: "queued list \<Rightarrow> string list \<Rightarrow> string list" where
  "find_modules_loop [] modules = modules"
| "find_modules_loop ((parent, entry, node) # entries) modules =
     (if skipped_entry entry then find_modules_loop entries modules
      else if node = Dangling then find_modules_loop entries modules
      else if is_directory node then
        (if has_wscript node then find_modules_loop entries (modules @ [join ''/'' (parent @ [entry])])
         else find_modules_loop (entries @ entries_of (parent @ [entry]) node) modules)
      else find_modules_loop entries modules)"
  by pat_completeness auto
termination
proof (relation "measure (\<lambda>(q, _). queue_size q)")
  fix parent :: "string list" and entry node entries and modules :: "string list"
  show "((entries @ entries_of (parent @ [entry]) node, modules), (parent, entry, node) # entries, modules)
        \<in> measure (\<lambda>(q, _). queue_size q)"
    using queue_size_entries [of "parent @ [entry]" node] by simp
qed auto

definition find_contrib_modules :: "fs_node \<Rightarrow> string list" where
  "find_contrib_modules contrib = sort (find_modules_loop (entries_of [] contrib) [])"

text \<open>The names of the libraries: \<open>'ns3-' + module.split('/')[-1]\<close>.\<close>

definition module_library :: "string \<Rightarrow> string" where
  "module_library m = ''ns3-'' @ last (split_on (CHR ''/'') m)"

definition module_libraries :: "string list \<Rightarrow> string list" where
  "module_libraries ms = map module_library ms"

section \<open>The modules of contrib\<close>

text \<open>
  What the search is for: the paths that lead through directories without a wscript, none of them
  hidden, to a directory that has one.
\<close>

inductive module_below :: "string \<times> fs_node \<Rightarrow> string list \<Rightarrow> bool" where
  here: "\<not> skipped_entry e \<Longrightarrow> is_directory n \<Longrightarrow> has_wscript n \<Longrightarrow> module_below (e, n) [e]"
| deeper: "\<not> skipped_entry e \<Longrightarrow> is_directory n \<Longrightarrow> \<not> has_wscript n \<Longrightarrow> c \<in> set (listing n) \<Longrightarrow>
     module_below c p \<Longrightarrow> module_below (e, n) (e # p)"

inductive_cases module_belowE: "module_below (e, n) p"

lemma module_below_none [simp]:
  "skipped_entry e \<Longrightarrow> {p. module_below (e, n) p} = {}"
  "\<not> is_directory n \<Longrightarrow> {p. module_below (e, n) p} = {}"
  by (auto elim: module_belowE)

lemma module_below_here:
  "\<not> skipped_entry e \<Longrightarrow> is_directory n \<Longrightarrow> has_wscript n \<Longrightarrow> {p. module_below (e, n) p} = {[e]}"
  by (auto elim: module_belowE intro: here)

lemma module_below_child:
  assumes "\<not> skipped_entry e" "is_directory n" "\<not> has_wscript n"
  shows "module_below (e, n) p \<longleftrightarrow> (\<exists>c\<in>set (listing n). \<exists>p'. p = e # p' \<and> module_below c p')"
  using assms by (subst module_below.simps) auto

lemma module_below_deeper:
  "\<not> skipped_entry e \<Longrightarrow> is_directory n \<Longrightarrow> \<not> has_wscript n \<Longrightarrow>
     {p. module_below (e, n) p} = (\<Union>c\<in>set (listing n). (#) e ` {p. module_below c p})"
  unfolding set_eq_iff by (simp add: module_below_child image_iff) blast

definition reached :: "queued list \<Rightarrow> string set" where
  "reached q = (\<Union>(parent, e)\<in>set q. (\<lambda>p. join ''/'' (parent @ p)) ` {p. module_below e p})"

lemma reached_simps [simp]:
  "reached [] = {}" "reached (p @ q) = reached p \<union> reached q"
  "reached ((parent, e) # q) = (\<lambda>p. join ''/'' (parent @ p)) ` {p. module_below e p} \<union> reached q"
  by (simp_all add: reached_def)

lemma reached_entries:
  "reached (entries_of parent n) = (\<lambda>p. join ''/'' (parent @ p)) ` (\<Union>c\<in>set (listing n). {p. module_below c p})"
  by (auto simp: reached_def entries_of_def)

lemma reached_project:
  assumes "\<not> skipped_entry e" "is_directory n" "\<not> has_wscript n"
  shows "reached (entries_of (parent @ [e]) n) = (\<lambda>p. join ''/'' (parent @ p)) ` {p. module_below (e, n) p}"
  unfolding module_below_deeper [OF assms] reached_entries by (simp add: image_UN image_image)

lemma find_modules_loop_set: "set (find_modules_loop q ms) = set ms \<union> reached q"
proof (induction q ms rule: find_modules_loop.induct)
  case (1 ms)
  then show ?case by simp
next
  case (2 parent entry node entries ms)
  consider "skipped_entry entry \<or> node = Dangling \<or> \<not> is_directory node"
    | (found) "\<not> skipped_entry entry" "is_directory node" "has_wscript node" "node \<noteq> Dangling"
    | (project) "\<not> skipped_entry entry" "is_directory node" "\<not> has_wscript node" "node \<noteq> Dangling"
    by fastforce
  then show ?case
  proof cases
    case 1
    with 2 show ?thesis by auto
  next
    case found
    with 2(3) show ?thesis by (simp add: module_below_here)
  next
    case project
    with 2(4) show ?thesis by (simp add: reached_project ac_simps)
  qed
qed

theorem contrib_modules_found:
  "sorted (find_contrib_modules contrib) \<and>
   set (find_contrib_modules contrib) = (\<Union>e\<in>set (listing contrib). join ''/'' ` {p. module_below e p})"
  by (simp add: find_contrib_modules_def find_modules_loop_set reached_entries image_UN)

section \<open>Choosing the modules\<close>

text \<open>
  The two loops of \<open>configure\<close> that sort requested names into modules of src/ and
  contributed ones, with or without the prefix; a name that is neither is dropped.
\<close>

record chosen =
  src_part :: "string list"
  contrib_part :: "string list"

definition choose_module :: "string list \<Rightarrow> string list \<Rightarrow> chosen \<Rightarrow> string \<Rightarrow> chosen" where
  "choose_module known contributed c m =
     (if m \<in> set known \<and> startswith m ''ns3-'' then c\<lparr>src_part := src_part c @ [m]\<rparr>
      else if ''ns3-'' @ m \<in> set known then c\<lparr>src_part := src_part c @ [''ns3-'' @ m]\<rparr>
      else if m \<in> set contributed \<and> startswith m ''ns3-'' then c\<lparr>contrib_part := contrib_part c @ [m]\<rparr>
      else if ''ns3-'' @ m \<in> set contributed then c\<lparr>contrib_part := contrib_part c @ [''ns3-'' @ m]\<rparr>
      else c)"

definition choose_modules :: "string list \<Rightarrow> string list \<Rightarrow> string list \<Rightarrow> chosen" where
  "choose_modules known contributed mods =
     foldl (choose_module known contributed) \<lparr>src_part = [], contrib_part = []\<rparr> mods"

text \<open>
  The lists of the configuration are objects that its variables refer to: when all modules are
  enabled, the list of enabled modules is the list of all modules itself, and removing an element
  from one removes it from the other.
\<close>

datatype module_list = AllModules | AllContributed | ChosenModules | ChosenContributed

record configuration =
  lists :: "module_list \<Rightarrow> string list"
  enabled_ref :: module_list
  enabled_contrib_ref :: module_list

definition NS3_MODULES :: "configuration \<Rightarrow> string list" where
  "NS3_MODULES c = lists c AllModules"

definition NS3_CONTRIBUTED_MODULES :: "configuration \<Rightarrow> string list" where
  "NS3_CONTRIBUTED_MODULES c = lists c AllContributed"

definition NS3_ENABLED_MODULES :: "configuration \<Rightarrow> string list" where
  "NS3_ENABLED_MODULES c = lists c (enabled_ref c)"

definition NS3_ENABLED_CONTRIBUTED_MODULES :: "configuration \<Rightarrow> string list" where
  "NS3_ENABLED_CONTRIBUTED_MODULES c = lists c (enabled_contrib_ref c)"

definition module_lists :: "string list \<Rightarrow> string list \<Rightarrow> chosen \<Rightarrow> module_list \<Rightarrow> string list" where
  "module_lists known contributed c r =
     (case r of AllModules \<Rightarrow> known | AllContributed \<Rightarrow> contributed
      | ChosenModules \<Rightarrow> src_part c | ChosenContributed \<Rightarrow> contrib_part c)"

definition use_chosen :: "string list \<Rightarrow> string list \<Rightarrow> string list \<Rightarrow> configuration" where
  "use_chosen known contributed mods =
     \<lparr>lists = module_lists known contributed (choose_modules known contributed mods),
      enabled_ref = ChosenModules, enabled_contrib_ref = ChosenContributed\<rparr>"

definition use_all :: "string list \<Rightarrow> string list \<Rightarrow> configuration" where
  "use_all known contributed =
     \<lparr>lists = module_lists known contributed \<lparr>src_part = [], contrib_part = []\<rparr>,
      enabled_ref = AllModules, enabled_contrib_ref = AllContributed\<rparr>"

definition set_enabled_modules ::
  "string list \<Rightarrow> string list \<Rightarrow> string \<Rightarrow> string list \<Rightarrow> configuration res" where
  "set_enabled_modules known contributed enable_modules config_names =
     (if enable_modules \<noteq> [] then
        Inr (use_chosen known contributed (split_on (CHR '','') enable_modules))
      else and_then (py_nth config_names 0) (\<lambda>first.
        Inr (if first = ''all_modules'' then use_all known contributed
             else use_chosen known contributed config_names)))"

text \<open>
  The modules that cannot be built are removed, and configuring fails when this leaves no module
  of src/ enabled. The template module cannot be built statically on Darwin.
\<close>

definition remove_from :: "module_list \<Rightarrow> string \<Rightarrow> configuration \<Rightarrow> configuration" where
  "remove_from r name c = c\<lparr>lists := (lists c)(r := remove1 name (lists c r))\<rparr>"

definition remove_not_built :: "configuration \<Rightarrow> string \<Rightarrow> configuration res" where
  "remove_not_built c not_built =
     (let name = ''ns3-'' @ not_built
      in if name \<in> set (NS3_ENABLED_MODULES c) then
           (let c' = remove_from (enabled_ref c) name c
            in if NS3_ENABLED_MODULES c' = [] then
                 Inl (OtherException (''Exiting because the '' @ not_built @
                        '' module can not be built and it was the only one enabled.''))
               else Inr c')
         else if name \<in> set (NS3_ENABLED_CONTRIBUTED_MODULES c) then
           Inr (remove_from (enabled_contrib_ref c) name c)
         else Inr c)"

definition modules_not_built :: "bool \<Rightarrow> string \<Rightarrow> string list \<Rightarrow> string list" where
  "modules_not_built enable_static platform not_built =
     (if enable_static \<and> platform = ''darwin'' then not_built @ [''template''] else not_built)"

definition configure_modules ::
  "string list \<Rightarrow> string list \<Rightarrow> string \<Rightarrow> string list \<Rightarrow> string list \<Rightarrow> bool \<Rightarrow> string \<Rightarrow> configuration res" where
  "configure_modules known contributed enable_modules config_names not_built enable_static platform =
     and_then (set_enabled_modules known contributed enable_modules config_names) (\<lambda>c.
       for_each remove_not_built c (modules_not_built enable_static platform not_built))"

section \<open>Adding the modules depended on\<close>

text \<open>
  The loop of \<open>build\<close>. A round goes through the modules enabled when it begins; the two
  lists grow while it runs, and another round follows when they did. \<open>tgen m\<close> is the
  answer of \<open>bld.get_tgen_by_name(m)\<close>: an exception, None, or the \<open>use\<close> list of
  the module. The messages of the two failures are their arguments.
\<close>

datatype build_error =
    LookupFailed py_error
  | ModuleNotFound string
  | MissingDependency string string
  | Raised py_error

type_synonym module_uses = "string \<Rightarrow> string list option res"

definition uses_of :: "module_uses \<Rightarrow> string \<Rightarrow> build_error + string list" where
  "uses_of tgen m =
     (case tgen m of
        Inl e \<Rightarrow> Inl (LookupFailed e)
      | Inr None \<Rightarrow> Inl (ModuleNotFound m)
      | Inr (Some deps) \<Rightarrow> Inr deps)"

record growing =
  modules :: "string list"
  contribModules :: "string list"
  changed :: bool

definition add_dependency ::
  "string list \<Rightarrow> string list \<Rightarrow> string \<Rightarrow> growing \<Rightarrow> string \<Rightarrow> build_error + growing" where
  "add_dependency known contributed module g dep =
     (if \<not> startswith dep ''ns3-'' then Inr g
      else if dep \<notin> set (modules g) \<and> dep \<notin> set (contribModules g) then
        (if dep \<in> set known then Inr (g\<lparr>modules := modules g @ [dep], changed := True\<rparr>)
         else if dep \<in> set contributed then
           Inr (g\<lparr>contribModules := contribModules g @ [dep], changed := True\<rparr>)
         else Inl (MissingDependency (drop 4 dep) (drop 4 module)))
      else Inr g)"

definition add_dependencies ::
  "string list \<Rightarrow> string list \<Rightarrow> module_uses \<Rightarrow> growing \<Rightarrow> string \<Rightarrow> build_error + growing" where
  "add_dependencies known contributed tgen g module =
     and_then (uses_of tgen module) (for_each (add_dependency known contributed module) g)"

definition dependency_round ::
  "string list \<Rightarrow> string list \<Rightarrow> module_uses \<Rightarrow> growing \<Rightarrow> build_error + growing" where
  "dependency_round known contributed tgen g =
     for_each (add_dependencies known contributed tgen) (g\<lparr>changed := False\<rparr>) (modules g @ contribModules g)"

text \<open>What a part of a round does to the lists: it appends new names from \<open>N\<close>.\<close>

definition members :: "growing \<Rightarrow> string set" where
  "members g = set (modules g) \<union> set (contribModules g)"

lemma members_simps [simp]:
  "members (g\<lparr>modules := modules g @ ds\<rparr>) = members g \<union> set ds"
  "members (g\<lparr>contribModules := contribModules g @ ds\<rparr>) = members g \<union> set ds"
  "members (changed_update f g) = members g"
  by (auto simp: members_def)

inductive grown :: "string list \<Rightarrow> string list \<Rightarrow> string set \<Rightarrow> growing \<Rightarrow> growing \<Rightarrow> bool"
  for known contributed N g where
  same: "grown known contributed N g g"
| from_src: "grown known contributed N g h \<Longrightarrow> dep \<in> N \<Longrightarrow> dep \<notin> members h \<Longrightarrow> dep \<in> set known \<Longrightarrow>
     grown known contributed N g (h\<lparr>modules := modules h @ [dep], changed := True\<rparr>)"
| from_contrib: "grown known contributed N g h \<Longrightarrow> dep \<in> N \<Longrightarrow> dep \<notin> members h \<Longrightarrow>
     dep \<in> set contributed - set known \<Longrightarrow>
     grown known contributed N g (h\<lparr>contribModules := contribModules h @ [dep], changed := True\<rparr>)"

lemma grown_trans:
  "grown known contributed N h k \<Longrightarrow> grown known contributed N g h \<Longrightarrow> grown known contributed N g k"
  by (induction rule: grown.induct) (auto intro: grown.intros)

lemma grown_mono: "grown known contributed N g h \<Longrightarrow> N \<subseteq> N' \<Longrightarrow> grown known contributed N' g h"
  by (induction rule: grown.induct) (auto intro: grown.intros)

lemma grown_members:
  "grown known contributed N g h \<Longrightarrow> members g \<subseteq> members h \<and> members h \<subseteq> members g \<union> N \<and>
     members h \<subseteq> members g \<union> set known \<union> set contributed"
  by (induction rule: grown.induct) auto

lemma grown_changed:
  "grown known contributed N g h \<Longrightarrow> changed h \<longleftrightarrow> changed g \<or> members g \<noteq> members h"
proof (induction rule: grown.induct)
  case (from_src h dep)
  with grown_members [OF from_src.hyps(1)] show ?case by auto
next
  case (from_contrib h dep)
  with grown_members [OF from_contrib.hyps(1)] show ?case by auto
qed simp

lemma grown_lists:
  "grown known contributed N g h \<Longrightarrow> prefix (modules g) (modules h) \<and> prefix (contribModules g) (contribModules h) \<and>
     set (modules h) \<subseteq> set (modules g) \<union> set known \<and>
     set (contribModules h) \<subseteq> set (contribModules g) \<union> (set contributed - set known)"
  by (induction rule: grown.induct) (auto simp: prefix_def)

lemma grown_distinct:
  "grown known contributed N g h \<Longrightarrow> distinct (modules g @ contribModules g) \<Longrightarrow>
     distinct (modules h @ contribModules h)"
  by (induction rule: grown.induct) (auto simp: members_def)

text \<open>The names a module asks for, and the modules needed by a set of modules.\<close>

definition asks :: "module_uses \<Rightarrow> string \<Rightarrow> string set" where
  "asks tgen m = (case tgen m of Inr (Some deps) \<Rightarrow> {dep \<in> set deps. startswith dep ''ns3-''} | _ \<Rightarrow> {})"

inductive needed :: "module_uses \<Rightarrow> string set \<Rightarrow> string \<Rightarrow> bool" for tgen S where
  chosen: "m \<in> S \<Longrightarrow> needed tgen S m"
| depended: "needed tgen S m \<Longrightarrow> dep \<in> asks tgen m \<Longrightarrow> needed tgen S dep"

lemma add_dependency_grown:
  assumes "add_dependency known contributed m g dep = Inr h"
  shows "grown known contributed (Collect ((=) dep) \<inter> {d. startswith d ''ns3-''}) g h"
    "startswith dep ''ns3-'' \<Longrightarrow> dep \<in> members h"
proof -
  let ?N = "Collect ((=) dep) \<inter> {d. startswith d ''ns3-''}"
  consider "h = g"
    | "startswith dep ''ns3-''" "dep \<notin> members g" "dep \<in> set known"
      "h = g\<lparr>modules := modules g @ [dep], changed := True\<rparr>"
    | "startswith dep ''ns3-''" "dep \<notin> members g" "dep \<in> set contributed - set known"
      "h = g\<lparr>contribModules := contribModules g @ [dep], changed := True\<rparr>"
    using assms by (auto simp: add_dependency_def members_def split: if_splits)
  then show "grown known contributed ?N g h"
    by cases (auto intro: grown.intros)
  from assms show "startswith dep ''ns3-'' \<Longrightarrow> dep \<in> members h"
    by (auto simp: add_dependency_def members_def split: if_splits)
qed

lemma add_dependency_fails:
  "add_dependency known contributed m g dep = Inl e \<longleftrightarrow>
     startswith dep ''ns3-'' \<and> dep \<notin> members g \<and> dep \<notin> set known \<union> set contributed \<and>
     e = MissingDependency (drop 4 dep) (drop 4 m)"
  by (auto simp: add_dependency_def members_def)

lemma for_each_grown:
  assumes "\<And>s x s'. f s x = Inr s' \<Longrightarrow> grown known contributed (N x) s s'"
    and "for_each f g xs = Inr h"
  shows "grown known contributed (\<Union>x\<in>set xs. N x) g h"
  using assms(2)
proof (induction xs arbitrary: g)
  case Nil
  then show ?case by (simp add: same)
next
  case (Cons x xs)
  then obtain t where t: "f g x = Inr t" "for_each f t xs = Inr h" by (auto simp: res_simps)
  from Cons.IH [OF t(2)] have "grown known contributed (\<Union>x\<in>set (x # xs). N x) t h"
    by (rule grown_mono) auto
  moreover from assms(1) [OF t(1)] have "grown known contributed (\<Union>x\<in>set (x # xs). N x) g t"
    by (rule grown_mono) auto
  ultimately show ?case by (rule grown_trans)
qed

text \<open>What one element has established is kept by the rest of the loop.\<close>

lemma for_each_visited:
  assumes grows: "\<And>s x s'. f s x = Inr s' \<Longrightarrow> members s \<subseteq> members s'"
    and visit: "\<And>s x s'. f s x = Inr s' \<Longrightarrow> V x \<subseteq> members s'"
    and "for_each f g xs = Inr h"
  shows "(\<Union>x\<in>set xs. V x) \<subseteq> members h"
  using assms(3)
proof (induction xs arbitrary: h rule: rev_induct)
  case Nil
  then show ?case by simp
next
  case (snoc x xs)
  then obtain t where "for_each f g xs = Inr t" "f t x = Inr h" by (auto simp: for_each_append res_simps)
  with snoc.IH grows [of t x h] visit [of t x h] show ?case by auto
qed

lemma add_dependencies_grown:
  assumes "add_dependencies known contributed tgen g m = Inr h"
  shows "grown known contributed (asks tgen m) g h" "asks tgen m \<subseteq> members h" "\<exists>deps. tgen m = Inr (Some deps)"
proof -
  from assms obtain deps where deps: "tgen m = Inr (Some deps)"
    and run: "for_each (add_dependency known contributed m) g deps = Inr h"
    by (auto simp: add_dependencies_def uses_of_def res_simps split: sum.splits option.splits)
  show "\<exists>deps. tgen m = Inr (Some deps)" using deps by blast
  from for_each_grown [OF add_dependency_grown(1) run] show "grown known contributed (asks tgen m) g h"
    by (rule grown_mono) (auto simp: asks_def deps)
  have "(\<Union>d\<in>set deps. if startswith d ''ns3-'' then {d} else {}) \<subseteq> members h"
    by (rule for_each_visited [OF _ _ run])
       (use add_dependency_grown grown_members in \<open>fastforce split: if_splits\<close>)+
  then show "asks tgen m \<subseteq> members h" by (auto simp: asks_def deps split: if_splits)
qed

lemma add_dependencies_fails:
  "add_dependencies known contributed tgen g m = Inl e \<Longrightarrow>
     uses_of tgen m = Inl e \<or>
     (\<exists>dep h. dep \<in> asks tgen m \<and> grown known contributed (asks tgen m) g h \<and> dep \<notin> members h \<and>
        dep \<notin> set known \<union> set contributed \<and> e = MissingDependency (drop 4 dep) (drop 4 m))"
proof (unfold add_dependencies_def and_then_eq_Inl, elim disjE exE conjE)
  fix deps assume deps: "uses_of tgen m = Inr deps"
    and fails: "for_each (add_dependency known contributed m) g deps = Inl e"
  have asks: "asks tgen m = {d \<in> set deps. startswith d ''ns3-''}"
    using deps by (auto simp: uses_of_def asks_def split: sum.splits option.splits)
  from fails obtain seen d rest t where split: "deps = seen @ d # rest"
    and t: "for_each (add_dependency known contributed m) g seen = Inr t"
    and d: "add_dependency known contributed m t d = Inl e"
    by (rule for_each_fails)
  from for_each_grown [OF add_dependency_grown(1) t] have "grown known contributed (asks tgen m) g t"
    by (rule grown_mono) (auto simp: asks split)
  with d show ?thesis unfolding add_dependency_fails asks using split by auto
qed simp

section \<open>The loop\<close>

lemma dependency_round_grown:
  assumes "dependency_round known contributed tgen g = Inr h"
  shows "grown known contributed (\<Union>m\<in>members g. asks tgen m) (g\<lparr>changed := False\<rparr>) h"
    "(\<Union>m\<in>members g. asks tgen m) \<subseteq> members h"
    "\<forall>m\<in>members g. \<exists>deps. tgen m = Inr (Some deps)"
proof -
  note run = assms [unfolded dependency_round_def]
  have all: "set (modules g @ contribModules g) = members g" by (simp add: members_def)
  from for_each_grown [OF add_dependencies_grown(1) run, unfolded all]
  show "grown known contributed (\<Union>m\<in>members g. asks tgen m) (g\<lparr>changed := False\<rparr>) h" .
  show "(\<Union>m\<in>members g. asks tgen m) \<subseteq> members h"
    by (rule for_each_visited [OF _ add_dependencies_grown(2) run, unfolded all])
       (blast dest: add_dependencies_grown(1) grown_members)
  have "set (modules g @ contribModules g) \<subseteq> {m. \<exists>deps. tgen m = Inr (Some deps)}"
    by (rule for_each_invariant [OF run, where I = "\<lambda>seen _. set seen \<subseteq> {m. \<exists>deps. tgen m = Inr (Some deps)}"])
       (auto dest: add_dependencies_grown(3))
  then show "\<forall>m\<in>members g. \<exists>deps. tgen m = Inr (Some deps)" unfolding all by blast
qed

lemma dependency_round_shrinks:
  assumes "dependency_round known contributed tgen g = Inr h" "changed h"
  shows "card (set known \<union> set contributed - members h) < card (set known \<union> set contributed - members g)"
proof (rule psubset_card_mono)
  note grown = dependency_round_grown(1) [OF assms(1)]
  from grown_changed [OF grown] assms(2) have "members g \<noteq> members h" by simp
  with grown_members [OF grown]
  show "set known \<union> set contributed - members h \<subset> set known \<union> set contributed - members g" by auto
qed simp

function enable_dependencies ::
  "string list \<Rightarrow> string list \<Rightarrow> module_uses \<Rightarrow> growing \<Rightarrow> build_error + growing" where
  "enable_dependencies known contributed tgen g =
     (case dependency_round known contributed tgen g of
        Inl e \<Rightarrow> Inl e
      | Inr h \<Rightarrow> if changed h then enable_dependencies known contributed tgen h else Inr h)"
  by pat_completeness auto
termination
  by (relation "measure (\<lambda>(known, contributed, tgen, g). card (set known \<union> set contributed - members g))")
     (use dependency_round_shrinks in auto)

declare enable_dependencies.simps [simp del]

section \<open>The modules that are built\<close>

lemma needed_mono: "needed tgen S m \<Longrightarrow> S \<subseteq> T \<Longrightarrow> needed tgen T m"
  by (induction rule: needed.induct) (auto intro: needed.intros)

lemma needed_idem: "needed tgen {m. needed tgen S m} m \<Longrightarrow> needed tgen S m"
  by (induction rule: needed.induct) (auto intro: needed.intros)

lemma needed_closed: "needed tgen S m \<Longrightarrow> (\<Union>m\<in>S. asks tgen m) \<subseteq> S \<Longrightarrow> m \<in> S"
  by (induction rule: needed.induct) auto

lemma needed_between:
  assumes "S \<subseteq> T" "T \<subseteq> S \<union> (\<Union>m\<in>S. asks tgen m)"
  shows "needed tgen T = needed tgen S"
proof (intro ext iffI)
  fix m assume "needed tgen T m"
  moreover have "T \<subseteq> {m. needed tgen S m}" using assms(2) by (blast intro: needed.intros)
  ultimately show "needed tgen S m" by (blast intro: needed_mono needed_idem)
qed (rule needed_mono [OF _ assms(1)])

lemma dependency_round_needed:
  assumes "dependency_round known contributed tgen g = Inr h"
  shows "needed tgen (members h) = needed tgen (members g)"
  using grown_members [OF dependency_round_grown(1) [OF assms]] by (intro needed_between) simp_all

lemma dependency_round_fails:
  assumes "dependency_round known contributed tgen g = Inl e"
  shows "\<exists>m. needed tgen (members g) m \<and> (uses_of tgen m = Inl e \<or>
    (\<exists>dep\<in>asks tgen m. dep \<notin> members g \<union> set known \<union> set contributed \<and>
       e = MissingDependency (drop 4 dep) (drop 4 m)))"
proof -
  from assms [unfolded dependency_round_def] obtain seen m rest t
    where split: "modules g @ contribModules g = seen @ m # rest"
      and t: "for_each (add_dependencies known contributed tgen) (g\<lparr>changed := False\<rparr>) seen = Inr t"
      and m: "add_dependencies known contributed tgen t m = Inl e"
    by (rule for_each_fails)
  have "m \<in> set (modules g @ contribModules g)" unfolding split by simp
  then have "needed tgen (members g) m" by (auto simp: members_def intro: chosen)
  moreover have "members g \<subseteq> members t"
    using grown_members [OF for_each_grown [OF add_dependencies_grown(1) t]] by simp
  ultimately show ?thesis using add_dependencies_fails [OF m] grown_members by blast
qed

text \<open>
  A module whose own name is in none of the lists may only be among those chosen at the start; all
  others were found in one of them.
\<close>

definition resolvable :: "string list \<Rightarrow> string list \<Rightarrow> module_uses \<Rightarrow> growing \<Rightarrow> string set" where
  "resolvable known contributed tgen g =
     {m \<in> members g \<union> set known \<union> set contributed. \<exists>deps. tgen m = Inr (Some deps)}"

definition extends :: "string list \<Rightarrow> string list \<Rightarrow> growing \<Rightarrow> growing \<Rightarrow> bool" where
  "extends known contributed g h \<longleftrightarrow>
     prefix (modules g) (modules h) \<and> prefix (contribModules g) (contribModules h) \<and>
     set (modules h) \<subseteq> set (modules g) \<union> set known \<and>
     set (contribModules h) \<subseteq> set (contribModules g) \<union> (set contributed - set known) \<and>
     (distinct (modules g @ contribModules g) \<longrightarrow> distinct (modules h @ contribModules h))"

lemma extends_trans: "extends known contributed g h \<Longrightarrow> extends known contributed h k \<Longrightarrow> extends known contributed g k"
  unfolding extends_def by (blast intro: prefix_order.trans)

lemma dependency_round_extends:
  "dependency_round known contributed tgen g = Inr h \<Longrightarrow> extends known contributed g h"
  using grown_lists [OF dependency_round_grown(1)] grown_distinct [OF dependency_round_grown(1)]
  by (fastforce simp: extends_def)

lemma round_members:
  assumes "dependency_round known contributed tgen g = Inr h"
  shows "members g \<subseteq> members h" "members h \<subseteq> members g \<union> set known \<union> set contributed"
    "resolvable known contributed tgen h = resolvable known contributed tgen g"
    "\<not> changed h \<Longrightarrow> members h = members g"
proof -
  note grown = dependency_round_grown(1) [OF assms]
  from grown_members [OF grown] show *: "members g \<subseteq> members h" "members h \<subseteq> members g \<union> set known \<union> set contributed"
    by simp_all
  then show "resolvable known contributed tgen h = resolvable known contributed tgen g"
    by (auto simp: resolvable_def)
  from grown_changed [OF grown] show "\<not> changed h \<Longrightarrow> members h = members g" by simp
qed

lemma enable_dependencies_Inr:
  "enable_dependencies known contributed tgen g = Inr h \<Longrightarrow>
     members h = {m. needed tgen (members g) m} \<and>
     {m. needed tgen (members g) m} \<subseteq> resolvable known contributed tgen g \<and>
     extends known contributed g h"
proof (induction known contributed tgen g rule: enable_dependencies.induct)
  case (1 known contributed tgen g)
  from 1(2) obtain k where k: "dependency_round known contributed tgen g = Inr k"
    and rest: "(if changed k then enable_dependencies known contributed tgen k else Inr k) = Inr h"
    by (subst (asm) enable_dependencies.simps) (auto split: sum.splits)
  note extends = dependency_round_extends [OF k] and members = round_members [OF k]
  show ?case
  proof (cases "changed k")
    case True
    with rest 1(1) [OF k True] show ?thesis
      using dependency_round_needed [OF k] members(3) extends_trans [OF extends] by simp
  next
    case False
    with rest have h: "h = k" by simp
    have "m \<in> members g" if "needed tgen (members g) m" for m
      using needed_closed [OF that] dependency_round_grown(2) [OF k] members(4) [OF False] by simp
    then have "members g = {m. needed tgen (members g) m}" by (auto intro: chosen)
    with members(4) [OF False] h extends dependency_round_grown(3) [OF k]
    show ?thesis by (auto simp: resolvable_def)
  qed
qed

lemma enable_dependencies_Inl:
  "enable_dependencies known contributed tgen g = Inl e \<Longrightarrow>
     \<exists>m. needed tgen (members g) m \<and> (uses_of tgen m = Inl e \<or>
       (\<exists>dep\<in>asks tgen m. dep \<notin> members g \<union> set known \<union> set contributed \<and>
          e = MissingDependency (drop 4 dep) (drop 4 m)))"
proof (induction known contributed tgen g rule: enable_dependencies.induct)
  case (1 known contributed tgen g)
  show ?case
  proof (cases "dependency_round known contributed tgen g")
    case (Inl e')
    with 1(2) have "dependency_round known contributed tgen g = Inl e"
      by (subst (asm) enable_dependencies.simps) simp
    then show ?thesis by (rule dependency_round_fails)
  next
    case (Inr k)
    with 1(2) have k: "changed k" "enable_dependencies known contributed tgen k = Inl e"
      by (subst (asm) enable_dependencies.simps; simp split: if_splits)+
    from 1(1) [OF Inr this] dependency_round_needed [OF Inr] round_members(1) [OF Inr]
    show ?thesis by auto
  qed
qed

lemma unavailable_fails:
  assumes "needed tgen (members g) m"
    and "uses_of tgen m = Inl e \<or> (\<exists>dep\<in>asks tgen m. dep \<notin> members g \<union> set known \<union> set contributed)"
  shows "\<exists>m. needed tgen (members g) m \<and> m \<notin> resolvable known contributed tgen g"
  using assms by (auto simp: resolvable_def uses_of_def intro: depended split: sum.splits option.splits)

text \<open>
  C5. The loop over the dependencies ends with exactly the modules that the enabled ones need,
  directly or through others, each new name appended once to the list it belongs to; it fails
  exactly when one of them is unknown or cannot be looked up, with that name in the message.
\<close>

theorem dependencies_exact:
  "case enable_dependencies known contributed tgen g of
     Inr h \<Rightarrow> members h = {m. needed tgen (members g) m} \<and>
       {m. needed tgen (members g) m} \<subseteq> resolvable known contributed tgen g \<and> extends known contributed g h
   | Inl e \<Rightarrow> \<not> {m. needed tgen (members g) m} \<subseteq> resolvable known contributed tgen g \<and>
       (\<exists>m. needed tgen (members g) m \<and> (uses_of tgen m = Inl e \<or>
          (\<exists>dep\<in>asks tgen m. dep \<notin> members g \<union> set known \<union> set contributed \<and>
             e = MissingDependency (drop 4 dep) (drop 4 m))))"
proof (cases "enable_dependencies known contributed tgen g")
  case (Inl e)
  from enable_dependencies_Inl [OF this] unavailable_fails [of tgen g] show ?thesis
    unfolding Inl by (simp, blast)
next
  case (Inr h)
  with enable_dependencies_Inr [OF this] show ?thesis by simp
qed

section \<open>From the configuration to the build\<close>

text \<open>The lists as the build begins, read back from the saved configuration.\<close>

definition initially_enabled :: "configuration \<Rightarrow> growing" where
  "initially_enabled c =
     \<lparr>modules = NS3_ENABLED_MODULES c, contribModules = NS3_ENABLED_CONTRIBUTED_MODULES c, changed = False\<rparr>"

definition resolve_modules :: "module_uses \<Rightarrow> configuration \<Rightarrow> build_error + growing" where
  "resolve_modules tgen c =
     enable_dependencies (NS3_MODULES c) (NS3_CONTRIBUTED_MODULES c) tgen (initially_enabled c)"

lemmas configuration_lists =
  NS3_MODULES_def NS3_CONTRIBUTED_MODULES_def NS3_ENABLED_MODULES_def NS3_ENABLED_CONTRIBUTED_MODULES_def

lemma choose_modules_known:
  "set (src_part (choose_modules known contributed ms)) \<subseteq> {n \<in> set known. startswith n ''ns3-''} \<and>
   set (contrib_part (choose_modules known contributed ms)) \<subseteq> {n \<in> set contributed. startswith n ''ns3-''}"
  unfolding choose_modules_def
  by (induction ms rule: rev_induct) (auto simp: choose_module_def)

text \<open>Removing the modules that are not built never makes the variables refer to other lists.\<close>

lemma remove_not_built_refs:
  "remove_not_built c nb = Inr c' \<Longrightarrow> enabled_ref c' = enabled_ref c \<and> enabled_contrib_ref c' = enabled_contrib_ref c \<and>
     (r \<notin> {enabled_ref c, enabled_contrib_ref c} \<longrightarrow> lists c' r = lists c r) \<and>
     set (lists c' r) \<subseteq> set (lists c r)"
  using set_remove1_subset [of "''ns3-'' @ nb" "lists c (enabled_ref c)"]
    set_remove1_subset [of "''ns3-'' @ nb" "lists c (enabled_contrib_ref c)"]
  by (auto simp: remove_not_built_def remove_from_def Let_def split: if_splits)

lemma remove_all_refs:
  "for_each remove_not_built c nbs = Inr c' \<Longrightarrow> enabled_ref c' = enabled_ref c \<and> enabled_contrib_ref c' = enabled_contrib_ref c \<and>
     (r \<notin> {enabled_ref c, enabled_contrib_ref c} \<longrightarrow> lists c' r = lists c r) \<and>
     set (lists c' r) \<subseteq> set (lists c r)"
proof (induction nbs arbitrary: c)
  case Nil
  then show ?case by simp
next
  case (Cons nb nbs)
  then obtain d where d: "remove_not_built c nb = Inr d" "for_each remove_not_built d nbs = Inr c'"
    by (auto simp: res_simps)
  from remove_not_built_refs [OF d(1), of r] Cons.IH [OF d(2)] show ?case by auto
qed

lemma remove_not_built_enabled:
  "remove_not_built c nb = Inr c' \<Longrightarrow> enabled_ref c \<noteq> enabled_contrib_ref c \<Longrightarrow>
     distinct (NS3_ENABLED_MODULES c) \<Longrightarrow>
     set (NS3_ENABLED_MODULES c') = set (NS3_ENABLED_MODULES c) - {''ns3-'' @ nb} \<and> distinct (NS3_ENABLED_MODULES c')"
  by (auto simp: remove_not_built_def remove_from_def Let_def configuration_lists split: if_splits)

lemma remove_all_enabled:
  "for_each remove_not_built c nbs = Inr c' \<Longrightarrow> enabled_ref c \<noteq> enabled_contrib_ref c \<Longrightarrow>
     distinct (NS3_ENABLED_MODULES c) \<Longrightarrow>
     set (NS3_ENABLED_MODULES c') = set (NS3_ENABLED_MODULES c) - (@) ''ns3-'' ` set nbs"
proof (induction nbs arbitrary: c)
  case Nil
  then show ?case by simp
next
  case (Cons nb nbs)
  then obtain d where d: "remove_not_built c nb = Inr d" "for_each remove_not_built d nbs = Inr c'"
    by (auto simp: res_simps)
  from remove_not_built_enabled [OF d(1)] remove_not_built_refs [OF d(1)] Cons show ?case
    using Cons.IH [OF d(2)] by auto
qed

lemma grown_same:
  assumes "grown known contributed N g h"
  shows "members h = members g \<Longrightarrow> h = g"
  using assms
proof (cases rule: grown.cases)
  case (from_src k dep)
  with grown_members [OF from_src(2)] show "members h = members g \<Longrightarrow> h = g" by auto
next
  case (from_contrib k dep)
  with grown_members [OF from_contrib(2)] show "members h = members g \<Longrightarrow> h = g" by auto
qed simp_all

text \<open>When everything that exists is enabled already, the loop leaves the lists as they are.\<close>

lemma nothing_to_add:
  assumes "enable_dependencies known contributed tgen g = Inr h" "set known \<union> set contributed \<subseteq> members g"
  shows "modules h = modules g" "contribModules h = contribModules g"
proof -
  from assms(1) obtain k where k: "dependency_round known contributed tgen g = Inr k"
    and rest: "(if changed k then enable_dependencies known contributed tgen k else Inr k) = Inr h"
    by (subst (asm) enable_dependencies.simps) (auto split: sum.splits)
  have "members k = members g" using round_members(1,2) [OF k] assms(2) by blast
  with grown_same [OF dependency_round_grown(1) [OF k]] have "k = g\<lparr>changed := False\<rparr>" by simp
  with rest show "modules h = modules g" "contribModules h = contribModules g" by auto
qed

text \<open>
  With all modules enabled, the removed ones are gone from the list of all modules too, which is the
  same list: the build never brings one back, and stops when a module asks for it.
\<close>

theorem all_modules_resolved:
  assumes conf: "configure_modules known contributed [] [''all_modules''] not_built enable_static platform = Inr c"
    and run: "resolve_modules tgen c = Inr h" and "distinct known"
  shows "modules h = NS3_ENABLED_MODULES c \<and> contribModules h = NS3_ENABLED_CONTRIBUTED_MODULES c \<and>
    NS3_MODULES c = NS3_ENABLED_MODULES c \<and>
    set (modules h) = set known - (@) ''ns3-'' ` set (modules_not_built enable_static platform not_built)"
proof -
  from conf have loop: "for_each remove_not_built (use_all known contributed)
      (modules_not_built enable_static platform not_built) = Inr c"
    by (simp add: configure_modules_def set_enabled_modules_def py_nth_def)
  have refs: "enabled_ref c = AllModules" "enabled_contrib_ref c = AllContributed"
    using remove_all_refs [OF loop] by (simp_all add: use_all_def)
  then have all: "NS3_MODULES c = NS3_ENABLED_MODULES c" "NS3_CONTRIBUTED_MODULES c = NS3_ENABLED_CONTRIBUTED_MODULES c"
    by (simp_all add: configuration_lists)
  have "set (NS3_ENABLED_MODULES c) = set known - (@) ''ns3-'' ` set (modules_not_built enable_static platform not_built)"
    using remove_all_enabled [OF loop] \<open>distinct known\<close>
    by (simp add: use_all_def configuration_lists module_lists_def)
  with nothing_to_add [OF run [unfolded resolve_modules_def]] all show ?thesis
    by (simp add: initially_enabled_def members_def)
qed

text \<open>
  With a list of modules the removed ones stay in the list of all modules, and a module that asks
  for one has the loop enable it again.
\<close>

theorem removed_module_returns:
  assumes conf: "configure_modules known contributed enable_modules config_names not_built enable_static platform = Inr c"
    and chosen: "enable_modules \<noteq> [] \<or> hd config_names \<noteq> ''all_modules''"
    and run: "resolve_modules tgen c = Inr h"
    and dep: "m \<in> set (NS3_ENABLED_MODULES c)" "dep \<in> asks tgen m"
  shows "NS3_MODULES c = known \<and> NS3_CONTRIBUTED_MODULES c = contributed \<and> dep \<in> set (modules h) \<union> set (contribModules h)"
proof -
  from conf chosen obtain names where loop: "for_each remove_not_built (use_chosen known contributed names)
      (modules_not_built enable_static platform not_built) = Inr c"
    by (auto simp: configure_modules_def set_enabled_modules_def py_nth_def res_simps hd_conv_nth split: if_splits)
  have "NS3_MODULES c = known" "NS3_CONTRIBUTED_MODULES c = contributed"
    using remove_all_refs [OF loop, of AllModules] remove_all_refs [OF loop, of AllContributed]
    by (simp_all add: use_chosen_def configuration_lists module_lists_def)
  moreover have "needed tgen (members (initially_enabled c)) dep"
    using dep by (auto simp: initially_enabled_def members_def intro: needed.intros)
  ultimately show ?thesis
    using enable_dependencies_Inr [OF run [unfolded resolve_modules_def]] by (auto simp: members_def)
qed

section \<open>Witnesses\<close>

definition sample_known :: "string list" where
  "sample_known = [''ns3-core'', ''ns3-internet'', ''ns3-network'']"

definition sample_uses :: module_uses where
  "sample_uses m =
     (if m = ''ns3-core'' then Inr (Some [])
      else if m = ''ns3-network'' then Inr (Some [''ns3-core''])
      else if m = ''ns3-internet'' then Inr (Some [''ns3-network'', ''GSL''])
      else Inl (OtherException ''WafError''))"

definition sample_without_internet :: configuration where
  "sample_without_internet = remove_from AllModules ''ns3-internet'' (use_all sample_known [])"

lemma sample_all_configured:
  "configure_modules sample_known [] [] [''all_modules''] [''internet''] False ''linux'' = Inr sample_without_internet"
  by (simp add: configure_modules_def set_enabled_modules_def py_nth_def modules_not_built_def remove_not_built_def
      sample_without_internet_def use_all_def configuration_lists module_lists_def remove_from_def sample_known_def)

lemma sample_all_resolved:
  "resolve_modules sample_uses sample_without_internet =
     Inr \<lparr>modules = [''ns3-core'', ''ns3-network''], contribModules = [], changed = False\<rparr>"
  by code_simp

theorem all_modules_resolved_witness:
  "NS3_MODULES sample_without_internet = NS3_ENABLED_MODULES sample_without_internet \<and>
   set [''ns3-core'', ''ns3-network''] = set sample_known - (@) ''ns3-'' ` set (modules_not_built False ''linux'' [''internet''])"
proof -
  have "distinct sample_known" by code_simp
  from all_modules_resolved [OF sample_all_configured sample_all_resolved this] show ?thesis
    unfolding growing.select_convs by blast
qed

definition sample_internet_only :: configuration where
  "sample_internet_only =
     remove_from ChosenModules ''ns3-network'' (use_chosen sample_known [] [''internet'', ''network''])"

lemma sample_list_configured:
  "configure_modules sample_known [] ''internet,network'' [''all_modules''] [''network''] False ''linux'' =
     Inr sample_internet_only"
  by (simp add: configure_modules_def set_enabled_modules_def modules_not_built_def remove_not_built_def choose_modules_def
      choose_module_def sample_internet_only_def use_chosen_def configuration_lists module_lists_def remove_from_def
      sample_known_def Let_def)

lemma sample_list_resolved:
  "resolve_modules sample_uses sample_internet_only =
     Inr \<lparr>modules = [''ns3-internet'', ''ns3-network'', ''ns3-core''], contribModules = [], changed = False\<rparr>"
  by code_simp

theorem removed_module_returns_witness:
  "NS3_MODULES sample_internet_only = sample_known \<and> ''ns3-network'' \<in> set [''ns3-internet'', ''ns3-network'', ''ns3-core'']"
proof -
  have "''ns3-internet'' \<in> set (NS3_ENABLED_MODULES sample_internet_only)" by code_simp
  moreover have "''ns3-network'' \<in> asks sample_uses ''ns3-internet''" by (simp add: asks_def sample_uses_def)
  ultimately show ?thesis
    using removed_module_returns [OF sample_list_configured _ sample_list_resolved] by simp
qed

end
