(* ===== verification/WafBuild.thy ===== *)
theory WafBuild
  imports WafModules PyPath
begin

text \<open>
  The rest of \<open>build\<close> in the top-level wscript: the scratch programs, the task generators
  that are excluded because they depend on modules that are not enabled, and the lists of programs
  and scripts that can be run.
\<close>

section \<open>Task generators\<close>

text \<open>
  A task generator is an object that the build holds in groups; \<open>tg_id\<close> is its identity.
  \<open>features\<close> is the string it was created with. The attributes only some generators have
  are options; a test library has no \<open>is_ns3_module\<close> but a \<open>module_name\<close>. The two paths are
  those of its directory in the source tree and in the build tree.
\<close>

record tgen =
  tg_id :: nat
  tg_name :: string
  tg_features :: string
  tg_module :: "string option"
  ns3_module_dependencies :: "string list option"
  is_ns3_module :: bool
  is_ns3_program :: bool
  test_library_of :: "string option"
  tg_mode :: "string option"
  tg_path :: string
  tg_bld_path :: string
  tg_target :: string

type_synonym groups = "tgen list list"

definition all_task_gen :: "groups \<Rightarrow> tgen list" where
  "all_task_gen gs = concat gs"

text \<open>The first object that is the given one is taken out of its group.\<close>

fun remove_tgen :: "nat \<Rightarrow> tgen list \<Rightarrow> tgen list" where
  "remove_tgen i [] = []"
| "remove_tgen i (t # ts) = (if tg_id t = i then ts else t # remove_tgen i ts)"

fun exclude_taskgen :: "nat \<Rightarrow> groups \<Rightarrow> groups" where
  "exclude_taskgen i [] = []"
| "exclude_taskgen i (g # gs) =
     (if i \<in> tg_id ` set g then remove_tgen i g # gs else g # exclude_taskgen i gs)"

definition set_mode :: "nat \<Rightarrow> string \<Rightarrow> groups \<Rightarrow> groups" where
  "set_mode i mode gs = map (map (\<lambda>t. if tg_id t = i then t\<lparr>tg_mode := Some mode\<rparr> else t)) gs"

definition find_ns3_module :: "groups \<Rightarrow> string \<Rightarrow> tgen res" where
  "find_ns3_module gs name =
     (case find (\<lambda>t. is_ns3_module t \<and> tg_name t = name) (all_task_gen gs) of
        None \<Rightarrow> Inl KeyError | Some t \<Rightarrow> Inr t)"

definition get_module :: "tgen \<Rightarrow> string res" where
  "get_module t = (case tg_module t of None \<Rightarrow> Inl AttributeError | Some m \<Rightarrow> Inr m)"

section \<open>Programs\<close>

record naming =
  appname :: string
  version :: string
  build_suffix :: string
  launch_dir :: string
  work_dir :: string
  src_top :: string
  bld_top :: string

definition target_name :: "naming \<Rightarrow> string \<Rightarrow> string" where
  "target_name n name = appname n @ version n @ ''-'' @ name @ build_suffix n"

definition create_ns3_program :: "naming \<Rightarrow> nat \<Rightarrow> string \<Rightarrow> string \<Rightarrow> string list \<Rightarrow> tgen" where
  "create_ns3_program n i path name dependencies =
     \<lparr>tg_id = i, tg_name = name, tg_features = ''cxx cxxprogram'', tg_module = None,
      ns3_module_dependencies = Some (map ((@) ''ns3-'') dependencies), is_ns3_module = False, is_ns3_program = True,
      test_library_of = None, tg_mode = None, tg_path = path_join (src_top n) path,
      tg_bld_path = path_join (bld_top n) path, tg_target = target_name n name\<rparr>"

text \<open>
  \<open>add_scratch_programs\<close>: every directory of scratch/ and every .cc file in it is a program
  that depends on all enabled modules; it is built under its plain name. A program of its own
  directory is built there.
\<close>

definition scratch_target :: "naming \<Rightarrow> nat \<Rightarrow> string \<Rightarrow> string \<Rightarrow> string list \<Rightarrow> tgen" where
  "scratch_target n i path name all_modules =
     (create_ns3_program n i path name all_modules)\<lparr>tg_target := name\<rparr>"

definition scratch_program ::
  "naming \<Rightarrow> string list \<Rightarrow> nat \<Rightarrow> string \<times> fs_node \<Rightarrow> tgen option" where
  "scratch_program n all_modules i e =
     (if startswith (fst e) ''.'' \<or> fst e = ''CVS'' then None
      else if is_directory (snd e) then
        Some (scratch_target n i (path_join ''scratch'' (fst e)) (fst e) all_modules)
      else if endswith (fst e) ''.cc'' then
        Some (scratch_target n i ''scratch'' (slice_to (fst e) (-3)) all_modules)
      else None)"

fun scratch_programs ::
  "naming \<Rightarrow> string list \<Rightarrow> nat \<Rightarrow> (string \<times> fs_node) list \<Rightarrow> tgen list" where
  "scratch_programs n all_modules i [] = []"
| "scratch_programs n all_modules i (e # es) =
     (case scratch_program n all_modules i e of
        None \<Rightarrow> scratch_programs n all_modules i es
      | Some t \<Rightarrow> t # scratch_programs n all_modules (Suc i) es)"

definition add_scratch_programs ::
  "naming \<Rightarrow> growing \<Rightarrow> nat \<Rightarrow> (string \<times> fs_node) list option \<Rightarrow> tgen list" where
  "add_scratch_programs n g next_id dir =
     (case dir of
        None \<Rightarrow> []
      | Some es \<Rightarrow> scratch_programs n (map (drop 4) (modules g @ contribModules g)) next_id es)"

section \<open>Excluding what is not built\<close>

record bld =
  groups :: groups
  runnable_programs :: "string list"

definition enabled :: "growing \<Rightarrow> string \<Rightarrow> bool" where
  "enabled g m = (m \<in> set (modules g) \<or> m \<in> set (contribModules g))"

definition has_feature :: "string \<Rightarrow> tgen \<Rightarrow> bool" where
  "has_feature f t = contains (tg_features t) f"

definition exclude :: "tgen \<Rightarrow> bld \<Rightarrow> bld" where
  "exclude t b = b\<lparr>groups := exclude_taskgen (tg_id t) (groups b)\<rparr>"

text \<open>Header generators of modules that are not enabled remove their headers.\<close>

definition check_header :: "growing \<Rightarrow> string \<Rightarrow> tgen \<Rightarrow> bld \<Rightarrow> bld res" where
  "check_header g feature t b =
     (if has_feature feature t then
        and_then (get_module t) (\<lambda>m.
          Inr (if \<not> enabled g (''ns3-'' @ m) then b\<lparr>groups := set_mode (tg_id t) ''remove'' (groups b)\<rparr> else b))
      else Inr b)"

definition program_path :: "naming \<Rightarrow> tgen \<Rightarrow> string" where
  "program_path n t =
     path_join (relpath (work_dir n) (tg_bld_path t) (abspath (work_dir n) (launch_dir n))) (target_name n (tg_name t))"

definition check_program :: "naming \<Rightarrow> growing \<Rightarrow> tgen \<Rightarrow> bld \<Rightarrow> bld" where
  "check_program n g t b =
     (case ns3_module_dependencies t of
        None \<Rightarrow> b
      | Some deps \<Rightarrow>
          (case find (\<lambda>dep. \<not> enabled g dep) deps of
             Some _ \<Rightarrow> exclude t b
           | None \<Rightarrow> b\<lparr>runnable_programs := runnable_programs b @ [program_path n t]\<rparr>))"

definition check_module :: "growing \<Rightarrow> tgen \<Rightarrow> bld \<Rightarrow> bld" where
  "check_module g t b = (if is_ns3_module t \<and> \<not> enabled g (tg_name t) then exclude t b else b)"

definition check_test_library :: "bool \<Rightarrow> growing \<Rightarrow> tgen \<Rightarrow> bld \<Rightarrow> bld" where
  "check_test_library enable_tests g t b =
     (case test_library_of t of
        None \<Rightarrow> b
      | Some m \<Rightarrow> if \<not> enable_tests \<or> \<not> enabled g m then exclude t b else b)"

definition check_excluded :: "growing \<Rightarrow> string \<Rightarrow> bool \<Rightarrow> tgen \<Rightarrow> bld \<Rightarrow> bld res" where
  "check_excluded g pre applies t b =
     (if applies then and_then (get_module t) (\<lambda>m. Inr (if \<not> enabled g (pre @ m) then exclude t b else b))
      else Inr b)"

text \<open>The body of the loop over the task generators.\<close>

definition check_tgen :: "naming \<Rightarrow> bool \<Rightarrow> growing \<Rightarrow> bld \<Rightarrow> tgen \<Rightarrow> bld res" where
  "check_tgen n enable_tests g b t =
     and_then (check_header g ''ns3moduleheader'' t b) (\<lambda>b.
     and_then (check_header g ''ns3header'' t
                (check_test_library enable_tests g t (check_module g t (check_program n g t b)))) (\<lambda>b.
     and_then (check_header g ''ns3privateheader'' t b) (\<lambda>b.
     and_then (check_excluded g [] (has_feature ''ns3pcfile'' t) t b) (\<lambda>b.
     and_then (check_excluded g ''ns3-'' (contains (tg_name t) ''pybindgen'') t b) (\<lambda>b.
       check_excluded g ''ns3-'' (has_feature ''pyext'' t) t b)))))"

definition exclude_disabled :: "naming \<Rightarrow> bool \<Rightarrow> growing \<Rightarrow> bld \<Rightarrow> bld res" where
  "exclude_disabled n enable_tests g b = for_each (check_tgen n enable_tests g) b (all_task_gen (groups b))"

section \<open>The whole of the build\<close>

text \<open>
  What the build finds when the wscripts of src/ and contrib/ have run, and what it leaves behind.
  The programs of examples/ are those the wscripts there create; they and the scratch programs go
  to the current group. Without any enabled module the variable \<open>modules\<close> is never set,
  and the loop over the scripts reads it.
\<close>

record build_input =
  configured :: configuration
  uses :: module_uses
  ENABLE_TESTS :: bool
  ENABLE_EXAMPLES :: bool
  modules_with_test_libraries :: "(string \<times> string) list"
  script_dependencies :: "(string \<times> string list) list"
  created :: groups
  current_group :: nat
  example_programs :: "tgen list"
  scratch_dir :: "(string \<times> fs_node) list option"
  next_id :: nat

record build_result = bld +
  enabled_modules :: "string list"
  enabled_contributed :: "string list"
  enabled_test_libraries :: "string list"
  runnable_scripts :: "string list"

definition any_enabled :: "growing \<Rightarrow> bool" where
  "any_enabled g = (modules g \<noteq> [] \<or> contribModules g \<noteq> [])"

definition test_libraries :: "growing \<Rightarrow> (string \<times> string) list \<Rightarrow> string list" where
  "test_libraries g libs = map snd (filter (\<lambda>l. enabled g (fst l)) libs)"

definition add_to_group :: "nat \<Rightarrow> tgen list \<Rightarrow> groups \<Rightarrow> groups" where
  "add_to_group k ts gs = gs[k := gs ! k @ ts]"

definition add_script :: "growing option \<Rightarrow> string list \<Rightarrow> string \<times> string list \<Rightarrow> string list res" where
  "add_script scope scripts s =
     (case scope of
        None \<Rightarrow> if snd s = [] then Inr (scripts @ [fst s]) else Inl UnboundLocalError
      | Some g \<Rightarrow> Inr (if list_all (enabled g) (snd s) then scripts @ [fst s] else scripts))"

definition raised :: "'a res \<Rightarrow> build_error + 'a" where
  "raised r = (case r of Inl e \<Rightarrow> Inl (Raised e) | Inr x \<Rightarrow> Inr x)"

definition all_groups :: "naming \<Rightarrow> build_input \<Rightarrow> growing \<Rightarrow> groups" where
  "all_groups n i g =
     add_to_group (current_group i)
       ((if ENABLE_EXAMPLES i then example_programs i else [])
        @ add_scratch_programs n g (next_id i) (scratch_dir i)) (created i)"

definition build_ns3 :: "naming \<Rightarrow> build_input \<Rightarrow> build_error + build_result" where
  "build_ns3 n i =
     and_then (if any_enabled (initially_enabled (configured i)) then resolve_modules (uses i) (configured i)
               else Inr (initially_enabled (configured i))) (\<lambda>g.
       let b = \<lparr>groups = all_groups n i g, runnable_programs = []\<rparr>
       in and_then (if any_enabled g then raised (exclude_disabled n (ENABLE_TESTS i) g b) else Inr b) (\<lambda>b.
          and_then (raised (for_each (add_script (if any_enabled g then Some g else None)) [] (script_dependencies i)))
            (\<lambda>scripts.
              Inr \<lparr>groups = groups b, runnable_programs = runnable_programs b,
                   enabled_modules = modules g, enabled_contributed = contribModules g,
                   enabled_test_libraries =
                     (if any_enabled g \<and> ENABLE_TESTS i then test_libraries g (modules_with_test_libraries i) else []),
                   runnable_scripts = scripts\<rparr>)))"

section \<open>The effect of one task generator\<close>

text \<open>Every change of the groups replaces or drops the objects with one identity.\<close>

definition amend :: "nat \<Rightarrow> (tgen \<Rightarrow> tgen option) \<Rightarrow> groups \<Rightarrow> groups" where
  "amend i f gs = map (List.map_filter (\<lambda>t. if tg_id t = i then f t else Some t)) gs"

definition keeps_id :: "(tgen \<Rightarrow> tgen option) \<Rightarrow> bool" where
  "keeps_id f \<longleftrightarrow> (\<forall>t u. f t = Some u \<longrightarrow> tg_id u = tg_id t)"

definition distinct_ids :: "groups \<Rightarrow> bool" where
  "distinct_ids gs \<longleftrightarrow> distinct (map tg_id (concat gs))"

lemma subseq_distinct_mono: "subseq xs ys \<Longrightarrow> distinct ys \<Longrightarrow> distinct xs"
  by (auto simp: subseq_conv_nths)

lemma map_filter_bind: "List.map_filter f (List.map_filter g xs) = List.map_filter (\<lambda>x. Option.bind (g x) f) xs"
  by (induction xs) (auto simp: List.map_filter_simps split: option.splits)

lemma map_filter_id: "(\<And>x. x \<in> set xs \<Longrightarrow> f x = Some x) \<Longrightarrow> List.map_filter f xs = xs"
  by (induction xs) (auto simp: List.map_filter_simps)

lemma map_filter_some: "List.map_filter (\<lambda>x. Some (f x)) xs = map f xs"
  by (induction xs) (auto simp: List.map_filter_simps)

lemma amend_amend:
  "keeps_id f \<Longrightarrow> amend i h (amend i f gs) = amend i (\<lambda>t. Option.bind (f t) h) gs"
  by (auto simp: amend_def map_filter_bind keeps_id_def intro!: arg_cong [where f = "\<lambda>k. List.map_filter k _"]
      split: Option.bind_split)

lemma amend_Some [simp]: "amend i Some gs = gs"
  by (simp add: amend_def map_filter_id map_idI)

lemma set_mode_amend: "set_mode i m gs = amend i (\<lambda>t. Some (t\<lparr>tg_mode := Some m\<rparr>)) gs"
  unfolding set_mode_def amend_def by (simp add: if_distrib [of Some, symmetric] map_filter_some)

lemma map_filter_absent:
  "i \<notin> tg_id ` set g \<Longrightarrow> List.map_filter (\<lambda>t. if tg_id t = i then f t else Some t) g = g"
  by (induction g) (auto simp: List.map_filter_simps)

lemma amend_absent: "i \<notin> tg_id ` set (concat gs) \<Longrightarrow> amend i f gs = gs"
  unfolding amend_def by (induction gs) (simp_all add: map_filter_absent image_Un)

lemma remove_tgen_amend:
  "distinct (map tg_id g) \<Longrightarrow> remove_tgen i g = List.map_filter (\<lambda>t. if tg_id t = i then None else Some t) g"
  by (induction g) (auto simp: List.map_filter_simps map_filter_absent)

lemma exclude_taskgen_amend: "distinct_ids gs \<Longrightarrow> exclude_taskgen i gs = amend i (\<lambda>_. None) gs"
proof (induction gs)
  case Nil
  then show ?case by (simp add: amend_def)
next
  case (Cons g gs)
  then have g: "distinct (map tg_id g)" "distinct_ids gs" and "tg_id ` set g \<inter> tg_id ` set (concat gs) = {}"
    by (auto simp: distinct_ids_def)
  then have "i \<in> tg_id ` set g \<Longrightarrow> amend i (\<lambda>_. None) gs = gs"
    by (intro amend_absent) blast
  with Cons.IH [OF g(2)] show ?case
    by (auto simp: amend_def remove_tgen_amend [OF g(1)] map_filter_absent)
qed

lemma distinct_ids_amend:
  assumes "distinct_ids gs" "keeps_id f" shows "distinct_ids (amend i f gs)"
proof -
  have "subseq (map tg_id (List.map_filter (\<lambda>t. if tg_id t = i then f t else Some t) g)) (map tg_id g)" for g
    using assms(2) by (induction g) (auto simp: List.map_filter_simps keeps_id_def split: option.splits)
  then have "subseq (map tg_id (concat (amend i f gs))) (map tg_id (concat gs))"
    by (induction gs) (auto simp: amend_def intro: list_emb_append_mono)
  with assms(1) show ?thesis unfolding distinct_ids_def by (rule subseq_distinct_mono [rotated])
qed

section \<open>What the loop leaves\<close>

text \<open>
  A task generator is kept when all it depends on is enabled; the headers of modules that are not
  enabled are to be removed.
\<close>

definition its_module :: "tgen \<Rightarrow> string" where
  "its_module t = (case tg_module t of None \<Rightarrow> [] | Some m \<Rightarrow> m)"

definition is_header :: "tgen \<Rightarrow> bool" where
  "is_header t \<longleftrightarrow> has_feature ''ns3moduleheader'' t \<or> has_feature ''ns3header'' t \<or> has_feature ''ns3privateheader'' t"

definition is_binding :: "tgen \<Rightarrow> bool" where
  "is_binding t \<longleftrightarrow> contains (tg_name t) ''pybindgen'' \<or> has_feature ''pyext'' t"

definition complete :: "tgen \<Rightarrow> bool" where
  "complete t \<longleftrightarrow> tg_module t \<noteq> None \<or> \<not> (is_header t \<or> is_binding t \<or> has_feature ''ns3pcfile'' t)"

definition depends_on_enabled :: "growing \<Rightarrow> tgen \<Rightarrow> bool" where
  "depends_on_enabled g t = (case ns3_module_dependencies t of None \<Rightarrow> True | Some deps \<Rightarrow> list_all (enabled g) deps)"

definition kept_tgen :: "bool \<Rightarrow> growing \<Rightarrow> tgen \<Rightarrow> bool" where
  "kept_tgen enable_tests g t \<longleftrightarrow>
     depends_on_enabled g t \<and> (\<not> is_ns3_module t \<or> enabled g (tg_name t)) \<and>
     (case test_library_of t of None \<Rightarrow> True | Some m \<Rightarrow> enable_tests \<and> enabled g m) \<and>
     (\<not> has_feature ''ns3pcfile'' t \<or> enabled g (its_module t)) \<and>
     (\<not> is_binding t \<or> enabled g (''ns3-'' @ its_module t))"

definition marked :: "growing \<Rightarrow> tgen \<Rightarrow> tgen" where
  "marked g t = (if is_header t \<and> \<not> enabled g (''ns3-'' @ its_module t) then t\<lparr>tg_mode := Some ''remove''\<rparr> else t)"

definition tgen_outcome :: "bool \<Rightarrow> growing \<Rightarrow> tgen \<Rightarrow> tgen \<Rightarrow> tgen option" where
  "tgen_outcome enable_tests g t u =
     (if kept_tgen enable_tests g t
      then Some (if is_header t \<and> \<not> enabled g (''ns3-'' @ its_module t) then u\<lparr>tg_mode := Some ''remove''\<rparr> else u)
      else None)"

definition new_programs :: "naming \<Rightarrow> growing \<Rightarrow> tgen \<Rightarrow> string list" where
  "new_programs n g t = (if ns3_module_dependencies t \<noteq> None \<and> depends_on_enabled g t then [program_path n t] else [])"

lemma keeps_id_tgen_outcome: "keeps_id (tgen_outcome enable_tests g t)"
  by (auto simp: keeps_id_def tgen_outcome_def)

text \<open>A step changes the groups by a function of the object, and may add to the programs.\<close>

definition does :: "nat \<Rightarrow> bld \<Rightarrow> (tgen \<Rightarrow> tgen option) \<Rightarrow> string list \<Rightarrow> bld \<Rightarrow> bool" where
  "does i b f ps b' \<longleftrightarrow>
     keeps_id f \<and> b' = b\<lparr>groups := amend i f (groups b), runnable_programs := runnable_programs b @ ps\<rparr>"

lemma does_trans:
  "does i b f ps b' \<Longrightarrow> does i b' h qs b'' \<Longrightarrow> does i b (\<lambda>t. Option.bind (f t) h) (ps @ qs) b''"
  by (auto simp: does_def amend_amend keeps_id_def split: bind_splits)

lemma does_nothing: "does i b Some [] b"
  by (simp add: does_def keeps_id_def)

lemma exclude_does: "distinct_ids (groups b) \<Longrightarrow> does (tg_id t) b (\<lambda>_. None) [] (exclude t b)"
  by (simp add: does_def exclude_def exclude_taskgen_amend keeps_id_def)

lemma does_distinct: "does i b f ps b' \<Longrightarrow> distinct_ids (groups b) \<Longrightarrow> distinct_ids (groups b')"
  by (simp add: does_def distinct_ids_amend)

lemma does_ext: "does i b f ps b' \<Longrightarrow> (\<And>u. f u = h u) \<Longrightarrow> ps = qs \<Longrightarrow> does i b h qs b'"
  by (metis ext)

lemma check_header_does:
  assumes "complete t" "is_header t \<or> \<not> has_feature feature t"
  shows "\<exists>b'. check_header g feature t b = Inr b' \<and>
    does (tg_id t) b (\<lambda>u. Some (if has_feature feature t \<and> \<not> enabled g (''ns3-'' @ its_module t)
                                then u\<lparr>tg_mode := Some ''remove''\<rparr> else u)) [] b'"
  using assms
  by (auto simp: check_header_def get_module_def complete_def its_module_def does_def keeps_id_def set_mode_amend
      split: option.splits)

lemma check_program_does:
  "distinct_ids (groups b) \<Longrightarrow>
     does (tg_id t) b (\<lambda>u. if depends_on_enabled g t then Some u else None) (new_programs n g t) (check_program n g t b)"
  using exclude_does [of b t] does_nothing [of "tg_id t" b]
  by (auto simp: check_program_def depends_on_enabled_def new_programs_def find_None_iff find_Some_iff list_all_iff
      does_def keeps_id_def split: option.splits)

lemma check_module_does:
  "distinct_ids (groups b) \<Longrightarrow>
     does (tg_id t) b (\<lambda>u. if \<not> is_ns3_module t \<or> enabled g (tg_name t) then Some u else None) [] (check_module g t b)"
  using exclude_does [of b t] does_nothing [of "tg_id t" b] by (auto simp: check_module_def)

lemma check_test_library_does:
  "distinct_ids (groups b) \<Longrightarrow>
     does (tg_id t) b (\<lambda>u. if (case test_library_of t of None \<Rightarrow> True | Some m \<Rightarrow> tests \<and> enabled g m) then Some u else None) []
       (check_test_library tests g t b)"
  using exclude_does [of b t] does_nothing [of "tg_id t" b] by (auto simp: check_test_library_def split: option.splits)

lemma check_excluded_does:
  assumes "distinct_ids (groups b)" "applies \<Longrightarrow> tg_module t \<noteq> None"
  shows "\<exists>b'. check_excluded g pre applies t b = Inr b' \<and>
    does (tg_id t) b (\<lambda>u. if \<not> applies \<or> enabled g (pre @ its_module t) then Some u else None) [] b'"
  using assms exclude_does [of b t] does_nothing [of "tg_id t" b]
  by (auto simp: check_excluded_def get_module_def its_module_def split: option.splits)

lemma check_tgen_does:
  assumes ids: "distinct_ids (groups b)" and "complete t"
  shows "\<exists>b'. check_tgen n tests g b t = Inr b' \<and> does (tg_id t) b (tgen_outcome tests g t) (new_programs n g t) b'"
proof -
  let ?i = "tg_id t" and ?mark = "\<lambda>f u. Some (if has_feature f t \<and> \<not> enabled g (''ns3-'' @ its_module t)
    then u\<lparr>tg_mode := Some ''remove''\<rparr> else u)"
  have module: "has_feature ''ns3pcfile'' t \<Longrightarrow> tg_module t \<noteq> None" "contains (tg_name t) ''pybindgen'' \<Longrightarrow> tg_module t \<noteq> None"
    "has_feature ''pyext'' t \<Longrightarrow> tg_module t \<noteq> None"
    using \<open>complete t\<close> by (auto simp: complete_def is_binding_def)
  obtain b1 where b1: "check_header g ''ns3moduleheader'' t b = Inr b1" "does ?i b (?mark ''ns3moduleheader'') [] b1"
    using check_header_does [OF \<open>complete t\<close>, of "''ns3moduleheader''" g b] by (auto simp: is_header_def)
  note d1 = does_distinct [OF b1(2) ids]
  note b2 = check_program_does [OF d1, of t g n] note d2 = does_distinct [OF b2 d1]
  note b3 = check_module_does [OF d2, of t g] note d3 = does_distinct [OF b3 d2]
  note b4 = check_test_library_does [OF d3, of t tests g] note d4 = does_distinct [OF b4 d3]
  obtain b5 where b5: "check_header g ''ns3header'' t (check_test_library tests g t (check_module g t (check_program n g t b1))) = Inr b5"
    "does ?i (check_test_library tests g t (check_module g t (check_program n g t b1))) (?mark ''ns3header'') [] b5"
    using check_header_does [OF \<open>complete t\<close>, of "''ns3header''" g] by (auto simp: is_header_def)
  note d5 = does_distinct [OF b5(2) d4]
  obtain b6 where b6: "check_header g ''ns3privateheader'' t b5 = Inr b6" "does ?i b5 (?mark ''ns3privateheader'') [] b6"
    using check_header_does [OF \<open>complete t\<close>, of "''ns3privateheader''" g b5] by (auto simp: is_header_def)
  note d6 = does_distinct [OF b6(2) d5]
  obtain b7 where b7: "check_excluded g [] (has_feature ''ns3pcfile'' t) t b6 = Inr b7"
    "does ?i b6 (\<lambda>u. if \<not> has_feature ''ns3pcfile'' t \<or> enabled g ([] @ its_module t) then Some u else None) [] b7"
    using check_excluded_does [OF d6 module(1), where g = g and pre = "[]"] by blast
  note d7 = does_distinct [OF b7(2) d6]
  obtain b8 where b8: "check_excluded g ''ns3-'' (contains (tg_name t) ''pybindgen'') t b7 = Inr b8"
    "does ?i b7 (\<lambda>u. if \<not> contains (tg_name t) ''pybindgen'' \<or> enabled g (''ns3-'' @ its_module t) then Some u else None) [] b8"
    using check_excluded_does [OF d7 module(2), where g = g and pre = "''ns3-''"] by blast
  note d8 = does_distinct [OF b8(2) d7]
  obtain b9 where b9: "check_excluded g ''ns3-'' (has_feature ''pyext'' t) t b8 = Inr b9"
    "does ?i b8 (\<lambda>u. if \<not> has_feature ''pyext'' t \<or> enabled g (''ns3-'' @ its_module t) then Some u else None) [] b9"
    using check_excluded_does [OF d8 module(3), where g = g and pre = "''ns3-''"] by blast
  have "check_tgen n tests g b t = Inr b9"
    by (simp add: check_tgen_def b1(1) b5(1) b6(1) b7(1) b8(1) b9(1))
  moreover note does_trans [OF does_trans [OF does_trans [OF does_trans [OF does_trans [OF does_trans [OF does_trans
    [OF does_trans [OF b1(2) b2] b3] b4] b5(2)] b6(2)] b7(2)] b8(2)] b9(2)]
  then have "does ?i b (tgen_outcome tests g t) (new_programs n g t) b9"
    by (rule does_ext) (auto simp: tgen_outcome_def kept_tgen_def is_header_def is_binding_def)
  ultimately show ?thesis by blast
qed

lemma check_all_does:
  "list_all complete ts \<Longrightarrow> distinct_ids (groups b) \<Longrightarrow>
     \<exists>b'. for_each (check_tgen n tests g) b ts = Inr b' \<and>
       groups b' = fold (\<lambda>t. amend (tg_id t) (tgen_outcome tests g t)) ts (groups b) \<and>
       runnable_programs b' = runnable_programs b @ concat (map (new_programs n g) ts)"
proof (induction ts arbitrary: b)
  case Nil
  then show ?case by simp
next
  case (Cons t ts)
  from Cons.prems check_tgen_does [of b t n tests g] obtain b1 where b1: "check_tgen n tests g b t = Inr b1"
    "does (tg_id t) b (tgen_outcome tests g t) (new_programs n g t) b1" by auto
  from Cons.prems Cons.IH [OF _ does_distinct [OF b1(2)]] b1 show ?case
    by (auto simp: does_def)
qed

definition by_id :: "tgen list \<Rightarrow> (tgen \<Rightarrow> tgen \<Rightarrow> tgen option) \<Rightarrow> tgen \<Rightarrow> tgen option" where
  "by_id ts f u = (case find (\<lambda>t. tg_id t = tg_id u) ts of None \<Rightarrow> Some u | Some t \<Rightarrow> f t u)"

lemma fold_amend:
  assumes "\<And>t. keeps_id (f t)"
  shows "distinct (map tg_id ts) \<Longrightarrow> fold (\<lambda>t. amend (tg_id t) (f t)) ts gs = map (List.map_filter (by_id ts f)) gs"
proof (induction ts arbitrary: gs)
  case Nil
  then show ?case by (simp add: by_id_def map_filter_some [where f = "\<lambda>x. x", simplified] map_idI)
next
  case (Cons t ts)
  have absent: "find (\<lambda>s. tg_id s = tg_id t) ts = None"
    using Cons.prems by (auto simp: find_None_iff image_iff)
  have "by_id (t # ts) f u = Option.bind (if tg_id u = tg_id t then f t u else Some u) (by_id ts f)" for u
  proof (cases "tg_id u = tg_id t")
    case True
    then show ?thesis
      using assms [of t] absent by (cases "f t u") (auto simp: by_id_def keeps_id_def)
  qed (auto simp: by_id_def)
  then have "by_id (t # ts) f = (\<lambda>u. Option.bind (if tg_id u = tg_id t then f t u else Some u) (by_id ts f))" ..
  with Cons show ?case by (simp add: amend_def map_filter_bind)
qed

lemma by_id_same:
  "distinct (map tg_id ts) \<Longrightarrow> u \<in> set ts \<Longrightarrow> by_id ts f u = f u u"
proof -
  assume distinct: "distinct (map tg_id ts)" and u: "u \<in> set ts"
  then obtain t where t: "find (\<lambda>t. tg_id t = tg_id u) ts = Some t"
    by (cases "find (\<lambda>t. tg_id t = tg_id u) ts") (auto simp: find_None_iff)
  then have "t \<in> set ts" "tg_id t = tg_id u" by (auto simp: find_Some_iff)
  with distinct u have "t = u" by (auto simp: distinct_map inj_on_def)
  with t show ?thesis by (simp add: by_id_def)
qed

lemma map_filter_cong: "(\<And>x. x \<in> set xs \<Longrightarrow> f x = h x) \<Longrightarrow> List.map_filter f xs = List.map_filter h xs"
  by (induction xs) (auto simp: List.map_filter_simps split: option.splits)

lemma map_filter_outcome:
  "List.map_filter (\<lambda>u. tgen_outcome tests g u u) ts = map (marked g) (filter (kept_tgen tests g) ts)"
  by (induction ts) (auto simp: List.map_filter_simps tgen_outcome_def marked_def)

definition proper_groups :: "groups \<Rightarrow> bool" where
  "proper_groups gs \<longleftrightarrow> distinct_ids gs \<and> list_all complete (concat gs)"

lemma exclude_disabled_run:
  assumes "proper_groups (groups b)"
  shows "exclude_disabled n tests g b = Inr (b\<lparr>groups := map (\<lambda>ts. map (marked g) (filter (kept_tgen tests g) ts)) (groups b),
    runnable_programs := runnable_programs b @
      map (program_path n) (filter (\<lambda>t. ns3_module_dependencies t \<noteq> None \<and> depends_on_enabled g t) (concat (groups b)))\<rparr>)"
proof -
  let ?ts = "concat (groups b)"
  from assms check_all_does [of ?ts b n tests g] obtain b'
    where b': "for_each (check_tgen n tests g) b ?ts = Inr b'"
      "groups b' = fold (\<lambda>t. amend (tg_id t) (tgen_outcome tests g t)) ?ts (groups b)"
      "runnable_programs b' = runnable_programs b @ concat (map (new_programs n g) ?ts)"
    by (auto simp: proper_groups_def)
  have ids: "distinct (map tg_id ?ts)" using assms by (simp add: proper_groups_def distinct_ids_def)
  have "groups b' = map (List.map_filter (by_id ?ts (tgen_outcome tests g))) (groups b)"
    unfolding b'(2) by (rule fold_amend [OF keeps_id_tgen_outcome ids])
  also have "\<dots> = map (List.map_filter (\<lambda>u. tgen_outcome tests g u u)) (groups b)"
    by (auto intro!: map_filter_cong by_id_same [OF ids])
  finally have "groups b' = map (\<lambda>ts. map (marked g) (filter (kept_tgen tests g) ts)) (groups b)"
    by (simp add: map_filter_outcome)
  moreover have "concat (map (new_programs n g) ts) =
      map (program_path n) (filter (\<lambda>t. ns3_module_dependencies t \<noteq> None \<and> depends_on_enabled g t) ts)" for ts
    by (induction ts) (auto simp: new_programs_def)
  ultimately show ?thesis
    using b'(1,3) by (cases b') (auto simp: exclude_disabled_def all_task_gen_def)
qed

section \<open>The result of the build\<close>

lemma raised_eq_Inr [res_simps]: "raised r = Inr x \<longleftrightarrow> r = Inr x"
  by (auto simp: raised_def split: sum.splits)

lemma add_scripts:
  "for_each (add_script (Some g)) acc ss = Inr (acc @ map fst (filter (\<lambda>s. list_all (enabled g) (snd s)) ss))"
  by (induction ss arbitrary: acc) (auto simp: add_script_def)

text \<open>The result when the modules are resolved: nothing fails any more.\<close>

definition after_build :: "naming \<Rightarrow> build_input \<Rightarrow> growing \<Rightarrow> build_result" where
  "after_build n i g =
     (let gs = all_groups n i g
      in \<lparr>groups = map (\<lambda>ts. map (marked g) (filter (kept_tgen (ENABLE_TESTS i) g) ts)) gs,
          runnable_programs =
            map (program_path n) (filter (\<lambda>t. ns3_module_dependencies t \<noteq> None \<and> depends_on_enabled g t) (concat gs)),
          enabled_modules = modules g, enabled_contributed = contribModules g,
          enabled_test_libraries = (if ENABLE_TESTS i then test_libraries g (modules_with_test_libraries i) else []),
          runnable_scripts = map fst (filter (\<lambda>s. list_all (enabled g) (snd s)) (script_dependencies i))\<rparr>)"

lemma any_enabled_members: "any_enabled g \<longleftrightarrow> members g \<noteq> {}"
  by (auto simp: any_enabled_def members_def)

lemma resolve_keeps_enabled:
  assumes "resolve_modules tgen c = Inr g" "any_enabled (initially_enabled c)"
  shows "any_enabled g" "members (initially_enabled c) \<subseteq> members g"
  using enable_dependencies_Inr [OF assms(1) [unfolded resolve_modules_def]] assms(2)
  by (auto simp: any_enabled_members intro: needed.chosen)

lemma build_ns3_run:
  assumes "resolve_modules (uses i) (configured i) = Inr g" "any_enabled (initially_enabled (configured i))"
    and "proper_groups (all_groups n i g)"
  shows "build_ns3 n i = Inr (after_build n i g)"
  using assms resolve_keeps_enabled [OF assms(1,2)] exclude_disabled_run [of "\<lparr>groups = all_groups n i g, runnable_programs = []\<rparr>"]
  by (simp add: build_ns3_def raised_def add_scripts after_build_def Let_def)

text \<open>
  C9. With an enabled module the build either stops because a module cannot be resolved, or
  leaves exactly the task generators whose modules are enabled, with the header generators of the
  others set to remove, and lists the programs and scripts that can run.
\<close>

theorem build_excludes:
  assumes "any_enabled (initially_enabled (configured i))"
    and "\<And>g. resolve_modules (uses i) (configured i) = Inr g \<Longrightarrow> proper_groups (all_groups n i g)"
  shows "build_ns3 n i = and_then (resolve_modules (uses i) (configured i)) (\<lambda>g. Inr (after_build n i g))"
proof (cases "resolve_modules (uses i) (configured i)")
  case (Inl e)
  with assms(1) show ?thesis by (simp add: build_ns3_def)
next
  case (Inr g)
  with build_ns3_run [OF Inr assms(1)] assms(2) show ?thesis by simp
qed

text \<open>C25. Everything a kept program needs, through any number of modules, is enabled.\<close>

theorem built_programs_complete:
  assumes "resolve_modules (uses i) (configured i) = Inr g" "any_enabled (initially_enabled (configured i))"
    and "proper_groups (all_groups n i g)" and "build_ns3 n i = Inr r"
    and "t \<in> set (concat (groups r))" "ns3_module_dependencies t = Some deps" "needed (uses i) (set deps) m"
  shows "m \<in> set (enabled_modules r) \<union> set (enabled_contributed r)"
proof -
  from build_ns3_run [OF assms(1-3)] assms(4) have r: "r = after_build n i g" by simp
  with assms(5) obtain u where u: "kept_tgen (ENABLE_TESTS i) g u" "t = marked g u"
    by (auto simp: after_build_def Let_def)
  then have "ns3_module_dependencies u = Some deps" using assms(6) by (auto simp: marked_def split: if_splits)
  with u have deps: "set deps \<subseteq> members g"
    by (auto simp: kept_tgen_def depends_on_enabled_def list_all_iff enabled_def members_def)
  have "needed (uses i) (members (initially_enabled (configured i))) m"
    using needed_mono [OF assms(7) deps] enable_dependencies_Inr [OF assms(1) [unfolded resolve_modules_def]]
    by (metis needed_idem)
  then show ?thesis
    using enable_dependencies_Inr [OF assms(1) [unfolded resolve_modules_def]] r
    by (auto simp: after_build_def Let_def members_def)
qed

text \<open>The names the configuration lists hold all have the prefix.\<close>

lemma configured_prefix:
  assumes "configure_modules (module_libraries src) (module_libraries contrib) enable_modules names not_built static plat = Inr c"
  shows "members (initially_enabled c) \<subseteq> {m. startswith m ''ns3-''}"
proof -
  let ?k = "module_libraries src" and ?c = "module_libraries contrib"
  from assms obtain c0 where c0: "set_enabled_modules ?k ?c enable_modules names = Inr c0"
    and run: "for_each remove_not_built c0 (modules_not_built static plat not_built) = Inr c"
    by (auto simp: configure_modules_def res_simps)
  have libs: "set (module_libraries ms) \<subseteq> {m. startswith m ''ns3-''}" for ms
    by (auto simp: module_libraries_def module_library_def)
  have "set (lists c0 (enabled_ref c0)) \<union> set (lists c0 (enabled_contrib_ref c0)) \<subseteq> {m. startswith m ''ns3-''}"
    using c0 choose_modules_known [of ?k ?c] libs [of src] libs [of contrib]
    by (fastforce simp: set_enabled_modules_def use_chosen_def use_all_def module_lists_def res_simps split: if_splits)
  with remove_all_refs [OF run, of "enabled_ref c0"] remove_all_refs [OF run, of "enabled_contrib_ref c0"]
  show ?thesis by (auto simp: initially_enabled_def members_def configuration_lists)
qed

lemma needed_prefix: "needed tgen S m \<Longrightarrow> S \<subseteq> {m. startswith m ''ns3-''} \<Longrightarrow> startswith m ''ns3-''"
  by (induction rule: needed.induct) (auto simp: asks_def split: sum.splits option.splits)

lemma scratch_programs_props:
  "t \<in> set (scratch_programs n all_modules i es) \<Longrightarrow>
     ns3_module_dependencies t = Some (map ((@) ''ns3-'') all_modules) \<and> tg_target t = tg_name t \<and>
     tg_features t = ''cxx cxxprogram'' \<and> tg_module t = None \<and> \<not> is_ns3_module t \<and> test_library_of t = None"
  by (induction es arbitrary: i)
     (auto simp: scratch_program_def scratch_target_def create_ns3_program_def split: option.splits if_splits)

lemma prefix_restored: "startswith m ''ns3-'' \<Longrightarrow> ''ns3-'' @ drop 4 m = m"
  by (auto simp: startswith_prefix prefix_def)

text \<open>
  A scratch program depends on all enabled modules and so is always built; but the path listed
  for it has the name a program of the tree would have, and not the one it is built under.
\<close>

theorem scratch_always_built:
  assumes conf: "configure_modules (module_libraries src) (module_libraries contrib) enable_modules names not_built static plat
      = Inr (configured i)"
    and run: "resolve_modules (uses i) (configured i) = Inr g" "any_enabled (initially_enabled (configured i))"
    and proper: "proper_groups (all_groups n i g)" "current_group i < length (created i)"
    and t: "t \<in> set (add_scratch_programs n g (next_id i) (scratch_dir i))"
  shows "\<exists>r. build_ns3 n i = Inr r \<and> t \<in> set (concat (groups r)) \<and> program_path n t \<in> set (runnable_programs r) \<and>
    target_name n (tg_name t) \<noteq> tg_target t"
proof -
  have member: "t \<in> set (concat (all_groups n i g))"
    using t proper(2) by (auto simp: all_groups_def add_to_group_def set_update_memI intro!: bexI [OF _ set_update_memI])
  have props: "ns3_module_dependencies t = Some (map ((@) ''ns3-'') (map (drop 4) (modules g @ contribModules g)))"
    "tg_target t = tg_name t" "tg_features t = ''cxx cxxprogram''" "tg_module t = None" "\<not> is_ns3_module t" "test_library_of t = None"
    using t scratch_programs_props by (fastforce simp: add_scratch_programs_def split: option.splits)+
  have "startswith m ''ns3-''" if "m \<in> members g" for m
    using that configured_prefix [OF conf] enable_dependencies_Inr [OF run(1) [unfolded resolve_modules_def]]
    by (auto intro: needed_prefix)
  then have "map ((@) ''ns3-'') (map (drop 4) (modules g @ contribModules g)) = modules g @ contribModules g"
    by (auto simp: members_def intro!: map_idI prefix_restored [simplified] simp flip: map_append)
  with props(1) have deps: "depends_on_enabled g t" by (auto simp: depends_on_enabled_def list_all_iff enabled_def)
  have "complete t" using proper(1) member by (auto simp: proper_groups_def list_all_iff)
  then have "\<not> is_binding t" "\<not> is_header t" "\<not> has_feature ''ns3pcfile'' t"
    using props(4) by (auto simp: complete_def)
  with deps props have "kept_tgen (ENABLE_TESTS i) g t" "marked g t = t" by (simp_all add: kept_tgen_def marked_def)
  with member have "t \<in> set (concat (groups (after_build n i g)))"
    by (force simp: after_build_def Let_def image_iff)
  moreover from member deps props(1) have "program_path n t \<in> set (runnable_programs (after_build n i g))"
    by (auto simp: after_build_def Let_def)
  moreover have "length (target_name n (tg_name t)) \<noteq> length (tg_target t)" by (simp add: target_name_def props(2))
  then have "target_name n (tg_name t) \<noteq> tg_target t" by metis
  ultimately show ?thesis using build_ns3_run [OF run proper(1)] by blast
qed

text \<open>
  A list of modules none of which exists is not rejected when it is configured; the build then
  fails on a variable it has not set, as soon as a script depends on some module.
\<close>

lemma choose_unknown:
  "list_all (\<lambda>m. m \<notin> set known \<union> set contributed \<and> ''ns3-'' @ m \<notin> set known \<union> set contributed) ms \<Longrightarrow>
     choose_modules known contributed ms = \<lparr>src_part = [], contrib_part = []\<rparr>"
  unfolding choose_modules_def by (induction ms rule: rev_induct) (auto simp: choose_module_def)

lemma remove_not_built_nothing:
  "\<not> any_enabled (initially_enabled c) \<Longrightarrow> for_each remove_not_built c nbs = Inr c"
  by (induction nbs) (auto simp: any_enabled_def initially_enabled_def remove_not_built_def)

lemma scripts_unbound:
  "list_ex (\<lambda>s. snd s \<noteq> []) ss \<Longrightarrow> for_each (add_script None) acc ss = Inl UnboundLocalError"
  by (induction ss arbitrary: acc) (auto simp: add_script_def)

theorem unknown_modules_unbound:
  assumes "configure_modules known contributed enable_modules names not_built static plat = Inr (configured i)"
    and "enable_modules \<noteq> []"
    and "list_all (\<lambda>m. m \<notin> set known \<union> set contributed \<and> ''ns3-'' @ m \<notin> set known \<union> set contributed)
           (split_on (CHR '','') enable_modules)"
    and "list_ex (\<lambda>s. snd s \<noteq> []) (script_dependencies i)"
  shows "build_ns3 n i = Inl (Raised UnboundLocalError)"
proof -
  let ?c = "use_chosen known contributed (split_on (CHR '','') enable_modules)"
  have empty: "\<not> any_enabled (initially_enabled ?c)"
    using choose_unknown [OF assms(3)]
    by (simp add: any_enabled_def initially_enabled_def use_chosen_def configuration_lists module_lists_def)
  from assms(1,2) have "configured i = ?c"
    by (simp add: configure_modules_def set_enabled_modules_def remove_not_built_nothing [OF empty])
  with empty show ?thesis
    by (simp add: build_ns3_def scripts_unbound [OF assms(4)] raised_def)
qed

section \<open>Witnesses\<close>

definition sample_naming :: naming where
  "sample_naming = \<lparr>appname = ''ns'', version = ''3.34'', build_suffix = ''-debug'', launch_dir = ''/ns3'', work_dir = ''/ns3'',
     src_top = ''/ns3'', bld_top = ''/ns3/build''\<rparr>"

definition plain_tgen :: "nat \<Rightarrow> string \<Rightarrow> string \<Rightarrow> tgen" where
  "plain_tgen i name features =
     \<lparr>tg_id = i, tg_name = name, tg_features = features, tg_module = None, ns3_module_dependencies = None,
      is_ns3_module = False, is_ns3_program = False, test_library_of = None, tg_mode = None, tg_path = ''/ns3/src'', tg_bld_path = ''/ns3/build/src'', tg_target = name\<rparr>"

definition sample_groups :: groups where
  "sample_groups =
     [[(plain_tgen 0 ''ns3-core'' ''cxx cxxshlib ns3module'')\<lparr>is_ns3_module := True\<rparr>,
       (plain_tgen 1 ''ns3-internet'' ''cxx cxxshlib ns3module'')\<lparr>is_ns3_module := True\<rparr>,
       (plain_tgen 2 '''' ''ns3pcfile'')\<lparr>tg_module := Some ''ns3-internet''\<rparr>,
       (plain_tgen 3 '''' ''ns3header'')\<lparr>tg_module := Some ''internet''\<rparr>,
       (plain_tgen 4 ''ns3-core-test'' ''cxx cxxshlib ns3module ns3testlib'')\<lparr>test_library_of := Some ''ns3-core''\<rparr>,
       create_ns3_program sample_naming 5 ''src/internet'' ''ping'' [''internet''],
       create_ns3_program sample_naming 6 ''src/network'' ''sockets'' [''network'']]]"

definition sample_input :: "configuration \<Rightarrow> build_input" where
  "sample_input c =
     \<lparr>configured = c, uses = sample_uses, ENABLE_TESTS = False, ENABLE_EXAMPLES = False,
      modules_with_test_libraries = [(''ns3-core'', ''ns3-core-test'')],
      script_dependencies = [(''first.py'', [''ns3-core'']), (''ping.py'', [''ns3-internet''])],
      created = sample_groups, current_group = 0, example_programs = [],
      scratch_dir = Some [(''mine.cc'', PlainFile), (''subdir'', Directory [(''main.cc'', PlainFile)])], next_id = 7\<rparr>"

abbreviation sample_growing :: growing where
  "sample_growing \<equiv> \<lparr>modules = [''ns3-core'', ''ns3-network''], contribModules = [], changed = False\<rparr>"

lemma sample_enabled: "any_enabled (initially_enabled sample_without_internet)"
  by code_simp

lemma sample_input_simps [simp]:
  "configured (sample_input c) = c" "uses (sample_input c) = sample_uses" "created (sample_input c) = sample_groups"
  "current_group (sample_input c) = 0"
  "script_dependencies (sample_input c) = [(''first.py'', [''ns3-core'']), (''ping.py'', [''ns3-internet''])]"
  by (simp_all add: sample_input_def)

lemma sample_proper: "proper_groups (all_groups sample_naming (sample_input c) sample_growing)"
proof -
  have "all_groups sample_naming (sample_input c) sample_growing =
      all_groups sample_naming (sample_input sample_without_internet) sample_growing"
    by (simp add: all_groups_def sample_input_def)
  moreover have "proper_groups (all_groups sample_naming (sample_input sample_without_internet) sample_growing)"
    by code_simp
  ultimately show ?thesis by simp
qed

theorem build_excludes_witness:
  "build_ns3 sample_naming (sample_input sample_without_internet) =
     Inr (after_build sample_naming (sample_input sample_without_internet) sample_growing)"
  using build_excludes [of "sample_input sample_without_internet" sample_naming] sample_enabled sample_proper
  by (simp add: sample_all_resolved)

lemma sample_built:
  "build_ns3 sample_naming (sample_input sample_without_internet) =
     Inr (after_build sample_naming (sample_input sample_without_internet) sample_growing)"
  by (rule build_ns3_run) (simp_all add: sample_all_resolved sample_enabled sample_proper)

lemma sample_after_build:
  "map (map tg_id) (groups (after_build sample_naming (sample_input sample_without_internet) sample_growing)) = [[0, 3, 6, 7, 8]]"
  "runnable_scripts (after_build sample_naming (sample_input sample_without_internet) sample_growing) = [''first.py'']"
  "runnable_programs (after_build sample_naming (sample_input sample_without_internet) sample_growing) =
     [''build/src/network/ns3.34-sockets-debug'', ''build/scratch/ns3.34-mine-debug'',
      ''build/scratch/subdir/ns3.34-subdir-debug'']"
  by code_simp+

theorem built_programs_complete_witness:
  "''ns3-core'' \<in> set (enabled_modules (after_build sample_naming (sample_input sample_without_internet) sample_growing))"
proof -
  let ?t = "create_ns3_program sample_naming 6 ''src/network'' ''sockets'' [''network'']"
  have t: "?t \<in> set (concat (groups (after_build sample_naming (sample_input sample_without_internet) sample_growing)))"
    by code_simp
  have "needed sample_uses {''ns3-network''} ''ns3-core''"
    by (rule depended [OF chosen, where m = "''ns3-network''"]) (simp_all add: asks_def sample_uses_def)
  then have "''ns3-core'' \<in> set (enabled_modules (after_build sample_naming (sample_input sample_without_internet) sample_growing))
      \<union> set (enabled_contributed (after_build sample_naming (sample_input sample_without_internet) sample_growing))"
    by (intro built_programs_complete [OF _ _ _ sample_built t, where g = sample_growing and deps = "[''ns3-network'']"])
       (simp_all add: sample_all_resolved sample_enabled sample_proper create_ns3_program_def)
  moreover have "enabled_contributed (after_build sample_naming (sample_input sample_without_internet) sample_growing) = []"
    by (simp add: after_build_def Let_def)
  ultimately show ?thesis by simp
qed

lemma sample_libraries: "module_libraries [''core'', ''internet'', ''network''] = sample_known" "module_libraries [] = []"
  by code_simp+

theorem scratch_always_built_witness:
  "\<exists>t r. build_ns3 sample_naming (sample_input sample_without_internet) = Inr r \<and> t \<in> set (concat (groups r)) \<and>
     target_name sample_naming (tg_name t) \<noteq> tg_target t"
proof -
  have conf: "configure_modules (module_libraries [''core'', ''internet'', ''network'']) (module_libraries [])
      [] [''all_modules''] [''internet''] False ''linux'' = Inr (configured (sample_input sample_without_internet))"
    unfolding sample_libraries using sample_all_configured by simp
  have t: "scratch_target sample_naming 7 ''scratch'' ''mine'' [''core'', ''network'']
      \<in> set (add_scratch_programs sample_naming sample_growing
          (next_id (sample_input sample_without_internet)) (scratch_dir (sample_input sample_without_internet)))"
    by code_simp
  have "current_group (sample_input sample_without_internet) < length (created (sample_input sample_without_internet))"
    by (simp add: sample_groups_def)
  then show ?thesis
    using scratch_always_built [OF conf _ _ sample_proper _ t] by (auto simp: sample_all_resolved sample_enabled)
qed

theorem unknown_modules_unbound_witness:
  "build_ns3 sample_naming (sample_input (use_chosen sample_known [] [''wimax''])) = Inl (Raised UnboundLocalError)"
proof (rule unknown_modules_unbound)
  show "configure_modules sample_known [] ''wimax'' [] [] False ''linux'' =
      Inr (configured (sample_input (use_chosen sample_known [] [''wimax''])))"
    by (simp add: configure_modules_def set_enabled_modules_def modules_not_built_def)
qed (simp_all add: sample_known_def)

end
