(* ===== verification/WafRun.thy ===== *)
theory WafRun
  imports WafBuild Shellcmd RadSeq
begin

text \<open>
  wutils.py: finding a program among the task generators, the environment and the command line it
  runs with, under gdb, valgrind or a command template, and what the status of the process means.
  The processes, the environment and the waf options are parameters.
\<close>

section \<open>Finding a program\<close>

datatype run_error =
    Conflicting string string
  | NoValgrind
  | TerminatedBy "string list" string
  | ExitedWith "string list" int
  | ProgramNotFound string "string list"
  | Exception py_error

definition program_names :: "naming \<Rightarrow> tgen \<Rightarrow> string list" where
  "program_names n t =
     [tg_name t,
      path_join (relpath (work_dir n) (tg_path t) (abspath (work_dir n) (launch_dir n))) (tg_name t)]"

definition below_launch_dir :: "naming \<Rightarrow> tgen \<Rightarrow> bool" where
  "below_launch_dir n t =
     (startswith (tg_path t) (abspath (work_dir n) (launch_dir n))
      \<or> startswith (tg_bld_path t) (abspath (work_dir n) (launch_dir n)))"

fun find_program_in :: "naming \<Rightarrow> string \<Rightarrow> tgen list \<Rightarrow> string list \<Rightarrow> run_error + tgen" where
  "find_program_in n name [] found = Inl (ProgramNotFound name found)"
| "find_program_in n name (t # ts) found =
     (if \<not> is_ns3_program t then find_program_in n name ts found
      else if \<not> below_launch_dir n t then find_program_in n name ts found
      else if name \<in> set (program_names n t) then Inr t
      else find_program_in n name ts (found @ program_names n t))"

definition find_program :: "naming \<Rightarrow> groups \<Rightarrow> string \<Rightarrow> run_error + tgen" where
  "find_program n gs name = find_program_in n name (all_task_gen gs) []"

section \<open>The environment\<close>

record machine =
  environ :: "(string, string) dict"
  platform :: string
  NS3_MODULE_PATH :: "string list"
  NS3_EXECUTABLE_PATH :: "string list"
  pymoddir :: string
  pyvizdir :: string
  VALGRIND :: "string list"
  PYTHON :: "string list"
  spawn :: "string list \<Rightarrow> (string, string) dict \<Rightarrow> string option \<Rightarrow> (int \<times> string) res"
  signals :: "(string \<times> int) list"

definition pathsep :: "machine \<Rightarrow> string" where
  "pathsep m = (if platform m = ''win32'' then '';'' else '':'')"

definition path_variable :: "string \<Rightarrow> string" where
  "path_variable p =
     (if p = ''linux2'' \<or> p = ''linux'' then ''LD_LIBRARY_PATH''
      else if p = ''darwin'' then ''DYLD_LIBRARY_PATH''
      else if p = ''win32'' then ''PATH''
      else if p = ''cygwin'' then ''PATH''
      else ''LD_LIBRARY_PATH'')"

definition prepend_path ::
  "string \<Rightarrow> string \<Rightarrow> string list \<Rightarrow> (string, string) dict \<Rightarrow> (string, string) dict" where
  "prepend_path sep var paths env =
     AList.update var
       (case map_of env var of None \<Rightarrow> join sep paths | Some old \<Rightarrow> join sep (paths @ [old])) env"

definition dict_update :: "('k, 'v) dict \<Rightarrow> ('k, 'v) dict \<Rightarrow> ('k, 'v) dict" where
  "dict_update d new = foldl (\<lambda>d kv. AList.update (fst kv) (snd kv) d) d new"

definition get_proc_env :: "machine \<Rightarrow> (string, string) dict option \<Rightarrow> (string, string) dict" where
  "get_proc_env m os_env =
     (let env = (case os_env of None \<Rightarrow> environ m | Some new \<Rightarrow> dict_update (environ m) new);
          env = prepend_path (pathsep m) (path_variable (platform m)) (NS3_MODULE_PATH m) env;
          env = prepend_path (pathsep m) ''PYTHONPATH'' [pymoddir m, pyvizdir m] env
      in prepend_path (pathsep m) ''PATH'' (NS3_EXECUTABLE_PATH m) env)"

section \<open>Running a command\<close>

record waf_options =
  valgrind_option :: bool
  gdb_option :: bool
  command_template :: "string option"
  cwd_option :: string
  launch_cwd :: string

definition has_template :: "waf_options \<Rightarrow> bool" where
  "has_template opts = (case command_template opts of None \<Rightarrow> False | Some t \<Rightarrow> t \<noteq> [])"

record run_report =
  launched :: "(string list \<times> (string, string) dict \<times> string option) list"
  echoed :: string
  run_outcome :: "run_error + int"

definition find_signal :: "machine \<Rightarrow> int \<Rightarrow> string option" where
  "find_signal m retval =
     map_option fst (find (\<lambda>(name, val). length name > 3 \<and> take 3 name = ''SIG'' \<and> name ! 3 \<noteq> CHR ''_'' \<and> val = - retval)
       (signals m))"

definition check_status :: "machine \<Rightarrow> string list \<Rightarrow> int \<Rightarrow> run_error + int" where
  "check_status m argv retval =
     (if retval \<noteq> 0 then
        (case (if retval < 0 then find_signal m retval else None) of
           Some signame \<Rightarrow> Inl (TerminatedBy argv signame)
         | None \<Rightarrow> Inl (ExitedWith argv retval))
      else Inr retval)"

text \<open>
  The loop over what valgrind wrote goes through a string, so that a line of it is a character.
\<close>

definition leak_line :: "string \<times> bool \<Rightarrow> char \<Rightarrow> string \<times> bool" where
  "leak_line acc c =
     (fst acc @ [c], if contains [c] ''== LEAK SUMMARY'' then True else snd acc)"

definition echo_stderr :: "string \<Rightarrow> string \<times> bool" where
  "echo_stderr stderrdata = foldl leak_line ([], False) stderrdata"

definition failed :: "run_error \<Rightarrow> run_report" where
  "failed e = \<lparr>launched = [], echoed = [], run_outcome = Inl e\<rparr>"

definition run_argv ::
  "machine \<Rightarrow> waf_options \<Rightarrow> string list \<Rightarrow> (string, string) dict option \<Rightarrow> string option \<Rightarrow> bool \<Rightarrow> run_report" where
  "run_argv m opts argv os_env cwd force_no_valgrind =
     (let proc_env = get_proc_env m os_env
      in if valgrind_option opts \<and> has_template opts then failed (Conflicting ''--command-template'' ''--valgrind'')
         else if gdb_option opts \<and> has_template opts then failed (Conflicting ''--command-template'' ''--gdb'')
         else if gdb_option opts \<and> valgrind_option opts then failed (Conflicting ''--valgrind'' ''--gdb'')
         else if gdb_option opts then
           (let argv = [''gdb'', ''--args''] @ argv
            in \<lparr>launched = [(argv, proc_env, cwd)], echoed = [],
                run_outcome = (case spawn m argv proc_env cwd of Inl e \<Rightarrow> Inl (Exception e) | Inr (retval, _) \<Rightarrow> Inr retval)\<rparr>)
         else if valgrind_option opts \<and> \<not> force_no_valgrind then
           (if VALGRIND m = [] then failed NoValgrind
            else
              (let argv = [hd (VALGRIND m), ''--leak-check=full'', ''--show-reachable=yes'', ''--error-exitcode=1''] @ argv
               in case spawn m argv proc_env cwd of
                    Inl e \<Rightarrow> \<lparr>launched = [(argv, proc_env, cwd)], echoed = [], run_outcome = Inl (Exception e)\<rparr>
                  | Inr (retval, stderrdata) \<Rightarrow>
                      (let (written, error) = echo_stderr stderrdata;
                           retval = (if retval = 0 \<and> error then 1 else retval)
                       in \<lparr>launched = [(argv, proc_env, cwd)], echoed = written, run_outcome = check_status m argv retval\<rparr>)))
         else
           \<lparr>launched = [(argv, proc_env, cwd)], echoed = [],
            run_outcome = (case spawn m argv proc_env cwd of
                         Inl e \<Rightarrow> Inl (Exception e) | Inr (retval, _) \<Rightarrow> check_status m argv retval)\<rparr>)"

section \<open>Running a program\<close>

definition get_command_template :: "waf_options \<Rightarrow> string list \<Rightarrow> string" where
  "get_command_template opts arguments =
     foldl (\<lambda>cmd arg. cmd @ '' '' @ arg)
       (case command_template opts of None \<Rightarrow> ''%s'' | Some t \<Rightarrow> if t = [] then ''%s'' else t) arguments"

text \<open>\<open>template % (arg,)\<close> for the conversions \<open>%s\<close> and \<open>%%\<close>.\<close>

fun percent_format :: "string \<Rightarrow> string option \<Rightarrow> string res" where
  "percent_format [] (Some _) = Inl TypeError"
| "percent_format [] None = Inr []"
| "percent_format [c] a =
     (if c = CHR ''%'' then Inl ValueError else and_then (percent_format [] a) (\<lambda>r. Inr (c # r)))"
| "percent_format (c # d # cs) a =
     (if c \<noteq> CHR ''%'' then and_then (percent_format (d # cs) a) (\<lambda>r. Inr (c # r))
      else if d = CHR ''%'' then and_then (percent_format cs a) (\<lambda>r. Inr (CHR ''%'' # r))
      else if d = CHR ''s'' then
        (case a of None \<Rightarrow> Inl TypeError | Some x \<Rightarrow> and_then (percent_format cs None) (\<lambda>r. Inr (x @ r)))
      else Inl ValueError)"

definition strip_cc :: "string \<Rightarrow> string" where
  "strip_cc name =
     (if endswith name ''.cc'' then rev (tl (dropWhile (\<lambda>c. c \<noteq> CHR ''.'') (rev name))) else name)"

definition double_backslashes :: "string \<Rightarrow> string" where
  "double_backslashes s = concat (map (\<lambda>c. if c = CHR 0x5C then [c, c] else [c]) s)"

definition lift_res :: "'a res \<Rightarrow> run_error + 'a" where
  "lift_res r = (case r of Inl e \<Rightarrow> Inl (Exception e) | Inr x \<Rightarrow> Inr x)"

definition get_run_program ::
  "naming \<Rightarrow> (tgen \<Rightarrow> string) \<Rightarrow> groups \<Rightarrow> string \<Rightarrow> string option \<Rightarrow> run_error + string \<times> string list" where
  "get_run_program n node_path gs program_string template =
     (if template = None \<or> template = Some ''%s'' then
        and_then (lift_res (shlex_split program_string)) (\<lambda>argv.
        and_then (lift_res (py_nth argv 0)) (\<lambda>first.
        and_then (find_program n gs (strip_cc first)) (\<lambda>t.
          Inr (strip_cc first, node_path t # slice_from argv 1))))
      else
        and_then (find_program n gs (strip_cc program_string)) (\<lambda>t.
        and_then (lift_res (percent_format (the template) (Some (node_path t)))) (\<lambda>tmpl.
        and_then (lift_res (shlex_split (double_backslashes tmpl))) (\<lambda>execvec.
          Inr (strip_cc program_string, execvec)))))"

definition launch_directory :: "waf_options \<Rightarrow> string option \<Rightarrow> string option" where
  "launch_directory opts cwd =
     (case cwd of
        Some d \<Rightarrow> Some d
      | None \<Rightarrow> Some (if cwd_option opts \<noteq> [] then cwd_option opts else launch_cwd opts))"

definition with_visualizer :: "bool \<Rightarrow> string list \<Rightarrow> string list" where
  "with_visualizer visualize execvec =
     (if visualize then execvec @ [''--SimulatorImplementationType=ns3::VisualSimulatorImpl''] else execvec)"

definition run_program ::
  "machine \<Rightarrow> waf_options \<Rightarrow> naming \<Rightarrow> (tgen \<Rightarrow> string) \<Rightarrow> groups \<Rightarrow> string \<Rightarrow> string option \<Rightarrow> string option \<Rightarrow> bool
     \<Rightarrow> run_report" where
  "run_program m opts n node_path gs program_string template cwd visualize =
     (case get_run_program n node_path gs program_string template of
        Inl e \<Rightarrow> failed e
      | Inr (_, execvec) \<Rightarrow>
          run_argv m opts (with_visualizer visualize execvec) None (launch_directory opts cwd) False)"

definition run_python_program :: "machine \<Rightarrow> waf_options \<Rightarrow> string \<Rightarrow> bool \<Rightarrow> run_report" where
  "run_python_program m opts program_string visualize =
     (case lift_res (shlex_split program_string) of
        Inl e \<Rightarrow> failed e
      | Inr execvec \<Rightarrow>
          (case lift_res (py_nth (PYTHON m) 0) of
             Inl e \<Rightarrow> failed e
           | Inr python \<Rightarrow>
               run_argv m opts ([python] @ with_visualizer visualize execvec) None (launch_directory opts None) False))"

fun uniquify_from :: "'a set \<Rightarrow> 'a list \<Rightarrow> 'a list" where
  "uniquify_from seen [] = []"
| "uniquify_from seen (x # seq) =
     (if x \<notin> seen then x # uniquify_from (insert x seen) seq else uniquify_from seen seq)"

definition uniquify_list :: "'a list \<Rightarrow> 'a list" where
  "uniquify_list seq = uniquify_from {} seq"

section \<open>The status of a run\<close>

lemma check_status_eq_Inr: "check_status m argv retval = Inr r \<longleftrightarrow> retval = 0 \<and> r = 0"
  by (auto simp: check_status_def split: option.splits)

text \<open>No line of one character contains the mark of a leak.\<close>

lemma echo_stderr_eq: "echo_stderr s = (s, False)"
proof -
  have "foldl leak_line (w, False) s = (w @ s, False)" for w
    by (induction s arbitrary: w) (simp_all add: leak_line_def)
  then show ?thesis by (simp add: echo_stderr_def)
qed

lemma run_argv_valgrind:
  assumes "valgrind_option opts" "\<not> gdb_option opts" "\<not> has_template opts" "VALGRIND m = v # vs"
    and "spawn m ([v, ''--leak-check=full'', ''--show-reachable=yes'', ''--error-exitcode=1''] @ argv)
           (get_proc_env m os_env) cwd = Inr (retval, stderrdata)"
  shows "run_argv m opts argv os_env cwd False =
    \<lparr>launched = [([v, ''--leak-check=full'', ''--show-reachable=yes'', ''--error-exitcode=1''] @ argv, get_proc_env m os_env, cwd)],
     echoed = stderrdata,
     run_outcome = check_status m ([v, ''--leak-check=full'', ''--show-reachable=yes'', ''--error-exitcode=1''] @ argv) retval\<rparr>"
  using assms by (simp add: run_argv_def Let_def echo_stderr_eq)

text \<open>
  A run under valgrind succeeds whatever valgrind wrote, as long as its status is zero: the test
  for a leak summary never finds one.
\<close>

theorem leaks_not_reported:
  assumes "valgrind_option opts" "\<not> gdb_option opts" "\<not> has_template opts" "VALGRIND m = v # vs"
    and "spawn m ([v, ''--leak-check=full'', ''--show-reachable=yes'', ''--error-exitcode=1''] @ argv)
           (get_proc_env m os_env) cwd = Inr (0, stderrdata)"
    and "contains stderrdata ''== LEAK SUMMARY''"
  shows "run_outcome (run_argv m opts argv os_env cwd False) = Inr 0 \<and>
    echoed (run_argv m opts argv os_env cwd False) = stderrdata"
  unfolding run_argv_valgrind [OF assms(1-5)] by (simp add: check_status_def)

text \<open>
  C33. A run that returns has started one process, with the arguments last, and unless gdb ran it the
  process has ended with status zero: every other status is an error.
\<close>

theorem run_success:
  assumes "run_outcome (run_argv m opts argv os_env cwd force) = Inr r"
  shows "\<exists>command err. launched (run_argv m opts argv os_env cwd force) = [(command, get_proc_env m os_env, cwd)] \<and>
    suffix argv command \<and> spawn m command (get_proc_env m os_env) cwd = Inr (r, err) \<and> (gdb_option opts \<or> r = 0)"
proof -
  let ?env = "get_proc_env m os_env"
  let ?checked = "[hd (VALGRIND m), ''--leak-check=full'', ''--show-reachable=yes'', ''--error-exitcode=1''] @ argv"
  consider (gdb) "gdb_option opts" "\<not> has_template opts" "\<not> valgrind_option opts"
    | (valgrind) "\<not> gdb_option opts" "valgrind_option opts" "\<not> force" "\<not> has_template opts" "VALGRIND m \<noteq> []"
    | (plain) "\<not> gdb_option opts" "\<not> (valgrind_option opts \<and> \<not> force)" "\<not> (valgrind_option opts \<and> has_template opts)"
    using assms by (auto simp: run_argv_def failed_def Let_def split: if_splits)
  then show ?thesis
  proof cases
    case gdb
    with assms show ?thesis
      by (auto simp: run_argv_def Let_def suffix_def split: sum.splits intro!: exI [of _ "''gdb'' # ''--args'' # argv"])
  next
    case valgrind
    then have "\<exists>err. spawn m ?checked ?env cwd = Inr (0, err)" "r = 0"
      using assms by (auto simp: run_argv_def Let_def echo_stderr_eq check_status_eq_Inr split: sum.splits)
    moreover have "suffix argv ?checked" unfolding suffix_def by blast
    ultimately show ?thesis
      using valgrind by (auto simp: run_argv_def Let_def echo_stderr_eq)
  next
    case plain
    with assms show ?thesis
      by (auto simp: run_argv_def Let_def check_status_eq_Inr split: sum.splits)
  qed
qed

section \<open>The environment of a run\<close>

lemma map_of_prepend_path:
  "map_of (prepend_path sep var paths env) v =
     (if v = var then Some (case map_of env var of None \<Rightarrow> join sep paths | Some old \<Rightarrow> join sep (paths @ [old]))
      else map_of env v)"
  by (simp add: prepend_path_def update_conv')

lemma suffix_join_last: "suffix old (join sep (paths @ [old]))"
  by (induction paths) (auto simp: join_Cons intro!: suffix_appendI)

lemma prepend_path_keeps:
  "map_of env v = Some old \<Longrightarrow>
     \<exists>new. map_of (prepend_path sep var paths env) v = Some new \<and> suffix old new \<and> (v \<noteq> var \<longrightarrow> new = old)"
  using suffix_join_last [of old sep paths] by (auto simp: map_of_prepend_path)

text \<open>
  Every variable of the caller is still there: the three search paths have new directories in front
  of their old value, and the others are as they were.
\<close>

theorem proc_env_extends:
  assumes "map_of (environ m) v = Some old"
  shows "\<exists>new. map_of (get_proc_env m None) v = Some new \<and> suffix old new \<and>
    (v \<notin> {path_variable (platform m), ''PYTHONPATH'', ''PATH''} \<longrightarrow> new = old)"
proof -
  let ?e1 = "prepend_path (pathsep m) (path_variable (platform m)) (NS3_MODULE_PATH m) (environ m)"
  let ?e2 = "prepend_path (pathsep m) ''PYTHONPATH'' [pymoddir m, pyvizdir m] ?e1"
  obtain n1 where n1: "map_of ?e1 v = Some n1" "suffix old n1" "v \<noteq> path_variable (platform m) \<longrightarrow> n1 = old"
    using prepend_path_keeps [OF assms] by blast
  obtain n2 where n2: "map_of ?e2 v = Some n2" "suffix n1 n2" "v \<noteq> ''PYTHONPATH'' \<longrightarrow> n2 = n1"
    using prepend_path_keeps [OF n1(1)] by blast
  obtain n3 where n3: "map_of (get_proc_env m None) v = Some n3" "suffix n2 n3" "v \<noteq> ''PATH'' \<longrightarrow> n3 = n2"
    using prepend_path_keeps [OF n2(1), of "pathsep m" "''PATH''" "NS3_EXECUTABLE_PATH m"]
    by (auto simp: get_proc_env_def Let_def)
  have "suffix old n3" using n1(2) n2(2) n3(2) by (blast intro: suffix_order.trans)
  moreover have "v \<notin> {path_variable (platform m), ''PYTHONPATH'', ''PATH''} \<longrightarrow> n3 = old"
    using n1(3) n2(3) n3(3) by simp
  ultimately show ?thesis using n3(1) by blast
qed

section \<open>Running what was built\<close>

definition answers_to :: "naming \<Rightarrow> string \<Rightarrow> tgen \<Rightarrow> bool" where
  "answers_to n name t \<longleftrightarrow> is_ns3_program t \<and> below_launch_dir n t \<and> name \<in> set (program_names n t)"

lemma find_program_in_eq:
  "case find (answers_to n name) ts of
     Some t \<Rightarrow> find_program_in n name ts found = Inr t
   | None \<Rightarrow> \<exists>found'. find_program_in n name ts found = Inl (ProgramNotFound name found')"
  by (induction ts arbitrary: found) (auto simp: answers_to_def split: option.splits)

lemma find_program_eq:
  "find (answers_to n name) (concat gs) = Some t \<Longrightarrow> find_program n gs name = Inr t"
  "find (answers_to n name) (concat gs) = None \<Longrightarrow> \<exists>found. find_program n gs name = Inl (ProgramNotFound name found)"
  using find_program_in_eq [of n name "concat gs" "[]"] by (simp_all add: find_program_def all_task_gen_def)

definition plain_name :: "string \<Rightarrow> bool" where
  "plain_name name \<longleftrightarrow> plain_word name \<and> \<not> endswith name ''.cc''"

lemma get_run_program_words:
  assumes "plain_name name" "list_all plain_word args"
  shows "get_run_program n node_path gs (join '' '' (name # args)) (Some ''%s'') =
    and_then (find_program n gs name) (\<lambda>t. Inr (name, node_path t # args))"
  using assms shlex_join [of "name # args" False "[]"]
  by (simp add: get_run_program_def shlex_split_def lift_res_def plain_name_def strip_cc_def py_nth_def
      slice_from_def slice_bound_def)

lemma run_argv_plain:
  "\<not> gdb_option opts \<Longrightarrow> \<not> valgrind_option opts \<Longrightarrow>
     run_argv m opts argv os_env cwd force =
       \<lparr>launched = [(argv, get_proc_env m os_env, cwd)], echoed = [],
        run_outcome = (case spawn m argv (get_proc_env m os_env) cwd of
                     Inl e \<Rightarrow> Inl (Exception e) | Inr (retval, _) \<Rightarrow> check_status m argv retval)\<rparr>"
  by (simp add: run_argv_def Let_def)

text \<open>
  A plain command line runs the first program of that name with its arguments; when every program
  of the name is excluded from the build, nothing is started.
\<close>

theorem run_first_program:
  assumes "plain_name name" "list_all plain_word args"
    and "find (answers_to n name) (concat gs) = Some t"
    and "\<not> gdb_option opts" "\<not> valgrind_option opts"
  shows "launched (run_program m opts n node_path gs (join '' '' (name # args)) (Some ''%s'') cwd False) =
      [(node_path t # args, get_proc_env m None, launch_directory opts cwd)] \<and>
    (run_outcome (run_program m opts n node_path gs (join '' '' (name # args)) (Some ''%s'') cwd False) = Inr 0 \<longleftrightarrow>
      (\<exists>err. spawn m (node_path t # args) (get_proc_env m None) (launch_directory opts cwd) = Inr (0, err)))"
  using find_program_eq(1) [OF assms(3)]
  by (auto simp: run_program_def get_run_program_words [OF assms(1,2)] with_visualizer_def run_argv_plain [OF assms(4,5)]
      check_status_eq_Inr split: sum.splits)

text \<open>
  C31. A program that depends on a module that is not enabled is not run after the build: no
  process is started, and the error names the programs that were found.
\<close>

theorem excluded_program_not_run:
  assumes "plain_name name" "list_all plain_word args"
    and "resolve_modules (uses i) (configured i) = Inr g" "any_enabled (initially_enabled (configured i))"
    and "proper_groups (all_groups n i g)" "build_ns3 n i = Inr r"
    and "list_all (\<lambda>t. answers_to n name t \<longrightarrow> \<not> depends_on_enabled g t) (concat (all_groups n i g))"
  shows "\<exists>found. run_program m opts n node_path (groups r) (join '' '' (name # args)) (Some ''%s'') cwd False =
    failed (ProgramNotFound name found)"
proof -
  have r: "r = after_build n i g" using build_ns3_run [OF assms(3-5)] assms(6) by simp
  have same: "answers_to n name (marked g t) = answers_to n name t" for t
    by (auto simp: marked_def answers_to_def below_launch_dir_def program_names_def)
  have "find (answers_to n name) (concat (groups r)) = None"
    using assms(7) by (auto simp: r after_build_def Let_def find_None_iff same list_all_iff kept_tgen_def)
  from find_program_eq(2) [OF this] show ?thesis
    by (auto simp: run_program_def get_run_program_words [OF assms(1,2)])
qed

section \<open>Removing duplicates\<close>

lemma uniquify_from_fast: "uniq_fast (\<lambda>_. True) d seq = Inr (uniquify_from (set d) seq)"
  by (induction seq arbitrary: d) auto

text \<open>\<open>uniquify_list\<close> is the order-preserving branch of \<open>uniquify\<close> in rad_util.py.\<close>

theorem uniquify_list_agrees: "uniquify (\<lambda>_. True) ord seq True = Inr (uniquify_list seq)"
  using uniquify_from_fast [of "[]" seq] by (simp add: uniquify_def uniquify_list_def)

section \<open>Witnesses\<close>

definition sample_machine :: machine where
  "sample_machine =
     \<lparr>environ = [(''HOME'', ''/root''), (''PATH'', ''/bin'')], platform = ''linux'', NS3_MODULE_PATH = [''/ns3/build/lib''],
      NS3_EXECUTABLE_PATH = [''/ns3/build/utils''], pymoddir = ''/ns3/build/bindings/python'',
      pyvizdir = ''/ns3/src/visualizer'', VALGRIND = [''valgrind''], PYTHON = [''python3''],
      spawn = (\<lambda>argv env cwd. Inr (0, ''==7== LEAK SUMMARY'')), signals = [(''SIGSEGV'', 11)]\<rparr>"

definition sample_waf_options :: waf_options where
  "sample_waf_options =
     \<lparr>valgrind_option = False, gdb_option = False, command_template = None, cwd_option = [], launch_cwd = ''/ns3''\<rparr>"

lemma sample_spawn: "spawn sample_machine argv env cwd = Inr (0, ''==7== LEAK SUMMARY'')"
  by (simp add: sample_machine_def)

theorem leaks_not_reported_witness:
  "run_outcome (run_argv sample_machine (sample_waf_options\<lparr>valgrind_option := True\<rparr>) [''ping''] None None False) = Inr 0"
proof -
  have "contains ''==7== LEAK SUMMARY'' ''== LEAK SUMMARY''" by code_simp
  moreover have "VALGRIND sample_machine = ''valgrind'' # []" by (simp add: sample_machine_def)
  ultimately show ?thesis
    using leaks_not_reported [OF _ _ _ _ sample_spawn, of "sample_waf_options\<lparr>valgrind_option := True\<rparr>"]
    by (simp add: sample_waf_options_def has_template_def)
qed

theorem run_success_witness:
  "\<exists>command. launched (run_argv sample_machine sample_waf_options [''ping''] None None False) =
     [(command, get_proc_env sample_machine None, None)]"
proof -
  have "run_outcome (run_argv sample_machine sample_waf_options [''ping''] None None False) = Inr 0"
    by (simp add: run_argv_plain sample_waf_options_def sample_spawn check_status_def)
  from run_success [OF this] show ?thesis by blast
qed

theorem proc_env_extends_witness:
  "map_of (get_proc_env sample_machine None) ''HOME'' = Some ''/root''"
proof -
  have "map_of (environ sample_machine) ''HOME'' = Some ''/root''" by (simp add: sample_machine_def)
  from proc_env_extends [OF this] show ?thesis by (simp add: sample_machine_def path_variable_def)
qed

lemma sample_words: "plain_name ''sockets''" "plain_name ''ping''" "list_all plain_word [''--n=3'']"
  by code_simp+

theorem run_first_program_witness:
  "launched (run_program sample_machine sample_waf_options sample_naming (\<lambda>t. tg_target t) sample_groups
      ''sockets --n=3'' (Some ''%s'') None False) =
    [([''ns3.34-sockets-debug'', ''--n=3''], get_proc_env sample_machine None, Some ''/ns3'')]"
proof -
  let ?t = "create_ns3_program sample_naming 6 ''src/network'' ''sockets'' [''network'']"
  have t: "find (answers_to sample_naming ''sockets'') (concat sample_groups) = Some ?t" by code_simp
  have "join '' '' (''sockets'' # [''--n=3'']) = ''sockets --n=3''" "tg_target ?t = ''ns3.34-sockets-debug''" by code_simp+
  with run_first_program [OF sample_words(1,3) t, of sample_waf_options sample_machine "\<lambda>t. tg_target t" None]
  show ?thesis by (simp add: sample_waf_options_def launch_directory_def)
qed

theorem excluded_program_not_run_witness:
  "\<exists>found. run_program sample_machine sample_waf_options sample_naming (\<lambda>t. tg_target t)
     (groups (after_build sample_naming (sample_input sample_without_internet) sample_growing))
     ''ping --n=3'' (Some ''%s'') None False = failed (ProgramNotFound ''ping'' found)"
proof -
  have "list_all (\<lambda>t. answers_to sample_naming ''ping'' t \<longrightarrow> \<not> depends_on_enabled sample_growing t)
      (concat (all_groups sample_naming (sample_input sample_without_internet) sample_growing))"
    by code_simp
  from excluded_program_not_run [OF sample_words(2,3) _ _ sample_proper sample_built this]
  show ?thesis by (simp add: sample_all_resolved sample_enabled)
qed

end
