(* ===== verification/WafHeaders.thy ===== *)
theory WafHeaders
  imports WafRun
begin

text \<open>
  src/wscript: the modules and their test libraries as task generators, the tasks that install or
  remove the headers of a module, the header that includes them all, and the file for pkg-config.
\<close>

section \<open>Modules\<close>

text \<open>
  The task generator of a module's library, and the generator of its pkg-config file.
\<close>

definition module_generator :: "naming \<Rightarrow> bool \<Rightarrow> nat \<Rightarrow> string \<Rightarrow> string \<Rightarrow> tgen" where
  "module_generator n static i path name =
     \<lparr>tg_id = i, tg_name = ''ns3-'' @ name,
      tg_features = (if static then ''cxx cxxstlib ns3module'' else ''cxx cxxshlib ns3module''),
      tg_module = None, ns3_module_dependencies = None, is_ns3_module = True, is_ns3_program = False,
      test_library_of = None, tg_mode = None, tg_path = path_join (src_top n) path,
      tg_bld_path = path_join (bld_top n) path,
      tg_target = relpath (src_top n) (src_top n) (path_join (src_top n) path) @ ''/lib/ns'' @ version n @ ''-'' @ name @ build_suffix n\<rparr>"

definition pcfilegen :: "naming \<Rightarrow> nat \<Rightarrow> string \<Rightarrow> string \<Rightarrow> tgen" where
  "pcfilegen n i path module_name =
     \<lparr>tg_id = i, tg_name = [], tg_features = ''ns3pcfile'', tg_module = Some module_name,
      ns3_module_dependencies = None, is_ns3_module = False, is_ns3_program = False, test_library_of = None,
      tg_mode = None, tg_path = path_join (src_top n) path, tg_bld_path = path_join (bld_top n) path, tg_target = []\<rparr>"

definition module_use :: "string list \<Rightarrow> string list" where
  "module_use dependencies = map ((@) ''ns3-'') dependencies"

text \<open>
  What of the configuration a module depends on, and a module with the values appended to its own
  environment, in order.
\<close>

record module_env =
  ENABLE_STATIC_NS3 :: bool
  shlib_CXXFLAGS :: "string list"
  CXX_NAME :: string
  WL_SONAME_SUPPORTED :: bool
  cshlib_PATTERN :: string
  out_dir :: string

record ns3_module =
  generator :: tgen
  pcfile_generator :: tgen
  appended :: "(string \<times> string list) list"
  is_static :: bool
  module_deps :: "string list"
  module_uses :: "string list"
  is_test :: bool
  ns3_dir_location :: string

definition soname_flags :: "module_env \<Rightarrow> tgen \<Rightarrow> string list res" where
  "soname_flags env module =
     (if \<not> ENABLE_STATIC_NS3 env \<and> CXX_NAME env \<in> {''gcc'', ''icc''} \<and> WL_SONAME_SUPPORTED env then
        and_then (percent_format (cshlib_PATTERN env) (Some (basename (tg_target module)))) (\<lambda>lib.
          Inr [''-Wl,--soname='' @ lib])
      else Inr [])"

definition create_ns3_module ::
  "naming \<Rightarrow> module_env \<Rightarrow> nat \<Rightarrow> string \<Rightarrow> string \<Rightarrow> string list \<Rightarrow> bool \<Rightarrow> ns3_module res" where
  "create_ns3_module n env i path name dependencies test =
     (let module = module_generator n (ENABLE_STATIC_NS3 env) i path name;
          cxxflags = (if ENABLE_STATIC_NS3 env then [] else shlib_CXXFLAGS env)
      in and_then (soname_flags env module) (\<lambda>linkflags.
           Inr \<lparr>generator = module, pcfile_generator = pcfilegen n (Suc i) path (tg_name module),
                appended = [(''CXXFLAGS'', cxxflags), (''CCFLAGS'', cxxflags), (''LINKFLAGS'', linkflags),
                            (''CXXDEFINES'', [''NS3_MODULE_COMPILATION'']), (''CCDEFINES'', [''NS3_MODULE_COMPILATION'']),
                            (''INCLUDES'', [out_dir env])],
                is_static = ENABLE_STATIC_NS3 env, module_deps = dependencies, module_uses = module_use dependencies,
                is_test = test, ns3_dir_location = relpath (src_top n) (tg_path module) (src_top n)\<rparr>))"

text \<open>The library with the tests of a module, and the entry for it in the list of test libraries.\<close>

definition create_ns3_module_test_library ::
  "naming \<Rightarrow> module_env \<Rightarrow> nat \<Rightarrow> string \<Rightarrow> string \<Rightarrow> (ns3_module \<times> (string \<times> string)) res" where
  "create_ns3_module_test_library n env i path name =
     and_then (create_ns3_module n env i path (name @ ''-test'') [name] True) (\<lambda>library.
       let module = (generator library)\<lparr>tg_features := tg_features (generator library) @ '' ns3testlib'',
                                        is_ns3_module := False, test_library_of := Some (''ns3-'' @ name)\<rparr>;
           include_flag = ''-I'' @ relpath (bld_top n) (tg_path module) (bld_top n)
       in Inr (library\<lparr>generator := module,
                       appended := appended library @ [(''CXXFLAGS'', [include_flag]), (''CCFLAGS'', [include_flag])]\<rparr>,
               (''ns3-'' @ name, tg_name module)))"

text \<open>The modules whose wscripts are read: those that are not built are left out.\<close>

definition not_built_dir :: "string \<Rightarrow> string" where
  "not_built_dir m = (if m = ''ns3tcp'' \<or> m = ''ns3wifi'' then ''test/'' @ m else m)"

definition modules_read :: "string list \<Rightarrow> string list \<Rightarrow> string list" where
  "modules_read all_modules not_built = foldl (\<lambda>ms nb. remove1 (not_built_dir nb) ms) all_modules not_built"

section \<open>Files\<close>

text \<open>
  The files of the build, with the permissions of their owner. System calls fail with an error
  number: 2 for a missing file, 13 for a permission, 21 for a directory.
\<close>

record stored_file =
  content :: string
  owner_reads :: bool
  owner_writes :: bool

datatype entry = Regular stored_file | Folder

type_synonym file_system = "string \<Rightarrow> entry option"

datatype os_error = Errno int

definition os_chmod :: "bool \<Rightarrow> bool \<Rightarrow> string \<Rightarrow> file_system \<Rightarrow> os_error + file_system" where
  "os_chmod r w p fs =
     (case fs p of
        None \<Rightarrow> Inl (Errno 2)
      | Some (Regular f) \<Rightarrow> Inr (fs(p \<mapsto> Regular (f\<lparr>owner_reads := r, owner_writes := w\<rparr>)))
      | Some Folder \<Rightarrow> Inr fs)"

definition copy2 :: "string \<Rightarrow> string \<Rightarrow> file_system \<Rightarrow> os_error + file_system" where
  "copy2 src dst fs =
     (case fs src of
        None \<Rightarrow> Inl (Errno 2)
      | Some Folder \<Rightarrow> Inl (Errno 21)
      | Some (Regular f) \<Rightarrow>
          if \<not> owner_reads f then Inl (Errno 13)
          else (case fs dst of
                  Some Folder \<Rightarrow> Inl (Errno 21)
                | Some (Regular g) \<Rightarrow> if \<not> owner_writes g then Inl (Errno 13) else Inr (fs(dst \<mapsto> Regular f))
                | None \<Rightarrow> Inr (fs(dst \<mapsto> Regular f))))"

definition os_unlink :: "string \<Rightarrow> file_system \<Rightarrow> os_error + file_system" where
  "os_unlink p fs =
     (case fs p of None \<Rightarrow> Inl (Errno 2) | Some Folder \<Rightarrow> Inl (Errno 21) | Some (Regular f) \<Rightarrow> Inr (fs(p := None)))"

section \<open>Header tasks\<close>

datatype header_task = Install "string list" "string list" | Remove string

datatype status = RunMe | SkipMe | WafDecides

text \<open>
  A header is made writable if it is there, replaced by a copy, and made read-only. A header to be
  removed may be missing already. A failed system call ends the task with the error, and the
  model does not follow the files any further.
\<close>

definition install_header :: "file_system \<Rightarrow> string \<times> string \<Rightarrow> os_error + file_system" where
  "install_header fs sd =
     (let fs1 = (case os_chmod True True (snd sd) fs of Inl _ \<Rightarrow> fs | Inr fs1 \<Rightarrow> fs1)
      in and_then (copy2 (fst sd) (snd sd) fs1) (os_chmod True False (snd sd)))"

definition remove_header :: "string \<Rightarrow> file_system \<Rightarrow> os_error + file_system" where
  "remove_header p fs =
     (case os_unlink p fs of Inr fs1 \<Rightarrow> Inr fs1 | Inl (Errno n) \<Rightarrow> if n \<noteq> 2 then Inl (Errno n) else Inr fs)"

definition run_header_task :: "header_task \<Rightarrow> file_system \<Rightarrow> os_error option + file_system" where
  "run_header_task t fs =
     (case t of
        Install inputs outputs \<Rightarrow>
          if length inputs \<noteq> length outputs then Inl None
          else (case for_each install_header fs (zip inputs outputs) of Inl e \<Rightarrow> Inl (Some e) | Inr fs1 \<Rightarrow> Inr fs1)
      | Remove p \<Rightarrow> (case remove_header p fs of Inl e \<Rightarrow> Inl (Some e) | Inr fs1 \<Rightarrow> Inr fs1))"

definition runnable_status :: "header_task \<Rightarrow> file_system \<Rightarrow> status" where
  "runnable_status t fs =
     (case t of Remove p \<Rightarrow> if fs p \<noteq> None then RunMe else SkipMe | Install _ _ \<Rightarrow> WafDecides)"

text \<open>
  The tasks of a header generator, one per different file name, in an order that is that of a set.
  \<open>find_source\<close> gives the path of a source.
\<close>

datatype header_error = NoModule | SourceNotFound string | NoHeaders string

definition header_mode :: "tgen \<Rightarrow> string" where
  "header_mode t = (case tg_mode t of None \<Rightarrow> ''install'' | Some m \<Rightarrow> m)"

definition header_task_for ::
  "(string \<Rightarrow> string option) \<Rightarrow> string \<Rightarrow> tgen \<Rightarrow> header_task list \<Rightarrow> string \<Rightarrow> header_error + header_task list" where
  "header_task_for find_source ns3_dir t tasks filename =
     (case find_source filename of
        None \<Rightarrow> Inl (SourceNotFound filename)
      | Some src \<Rightarrow>
          (let dst = path_join ns3_dir (basename src)
           in Inr (tasks @ [if header_mode t = ''install'' then Install [src] [dst] else Remove dst])))"

definition apply_ns3header ::
  "(string list \<Rightarrow> string list) \<Rightarrow> (string \<Rightarrow> string option) \<Rightarrow> string \<Rightarrow> tgen \<Rightarrow> string list \<Rightarrow> header_error + header_task list" where
  "apply_ns3header ord find_source ns3_dir t source =
     (if tg_module t = None then Inl NoModule
      else for_each (header_task_for find_source ns3_dir t) [] (ord (remdups source)))"

section \<open>The header of a module\<close>

definition upper_underscore :: "string \<Rightarrow> string" where
  "upper_underscore s =
     map (\<lambda>c. if c = CHR ''-'' then CHR ''_''
              else if (97 :: nat) \<le> of_char c \<and> (of_char c :: nat) \<le> 122 then char_of ((of_char c :: nat) - 32) else c) s"

definition quoted_text :: "string \<Rightarrow> string" where
  "quoted_text s = [CHR 0x22] @ s @ [CHR 0x22]"

definition module_header_lines :: "string \<Rightarrow> string list \<Rightarrow> string list" where
  "module_header_lines module inputs =
     ['''', ''#ifdef NS3_MODULE_COMPILATION'',
      ''# error '' @ quoted_text ''Do not include ns3 module aggregator headers from other modules; these are meant only for end user scripts.'',
      ''#endif'', '''', ''#ifndef NS3_MODULE_'' @ upper_underscore module, ''    '', '''', ''// Module headers:'']
     @ map (\<lambda>h. ''#include '' @ quoted_text h) (sort (map basename inputs)) @ [''#endif'']"

definition module_header :: "string \<Rightarrow> string list \<Rightarrow> string" where
  "module_header module sources = concat (map (\<lambda>l. l @ newline) (module_header_lines module sources))"

datatype module_header_task = Generate string "string list" string | RemoveModuleHeader string

definition run_module_header :: "module_header_task \<Rightarrow> file_system \<Rightarrow> os_error + file_system" where
  "run_module_header t fs =
     (case t of
        RemoveModuleHeader p \<Rightarrow> remove_header p fs
      | Generate module sources out \<Rightarrow>
          (case fs out of
             Some Folder \<Rightarrow> Inl (Errno 21)
           | Some (Regular f) \<Rightarrow>
               if owner_writes f then Inr (fs(out \<mapsto> Regular (f\<lparr>content := module_header module sources\<rparr>)))
               else Inl (Errno 13)
           | None \<Rightarrow>
               Inr (fs(out \<mapsto> Regular \<lparr>content = module_header module sources, owner_reads = True, owner_writes = True\<rparr>))))"

text \<open>
  \<open>apply_ns3moduleheader\<close>: the public headers of all header generators of the module, in the
  order of the generators; without a task generator for the module there is no task.
\<close>

definition headers_of_module :: "groups \<Rightarrow> (nat \<Rightarrow> string list) \<Rightarrow> string \<Rightarrow> string \<Rightarrow> (string list \<times> bool) res" where
  "headers_of_module gs headers ns3_dir module =
     for_each (\<lambda>(acc, found) t.
         if has_feature ''ns3header'' t then
           and_then (get_module t) (\<lambda>m.
             Inr (if m \<noteq> module then (acc, found)
                  else (acc @ map (\<lambda>s. path_join ns3_dir (basename s)) (sort (remdups (headers (tg_id t)))), True)))
         else Inr (acc, found))
       ([], False) (all_task_gen gs)"

definition apply_ns3moduleheader ::
  "groups \<Rightarrow> (nat \<Rightarrow> string list) \<Rightarrow> string \<Rightarrow> bool \<Rightarrow> string option \<Rightarrow> string \<Rightarrow> module_header_task option res" where
  "apply_ns3moduleheader gs headers ns3_dir module_found mode module =
     and_then (headers_of_module gs headers ns3_dir module) (\<lambda>(sources, found).
       if \<not> found then Inl (OtherException (''error finding headers for module '' @ module))
       else if sources = [] then Inr None
       else if \<not> module_found then Inr None
       else (let out = path_join ns3_dir (module @ ''-module.h'')
             in Inr (Some (if (case mode of None \<Rightarrow> ''install'' | Some m \<Rightarrow> m) = ''install''
                           then Generate module sources out else RemoveModuleHeader out))))"

section \<open>The file for pkg-config\<close>

text \<open>
  The environment of the task: the printf patterns of the compiler's options, the markers, the
  lists by name, and the flags that may be a string or a list.
\<close>

datatype flags = OneFlag string | FlagList "string list"

record pc_env =
  static_build :: bool
  patterns :: "string \<Rightarrow> string option"
  markers :: "string \<Rightarrow> string"
  pc_values :: "string \<Rightarrow> string list"
  flag_values :: "string \<Rightarrow> flags"
  pc_prefix :: string
  pc_libdir :: string
  pc_includedir :: string

definition apply_pattern :: "pc_env \<Rightarrow> string \<Rightarrow> string \<Rightarrow> string res" where
  "apply_pattern env key x = (case patterns env key of None \<Rightarrow> Inl TypeError | Some p \<Rightarrow> percent_format p (Some x))"

definition self_libs :: "pc_env \<Rightarrow> string \<Rightarrow> string \<Rightarrow> string list res" where
  "self_libs env name libdir =
     (let (path_st, lib_st, lib_marker) =
            (if static_build env then (''STLIBPATH_ST'', ''STLIB_ST'', ''STLIB_MARKER'')
             else (''LIBPATH_ST'', ''LIB_ST'', ''SHLIB_MARKER''))
      in and_then (apply_pattern env path_st libdir) (\<lambda>path.
         and_then (apply_pattern env lib_st name) (\<lambda>lib.
           Inr ([path] @ (if markers env lib_marker \<noteq> [] then [markers env lib_marker] else []) @ [lib]))))"

definition dep_lib :: "pc_env \<Rightarrow> string \<Rightarrow> string list res" where
  "dep_lib env dep =
     and_then (map_res (\<lambda>p. and_then (apply_pattern env ''LIBPATH_ST'' p) (\<lambda>f. Inr (f # pc_values env (''LINKFLAGS_'' @ dep))))
                (pc_values env (''LIBPATH_'' @ dep))) (\<lambda>paths.
     and_then (map_res (apply_pattern env ''LIB_ST'') (pc_values env (''LIB_'' @ dep))) (\<lambda>libs.
       Inr (concat paths @ libs)))"

definition listify :: "flags \<Rightarrow> string list" where
  "listify v = (case v of OneFlag f \<Rightarrow> [f] | FlagList fs \<Rightarrow> fs)"

definition dep_cflags :: "pc_env \<Rightarrow> string \<Rightarrow> string list res" where
  "dep_cflags env dep =
     and_then (map_res (apply_pattern env ''DEFINES_ST'') (pc_values env (''DEFINES_'' @ dep))) (\<lambda>defines.
     and_then (map_res (apply_pattern env ''CPPPATH_ST'') (pc_values env (''INCLUDES_'' @ dep))) (\<lambda>incs.
       Inr (listify (flag_values env (''CFLAGS_'' @ dep)) @ listify (flag_values env (''CXXFLAGS_'' @ dep)) @ defines @ incs)))"

text \<open>
  The libraries: the module's own, those of its dependencies, and those of \<open>env.LIBS\<close>. The
  last are added with \<open>libs += string\<close>, which extends the list by the characters of the string.
\<close>

definition pc_libs :: "pc_env \<Rightarrow> string \<Rightarrow> string list \<Rightarrow> string list res" where
  "pc_libs env name deps =
     and_then (self_libs env name ''${libdir}'') (\<lambda>own.
     and_then (map_res (dep_lib env) deps) (\<lambda>dep_libs.
     and_then (map_res (apply_pattern env ''LIB_ST'') (pc_values env ''LIBS'')) (\<lambda>extra.
       Inr (own @ concat dep_libs @ map (\<lambda>c. [c]) (concat extra)))))"

definition pc_cflags :: "pc_env \<Rightarrow> string list \<Rightarrow> string list \<Rightarrow> string list res" where
  "pc_cflags env export_includes deps =
     and_then (apply_pattern env ''CPPPATH_ST'' ''${includedir}'') (\<lambda>own.
     and_then (map_res (apply_pattern env ''CPPPATH_ST'') export_includes) (\<lambda>exported.
     and_then (map_res (dep_cflags env) deps) (\<lambda>flags.
       Inr ([own] @ exported @ concat flags))))"

definition pc_requires :: "naming \<Rightarrow> string list \<Rightarrow> string list" where
  "pc_requires n deps =
     map (\<lambda>dep. ''libns'' @ version n @ ''-'' @ drop 4 dep @ build_suffix n) (filter (\<lambda>dep. startswith dep ''ns3-'') deps)"

definition generate_pcfile :: "naming \<Rightarrow> pc_env \<Rightarrow> string \<Rightarrow> string list \<Rightarrow> string list \<Rightarrow> string list res" where
  "generate_pcfile n env name deps export_includes =
     and_then (pc_libs env (target_name n (drop 4 name)) deps) (\<lambda>libs.
     and_then (pc_cflags env export_includes deps) (\<lambda>cflags.
       Inr [''prefix='' @ pc_prefix env, ''libdir='' @ pc_libdir env, ''includedir='' @ pc_includedir env, '''',
            ''Name: lib'' @ name, ''Description: ns-3 module '' @ name, ''Version: '' @ version n,
            ''Libs: '' @ join '' '' libs, ''Cflags: '' @ join '' '' cflags, ''Requires: '' @ join '' '' (pc_requires n deps)]))"

section \<open>Installing and removing headers\<close>

definition run_header_tasks :: "header_task list \<Rightarrow> file_system \<Rightarrow> os_error option + file_system" where
  "run_header_tasks tasks fs = for_each (\<lambda>fs t. run_header_task t fs) fs tasks"

definition installed_copy :: "stored_file \<Rightarrow> entry" where
  "installed_copy f = Regular (f\<lparr>owner_reads := True, owner_writes := False\<rparr>)"

lemma install_one:
  assumes "fs s = Some (Regular f)" "owner_reads f" "fs d \<noteq> Some Folder" "d \<noteq> s"
  shows "run_header_task (Install [s] [d]) fs = Inr (fs(d \<mapsto> installed_copy f))"
  using assms
  by (auto simp: run_header_task_def install_header_def os_chmod_def copy2_def installed_copy_def Let_def
      split: option.splits entry.splits sum.splits)

lemma remove_one: "fs d \<noteq> Some Folder \<Longrightarrow> run_header_task (Remove d) fs = Inr (fs(d := None))"
  by (auto simp: run_header_task_def remove_header_def os_unlink_def split: option.splits entry.splits)

text \<open>What a header generator needs: its sources exist, and its headers have different names.\<close>

definition header_source :: "(string \<Rightarrow> string option) \<Rightarrow> string \<Rightarrow> string" where
  "header_source find_source h = the (find_source h)"

definition header_target :: "(string \<Rightarrow> string option) \<Rightarrow> string \<Rightarrow> string \<Rightarrow> string" where
  "header_target find_source ns3_dir h = path_join ns3_dir (basename (header_source find_source h))"

definition header_file :: "(string \<Rightarrow> string option) \<Rightarrow> file_system \<Rightarrow> string \<Rightarrow> stored_file" where
  "header_file find_source fs h =
     (case fs (header_source find_source h) of
        Some (Regular f) \<Rightarrow> f | _ \<Rightarrow> \<lparr>content = [], owner_reads = False, owner_writes = False\<rparr>)"

definition headers_proper :: "(string \<Rightarrow> string option) \<Rightarrow> string \<Rightarrow> file_system \<Rightarrow> string list \<Rightarrow> bool" where
  "headers_proper find_source ns3_dir fs hs \<longleftrightarrow>
     inj_on (header_target find_source ns3_dir) (set hs) \<and>
     (\<forall>h\<in>set hs. find_source h \<noteq> None \<and>
        fs (header_source find_source h) = Some (Regular (header_file find_source fs h)) \<and>
        owner_reads (header_file find_source fs h) \<and>
        header_source find_source h \<notin> header_target find_source ns3_dir ` set hs \<and>
        fs (header_target find_source ns3_dir h) \<noteq> Some Folder)"

definition one_header_task :: "(string \<Rightarrow> string option) \<Rightarrow> string \<Rightarrow> tgen \<Rightarrow> string \<Rightarrow> header_task" where
  "one_header_task find_source ns3_dir t h =
     (if header_mode t = ''install'' then Install [header_source find_source h] [header_target find_source ns3_dir h]
      else Remove (header_target find_source ns3_dir h))"

lemma header_tasks:
  assumes "\<forall>h\<in>set hs. find_source h \<noteq> None"
  shows "for_each (header_task_for find_source ns3_dir t) acc hs = Inr (acc @ map (one_header_task find_source ns3_dir t) hs)"
  using assms
proof (induction hs arbitrary: acc)
  case Nil
  then show ?case by simp
next
  case (Cons h hs)
  then show ?case
    by (auto simp: header_task_for_def one_header_task_def header_source_def header_target_def Let_def)
qed

lemma point_updates:
  assumes "\<And>x fs. x \<in> set xs \<Longrightarrow> good x fs \<Longrightarrow> run x fs = Inr (fs(d x := v x))"
    and "\<And>x y fs. x \<in> set xs \<Longrightarrow> y \<in> set xs \<Longrightarrow> x \<noteq> y \<Longrightarrow> good x fs \<Longrightarrow> good x (fs(d y := v y))"
    and "\<forall>x\<in>set xs. good x fs" "distinct xs" "inj_on d (set xs)"
  shows "\<exists>fs1. for_each (\<lambda>fs x. run x fs) fs xs = Inr fs1 \<and>
    (\<forall>x\<in>set xs. fs1 (d x) = v x) \<and> (\<forall>p. p \<notin> d ` set xs \<longrightarrow> fs1 p = fs p)"
  using assms
proof (induction xs arbitrary: fs)
  case Nil
  then show ?case by simp
next
  case (Cons x xs)
  let ?fs = "fs(d x := v x)"
  have "good y ?fs" if "y \<in> set xs" for y
    by (rule Cons.prems(2)) (use that Cons.prems(3,4) in auto)
  then have "\<forall>y\<in>set xs. good y ?fs" by blast
  from Cons.IH [OF Cons.prems(1,2) this] Cons.prems(4,5)
  obtain fs1 where fs1: "for_each (\<lambda>fs x. run x fs) ?fs xs = Inr fs1"
    "\<forall>x\<in>set xs. fs1 (d x) = v x" "\<forall>p. p \<notin> d ` set xs \<longrightarrow> fs1 p = ?fs p"
    by (auto simp del: fun_upd_apply)
  have "d x \<notin> d ` set xs" using Cons.prems(4,5) by auto
  moreover have "run x fs = Inr ?fs" using Cons.prems(1,3) by (simp del: fun_upd_apply)
  with fs1(1) have "for_each (\<lambda>fs x. run x fs) fs (x # xs) = Inr fs1" by (simp del: fun_upd_apply)
  ultimately show ?case using fs1(2,3) by (intro exI [of _ fs1]) auto
qed

lemma for_each_map: "for_each f s (map g xs) = for_each (\<lambda>s x. f s (g x)) s xs"
proof (induction xs arbitrary: s)
  case (Cons x xs)
  then show ?case by simp
qed simp

text \<open>The tasks of a generator put copies in place, or clear the headers away, and touch nothing else.\<close>

definition header_result :: "(string \<Rightarrow> string option) \<Rightarrow> tgen \<Rightarrow> file_system \<Rightarrow> string \<Rightarrow> entry option" where
  "header_result find_source t fs h =
     (if header_mode t = ''install'' then Some (installed_copy (header_file find_source fs h)) else None)"

lemma header_tasks_run:
  assumes proper: "headers_proper find_source ns3_dir fs hs" and distinct: "distinct hs"
  shows "\<exists>fs1. run_header_tasks (map (one_header_task find_source ns3_dir t) hs) fs = Inr fs1 \<and>
    (\<forall>h\<in>set hs. fs1 (header_target find_source ns3_dir h) = header_result find_source t fs h) \<and>
    (\<forall>p. p \<notin> header_target find_source ns3_dir ` set hs \<longrightarrow> fs1 p = fs p)"
  unfolding run_header_tasks_def for_each_map
proof (rule point_updates [where good = "\<lambda>h fs'. fs' (header_source find_source h) = fs (header_source find_source h) \<and>
      fs' (header_target find_source ns3_dir h) \<noteq> Some Folder"])
  fix h fs'
  assume h: "h \<in> set hs" and good: "fs' (header_source find_source h) = fs (header_source find_source h) \<and>
      fs' (header_target find_source ns3_dir h) \<noteq> Some Folder"
  from h proper have facts: "fs (header_source find_source h) = Some (Regular (header_file find_source fs h))"
    "owner_reads (header_file find_source fs h)" and apart: "header_source find_source h \<notin> header_target find_source ns3_dir ` set hs"
    unfolding headers_proper_def by blast+
  then have "header_target find_source ns3_dir h \<noteq> header_source find_source h" using h by (metis imageI)
  with facts good show "run_header_task (one_header_task find_source ns3_dir t h) fs' =
      Inr (fs'(header_target find_source ns3_dir h := header_result find_source t fs h))"
    by (auto simp: one_header_task_def header_result_def install_one remove_one)
next
  fix x y fs'
  assume "x \<in> set hs" "y \<in> set hs" and good: "fs' (header_source find_source x) = fs (header_source find_source x) \<and>
      fs' (header_target find_source ns3_dir x) \<noteq> Some Folder"
  with proper have "header_source find_source x \<noteq> header_target find_source ns3_dir y"
    by (auto simp: headers_proper_def)
  with good show "(fs'(header_target find_source ns3_dir y := header_result find_source t fs y)) (header_source find_source x) =
        fs (header_source find_source x) \<and>
      (fs'(header_target find_source ns3_dir y := header_result find_source t fs y)) (header_target find_source ns3_dir x) \<noteq> Some Folder"
    by (simp add: header_result_def installed_copy_def)
qed (use proper distinct in \<open>auto simp: headers_proper_def\<close>)

lemma headers_proper_after:
  assumes proper: "headers_proper find_source ns3_dir fs hs"
    and at: "\<forall>h\<in>set hs. fs1 (header_target find_source ns3_dir h) = header_result find_source t fs h"
    and away: "\<forall>p. p \<notin> header_target find_source ns3_dir ` set hs \<longrightarrow> fs1 p = fs p"
  shows "headers_proper find_source ns3_dir fs1 hs"
    and "h \<in> set hs \<Longrightarrow> header_result find_source t fs1 h = header_result find_source t fs h"
proof -
  have src: "fs1 (header_source find_source h) = fs (header_source find_source h)" if "h \<in> set hs" for h
    using that proper away by (auto simp: headers_proper_def)
  then have same: "header_file find_source fs1 h = header_file find_source fs h" if "h \<in> set hs" for h
    using that by (simp add: header_file_def)
  then show "h \<in> set hs \<Longrightarrow> header_result find_source t fs1 h = header_result find_source t fs h"
    by (simp add: header_result_def)
  have "fs1 (header_target find_source ns3_dir h) \<noteq> Some Folder" if "h \<in> set hs" for h
    using that at by (simp add: header_result_def installed_copy_def)
  then show "headers_proper find_source ns3_dir fs1 hs"
    using proper src same by (simp add: headers_proper_def)
qed

lemma header_tasks_again:
  assumes proper: "headers_proper find_source ns3_dir fs hs" and distinct: "distinct hs"
    and run: "run_header_tasks (map (one_header_task find_source ns3_dir t) hs) fs = Inr fs1"
  shows "run_header_tasks (map (one_header_task find_source ns3_dir t) hs) fs1 = Inr fs1"
proof -
  from header_tasks_run [OF proper distinct, of t] run
  have fs1: "\<forall>h\<in>set hs. fs1 (header_target find_source ns3_dir h) = header_result find_source t fs h"
    "\<forall>p. p \<notin> header_target find_source ns3_dir ` set hs \<longrightarrow> fs1 p = fs p" by auto
  note after = headers_proper_after [OF proper fs1]
  from header_tasks_run [OF after(1) distinct, of t] obtain fs2
    where fs2: "run_header_tasks (map (one_header_task find_source ns3_dir t) hs) fs1 = Inr fs2"
      "\<forall>h\<in>set hs. fs2 (header_target find_source ns3_dir h) = header_result find_source t fs1 h"
      "\<forall>p. p \<notin> header_target find_source ns3_dir ` set hs \<longrightarrow> fs2 p = fs1 p" by blast
  have "fs2 p = fs1 p" for p
  proof (cases "p \<in> header_target find_source ns3_dir ` set hs")
    case True
    then show ?thesis using fs1(1) fs2(2) after(2) by auto
  next
    case False
    then show ?thesis using fs2(3) by simp
  qed
  then have "fs2 = fs1" by (rule ext)
  with fs2(1) show ?thesis by simp
qed

lemma header_mode_marked:
  assumes "tg_mode u = None" "has_feature ''ns3header'' u" "tg_module u = Some m"
  shows "header_mode (marked g u) = (if enabled g (''ns3-'' @ m) then ''install'' else ''remove'')"
  using assms by (simp add: marked_def header_mode_def is_header_def its_module_def)

text \<open>
  C15. After the exclusion of the disabled modules, the tasks of a module's header generator
  leave read-only copies of the headers in the build directory when the module is enabled, and no
  header when it is not. Other files stay as they are, and running the tasks again changes nothing.
\<close>

theorem headers_follow_modules:
  assumes build: "resolve_modules (uses i) (configured i) = Inr g" "any_enabled (initially_enabled (configured i))"
      "proper_groups (all_groups n i g)" "build_ns3 n i = Inr r"
    and fresh: "\<forall>u\<in>set (concat (all_groups n i g)). tg_mode u = None"
    and t: "t \<in> set (concat (groups r))" "has_feature ''ns3header'' t" "tg_module t = Some m"
    and proper: "headers_proper find_source ns3_dir fs source" and perm: "\<And>xs. mset (ord xs) = mset xs"
    and hs: "h \<in> set source"
  shows "\<exists>tasks fs1. apply_ns3header ord find_source ns3_dir t source = Inr tasks \<and>
    run_header_tasks tasks fs = Inr fs1 \<and> run_header_tasks tasks fs1 = Inr fs1 \<and>
    fs1 (header_target find_source ns3_dir h) =
      (if ''ns3-'' @ m \<in> set (enabled_modules r @ enabled_contributed r)
       then Some (installed_copy (header_file find_source fs h)) else None) \<and>
    (\<forall>p. p \<notin> header_target find_source ns3_dir ` set source \<longrightarrow> fs1 p = fs p)"
proof -
  from build_ns3_run [OF build(1-3)] build(4) have r: "r = after_build n i g" by simp
  with t obtain u where u: "u \<in> set (concat (all_groups n i g))" "t = marked g u"
    by (auto simp: after_build_def Let_def)
  then have "tg_mode u = None" "has_feature ''ns3header'' u" "tg_module u = Some m"
    using fresh t by (auto simp: marked_def has_feature_def split: if_splits)
  from header_mode_marked [OF this, of g] u(2) r
  have mode: "header_mode t = ''install'' \<longleftrightarrow> ''ns3-'' @ m \<in> set (enabled_modules r @ enabled_contributed r)"
    by (simp add: after_build_def Let_def enabled_def)
  let ?hs = "ord (remdups source)"
  have same: "set ?hs = set source" "distinct ?hs"
    using perm [of "remdups source"] by (metis set_mset_mset set_remdups, metis distinct_remdups mset_eq_imp_distinct_iff)
  then have ok: "headers_proper find_source ns3_dir fs ?hs" using proper by (simp add: headers_proper_def)
  then have tasks: "apply_ns3header ord find_source ns3_dir t source = Inr (map (one_header_task find_source ns3_dir t) ?hs)"
    by (simp add: apply_ns3header_def t(3) header_tasks headers_proper_def)
  from header_tasks_run [OF ok same(2), of t] obtain fs1
    where fs1: "run_header_tasks (map (one_header_task find_source ns3_dir t) ?hs) fs = Inr fs1"
      "\<forall>h\<in>set source. fs1 (header_target find_source ns3_dir h) = header_result find_source t fs h"
      "\<forall>p. p \<notin> header_target find_source ns3_dir ` set source \<longrightarrow> fs1 p = fs p"
    unfolding same(1) by blast
  from header_tasks_again [OF ok same(2) fs1(1)] tasks fs1 hs mode show ?thesis
    by (auto simp: header_result_def)
qed

text \<open>A header that is gone needs no task.\<close>

theorem removed_header_skipped:
  "run_header_task (Remove p) fs = Inr fs1 \<Longrightarrow> runnable_status (Remove p) fs1 = SkipMe"
  by (auto simp: run_header_task_def remove_header_def os_unlink_def runnable_status_def
      split: option.splits entry.splits sum.splits os_error.splits if_splits)

section \<open>The generated files\<close>

text \<open>
  The header of a module is the same for every order of the sources, includes each header, and
  no line of it defines the macro that its guard tests.
\<close>

lemma module_header_order: "mset xs = mset ys \<Longrightarrow> module_header m xs = module_header m ys"
  by (simp add: module_header_def module_header_lines_def sorted_list_of_multiset_mset [symmetric])

theorem module_header_unguarded:
  "filter (\<lambda>l. startswith l ''#define'') (module_header_lines m inputs) = []"
  by (auto simp: module_header_lines_def startswith_prefix prefix_def filter_empty_conv)

text \<open>
  What a package requires: for each module it uses, the package whose file that module's generator
  writes; and the library it names for itself is the file the module is linked to.
\<close>

definition pcfile_name :: "tgen \<Rightarrow> string" where
  "pcfile_name module = ''lib'' @ basename (tg_target module) @ ''.pc''"

lemma module_target:
  assumes "CHR ''/'' \<notin> set (version n)" "CHR ''/'' \<notin> set (build_suffix n)" "CHR ''/'' \<notin> set name"
  shows "basename (tg_target (module_generator n static i path name)) = ''ns'' @ version n @ ''-'' @ name @ build_suffix n"
proof -
  have "CHR ''/'' \<notin> set (''ns'' @ version n @ ''-'' @ name @ build_suffix n)" using assms by simp
  from basename_append [OF this, of "a @ ''/lib''" for a] show ?thesis by (simp add: module_generator_def)
qed

theorem required_packages:
  assumes "CHR ''/'' \<notin> set (version n)" "CHR ''/'' \<notin> set (build_suffix n)"
    and "\<forall>d\<in>set dependencies. CHR ''/'' \<notin> set d"
  shows "map (\<lambda>p. p @ ''.pc'') (pc_requires n (module_use dependencies)) =
    map (\<lambda>d. pcfile_name (module_generator n static i path d)) dependencies"
  using assms by (simp add: pc_requires_def module_use_def pcfile_name_def module_target startswith_prefix comp_def)

text \<open>An option of \<open>env.LIBS\<close> ends up as its characters.\<close>

lemma pc_libs_of_characters:
  assumes "self_libs env name ''${libdir}'' = Inr own" "pc_values env ''LIBS'' = [''m'']" "patterns env ''LIB_ST'' = Some ''-l%s''"
  shows "pc_libs env name [] = Inr (own @ [''-'', ''l'', ''m''])"
proof -
  have "percent_format ''-l%s'' (Some ''m'') = Inr ''-lm''" by code_simp
  with assms show ?thesis by (simp add: pc_libs_def apply_pattern_def)
qed

section \<open>Witnesses\<close>

definition sample_sources :: "string \<Rightarrow> string option" where
  "sample_sources h = (if h \<in> {''model/ipv4.h'', ''helper/ping.h''} then Some (''/ns3/src/internet/'' @ h) else None)"

definition sample_tree :: file_system where
  "sample_tree p =
     (if startswith p ''/ns3/src/internet/'' then Some (Regular \<lparr>content = basename p, owner_reads = True, owner_writes = True\<rparr>)
      else if p = ''/ns3/build/ns3/ipv4.h'' then Some (Regular \<lparr>content = ''old'', owner_reads = True, owner_writes = False\<rparr>)
      else if p = ''/ns3/build/ns3'' then Some Folder else None)"

lemma sample_header_targets:
  "header_target sample_sources ''/ns3/build/ns3'' ''model/ipv4.h'' = ''/ns3/build/ns3/ipv4.h''"
  "header_target sample_sources ''/ns3/build/ns3'' ''helper/ping.h'' = ''/ns3/build/ns3/ping.h''"
  "header_source sample_sources ''model/ipv4.h'' = ''/ns3/src/internet/model/ipv4.h''"
  "header_source sample_sources ''helper/ping.h'' = ''/ns3/src/internet/helper/ping.h''"
  by code_simp+

lemma sample_headers_proper:
  "headers_proper sample_sources ''/ns3/build/ns3'' sample_tree [''model/ipv4.h'', ''helper/ping.h'']"
proof -
  have "header_file sample_sources sample_tree ''model/ipv4.h'' = \<lparr>content = ''ipv4.h'', owner_reads = True, owner_writes = True\<rparr>"
    "header_file sample_sources sample_tree ''helper/ping.h'' = \<lparr>content = ''ping.h'', owner_reads = True, owner_writes = True\<rparr>"
    "sample_tree ''/ns3/src/internet/model/ipv4.h'' = Some (Regular \<lparr>content = ''ipv4.h'', owner_reads = True, owner_writes = True\<rparr>)"
    "sample_tree ''/ns3/src/internet/helper/ping.h'' = Some (Regular \<lparr>content = ''ping.h'', owner_reads = True, owner_writes = True\<rparr>)"
    "sample_tree ''/ns3/build/ns3/ipv4.h'' \<noteq> Some Folder" "sample_tree ''/ns3/build/ns3/ping.h'' \<noteq> Some Folder"
    "sample_sources ''model/ipv4.h'' \<noteq> None" "sample_sources ''helper/ping.h'' \<noteq> None"
    by code_simp+
  then show ?thesis by (simp add: headers_proper_def sample_header_targets)
qed

theorem headers_follow_modules_witness:
  "\<exists>t tasks fs1. apply_ns3header id sample_sources ''/ns3/build/ns3'' t [''model/ipv4.h'', ''helper/ping.h''] = Inr tasks \<and>
     run_header_tasks tasks sample_tree = Inr fs1 \<and> fs1 ''/ns3/build/ns3/ipv4.h'' = None"
proof -
  let ?t = "(plain_tgen 3 '''' ''ns3header'')\<lparr>tg_module := Some ''internet'', tg_mode := Some ''remove''\<rparr>"
  let ?r = "after_build sample_naming (sample_input sample_without_internet) sample_growing"
  have "?t \<in> set (concat (groups ?r))" "has_feature ''ns3header'' ?t"
    and fresh: "\<forall>u\<in>set (concat (all_groups sample_naming (sample_input sample_without_internet) sample_growing)). tg_mode u = None"
    by code_simp+
  with headers_follow_modules [OF _ _ sample_proper sample_built fresh _ _ _ sample_headers_proper,
      where t = ?t and m = "''internet''" and ord = id and h = "''model/ipv4.h''"]
  obtain tasks fs1 where "apply_ns3header id sample_sources ''/ns3/build/ns3'' ?t [''model/ipv4.h'', ''helper/ping.h''] = Inr tasks"
    "run_header_tasks tasks sample_tree = Inr fs1" "fs1 ''/ns3/build/ns3/ipv4.h'' = None"
    by (auto simp: sample_all_resolved sample_enabled sample_header_targets after_build_def Let_def)
  then show ?thesis by blast
qed

lemma sample_install:
  "(case run_header_tasks [Install [''/ns3/src/internet/model/ipv4.h''] [''/ns3/build/ns3/ipv4.h'']] sample_tree of
      Inr fs \<Rightarrow> fs ''/ns3/build/ns3/ipv4.h'' | Inl e \<Rightarrow> None) =
    Some (Regular \<lparr>content = ''ipv4.h'', owner_reads = True, owner_writes = False\<rparr>)"
  by code_simp

theorem removed_header_skipped_witness:
  "\<exists>fs1. run_header_task (Remove ''/ns3/build/ns3/ipv4.h'') sample_tree = Inr fs1 \<and>
     runnable_status (Remove ''/ns3/build/ns3/ipv4.h'') fs1 = SkipMe"
proof -
  have "sample_tree ''/ns3/build/ns3/ipv4.h'' \<noteq> Some Folder" by code_simp
  from remove_one [where fs = sample_tree and d = "''/ns3/build/ns3/ipv4.h''", OF this] obtain fs1
    where "run_header_task (Remove ''/ns3/build/ns3/ipv4.h'') sample_tree = Inr fs1" by blast
  with removed_header_skipped [OF this] show ?thesis by blast
qed

theorem required_packages_witness:
  "pc_requires sample_naming (module_use [''core'', ''network'']) = [''libns3.34-core-debug'', ''libns3.34-network-debug''] \<and>
   map (\<lambda>p. p @ ''.pc'') (pc_requires sample_naming (module_use [''core'', ''network''])) =
     map (\<lambda>d. pcfile_name (module_generator sample_naming False 0 ''src/internet'' d)) [''core'', ''network'']"
proof (rule conjI)
  show "pc_requires sample_naming (module_use [''core'', ''network'']) = [''libns3.34-core-debug'', ''libns3.34-network-debug'']"
    by code_simp
qed (rule required_packages, simp_all add: sample_naming_def)

end
