(* ===== verification/VersionTag.thy ===== *)
theory VersionTag
  imports PyStr
begin

text \<open>
  waf-tools/versioning.py: the version fields that a build takes from the tags of its git
  repository, or from the cache file of an earlier build. The processes, the files and the waf
  context are parameters.
\<close>

section \<open>The tag of a release\<close>

text \<open>
  The regular expression \<open>ns-(\d+)\.(\d+)(?:.(\d+))?(?:-(RC.+))?.*\<close>. Each number is
  as long as possible, and what follows the minor number can always be matched by the rest, so
  that matching never goes back. The character before the patch number is any character.
\<close>

definition digits :: "string \<Rightarrow> string" where
  "digits s = takeWhile is_digit s"

definition after_digits :: "string \<Rightarrow> string" where
  "after_digits s = dropWhile is_digit s"

definition line_of :: "string \<Rightarrow> string" where
  "line_of s = takeWhile (\<lambda>c. c \<noteq> CHR 0x0A) s"

definition match_patch :: "string \<Rightarrow> string option \<times> string" where
  "match_patch s =
     (case s of
        [] \<Rightarrow> (None, s)
      | c # r \<Rightarrow> if c \<noteq> CHR 0x0A \<and> digits r \<noteq> [] then (Some (digits r), after_digits r) else (None, s))"

definition match_candidate :: "string \<Rightarrow> string option" where
  "match_candidate s =
     (case eat ''-RC'' s of
        None \<Rightarrow> None
      | Some r \<Rightarrow> if line_of r = [] then None else Some (''RC'' @ line_of r))"

record version =
  major :: string
  minor :: string
  patch :: "string option"
  candidate :: "string option"

definition match_version :: "string \<Rightarrow> version option" where
  "match_version s =
     (case eat ''ns-'' s of
        None \<Rightarrow> None
      | Some r \<Rightarrow>
          if digits r = [] then None
          else (case eat ''.'' (after_digits r) of
                  None \<Rightarrow> None
                | Some q \<Rightarrow>
                    if digits q = [] then None
                    else Some \<lparr>major = digits r, minor = digits q, patch = fst (match_patch (after_digits q)),
                               candidate = match_candidate (snd (match_patch (after_digits q)))\<rparr>))"

type_synonym fields = "(string, string) dict"

definition quoted :: "string \<Rightarrow> string" where
  "quoted s = [CHR 0x22] @ s @ [CHR 0x22]"

definition set_field :: "string \<Rightarrow> string \<Rightarrow> fields \<Rightarrow> fields" where
  "set_field k v f = AList.update k v f"

definition parse_version_tag :: "string \<Rightarrow> fields \<Rightarrow> bool \<times> fields" where
  "parse_version_tag tag f =
     (case match_version (strip tag) of
        None \<Rightarrow> (False, f)
      | Some v \<Rightarrow>
          (True,
           set_field ''VERSION_RELEASE_CANDIDATE'' (quoted (case candidate v of None \<Rightarrow> [] | Some c \<Rightarrow> c))
           (set_field ''VERSION_PATCH'' (case patch v of None \<Rightarrow> ''0'' | Some p \<Rightarrow> p)
           (set_field ''VERSION_MINOR'' (minor v)
           (set_field ''VERSION_MAJOR'' (major v)
           (set_field ''VERSION_TAG'' (quoted (strip tag)) f))))))"

section \<open>The output of git describe\<close>

text \<open>
  The regular expression \<open>(.+)-(\d+)-(g[a-fA-F0-9]+)(?:-(dirty))?\<close> takes the longest tag,
  within the first line, that the rest can follow.
\<close>

definition is_hex :: "char \<Rightarrow> bool" where
  "is_hex c \<longleftrightarrow> c \<in> set ''abcdefABCDEF0123456789''"

record distance =
  commits :: string
  commit :: string
  dirty :: bool

definition match_distance :: "string \<Rightarrow> distance option" where
  "match_distance s =
     (case eat ''-'' s of
        None \<Rightarrow> None
      | Some r \<Rightarrow>
          if digits r = [] then None
          else (case eat ''-g'' (after_digits r) of
                  None \<Rightarrow> None
                | Some h \<Rightarrow>
                    if takeWhile is_hex h = [] then None
                    else Some \<lparr>commits = digits r, commit = ''g'' @ takeWhile is_hex h,
                               dirty = startswith (dropWhile is_hex h) ''-dirty''\<rparr>))"

fun match_describe :: "string \<Rightarrow> (string \<times> distance) option" where
  "match_describe [] = None"
| "match_describe (c # s) =
     (if c = CHR 0x0A then None
      else case match_describe s of
        Some (tag, d) \<Rightarrow> Some (c # tag, d)
      | None \<Rightarrow> map_option (\<lambda>d. ([c], d)) (match_distance s))"

section \<open>The task\<close>

text \<open>
  A command that fails raises an exception with what it wrote to its error stream; reading that
  from another exception raises in turn. The failures of the task are told apart here by what it
  logs.
\<close>

datatype failure = CommandFailed string | NoStderr | BadDescription string | BadTag string | NotStored string

type_synonym command_runner = "string list \<Rightarrow> string option + string"

definition run_git :: "command_runner \<Rightarrow> string list \<Rightarrow> failure + string" where
  "run_git git cmd =
     (case git cmd of
        Inl (Some err) \<Rightarrow> Inl (CommandFailed (strip err))
      | Inl None \<Rightarrow> Inl NoStderr
      | Inr out \<Rightarrow> Inr out)"

definition find_closest_tag :: "command_runner \<Rightarrow> fields \<Rightarrow> failure + fields" where
  "find_closest_tag git f =
     and_then (run_git git [''git'', ''describe'', ''--tags'', ''--dirty'', ''--long'']) (\<lambda>out.
       case match_describe out of
         None \<Rightarrow> Inl (BadDescription out)
       | Some (tag, d) \<Rightarrow>
           Inr (snd (parse_version_tag tag
             (set_field ''VERSION_DIRTY_FLAG'' (if dirty d then ''1'' else ''0'')
             (set_field ''VERSION_COMMIT_HASH'' (quoted (commit d))
             (set_field ''VERSION_TAG_DISTANCE'' (commits d)
             (set_field ''CLOSEST_TAG'' (quoted tag) f)))))))"

definition find_closest_ns3_tag :: "command_runner \<Rightarrow> fields \<Rightarrow> failure + fields" where
  "find_closest_ns3_tag git f =
     and_then (run_git git [''git'', ''describe'', ''--tags'', ''--abbrev=0'', ''--match'', ''ns-3*'', ''HEAD'']) (\<lambda>out.
       case parse_version_tag (strip out) f of
         (True, f') \<Rightarrow> Inr f'
       | (False, _) \<Rightarrow> Inl (BadTag (strip out)))"

definition find_tags :: "command_runner \<Rightarrow> fields \<Rightarrow> failure + fields" where
  "find_tags git f =
     and_then (find_closest_tag git f) (\<lambda>f.
       if ''VERSION_TAG'' \<notin> set (keys f) then find_closest_ns3_tag git f else Inr f)"

text \<open>
  The state a task leaves: the files stored, the environment of the build and the log. The
  failure of \<open>store\<close> is a parameter.
\<close>

record task_state =
  stored :: "(string \<times> fields) list"
  build_env :: fields
  logged :: "failure list"

definition merge_env :: "fields \<Rightarrow> fields \<Rightarrow> fields" where
  "merge_env env f = foldl (\<lambda>env kv. AList.update (fst kv) (snd kv) env) env f"

definition version_task ::
  "command_runner \<Rightarrow> (string \<Rightarrow> string option) \<Rightarrow> string \<Rightarrow> task_state \<Rightarrow> int \<times> task_state" where
  "version_task git store_fails path s =
     (case find_tags git [] of
        Inl e \<Rightarrow> (1, s\<lparr>logged := logged s @ [e]\<rparr>)
      | Inr f \<Rightarrow>
          (let cache = path_join (path_join path ''model'') ''version.cache''
           in case store_fails cache of
                Some why \<Rightarrow> (1, s\<lparr>logged := logged s @ [NotStored why]\<rparr>)
              | None \<Rightarrow> (0, s\<lparr>stored := stored s @ [(cache, f)], build_env := merge_env (build_env s) f\<rparr>)))"

section \<open>Configuring\<close>

definition check_git_repo :: "bool \<Rightarrow> command_runner \<Rightarrow> bool" where
  "check_git_repo git_found git =
     (if \<not> git_found then False
      else case git [''git'', ''rev-parse'', ''--show-toplevel''] of Inl _ \<Rightarrow> False | Inr out \<Rightarrow> strip out \<noteq> [])"

definition check_git_repo_has_ns3_tags :: "command_runner \<Rightarrow> bool" where
  "check_git_repo_has_ns3_tags git =
     (case git [''git'', ''describe'', ''--tags'', ''--abbrev=0'', ''--match'', ''ns-3.[0-9]*''] of
        Inl _ \<Rightarrow> False | Inr out \<Rightarrow> strip out \<noteq> [])"

record version_config =
  have_git_repo :: "bool option"
  have_ns3_repo :: "bool option"
  config_env :: fields

definition configure_version ::
  "bool \<Rightarrow> bool \<Rightarrow> command_runner \<Rightarrow> string list \<Rightarrow> (string \<Rightarrow> fields) \<Rightarrow> fields \<Rightarrow> string + version_config" where
  "configure_version enable_build_version git_found git caches load env =
     (if \<not> enable_build_version then Inr \<lparr>have_git_repo = None, have_ns3_repo = None, config_env = env\<rparr>
      else
        (let has_git_repo = check_git_repo git_found git;
             has_ns3_tags = has_git_repo \<and> check_git_repo_has_ns3_tags git
         in if has_ns3_tags then
              Inr \<lparr>have_git_repo = Some has_git_repo, have_ns3_repo = Some True, config_env = env\<rparr>
            else (case caches of
                    [] \<Rightarrow> Inl ''Unable to find ns3 git repository or version.cache file containing version information''
                  | c # _ \<Rightarrow>
                      Inr \<lparr>have_git_repo = Some has_git_repo, have_ns3_repo = Some False,
                           config_env = merge_env env (load c)\<rparr>)))"

text \<open>
  The tasks of \<open>version-defines\<close>: the header is filled in from the environment, after the
  version task when there is a repository.
\<close>

datatype version_task_kind = VersionTask | SubstTask

definition generate_version_defines :: "version_config \<Rightarrow> version_task_kind list" where
  "generate_version_defines c = (if have_ns3_repo c = Some True then [VersionTask, SubstTask] else [SubstTask])"

section \<open>Round trips\<close>

lemma digits_show [simp]:
  "digits (show_nat n @ c # s) = (if is_digit c then show_nat n @ digits (c # s) else show_nat n)"
  "digits (show_nat n) = show_nat n"
  "\<not> is_digit c \<Longrightarrow> after_digits (show_nat n @ c # s) = c # s"
  "after_digits (show_nat n) = []"
  using show_nat_digits [of n] by (auto simp: digits_def after_digits_def list_all_iff)

lemma match_describe_longest:
  "match_describe s = None \<Longrightarrow> match_distance s = Some d \<Longrightarrow> tag \<noteq> [] \<Longrightarrow> CHR 0x0A \<notin> set tag \<Longrightarrow>
     match_describe (tag @ s) = Some (tag, d)"
proof (induction tag)
  case (Cons c tag)
  then show ?case by (cases tag) auto
qed simp

definition no_description :: "string \<Rightarrow> bool" where
  "no_description s \<longleftrightarrow> match_describe s = None \<and> match_distance s = None"

lemma match_distance_start: "c \<noteq> CHR ''-'' \<Longrightarrow> match_distance (c # s) = None"
  by (auto simp: match_distance_def eat_def)

lemma no_description_word:
  "no_description s \<Longrightarrow> CHR ''-'' \<notin> set w \<Longrightarrow> no_description (w @ s)"
proof (induction w)
  case (Cons c w)
  then have "match_distance (c # w @ s) = None"
    by (intro match_distance_start) auto
  with Cons show ?case by (auto simp: no_description_def)
qed simp

lemma no_description_dash:
  "no_description s \<Longrightarrow> match_distance (CHR ''-'' # s) = None \<Longrightarrow> no_description (CHR ''-'' # s)"
  by (simp add: no_description_def)

lemma not_digit_g: "\<not> is_digit (CHR ''g'')" "\<not> is_digit (CHR ''-'')" "\<not> is_digit (CHR ''d'')" "\<not> is_digit (CHR ''.'')"
  by (simp_all add: is_digit_def)

lemma digit_not_dash: "CHR ''-'' \<notin> set (show_nat n)"
  using show_nat_digits [of n] not_digit_g by (auto simp: list_all_iff)

definition describe :: "string \<Rightarrow> nat \<Rightarrow> string \<Rightarrow> bool \<Rightarrow> string" where
  "describe tag n h d = tag @ ''-'' @ show_nat n @ ''-g'' @ h @ (if d then ''-dirty'' else []) @ newline"

lemma dirty_no_description: "no_description ((if d then ''-dirty'' else []) @ newline)"
proof -
  have "no_description (''-dirty'' @ newline)" "no_description newline" by code_simp+
  then show ?thesis by (cases d) simp_all
qed

lemma describe_rest:
  assumes "h \<noteq> []" "list_all is_hex h"
    and rest_def: "rest = show_nat n @ ''-g'' @ h @ (if d then ''-dirty'' else []) @ newline"
  shows "match_describe (''-'' @ rest) = None"
    "match_distance (''-'' @ rest) = Some \<lparr>commits = show_nat n, commit = ''g'' @ h, dirty = d\<rparr>"
proof -
  let ?rest = "(if d then ''-dirty'' else []) @ newline"
  have not_hex: "\<not> is_hex (CHR ''-'')" "\<not> is_hex (CHR 0x0A)" by code_simp+
  then have hex: "CHR ''-'' \<notin> set h" using assms(2) by (auto simp: list_all_iff)
  have "no_description (''g'' @ h @ ?rest)"
    using no_description_word [OF dirty_no_description, of "''g'' @ h" d] hex by simp
  moreover have "match_distance (''-g'' @ h @ ?rest) = None"
    by (simp add: match_distance_def eat_def digits_def not_digit_g)
  ultimately have "no_description (''-g'' @ h @ ?rest)"
    using no_description_dash by simp
  then have "no_description rest"
    unfolding rest_def by (rule no_description_word) (rule digit_not_dash)
  then show "match_describe (''-'' @ rest) = None" by (simp add: no_description_def)
  have "takeWhile is_hex (h @ ?rest) = h" "dropWhile is_hex (h @ ?rest) = ?rest"
    using assms(2) not_hex by (auto simp: takeWhile_append list_all_iff dropWhile_append newline_def)
  then show "match_distance (''-'' @ rest) = Some \<lparr>commits = show_nat n, commit = ''g'' @ h, dirty = d\<rparr>"
    using \<open>h \<noteq> []\<close>
    by (auto simp: match_distance_def eat_def rest_def not_digit_g startswith_prefix newline_def)
qed

text \<open>
  C32. What git describe prints for a tag is read back exactly, whatever the tag looks like.
\<close>

theorem describe_roundtrip:
  assumes "tag \<noteq> []" "CHR 0x0A \<notin> set tag" "h \<noteq> []" "list_all is_hex h"
  shows "match_describe (describe tag n h d) = Some (tag, \<lparr>commits = show_nat n, commit = ''g'' @ h, dirty = d\<rparr>)"
  using match_describe_longest [OF describe_rest [OF assms(3,4) refl] assms(1,2)] by (simp add: describe_def)

theorem describe_roundtrip_witness:
  "match_describe (describe ''ns-3.34-1-gabc'' 12 ''0f3'' True) =
     Some (''ns-3.34-1-gabc'', \<lparr>commits = ''12'', commit = ''g0f3'', dirty = True\<rparr>)"
proof -
  have "list_all is_hex ''0f3''" "show_nat 12 = ''12''" by code_simp+
  with describe_roundtrip [of "''ns-3.34-1-gabc''" "''0f3''" 12 True] show ?thesis by simp
qed

definition release_tag :: "nat \<Rightarrow> nat \<Rightarrow> nat option \<Rightarrow> string option \<Rightarrow> string" where
  "release_tag a b p rc =
     ''ns-'' @ show_nat a @ ''.'' @ show_nat b @ (case p of None \<Rightarrow> [] | Some k \<Rightarrow> ''.'' @ show_nat k)
       @ (case rc of None \<Rightarrow> [] | Some x \<Rightarrow> ''-RC'' @ x)"

definition release_fields :: "nat \<Rightarrow> nat \<Rightarrow> nat option \<Rightarrow> string option \<Rightarrow> fields" where
  "release_fields a b p rc =
     [(''VERSION_TAG'', quoted (release_tag a b p rc)), (''VERSION_MAJOR'', show_nat a), (''VERSION_MINOR'', show_nat b),
      (''VERSION_PATCH'', case p of None \<Rightarrow> ''0'' | Some k \<Rightarrow> show_nat k),
      (''VERSION_RELEASE_CANDIDATE'', quoted (case rc of None \<Rightarrow> [] | Some x \<Rightarrow> ''RC'' @ x))]"

lemma digits_stop [simp]:
  "digits [] = []" "after_digits [] = []"
  "digits (c # s) = (if is_digit c then c # digits s else [])"
  "after_digits (c # s) = (if is_digit c then after_digits s else c # s)"
  by (simp_all add: digits_def after_digits_def)

lemma eat_literal: "eat p (p @ s) = Some s"
  by (rule eat_append)

lemma match_version_prefix:
  assumes "q = [] \<or> \<not> is_digit (hd q)"
  shows "match_version (''ns-'' @ show_nat a @ ''.'' @ show_nat b @ q) =
    Some \<lparr>major = show_nat a, minor = show_nat b, patch = fst (match_patch q), candidate = match_candidate (snd (match_patch q))\<rparr>"
proof -
  have "digits (show_nat b @ q) = show_nat b" "after_digits (show_nat b @ q) = q"
    using assms not_digit_g by (cases q; simp)+
  then show ?thesis
    using eat_append [of "''ns-''"] eat_append [of "''.''"] by (simp add: match_version_def not_digit_g)
qed

text \<open>
  The separator before the patch number is not checked: any character that is not a digit will do,
  and a tag with a number behind a dash has that number as its patch.
\<close>

theorem any_patch_separator:
  assumes "\<not> is_digit c" "c \<noteq> CHR 0x0A"
  shows "\<exists>v. match_version (''ns-'' @ show_nat a @ ''.'' @ show_nat b @ c # show_nat p) = Some v \<and>
    patch v = Some (show_nat p)"
  using assms match_version_prefix [of "c # show_nat p" a b] by (simp add: match_patch_def)

lemma match_candidate_simps [simp]:
  "match_candidate [] = None" "match_candidate (CHR ''-'' # CHR ''R'' # CHR ''C'' # x) = (if line_of x = [] then None else Some (''RC'' @ line_of x))"
  using eat_append [of "''-RC''" x] by (simp_all add: match_candidate_def eat_def)

lemma line_of_fresh: "CHR 0x0A \<notin> set x \<Longrightarrow> line_of x = x"
  unfolding line_of_def by (auto simp: takeWhile_eq_all_conv)

lemma release_tail:
  assumes "case rc of None \<Rightarrow> True | Some x \<Rightarrow> x \<noteq> [] \<and> CHR 0x0A \<notin> set x"
    and q: "q = (case p of None \<Rightarrow> [] | Some k \<Rightarrow> ''.'' @ show_nat k) @ (case rc of None \<Rightarrow> [] | Some x \<Rightarrow> ''-RC'' @ x)"
  shows "q = [] \<or> \<not> is_digit (hd q)" "fst (match_patch q) = map_option show_nat p"
    "match_candidate (snd (match_patch q)) = map_option ((@) ''RC'') rc"
proof -
  have "\<not> is_digit (CHR ''R'')" by code_simp
  then show "q = [] \<or> \<not> is_digit (hd q)" "fst (match_patch q) = map_option show_nat p"
    "match_candidate (snd (match_patch q)) = map_option ((@) ''RC'') rc"
    using assms by (auto simp: match_patch_def not_digit_g line_of_fresh split: option.splits)
qed

text \<open>A tag of the usual form is parsed into exactly the fields it was made of.\<close>

lemma strip_plain: "s \<noteq> [] \<Longrightarrow> \<not> is_space (hd s) \<Longrightarrow> \<not> is_space (last s) \<Longrightarrow> strip s = s"
proof -
  assume s: "s \<noteq> []" "\<not> is_space (hd s)" "\<not> is_space (last s)"
  then have "dropWhile is_space s = s" "dropWhile is_space (rev s) = rev s"
    by (auto simp: dropWhile_eq_self_iff hd_rev)
  then show ?thesis by (simp add: strip_def)
qed

lemma last_show_nat: "\<not> is_space (last (show_nat n))"
proof -
  have "is_digit (last (show_nat n))" using show_nat_digits [of n] by (auto simp: list_all_iff)
  moreover have "list_all (\<lambda>c. \<not> is_space c) ''0123456789''" by code_simp
  ultimately show ?thesis unfolding is_digit_def list_all_iff by blast
qed

lemma strip_release_tag:
  assumes "\<And>x. rc = Some x \<Longrightarrow> x \<noteq> [] \<and> \<not> is_space (last x)"
  shows "strip (release_tag a b p rc) = release_tag a b p rc"
proof (rule strip_plain)
  have "\<not> is_space (CHR ''n'')" by code_simp
  then show "\<not> is_space (hd (release_tag a b p rc))" by (simp add: release_tag_def)
  show "\<not> is_space (last (release_tag a b p rc))"
    using assms last_show_nat show_nat_digits by (auto simp: release_tag_def split: option.splits)
qed (simp add: release_tag_def)

theorem release_tag_roundtrip:
  assumes "case rc of None \<Rightarrow> True | Some x \<Rightarrow> x \<noteq> [] \<and> CHR 0x0A \<notin> set x \<and> \<not> is_space (last x)"
  shows "parse_version_tag (release_tag a b p rc) [] = (True, release_fields a b p rc)"
proof -
  let ?q = "(case p of None \<Rightarrow> [] | Some k \<Rightarrow> ''.'' @ show_nat k) @ (case rc of None \<Rightarrow> [] | Some x \<Rightarrow> ''-RC'' @ x)"
  have rc: "case rc of None \<Rightarrow> True | Some x \<Rightarrow> x \<noteq> [] \<and> CHR 0x0A \<notin> set x" "rc = Some x \<Longrightarrow> x \<noteq> [] \<and> \<not> is_space (last x)" for x
    using assms by (auto split: option.splits)
  note tail = release_tail [OF rc(1) refl, where p = p]
  have "match_version (release_tag a b p rc) = Some \<lparr>major = show_nat a, minor = show_nat b,
      patch = map_option show_nat p, candidate = map_option ((@) ''RC'') rc\<rparr>"
    using match_version_prefix [OF tail(1), where a = a and b = b] unfolding tail(2,3) by (simp add: release_tag_def)
  then show ?thesis
    by (cases p; cases rc)
       (simp_all add: parse_version_tag_def strip_release_tag [OF rc(2)] set_field_def release_fields_def)
qed

section \<open>The fields a task leaves\<close>

text \<open>
  The fields are what the header needs: numbers are digits, texts are quoted, the flag is 0 or 1.
\<close>

definition field_ok :: "string \<Rightarrow> string \<Rightarrow> bool" where
  "field_ok k v \<longleftrightarrow>
     (if k \<in> {''VERSION_MAJOR'', ''VERSION_MINOR'', ''VERSION_PATCH'', ''VERSION_TAG_DISTANCE''} then
        v \<noteq> [] \<and> list_all is_digit v
      else if k = ''VERSION_DIRTY_FLAG'' then v = ''0'' \<or> v = ''1''
      else length v \<ge> 2 \<and> hd v = CHR 0x22 \<and> last v = CHR 0x22)"

definition well_typed :: "fields \<Rightarrow> bool" where
  "well_typed f \<longleftrightarrow> list_all (\<lambda>(k, v). field_ok k v) f"

definition tag_fields :: "string set" where
  "tag_fields = {''VERSION_TAG'', ''VERSION_MAJOR'', ''VERSION_MINOR'', ''VERSION_PATCH'', ''VERSION_RELEASE_CANDIDATE''}"

definition commit_fields :: "string set" where
  "commit_fields = {''CLOSEST_TAG'', ''VERSION_TAG_DISTANCE'', ''VERSION_COMMIT_HASH'', ''VERSION_DIRTY_FLAG''}"

lemma well_typed_set: "well_typed f \<Longrightarrow> field_ok k v \<Longrightarrow> well_typed (set_field k v f)"
  unfolding well_typed_def set_field_def by (induction f) auto

lemma keys_set_field [simp]: "set (keys (set_field k v f)) = insert k (set (keys f))"
  by (induction f) (auto simp: set_field_def)

lemma field_ok_quoted:
  "k \<notin> {''VERSION_MAJOR'', ''VERSION_MINOR'', ''VERSION_PATCH'', ''VERSION_TAG_DISTANCE'', ''VERSION_DIRTY_FLAG''} \<Longrightarrow>
     field_ok k (quoted s)"
  by (simp add: field_ok_def quoted_def)

lemma field_ok_digits:
  "k \<in> {''VERSION_MAJOR'', ''VERSION_MINOR'', ''VERSION_PATCH'', ''VERSION_TAG_DISTANCE''} \<Longrightarrow> v \<noteq> [] \<Longrightarrow>
     list_all is_digit v \<Longrightarrow> field_ok k v"
  by (simp add: field_ok_def)

lemma digits_ok: "list_all is_digit (digits s)"
  by (auto simp: digits_def list_all_iff dest: set_takeWhileD)

lemma match_version_typed:
  "match_version s = Some v \<Longrightarrow> major v \<noteq> [] \<and> list_all is_digit (major v) \<and> minor v \<noteq> [] \<and> list_all is_digit (minor v) \<and>
     (case patch v of None \<Rightarrow> True | Some p \<Rightarrow> p \<noteq> [] \<and> list_all is_digit p)"
  by (auto simp: match_version_def match_patch_def digits_ok split: option.splits if_splits list.splits)

lemma inserts_union:
  "insert d (insert c (insert b (insert a S))) = S \<union> {a, b, c, d}"
  "insert e (insert d (insert c (insert b (insert a S)))) = S \<union> {a, b, c, d, e}"
  by blast+

lemma parse_version_tag_typed:
  "parse_version_tag tag f = (True, f') \<Longrightarrow> well_typed f \<Longrightarrow> well_typed f' \<and> set (keys f') = set (keys f) \<union> tag_fields"
  "parse_version_tag tag f = (False, f') \<Longrightarrow> f' = f"
proof -
  assume run: "parse_version_tag tag f = (True, f')" and f: "well_typed f"
  then obtain v where v: "match_version (strip tag) = Some v"
    by (auto simp: parse_version_tag_def split: option.splits)
  note typed = match_version_typed [OF v]
  have zero: "list_all is_digit ''0''" by code_simp
  from run v have f': "f' = set_field ''VERSION_RELEASE_CANDIDATE'' (quoted (case candidate v of None \<Rightarrow> [] | Some c \<Rightarrow> c))
     (set_field ''VERSION_PATCH'' (case patch v of None \<Rightarrow> ''0'' | Some p \<Rightarrow> p)
     (set_field ''VERSION_MINOR'' (minor v) (set_field ''VERSION_MAJOR'' (major v)
     (set_field ''VERSION_TAG'' (quoted (strip tag)) f))))"
    by (simp add: parse_version_tag_def)
  have patch: "(case patch v of None \<Rightarrow> ''0'' | Some p \<Rightarrow> p) \<noteq> []" "list_all is_digit (case patch v of None \<Rightarrow> ''0'' | Some p \<Rightarrow> p)"
    using typed zero by (auto split: option.splits)
  have "well_typed f'"
    unfolding f'
    by (rule well_typed_set [OF well_typed_set [OF well_typed_set [OF well_typed_set [OF well_typed_set [OF f
          field_ok_quoted] field_ok_digits] field_ok_digits] field_ok_digits [OF _ patch]] field_ok_quoted])
       (simp_all add: typed)
  moreover have "set (keys f') = set (keys f) \<union> tag_fields"
    unfolding f' keys_set_field tag_fields_def by (rule inserts_union(2))
  ultimately show "well_typed f' \<and> set (keys f') = set (keys f) \<union> tag_fields" ..
qed (auto simp: parse_version_tag_def split: option.splits)

lemma match_distance_typed:
  "match_distance s = Some d \<Longrightarrow> commits d \<noteq> [] \<and> list_all is_digit (commits d)"
  by (auto simp: match_distance_def digits_ok split: option.splits if_splits)

lemma match_describe_typed:
  "match_describe s = Some (tag, d) \<Longrightarrow> commits d \<noteq> [] \<and> list_all is_digit (commits d)"
  by (induction s arbitrary: tag) (auto simp: match_distance_typed split: if_splits option.splits)

lemma find_closest_tag_typed:
  assumes "find_closest_tag git [] = Inr f"
  shows "well_typed f \<and> (set (keys f) = commit_fields \<or> set (keys f) = commit_fields \<union> tag_fields)"
proof -
  from assms obtain out tag d where d: "match_describe out = Some (tag, d)" and
    f: "f = snd (parse_version_tag tag
             (set_field ''VERSION_DIRTY_FLAG'' (if dirty d then ''1'' else ''0'')
             (set_field ''VERSION_COMMIT_HASH'' (quoted (commit d))
             (set_field ''VERSION_TAG_DISTANCE'' (commits d)
             (set_field ''CLOSEST_TAG'' (quoted tag) [])))))" (is "f = snd (parse_version_tag tag ?f)")
    by (auto simp: find_closest_tag_def res_simps split: option.splits prod.splits)
  note typed = match_describe_typed [OF d]
  have flag: "field_ok ''VERSION_DIRTY_FLAG'' (if dirty d then ''1'' else ''0'')" by (simp add: field_ok_def)
  have "well_typed []" by (simp add: well_typed_def)
  note well_typed_set [OF well_typed_set [OF well_typed_set [OF well_typed_set [OF this
          field_ok_quoted] field_ok_digits] field_ok_quoted] flag]
  then have "well_typed ?f" by (simp add: typed)
  moreover have "set (keys ?f) = set (keys ([] :: fields)) \<union> commit_fields"
    unfolding keys_set_field commit_fields_def by (rule inserts_union(1))
  then have "set (keys ?f) = commit_fields" by simp
  moreover obtain b f' where "parse_version_tag tag ?f = (b, f')" by fastforce
  ultimately show ?thesis
    unfolding f using parse_version_tag_typed [of tag ?f] by (cases b) auto
qed

lemma tag_not_commit: "''VERSION_TAG'' \<notin> commit_fields" "''VERSION_TAG'' \<in> tag_fields"
  by (simp_all add: commit_fields_def tag_fields_def)

lemma find_closest_ns3_tag_parsed:
  assumes "find_closest_ns3_tag git f = Inr f'"
  shows "\<exists>out. parse_version_tag (strip out) f = (True, f')"
proof -
  from assms obtain out where out: "(case parse_version_tag (strip out) f of
      (True, f') \<Rightarrow> Inr f' | (False, _) \<Rightarrow> Inl (BadTag (strip out))) = Inr f'"
    unfolding find_closest_ns3_tag_def and_then_eq_Inr by blast
  then have "parse_version_tag (strip out) f = (True, f')"
    by (cases "parse_version_tag (strip out) f"; cases "fst (parse_version_tag (strip out) f)") auto
  then show ?thesis ..
qed

lemma find_tags_typed:
  assumes "find_tags git [] = Inr f"
  shows "well_typed f \<and> set (keys f) = commit_fields \<union> tag_fields"
proof -
  from assms obtain f0 where f0: "find_closest_tag git [] = Inr f0"
    "(if ''VERSION_TAG'' \<notin> set (keys f0) then find_closest_ns3_tag git f0 else Inr f0) = Inr f"
    by (auto simp: find_tags_def res_simps)
  note typed = find_closest_tag_typed [OF f0(1)]
  show ?thesis
  proof (cases "''VERSION_TAG'' \<in> set (keys f0)")
    case True
    with typed tag_not_commit f0(2) show ?thesis by auto
  next
    case False
    then have keys: "set (keys f0) = commit_fields" using typed tag_not_commit by auto
    from False f0(2) have "find_closest_ns3_tag git f0 = Inr f" by simp
    then obtain out where "parse_version_tag (strip out) f0 = (True, f)"
      using find_closest_ns3_tag_parsed by blast
    from parse_version_tag_typed(1) [OF this] typed keys show ?thesis by simp
  qed
qed

text \<open>
  A task that succeeds has all nine fields, with values of the types the header expects, in the
  cache file and in the environment.
\<close>

lemma map_of_merge_env:
  "wf_dict f \<Longrightarrow> map_of (merge_env env f) k = (case map_of f k of None \<Rightarrow> map_of env k | Some v \<Rightarrow> Some v)"
proof (induction f arbitrary: env)
  case (Cons kv f)
  obtain k' v where kv: "kv = (k', v)" by (cases kv)
  with Cons.prems have "map_of f k' = None" "wf_dict f" by (auto simp: wf_dict_def map_of_eq_None_iff)
  with Cons.IH [of "AList.update k' v env"] show ?case
    by (cases "k = k'") (auto simp: kv merge_env_def update_conv' split: option.splits)
qed (simp add: merge_env_def)

lemma wf_set_field: "wf_dict f \<Longrightarrow> wf_dict (set_field k v f)"
  by (simp add: set_field_def wf_dict_def distinct_update)

lemma parse_version_tag_wf: "wf_dict f \<Longrightarrow> wf_dict (snd (parse_version_tag tag f))"
  by (auto simp: parse_version_tag_def intro!: wf_set_field split: option.splits)

lemma find_tags_wf:
  assumes "find_tags git [] = Inr f" shows "wf_dict f"
proof -
  from assms obtain f0 where f0: "find_closest_tag git [] = Inr f0"
    "(if ''VERSION_TAG'' \<notin> set (keys f0) then find_closest_ns3_tag git f0 else Inr f0) = Inr f"
    unfolding find_tags_def and_then_eq_Inr by blast
  from f0(1) have wf: "wf_dict f0"
    by (auto simp: find_closest_tag_def and_then_eq_Inr intro!: parse_version_tag_wf wf_set_field split: option.splits prod.splits)
  show ?thesis
  proof (cases "''VERSION_TAG'' \<in> set (keys f0)")
    case True
    with f0(2) wf show ?thesis by simp
  next
    case False
    with f0(2) have "find_closest_ns3_tag git f0 = Inr f" by simp
    then obtain out where "parse_version_tag (strip out) f0 = (True, f)"
      using find_closest_ns3_tag_parsed by blast
    with parse_version_tag_wf [OF wf, of "strip out"] show ?thesis by simp
  qed
qed

lemma typed_lookup: "well_typed f \<Longrightarrow> map_of f k = Some v \<Longrightarrow> field_ok k v"
  by (auto simp: well_typed_def list_all_iff dest!: map_of_SomeD)

text \<open>
  C24. When the version task succeeds, each version field is stored and set in the environment
  with a value of its type: numbers are digits, strings are quoted, the dirty flag is 0 or 1.
\<close>

theorem version_task_typed:
  assumes "version_task git store_fails path s = (0, s')" "k \<in> commit_fields \<union> tag_fields"
  shows "\<exists>f v. stored s' = stored s @ [(path_join (path_join path ''model'') ''version.cache'', f)] \<and>
    map_of f k = Some v \<and> map_of (build_env s') k = Some v \<and> field_ok k v"
proof -
  from assms(1) obtain f where f: "find_tags git [] = Inr f" and s':
    "s' = s\<lparr>stored := stored s @ [(path_join (path_join path ''model'') ''version.cache'', f)], build_env := merge_env (build_env s) f\<rparr>"
    by (auto simp: version_task_def Let_def split: sum.splits option.splits)
  note typed = find_tags_typed [OF f]
  with assms(2) obtain v where v: "map_of f k = Some v"
    by (metis map_of_eq_None_iff not_None_eq set_map)
  with map_of_merge_env [OF find_tags_wf [OF f], of "build_env s" k] typed_lookup [OF _ v] typed s'
  show ?thesis by (intro exI [of _ f] exI [of _ v]) simp
qed

text \<open>A task that fails says why in the log and changes nothing else.\<close>

theorem version_task_fails:
  "case version_task git store_fails path s of (code, s') \<Rightarrow>
     code = 0 \<and> logged s' = logged s \<or> (\<exists>why. code = 1 \<and> s' = s\<lparr>logged := logged s @ [why]\<rparr>)"
  by (auto simp: version_task_def Let_def split: sum.splits option.splits)

section \<open>Witnesses\<close>

theorem any_patch_separator_witness:
  "\<exists>v. match_version ''ns-3.34-2'' = Some v \<and> patch v = Some ''2''"
proof -
  have "show_nat 3 = ''3''" "show_nat 34 = ''34''" "show_nat 2 = ''2''" by code_simp+
  with any_patch_separator [of "CHR ''-''" 3 34 2] show ?thesis by (simp add: not_digit_g)
qed

theorem release_tag_roundtrip_witness:
  "parse_version_tag ''ns-3.34.1-RC2'' [] = (True, release_fields 3 34 (Some 1) (Some ''2''))"
proof -
  have "\<not> is_space (CHR ''2'')" "release_tag 3 34 (Some 1) (Some ''2'') = ''ns-3.34.1-RC2''" by code_simp+
  with release_tag_roundtrip [of "Some ''2''" 3 34 "Some 1"] show ?thesis by simp
qed

definition sample_git :: command_runner where
  "sample_git cmd =
     (if cmd ! 1 = ''describe'' \<and> cmd ! 3 = ''--dirty'' then Inr (''fork-4-g0a1'' @ newline)
      else if cmd ! 1 = ''describe'' then Inr (''ns-3.34'' @ newline) else Inl None)"

definition sample_task :: task_state where
  "sample_task = \<lparr>stored = [], build_env = [(''PREFIX'', ''/usr'')], logged = []\<rparr>"

theorem version_task_typed_witness:
  "map_of (build_env (snd (version_task sample_git (\<lambda>_. None) ''/ns3'' sample_task))) ''VERSION_MINOR'' = Some ''34''"
proof -
  let ?s = "snd (version_task sample_git (\<lambda>_. None) ''/ns3'' sample_task)"
  have run: "version_task sample_git (\<lambda>_. None) ''/ns3'' sample_task = (0, ?s)" by code_simp
  have f: "map_of (snd (hd (stored ?s))) ''VERSION_MINOR'' = Some ''34''" by code_simp
  have "''VERSION_MINOR'' \<in> commit_fields \<union> tag_fields" by (simp add: tag_fields_def)
  from version_task_typed [OF run this] obtain g v where
    "stored ?s = stored sample_task @ [(path_join (path_join ''/ns3'' ''model'') ''version.cache'', g)]"
    "map_of g ''VERSION_MINOR'' = Some v" "map_of (build_env ?s) ''VERSION_MINOR'' = Some v"
    by blast
  with f show ?thesis by (simp add: sample_task_def)
qed

end
