(* ===== verification/WafCommand.thy ===== *)
theory WafCommand
  imports Shellcmd
begin

text \<open>
  waf-tools/command.py: the task of the \<open>command\<close> feature, which parses its command with
  shellcmd.py, substitutes the variables of the build in the parsed pipeline, and runs it. What
  \<open>eval\<close> gives for a variable is a parameter.
\<close>

section \<open>Substitution\<close>

text \<open>
  The value of an expression: a node with its source path and its path in the build tree, the lists
  of inputs and of outputs themselves, another list, a string, or something else.
\<close>

datatype cmd_value =
    NodeValue string string
  | InputsValue
  | OutputsValue
  | ListValue "cmd_value list"
  | StringValue string
  | OtherValue

record command_task =
  inputs :: "(string \<times> string) list"
  outputs :: "(string \<times> string) list"
  eval_arg :: "string \<Rightarrow> cmd_value res"

text \<open>What the substitution function returns must be a string.\<close>

definition as_string :: "cmd_value \<Rightarrow> string res" where
  "as_string v = (case v of StringValue s \<Rightarrow> Inr s | _ \<Rightarrow> Inl TypeError)"

definition subst_value :: "command_task \<Rightarrow> string \<Rightarrow> cmd_value \<Rightarrow> string res" where
  "subst_value t var v =
     (case v of
        NodeValue src bld \<Rightarrow>
          if var = ''TGT'' then Inr bld else if var = ''SRC'' then Inr src else Inl ValueError
      | InputsValue \<Rightarrow> (case inputs t of [n] \<Rightarrow> Inr (fst n) | _ \<Rightarrow> Inl ValueError)
      | OutputsValue \<Rightarrow> (case outputs t of [n] \<Rightarrow> Inr (snd n) | _ \<Rightarrow> Inl ValueError)
      | ListValue vs \<Rightarrow> (case vs of [w] \<Rightarrow> as_string w | _ \<Rightarrow> Inl AssertionError)
      | _ \<Rightarrow> as_string v)"

text \<open>
  The regular expression: \<open>$$\<close>, or a word in braces with code after it that ends at the first
  closing brace of the line.
\<close>

definition match_subst :: "string \<Rightarrow> (string \<times> string \<times> string) option" where
  "match_subst s =
     (case eat ''${'' s of
        None \<Rightarrow> None
      | Some r \<Rightarrow>
          (let var = takeWhile is_word_char r; more = dropWhile is_word_char r;
               code = takeWhile (\<lambda>c. c \<noteq> CHR ''}'' \<and> c \<noteq> CHR 0x0A) more
           in case dropWhile (\<lambda>c. c \<noteq> CHR ''}'' \<and> c \<noteq> CHR 0x0A) more of
                [] \<Rightarrow> None
              | c # rest \<Rightarrow> if var \<noteq> [] \<and> c = CHR ''}'' then Some (var, code, rest) else None))"

lemma match_subst_shorter: "match_subst s = Some (var, code, rest) \<Longrightarrow> length rest < length s"
proof -
  assume m: "match_subst s = Some (var, code, rest)"
  let ?r = "drop 2 s"
  from m have "dropWhile (\<lambda>c. c \<noteq> CHR ''}'' \<and> c \<noteq> CHR 0x0A) (dropWhile is_word_char ?r) = CHR ''}'' # rest"
    by (auto simp: match_subst_def eat_def Let_def numeral_2_eq_2 split: option.splits list.splits if_splits)
  then have "suffix (CHR ''}'' # rest) ?r"
    by (metis suffix_dropWhile suffix_order.trans)
  then have "length (CHR ''}'' # rest) \<le> length ?r" by (rule suffix_length_le)
  then show ?thesis by simp
qed

function subst_arg :: "command_task \<Rightarrow> string \<Rightarrow> string res" where
  "subst_arg t [] = Inr []"
| "subst_arg t (c # s) =
     (if startswith (c # s) ''$$'' then and_then (subst_arg t (tl s)) (\<lambda>r. Inr (CHR ''$'' # r))
      else case match_subst (c # s) of
        Some (var, code, rest) \<Rightarrow>
          and_then (eval_arg t (var @ code)) (\<lambda>v.
          and_then (subst_value t var v) (\<lambda>x.
          and_then (subst_arg t rest) (\<lambda>r. Inr (x @ r))))
      | None \<Rightarrow> and_then (subst_arg t s) (\<lambda>r. Inr (c # r)))"
  by pat_completeness auto
termination
  by (relation "measure (\<lambda>(t, s). length s)") (auto dest!: match_subst_shorter)

section \<open>Substitution in a pipeline\<close>

definition subst_option :: "('a \<Rightarrow> 'b res) \<Rightarrow> 'a option \<Rightarrow> 'b option res" where
  "subst_option f o' = (case o' of None \<Rightarrow> Inr None | Some x \<Rightarrow> and_then (f x) (\<lambda>y. Inr (Some y)))"

definition subst_redirect :: "command_task \<Rightarrow> redirect \<Rightarrow> redirect res" where
  "subst_redirect t r = (case r of ToFile f \<Rightarrow> and_then (subst_arg t f) (\<lambda>g. Inr (ToFile g)) | _ \<Rightarrow> Inr r)"

definition subst_env :: "command_task \<Rightarrow> (string, string) dict \<Rightarrow> (string, string) dict res" where
  "subst_env t d = map_res (\<lambda>kv. and_then (subst_arg t (snd kv)) (\<lambda>v. Inr (fst kv, v))) d"

definition subst_command :: "command_task \<Rightarrow> command \<Rightarrow> command res" where
  "subst_command t c =
     and_then (subst_option (subst_arg t) (cmd_stdin c)) (\<lambda>i.
     and_then (subst_option (subst_redirect t) (cmd_stdout c)) (\<lambda>out.
     and_then (subst_option (subst_redirect t) (cmd_stderr c)) (\<lambda>err.
     and_then (map_res (subst_arg t) (cmd_argv c)) (\<lambda>argv.
     and_then (subst_option (subst_env t) (cmd_env_vars c)) (\<lambda>env.
       Inr (c\<lparr>cmd_argv := argv, cmd_stdin := i, cmd_stdout := out, cmd_stderr := err, cmd_env_vars := env\<rparr>))))))"

definition subst_node :: "command_task \<Rightarrow> node \<Rightarrow> node res" where
  "subst_node t n =
     (case n of
        Command c \<Rightarrow> and_then (subst_command t c) (\<lambda>c. Inr (Command c))
      | Chdir (Some d) \<Rightarrow> and_then (subst_arg t d) (\<lambda>d. Inr (Chdir (Some d)))
      | Chdir None \<Rightarrow> Inl TypeError
      | _ \<Rightarrow> Inr n)"

definition command_task_run ::
  "os \<Rightarrow> bool \<Rightarrow> command_task \<Rightarrow> string list + string \<Rightarrow> int option res \<times> runner" where
  "command_task_run os verbose t command =
     (case and_then (parse command) (map_res (subst_node t)) of
        Inl e \<Rightarrow> (Inl e, run_start)
      | Inr ns \<Rightarrow> run_pipeline os verbose ns)"

text \<open>The text shown for a task.\<close>

definition show_task :: "command_task \<Rightarrow> (string \<times> string \<Rightarrow> string) \<Rightarrow> string list + string \<Rightarrow> string res" where
  "show_task t bldpath command =
     and_then (parse command) (\<lambda>ns.
       Inr (''command ('' @ get_abbreviated_command ns @ ''): '' @ join '' '' (map bldpath (inputs t))
            @ (if outputs t \<noteq> [] then '' -> '' else []) @ join '' '' (map bldpath (outputs t))))"

text \<open>
  The command that generates the Python bindings of a module (\<open>ns3_python_bindings\<close> in
  src/wscript).
\<close>

definition bindings_command :: "string \<Rightarrow> string \<Rightarrow> string \<Rightarrow> string list" where
  "bindings_command module_abs_src_path apidefs extension_name =
     [''NS3_ENABLED_FEATURES=${FEATURES}'', ''GCC_RTTI_ABI_COMPLETE=${GCC_RTTI_ABI_COMPLETE}'', ''${PYTHON}'',
      ''${SRC[0]}'', module_abs_src_path, apidefs, extension_name, ''${TGT[0]}'', ''2>'', ''${TGT[2]}'']"

section \<open>Plain text\<close>

definition escape_dollars :: "string \<Rightarrow> string" where
  "escape_dollars s = concat (map (\<lambda>c. if c = CHR ''$'' then ''$$'' else [c]) s)"

lemma match_subst_start: "c \<noteq> CHR ''$'' \<Longrightarrow> match_subst (c # s) = None"
  by (auto simp: match_subst_def eat_def)

lemma subst_arg_other: "c \<noteq> CHR ''$'' \<Longrightarrow> subst_arg t (c # s) = and_then (subst_arg t s) (\<lambda>r. Inr (c # r))"
  by (auto simp: match_subst_start)

lemma subst_arg_dollars: "subst_arg t (CHR ''$'' # CHR ''$'' # s) = and_then (subst_arg t s) (\<lambda>r. Inr (CHR ''$'' # r))"
  by simp

declare subst_arg.simps(2) [simp del]

text \<open>Any text passes through when its dollar signs are doubled.\<close>

theorem subst_escaped: "subst_arg t (escape_dollars s) = Inr s"
proof (induction s)
  case (Cons c s)
  then show ?case
    by (cases "c = CHR ''$''") (simp_all add: escape_dollars_def subst_arg_other subst_arg_dollars)
qed (simp add: escape_dollars_def)

lemma subst_plain: "CHR ''$'' \<notin> set s \<Longrightarrow> subst_arg t s = Inr s"
  by (induction s) (auto simp: subst_arg_other)

section \<open>The shape of a pipeline\<close>

text \<open>All that decides which commands run, without the text that is substituted.\<close>

definition target_shape :: "redirect option \<Rightarrow> (unit + redirect) option" where
  "target_shape r = map_option (\<lambda>r. case r of ToFile f \<Rightarrow> Inl () | _ \<Rightarrow> Inr r) r"

definition command_shape :: "command \<Rightarrow> string \<times> nat \<times> bool \<times> (unit + redirect) option \<times> (unit + redirect) option" where
  "command_shape c =
     (cmd_name c, length (cmd_argv c), cmd_stdin c = None, target_shape (cmd_stdout c), target_shape (cmd_stderr c))"

definition same_shape :: "node \<Rightarrow> node \<Rightarrow> bool" where
  "same_shape m n =
     (case (m, n) of
        (Command c, Command d) \<Rightarrow> command_shape c = command_shape d
      | (Chdir a, Chdir b) \<Rightarrow> (a = None) = (b = None)
      | _ \<Rightarrow> m = n)"

lemma subst_redirect_target: "subst_option (subst_redirect t) r = Inr r' \<Longrightarrow> target_shape r' = target_shape r"
  by (auto simp: target_shape_def subst_option_def subst_redirect_def and_then_eq_Inr split: option.splits redirect.splits)

lemma subst_command_shape:
  assumes "subst_command t c = Inr d" shows "command_shape d = command_shape c"
proof -
  from assms obtain i out err argv env where
    "subst_option (subst_arg t) (cmd_stdin c) = Inr i" "subst_option (subst_redirect t) (cmd_stdout c) = Inr out"
    "subst_option (subst_redirect t) (cmd_stderr c) = Inr err" "map_res (subst_arg t) (cmd_argv c) = Inr argv"
    "d = c\<lparr>cmd_argv := argv, cmd_stdin := i, cmd_stdout := out, cmd_stderr := err, cmd_env_vars := env\<rparr>"
    unfolding subst_command_def and_then_eq_Inr by blast
  moreover from this(1) have "(i = None) = (cmd_stdin c = None)"
    by (auto simp: subst_option_def and_then_eq_Inr split: option.splits)
  ultimately show ?thesis
    using subst_redirect_target by (auto simp: command_shape_def map_res_all2 dest: list_all2_lengthD)
qed

lemma subst_node_shape: "subst_node t n = Inr m \<Longrightarrow> same_shape m n"
  by (auto simp: subst_node_def same_shape_def and_then_eq_Inr subst_command_shape split: node.splits option.splits)

lemma same_shape_simps:
  "same_shape m (Command c) \<longleftrightarrow> (\<exists>d. m = Command d \<and> command_shape d = command_shape c)"
  "same_shape m (Chdir b) \<longleftrightarrow> (\<exists>a. m = Chdir a \<and> (a = None) = (b = None))"
  "same_shape m Pipe \<longleftrightarrow> m = Pipe" "same_shape m And \<longleftrightarrow> m = And" "same_shape m Or \<longleftrightarrow> m = Or"
  by (cases m; auto simp: same_shape_def)+

lemma target_shape_stdout: "target_shape r = Some (Inr ToSTDOUT) \<longleftrightarrow> r = Some ToSTDOUT"
  by (cases r rule: option.exhaust; cases "the r") (auto simp: target_shape_def)

lemma shape_stdout: "command_shape c = command_shape d \<Longrightarrow> (cmd_stdout c = Some ToSTDOUT) = (cmd_stdout d = Some ToSTDOUT)"
  unfolding command_shape_def target_shape_stdout [symmetric] by simp

lemma shape_runnable: "list_all2 same_shape ms ns \<Longrightarrow> runnable ns \<Longrightarrow> runnable ms"
proof (induction ns arbitrary: ms rule: runnable.induct)
  case (2 c op v va)
  then show ?case
    by (auto simp: list_all2_Cons2 same_shape_simps dest: shape_stdout)
qed (auto simp: list_all2_Cons2 same_shape_simps dest: shape_stdout)

lemma shape_shell: "list_all2 same_shape ms ns \<Longrightarrow> shell code ms n = shell code ns n"
  by (induction code ns n arbitrary: ms rule: shell.induct) (auto simp: list_all2_Cons2 same_shape_simps)

lemma shape_argvs: "list_all2 same_shape ms ns \<Longrightarrow> map length (argvs ms) = map length (argvs ns)"
  by (induction ns arbitrary: ms rule: argvs.induct) (auto simp: list_all2_Cons2 same_shape_simps command_shape_def)

text \<open>
  C18. Substituted text is never parsed: the task starts the commands, with the numbers of arguments, that
  its command line shows, and its status is the one the command line would have, whatever the values
  of the variables contain.
\<close>

theorem substitution_keeps_commands:
  assumes "parse command = Inr ns" "map_res (subst_node t) ns = Inr ms"
    and "runnable ns" "all_available os"
  shows "case command_task_run os False t command of (r, s) \<Rightarrow>
     r = Inr (snd (shell (exit_code os) ns 0)) \<and>
     launches (r_trace s) = take (fst (shell (exit_code os) ns 0)) (argvs ms) \<and>
     map length (launches (r_trace s)) = take (fst (shell (exit_code os) ns 0)) (map length (argvs ns))"
proof -
  have shape: "list_all2 same_shape ms ns"
    using assms(2) unfolding map_res_all2 by (auto simp: list_all2_conv_all_nth subst_node_shape)
  have "balanced run_start" by (simp add: balanced_def run_start_def)
  from run_loop_shell [OF shape_runnable [OF shape assms(3)] assms(4) _ this] assms(1,2)
  show ?thesis
    by (auto simp: command_task_run_def run_pipeline_def run_start_def shape_shell [OF shape] shape_argvs [OF shape]
        take_map [symmetric])
qed

theorem substitution_keeps_commands_witness:
  "fst (command_task_run \<lparr>can_open = \<lambda>_. True, can_start = \<lambda>_. True, exit_code = (\<lambda>n. 3), os_environ = []\<rparr> False
     \<lparr>inputs = [(''a && b'', ''x'')], outputs = [], eval_arg = (\<lambda>_. Inr InputsValue)\<rparr> (Inr ''cat ${SRC}'')) = Inr (Some 3)"
proof -
  let ?t = "\<lparr>inputs = [(''a && b'', ''x'')], outputs = [], eval_arg = (\<lambda>_. Inr InputsValue)\<rparr>"
  let ?os = "\<lparr>can_open = \<lambda>_. True, can_start = \<lambda>_. True, exit_code = (\<lambda>n. 3), os_environ = []\<rparr>"
  have p: "parse (Inr ''cat ${SRC}'') = Inr [Command ((new_command ''cat'')\<lparr>cmd_argv := [''cat'', ''${SRC}'']\<rparr>)]"
    by code_simp
  have "map_res (subst_node ?t) [Command ((new_command ''cat'')\<lparr>cmd_argv := [''cat'', ''${SRC}'']\<rparr>)] =
      Inr [Command ((new_command ''cat'')\<lparr>cmd_argv := [''cat'', ''a && b'']\<rparr>)]"
    by code_simp
  from substitution_keeps_commands [OF p this, of ?os] show ?thesis
    by (auto simp: all_available_def new_command_def)
qed

section \<open>The command of the bindings\<close>

text \<open>
  The command of a module's bindings becomes one process: the generator script with its four
  arguments and the generated file, with the features in its environment and its errors in the log.
\<close>

definition bindings_task :: "command_task \<Rightarrow> string \<Rightarrow> string \<Rightarrow> string \<Rightarrow> string \<Rightarrow> string \<Rightarrow> string \<Rightarrow> bool" where
  "bindings_task t features gcc python script cc log \<longleftrightarrow>
     eval_arg t ''FEATURES'' = Inr (StringValue features) \<and>
     eval_arg t ''GCC_RTTI_ABI_COMPLETE'' = Inr (StringValue gcc) \<and>
     eval_arg t ''PYTHON'' = Inr (ListValue [StringValue python]) \<and>
     (\<exists>b. eval_arg t ''SRC[0]'' = Inr (NodeValue script b)) \<and>
     (\<exists>s. eval_arg t ''TGT[0]'' = Inr (NodeValue s cc)) \<and>
     (\<exists>s. eval_arg t ''TGT[2]'' = Inr (NodeValue s log))"

definition plain_argument :: "string \<Rightarrow> bool" where
  "plain_argument a \<longleftrightarrow> CHR ''$'' \<notin> set a \<and> a \<notin> {''>'', ''2>'', ''2>&1'', ''<'', ''|'', ''&&'', ''||''}"

lemma bindings_parse:
  assumes "plain_argument path" "plain_argument apidefs" "plain_argument ext"
  shows "parse (Inl (bindings_command path apidefs ext)) = Inr
    [Command \<lparr>cmd_name = ''${PYTHON}'', cmd_argv = [''${PYTHON}'', ''${SRC[0]}'', path, apidefs, ext, ''${TGT[0]}''],
       cmd_stdin = None, cmd_stdout = None, cmd_stderr = Some (ToFile ''${TGT[2]}''),
       cmd_env_vars = Some [(''NS3_ENABLED_FEATURES'', ''${FEATURES}''), (''GCC_RTTI_ABI_COMPLETE'', ''${GCC_RTTI_ABI_COMPLETE}'')]\<rparr>]"
proof -
  have env: "env_var_match ''NS3_ENABLED_FEATURES=${FEATURES}'' = Some (''NS3_ENABLED_FEATURES'', ''${FEATURES}'')"
    "env_var_match ''GCC_RTTI_ABI_COMPLETE=${GCC_RTTI_ABI_COMPLETE}'' = Some (''GCC_RTTI_ABI_COMPLETE'', ''${GCC_RTTI_ABI_COMPLETE}'')"
    "env_var_match ''${PYTHON}'' = None"
    by code_simp+
  show ?thesis
    using assms
    by (simp add: parse_def parse_tokens_def bindings_command_def parse_step_def parse_begin_def env parse_command_def
        on_command_def set_stderr_def commit_command_def new_command_def plain_argument_def)
qed

lemma subst_whole:
  "match_subst s = Some (var, code, []) \<Longrightarrow>
     subst_arg t s = and_then (eval_arg t (var @ code)) (subst_value t var)"
proof -
  assume m: "match_subst s = Some (var, code, [])"
  then have "startswith s ''${''" by (auto simp: match_subst_def eat_def split: option.splits if_splits)
  then obtain r where "s = CHR ''$'' # CHR ''{'' # r" by (auto simp: startswith_prefix prefix_def)
  with m show ?thesis by (simp add: subst_arg.simps(2))
qed

theorem bindings_run:
  assumes "bindings_task t features gcc python script cc log" "all_available os"
    and "plain_argument path" "plain_argument apidefs" "plain_argument ext"
  shows "case command_task_run os False t (Inl (bindings_command path apidefs ext)) of (r, s) \<Rightarrow>
    r = Inr (Some (exit_code os 0)) \<and> launches (r_trace s) = [[python, script, path, apidefs, ext, cc]]"
proof -
  have m: "match_subst ''${PYTHON}'' = Some (''PYTHON'', [], [])" "match_subst ''${FEATURES}'' = Some (''FEATURES'', [], [])"
    "match_subst ''${GCC_RTTI_ABI_COMPLETE}'' = Some (''GCC_RTTI_ABI_COMPLETE'', [], [])"
    "match_subst ''${SRC[0]}'' = Some (''SRC'', ''[0]'', [])" "match_subst ''${TGT[0]}'' = Some (''TGT'', ''[0]'', [])"
    "match_subst ''${TGT[2]}'' = Some (''TGT'', ''[2]'', [])"
    by code_simp+
  have subst: "subst_arg t ''${PYTHON}'' = Inr python" "subst_arg t ''${FEATURES}'' = Inr features"
    "subst_arg t ''${GCC_RTTI_ABI_COMPLETE}'' = Inr gcc" "subst_arg t ''${SRC[0]}'' = Inr script"
    "subst_arg t ''${TGT[0]}'' = Inr cc" "subst_arg t ''${TGT[2]}'' = Inr log"
    using assms(1) subst_whole [OF m(1), of t] subst_whole [OF m(2), of t] subst_whole [OF m(3), of t]
      subst_whole [OF m(4), of t] subst_whole [OF m(5), of t] subst_whole [OF m(6), of t]
    by (auto simp: bindings_task_def subst_value_def as_string_def)
  have plain: "subst_arg t path = Inr path" "subst_arg t apidefs = Inr apidefs" "subst_arg t ext = Inr ext"
    using assms(3-5) by (simp_all add: plain_argument_def subst_plain)
  let ?c = "\<lparr>cmd_name = ''${PYTHON}'', cmd_argv = [python, script, path, apidefs, ext, cc], cmd_stdin = None,
     cmd_stdout = None, cmd_stderr = Some (ToFile log),
     cmd_env_vars = Some [(''NS3_ENABLED_FEATURES'', features), (''GCC_RTTI_ABI_COMPLETE'', gcc)]\<rparr>"
  have run: "command_task_run os False t (Inl (bindings_command path apidefs ext)) = run_pipeline os False [Command ?c]"
    by (simp add: command_task_run_def bindings_parse [OF assms(3-5)] subst_node_def subst_command_def subst_option_def
        subst_redirect_def subst_env_def subst plain)
  have "runnable [Command ?c]" "balanced run_start" by (simp_all add: balanced_def run_start_def)
  from run_loop_shell [OF this(1) assms(2) _ this(2)] show ?thesis
    unfolding run by (auto simp: run_pipeline_def run_start_def)
qed

theorem bindings_run_witness:
  "\<exists>s. command_task_run \<lparr>can_open = \<lambda>_. True, can_start = \<lambda>_. True, exit_code = (\<lambda>n. 0), os_environ = []\<rparr> False
     \<lparr>inputs = [], outputs = [], eval_arg = (\<lambda>e.
        if e = ''PYTHON'' then Inr (ListValue [StringValue ''python3''])
        else if e = ''SRC[0]'' \<or> e = ''TGT[0]'' \<or> e = ''TGT[2]'' then Inr (NodeValue ''gen.py'' ''out'')
        else Inr (StringValue ''yes''))\<rparr>
     (Inl (bindings_command ''src/core'' ''gcc_LP64'' ''core'')) = (Inr (Some 0), s) \<and>
   launches (r_trace s) = [[''python3'', ''gen.py'', ''src/core'', ''gcc_LP64'', ''core'', ''out'']]"
proof -
  let ?t = "\<lparr>inputs = [], outputs = [], eval_arg = (\<lambda>e.
        if e = ''PYTHON'' then Inr (ListValue [StringValue ''python3''])
        else if e = ''SRC[0]'' \<or> e = ''TGT[0]'' \<or> e = ''TGT[2]'' then Inr (NodeValue ''gen.py'' ''out'')
        else Inr (StringValue ''yes''))\<rparr>"
  have "bindings_task ?t ''yes'' ''yes'' ''python3'' ''gen.py'' ''out'' ''out''"
    by (simp add: bindings_task_def)
  from bindings_run [OF this, of "\<lparr>can_open = \<lambda>_. True, can_start = \<lambda>_. True, exit_code = (\<lambda>n. 0), os_environ = []\<rparr>"
      "''src/core''" "''gcc_LP64''" "''core''"]
  show ?thesis by (auto simp: all_available_def plain_argument_def split: prod.splits)
qed

end
