(* ===== verification/VizThread.thy ===== *)
theory VizThread
  imports Prelude Complex_Main
begin

text \<open>
  src/visualizer/visualizer/core.py, the two threads: \<open>SimulationThread.run\<close> advances the
  simulator when it is told to, and the main loop of GTK runs the handlers of \<open>Visualizer\<close> that
  show the results, give the signal to go on, pause and quit. The simulator is not Python: what
  \<open>SimulatorRunUntil\<close> does is any advance of the time up to the target. \<open>update_view\<close> and what
  the callbacks of \<open>update_model\<close> do returns here: where it raises (as for packets without bytes, see
  \<open>VizTraffic\<close>) the handler ends there, which is not a case of the steps.
\<close>

section \<open>The state\<close>

text \<open>
  Where the simulation thread is, and what the main thread is in the middle of: a handler that waits
  for the lock, or \<open>update_view_timeout\<close>, which runs the main loop itself while the lock is taken,
  so that handlers nest. While the main thread has the lock it does nothing else; such a section is
  one step. The last four fields are history: the samples and messages of all runs, the samples that
  \<open>update_model\<close> has passed on, the messages shown, and the time when the view was updated last.
\<close>

datatype sim_pc = TopOfLoop | WaitGo | ClearGo | CheckQuit | Acquire | RunUntil | Release | Ended

datatype activity =
    Polling nat
  | Shown nat "string list"
  | UpdatingModel
  | Locking
  | SettingGo
  | Joining

record 'a viz =
  lock :: bool
  go :: bool
  quit :: bool
  target_time :: rat
  now :: rat
  run_samples :: 'a
  pause_messages :: "string list"
  sim_at :: sim_pc
  idle :: nat
  update_timeout_id :: "nat option"
  timeouts :: "(nat \<times> int) list"
  next_id :: nat
  speed :: rat
  sample_period :: rat
  play_active :: bool
  stack :: "activity list"
  main_over :: bool
  runs :: "'a list"
  delivered :: "'a list"
  said :: "string list"
  shown :: "string list"
  viewed :: rat

section \<open>The handlers\<close>

definition SAMPLE_PERIOD :: rat where
  "SAMPLE_PERIOD = 1 / 10"

definition source_remove :: "nat \<Rightarrow> 'a viz \<Rightarrow> 'a viz" where
  "source_remove i s = s\<lparr>timeouts := filter (\<lambda>t. fst t \<noteq> i) (timeouts s)\<rparr>"

definition stop_timer :: "'a viz \<Rightarrow> 'a viz" where
  "stop_timer s = (case update_timeout_id s of None \<Rightarrow> s | Some i \<Rightarrow> source_remove i s)"

definition start_update_timer :: "'a viz \<Rightarrow> 'a viz" where
  "start_update_timer s =
     (let s = stop_timer s
      in s\<lparr>timeouts := timeouts s @ [(next_id s, \<lfloor>SAMPLE_PERIOD / min (speed s) 1 * 1000\<rfloor>)],
           update_timeout_id := Some (next_id s), next_id := Suc (next_id s)\<rparr>)"

definition on_play_button_toggled :: "'a viz \<Rightarrow> 'a viz" where
  "on_play_button_toggled s = (if play_active s then start_update_timer s else stop_timer s)"

definition play_set_active :: "bool \<Rightarrow> 'a viz \<Rightarrow> 'a viz" where
  "play_set_active b s =
     (if play_active s = b then s else on_play_button_toggled (s\<lparr>play_active := b\<rparr>))"

definition speed_changed :: "rat \<Rightarrow> 'a viz \<Rightarrow> 'a viz" where
  "speed_changed v s = start_update_timer (s\<lparr>speed := v, sample_period := SAMPLE_PERIOD * v\<rparr>)"

text \<open>\<open>update_view_timeout\<close>: the part under the lock, and the rest.\<close>

definition view_update :: "'a viz \<Rightarrow> string list \<times> 'a viz" where
  "view_update s =
     (pause_messages s, s\<lparr>pause_messages := [], viewed := now s, target_time := now s + sample_period s\<rparr>)"

definition after_update :: "nat \<Rightarrow> string list \<Rightarrow> 'a viz \<Rightarrow> 'a viz" where
  "after_update i messages s =
     (let s = (if messages \<noteq> [] then play_set_active False (s\<lparr>shown := shown s @ messages\<rparr>) else s)
      in if \<not> play_active s then source_remove i (s\<lparr>update_timeout_id := None\<rparr>) else s\<lparr>go := True\<rparr>)"

definition update_model :: "'a viz \<Rightarrow> 'a viz" where
  "update_model s = s\<lparr>delivered := delivered s @ [run_samples s]\<rparr>"

definition begin_quit :: "'a viz \<Rightarrow> 'a viz" where
  "begin_quit s = (stop_timer s)\<lparr>update_timeout_id := None, quit := True\<rparr>"

section \<open>The simulation thread\<close>

text \<open>
  A run forgets the messages and samples of the last one. When the time has come already nothing
  else happens; otherwise it ends at the target time at the latest.
\<close>

definition runs_until :: "rat \<Rightarrow> rat \<Rightarrow> 'a \<Rightarrow> rat \<Rightarrow> string list \<Rightarrow> 'a \<Rightarrow> bool" where
  "runs_until t target no_samples t' messages samples \<longleftrightarrow>
     (if target \<le> t then t' = t \<and> messages = [] \<and> samples = no_samples else t \<le> t' \<and> t' \<le> target)"

definition run_simulator :: "rat \<Rightarrow> string list \<Rightarrow> 'a \<Rightarrow> 'a viz \<Rightarrow> 'a viz" where
  "run_simulator t messages samples s =
     s\<lparr>now := t, run_samples := samples, pause_messages := pause_messages s @ messages, idle := Suc (idle s),
       runs := runs s @ [samples], said := said s @ messages\<rparr>"

inductive sim_step :: "'a \<Rightarrow> 'a viz \<Rightarrow> 'a viz \<Rightarrow> bool" for none where
  loop_on: "sim_at s = TopOfLoop \<Longrightarrow> \<not> quit s \<Longrightarrow> sim_step none s (s\<lparr>sim_at := WaitGo\<rparr>)"
| loop_end: "sim_at s = TopOfLoop \<Longrightarrow> quit s \<Longrightarrow> sim_step none s (s\<lparr>sim_at := Ended\<rparr>)"
| woken: "sim_at s = WaitGo \<Longrightarrow> go s \<Longrightarrow> sim_step none s (s\<lparr>sim_at := ClearGo\<rparr>)"
| clear_go: "sim_at s = ClearGo \<Longrightarrow> sim_step none s (s\<lparr>sim_at := CheckQuit, go := False\<rparr>)"
| break_loop: "sim_at s = CheckQuit \<Longrightarrow> quit s \<Longrightarrow> sim_step none s (s\<lparr>sim_at := Ended\<rparr>)"
| go_on: "sim_at s = CheckQuit \<Longrightarrow> \<not> quit s \<Longrightarrow> sim_step none s (s\<lparr>sim_at := Acquire\<rparr>)"
| acquire: "sim_at s = Acquire \<Longrightarrow> \<not> lock s \<Longrightarrow> sim_step none s (s\<lparr>sim_at := RunUntil, lock := True\<rparr>)"
| run: "sim_at s = RunUntil \<Longrightarrow> runs_until (now s) (target_time s) none t messages samples \<Longrightarrow>
    sim_step none s ((run_simulator t messages samples s)\<lparr>sim_at := Release\<rparr>)"
| release: "sim_at s = Release \<Longrightarrow> sim_step none s (s\<lparr>sim_at := TopOfLoop, lock := False\<rparr>)"

inductive_cases sim_stepE: "sim_step none s s'"

section \<open>The main thread\<close>

text \<open>Handlers run from the main loop, or from the loop inside \<open>update_view_timeout\<close>.\<close>

definition dispatching :: "'a viz \<Rightarrow> bool" where
  "dispatching s = (case stack s of [] \<Rightarrow> \<not> main_over s | Polling i # _ \<Rightarrow> True | _ \<Rightarrow> False)"

definition push :: "activity \<Rightarrow> 'a viz \<Rightarrow> 'a viz" where
  "push a s = s\<lparr>stack := a # stack s\<rparr>"

inductive gtk_step :: "'a viz \<Rightarrow> 'a viz \<Rightarrow> bool" where
  timeout: "dispatching s \<Longrightarrow> i \<in> fst ` set (timeouts s) \<Longrightarrow> Polling i \<notin> set (stack s) \<Longrightarrow>
    gtk_step s (push (Polling i) s)"
| poll: "stack s = Polling i # rest \<Longrightarrow> \<not> lock s \<Longrightarrow> view_update s = (messages, s') \<Longrightarrow>
    gtk_step s (s'\<lparr>stack := Shown i messages # rest\<rparr>)"
| after: "stack s = Shown i messages # rest \<Longrightarrow> gtk_step s (after_update i messages (s\<lparr>stack := rest\<rparr>))"
| serve_idle: "dispatching s \<Longrightarrow> idle s = Suc n \<Longrightarrow> gtk_step s (push UpdatingModel (s\<lparr>idle := n\<rparr>))"
| model: "stack s = UpdatingModel # rest \<Longrightarrow> \<not> lock s \<Longrightarrow> gtk_step s (update_model (s\<lparr>stack := rest\<rparr>))"
| want_lock: "dispatching s \<Longrightarrow> gtk_step s (push Locking s)"
| locked: "stack s = Locking # rest \<Longrightarrow> \<not> lock s \<Longrightarrow> gtk_step s (s\<lparr>stack := rest\<rparr>)"
| play: "dispatching s \<Longrightarrow> gtk_step s (play_set_active b s)"
| change_speed: "dispatching s \<Longrightarrow> 1 / 100 \<le> v \<Longrightarrow> v \<le> 10 \<Longrightarrow> gtk_step s (speed_changed v s)"
| delete_event: "dispatching s \<Longrightarrow> gtk_step s (push SettingGo (begin_quit s))"
| set_go: "stack s = SettingGo # rest \<Longrightarrow> gtk_step s (s\<lparr>go := True, stack := Joining # rest\<rparr>)"
| join_thread: "stack s = Joining # rest \<Longrightarrow> sim_at s = Ended \<Longrightarrow> gtk_step s (s\<lparr>main_over := True, stack := rest\<rparr>)"

inductive_cases gtk_stepE: "gtk_step s s'"

text \<open>At the start the window is there, and setting its initial speed has started the timer.\<close>

definition start_viz :: "'a \<Rightarrow> 'a viz" where
  "start_viz none =
     speed_changed 1
       \<lparr>lock = False, go = False, quit = False, target_time = 0, now = 0, run_samples = none, pause_messages = [],
        sim_at = TopOfLoop, idle = 0, update_timeout_id = None, timeouts = [], next_id = 0, speed = 1,
        sample_period = SAMPLE_PERIOD, play_active = False, stack = [], main_over = False,
        runs = [], delivered = [], said = [], shown = [], viewed = 0\<rparr>"

inductive viz_reachable :: "'a \<Rightarrow> 'a viz \<Rightarrow> bool" for none where
  start: "viz_reachable none (start_viz none)"
| simulate: "viz_reachable none s \<Longrightarrow> sim_step none s s' \<Longrightarrow> viz_reachable none s'"
| view: "viz_reachable none s \<Longrightarrow> gtk_step s s' \<Longrightarrow> viz_reachable none s'"

section \<open>What the handlers leave alone\<close>

lemma stop_timer_fields [simp]:
  "lock (stop_timer s) = lock s" "go (stop_timer s) = go s" "quit (stop_timer s) = quit s"
  "target_time (stop_timer s) = target_time s" "now (stop_timer s) = now s" "run_samples (stop_timer s) = run_samples s"
  "pause_messages (stop_timer s) = pause_messages s" "sim_at (stop_timer s) = sim_at s" "idle (stop_timer s) = idle s"
  "speed (stop_timer s) = speed s" "sample_period (stop_timer s) = sample_period s" "play_active (stop_timer s) = play_active s"
  "stack (stop_timer s) = stack s" "main_over (stop_timer s) = main_over s" "runs (stop_timer s) = runs s"
  "delivered (stop_timer s) = delivered s" "said (stop_timer s) = said s" "shown (stop_timer s) = shown s"
  "viewed (stop_timer s) = viewed s"
  by (simp_all add: stop_timer_def source_remove_def split: option.splits)

lemma start_timer_fields [simp]:
  "lock (start_update_timer s) = lock s" "go (start_update_timer s) = go s" "quit (start_update_timer s) = quit s"
  "target_time (start_update_timer s) = target_time s" "now (start_update_timer s) = now s"
  "run_samples (start_update_timer s) = run_samples s" "pause_messages (start_update_timer s) = pause_messages s"
  "sim_at (start_update_timer s) = sim_at s" "idle (start_update_timer s) = idle s" "speed (start_update_timer s) = speed s"
  "sample_period (start_update_timer s) = sample_period s" "play_active (start_update_timer s) = play_active s"
  "stack (start_update_timer s) = stack s" "main_over (start_update_timer s) = main_over s" "runs (start_update_timer s) = runs s"
  "delivered (start_update_timer s) = delivered s" "said (start_update_timer s) = said s"
  "shown (start_update_timer s) = shown s" "viewed (start_update_timer s) = viewed s"
  by (simp_all add: start_update_timer_def Let_def)

lemma play_fields [simp]:
  "lock (play_set_active b s) = lock s" "go (play_set_active b s) = go s" "quit (play_set_active b s) = quit s"
  "target_time (play_set_active b s) = target_time s" "now (play_set_active b s) = now s"
  "run_samples (play_set_active b s) = run_samples s" "pause_messages (play_set_active b s) = pause_messages s"
  "sim_at (play_set_active b s) = sim_at s" "idle (play_set_active b s) = idle s"
  "sample_period (play_set_active b s) = sample_period s" "play_active (play_set_active b s) = b"
  "stack (play_set_active b s) = stack s" "runs (play_set_active b s) = runs s" "delivered (play_set_active b s) = delivered s"
  "said (play_set_active b s) = said s" "shown (play_set_active b s) = shown s" "viewed (play_set_active b s) = viewed s"
  by (simp_all add: play_set_active_def on_play_button_toggled_def)

lemma speed_fields [simp]:
  "lock (speed_changed v s) = lock s" "go (speed_changed v s) = go s" "quit (speed_changed v s) = quit s"
  "target_time (speed_changed v s) = target_time s" "now (speed_changed v s) = now s"
  "run_samples (speed_changed v s) = run_samples s" "pause_messages (speed_changed v s) = pause_messages s"
  "sim_at (speed_changed v s) = sim_at s" "idle (speed_changed v s) = idle s" "sample_period (speed_changed v s) = SAMPLE_PERIOD * v"
  "stack (speed_changed v s) = stack s" "runs (speed_changed v s) = runs s" "delivered (speed_changed v s) = delivered s"
  "said (speed_changed v s) = said s" "shown (speed_changed v s) = shown s" "viewed (speed_changed v s) = viewed s"
  by (simp_all add: speed_changed_def)

lemma after_update_fields [simp]:
  "lock (after_update i m s) = lock s" "quit (after_update i m s) = quit s" "target_time (after_update i m s) = target_time s"
  "now (after_update i m s) = now s" "run_samples (after_update i m s) = run_samples s"
  "pause_messages (after_update i m s) = pause_messages s" "sim_at (after_update i m s) = sim_at s" "idle (after_update i m s) = idle s"
  "sample_period (after_update i m s) = sample_period s" "stack (after_update i m s) = stack s"
  "runs (after_update i m s) = runs s" "delivered (after_update i m s) = delivered s" "said (after_update i m s) = said s"
  "shown (after_update i m s) = shown s @ m" "viewed (after_update i m s) = viewed s"
  by (simp_all add: after_update_def source_remove_def Let_def)

lemma view_update_fields:
  "view_update s = (m, s') \<Longrightarrow> m = pause_messages s \<and> s' = s\<lparr>pause_messages := [], viewed := now s, target_time := now s + sample_period s\<rparr>"
  by (simp add: view_update_def)

lemmas handler_defs = push_def update_model_def begin_quit_def run_simulator_def

section \<open>The lock and the time\<close>

definition viz_inv :: "'a viz \<Rightarrow> bool" where
  "viz_inv s \<longleftrightarrow>
     (lock s \<longleftrightarrow> sim_at s = RunUntil \<or> sim_at s = Release) \<and> 0 \<le> sample_period s \<and> sample_period s \<le> 1 \<and>
     viewed s \<le> now s \<and> now s \<le> target_time s \<and> target_time s \<le> viewed s + 1"

lemma sim_step_inv: "sim_step none s s' \<Longrightarrow> viz_inv s \<Longrightarrow> viz_inv s'"
  by (erule sim_stepE) (auto simp: viz_inv_def handler_defs runs_until_def split: if_splits)

lemma gtk_step_inv: "gtk_step s s' \<Longrightarrow> viz_inv s \<Longrightarrow> viz_inv s'"
  by (erule gtk_stepE) (auto simp: viz_inv_def handler_defs SAMPLE_PERIOD_def dest!: view_update_fields)

lemma reachable_inv: "viz_reachable none s \<Longrightarrow> viz_inv s"
proof (induction rule: viz_reachable.induct)
  case start
  then show ?case by (simp add: start_viz_def viz_inv_def SAMPLE_PERIOD_def)
qed (auto intro: sim_step_inv gtk_step_inv)

text \<open>
  C34. The simulation thread advances the time only while it has the lock, and never further than a
  second (the sample period at the highest speed) past the time that the view shows.
\<close>

theorem simulation_close_to_view:
  assumes "viz_reachable none s"
  shows "viewed s \<le> now s \<and> now s \<le> viewed s + 1 \<and>
    (sim_step none s s' \<and> now s' \<noteq> now s \<longrightarrow> lock s \<and> now s' \<le> target_time s)"
  using reachable_inv [OF assms]
  by (auto simp: viz_inv_def handler_defs runs_until_def elim!: sim_stepE split: if_splits)

section \<open>Quitting\<close>

text \<open>The steps the simulation thread still makes when it has been told to quit.\<close>

definition steps_left :: "'a viz \<Rightarrow> nat" where
  "steps_left s =
     (case sim_at s of
        Acquire \<Rightarrow> 4 | RunUntil \<Rightarrow> 3 | Release \<Rightarrow> 2 | TopOfLoop \<Rightarrow> 1
      | WaitGo \<Rightarrow> 3 | ClearGo \<Rightarrow> 2 | CheckQuit \<Rightarrow> 1 | Ended \<Rightarrow> 0)"

text \<open>
  A thread that has been told to quit and waits will be woken: the signal is still to be given, or
  has been given after the thread last cleared it.
\<close>

definition will_wake :: "'a viz \<Rightarrow> bool" where
  "will_wake s \<longleftrightarrow> (quit s \<and> sim_at s = WaitGo \<longrightarrow> go s \<or> SettingGo \<in> set (stack s))"

lemma sim_step_wakes: "sim_step none s s' \<Longrightarrow> will_wake s \<Longrightarrow> will_wake s'"
  by (erule sim_stepE) (auto simp: will_wake_def handler_defs)

lemma gtk_step_wakes: "gtk_step s s' \<Longrightarrow> will_wake s \<Longrightarrow> will_wake s'"
  by (erule gtk_stepE) (auto simp: will_wake_def handler_defs after_update_def source_remove_def Let_def
      dest!: view_update_fields)

lemma reachable_wakes: "viz_reachable none s \<Longrightarrow> will_wake s"
proof (induction rule: viz_reachable.induct)
  case start
  then show ?case by (simp add: start_viz_def will_wake_def)
qed (auto intro: sim_step_wakes gtk_step_wakes)

text \<open>Only the handler on top waits for something; those below run the main loop.\<close>

definition only_polling_below :: "'a viz \<Rightarrow> bool" where
  "only_polling_below s \<longleftrightarrow> (\<forall>a\<in>set (tl (stack s)). \<exists>i. a = Polling i)"

lemma dispatching_stack: "dispatching s \<Longrightarrow> only_polling_below s \<Longrightarrow> \<forall>a\<in>set (stack s). \<exists>i. a = Polling i"
  by (cases "stack s") (auto simp: dispatching_def only_polling_below_def split: activity.splits)

lemma sim_step_stack: "sim_step none s s' \<Longrightarrow> stack s' = stack s"
  by (erule sim_stepE) (auto simp: handler_defs)

lemma gtk_step_stack:
  assumes "gtk_step s s'"
  shows "stack s' = stack s \<or> (\<exists>a. dispatching s \<and> stack s' = a # stack s) \<or> (\<exists>a. stack s = a # stack s') \<or>
    (\<exists>a b rest. stack s = a # rest \<and> stack s' = b # rest)"
  using assms by cases (auto simp: handler_defs dest!: view_update_fields)

lemma in_tl: "x \<in> set (tl xs) \<Longrightarrow> x \<in> set xs"
  by (cases xs) simp_all

lemma gtk_step_polling:
  assumes "gtk_step s s'" "only_polling_below s"
  shows "only_polling_below s'"
  using gtk_step_stack [OF assms(1)] assms(2) dispatching_stack [OF _ assms(2)]
  by (auto simp: only_polling_below_def dest: in_tl)

lemma reachable_polling: "viz_reachable none s \<Longrightarrow> only_polling_below s"
proof (induction rule: viz_reachable.induct)
  case start
  then show ?case by (simp add: start_viz_def only_polling_below_def)
next
  case (simulate s s')
  then show ?case by (simp add: only_polling_below_def sim_step_stack)
qed (rule gtk_step_polling)

lemma sim_enabled:
  assumes "viz_inv s" "sim_at s \<noteq> Ended" "sim_at s = WaitGo \<longrightarrow> go s"
  shows "\<exists>s'. sim_step none s s'"
proof -
  have "\<exists>t messages samples. runs_until (now s) (target_time s) none t messages samples"
    by (rule exI [of _ "if target_time s \<le> now s then now s else target_time s"], rule exI [of _ "[]"],
        rule exI [of _ none]) (simp add: runs_until_def)
  moreover have "sim_at s = Acquire \<Longrightarrow> \<not> lock s" using assms(1) by (simp add: viz_inv_def)
  ultimately show ?thesis using assms(2,3) by (cases "sim_at s") (blast intro: sim_step.intros)+
qed

lemma sim_step_steps_left: "sim_step none s s' \<Longrightarrow> quit s \<Longrightarrow> steps_left s' < steps_left s \<and> quit s'"
  by (erule sim_stepE) (auto simp: steps_left_def handler_defs)

lemma gtk_step_steps_left: "gtk_step s s' \<Longrightarrow> quit s \<Longrightarrow> steps_left s' = steps_left s \<and> quit s'"
  by (erule gtk_stepE) (auto simp: steps_left_def handler_defs dest!: view_update_fields)

text \<open>
  C7. Once the window is closed the simulation thread ends: until then it can make a step or the signal
  is about to be given, it makes at most four, and nothing the main thread does adds to them;
  and when it has ended the main thread gets past \<open>join\<close>.
\<close>

theorem quit_joins:
  assumes "viz_reachable none s" "quit s"
  shows "(sim_at s = Ended \<or> (\<exists>s'. sim_step none s s') \<or> (\<exists>rest s'. stack s = SettingGo # rest \<and> gtk_step s s')) \<and>
    steps_left s \<le> 4 \<and> (steps_left s = 0 \<longleftrightarrow> sim_at s = Ended) \<and>
    (sim_step none s s' \<longrightarrow> steps_left s' < steps_left s \<and> quit s') \<and>
    (gtk_step s s' \<longrightarrow> steps_left s' = steps_left s \<and> quit s') \<and>
    (sim_at s = Ended \<and> stack s = Joining # rest \<longrightarrow> gtk_step s (s\<lparr>main_over := True, stack := rest\<rparr>))"
proof (intro conjI impI)
  show "sim_at s = Ended \<or> (\<exists>s'. sim_step none s s') \<or> (\<exists>rest s'. stack s = SettingGo # rest \<and> gtk_step s s')"
  proof (cases "sim_at s = WaitGo \<and> \<not> go s")
    case True
    with reachable_wakes [OF assms(1)] assms(2) have "SettingGo \<in> set (stack s)" by (simp add: will_wake_def)
    with reachable_polling [OF assms(1)] obtain rest where "stack s = SettingGo # rest"
      by (cases "stack s") (auto simp: only_polling_below_def)
    then show ?thesis by (blast intro: set_go)
  next
    case False
    then show ?thesis using sim_enabled [OF reachable_inv [OF assms(1)]] by blast
  qed
  show "steps_left s \<le> 4" "steps_left s = 0 \<longleftrightarrow> sim_at s = Ended"
    by (simp_all add: steps_left_def split: sim_pc.splits)
qed (use assms(2) sim_step_steps_left gtk_step_steps_left in \<open>auto dest: sim_step_steps_left gtk_step_steps_left intro: join_thread\<close>)

section \<open>Messages\<close>

definition in_flight :: "'a viz \<Rightarrow> string list" where
  "in_flight s = (case stack s of Shown i m # _ \<Rightarrow> m | _ \<Rightarrow> [])"

lemma in_flight_dispatching: "dispatching s \<Longrightarrow> in_flight s = []"
  by (auto simp: dispatching_def in_flight_def split: list.splits activity.splits)

lemma in_flight_polling: "\<forall>a\<in>set rest. \<exists>i. a = Polling i \<Longrightarrow> in_flight (s\<lparr>stack := rest\<rparr>) = []"
  by (cases rest) (auto simp: in_flight_def)

definition messages_inv :: "'a viz \<Rightarrow> bool" where
  "messages_inv s \<longleftrightarrow> said s = shown s @ in_flight s @ pause_messages s"

lemma sim_step_messages: "sim_step none s s' \<Longrightarrow> messages_inv s \<Longrightarrow> messages_inv s'"
  by (erule sim_stepE) (auto simp: messages_inv_def in_flight_def handler_defs)

lemma gtk_step_messages:
  assumes "gtk_step s s'" "messages_inv s" "only_polling_below s"
  shows "messages_inv s'"
  using assms(1)
proof cases
  case (poll i rest messages s1)
  then show ?thesis using assms(2) by (auto simp: messages_inv_def in_flight_def dest!: view_update_fields)
next
  case (after i messages rest)
  then show ?thesis using assms(2,3) in_flight_polling [of rest s]
    by (simp add: messages_inv_def in_flight_def only_polling_below_def)
next
  case (model rest)
  then show ?thesis using assms(2,3) in_flight_polling [of rest s]
    by (simp add: messages_inv_def in_flight_def only_polling_below_def handler_defs)
next
  case (locked rest)
  then show ?thesis using assms(2,3) in_flight_polling [of rest s]
    by (simp add: messages_inv_def in_flight_def only_polling_below_def)
next
  case (join_thread rest)
  then show ?thesis using assms(2,3) in_flight_polling [of rest s]
    by (simp add: messages_inv_def in_flight_def only_polling_below_def)
qed (use assms(2) in \<open>auto dest: in_flight_dispatching simp: messages_inv_def in_flight_def handler_defs\<close>)

text \<open>
  C13. Each message of the simulator is shown once, in order, or still on its way; and when messages are
  shown the play button is released and the signal to go on is not given.
\<close>

theorem messages_shown_once:
  assumes "viz_reachable none s"
  shows "said s = shown s @ in_flight s @ pause_messages s \<and>
    (stack s = Shown i m # rest \<and> m \<noteq> [] \<and> gtk_step s s' \<longrightarrow>
      shown s' = shown s @ m \<and> \<not> play_active s' \<and> go s' = go s)"
proof (intro conjI impI)
  show "said s = shown s @ in_flight s @ pause_messages s"
    using assms
  proof (induction rule: viz_reachable.induct)
    case start
    then show ?case by (simp add: start_viz_def in_flight_def)
  next
    case (simulate s s')
    then show ?case using sim_step_messages by (auto simp: messages_inv_def)
  next
    case (view s s')
    then show ?case using gtk_step_messages [OF _ _ reachable_polling] by (auto simp: messages_inv_def)
  qed
next
  assume step: "stack s = Shown i m # rest \<and> m \<noteq> [] \<and> gtk_step s s'"
  then have "s' = after_update i m (s\<lparr>stack := rest\<rparr>)" by (auto simp: dispatching_def elim!: gtk_stepE)
  with step show "shown s' = shown s @ m" "\<not> play_active s'" "go s' = go s"
    by (simp_all add: after_update_def source_remove_def Let_def)
qed

section \<open>Samples\<close>

text \<open>
  The samples of a run reach \<open>update_model\<close> through an idle callback that the run leaves
  behind. As long as the view polls in turn, when the simulation thread waits for the signal and
  the callback has been served, each run's samples are passed on once, in order.
\<close>

definition in_turn :: "'a viz \<Rightarrow> bool" where
  "in_turn s \<longleftrightarrow> idle s = 0 \<and> sim_at s = WaitGo \<and> \<not> go s"

definition at_view :: "'a viz \<Rightarrow> bool" where
  "at_view s = (case stack s of Shown i m # _ \<Rightarrow> True | _ \<Rightarrow> False)"

definition at_model :: "'a viz \<Rightarrow> bool" where
  "at_model s = (case stack s of UpdatingModel # _ \<Rightarrow> True | _ \<Rightarrow> False)"

inductive orderly :: "'a \<Rightarrow> 'a viz \<Rightarrow> bool" for none where
  orderly_start: "orderly none (start_viz none)"
| orderly_simulate: "orderly none s \<Longrightarrow> sim_step none s s' \<Longrightarrow> orderly none s'"
| orderly_view: "orderly none s \<Longrightarrow> gtk_step s s' \<Longrightarrow> (at_view s' \<Longrightarrow> in_turn s) \<Longrightarrow> orderly none s'"

lemma orderly_reachable: "orderly none s \<Longrightarrow> viz_reachable none s"
  by (induction rule: orderly.induct) (auto intro: viz_reachable.intros)

definition pending :: "'a viz \<Rightarrow> bool" where
  "pending s \<longleftrightarrow> idle s > 0 \<or> at_model s"

definition order_inv :: "'a viz \<Rightarrow> bool" where
  "order_inv s \<longleftrightarrow>
     idle s \<le> 1 \<and> (at_model s \<longrightarrow> idle s = 0) \<and> (SettingGo \<in> set (stack s) \<longrightarrow> quit s) \<and>
     runs s = delivered s @ (if pending s then [run_samples s] else []) \<and>
     (sim_at s = Acquire \<or> sim_at s = RunUntil \<longrightarrow> \<not> pending s) \<and>
     (\<not> quit s \<and> (sim_at s = ClearGo \<or> sim_at s = CheckQuit) \<longrightarrow> \<not> pending s) \<and>
     (\<not> quit s \<and> go s \<longrightarrow> (sim_at s = WaitGo \<or> sim_at s = ClearGo) \<and> \<not> pending s) \<and>
     (\<not> quit s \<and> at_view s \<longrightarrow> sim_at s = WaitGo \<and> \<not> go s \<and> \<not> pending s)"

lemma sim_step_order: "sim_step none s s' \<Longrightarrow> order_inv s \<Longrightarrow> order_inv s'"
  by (erule sim_stepE) (auto simp: order_inv_def pending_def at_model_def at_view_def handler_defs)

lemma dispatching_tops: "dispatching s \<Longrightarrow> \<not> at_view s \<and> \<not> at_model s"
  by (auto simp: dispatching_def at_view_def at_model_def split: list.splits activity.splits)

lemma polling_tops:
  "\<forall>a\<in>set rest. \<exists>i. a = Polling i \<Longrightarrow> stack s = rest \<Longrightarrow> \<not> at_view s \<and> \<not> at_model s"
  by (cases rest) (auto simp: at_view_def at_model_def)

lemma gtk_step_order:
  assumes "gtk_step s s'" "order_inv s" "only_polling_below s" "at_view s' \<Longrightarrow> in_turn s"
  shows "order_inv s'"
  using assms(1)
proof cases
  case (poll i rest messages s1)
  then have "in_turn s" using assms(4) by (simp add: at_view_def)
  with poll show ?thesis using assms(2)
    by (auto simp: order_inv_def pending_def at_model_def at_view_def in_turn_def dest!: view_update_fields)
next
  case (after i messages rest)
  then have "\<not> at_view s' \<and> \<not> at_model s'" "at_view s" "\<not> at_model s"
    using assms(3) polling_tops [of rest s'] by (simp_all add: only_polling_below_def at_view_def at_model_def)
  moreover have "quit s \<or> sim_at s = WaitGo \<and> \<not> pending s" using calculation(2) assms(2) by (auto simp: order_inv_def)
  ultimately show ?thesis using after assms(2) by (auto simp: order_inv_def pending_def)
next
  case (model rest)
  then have "\<not> at_view s' \<and> \<not> at_model s'" "at_model s" "\<not> at_view s"
    using assms(3) polling_tops [of rest s'] by (simp_all add: only_polling_below_def at_view_def at_model_def handler_defs)
  with model show ?thesis using assms(2) by (auto simp: order_inv_def pending_def handler_defs)
next
  case (locked rest)
  then have "\<not> at_view s' \<and> \<not> at_model s'" "\<not> at_view s \<and> \<not> at_model s"
    using assms(3) polling_tops [of rest s'] by (simp_all add: only_polling_below_def at_view_def at_model_def)
  with locked show ?thesis using assms(2) by (auto simp: order_inv_def pending_def)
next
  case (join_thread rest)
  then have "\<not> at_view s' \<and> \<not> at_model s'" "\<not> at_view s \<and> \<not> at_model s"
    using assms(3) polling_tops [of rest s'] by (simp_all add: only_polling_below_def at_view_def at_model_def)
  with join_thread show ?thesis using assms(2) by (auto simp: order_inv_def pending_def)
next
  case (set_go rest)
  then show ?thesis using assms(2) by (auto simp: order_inv_def pending_def at_view_def at_model_def)
next
  case (serve_idle n)
  then show ?thesis using assms(2) dispatching_tops [OF serve_idle(2)]
    by (auto simp: order_inv_def pending_def at_view_def at_model_def handler_defs)
qed (use assms(2) in \<open>auto dest!: dispatching_tops simp: order_inv_def pending_def at_view_def at_model_def handler_defs\<close>)

text \<open>The samples passed on are those of all runs but at most the last, in order; when no callback is due, of all.\<close>

text \<open>C29. The samples passed on are those of all runs but at most the last, in order; when no callback is due, of all.\<close>

theorem samples_in_order:
  assumes "orderly none s"
  shows "\<exists>rest. runs s = delivered s @ rest \<and> length rest \<le> 1 \<and> (idle s = 0 \<and> \<not> at_model s \<longrightarrow> rest = [])"
proof -
  from assms have "order_inv s"
  proof (induction rule: orderly.induct)
    case orderly_start
    then show ?case by (simp add: start_viz_def order_inv_def pending_def at_view_def at_model_def)
  next
    case (orderly_simulate s s')
    then show ?case by (blast intro: sim_step_order)
  next
    case (orderly_view s s')
    then show ?case by (blast intro: gtk_step_order reachable_polling orderly_reachable)
  qed
  then show ?thesis by (auto simp: order_inv_def pending_def)
qed

section \<open>Schedules\<close>

text \<open>One step of either thread as a function, to run the system along a given schedule.\<close>

datatype 'a move =
    Sim rat "string list" 'a
  | FireTimeout nat
  | Poll
  | After
  | ServeIdle
  | Model
  | Play bool
  | CloseWindow
  | SetGo
  | JoinThread

definition sim_next :: "'a \<Rightarrow> rat \<Rightarrow> string list \<Rightarrow> 'a \<Rightarrow> 'a viz \<Rightarrow> 'a viz option" where
  "sim_next none t messages samples s =
     (case sim_at s of
        TopOfLoop \<Rightarrow> Some (s\<lparr>sim_at := if quit s then Ended else WaitGo\<rparr>)
      | WaitGo \<Rightarrow> if go s then Some (s\<lparr>sim_at := ClearGo\<rparr>) else None
      | ClearGo \<Rightarrow> Some (s\<lparr>sim_at := CheckQuit, go := False\<rparr>)
      | CheckQuit \<Rightarrow> Some (s\<lparr>sim_at := if quit s then Ended else Acquire\<rparr>)
      | Acquire \<Rightarrow> if lock s then None else Some (s\<lparr>sim_at := RunUntil, lock := True\<rparr>)
      | RunUntil \<Rightarrow>
          if runs_until (now s) (target_time s) none t messages samples
          then Some ((run_simulator t messages samples s)\<lparr>sim_at := Release\<rparr>) else None
      | Release \<Rightarrow> Some (s\<lparr>sim_at := TopOfLoop, lock := False\<rparr>)
      | Ended \<Rightarrow> None)"

fun next_state :: "'a \<Rightarrow> 'a move \<Rightarrow> 'a viz \<Rightarrow> 'a viz option" where
  "next_state none (Sim t messages samples) s = sim_next none t messages samples s"
| "next_state none (FireTimeout i) s =
     (if dispatching s \<and> i \<in> fst ` set (timeouts s) \<and> Polling i \<notin> set (stack s) then Some (push (Polling i) s) else None)"
| "next_state none Poll s =
     (case stack s of
        Polling i # rest \<Rightarrow>
          if lock s then None
          else Some ((snd (view_update s))\<lparr>stack := Shown i (fst (view_update s)) # rest\<rparr>)
      | _ \<Rightarrow> None)"
| "next_state none After s =
     (case stack s of Shown i messages # rest \<Rightarrow> Some (after_update i messages (s\<lparr>stack := rest\<rparr>)) | _ \<Rightarrow> None)"
| "next_state none ServeIdle s =
     (if dispatching s \<and> idle s > 0 then Some (push UpdatingModel (s\<lparr>idle := idle s - 1\<rparr>)) else None)"
| "next_state none Model s =
     (case stack s of UpdatingModel # rest \<Rightarrow> if lock s then None else Some (update_model (s\<lparr>stack := rest\<rparr>)) | _ \<Rightarrow> None)"
| "next_state none (Play b) s = (if dispatching s then Some (play_set_active b s) else None)"
| "next_state none CloseWindow s = (if dispatching s then Some (push SettingGo (begin_quit s)) else None)"
| "next_state none SetGo s =
     (case stack s of SettingGo # rest \<Rightarrow> Some (s\<lparr>go := True, stack := Joining # rest\<rparr>) | _ \<Rightarrow> None)"
| "next_state none JoinThread s =
     (case stack s of
        Joining # rest \<Rightarrow> if sim_at s = Ended then Some (s\<lparr>main_over := True, stack := rest\<rparr>) else None
      | _ \<Rightarrow> None)"

lemma sim_next_step: "sim_next none t messages samples s = Some s' \<Longrightarrow> sim_step none s s'"
  by (cases "sim_at s") (auto simp: sim_next_def intro: sim_step.intros split: if_splits)

lemma next_state_step: "next_state none m s = Some s' \<Longrightarrow> sim_step none s s' \<or> gtk_step s s'"
  by (cases "(none, m, s)" rule: next_state.cases)
     (auto intro: sim_next_step gtk_step.intros simp: gr0_conv_Suc split: list.splits activity.splits if_splits
       intro!: timeout [unfolded image_def] )

definition follow :: "'a \<Rightarrow> 'a move list \<Rightarrow> 'a viz option" where
  "follow none ms = foldl (\<lambda>s m. Option.bind s (next_state none m)) (Some (start_viz none)) ms"

lemma next_state_reachable: "next_state none m s = Some s' \<Longrightarrow> viz_reachable none s \<Longrightarrow> viz_reachable none s'"
  using next_state_step viz_reachable.simulate viz_reachable.view by metis

lemma follow_snoc: "follow none (ms @ [m]) = Option.bind (follow none ms) (next_state none m)"
  by (simp add: follow_def)

lemma follow_reachable: "follow none ms = Some s \<Longrightarrow> viz_reachable none s"
proof (induction ms arbitrary: s rule: rev_induct)
  case Nil
  then show ?case by (auto simp: follow_def intro: viz_reachable.start)
next
  case (snoc m ms)
  from snoc.prems obtain s0 where s0: "follow none ms = Some s0" "next_state none m s0 = Some s"
    unfolding follow_snoc bind_eq_Some_conv by (elim exE conjE)
  from next_state_reachable [OF s0(2) snoc.IH [OF s0(1)]] show ?case .
qed

text \<open>A schedule in which the view polls in turn.\<close>

definition follow_in_turn :: "'a \<Rightarrow> 'a move list \<Rightarrow> 'a viz option" where
  "follow_in_turn none ms =
     foldl (\<lambda>s m. Option.bind s (\<lambda>s. Option.bind (next_state none m s) (\<lambda>s'. if at_view s' \<and> \<not> in_turn s then None else Some s')))
       (Some (start_viz none)) ms"

lemma follow_in_turn_snoc:
  "follow_in_turn none (ms @ [m]) =
     Option.bind (follow_in_turn none ms) (\<lambda>s. Option.bind (next_state none m s) (\<lambda>s'. if at_view s' \<and> \<not> in_turn s then None else Some s'))"
  by (simp add: follow_in_turn_def)

lemma next_state_orderly:
  "next_state none m s = Some s' \<Longrightarrow> at_view s' \<longrightarrow> in_turn s \<Longrightarrow> orderly none s \<Longrightarrow> orderly none s'"
  using next_state_step orderly_simulate orderly_view by metis

lemma follow_in_turn_orderly: "follow_in_turn none ms = Some s \<Longrightarrow> orderly none s"
proof (induction ms arbitrary: s rule: rev_induct)
  case Nil
  then show ?case by (auto simp: follow_in_turn_def intro: orderly_start)
next
  case (snoc m ms)
  from snoc.prems obtain s0
    where s0: "follow_in_turn none ms = Some s0" "next_state none m s0 = Some s" "at_view s \<longrightarrow> in_turn s0"
    unfolding follow_in_turn_snoc bind_eq_Some_conv by (elim exE conjE) (simp split: if_splits)
  from next_state_orderly [OF s0(2,3) snoc.IH [OF s0(1)]] show ?case .
qed

text \<open>
  When the view polls before the callback of the last run has been served, the next run overwrites
  the samples: those of the first run are lost, and those of the second are counted twice.
\<close>

definition sim_turn :: "rat \<Rightarrow> nat \<Rightarrow> nat move list" where
  "sim_turn t samples = replicate 6 (Sim t [] samples)"

definition view_turn :: "nat move list" where
  "view_turn = [FireTimeout 1, Poll, After]"

definition losing_schedule :: "nat move list" where
  "losing_schedule =
     [Play True] @ view_turn @ sim_turn (1 / 10) 1 @ [Sim 0 [] 0] @ view_turn @ sim_turn (1 / 5) 2 @ [Sim 0 [] 0]
       @ [ServeIdle, Model, ServeIdle, Model]"

lemma losing_run: "map_option (\<lambda>s. (runs s, delivered s)) (follow 0 losing_schedule) = Some ([1, 2], [2, 2])"
  by code_simp

theorem samples_lost: "\<exists>s. viz_reachable (0 :: nat) s \<and> runs s = [1, 2] \<and> delivered s = [2, 2]"
proof -
  obtain s where s: "follow 0 losing_schedule = Some s" "(runs s, delivered s) = ([1, 2], [2, 2])"
    using losing_run by (cases "follow 0 losing_schedule") simp_all
  from follow_reachable [OF s(1)] s(2) show ?thesis by (intro exI [of _ s]) simp
qed

text \<open>
  Releasing the play button removes the timer but keeps its number, and pressing it again removes a
  source that is not there any more.
\<close>

lemma stale_timeout:
  assumes "play_active s" "update_timeout_id s = Some i"
  shows "update_timeout_id (play_set_active False s) = Some i \<and> i \<notin> fst ` set (timeouts (play_set_active False s))"
  using assms by (auto simp: play_set_active_def on_play_button_toggled_def stop_timer_def source_remove_def)

section \<open>Witnesses\<close>

lemma reached_state:
  assumes "map_option f (follow none ms) = Some x"
  shows "\<exists>s. viz_reachable none s \<and> f s = x"
  using assms by (cases "follow none ms") (auto dest: follow_reachable)

text \<open>A run with a message, and the window closed while the simulation thread is running.\<close>

definition message_schedule :: "nat move list" where
  "message_schedule =
     [Play True] @ view_turn @ replicate 5 (Sim 0 [] 0) @ [Sim (1 / 20) [''wait''] 1, Sim 0 [] 0, ServeIdle, Model, FireTimeout 1, Poll]"

definition quit_schedule :: "nat move list" where
  "quit_schedule = [Play True] @ view_turn @ replicate 5 (Sim 0 [] 0) @ [CloseWindow]"

lemma schedules:
  "map_option (\<lambda>s. (viewed s, now s)) (follow 0 losing_schedule) = Some (1 / 10, 1 / 5)"
  "map_option (\<lambda>s. (quit s, sim_at s, steps_left s)) (follow 0 quit_schedule) = Some (True, RunUntil, 3)"
  "map_option (\<lambda>s. (stack s, said s, sim_at s)) (follow 0 message_schedule) = Some ([Shown 1 [''wait'']], [''wait''], TopOfLoop)"
  by code_simp+

theorem simulation_close_to_view_witness:
  "\<exists>s. viz_reachable (0 :: nat) s \<and> viewed s = 1 / 10 \<and> now s = 1 / 5 \<and> now s \<le> viewed s + 1"
proof -
  from reached_state [OF schedules(1)] obtain s where "viz_reachable (0 :: nat) s" "viewed s = 1 / 10" "now s = 1 / 5" by auto
  with simulation_close_to_view [of 0 s s] show ?thesis by blast
qed

theorem quit_joins_witness:
  "\<exists>s. viz_reachable (0 :: nat) s \<and> quit s \<and> steps_left s = 3 \<and> (\<exists>s'. sim_step 0 s s')"
proof -
  from reached_state [OF schedules(2)] obtain s
    where s: "viz_reachable (0 :: nat) s" "quit s" "sim_at s = RunUntil" "steps_left s = 3" by auto
  from quit_joins [OF s(1,2), of s "[]"] s have "(\<exists>s'. sim_step 0 s s') \<or> (\<exists>rest s'. stack s = SettingGo # rest \<and> gtk_step s s')"
    by simp
  moreover have "\<exists>s'. sim_step 0 s s'" using sim_enabled [OF reachable_inv [OF s(1)]] s(3) by simp
  ultimately show ?thesis using s by blast
qed

theorem messages_shown_once_witness:
  "\<exists>s. viz_reachable (0 :: nat) s \<and> in_flight s = [''wait''] \<and> said s = shown s @ [''wait''] @ pause_messages s"
proof -
  from reached_state [OF schedules(3)] obtain s
    where s: "viz_reachable (0 :: nat) s" "stack s = [Shown 1 [''wait'']]" by auto
  from s(2) have "in_flight s = [''wait'']" by (simp add: in_flight_def)
  with messages_shown_once [OF s(1), of 1 "[''wait'']" "[]" s] s(1) show ?thesis by auto
qed

definition orderly_schedule :: "nat move list" where
  "orderly_schedule = [Play True, Sim 0 [] 0] @ view_turn @ replicate 4 (Sim 0 [] 0) @ [Sim (1 / 10) [] 7, Sim 0 [] 0, ServeIdle, Model]"

lemma orderly_run:
  "map_option (\<lambda>s. (runs s, idle s, at_model s)) (follow_in_turn 0 orderly_schedule) = Some ([7], 0, False)"
  by code_simp

theorem samples_in_order_witness:
  "\<exists>s. orderly (0 :: nat) s \<and> runs s = [7] \<and> delivered s = [7]"
proof -
  obtain s where s: "follow_in_turn 0 orderly_schedule = Some s" "(runs s, idle s, at_model s) = ([7], 0, False)"
    using orderly_run by (cases "follow_in_turn 0 orderly_schedule") simp_all
  from samples_in_order [OF follow_in_turn_orderly [OF s(1)]] follow_in_turn_orderly [OF s(1)] s(2)
  show ?thesis by (intro exI [of _ s]) auto
qed

end
