(* ===== verification/VizTraffic.thy ===== *)
theory VizTraffic
  imports Prelude Complex_Main
begin

text \<open>
  src/visualizer/visualizer/core.py and plugins/interface_statistics.py: the window of past samples,
  the arrows drawn for transmissions and dropped packets, and the rates of the interfaces of a node.
  Samples come from the simulator; the logarithm and the clipping of a line are parameters.
\<close>

section \<open>The window of samples\<close>

record transmission =
  transmitter :: nat
  receiver :: nat
  sent_bytes :: int

record packet_drop =
  dropped_by :: nat
  dropped_bytes :: int

text \<open>
  \<open>do_simulation_periodic_update\<close>: the new samples are appended and the oldest removed until
  no more than the smoothing factor are left; \<open>pop\<close> from an empty list raises.
\<close>

fun trim_window :: "int \<Rightarrow> 'a list \<Rightarrow> 'a list res" where
  "trim_window k [] = (if 0 > k then Inl IndexError else Inr [])"
| "trim_window k (w # ws) = (if int (length (w # ws)) > k then trim_window k ws else Inr (w # ws))"

definition add_samples :: "rat \<Rightarrow> 'a list \<Rightarrow> 'a \<Rightarrow> 'a list res" where
  "add_samples smoothing window samples = trim_window \<lfloor>smoothing * 10\<rfloor> (window @ [samples])"

definition periodic_update ::
  "rat \<Rightarrow> 'a \<Rightarrow> 'b \<Rightarrow> 'a list \<times> 'b list \<Rightarrow> ('a list \<times> 'b list) res" where
  "periodic_update smoothing transmissions drops w =
     and_then (add_samples smoothing (fst w) transmissions) (\<lambda>ts.
     and_then (add_samples smoothing (snd w) drops) (\<lambda>ds. Inr (ts, ds)))"

lemma trim_window_drop: "0 \<le> k \<Longrightarrow> trim_window k ws = Inr (drop (length ws - nat k) ws)"
proof (induction k ws rule: trim_window.induct)
  case (2 k w ws)
  then show ?case by (cases "int (length (w # ws)) > k") (auto simp: Suc_diff_le nat_le_iff not_less)
qed simp

definition last_n :: "nat \<Rightarrow> 'a list \<Rightarrow> 'a list" where
  "last_n k xs = drop (length xs - k) xs"

lemma last_n_snoc: "k > 0 \<Longrightarrow> last_n k (last_n k xs @ [x]) = last_n k (xs @ [x])"
  by (cases "k \<le> length xs") (auto simp: last_n_def Suc_diff_le)

text \<open>The window holds the samples of the last updates, as many as the smoothing factor says.\<close>

lemma window_after_updates:
  assumes "1 \<le> smoothing * 10"
  shows "for_each (add_samples smoothing) [] ws = Inr (last_n (nat \<lfloor>smoothing * 10\<rfloor>) ws)"
proof (induction ws rule: rev_induct)
  case Nil
  then show ?case by (simp add: last_n_def)
next
  case (snoc w ws)
  from assms have "1 \<le> \<lfloor>smoothing * 10\<rfloor>" by linarith
  with snoc last_n_snoc [of "nat \<lfloor>smoothing * 10\<rfloor>" ws w] show ?case
    by (simp add: for_each_append add_samples_def trim_window_drop last_n_def)
qed

section \<open>Averages\<close>

definition accumulate :: "('k, int \<times> nat) dict \<Rightarrow> 'k \<times> int \<Rightarrow> ('k, int \<times> nat) dict" where
  "accumulate d s =
     (let (bytes, count) = (case map_of d (fst s) of None \<Rightarrow> (0, 0) | Some v \<Rightarrow> v)
      in AList.update (fst s) (bytes + snd s, count + 1) d)"

definition transmissions_average :: "transmission list list \<Rightarrow> (nat \<times> nat, int \<times> nat) dict" where
  "transmissions_average window =
     foldl (foldl (\<lambda>d t. accumulate d ((transmitter t, receiver t), sent_bytes t))) [] window"

definition drops_average :: "packet_drop list list \<Rightarrow> (nat, int \<times> nat) dict" where
  "drops_average window = foldl (foldl (\<lambda>d p. accumulate d (dropped_by p, dropped_bytes p))) [] window"

definition totals :: "('k \<times> int) list \<Rightarrow> 'k \<Rightarrow> (int \<times> nat) option" where
  "totals ss k =
     (let bs = map snd (filter (\<lambda>s. fst s = k) ss) in if bs = [] then None else Some (sum_list bs, length bs))"

lemma accumulate_totals:
  assumes "\<forall>k. map_of d k = totals seen k"
  shows "map_of (accumulate d s) k = totals (seen @ [s]) k"
proof -
  have "map_of d (fst s) = totals seen (fst s)" using assms by simp
  then show ?thesis using assms
    by (auto simp: accumulate_def totals_def Let_def update_conv' split: option.splits if_splits)
qed

lemma accumulate_wf: "wf_dict d \<Longrightarrow> wf_dict (accumulate d s)"
  by (simp add: accumulate_def Let_def split: prod.splits)

lemma foldl_accumulate:
  "wf_dict (foldl accumulate [] ss) \<and> (\<forall>k. map_of (foldl accumulate [] ss) k = totals ss k)"
proof (induction ss rule: rev_induct)
  case Nil
  then show ?case by (simp add: totals_def)
next
  case (snoc s ss)
  then show ?case
    using accumulate_totals [of "foldl accumulate [] ss" ss s] accumulate_wf [of "foldl accumulate [] ss" s] by simp
qed

lemma foldl_concat: "foldl (foldl f) a xss = foldl f a (concat xss)"
  by (induction xss arbitrary: a) simp_all

lemma foldl_map_arg: "foldl (\<lambda>d t. f d (g t)) a ts = foldl f a (map g ts)"
  by (induction ts arbitrary: a) simp_all

definition transmission_keys :: "transmission list list \<Rightarrow> ((nat \<times> nat) \<times> int) list" where
  "transmission_keys window = map (\<lambda>t. ((transmitter t, receiver t), sent_bytes t)) (concat window)"

lemma transmissions_average_eq: "transmissions_average window = foldl accumulate [] (transmission_keys window)"
  unfolding transmissions_average_def transmission_keys_def foldl_concat
    foldl_map_arg [of accumulate "\<lambda>t. ((transmitter t, receiver t), sent_bytes t)"] by simp

section \<open>A pool of arrows\<close>

text \<open>
  An arrow and its label are made together and stay together, so that a pair has one number. The
  arrows of a kind are a list, from whose end they are taken and in front of which those drawn are put
  back. A label's rate is shown with two decimals, to the right of it or to its left an arrow.
\<close>

record arrow_look =
  arrow_visible :: bool
  line_width :: rat
  points :: "(rat \<times> rat) \<times> (rat \<times> rat)"

record label_look =
  label_visible :: bool
  font_size :: int
  kbps :: rat
  pointing_right :: "bool option"
  label_offset :: rat
  label_at :: "rat \<times> rat"

record arrow_pool =
  stock :: "nat list"
  arrow_of :: "nat \<Rightarrow> arrow_look"
  label_of :: "nat \<Rightarrow> label_look"
  next_arrow :: nat

record scene =
  node_positions :: "(nat, rat \<times> rat) dict"
  arrows :: arrow_pool

definition hide :: "arrow_pool \<Rightarrow> nat \<Rightarrow> arrow_pool" where
  "hide p i =
     p\<lparr>arrow_of := (arrow_of p)(i := (arrow_of p i)\<lparr>arrow_visible := False\<rparr>),
       label_of := (label_of p)(i := (label_of p i)\<lparr>label_visible := False\<rparr>)\<rparr>"

definition hide_all :: "arrow_pool \<Rightarrow> arrow_pool" where
  "hide_all p = foldl hide p (stock p)"

definition new_arrow :: arrow_look where
  "new_arrow = \<lparr>arrow_visible = True, line_width = 2, points = ((0, 0), (0, 0))\<rparr>"

definition new_label :: label_look where
  "new_label = \<lparr>label_visible = True, font_size = 0, kbps = 0, pointing_right = None, label_offset = 0, label_at = (0, 0)\<rparr>"

definition take_arrow :: "(scene, nat) act" where
  "take_arrow s =
     (let p = arrows s
      in if stock p \<noteq> [] then (Inr (last (stock p)), s\<lparr>arrows := p\<lparr>stock := butlast (stock p)\<rparr>\<rparr>)
         else (Inr (next_arrow p),
               s\<lparr>arrows := p\<lparr>next_arrow := Suc (next_arrow p), arrow_of := (arrow_of p)(next_arrow p := new_arrow),
                             label_of := (label_of p)(next_arrow p := new_label)\<rparr>\<rparr>))"

definition show_arrow :: "nat \<Rightarrow> (scene, unit) act" where
  "show_arrow i =
     modify (\<lambda>s. s\<lparr>arrows := (arrows s)\<lparr>arrow_of := (arrow_of (arrows s))(i := (arrow_of (arrows s) i)\<lparr>arrow_visible := True\<rparr>)\<rparr>\<rparr>)"

definition set_looks :: "nat \<Rightarrow> arrow_look \<times> label_look \<Rightarrow> (scene, unit) act" where
  "set_looks i looks =
     modify (\<lambda>s. s\<lparr>arrows := (arrows s)\<lparr>arrow_of := (arrow_of (arrows s))(i := fst looks),
                                        label_of := (label_of (arrows s))(i := snd looks)\<rparr>\<rparr>)"

text \<open>A node that is not there yet is made, at the default position of its canvas item.\<close>

definition get_node :: "nat \<Rightarrow> (nat, rat \<times> rat) dict \<Rightarrow> (nat, rat \<times> rat) dict" where
  "get_node i ns = (case map_of ns i of None \<Rightarrow> ns @ [(i, (0, 0))] | Some p \<Rightarrow> ns)"

definition position :: "(nat, rat \<times> rat) dict \<Rightarrow> nat \<Rightarrow> rat \<times> rat" where
  "position ns i = (case map_of ns i of None \<Rightarrow> (0, 0) | Some p \<Rightarrow> p)"

definition draw_one ::
  "('x \<Rightarrow> nat list) \<Rightarrow> ('x \<Rightarrow> (nat \<Rightarrow> rat \<times> rat) \<Rightarrow> (arrow_look \<times> label_look) res) \<Rightarrow> nat list \<Rightarrow> 'x \<Rightarrow> (scene, nat list) act" where
  "draw_one ends look new x =
     act_bind (modify (\<lambda>s. s\<lparr>node_positions := fold get_node (ends x) (node_positions s)\<rparr>)) (\<lambda>_.
     act_bind take_arrow (\<lambda>i.
     act_bind (show_arrow i) (\<lambda>_.
     act_bind (\<lambda>s. (look x (position (node_positions s)), s)) (\<lambda>looks.
     act_bind (set_looks i looks) (\<lambda>_. ret (new @ [i]))))))"

fun draw_from ::
  "('x \<Rightarrow> nat list) \<Rightarrow> ('x \<Rightarrow> (nat \<Rightarrow> rat \<times> rat) \<Rightarrow> (arrow_look \<times> label_look) res) \<Rightarrow> nat list \<Rightarrow> 'x list \<Rightarrow> (scene, nat list) act" where
  "draw_from ends look new [] = ret new"
| "draw_from ends look new (x # xs) = act_bind (draw_one ends look new x) (\<lambda>new. draw_from ends look new xs)"

definition redraw ::
  "('x \<Rightarrow> nat list) \<Rightarrow> ('x \<Rightarrow> (nat \<Rightarrow> rat \<times> rat) \<Rightarrow> (arrow_look \<times> label_look) res) \<Rightarrow> 'x list \<Rightarrow> (scene, unit) act" where
  "redraw ends look xs =
     act_bind (modify (\<lambda>s. s\<lparr>arrows := hide_all (arrows s)\<rparr>)) (\<lambda>_.
     act_bind (draw_from ends look [] xs) (\<lambda>new.
       modify (\<lambda>s. s\<lparr>arrows := (arrows s)\<lparr>stock := new @ stock (arrows s)\<rparr>\<rparr>)))"

section \<open>Transmissions and drops\<close>

record canvas_view =
  node_size :: rat
  period :: rat
  logarithm :: "rat \<Rightarrow> rat"
  clip_line :: "(rat \<times> rat) \<times> (rat \<times> rat) \<Rightarrow> (rat \<times> rat) \<times> (rat \<times> rat)"
  edge_y :: rat

definition BITRATE_FONT_SIZE :: rat where
  "BITRATE_FONT_SIZE = 10"

definition scaling :: "canvas_view \<Rightarrow> rat" where
  "scaling dr = node_size dr / 5"

definition log_of :: "canvas_view \<Rightarrow> rat \<Rightarrow> rat res" where
  "log_of dr x = (if x \<le> 0 then Inl ValueError else Inr (logarithm dr x))"

definition width_of :: "canvas_view \<Rightarrow> int \<Rightarrow> nat \<Rightarrow> rat res" where
  "width_of dr bytes n =
     (if period dr = 0 then Inl ZeroDivisionError
      else and_then (log_of dr (of_int bytes / of_nat n / period dr)) (\<lambda>l. Inr (max (1 / 10) (l * scaling dr))))"

definition rate_of :: "canvas_view \<Rightarrow> int \<Rightarrow> nat \<Rightarrow> rat" where
  "rate_of dr bytes n = of_int (bytes * 8) / 1000 / of_nat n / period dr"

definition trunc :: "rat \<Rightarrow> int" where
  "trunc x = (if 0 \<le> x then \<lfloor>x\<rfloor> else \<lceil>x\<rceil>)"

definition midpoint :: "(rat \<times> rat) \<times> (rat \<times> rat) \<Rightarrow> rat \<times> rat" where
  "midpoint l = ((fst (fst l) + fst (snd l)) / 2, (snd (fst l) + snd (snd l)) / 2)"

text \<open>
  The label of a transmission points along the arrow: to the right when the angle of the arrow is
  between minus and plus a right angle, that is when it does not go to the left.
\<close>

definition transmission_look ::
  "canvas_view \<Rightarrow> (nat \<times> nat) \<times> (int \<times> nat) \<Rightarrow> (nat \<Rightarrow> rat \<times> rat) \<Rightarrow> (arrow_look \<times> label_look) res" where
  "transmission_look dr x pos =
     (let ((t, r), (bytes, n)) = x; p = pos t; q = pos r; right = (0 \<le> fst q - fst p)
      in and_then (width_of dr bytes n) (\<lambda>w.
           Inr (\<lparr>arrow_visible = True, line_width = w, points = (p, q)\<rparr>,
                \<lparr>label_visible = True, font_size = trunc (1 + BITRATE_FONT_SIZE * scaling dr),
                 kbps = rate_of dr bytes n, pointing_right = Some right,
                 label_offset = (if right then - w / 2 else w / 2), label_at = midpoint (clip_line dr (p, q))\<rparr>)))"

definition update_transmissions_view :: "canvas_view \<Rightarrow> transmission list list \<Rightarrow> (scene, unit) act" where
  "update_transmissions_view dr window =
     redraw (\<lambda>x. [fst (fst x), snd (fst x)]) (transmission_look dr) (transmissions_average window)"

definition drop_look :: "canvas_view \<Rightarrow> nat \<times> (int \<times> nat) \<Rightarrow> (nat \<Rightarrow> rat \<times> rat) \<Rightarrow> (arrow_look \<times> label_look) res" where
  "drop_look dr x pos =
     (let (t, (bytes, n)) = x; p = pos t; q = (fst p, edge_y dr)
      in and_then (width_of dr bytes n) (\<lambda>w.
           Inr (\<lparr>arrow_visible = True, line_width = w, points = (p, q)\<rparr>,
                \<lparr>label_visible = True, font_size = trunc (1 + BITRATE_FONT_SIZE * scaling dr),
                 kbps = rate_of dr bytes n, pointing_right = None, label_offset = 0, label_at = midpoint (p, q)\<rparr>)))"

definition update_drops_view :: "canvas_view \<Rightarrow> packet_drop list list \<Rightarrow> (scene, unit) act" where
  "update_drops_view dr window = redraw (\<lambda>x. [fst x]) (drop_look dr) (drops_average window)"

section \<open>What a pool shows\<close>

text \<open>The numbers that are taken for \<open>k\<close> arrows.\<close>

definition allocate :: "nat list \<Rightarrow> nat \<Rightarrow> nat \<Rightarrow> nat list" where
  "allocate free n k = rev (drop (length free - k) free) @ [n ..< n + (k - length free)]"

lemma allocate_0 [simp]: "allocate free n 0 = []"
  by (simp add: allocate_def)

lemma length_allocate [simp]: "length (allocate free n k) = k"
  by (simp add: allocate_def)

lemma allocate_Suc:
  "allocate free n (Suc k) =
     (if free \<noteq> [] then last free # allocate (butlast free) n k else n # allocate [] (Suc n) k)"
proof (cases free rule: rev_cases)
  case Nil
  then show ?thesis by (simp add: allocate_def upt_conv_Cons)
next
  case (snoc ys y)
  then show ?thesis by (cases "k \<le> length ys") (simp_all add: allocate_def)
qed

lemma set_allocate: "set (allocate free n k) \<subseteq> set free \<union> {n ..< n + (k - length free)}"
  by (auto simp: allocate_def dest: in_set_dropD)

definition pool_ok :: "arrow_pool \<Rightarrow> bool" where
  "pool_ok p \<longleftrightarrow> distinct (stock p) \<and> (\<forall>i\<in>set (stock p). i < next_arrow p)"

lemma hide_fields [simp]: "stock (foldl hide p is) = stock p" "next_arrow (foldl hide p is) = next_arrow p"
  by (induction "is" arbitrary: p) (simp_all add: hide_def)

lemma hide_visible:
  "arrow_visible (arrow_of (foldl hide p is) i) = (arrow_visible (arrow_of p i) \<and> i \<notin> set is)"
  "label_visible (label_of (foldl hide p is) i) = (label_visible (label_of p i) \<and> i \<notin> set is)"
  by (induction "is" arbitrary: p) (auto simp: hide_def)

lemma position_get_node [simp]: "position (get_node i ns) = position ns"
  by (rule ext) (auto simp: position_def get_node_def map_add_def split: option.splits)

lemma position_fold [simp]: "position (fold get_node is ns) = position ns"
  by (induction "is" arbitrary: ns) simp_all

definition assign :: "('k \<Rightarrow> 'v) \<Rightarrow> ('k \<times> 'v) list \<Rightarrow> 'k \<Rightarrow> 'v" where
  "assign f kvs = foldl (\<lambda>f kv. f(fst kv := snd kv)) f kvs"

lemma assign_simps [simp]: "assign f [] = f" "assign f ((k, v) # kvs) = assign (f(k := v)) kvs"
  by (simp_all add: assign_def)

lemma assign_other: "k \<notin> fst ` set kvs \<Longrightarrow> assign f kvs k = f k"
  by (induction kvs arbitrary: f) auto

lemma assign_zip_other: "k \<notin> set ks \<Longrightarrow> assign f (zip ks vs) k = f k"
  by (rule assign_other) (auto dest: set_zip_leftD)

lemma assign_zip:
  "length ks = length vs \<Longrightarrow> distinct ks \<Longrightarrow> map (assign f (zip ks vs)) ks = vs"
proof (induction ks vs arbitrary: f rule: list_induct2)
  case (Cons k ks v vs)
  then show ?case by (simp add: assign_zip_other)
qed simp

lemma draw_one_run:
  assumes "look x (position (node_positions s)) = Inr (a, l)"
  shows "\<exists>s'. draw_one ends look new x s =
      (Inr (new @ [if stock (arrows s) \<noteq> [] then last (stock (arrows s)) else next_arrow (arrows s)]), s') \<and>
    position (node_positions s') = position (node_positions s) \<and>
    stock (arrows s') = butlast (stock (arrows s)) \<and>
    next_arrow (arrows s') = (if stock (arrows s) \<noteq> [] then next_arrow (arrows s) else Suc (next_arrow (arrows s))) \<and>
    arrow_of (arrows s') = (arrow_of (arrows s))((if stock (arrows s) \<noteq> [] then last (stock (arrows s)) else next_arrow (arrows s)) := a) \<and>
    label_of (arrows s') = (label_of (arrows s))((if stock (arrows s) \<noteq> [] then last (stock (arrows s)) else next_arrow (arrows s)) := l)"
  using assms by (simp add: draw_one_def take_arrow_def show_arrow_def set_looks_def act_simps Let_def)

lemma draw_from_run:
  assumes "\<forall>x\<in>set xs. look x (position (node_positions s)) = Inr (a x, l x)"
  shows "\<exists>s'. draw_from ends look new xs s = (Inr (new @ allocate (stock (arrows s)) (next_arrow (arrows s)) (length xs)), s') \<and>
    stock (arrows s') = take (length (stock (arrows s)) - length xs) (stock (arrows s)) \<and>
    next_arrow (arrows s') = next_arrow (arrows s) + (length xs - length (stock (arrows s))) \<and>
    arrow_of (arrows s') =
      assign (arrow_of (arrows s)) (zip (allocate (stock (arrows s)) (next_arrow (arrows s)) (length xs)) (map a xs)) \<and>
    label_of (arrows s') =
      assign (label_of (arrows s)) (zip (allocate (stock (arrows s)) (next_arrow (arrows s)) (length xs)) (map l xs))"
  using assms
proof (induction xs arbitrary: new s)
  case Nil
  then show ?case by (simp add: act_simps)
next
  case (Cons x xs)
  let ?free = "stock (arrows s)"
  let ?i = "if ?free \<noteq> [] then last ?free else next_arrow (arrows s)"
  from Cons.prems draw_one_run [of look x s "a x" "l x" ends new]
  obtain s1 where s1: "draw_one ends look new x s = (Inr (new @ [?i]), s1)"
    "position (node_positions s1) = position (node_positions s)" "stock (arrows s1) = butlast ?free"
    "next_arrow (arrows s1) = (if ?free \<noteq> [] then next_arrow (arrows s) else Suc (next_arrow (arrows s)))"
    "arrow_of (arrows s1) = (arrow_of (arrows s))(?i := a x)" "label_of (arrows s1) = (label_of (arrows s))(?i := l x)"
    by auto
  from Cons.prems s1(2) have "\<forall>x\<in>set xs. look x (position (node_positions s1)) = Inr (a x, l x)" by simp
  from Cons.IH [OF this, of "new @ [?i]"] obtain s2
    where s2: "draw_from ends look (new @ [?i]) xs s1 =
        (Inr (new @ [?i] @ allocate (butlast ?free) (next_arrow (arrows s1)) (length xs)), s2)"
      "stock (arrows s2) = take (length (butlast ?free) - length xs) (butlast ?free)"
      "next_arrow (arrows s2) = next_arrow (arrows s1) + (length xs - length (butlast ?free))"
      "arrow_of (arrows s2) = assign (arrow_of (arrows s1)) (zip (allocate (butlast ?free) (next_arrow (arrows s1)) (length xs)) (map a xs))"
      "label_of (arrows s2) = assign (label_of (arrows s1)) (zip (allocate (butlast ?free) (next_arrow (arrows s1)) (length xs)) (map l xs))"
    unfolding s1(3) by auto
  show ?case
  proof (cases "?free = []")
    case True
    with s1 s2 show ?thesis by (simp add: act_simps allocate_Suc)
  next
    case False
    then have "take (length ?free - Suc (length xs)) ?free = take (length ?free - Suc (length xs)) (butlast ?free)"
      by (simp add: butlast_conv_take take_take min_def)
    moreover from False have "length xs - (length ?free - Suc 0) = Suc (length xs) - length ?free"
      by (cases ?free) simp_all
    ultimately show ?thesis using False s1 s2 by (simp add: act_simps allocate_Suc)
  qed
qed

lemma distinct_allocate:
  assumes "distinct free" and "\<forall>i\<in>set free. i < n"
  shows "distinct (allocate free n k @ take (length free - k) free)"
proof -
  have "distinct (take (length free - k) free @ drop (length free - k) free)" using assms(1) by simp
  then have "distinct (drop (length free - k) free)"
    "set (take (length free - k) free) \<inter> set (drop (length free - k) free) = {}"
    unfolding distinct_append by auto
  moreover from assms(2) have "i < n" if "i \<in> set (drop m free) \<or> i \<in> set (take m free)" for i m
    using that by (auto dest: in_set_dropD in_set_takeD)
  ultimately show ?thesis using assms(1) by (fastforce simp: allocate_def)
qed

lemma allocate_keeps: "set free \<subseteq> set (allocate free n k @ take (length free - k) free)"
proof -
  have "set free = set (take (length free - k) free) \<union> set (drop (length free - k) free)"
    by (metis append_take_drop_id set_append)
  then show ?thesis unfolding allocate_def set_append set_rev by blast
qed

lemma redraw_run:
  assumes ok: "pool_ok (arrows s)"
    and look: "\<forall>x\<in>set xs. look x (position (node_positions s)) = Inr (a x, l x)"
  shows "\<exists>s' drawn. redraw ends look xs s = (Inr (), s') \<and>
    stock (arrows s') = drawn @ take (length (stock (arrows s)) - length xs) (stock (arrows s)) \<and>
    length drawn = length xs \<and>
    map (arrow_of (arrows s')) drawn = map a xs \<and> map (label_of (arrows s')) drawn = map l xs \<and>
    (\<forall>i\<in>set (stock (arrows s')) - set drawn. \<not> arrow_visible (arrow_of (arrows s') i) \<and> \<not> label_visible (label_of (arrows s') i)) \<and>
    set (stock (arrows s)) \<subseteq> set (stock (arrows s')) \<and> pool_ok (arrows s')"
proof -
  let ?s = "s\<lparr>arrows := hide_all (arrows s)\<rparr>" and ?free = "stock (arrows s)"
  let ?drawn = "allocate ?free (next_arrow (arrows s)) (length xs)"
  from look have "\<forall>x\<in>set xs. look x (position (node_positions ?s)) = Inr (a x, l x)" by simp
  from draw_from_run [where look = look and s = ?s and a = a and l = l, OF this, of ends "[]"] obtain s1
    where s1: "draw_from ends look [] xs ?s = (Inr ?drawn, s1)"
      "stock (arrows s1) = take (length ?free - length xs) ?free"
      "next_arrow (arrows s1) = next_arrow (arrows s) + (length xs - length ?free)"
      "arrow_of (arrows s1) = assign (arrow_of (hide_all (arrows s))) (zip ?drawn (map a xs))"
      "label_of (arrows s1) = assign (label_of (hide_all (arrows s))) (zip ?drawn (map l xs))"
    by (auto simp: hide_all_def)
  let ?s2 = "s1\<lparr>arrows := (arrows s1)\<lparr>stock := ?drawn @ stock (arrows s1)\<rparr>\<rparr>"
  have run: "redraw ends look xs s = (Inr (), ?s2)" by (simp add: redraw_def act_simps s1(1))
  from ok have d: "distinct (?drawn @ take (length ?free - length xs) ?free)"
    unfolding pool_ok_def by (intro distinct_allocate) auto
  then have dd: "distinct ?drawn" by simp
  have hidden: "\<forall>i\<in>set (stock (arrows ?s2)) - set ?drawn.
      \<not> arrow_visible (arrow_of (arrows ?s2) i) \<and> \<not> label_visible (label_of (arrows ?s2) i)"
    by (auto simp: s1 assign_zip_other hide_all_def hide_visible dest: in_set_takeD)
  have "pool_ok (arrows ?s2)" using d ok set_allocate [of ?free "next_arrow (arrows s)" "length xs"]
    by (fastforce simp: pool_ok_def s1 dest: in_set_takeD)
  moreover have "set ?free \<subseteq> set (stock (arrows ?s2))"
    using allocate_keeps [of ?free "next_arrow (arrows s)" "length xs"] by (simp add: s1)
  moreover have "map (arrow_of (arrows ?s2)) ?drawn = map a xs" "map (label_of (arrows ?s2)) ?drawn = map l xs"
    by (simp_all add: s1 assign_zip dd)
  ultimately show ?thesis using run hidden by (intro exI [of _ ?s2] exI [of _ ?drawn]) (simp add: s1)
qed

section \<open>What is drawn\<close>

definition drop_keys :: "packet_drop list list \<Rightarrow> (nat \<times> int) list" where
  "drop_keys window = map (\<lambda>p. (dropped_by p, dropped_bytes p)) (concat window)"

lemma drops_average_eq: "drops_average window = foldl accumulate [] (drop_keys window)"
  unfolding drops_average_def drop_keys_def foldl_concat
    foldl_map_arg [of accumulate "\<lambda>p. (dropped_by p, dropped_bytes p)"] by simp

lemma totals_Some:
  assumes "totals ss k = Some (b, n)"
  shows "k \<in> fst ` set ss" "0 < n" "\<forall>s\<in>set ss. 0 < snd s \<Longrightarrow> 0 < b"
proof -
  let ?bs = "map snd (filter (\<lambda>s. fst s = k) ss)"
  from assms have bs: "?bs \<noteq> []" "b = sum_list ?bs" "n = length ?bs"
    by (auto simp: totals_def Let_def split: if_splits)
  then show "k \<in> fst ` set ss" "0 < n" by (auto simp: filter_empty_conv)
  assume "\<forall>s\<in>set ss. 0 < snd s"
  then have "\<forall>b\<in>set ?bs. 0 < b" by auto
  moreover have "xs \<noteq> [] \<Longrightarrow> \<forall>b\<in>set xs. 0 < b \<Longrightarrow> 0 < sum_list xs" for xs :: "int list"
    by (induction xs rule: list_nonempty_induct) auto
  ultimately show "0 < b" using bs by blast
qed

lemma average_keys: "fst ` set (foldl accumulate [] ss) = fst ` set ss"
proof -
  have "k \<in> fst ` set (foldl accumulate [] ss) \<longleftrightarrow> map_of (foldl accumulate [] ss) k \<noteq> None" for k
    by (simp add: map_of_eq_None_iff)
  moreover have "totals ss k \<noteq> None \<longleftrightarrow> k \<in> fst ` set ss" for k
    by (auto simp: totals_def Let_def filter_empty_conv)
  ultimately show ?thesis using foldl_accumulate [of ss] by auto
qed

lemma average_entry:
  assumes "(k, (b, n)) \<in> set (foldl accumulate [] ss)"
  shows "totals ss k = Some (b, n)"
  using assms foldl_accumulate [of ss] by (metis wf_dict_def map_of_is_SomeI)

lemma width_of_pos:
  "0 < b \<Longrightarrow> 0 < n \<Longrightarrow> 0 < period dr \<Longrightarrow>
     width_of dr b n = Inr (max (1 / 10) (logarithm dr (of_int b / of_nat n / period dr) * scaling dr))"
  by (simp add: width_of_def log_of_def not_le)

text \<open>The width, the line and the rate an arrow is to have for the samples of its key.\<close>

definition depicts ::
  "canvas_view \<Rightarrow> ('k \<times> int) list \<Rightarrow> 'k \<Rightarrow> (rat \<times> rat) \<times> (rat \<times> rat) \<Rightarrow> arrow_look \<Rightarrow> label_look \<Rightarrow> bool" where
  "depicts dr ss k line a l \<longleftrightarrow>
     arrow_visible a \<and> label_visible l \<and> points a = line \<and> line_width a \<ge> 1 / 10 \<and>
     (let bs = map snd (filter (\<lambda>s. fst s = k) ss)
      in kbps l * 1000 * of_nat (length bs) * period dr = of_int (8 * sum_list bs))"

lemma depicts_rate:
  assumes "totals ss k = Some (b, n)" and "0 < period dr"
  shows "depicts dr ss k line
    \<lparr>arrow_visible = True, line_width = max (1 / 10) w, points = line\<rparr>
    \<lparr>label_visible = True, font_size = f, kbps = rate_of dr b n, pointing_right = r, label_offset = off, label_at = mid\<rparr>"
proof -
  let ?bs = "map snd (filter (\<lambda>s. fst s = k) ss)"
  from assms(1) have bs: "?bs \<noteq> []" "b = sum_list ?bs" "n = length ?bs"
    by (auto simp: totals_def Let_def split: if_splits)
  then have "0 < n" by simp
  with assms(2) have "rate_of dr b n * 1000 * of_nat n * period dr = of_int (8 * b)"
    by (simp add: rate_of_def field_simps)
  with bs show ?thesis by (simp add: depicts_def Let_def)
qed

text \<open>The arrows of \<open>drawn\<close> depict the keys of the samples, one each, and no other arrow is seen.\<close>

definition shows_exactly ::
  "canvas_view \<Rightarrow> ('k \<times> int) list \<Rightarrow> ('k \<Rightarrow> (rat \<times> rat) \<times> (rat \<times> rat)) \<Rightarrow> arrow_pool \<Rightarrow> bool" where
  "shows_exactly dr ss line p \<longleftrightarrow>
     (\<exists>ks drawn rest. stock p = drawn @ rest \<and> distinct ks \<and> set ks = fst ` set ss \<and>
        list_all2 (\<lambda>k i. depicts dr ss k (line k) (arrow_of p i) (label_of p i)) ks drawn \<and>
        (\<forall>i\<in>set rest. \<not> arrow_visible (arrow_of p i) \<and> \<not> label_visible (label_of p i)))"

lemma redraw_average:
  assumes ok: "pool_ok (arrows s)"
    and look: "\<And>k b n. totals ss k = Some (b, n) \<Longrightarrow>
      look (k, (b, n)) (position (node_positions s)) = Inr (a (k, (b, n)), l (k, (b, n))) \<and>
      depicts dr ss k (line k) (a (k, (b, n))) (l (k, (b, n)))"
  shows "\<exists>s'. redraw ends look (foldl accumulate [] ss) s = (Inr (), s') \<and> shows_exactly dr ss line (arrows s') \<and>
    length (stock (arrows s')) = max (length (stock (arrows s))) (card (fst ` set ss)) \<and>
    set (stock (arrows s)) \<subseteq> set (stock (arrows s')) \<and> pool_ok (arrows s')"
proof -
  let ?xs = "foldl accumulate [] ss" and ?free = "stock (arrows s)"
  have entry: "look x (position (node_positions s)) = Inr (a x, l x) \<and> depicts dr ss (fst x) (line (fst x)) (a x) (l x)"
    if "x \<in> set ?xs" for x
  proof -
    obtain k b n where x: "x = (k, (b, n))" by (metis prod.exhaust)
    with that have "totals ss k = Some (b, n)" by (blast intro: average_entry)
    with look x show ?thesis by simp
  qed
  then have "\<forall>x\<in>set ?xs. look x (position (node_positions s)) = Inr (a x, l x)" by blast
  from redraw_run [where look = look and s = s and a = a and l = l, OF ok this, of ends] obtain s' drawn
    where s': "redraw ends look ?xs s = (Inr (), s')"
      "stock (arrows s') = drawn @ take (length ?free - length ?xs) ?free" "length drawn = length ?xs"
      "map (arrow_of (arrows s')) drawn = map a ?xs" "map (label_of (arrows s')) drawn = map l ?xs"
      "\<forall>i\<in>set (stock (arrows s')) - set drawn. \<not> arrow_visible (arrow_of (arrows s') i) \<and> \<not> label_visible (label_of (arrows s') i)"
      "set ?free \<subseteq> set (stock (arrows s'))" "pool_ok (arrows s')"
    by blast
  let ?ks = "map fst ?xs" and ?p = "arrows s'"
  have d: "distinct ?ks" using foldl_accumulate [of ss] by (simp add: wf_dict_def)
  have ks: "set ?ks = fst ` set ss" using average_keys [of ss] by simp
  have "list_all2 (\<lambda>k i. depicts dr ss k (line k) (arrow_of ?p i) (label_of ?p i)) ?ks drawn"
  proof (rule list_all2_all_nthI)
    fix j assume j: "j < length ?ks"
    with s'(3) have jd: "j < length drawn" by simp
    from s'(4) j jd have "arrow_of ?p (drawn ! j) = a (?xs ! j)" by (metis length_map nth_map)
    moreover from s'(5) j jd have "label_of ?p (drawn ! j) = l (?xs ! j)" by (metis length_map nth_map)
    ultimately show "depicts dr ss (?ks ! j) (line (?ks ! j)) (arrow_of ?p (drawn ! j)) (label_of ?p (drawn ! j))"
      using entry [of "?xs ! j"] j by simp
  qed (simp add: s'(3))
  moreover have "set drawn \<inter> set (take (length ?free - length ?xs) ?free) = {}"
    using s'(8) unfolding pool_ok_def s'(2) by simp
  with s'(6) have "\<forall>i\<in>set (take (length ?free - length ?xs) ?free). \<not> arrow_visible (arrow_of ?p i) \<and> \<not> label_visible (label_of ?p i)"
    unfolding s'(2) by auto
  ultimately have "shows_exactly dr ss line ?p" unfolding shows_exactly_def using s'(2) d ks by blast
  moreover have "length (stock ?p) = max (length ?free) (card (fst ` set ss))"
    using distinct_card [OF d] unfolding ks s'(2) by (cases "length ?free \<le> length ?xs") (simp_all add: s'(3))
  ultimately show ?thesis using s'(1,7,8) by blast
qed

text \<open>
  C20. When the packets of the window have bytes, the transmissions view returns, and what is seen afterwards
  is one arrow for each pair of nodes that transmitted in the window, from the position of the first
  to that of the second, with the average rate of the pair; the arrows that are not needed are kept,
  hidden, and new ones are made only when there are too few.
\<close>

theorem transmissions_drawn:
  assumes "pool_ok (arrows s)" and "0 < period dr" and "\<forall>t\<in>set (concat window). 0 < sent_bytes t"
  shows "\<exists>s'. update_transmissions_view dr window s = (Inr (), s') \<and>
    shows_exactly dr (map (\<lambda>t. ((transmitter t, receiver t), sent_bytes t)) (concat window))
      (\<lambda>(t, r). (position (node_positions s) t, position (node_positions s) r)) (arrows s') \<and>
    length (stock (arrows s')) =
      max (length (stock (arrows s))) (card ((\<lambda>t. (transmitter t, receiver t)) ` set (concat window))) \<and>
    set (stock (arrows s)) \<subseteq> set (stock (arrows s')) \<and> pool_ok (arrows s')"
proof -
  let ?ss = "transmission_keys window" and ?pos = "position (node_positions s)"
  let ?look = "\<lambda>x. projr (transmission_look dr x ?pos)"
  have pos: "\<forall>s\<in>set ?ss. 0 < snd s" using assms(3) by (auto simp: transmission_keys_def)
  have look: "transmission_look dr (k, (b, n)) ?pos = Inr (fst (?look (k, (b, n))), snd (?look (k, (b, n)))) \<and>
      depicts dr ?ss k ((\<lambda>(t, r). (?pos t, ?pos r)) k) (fst (?look (k, (b, n)))) (snd (?look (k, (b, n))))"
    if "totals ?ss k = Some (b, n)" for k b n
  proof -
    from totals_Some [OF that] pos assms(2) have "0 < b" "0 < n" by auto
    with that assms(2) show ?thesis
      by (cases k) (simp add: transmission_look_def width_of_pos depicts_rate Let_def)
  qed
  have keys: "fst ` set ?ss = (\<lambda>t. (transmitter t, receiver t)) ` set (concat window)"
    by (simp only: transmission_keys_def set_map image_image fst_conv)
  show ?thesis
    unfolding update_transmissions_view_def transmissions_average_eq transmission_keys_def [symmetric] keys [symmetric]
    by (rule redraw_average [where a = "\<lambda>x. fst (?look x)" and l = "\<lambda>x. snd (?look x)", OF assms(1)]) (rule look)
qed

theorem drops_drawn:
  assumes "pool_ok (arrows s)" and "0 < period dr" and "\<forall>p\<in>set (concat window). 0 < dropped_bytes p"
  shows "\<exists>s'. update_drops_view dr window s = (Inr (), s') \<and>
    shows_exactly dr (map (\<lambda>p. (dropped_by p, dropped_bytes p)) (concat window))
      (\<lambda>i. (position (node_positions s) i, (fst (position (node_positions s) i), edge_y dr))) (arrows s') \<and>
    length (stock (arrows s')) = max (length (stock (arrows s))) (card (dropped_by ` set (concat window))) \<and>
    set (stock (arrows s)) \<subseteq> set (stock (arrows s')) \<and> pool_ok (arrows s')"
proof -
  let ?ss = "drop_keys window" and ?pos = "position (node_positions s)"
  let ?look = "\<lambda>x. projr (drop_look dr x ?pos)"
  have pos: "\<forall>s\<in>set ?ss. 0 < snd s" using assms(3) by (auto simp: drop_keys_def)
  have look: "drop_look dr (k, (b, n)) ?pos = Inr (fst (?look (k, (b, n))), snd (?look (k, (b, n)))) \<and>
      depicts dr ?ss k (?pos k, (fst (?pos k), edge_y dr)) (fst (?look (k, (b, n)))) (snd (?look (k, (b, n))))"
    if "totals ?ss k = Some (b, n)" for k b n
  proof -
    from totals_Some [OF that] pos assms(2) have "0 < b" "0 < n" by auto
    with that assms(2) show ?thesis by (simp add: drop_look_def width_of_pos depicts_rate Let_def)
  qed
  have keys: "fst ` set ?ss = dropped_by ` set (concat window)"
    by (simp only: drop_keys_def set_map image_image fst_conv)
  show ?thesis
    unfolding update_drops_view_def drops_average_eq drop_keys_def [symmetric] keys [symmetric]
    by (rule redraw_average [where a = "\<lambda>x. fst (?look x)" and l = "\<lambda>x. snd (?look x)", OF assms(1)]) (rule look)
qed

definition still_view :: canvas_view where
  "still_view = \<lparr>node_size = 1, period = 1 / 2, logarithm = (\<lambda>x. x / 100), clip_line = (\<lambda>l. l), edge_y = 50\<rparr>"

definition two_nodes :: scene where
  "two_nodes = \<lparr>node_positions = [(0, (1, 2)), (1, (3, 4))],
     arrows = \<lparr>stock = [0], arrow_of = (\<lambda>_. new_arrow), label_of = (\<lambda>_. new_label), next_arrow = 1\<rparr>\<rparr>"

lemma two_nodes_ok: "pool_ok (arrows two_nodes)" "length (stock (arrows two_nodes)) = 1"
  by (simp_all add: two_nodes_def pool_ok_def)

lemma still_period: "0 < period still_view"
  by (simp add: still_view_def)

definition heard :: "transmission list list" where
  "heard = [[\<lparr>transmitter = 0, receiver = 1, sent_bytes = 100\<rparr>], [\<lparr>transmitter = 0, receiver = 1, sent_bytes = 300\<rparr>]]"

lemma heard_facts:
  "\<forall>t\<in>set (concat heard). 0 < sent_bytes t" "(\<lambda>t. (transmitter t, receiver t)) ` set (concat heard) = {(0, 1)}"
  by (simp_all add: heard_def)

theorem transmissions_drawn_witness:
  "\<exists>s'. update_transmissions_view still_view heard two_nodes = (Inr (), s') \<and> length (stock (arrows s')) = 1"
proof -
  from transmissions_drawn [OF two_nodes_ok(1) still_period heard_facts(1)] obtain s'
    where "update_transmissions_view still_view heard two_nodes = (Inr (), s')"
      "length (stock (arrows s')) = max (length (stock (arrows two_nodes))) (card ((\<lambda>t. (transmitter t, receiver t)) ` set (concat heard)))"
    by blast
  then show ?thesis using heard_facts(2) two_nodes_ok(2) by simp
qed

definition lost :: "packet_drop list list" where
  "lost = [[\<lparr>dropped_by = 0, dropped_bytes = 100\<rparr>, \<lparr>dropped_by = 1, dropped_bytes = 60\<rparr>]]"

lemma lost_facts: "\<forall>t\<in>set (concat lost). 0 < dropped_bytes t" "card (dropped_by ` set (concat lost)) = 2"
  by (simp_all add: lost_def)

theorem drops_drawn_witness:
  "\<exists>s'. update_drops_view still_view lost two_nodes = (Inr (), s') \<and> length (stock (arrows s')) = 2"
proof -
  from drops_drawn [OF two_nodes_ok(1) still_period lost_facts(1)] obtain s'
    where "update_drops_view still_view lost two_nodes = (Inr (), s')"
      "length (stock (arrows s')) = max (length (stock (arrows two_nodes))) (card (dropped_by ` set (concat lost)))"
    by blast
  then show ?thesis using lost_facts(2) two_nodes_ok(2) by simp
qed

text \<open>
  A pair whose packets have no bytes has no logarithm. The view raises then, and the arrows that were
  taken for the pairs before it and for itself are in no list any more, though they stay visible.
\<close>

definition silent_back :: "transmission list list" where
  "silent_back = [[\<lparr>transmitter = 0, receiver = 1, sent_bytes = 100\<rparr>, \<lparr>transmitter = 1, receiver = 0, sent_bytes = 0\<rparr>]]"

theorem empty_packets_lose_arrows:
  "(case update_transmissions_view still_view silent_back two_nodes of
     (r, s) \<Rightarrow> r = Inl ValueError \<and> stock (arrows s) = [] \<and> arrow_visible (arrow_of (arrows s) 0))"
  by code_simp

section \<open>The interfaces of a node\<close>

text \<open>
  \<open>StatisticsCollector\<close>: the counters of the devices of each node, of the last ten updates, and
  the rates between the first and the last of them.
\<close>

record counters =
  transmitted_packets :: int
  transmitted_bytes :: int
  received_packets :: int
  received_bytes :: int

record dev_stats =
  tx_packets :: int
  tx_bytes :: int
  rx_packets :: int
  rx_bytes :: int
  tx_packet_rate :: rat
  tx_bit_rate :: rat
  rx_packet_rate :: rat
  rx_bit_rate :: rat

definition NODE_STATISTICS_MEMORY :: nat where
  "NODE_STATISTICS_MEMORY = 10"

type_synonym node_statistics = "(nat, counters list list) dict"

definition collect_one :: "node_statistics \<Rightarrow> nat \<times> counters list \<Rightarrow> node_statistics" where
  "collect_one d st =
     (let raw = (case map_of d (fst st) of None \<Rightarrow> [] | Some l \<Rightarrow> l) @ [snd st]
      in AList.update (fst st) (drop (length raw - NODE_STATISTICS_MEMORY) raw) d)"

definition statistics_update :: "node_statistics \<Rightarrow> (nat \<times> counters list) list \<Rightarrow> node_statistics" where
  "statistics_update d nodes = foldl collect_one d nodes"

definition dev_rates :: "rat \<Rightarrow> counters \<Rightarrow> counters \<Rightarrow> dev_stats res" where
  "dev_rates k old new =
     (if k = 0 then Inl ZeroDivisionError
      else Inr \<lparr>tx_packets = transmitted_packets new, tx_bytes = transmitted_bytes new,
                rx_packets = received_packets new, rx_bytes = received_bytes new,
                tx_packet_rate = of_int (transmitted_packets new - transmitted_packets old) / k,
                tx_bit_rate = of_int ((transmitted_bytes new - transmitted_bytes old) * 8) / k,
                rx_packet_rate = of_int (received_packets new - received_packets old) / k,
                rx_bit_rate = of_int ((received_bytes new - received_bytes old) * 8) / k\<rparr>)"

fun all_rates :: "rat \<Rightarrow> counters list \<Rightarrow> counters list \<Rightarrow> dev_stats list res" where
  "all_rates k old [] = Inr []"
| "all_rates k [] (new # news) = Inl IndexError"
| "all_rates k (old # olds) (new # news) =
     and_then (dev_rates k old new) (\<lambda>st. and_then (all_rates k olds news) (\<lambda>sts. Inr (st # sts)))"

definition get_interface_statistics :: "rat \<Rightarrow> node_statistics \<Rightarrow> nat \<Rightarrow> dev_stats list res" where
  "get_interface_statistics sample_period d i =
     (case map_of d i of None \<Rightarrow> Inr []
      | Some raw \<Rightarrow>
          if length raw < NODE_STATISTICS_MEMORY then Inr []
          else if length raw \<noteq> NODE_STATISTICS_MEMORY then Inl AssertionError
          else all_rates (sample_period * of_nat (NODE_STATISTICS_MEMORY - 1)) (hd raw) (last raw))"

definition counters_of :: "nat \<Rightarrow> (nat \<times> counters list) list list \<Rightarrow> counters list list" where
  "counters_of i updates = map snd (filter (\<lambda>st. fst st = i) (concat updates))"

lemma last_n_length: "length (last_n k xs) = min k (length xs)"
  by (auto simp: last_n_def min_def)

lemma collected:
  "map_of (foldl collect_one [] sts) i =
     (let cs = map snd (filter (\<lambda>st. fst st = i) sts) in if cs = [] then None else Some (last_n NODE_STATISTICS_MEMORY cs))"
proof (induction sts rule: rev_induct)
  case (snoc st sts)
  let ?cs = "map snd (filter (\<lambda>st. fst st = i) sts)"
  have keep: "drop (length raw - NODE_STATISTICS_MEMORY) raw = last_n NODE_STATISTICS_MEMORY raw" for raw :: "counters list list"
    by (simp add: last_n_def)
  show ?case
  proof (cases "fst st = i")
    case True
    with snoc.IH last_n_snoc [of NODE_STATISTICS_MEMORY ?cs "snd st"] show ?thesis
      by (simp add: collect_one_def Let_def keep update_conv' NODE_STATISTICS_MEMORY_def last_n_def split: if_splits)
  next
    case False
    with snoc.IH show ?thesis by (simp add: collect_one_def Let_def update_conv')
  qed
qed simp

text \<open>The formulas, for each interface: the totals are the last ones, the rates those of the difference.\<close>

lemma dev_rates_fields:
  assumes "dev_rates k old new = Inr st"
  shows "tx_packets st = transmitted_packets new \<and> tx_bytes st = transmitted_bytes new
    \<and> rx_packets st = received_packets new \<and> rx_bytes st = received_bytes new
    \<and> tx_packet_rate st = of_int (transmitted_packets new - transmitted_packets old) / k
    \<and> tx_bit_rate st = 8 * of_int (transmitted_bytes new - transmitted_bytes old) / k
    \<and> rx_packet_rate st = of_int (received_packets new - received_packets old) / k
    \<and> rx_bit_rate st = 8 * of_int (received_bytes new - received_bytes old) / k"
  using assms by (auto simp: dev_rates_def split: if_splits)

lemma all_rates_ok:
  "k \<noteq> 0 \<Longrightarrow> length news \<le> length olds \<Longrightarrow>
     \<exists>sts. all_rates k olds news = Inr sts \<and> length sts = length news \<and>
       (\<forall>j<length news. dev_rates k (olds ! j) (news ! j) = Inr (sts ! j))"
proof (induction k olds news rule: all_rates.induct)
  case (3 k old olds new news)
  then obtain st where st: "dev_rates k old new = Inr st" by (auto simp: dev_rates_def)
  from 3 st obtain sts where "all_rates k olds news = Inr sts" "length sts = length news"
    "\<forall>j<length news. dev_rates k (olds ! j) (news ! j) = Inr (sts ! j)"
    by auto
  with st show ?case by (auto simp: nth_Cons split: nat.splits)
qed auto

lemma new_interface_unknown:
  "k \<noteq> 0 \<Longrightarrow> length olds < length news \<Longrightarrow> all_rates k olds news = Inl IndexError"
  by (induction k olds news rule: all_rates.induct) (auto simp: dev_rates_def)

text \<open>What the collector has of a node: the counters of its last ten updates.\<close>

lemma statistics_window:
  "get_interface_statistics p (foldl statistics_update [] updates) i =
     (let seen = counters_of i updates
      in if length seen < 10 then Inr [] else all_rates (9 * p) (seen ! (length seen - 10)) (last seen))"
proof -
  let ?seen = "counters_of i updates"
  have "foldl statistics_update [] updates = foldl collect_one [] (concat updates)"
    unfolding statistics_update_def by (rule foldl_concat)
  then have m: "map_of (foldl statistics_update [] updates) i = (if ?seen = [] then None else Some (last_n 10 ?seen))"
    using collected [of "concat updates" i] by (simp add: counters_of_def NODE_STATISTICS_MEMORY_def Let_def)
  show ?thesis
  proof (cases "length ?seen < 10")
    case True
    with m show ?thesis
      by (simp add: get_interface_statistics_def NODE_STATISTICS_MEMORY_def last_n_length Let_def)
  next
    case False
    then have "?seen \<noteq> []" "hd (last_n 10 ?seen) = ?seen ! (length ?seen - 10)" "last (last_n 10 ?seen) = last ?seen"
      by (auto simp: last_n_def hd_drop_conv_nth last_drop)
    with m False show ?thesis
      by (simp add: get_interface_statistics_def NODE_STATISTICS_MEMORY_def last_n_length Let_def min_def mult.commute [of 9 p])
  qed
qed

text \<open>
  C36. The statistics of a node are none until ten updates have brought its counters. Then there is
  one entry for each interface of the last update: what has been sent and received in all, and the
  packets and the bits sent and received per second since the update nine sample periods before. An
  interface that was not there then is the only error.
\<close>

theorem interface_rates:
  assumes "0 < p"
  shows "let seen = counters_of i updates; old = seen ! (length seen - 10); new = last seen;
      r = get_interface_statistics p (foldl statistics_update [] updates) i
    in if length seen < 10 then r = Inr []
       else if length old < length new then r = Inl IndexError
       else \<exists>sts. r = Inr sts \<and> length sts = length new \<and> (\<forall>j<length new.
         tx_packets (sts ! j) = transmitted_packets (new ! j) \<and> tx_bytes (sts ! j) = transmitted_bytes (new ! j) \<and>
         rx_packets (sts ! j) = received_packets (new ! j) \<and> rx_bytes (sts ! j) = received_bytes (new ! j) \<and>
         tx_packet_rate (sts ! j) = of_int (transmitted_packets (new ! j) - transmitted_packets (old ! j)) / (9 * p) \<and>
         tx_bit_rate (sts ! j) = 8 * of_int (transmitted_bytes (new ! j) - transmitted_bytes (old ! j)) / (9 * p) \<and>
         rx_packet_rate (sts ! j) = of_int (received_packets (new ! j) - received_packets (old ! j)) / (9 * p) \<and>
         rx_bit_rate (sts ! j) = 8 * of_int (received_bytes (new ! j) - received_bytes (old ! j)) / (9 * p))"
proof -
  let ?seen = "counters_of i updates"
  let ?old = "?seen ! (length ?seen - 10)" and ?new = "last ?seen"
  have k: "9 * p \<noteq> 0" using assms by simp
  show ?thesis
  proof (cases "length ?seen < 10 \<or> length ?old < length ?new")
    case True
    with statistics_window [of p updates i] new_interface_unknown [OF k, of ?old ?new] show ?thesis
      by (auto simp: Let_def)
  next
    case False
    with all_rates_ok [OF k, of ?new ?old] obtain sts where sts: "all_rates (9 * p) ?old ?new = Inr sts"
      "length sts = length ?new" and each: "\<forall>j<length ?new. dev_rates (9 * p) (?old ! j) (?new ! j) = Inr (sts ! j)" by auto
    from False sts(1) have "get_interface_statistics p (foldl statistics_update [] updates) i = Inr sts"
      by (simp add: statistics_window Let_def)
    with False sts(2) show ?thesis
      unfolding Let_def by (simp only: if_False de_Morgan_disj) (use each dev_rates_fields in blast)
  qed
qed

text \<open>Ten updates of a node with one interface, which sends two packets of a hundred bytes between any two.\<close>

definition sample_updates :: "(nat \<times> counters list) list list" where
  "sample_updates = map (\<lambda>t. [(3, [\<lparr>transmitted_packets = 2 * int t, transmitted_bytes = 200 * int t,
     received_packets = 1, received_bytes = 50\<rparr>])]) [0..<10]"

theorem interface_rates_witness:
  "\<exists>st. get_interface_statistics (1 / 10) (foldl statistics_update [] sample_updates) 3 = Inr [st]
    \<and> tx_packets st = 18 \<and> tx_packet_rate st = 20 \<and> tx_bit_rate st = 16000 \<and> rx_bit_rate st = 0"
proof -
  let ?seen = "counters_of 3 sample_updates"
  have seen: "length ?seen = 10 \<and> length (?seen ! 0) = 1 \<and> length (last ?seen) = 1
      \<and> map (\<lambda>c. (transmitted_packets c, transmitted_bytes c, received_bytes c)) (?seen ! 0) = [(0, 0, 50)]
      \<and> map (\<lambda>c. (transmitted_packets c, transmitted_bytes c, received_bytes c)) (last ?seen) = [(18, 1800, 50)]"
    by code_simp
  then obtain old new where on: "?seen ! 0 = [old]" "last ?seen = [new]"
    by (auto simp: length_Suc_conv)
  have "(0 :: rat) < 1 / 10" by simp
  from interface_rates [OF this, where updates = sample_updates and i = 3] seen on show ?thesis
    by (auto simp: Let_def length_Suc_conv)
qed

end
