(* ===== verification/VizModel.thy ===== *)
theory VizModel
  imports VizTraffic "HOL-Library.Word"
begin

unbundle bit_operations_syntax

text \<open>
  src/visualizer/visualizer/core.py, the objects of the view: nodes, channels and the links between
  them, their positions on the canvas, their looks, the selection, dragging and the scan of the
  topology; and the links of plugins/wifi_intrastructure_link.py. What is read from the simulator
  (nodes, devices, channels, positions) and the layout of graphviz are parameters, and so is whether
  \<open>get_bounds\<close> works.
\<close>

section \<open>Objects\<close>

text \<open>
  Nodes and channels are known by their keys in the dictionaries of the visualizer, links by their
  place in the list of all that were made. A WiFi link has no second end while its station is not
  associated. In Python 3 a node has no label (\<open>set_label\<close> raises) and, without the module
  \<open>svgitem\<close>, no icon.
\<close>

definition PIXELS_PER_METER :: rat where
  "PIXELS_PER_METER = 3"

definition DEFAULT_NODE_SIZE :: rat where
  "DEFAULT_NODE_SIZE = 1"

datatype link_end = NodeEnd nat | ChannelEnd nat

datatype link_sort = Wired | WifiLink

record node_look =
  radius :: rat
  fill_color_rgba :: int
  look_line_width :: rat
  stroke_color :: string

record vnode =
  node_at :: "rat \<times> rat"
  node_links :: "nat list"
  node_selected :: bool
  node_highlighted :: bool
  node_color :: int
  size_of_node :: rat
  node_mobility :: "bool option"
  node_shown :: node_look

record vchannel =
  channel_at :: "rat \<times> rat"
  channel_links :: "nat list"

record vlink =
  link_kind :: link_sort
  link_node1 :: nat
  link_node2 :: "link_end option"
  link_points :: "((rat \<times> rat) \<times> (rat \<times> rat)) option"
  link_visible :: bool
  link_destroyed :: bool

datatype transmissions_mode = ShowAll | ShowNone | ShowSelected

record drag_state =
  drag_canvas0 :: "rat \<times> rat"
  drag_sim0 :: "rat \<times> rat"
  drag_signal :: nat

text \<open>
  What does not change while the window is open: whether \<open>canvas.get_bounds()\<close> returns four
  numbers (with some versions of the GooCanvas bindings it does not, which the code knows as bug 2969),
  and the bounds that scripts have given to \<open>set_bounds\<close> before the start.
\<close>

record canvas_settings =
  get_bounds_works :: bool
  bounds_hooks :: "((rat \<times> rat) \<times> (rat \<times> rat)) list"

record vmodel =
  vnodes :: "(nat, vnode) dict"
  vchannels :: "(nat, vchannel) dict"
  vlinks :: "vlink list"
  canvas_bounds :: "(rat \<times> rat) \<times> (rat \<times> rat)"
  canvas_setup :: canvas_settings
  selected_node :: "nat option"
  show_mode :: transmissions_mode
  nodes_of_interest :: "nat list"
  node_drag_state :: "drag_state option"
  motion_connected :: "nat list"

definition to_canvas :: "rat \<times> rat \<Rightarrow> rat \<times> rat" where
  "to_canvas p = (fst p * PIXELS_PER_METER, snd p * PIXELS_PER_METER)"

definition to_simulation :: "rat \<Rightarrow> rat" where
  "to_simulation d = d / PIXELS_PER_METER"

section \<open>Nodes\<close>

text \<open>\<open>_update_appearance\<close>: the radius in pixels, the colour made opaque, the outline.\<close>

definition appearance :: "vnode \<Rightarrow> node_look" where
  "appearance v =
     (let size = size_of_node v * PIXELS_PER_METER
      in \<lparr>radius = size, fill_color_rgba = (node_color v AND 0xffffff00) OR 0xff,
          look_line_width = (if node_selected v then size * (3 / 10) else size * (15 / 100)),
          stroke_color = (if node_highlighted v then ''yellow'' else ''black'')\<rparr>)"

definition update_appearance :: "vnode \<Rightarrow> vnode" where
  "update_appearance v = v\<lparr>node_shown := appearance v\<rparr>"

definition new_node :: vnode where
  "new_node = update_appearance
     \<lparr>node_at = (0, 0), node_links = [], node_selected = False, node_highlighted = False, node_color = 0x808080ff,
      size_of_node = DEFAULT_NODE_SIZE, node_mobility = None,
      node_shown = \<lparr>radius = 0, fill_color_rgba = 0, look_line_width = 0, stroke_color = []\<rparr>\<rparr>"

definition set_selected :: "bool \<Rightarrow> vnode \<Rightarrow> vnode" where
  "set_selected b v = update_appearance (v\<lparr>node_selected := b\<rparr>)"

definition set_highlighted :: "bool \<Rightarrow> vnode \<Rightarrow> vnode" where
  "set_highlighted b v = update_appearance (v\<lparr>node_highlighted := b\<rparr>)"

definition set_size :: "rat \<Rightarrow> vnode \<Rightarrow> vnode" where
  "set_size x v = update_appearance (v\<lparr>size_of_node := x\<rparr>)"

text \<open>A colour is a number, or a name that GDK has turned into three channels of sixteen bits.\<close>

datatype node_colour = Named int int int | Rgba int

definition rgba_of :: "node_colour \<Rightarrow> int" where
  "rgba_of c =
     (case c of
        Named r g b \<Rightarrow>
          push_bit 24 (drop_bit 8 r) OR push_bit 16 (drop_bit 8 g) OR push_bit 8 (drop_bit 8 b) OR 0xff
      | Rgba n \<Rightarrow> n)"

definition set_color :: "node_colour \<Rightarrow> vnode \<Rightarrow> vnode" where
  "set_color c v = update_appearance (v\<lparr>node_color := rgba_of c\<rparr>)"

definition set_label :: "string \<Rightarrow> vnode \<Rightarrow> vnode res" where
  "set_label l v = Inl (OtherException ''NameError'')"

definition with_node :: "nat \<Rightarrow> (vnode \<Rightarrow> vnode) \<Rightarrow> vmodel \<Rightarrow> vmodel" where
  "with_node n f s = s\<lparr>vnodes := AList.map_entry n f (vnodes s)\<rparr>"

definition with_channel :: "nat \<Rightarrow> (vchannel \<Rightarrow> vchannel) \<Rightarrow> vmodel \<Rightarrow> vmodel" where
  "with_channel c f s = s\<lparr>vchannels := AList.map_entry c f (vchannels s)\<rparr>"

section \<open>Links\<close>

definition node_pos :: "nat \<Rightarrow> vmodel \<Rightarrow> rat \<times> rat" where
  "node_pos n s = (case map_of (vnodes s) n of None \<Rightarrow> (0, 0) | Some v \<Rightarrow> node_at v)"

definition end_pos :: "link_end \<Rightarrow> vmodel \<Rightarrow> rat \<times> rat" where
  "end_pos e s =
     (case e of
        NodeEnd n \<Rightarrow> node_pos n s
      | ChannelEnd c \<Rightarrow> (case map_of (vchannels s) c of None \<Rightarrow> (0, 0) | Some v \<Rightarrow> channel_at v))"

definition links_at :: "link_end \<Rightarrow> vmodel \<Rightarrow> nat list" where
  "links_at e s =
     (case e of
        NodeEnd n \<Rightarrow> (case map_of (vnodes s) n of None \<Rightarrow> [] | Some v \<Rightarrow> node_links v)
      | ChannelEnd c \<Rightarrow> (case map_of (vchannels s) c of None \<Rightarrow> [] | Some v \<Rightarrow> channel_links v))"

definition with_links :: "link_end \<Rightarrow> (nat list \<Rightarrow> nat list) \<Rightarrow> vmodel \<Rightarrow> vmodel" where
  "with_links e f s =
     (case e of
        NodeEnd n \<Rightarrow> with_node n (\<lambda>v. v\<lparr>node_links := f (node_links v)\<rparr>) s
      | ChannelEnd c \<Rightarrow> with_channel c (\<lambda>v. v\<lparr>channel_links := f (channel_links v)\<rparr>) s)"

text \<open>\<open>update_points\<close> of either kind of link; a WiFi link without second end is left alone.\<close>

definition refresh :: "vmodel \<Rightarrow> vlink \<Rightarrow> vlink" where
  "refresh s l =
     (case link_node2 l of
        None \<Rightarrow> l
      | Some e \<Rightarrow> l\<lparr>link_points := Some (node_pos (link_node1 l) s, end_pos e s)\<rparr>)"

definition update_points :: "vmodel \<Rightarrow> nat \<Rightarrow> vmodel" where
  "update_points s i = s\<lparr>vlinks := (vlinks s)[i := refresh s (vlinks s ! i)]\<rparr>"

definition create_link :: "nat \<Rightarrow> link_end \<Rightarrow> vmodel \<Rightarrow> vmodel" where
  "create_link n e s =
     (let i = length (vlinks s)
      in with_links e (\<lambda>is. is @ [i]) (with_links (NodeEnd n) (\<lambda>is. is @ [i])
           (s\<lparr>vlinks := vlinks s @ [\<lparr>link_kind = Wired, link_node1 = n, link_node2 = Some e, link_points = None,
                                    link_visible = True, link_destroyed = False\<rparr>]\<rparr>)))"

section \<open>Positions\<close>

definition extend_bounds :: "rat \<times> rat \<Rightarrow> (rat \<times> rat) \<times> (rat \<times> rat) \<Rightarrow> (rat \<times> rat) \<times> (rat \<times> rat)" where
  "extend_bounds p b =
     ((min (fst p) (fst (fst b)), min (snd p) (snd (fst b))), (max (fst p) (fst (snd b)), max (snd p) (snd (snd b))))"

text \<open>Unpacking what is no tuple raises the \<open>TypeError\<close> that is passed over.\<close>

definition node_set_position :: "rat \<times> rat \<Rightarrow> nat \<Rightarrow> vmodel \<Rightarrow> vmodel" where
  "node_set_position p n s =
     (let s = with_node n (\<lambda>v. v\<lparr>node_at := p\<rparr>) s; s = foldl update_points s (links_at (NodeEnd n) s)
      in s\<lparr>canvas_bounds :=
           (if get_bounds_works (canvas_setup s) then extend_bounds p (canvas_bounds s) else canvas_bounds s)\<rparr>)"

text \<open>
  The function \<open>set_bounds\<close> for scripts: the hook it leaves runs when the window is open,
  and replaces the bounds.
\<close>

definition set_canvas_bounds ::
  "rat \<Rightarrow> rat \<Rightarrow> rat \<Rightarrow> rat \<Rightarrow> ((rat \<times> rat) \<times> (rat \<times> rat)) list \<Rightarrow> ((rat \<times> rat) \<times> (rat \<times> rat)) list res" where
  "set_canvas_bounds x1 y1 x2 y2 hooks =
     and_then (assert_that (x2 > x1)) (\<lambda>_.
     and_then (assert_that (y2 > y1)) (\<lambda>_. Inr (hooks @ [((x1, y1), (x2, y2))])))"

definition run_bounds_hook :: "(rat \<times> rat) \<times> (rat \<times> rat) \<Rightarrow> vmodel \<Rightarrow> vmodel" where
  "run_bounds_hook b s = s\<lparr>canvas_bounds := (to_canvas (fst b), to_canvas (snd b))\<rparr>"

definition channel_set_position :: "rat \<times> rat \<Rightarrow> nat \<Rightarrow> vmodel \<Rightarrow> vmodel" where
  "channel_set_position p c s =
     (let s = with_channel c (\<lambda>v. v\<lparr>channel_at := p\<rparr>) s in foldl update_points s (links_at (ChannelEnd c) s))"

definition get_node_view :: "nat \<Rightarrow> vmodel \<Rightarrow> vmodel" where
  "get_node_view n s = (case map_of (vnodes s) n of Some v \<Rightarrow> s | None \<Rightarrow> s\<lparr>vnodes := vnodes s @ [(n, new_node)]\<rparr>)"

definition get_channel :: "nat \<Rightarrow> vmodel \<Rightarrow> vmodel" where
  "get_channel c s =
     (case map_of (vchannels s) c of
        Some v \<Rightarrow> s
      | None \<Rightarrow> s\<lparr>vchannels := vchannels s @ [(c, \<lparr>channel_at = (0, 0), channel_links = []\<rparr>)]\<rparr>)"

section \<open>The handlers\<close>

text \<open>
  What the simulator says of mobility is a partial function; \<open>has_mobility\<close> asks once for each node
  and remembers the answer. Dragging moves the node in the simulator, too.
\<close>

type_synonym mobility = "nat \<Rightarrow> (rat \<times> rat) option"

definition has_mobility :: "mobility \<Rightarrow> nat \<Rightarrow> vmodel \<Rightarrow> bool \<times> vmodel" where
  "has_mobility mob n s =
     (case map_of (vnodes s) n of
        None \<Rightarrow> (False, s)
      | Some v \<Rightarrow>
          (case node_mobility v of
             Some b \<Rightarrow> (b, s)
           | None \<Rightarrow> (mob n \<noteq> None, with_node n (\<lambda>v. v\<lparr>node_mobility := Some (mob n \<noteq> None)\<rparr>) s)))"

definition update_node_position :: "mobility \<Rightarrow> vmodel \<Rightarrow> nat \<Rightarrow> vmodel" where
  "update_node_position mob s n =
     (let (moving, s) = has_mobility mob n s
      in if moving then (case mob n of None \<Rightarrow> s | Some p \<Rightarrow> node_set_position (to_canvas p) n s) else s)"

definition update_node_positions :: "mobility \<Rightarrow> vmodel \<Rightarrow> vmodel" where
  "update_node_positions mob s = foldl (update_node_position mob) s (keys (vnodes s))"

text \<open>What a node may be given as.\<close>

datatype node_arg = NsNode nat | NodeIndex int | NodeView nat | NoNode | NotANode

definition node_key :: "int \<Rightarrow> vmodel \<Rightarrow> nat option res" where
  "node_key i s =
     (if 0 \<le> i \<and> map_of (vnodes s) (nat i) \<noteq> None then Inr (Some (nat i)) else Inl KeyError)"

definition find_node :: "node_arg \<Rightarrow> vmodel \<Rightarrow> nat option res" where
  "find_node a s =
     (case a of
        NsNode n \<Rightarrow> node_key (int n) s
      | NodeIndex i \<Rightarrow> node_key i s
      | NodeView n \<Rightarrow> Inr (Some n)
      | NoNode \<Rightarrow> Inr None
      | NotANode \<Rightarrow> Inl TypeError)"

definition select_when :: "bool \<Rightarrow> nat option \<Rightarrow> vmodel \<Rightarrow> vmodel" where
  "select_when b t s = (case t of None \<Rightarrow> s | Some n \<Rightarrow> with_node n (set_selected b) s)"

definition just :: "'a option \<Rightarrow> 'a list" where
  "just t = (case t of None \<Rightarrow> [] | Some x \<Rightarrow> [x])"

definition select_node :: "node_arg \<Rightarrow> vmodel \<Rightarrow> vmodel res" where
  "select_node a s =
     and_then (find_node a s) (\<lambda>t.
       if t = selected_node s then Inr s
       else let s = select_when False (selected_node s) s; s = select_when True t (s\<lparr>selected_node := t\<rparr>)
            in Inr (if show_mode s = ShowSelected then s\<lparr>nodes_of_interest := just t\<rparr> else s))"

definition wanted_nodes :: "nat \<Rightarrow> transmissions_mode \<Rightarrow> nat option \<Rightarrow> nat list" where
  "wanted_nodes n_nodes m t = (case m of ShowAll \<Rightarrow> [0..<n_nodes] | ShowNone \<Rightarrow> [] | ShowSelected \<Rightarrow> just t)"

definition set_show_transmissions_mode :: "nat \<Rightarrow> transmissions_mode \<Rightarrow> vmodel \<Rightarrow> vmodel" where
  "set_show_transmissions_mode n_nodes m s =
     s\<lparr>show_mode := m, nodes_of_interest := wanted_nodes n_nodes m (selected_node s)\<rparr>"

definition node_size_changed :: "rat \<Rightarrow> vmodel \<Rightarrow> vmodel" where
  "node_size_changed x s = foldl (\<lambda>s n. with_node n (set_size x) s) s (keys (vnodes s))"

definition begin_node_drag :: "mobility \<Rightarrow> nat \<Rightarrow> rat \<times> rat \<Rightarrow> vmodel \<Rightarrow> vmodel" where
  "begin_node_drag mob n mouse s =
     (case mob n of
        None \<Rightarrow> s
      | Some p \<Rightarrow>
          if node_drag_state s \<noteq> None then s
          else s\<lparr>node_drag_state := Some \<lparr>drag_canvas0 = mouse, drag_sim0 = p, drag_signal = n\<rparr>,
                 motion_connected := n # motion_connected s\<rparr>)"

definition dragged :: "drag_state \<Rightarrow> rat \<times> rat \<Rightarrow> rat \<times> rat" where
  "dragged d mouse =
     (fst (drag_sim0 d) + to_simulation (fst mouse - fst (drag_canvas0 d)),
      snd (drag_sim0 d) + to_simulation (snd mouse - snd (drag_canvas0 d)))"

definition node_drag_motion :: "nat \<Rightarrow> rat \<times> rat \<Rightarrow> mobility \<times> vmodel \<Rightarrow> mobility \<times> vmodel" where
  "node_drag_motion n mouse w =
     (case fst w n of
        None \<Rightarrow> w
      | Some p \<Rightarrow>
          (case node_drag_state (snd w) of
             None \<Rightarrow> w
           | Some d \<Rightarrow>
               let q = dragged d mouse in ((fst w)(n := Some q), node_set_position (to_canvas q) n (snd w))))"

definition end_node_drag :: "nat \<Rightarrow> vmodel \<Rightarrow> vmodel" where
  "end_node_drag n s =
     (case node_drag_state s of
        None \<Rightarrow> s
      | Some d \<Rightarrow>
          s\<lparr>node_drag_state := None,
            motion_connected := (if n = drag_signal d then remove1 n (motion_connected s) else motion_connected s)\<rparr>)"

section \<open>WiFi links\<close>

text \<open>
  \<open>set_ap\<close>: the link is taken from the list of the old access point (where \<open>remove\<close> raises when it
  is not there) and put on that of the new one.
\<close>

definition remove_link :: "link_end \<Rightarrow> nat \<Rightarrow> vmodel \<Rightarrow> vmodel res" where
  "remove_link e i s = (if i \<in> set (links_at e s) then Inr (with_links e (remove1 i) s) else Inl ValueError)"

definition set_ap :: "nat \<Rightarrow> nat option \<Rightarrow> vmodel \<Rightarrow> vmodel res" where
  "set_ap i ap s =
     (let old = link_node2 (vlinks s ! i); new = map_option NodeEnd ap
      in if new = old then Inr s
         else and_then (case old of None \<Rightarrow> Inr s | Some e \<Rightarrow> remove_link e i s) (\<lambda>s.
           let s = s\<lparr>vlinks := (vlinks s)[i := (vlinks s ! i)\<lparr>link_node2 := new, link_visible := (new \<noteq> None)\<rparr>]\<rparr>;
               s = (case new of None \<Rightarrow> s | Some e \<Rightarrow> with_links e (\<lambda>is. is @ [i]) s)
           in Inr (update_points s i)))"

text \<open>\<open>set_ap(None)\<close> returns at once for a new link, whose end is None already: the link is not hidden.\<close>

definition new_wifi_link :: "nat \<Rightarrow> vmodel \<Rightarrow> vmodel res" where
  "new_wifi_link sta s =
     set_ap (length (vlinks s)) None
       (s\<lparr>vlinks := vlinks s @ [\<lparr>link_kind = WifiLink, link_node1 = sta, link_node2 = None, link_points = None,
                                 link_visible = True, link_destroyed = False\<rparr>]\<rparr>)"

definition destroy_link :: "vmodel \<Rightarrow> nat \<Rightarrow> vmodel" where
  "destroy_link s i =
     s\<lparr>vlinks := (vlinks s)[i := (vlinks s ! i)\<lparr>link_node2 := None, link_visible := False, link_destroyed := True\<rparr>]\<rparr>"

text \<open>
  \<open>WifiLinkMonitor\<close>: the access points by the text of their address and the stations with their links.
  Of a device counts what kind of WiFi device it is.
\<close>

datatype wifi_device = NoWifi | Station nat | AccessPoint string | OtherWifi

record wifi_monitor =
  access_points :: "(string, nat) dict"
  stations :: "(nat \<times> nat \<times> nat) list"

definition scan_device :: "nat \<Rightarrow> wifi_monitor \<times> vmodel \<Rightarrow> wifi_device \<Rightarrow> (wifi_monitor \<times> vmodel) res" where
  "scan_device n ms d =
     (let (m, s) = ms
      in case d of
        Station dev \<Rightarrow>
          and_then (new_wifi_link n s) (\<lambda>s'. Inr (m\<lparr>stations := stations m @ [(dev, n, length (vlinks s))]\<rparr>, s'))
      | AccessPoint bssid \<Rightarrow> Inr (m\<lparr>access_points := AList.update bssid n (access_points m)\<rparr>, s)
      | _ \<Rightarrow> Inr ms)"

definition scan_nodes :: "(nat \<Rightarrow> wifi_device list) \<Rightarrow> wifi_monitor \<times> vmodel \<Rightarrow> (wifi_monitor \<times> vmodel) res" where
  "scan_nodes devices ms =
     (let s = foldl destroy_link (snd ms) (map (snd \<circ> snd) (stations (fst ms)))
      in for_each (\<lambda>ms n. for_each (scan_device n) ms (devices n)) (\<lparr>access_points = [], stations = []\<rparr>, s) (keys (vnodes s)))"

definition no_bssid :: string where
  "no_bssid = ''00:00:00:00:00:00''"

definition update_station ::
  "(nat \<Rightarrow> bool) \<Rightarrow> (nat \<Rightarrow> string) \<Rightarrow> wifi_monitor \<Rightarrow> vmodel \<Rightarrow> nat \<times> nat \<times> nat \<Rightarrow> vmodel res" where
  "update_station link_up bssid m s st =
     (let (dev, sta, i) = st
      in if \<not> link_up dev \<or> bssid dev = no_bssid then set_ap i None s
         else and_then (dict_get (access_points m) (bssid dev)) (\<lambda>ap. set_ap i (Some ap) s))"

definition wifi_periodic_update ::
  "(nat \<Rightarrow> bool) \<Rightarrow> (nat \<Rightarrow> string) \<Rightarrow> wifi_monitor \<Rightarrow> vmodel \<Rightarrow> vmodel res" where
  "wifi_periodic_update link_up bssid m s = for_each (update_station link_up bssid m) s (stations m)"

definition wifi_update_view :: "wifi_monitor \<Rightarrow> vmodel \<Rightarrow> vmodel" where
  "wifi_update_view m s = foldl update_points s (map (snd \<circ> snd) (stations m))"

section \<open>What updates leave alone\<close>

lemma with_node_fields [simp]:
  "vchannels (with_node n f s) = vchannels s" "vlinks (with_node n f s) = vlinks s"
  "canvas_bounds (with_node n f s) = canvas_bounds s" "canvas_setup (with_node n f s) = canvas_setup s" "selected_node (with_node n f s) = selected_node s"
  "show_mode (with_node n f s) = show_mode s" "nodes_of_interest (with_node n f s) = nodes_of_interest s"
  "node_drag_state (with_node n f s) = node_drag_state s" "motion_connected (with_node n f s) = motion_connected s"
  by (simp_all add: with_node_def)

lemma with_channel_fields [simp]:
  "vnodes (with_channel n g s) = vnodes s" "vlinks (with_channel n g s) = vlinks s"
  "canvas_bounds (with_channel n g s) = canvas_bounds s" "canvas_setup (with_channel n g s) = canvas_setup s" "selected_node (with_channel n g s) = selected_node s"
  "show_mode (with_channel n g s) = show_mode s" "nodes_of_interest (with_channel n g s) = nodes_of_interest s"
  "node_drag_state (with_channel n g s) = node_drag_state s" "motion_connected (with_channel n g s) = motion_connected s"
  by (simp_all add: with_channel_def)

lemma map_entry_keys [simp]: "keys (AList.map_entry k f d) = keys d"
  by (induction d) auto

lemma with_node_lookup: "map_of (vnodes (with_node n f s)) m = (if m = n then map_option f (map_of (vnodes s) n) else map_of (vnodes s) m)"
  by (simp add: with_node_def map_of_map_entry split: option.splits)

lemma with_channel_lookup:
  "map_of (vchannels (with_channel n f s)) m = (if m = n then map_option f (map_of (vchannels s) n) else map_of (vchannels s) m)"
  by (simp add: with_channel_def map_of_map_entry split: option.splits)

lemma with_node_keys [simp]: "keys (vnodes (with_node n f s)) = keys (vnodes s)"
  by (simp add: with_node_def)

lemma with_node_pos: "(\<And>v. node_at (f v) = node_at v) \<Longrightarrow> end_pos e (with_node n f s) = end_pos e s"
  by (auto simp: end_pos_def node_pos_def with_node_lookup split: link_end.splits option.splits)

lemma with_node_links_at: "(\<And>v. node_links (f v) = node_links v) \<Longrightarrow> links_at e (with_node n f s) = links_at e s"
  by (auto simp: links_at_def with_node_lookup split: link_end.splits option.splits)

lemma node_pos_end: "node_pos n s = end_pos (NodeEnd n) s"
  by (simp add: end_pos_def)

definition end_known :: "link_end \<Rightarrow> vmodel \<Rightarrow> bool" where
  "end_known e s =
     (case e of NodeEnd n \<Rightarrow> map_of (vnodes s) n \<noteq> None | ChannelEnd c \<Rightarrow> map_of (vchannels s) c \<noteq> None)"

lemma with_links_fields [simp]:
  "vlinks (with_links e f s) = vlinks s" "canvas_bounds (with_links e f s) = canvas_bounds s" "canvas_setup (with_links e f s) = canvas_setup s"
  "selected_node (with_links e f s) = selected_node s" "show_mode (with_links e f s) = show_mode s"
  "nodes_of_interest (with_links e f s) = nodes_of_interest s" "keys (vnodes (with_links e f s)) = keys (vnodes s)"
  "end_pos e' (with_links e f s) = end_pos e' s" "end_known e' (with_links e f s) = end_known e' s"
  by (auto simp: with_links_def end_pos_def node_pos_def end_known_def with_node_lookup with_channel_lookup
      split: link_end.splits option.splits)

lemma with_links_at:
  "links_at e' (with_links e f s) = (if e' = e \<and> end_known e s then f (links_at e s) else links_at e' s)"
  by (auto simp: with_links_def links_at_def end_known_def with_node_lookup with_channel_lookup
      split: link_end.splits option.splits)

lemma refresh_cong: "(\<And>e. end_pos e s = end_pos e s') \<Longrightarrow> refresh s l = refresh s' l"
  by (simp add: refresh_def node_pos_end split: option.splits)

lemma refresh_fields [simp]:
  "link_kind (refresh s l) = link_kind l" "link_node1 (refresh s l) = link_node1 l" "link_node2 (refresh s l) = link_node2 l"
  "link_visible (refresh s l) = link_visible l" "link_destroyed (refresh s l) = link_destroyed l"
  "refresh s (refresh s' l) = refresh s l"
  by (simp_all add: refresh_def split: option.splits)

text \<open>Refreshing the links of a list.\<close>

definition refresh_all :: "vmodel \<Rightarrow> nat list \<Rightarrow> vlink list \<Rightarrow> vlink list" where
  "refresh_all s is ls = foldl (\<lambda>ls i. ls[i := refresh s (ls ! i)]) ls is"

lemma length_refresh_all [simp]: "length (refresh_all s is ls) = length ls"
  by (induction "is" arbitrary: ls) (simp_all add: refresh_all_def)

lemma nth_refresh_all:
  "j < length ls \<Longrightarrow> refresh_all s is ls ! j = (if j \<in> set is then refresh s (ls ! j) else ls ! j)"
proof (induction "is" arbitrary: ls)
  case (Cons i "is")
  have "refresh_all s (i # is) ls = refresh_all s is (ls[i := refresh s (ls ! i)])" by (simp add: refresh_all_def)
  with Cons show ?case by (cases "i = j") (simp_all add: nth_list_update)
qed (simp add: refresh_all_def)

lemma end_pos_vlinks [simp]: "end_pos e (s\<lparr>vlinks := ls\<rparr>) = end_pos e s" "links_at e (s\<lparr>vlinks := ls\<rparr>) = links_at e s"
  "end_known e (s\<lparr>vlinks := ls\<rparr>) = end_known e s" "end_pos e (s\<lparr>canvas_bounds := b\<rparr>) = end_pos e s"
  "links_at e (s\<lparr>canvas_bounds := b\<rparr>) = links_at e s" "end_known e (s\<lparr>canvas_bounds := b\<rparr>) = end_known e s"
  by (simp_all add: end_pos_def node_pos_def links_at_def end_known_def split: link_end.splits)

lemma refresh_vlinks [simp]: "refresh (s\<lparr>vlinks := ls\<rparr>) = refresh s"
  by (rule ext, rule refresh_cong) simp

lemma update_all: "foldl update_points s is = s\<lparr>vlinks := refresh_all s is (vlinks s)\<rparr>"
proof (induction "is" arbitrary: s)
  case (Cons i "is")
  then show ?case by (simp add: update_points_def refresh_all_def)
qed (simp add: refresh_all_def)

section \<open>Links follow their ends\<close>

text \<open>
  A link is in the list of each object that has to move it, and what it shows is where its ends
  are; of a WiFi link only the access point moves it. It is seen only when it has two ends.
\<close>

definition link_ok :: "nat \<Rightarrow> vlink \<Rightarrow> vmodel \<Rightarrow> bool" where
  "link_ok i l s \<longleftrightarrow>
     (link_kind l = Wired \<longrightarrow>
        link_node2 l \<noteq> None \<and> i \<in> set (links_at (NodeEnd (link_node1 l)) s) \<and> (link_points l = None \<or> refresh s l = l)) \<and>
     (case link_node2 l of
        None \<Rightarrow> link_visible l \<longrightarrow> link_points l = None
      | Some e \<Rightarrow>
          i \<in> set (links_at e s) \<and> link_visible l \<and>
          (link_kind l = WifiLink \<longrightarrow> (\<exists>p. link_points l = Some (p, end_pos e s))))"

definition links_ok :: "vmodel \<Rightarrow> bool" where
  "links_ok s \<longleftrightarrow> (\<forall>i<length (vlinks s). link_ok i (vlinks s ! i) s)"

lemma link_ok_cong:
  assumes "\<And>e. end_pos e s' = end_pos e s" "\<And>e. links_at e s' = links_at e s"
  shows "link_ok i l s' = link_ok i l s"
  using refresh_cong [of s' s l, OF assms(1)] assms by (simp add: link_ok_def split: option.split)

lemma links_ok_frame:
  assumes "links_ok s" "vlinks s' = vlinks s" "\<And>e. end_pos e s' = end_pos e s"
    "\<And>e. set (links_at e s) \<subseteq> set (links_at e s')"
  shows "links_ok s'"
  unfolding links_ok_def
proof (intro allI impI)
  fix i assume i: "i < length (vlinks s')"
  have "refresh s' = refresh s" by (rule ext, rule refresh_cong) (rule assms(3))
  moreover from assms(1,2) i have "link_ok i (vlinks s ! i) s" by (simp add: links_ok_def)
  ultimately show "link_ok i (vlinks s' ! i) s'"
    using assms(2,3,4) by (fastforce simp: link_ok_def split: option.splits)
qed

lemma with_node_links_ok:
  "links_ok s \<Longrightarrow> (\<And>v. node_at (f v) = node_at v) \<Longrightarrow> (\<And>v. node_links (f v) = node_links v) \<Longrightarrow> links_ok (with_node n f s)"
  by (rule links_ok_frame [of s]) (simp_all add: with_node_pos with_node_links_at)

text \<open>When one end has moved and the links of its list are refreshed, all links are right again.\<close>

lemma moved_links_ok:
  assumes ok: "links_ok s" and same: "vlinks s' = vlinks s" "\<And>e'. links_at e' s' = links_at e' s"
    and others: "\<And>e'. e' \<noteq> e \<Longrightarrow> end_pos e' s' = end_pos e' s"
  shows "links_ok (foldl update_points s' (links_at e s'))"
  unfolding links_ok_def update_all
proof (intro allI impI)
  fix i assume "i < length (vlinks (s'\<lparr>vlinks := refresh_all s' (links_at e s') (vlinks s')\<rparr>))"
  then have i: "i < length (vlinks s)" using same(1) by simp
  let ?l = "vlinks s ! i"
  let ?new = "vlinks (s'\<lparr>vlinks := refresh_all s' (links_at e s') (vlinks s')\<rparr>) ! i"
  from ok i have l: "link_ok i ?l s" by (simp add: links_ok_def)
  have "link_ok i ?new s'"
  proof (cases "i \<in> set (links_at e s)")
    case True
    then have new: "?new = refresh s' ?l" using i same by (simp add: nth_refresh_all)
    show ?thesis unfolding new using l same(2)
      by (auto simp: link_ok_def refresh_def node_pos_end split: option.splits)
  next
    case False
    then have new: "?new = ?l" using i same by (simp add: nth_refresh_all)
    have e2: "link_node2 ?l = Some e' \<Longrightarrow> end_pos e' s' = end_pos e' s" for e'
      using False l by (intro others) (auto simp: link_ok_def)
    have e1: "link_kind ?l = Wired \<Longrightarrow> end_pos (NodeEnd (link_node1 ?l)) s' = end_pos (NodeEnd (link_node1 ?l)) s"
      using False l by (intro others) (auto simp: link_ok_def)
    from e1 e2 have "link_kind ?l = Wired \<Longrightarrow> refresh s' ?l = refresh s ?l"
      by (auto simp: refresh_def node_pos_end split: option.splits)
    then show ?thesis unfolding new using l same(2) e2 by (auto simp: link_ok_def split: option.splits)
  qed
  then show "link_ok i ?new (s'\<lparr>vlinks := refresh_all s' (links_at e s') (vlinks s')\<rparr>)"
    by (subst link_ok_cong [of _ s']) simp_all
qed

lemma links_ok_bounds [simp]: "links_ok (s\<lparr>canvas_bounds := b\<rparr>) = links_ok s"
  by (simp add: links_ok_def link_ok_cong [of "s\<lparr>canvas_bounds := b\<rparr>" s])

lemma node_set_position_links_ok: "links_ok s \<Longrightarrow> links_ok (node_set_position p n s)"
  unfolding node_set_position_def Let_def links_ok_bounds
  by (rule moved_links_ok [of s])
    (auto simp: with_node_links_at end_pos_def node_pos_def with_node_lookup split: link_end.splits)

lemma channel_set_position_links_ok: "links_ok s \<Longrightarrow> links_ok (channel_set_position p c s)"
  unfolding channel_set_position_def Let_def
  by (rule moved_links_ok [of s])
    (auto simp: links_at_def end_pos_def node_pos_def with_channel_lookup split: link_end.splits option.splits)

lemma create_link_links_ok:
  assumes "links_ok s" "end_known (NodeEnd n) s" "end_known e s"
  shows "links_ok (create_link n e s)"
  unfolding links_ok_def
proof (intro allI impI)
  fix i assume i: "i < length (vlinks (create_link n e s))"
  let ?s = "create_link n e s" and ?k = "length (vlinks s)"
  have pos: "end_pos e' ?s = end_pos e' s" for e' by (simp add: create_link_def Let_def)
  have at: "set (links_at e' s) \<subseteq> set (links_at e' ?s)" for e'
    by (auto simp: create_link_def Let_def with_links_at)
  have k: "?k \<in> set (links_at (NodeEnd n) ?s)" "?k \<in> set (links_at e ?s)"
    using assms(2,3) by (auto simp: create_link_def Let_def with_links_at)
  have r: "refresh ?s = refresh s" by (rule ext, rule refresh_cong) (rule pos)
  show "link_ok i (vlinks ?s ! i) ?s"
  proof (cases "i < ?k")
    case True
    then have "vlinks ?s ! i = vlinks s ! i" by (simp add: create_link_def Let_def nth_append)
    moreover from assms(1) True have "link_ok i (vlinks s ! i) s" by (simp add: links_ok_def)
    ultimately show ?thesis using at r pos by (fastforce simp: link_ok_def split: option.splits)
  next
    case False
    with i have "i = ?k" by (simp add: create_link_def Let_def)
    then show ?thesis using k by (simp add: create_link_def Let_def link_ok_def)
  qed
qed

text \<open>Changing one link.\<close>

lemma update_link_ok:
  assumes "links_ok s" "vlinks s' = (vlinks s)[i := l]" "\<And>e. end_pos e s' = end_pos e s"
    and "\<And>e j. j \<in> set (links_at e s) \<Longrightarrow> j \<noteq> i \<Longrightarrow> j \<in> set (links_at e s')"
    and "i < length (vlinks s) \<Longrightarrow> link_ok i l s'"
  shows "links_ok s'"
  unfolding links_ok_def
proof (intro allI impI)
  fix j assume j: "j < length (vlinks s')"
  have r: "refresh s' = refresh s" by (rule ext, rule refresh_cong) (rule assms(3))
  show "link_ok j (vlinks s' ! j) s'"
  proof (cases "j = i")
    case True
    with j assms(2,5) show ?thesis by simp
  next
    case False
    with j assms(1,2) have "link_ok j (vlinks s' ! j) s" by (simp add: links_ok_def)
    with False assms(3,4) r show ?thesis by (auto simp: link_ok_def split: option.splits)
  qed
qed

lemma new_wifi_link_eq:
  "new_wifi_link sta s =
     Inr (s\<lparr>vlinks := vlinks s @ [\<lparr>link_kind = WifiLink, link_node1 = sta, link_node2 = None, link_points = None,
                                   link_visible = True, link_destroyed = False\<rparr>]\<rparr>)"
  by (simp add: new_wifi_link_def set_ap_def Let_def)

lemma new_wifi_link_ok: "new_wifi_link sta s = Inr s' \<Longrightarrow> links_ok s \<Longrightarrow> links_ok s'"
  by (auto simp: new_wifi_link_eq links_ok_def nth_append link_ok_cong [of "s\<lparr>vlinks := _\<rparr>" s] less_Suc_eq)
    (simp add: link_ok_def)

definition is_wifi :: "vmodel \<Rightarrow> nat \<Rightarrow> bool" where
  "is_wifi s i \<longleftrightarrow> i < length (vlinks s) \<and> link_kind (vlinks s ! i) = WifiLink"

lemma destroy_link_ok: "links_ok s \<Longrightarrow> is_wifi s i \<Longrightarrow> links_ok (destroy_link s i)"
  by (rule update_link_ok [of s]) (auto simp: destroy_link_def link_ok_def is_wifi_def)

text \<open>While the links are in order \<open>set_ap\<close> does not raise, and does what it says.\<close>

lemma set_ap_run:
  assumes "links_ok s" "is_wifi s i" "\<forall>n. ap = Some n \<longrightarrow> end_known (NodeEnd n) s"
  shows "\<exists>s'. set_ap i ap s = Inr s' \<and> links_ok s' \<and> (\<forall>e. end_pos e s' = end_pos e s) \<and>
    (\<forall>e. end_known e s' = end_known e s) \<and> length (vlinks s') = length (vlinks s) \<and>
    (\<forall>j. j \<noteq> i \<longrightarrow> vlinks s' ! j = vlinks s ! j) \<and> link_kind (vlinks s' ! i) = WifiLink \<and>
    link_node1 (vlinks s' ! i) = link_node1 (vlinks s ! i) \<and> link_node2 (vlinks s' ! i) = map_option NodeEnd ap"
proof -
  let ?l = "vlinks s ! i" and ?new = "map_option NodeEnd ap"
  from assms(2) have i: "i < length (vlinks s)" "link_kind ?l = WifiLink" by (simp_all add: is_wifi_def)
  from assms(1) i(1) have l: "link_ok i ?l s" by (simp add: links_ok_def)
  show ?thesis
  proof (cases "?new = link_node2 ?l")
    case True
    with assms(1) i show ?thesis by (simp add: set_ap_def Let_def)
  next
    case False
    define s1 where "s1 = (case link_node2 ?l of None \<Rightarrow> s | Some e \<Rightarrow> with_links e (remove1 i) s)"
    define l1 where "l1 = ?l\<lparr>link_node2 := ?new, link_visible := (?new \<noteq> None)\<rparr>"
    define s2 where "s2 = (case ?new of None \<Rightarrow> s1\<lparr>vlinks := (vlinks s1)[i := l1]\<rparr>
      | Some e \<Rightarrow> with_links e (\<lambda>is. is @ [i]) (s1\<lparr>vlinks := (vlinks s1)[i := l1]\<rparr>))"
    have s1: "vlinks s1 = vlinks s" "end_pos e s1 = end_pos e s" "end_known e s1 = end_known e s" for e
      by (simp_all add: s1_def split: option.split)
    have at1: "j \<in> set (links_at e s1)" if "j \<in> set (links_at e s)" "j \<noteq> i" for j e
      using that by (auto simp: s1_def with_links_at in_set_remove1 split: option.split)
    have s2: "vlinks s2 = (vlinks s)[i := l1]" "end_pos e s2 = end_pos e s" "end_known e s2 = end_known e s" for e
      using s1 by (simp_all add: s2_def split: option.split)
    have at2: "j \<in> set (links_at e s2)" if "j \<in> set (links_at e s)" "j \<noteq> i" for j e
      using at1 [OF that] by (auto simp: s2_def with_links_at split: option.split)
    have at_new: "?new = Some e \<Longrightarrow> i \<in> set (links_at e s2)" for e
      using assms(3) s1(3) by (auto simp: s2_def with_links_at)
    have run: "set_ap i ap s = Inr (update_points s2 i)"
      using False l unfolding s2_def l1_def s1_def
      by (cases "link_node2 ?l"; cases ap) (simp_all add: set_ap_def Let_def remove_link_def link_ok_def)
    have upd: "vlinks (update_points s2 i) = (vlinks s)[i := refresh s2 l1]"
      using i(1) by (simp add: update_points_def s2(1))
    have frame: "end_pos e (update_points s2 i) = end_pos e s" "end_known e (update_points s2 i) = end_known e s"
      "links_at e (update_points s2 i) = links_at e s2" for e
      by (simp_all add: update_points_def s2)
    have "link_ok i (refresh s2 l1) (update_points s2 i)"
      using at_new i(2) frame s2(2)
      by (cases ap) (auto simp: link_ok_def l1_def refresh_def)
    then have "links_ok (update_points s2 i)"
      by (intro update_link_ok [OF assms(1) upd]) (use frame at2 in auto)
    with run upd frame i show ?thesis
      by (intro exI [of _ "update_points s2 i"]) (simp add: l1_def)
  qed
qed

section \<open>Nodes stay in order\<close>

definition on_canvas :: "rat \<times> rat \<Rightarrow> (rat \<times> rat) \<times> (rat \<times> rat) \<Rightarrow> bool" where
  "on_canvas p b \<longleftrightarrow> fst (fst b) \<le> fst p \<and> fst p \<le> fst (snd b) \<and> snd (fst b) \<le> snd p \<and> snd p \<le> snd (snd b)"

lemma on_canvas_extend [simp]: "on_canvas p (extend_bounds p b)" "on_canvas q b \<Longrightarrow> on_canvas q (extend_bounds p b)"
  by (auto simp: on_canvas_def extend_bounds_def)

text \<open>
  What holds of each node: it looks selected when it is, its outline is current, and the canvas
  holds it, if nothing but the positions of the nodes moves the bounds.
\<close>

definition steady :: "canvas_settings \<Rightarrow> bool" where
  "steady c \<longleftrightarrow> get_bounds_works c \<and> bounds_hooks c = []"

definition node_ok :: "nat option \<Rightarrow> bool \<Rightarrow> (rat \<times> rat) \<times> (rat \<times> rat) \<Rightarrow> nat \<Rightarrow> vnode \<Rightarrow> bool" where
  "node_ok sel fixed b n v \<longleftrightarrow>
     (node_selected v \<longleftrightarrow> sel = Some n) \<and> node_shown v = appearance v \<and> (fixed \<longrightarrow> on_canvas (node_at v) b)"

definition nodes_ok :: "vmodel \<Rightarrow> bool" where
  "nodes_ok s \<longleftrightarrow>
     (\<forall>n v. map_of (vnodes s) n = Some v \<longrightarrow> node_ok (selected_node s) (steady (canvas_setup s)) (canvas_bounds s) n v)
     \<and> (steady (canvas_setup s) \<longrightarrow> on_canvas (0, 0) (canvas_bounds s))"

definition selection_ok :: "vmodel \<Rightarrow> bool" where
  "selection_ok s \<longleftrightarrow>
     (\<forall>n. selected_node s = Some n \<longrightarrow> end_known (NodeEnd n) s) \<and>
     (show_mode s = ShowSelected \<longrightarrow> nodes_of_interest s = just (selected_node s)) \<and>
     (show_mode s = ShowNone \<longrightarrow> nodes_of_interest s = [])"

definition view_ok :: "vmodel \<Rightarrow> bool" where
  "view_ok s \<longleftrightarrow> wf_dict (vnodes s) \<and> links_ok s \<and> nodes_ok s \<and> selection_ok s"

lemma appearance_update [simp]:
  "appearance (update_appearance v) = appearance v" "node_at (update_appearance v) = node_at v"
  "node_links (update_appearance v) = node_links v" "node_selected (update_appearance v) = node_selected v"
  "node_shown (update_appearance v) = appearance v" "node_mobility (update_appearance v) = node_mobility v"
  by (simp_all add: update_appearance_def appearance_def)

lemma appearance_other [simp]:
  "appearance (v\<lparr>node_at := p\<rparr>) = appearance v" "appearance (v\<lparr>node_links := is\<rparr>) = appearance v"
  "appearance (v\<lparr>node_mobility := m\<rparr>) = appearance v"
  by (simp_all add: appearance_def)

lemmas setter_defs = set_selected_def set_highlighted_def set_size_def set_color_def

lemma with_node_known [simp]: "end_known e (with_node n f s) = end_known e s"
  by (auto simp: end_known_def with_node_lookup split: link_end.splits)

lemma with_node_nodes_ok:
  assumes "nodes_ok s" "\<And>v. node_ok (selected_node s) (steady (canvas_setup s)) (canvas_bounds s) n v \<Longrightarrow> node_ok (selected_node s) (steady (canvas_setup s)) (canvas_bounds s) n (f v)"
  shows "nodes_ok (with_node n f s)"
  using assms by (auto simp: nodes_ok_def with_node_lookup split: if_splits)

lemma with_node_ok:
  assumes "view_ok s" "\<And>v. node_at (f v) = node_at v" "\<And>v. node_links (f v) = node_links v"
    "\<And>v. node_selected (f v) = node_selected v" "\<And>v. node_shown v = appearance v \<Longrightarrow> node_shown (f v) = appearance (f v)"
  shows "view_ok (with_node n f s)"
  using assms(1)
  by (auto simp: view_ok_def wf_dict_def selection_ok_def node_ok_def assms(2-)
      intro!: with_node_links_ok with_node_nodes_ok)

lemma setter_ok: "view_ok s \<Longrightarrow> view_ok (with_node n (set_highlighted b) s)"
  "view_ok s \<Longrightarrow> view_ok (with_node n (set_size x) s)" "view_ok s \<Longrightarrow> view_ok (with_node n (set_color c) s)"
  by (rule with_node_ok; simp add: setter_defs)+

lemma update_all_fields [simp]:
  "vnodes (foldl update_points s is) = vnodes s" "vchannels (foldl update_points s is) = vchannels s"
  "canvas_bounds (foldl update_points s is) = canvas_bounds s" "canvas_setup (foldl update_points s is) = canvas_setup s" "selected_node (foldl update_points s is) = selected_node s"
  "show_mode (foldl update_points s is) = show_mode s" "nodes_of_interest (foldl update_points s is) = nodes_of_interest s"
  "end_pos e (foldl update_points s is) = end_pos e s" "end_known e (foldl update_points s is) = end_known e s"
  "links_at e (foldl update_points s is) = links_at e s" "length (vlinks (foldl update_points s is)) = length (vlinks s)"
  by (simp_all add: update_all)

lemma node_set_position_fields [simp]:
  "keys (vnodes (node_set_position p n s)) = keys (vnodes s)" "selected_node (node_set_position p n s) = selected_node s"
  "show_mode (node_set_position p n s) = show_mode s" "nodes_of_interest (node_set_position p n s) = nodes_of_interest s"
  "canvas_bounds (node_set_position p n s) =
     (if get_bounds_works (canvas_setup s) then extend_bounds p (canvas_bounds s) else canvas_bounds s)"
  "canvas_setup (node_set_position p n s) = canvas_setup s"
  "end_known e (node_set_position p n s) = end_known e s"
  "vnodes (node_set_position p n s) = vnodes (with_node n (\<lambda>v. v\<lparr>node_at := p\<rparr>) s)"
  "length (vlinks (node_set_position p n s)) = length (vlinks s)"
  by (simp_all add: node_set_position_def Let_def)

lemma node_set_position_ok: "view_ok s \<Longrightarrow> view_ok (node_set_position p n s)"
  by (auto simp: steady_def view_ok_def wf_dict_def selection_ok_def nodes_ok_def node_ok_def with_node_lookup
      node_set_position_links_ok split: if_splits)

lemma channel_set_position_fields [simp]:
  "vnodes (channel_set_position p c s) = vnodes s" "selected_node (channel_set_position p c s) = selected_node s"
  "show_mode (channel_set_position p c s) = show_mode s" "nodes_of_interest (channel_set_position p c s) = nodes_of_interest s"
  "canvas_bounds (channel_set_position p c s) = canvas_bounds s" "canvas_setup (channel_set_position p c s) = canvas_setup s"
  by (simp_all add: channel_set_position_def Let_def)

lemma end_known_nodes: "vnodes s' = vnodes s \<Longrightarrow> end_known (NodeEnd n) s' = end_known (NodeEnd n) s"
  by (simp add: end_known_def)

lemma channel_set_position_ok: "view_ok s \<Longrightarrow> view_ok (channel_set_position p c s)"
  by (auto simp: view_ok_def selection_ok_def nodes_ok_def channel_set_position_links_ok
      end_known_nodes [of "channel_set_position p c s" s])

lemma create_link_fields [simp]:
  "keys (vnodes (create_link n e s)) = keys (vnodes s)" "selected_node (create_link n e s) = selected_node s"
  "show_mode (create_link n e s) = show_mode s" "nodes_of_interest (create_link n e s) = nodes_of_interest s"
  "canvas_bounds (create_link n e s) = canvas_bounds s" "canvas_setup (create_link n e s) = canvas_setup s" "end_known e' (create_link n e s) = end_known e' s"
  by (simp_all add: create_link_def Let_def)

lemma with_links_nodes_ok: "nodes_ok s \<Longrightarrow> nodes_ok (with_links e f s)"
  by (cases e) (auto simp: with_links_def nodes_ok_def node_ok_def with_node_lookup split: if_splits)

lemma nodes_ok_vlinks [simp]: "nodes_ok (s\<lparr>vlinks := ls\<rparr>) = nodes_ok s"
  by (simp add: nodes_ok_def)

lemma create_link_nodes_ok: "nodes_ok s \<Longrightarrow> nodes_ok (create_link n e s)"
  by (simp add: create_link_def Let_def with_links_nodes_ok)

lemma create_link_ok: "view_ok s \<Longrightarrow> end_known (NodeEnd n) s \<Longrightarrow> end_known e s \<Longrightarrow> view_ok (create_link n e s)"
  by (auto simp: view_ok_def wf_dict_def selection_ok_def create_link_links_ok create_link_nodes_ok)

lemma get_node_view_known: "end_known e s \<Longrightarrow> end_known e (get_node_view n s)" "end_known (NodeEnd n) (get_node_view n s)"
  by (cases "map_of (vnodes s) n"; auto simp: end_known_def get_node_view_def map_add_def split: link_end.splits option.splits)+

lemma get_node_view_ok:
  assumes "view_ok s"
  shows "view_ok (get_node_view n s)"
proof (cases "map_of (vnodes s) n")
  case None
  then have lookup: "map_of (vnodes (get_node_view n s)) m = (if m = n then Some new_node else map_of (vnodes s) m)" for m
    by (simp add: get_node_view_def map_add_def split: option.splits)
  from None have fields: "vlinks (get_node_view n s) = vlinks s" "canvas_bounds (get_node_view n s) = canvas_bounds s" "canvas_setup (get_node_view n s) = canvas_setup s"
    "selected_node (get_node_view n s) = selected_node s" "show_mode (get_node_view n s) = show_mode s"
    "nodes_of_interest (get_node_view n s) = nodes_of_interest s" "vchannels (get_node_view n s) = vchannels s"
    by (simp_all add: get_node_view_def)
  have new: "node_at new_node = (0, 0)" "node_links new_node = []" "\<not> node_selected new_node" "node_shown new_node = appearance new_node"
    by (simp_all add: new_node_def)
  have pos: "end_pos e (get_node_view n s) = end_pos e s" "links_at e (get_node_view n s) = links_at e s" for e
    using None by (auto simp: end_pos_def node_pos_def links_at_def lookup fields new split: link_end.splits)
  have "links_ok (get_node_view n s)"
    by (rule links_ok_frame [of s]) (use assms in \<open>auto simp: view_ok_def fields pos\<close>)
  moreover have "wf_dict (vnodes (get_node_view n s))"
  proof -
    from None have "vnodes (get_node_view n s) = vnodes s @ [(n, new_node)]" by (simp add: get_node_view_def)
    moreover from None have "n \<notin> set (keys (vnodes s))" by (simp only: map_of_keys not_False_eq_True)
    ultimately show ?thesis using assms by (simp add: view_ok_def wf_dict_def)
  qed
  moreover have "nodes_ok (get_node_view n s)"
    using assms None by (auto simp: view_ok_def nodes_ok_def node_ok_def selection_ok_def end_known_def lookup fields new split: if_splits)
  moreover have "selection_ok (get_node_view n s)"
    using assms get_node_view_known by (auto simp: view_ok_def selection_ok_def fields)
  ultimately show ?thesis by (simp add: view_ok_def)
qed (use assms in \<open>simp add: get_node_view_def\<close>)

lemma get_channel_known: "end_known e s \<Longrightarrow> end_known e (get_channel c s)" "end_known (ChannelEnd c) (get_channel c s)"
  by (cases "map_of (vchannels s) c"; auto simp: end_known_def get_channel_def map_add_def split: link_end.splits option.splits)+

lemma get_channel_ok:
  assumes "view_ok s"
  shows "view_ok (get_channel c s)"
proof (cases "map_of (vchannels s) c")
  case None
  then have pos: "end_pos e (get_channel c s) = end_pos e s" "links_at e (get_channel c s) = links_at e s" for e
    by (auto simp: end_pos_def node_pos_def links_at_def get_channel_def map_add_def split: link_end.splits option.splits)
  from None have fields: "vlinks (get_channel c s) = vlinks s" "canvas_bounds (get_channel c s) = canvas_bounds s" "canvas_setup (get_channel c s) = canvas_setup s"
    "selected_node (get_channel c s) = selected_node s" "show_mode (get_channel c s) = show_mode s"
    "nodes_of_interest (get_channel c s) = nodes_of_interest s" "vnodes (get_channel c s) = vnodes s"
    by (simp_all add: get_channel_def)
  have "links_ok (get_channel c s)"
    by (rule links_ok_frame [of s]) (use assms in \<open>auto simp: view_ok_def fields pos\<close>)
  then show ?thesis
    using assms by (auto simp: view_ok_def nodes_ok_def selection_ok_def fields end_known_nodes [OF fields(7)])
qed (use assms in \<open>simp add: get_channel_def\<close>)

lemma has_mobility_ok: "view_ok s \<Longrightarrow> view_ok (snd (has_mobility mob n s))"
  by (auto simp: has_mobility_def intro!: with_node_ok split: option.splits)

lemma has_mobility_keys [simp]: "keys (vnodes (snd (has_mobility mob n s))) = keys (vnodes s)"
  by (auto simp: has_mobility_def split: option.splits)

lemma update_node_position_ok: "view_ok s \<Longrightarrow> view_ok (update_node_position mob s n)"
  using has_mobility_ok [of s mob n]
  by (auto simp: update_node_position_def node_set_position_ok split: prod.splits option.splits)

lemma foldl_view_ok: "(\<And>s x. view_ok s \<Longrightarrow> view_ok (f s x)) \<Longrightarrow> view_ok s \<Longrightarrow> view_ok (foldl f s xs)"
  by (induction xs arbitrary: s) simp_all

lemma update_node_positions_ok: "view_ok s \<Longrightarrow> view_ok (update_node_positions mob s)"
  unfolding update_node_positions_def by (rule foldl_view_ok) (rule update_node_position_ok)

lemma node_size_changed_ok: "view_ok s \<Longrightarrow> view_ok (node_size_changed x s)"
  unfolding node_size_changed_def by (rule foldl_view_ok) (rule setter_ok)

lemma select_when_fields [simp]:
  "vlinks (select_when b t s) = vlinks s" "canvas_bounds (select_when b t s) = canvas_bounds s" "canvas_setup (select_when b t s) = canvas_setup s"
  "selected_node (select_when b t s) = selected_node s" "show_mode (select_when b t s) = show_mode s"
  "nodes_of_interest (select_when b t s) = nodes_of_interest s" "keys (vnodes (select_when b t s)) = keys (vnodes s)"
  "end_pos e (select_when b t s) = end_pos e s" "links_at e (select_when b t s) = links_at e s"
  "end_known e (select_when b t s) = end_known e s"
  by (auto simp: select_when_def setter_defs with_node_pos with_node_links_at split: option.splits)

lemma select_when_lookup:
  "map_of (vnodes (select_when b t s)) n = (if t = Some n then map_option (set_selected b) (map_of (vnodes s) n) else map_of (vnodes s) n)"
  by (auto simp: select_when_def with_node_lookup split: option.splits)

lemma same_objects:
  assumes "vnodes s' = vnodes s" "vchannels s' = vchannels s"
  shows "end_pos e s' = end_pos e s" "links_at e s' = links_at e s" "end_known e s' = end_known e s"
  using assms by (simp_all add: end_pos_def node_pos_def links_at_def end_known_def split: link_end.splits)

lemma same_links_ok:
  assumes "vnodes s' = vnodes s" "vchannels s' = vchannels s" "vlinks s' = vlinks s"
  shows "links_ok s' = links_ok s"
  using assms(3) by (simp add: links_ok_def link_ok_cong [of s' s, OF same_objects(1,2) [OF assms(1,2)]])

lemma end_selected [simp]:
  "end_pos e (s\<lparr>selected_node := t\<rparr>) = end_pos e s" "links_at e (s\<lparr>selected_node := t\<rparr>) = links_at e s"
  "end_known e (s\<lparr>selected_node := t\<rparr>) = end_known e s" "end_pos e (s\<lparr>nodes_of_interest := is\<rparr>) = end_pos e s"
  "links_at e (s\<lparr>nodes_of_interest := is\<rparr>) = links_at e s" "end_known e (s\<lparr>nodes_of_interest := is\<rparr>) = end_known e s"
  "end_known e (s\<lparr>show_mode := m\<rparr>) = end_known e s"
  by (rule same_objects; simp)+

text \<open>Selecting a node deselects the one before, and tells the simulator if it has to know.\<close>

definition selecting :: "nat option \<Rightarrow> vmodel \<Rightarrow> vmodel" where
  "selecting t s =
     (let s1 = select_when True t ((select_when False (selected_node s) s)\<lparr>selected_node := t\<rparr>)
      in if show_mode s = ShowSelected then s1\<lparr>nodes_of_interest := just t\<rparr> else s1)"

lemma select_node_eq:
  "select_node a s = and_then (find_node a s) (\<lambda>t. Inr (if t = selected_node s then s else selecting t s))"
  by (cases "find_node a s") (simp_all add: select_node_def selecting_def Let_def)

lemma selecting_fields [simp]:
  "vlinks (selecting t s) = vlinks s" "canvas_bounds (selecting t s) = canvas_bounds s" "canvas_setup (selecting t s) = canvas_setup s" "selected_node (selecting t s) = t"
  "show_mode (selecting t s) = show_mode s" "keys (vnodes (selecting t s)) = keys (vnodes s)"
  "nodes_of_interest (selecting t s) = (if show_mode s = ShowSelected then just t else nodes_of_interest s)"
  "end_pos e (selecting t s) = end_pos e s" "links_at e (selecting t s) = links_at e s" "end_known e (selecting t s) = end_known e s"
  by (simp_all add: selecting_def Let_def)

lemma selecting_nodes_ok:
  assumes "nodes_ok s" "t \<noteq> selected_node s"
  shows "nodes_ok (selecting t s)"
  unfolding nodes_ok_def
proof (intro conjI allI impI)
  fix n v assume "map_of (vnodes (selecting t s)) n = Some v"
  then obtain v0 where v0: "map_of (vnodes s) n = Some v0"
    and v: "v = (if t = Some n then set_selected True v0 else if selected_node s = Some n then set_selected False v0 else v0)"
    using assms(2) by (auto simp: selecting_def Let_def select_when_lookup split: if_splits)
  with assms(1) have "node_ok (selected_node s) (steady (canvas_setup s)) (canvas_bounds s) n v0" by (simp add: nodes_ok_def)
  with v show "node_ok (selected_node (selecting t s)) (steady (canvas_setup (selecting t s))) (canvas_bounds (selecting t s)) n v"
    by (auto simp: node_ok_def set_selected_def)
qed (use assms in \<open>simp add: nodes_ok_def\<close>)

lemma selecting_ok:
  assumes "view_ok s" "t \<noteq> selected_node s" "\<forall>n. t = Some n \<longrightarrow> end_known (NodeEnd n) s"
  shows "view_ok (selecting t s)"
proof -
  have "links_ok (selecting t s)" by (rule links_ok_frame [of s]) (use assms in \<open>simp_all add: view_ok_def\<close>)
  moreover have "selection_ok (selecting t s)" using assms by (simp add: view_ok_def selection_ok_def)
  ultimately show ?thesis using assms by (simp add: view_ok_def wf_dict_def selecting_nodes_ok)
qed

definition arg_known :: "node_arg \<Rightarrow> vmodel \<Rightarrow> bool" where
  "arg_known a s = (case a of NodeView n \<Rightarrow> end_known (NodeEnd n) s | _ \<Rightarrow> True)"

lemma find_node_known: "find_node a s = Inr (Some n) \<Longrightarrow> arg_known a s \<Longrightarrow> end_known (NodeEnd n) s"
  by (auto simp: find_node_def node_key_def arg_known_def end_known_def split: node_arg.splits if_splits)

lemma select_node_ok:
  assumes "select_node a s = Inr s'" "view_ok s" "arg_known a s"
  shows "view_ok s'"
proof -
  from assms(1) obtain t where t: "find_node a s = Inr t" "s' = (if t = selected_node s then s else selecting t s)"
    by (auto simp: select_node_eq and_then_eq_Inr)
  have "\<forall>n. t = Some n \<longrightarrow> end_known (NodeEnd n) s" using t(1) assms(3) by (auto intro: find_node_known)
  with t(2) assms(2) show ?thesis by (simp add: selecting_ok)
qed

lemma other_fields_ok: "view_ok (s\<lparr>node_drag_state := d, motion_connected := ns\<rparr>) = view_ok s"
proof -
  let ?s = "s\<lparr>node_drag_state := d, motion_connected := ns\<rparr>"
  have "links_ok ?s = links_ok s" "\<And>e. end_known e ?s = end_known e s"
    by (rule same_links_ok; simp) (rule same_objects; simp)
  then show ?thesis by (simp add: view_ok_def nodes_ok_def selection_ok_def)
qed

lemma mode_ok:
  assumes "view_ok s"
  shows "view_ok (set_show_transmissions_mode k m s)"
proof -
  let ?s = "set_show_transmissions_mode k m s"
  have "links_ok ?s = links_ok s" by (rule same_links_ok) (simp_all add: set_show_transmissions_mode_def)
  moreover have "nodes_ok ?s = nodes_ok s" by (simp add: nodes_ok_def set_show_transmissions_mode_def)
  moreover have "selection_ok ?s" using assms
    by (cases m) (simp_all add: view_ok_def selection_ok_def set_show_transmissions_mode_def wanted_nodes_def)
  ultimately show ?thesis using assms by (simp add: view_ok_def) (simp add: set_show_transmissions_mode_def)
qed

lemma begin_node_drag_ok: "view_ok s \<Longrightarrow> view_ok (begin_node_drag mob n mouse s)"
  by (simp add: begin_node_drag_def other_fields_ok split: option.splits)

lemma end_node_drag_ok: "view_ok s \<Longrightarrow> view_ok (end_node_drag n s)"
  unfolding end_node_drag_def by (cases "node_drag_state s") (simp_all only: option.case other_fields_ok)

lemma node_drag_motion_ok: "view_ok (snd w) \<Longrightarrow> view_ok (snd (node_drag_motion n mouse w))"
  by (auto simp: node_drag_motion_def Let_def node_set_position_ok split: option.splits)

section \<open>WiFi links stay in order\<close>

lemma update_points_fields [simp]:
  "vnodes (update_points s i) = vnodes s" "vchannels (update_points s i) = vchannels s"
  "canvas_bounds (update_points s i) = canvas_bounds s" "canvas_setup (update_points s i) = canvas_setup s" "selected_node (update_points s i) = selected_node s"
  "show_mode (update_points s i) = show_mode s" "nodes_of_interest (update_points s i) = nodes_of_interest s"
  "end_pos e (update_points s i) = end_pos e s" "end_known e (update_points s i) = end_known e s"
  "links_at e (update_points s i) = links_at e s" "length (vlinks (update_points s i)) = length (vlinks s)"
  by (simp_all add: update_points_def)

lemma update_points_links_ok: "links_ok s \<Longrightarrow> links_ok (update_points s i)"
proof (rule update_link_ok [of s _ i "refresh s (vlinks s ! i)"])
  assume ok: "links_ok s" and "i < length (vlinks s)"
  then have "link_ok i (vlinks s ! i) s" by (simp add: links_ok_def)
  then have "link_ok i (refresh s (vlinks s ! i)) s"
    by (auto simp: link_ok_def refresh_def node_pos_end split: option.splits)
  then show "link_ok i (refresh s (vlinks s ! i)) (update_points s i)"
    by (subst link_ok_cong [of _ s]) simp_all
qed (simp_all add: update_points_def)

text \<open>What of a view the checks on nodes and on the selection need.\<close>

lemma view_okI:
  assumes "view_ok s" "links_ok s'" "nodes_ok s \<Longrightarrow> nodes_ok s'" "keys (vnodes s') = keys (vnodes s)"
    "\<And>n. end_known (NodeEnd n) s' = end_known (NodeEnd n) s" "selected_node s' = selected_node s"
    "show_mode s' = show_mode s" "nodes_of_interest s' = nodes_of_interest s"
  shows "view_ok s'"
  using assms by (auto simp: view_ok_def wf_dict_def selection_ok_def)

lemma nodes_ok_same: "vnodes s' = vnodes s \<Longrightarrow> canvas_bounds s' = canvas_bounds s \<Longrightarrow> canvas_setup s' = canvas_setup s \<Longrightarrow> selected_node s' = selected_node s \<Longrightarrow> nodes_ok s \<Longrightarrow> nodes_ok s'"
  by (simp add: nodes_ok_def)

lemma update_points_ok: "view_ok s \<Longrightarrow> view_ok (update_points s i)"
  by (rule view_okI [of s]) (auto simp: view_ok_def update_points_links_ok elim: nodes_ok_same [rotated -1])

lemma destroy_link_view_ok: "view_ok s \<Longrightarrow> is_wifi s i \<Longrightarrow> view_ok (destroy_link s i)"
  by (rule view_okI [of s])
    (auto simp: view_ok_def destroy_link_ok, simp_all add: destroy_link_def)

lemma new_wifi_link_view_ok:
  assumes "view_ok s" "new_wifi_link n s = Inr s'"
  shows "view_ok s'"
proof (rule view_okI [OF assms(1)])
  show "links_ok s'" using assms by (auto simp: view_ok_def intro: new_wifi_link_ok)
qed (use assms(2) in \<open>auto simp: new_wifi_link_eq\<close>)

lemma set_ap_fields:
  assumes "set_ap i ap s = Inr s'"
  shows "keys (vnodes s') = keys (vnodes s)" "selected_node s' = selected_node s" "show_mode s' = show_mode s"
    "nodes_of_interest s' = nodes_of_interest s" "nodes_ok s \<Longrightarrow> nodes_ok s'"
  using assms
  by (auto simp: set_ap_def remove_link_def Let_def and_then_eq_Inr nodes_ok_same [of "update_points _ _"] with_links_nodes_ok
      split: option.splits if_splits)

lemma set_ap_view_ok:
  assumes "view_ok s" "is_wifi s i" "\<forall>n. ap = Some n \<longrightarrow> end_known (NodeEnd n) s" "set_ap i ap s = Inr s'"
  shows "view_ok s'"
proof (rule view_okI [OF assms(1)])
  from assms(1) have "links_ok s" by (simp add: view_ok_def)
  from set_ap_run [OF this assms(2,3)] assms(4)
  show "links_ok s'" "\<And>n. end_known (NodeEnd n) s' = end_known (NodeEnd n) s" by auto
qed (use set_ap_fields [OF assms(4)] in auto)

definition monitor_ok :: "wifi_monitor \<Rightarrow> vmodel \<Rightarrow> bool" where
  "monitor_ok m s \<longleftrightarrow>
     (\<forall>(dev, sta, i)\<in>set (stations m). is_wifi s i \<and> link_node1 (vlinks s ! i) = sta) \<and>
     distinct (map (snd \<circ> snd) (stations m)) \<and>
     (\<forall>b n. map_of (access_points m) b = Some n \<longrightarrow> end_known (NodeEnd n) s)"

text \<open>Links are not removed and keep their kind and their first node, and objects stay.\<close>

definition grows :: "vmodel \<Rightarrow> vmodel \<Rightarrow> bool" where
  "grows s s' \<longleftrightarrow>
     length (vlinks s) \<le> length (vlinks s') \<and> (\<forall>e. end_known e s \<longrightarrow> end_known e s') \<and>
     (\<forall>i<length (vlinks s). link_kind (vlinks s' ! i) = link_kind (vlinks s ! i) \<and>
        link_node1 (vlinks s' ! i) = link_node1 (vlinks s ! i))"

lemma grows_refl [simp]: "grows s s"
  by (simp add: grows_def)

lemma grows_trans: "grows s s' \<Longrightarrow> grows s' s'' \<Longrightarrow> grows s s''"
  by (auto simp: grows_def)

lemma grows_monitor: "grows s s' \<Longrightarrow> monitor_ok m s \<Longrightarrow> monitor_ok m s'"
  by (fastforce simp: grows_def monitor_ok_def is_wifi_def)

lemma grows_same:
  "vlinks s' = vlinks s \<Longrightarrow> (\<And>e. end_known e s \<Longrightarrow> end_known e s') \<Longrightarrow> grows s s'"
  by (simp add: grows_def)

lemma grows_refresh: "vlinks s' = refresh_all t js (vlinks s) \<Longrightarrow> (\<And>e. end_known e s \<Longrightarrow> end_known e s') \<Longrightarrow> grows s s'"
  by (simp add: grows_def nth_refresh_all)

lemma nth_update: "j < length xs \<Longrightarrow> xs[i := y] ! j = (if j = i then y else xs ! j)"
  by simp

lemma grows_update_points: "grows s (update_points s i)"
  by (auto simp: grows_def update_points_def nth_update)

lemma grows_destroy: "grows s (destroy_link s i)"
  by (auto simp: grows_def destroy_link_def nth_update)

lemma grows_new_wifi: "new_wifi_link n s = Inr s' \<Longrightarrow> grows s s'"
  by (auto simp: grows_def new_wifi_link_eq nth_append)

lemma set_ap_grows:
  assumes "links_ok s" "is_wifi s i" "\<forall>n. ap = Some n \<longrightarrow> end_known (NodeEnd n) s" "set_ap i ap s = Inr s'"
  shows "grows s s'"
proof -
  from set_ap_run [OF assms(1-3)] assms(4) have s': "length (vlinks s') = length (vlinks s)" "\<And>e. end_known e s' = end_known e s"
    "\<And>j. j \<noteq> i \<Longrightarrow> vlinks s' ! j = vlinks s ! j" "link_kind (vlinks s' ! i) = WifiLink"
    "link_node1 (vlinks s' ! i) = link_node1 (vlinks s ! i)"
    by auto
  have "link_kind (vlinks s' ! j) = link_kind (vlinks s ! j) \<and> link_node1 (vlinks s' ! j) = link_node1 (vlinks s ! j)" for j
    using assms(2) s'(3,4,5) by (cases "j = i") (simp_all add: is_wifi_def)
  with s'(1,2) show ?thesis by (simp add: grows_def)
qed

lemma grows_foldl: "(\<And>s x. grows s (f s x)) \<Longrightarrow> grows s (foldl f s xs)"
  by (induction xs arbitrary: s) (auto intro: grows_trans)

lemma grows_node_position: "grows s (node_set_position p n s)"
  by (rule grows_refresh [where t = "with_node n (\<lambda>v. v\<lparr>node_at := p\<rparr>) s"
        and js = "links_at (NodeEnd n) (with_node n (\<lambda>v. v\<lparr>node_at := p\<rparr>) s)"])
    (simp_all add: node_set_position_def Let_def update_all)

lemma grows_channel_position: "grows s (channel_set_position p c s)"
  by (rule grows_refresh [where t = "with_channel c (\<lambda>v. v\<lparr>channel_at := p\<rparr>) s"
        and js = "links_at (ChannelEnd c) (with_channel c (\<lambda>v. v\<lparr>channel_at := p\<rparr>) s)"])
    (auto simp: channel_set_position_def Let_def update_all end_known_def with_channel_lookup split: link_end.splits)

lemma grows_create_link: "grows s (create_link n e s)"
  by (auto simp: grows_def) (simp_all add: create_link_def Let_def nth_append)

lemma grows_get_node: "grows s (get_node_view n s)"
  by (rule grows_same) (auto simp: get_node_view_known, simp add: get_node_view_def split: option.split)

lemma grows_get_channel: "grows s (get_channel c s)"
  by (rule grows_same) (auto simp: get_channel_known, simp add: get_channel_def split: option.split)

end
