(* ===== verification/VizCanvas.thy ===== *)
theory VizCanvas
  imports VizModel
begin

text \<open>
  src/visualizer/visualizer/core.py and plugins/wifi_intrastructure_link.py: what events do to the
  objects of \<open>VizModel\<close>, in any order: the pointer, the widgets, the simulator, the monitor of
  WiFi links; and the scan of the topology that makes the objects. Of what scripts do in the hooks of
  \<open>add_initialization_hook\<close> the bounds of \<open>set_bounds\<close> are an event, others are not.
\<close>

section \<open>Events\<close>

record world =
  sim_mobility :: mobility
  canvas :: vmodel
  wifi :: wifi_monitor

definition start_canvas :: "nat \<Rightarrow> vmodel" where
  "start_canvas n_nodes =
     \<lparr>vnodes = [], vchannels = [], vlinks = [], canvas_bounds = ((- 10000, - 10000), (10000, 10000)),
      canvas_setup = \<lparr>get_bounds_works = True, bounds_hooks = []\<rparr>, selected_node = None,
      show_mode = ShowAll, nodes_of_interest = [0..<n_nodes], node_drag_state = None, motion_connected = []\<rparr>"

text \<open>
  The calls of which the scan of the topology is made are events of their own. A station is updated by
  itself, as the loop over them may raise in the middle. The hooks that \<open>set_bounds\<close> has left are
  run by the main loop when it is idle; the code runs each once, here they may run again.
\<close>

inductive canvas_step :: "world \<Rightarrow> world \<Rightarrow> bool" where
  node_wanted: "canvas_step w (w\<lparr>canvas := get_node_view n (canvas w)\<rparr>)"
| channel_wanted: "canvas_step w (w\<lparr>canvas := get_channel c (canvas w)\<rparr>)"
| link_made: "end_known (NodeEnd n) (canvas w) \<Longrightarrow> end_known e (canvas w) \<Longrightarrow> canvas_step w (w\<lparr>canvas := create_link n e (canvas w)\<rparr>)"
| node_placed: "canvas_step w (w\<lparr>canvas := node_set_position p n (canvas w)\<rparr>)"
| channel_placed: "canvas_step w (w\<lparr>canvas := channel_set_position p c (canvas w)\<rparr>)"
| coloured: "canvas_step w (w\<lparr>canvas := with_node n (set_color colour) (canvas w)\<rparr>)"
| simulated: "canvas_step w (w\<lparr>sim_mobility := mob\<rparr>)"
| view_updated: "canvas_step w (w\<lparr>canvas := update_node_positions (sim_mobility w) (canvas w)\<rparr>)"
| node_clicked: "arg_known a (canvas w) \<Longrightarrow> select_node a (canvas w) = Inr s \<Longrightarrow> canvas_step w (w\<lparr>canvas := s\<rparr>)"
| mobility_asked: "canvas_step w (w\<lparr>canvas := snd (has_mobility (sim_mobility w) n (canvas w))\<rparr>)"
| mode_chosen: "canvas_step w (w\<lparr>canvas := set_show_transmissions_mode n_nodes m (canvas w)\<rparr>)"
| pointer_moved: "canvas_step w (w\<lparr>canvas := with_node n (set_highlighted b) (canvas w)\<rparr>)"
| size_chosen: "canvas_step w (w\<lparr>canvas := node_size_changed x (canvas w)\<rparr>)"
| drag_begun: "canvas_step w (w\<lparr>canvas := begin_node_drag (sim_mobility w) n mouse (canvas w)\<rparr>)"
| drag_moved: "n \<in> set (motion_connected (canvas w)) \<Longrightarrow> node_drag_motion n mouse (sim_mobility w, canvas w) = (mob, s) \<Longrightarrow>
    canvas_step w (w\<lparr>sim_mobility := mob, canvas := s\<rparr>)"
| drag_ended: "canvas_step w (w\<lparr>canvas := end_node_drag n (canvas w)\<rparr>)"
| wifi_scanned: "scan_nodes devices (wifi w, canvas w) = Inr (m, s) \<Longrightarrow> canvas_step w (w\<lparr>canvas := s, wifi := m\<rparr>)"
| station_updated: "st \<in> set (stations (wifi w)) \<Longrightarrow> update_station link_up bssid (wifi w) (canvas w) st = Inr s \<Longrightarrow>
    canvas_step w (w\<lparr>canvas := s\<rparr>)"
| bounds_replaced: "b \<in> set (bounds_hooks (canvas_setup (canvas w))) \<Longrightarrow> canvas_step w (w\<lparr>canvas := run_bounds_hook b (canvas w)\<rparr>)"
| wifi_viewed: "canvas_step w (w\<lparr>canvas := wifi_update_view (wifi w) (canvas w)\<rparr>)"

inductive canvas_reachable :: "world \<Rightarrow> bool" where
  opened: "canvas_reachable \<lparr>sim_mobility = mob, canvas = (start_canvas n_nodes)\<lparr>canvas_setup := cfg\<rparr>,
    wifi = \<lparr>access_points = [], stations = []\<rparr>\<rparr>"
| event: "canvas_reachable w \<Longrightarrow> canvas_step w w' \<Longrightarrow> canvas_reachable w'"

definition world_ok :: "world \<Rightarrow> bool" where
  "world_ok w \<longleftrightarrow> view_ok (canvas w) \<and> monitor_ok (wifi w) (canvas w)"

lemma world_okI: "world_ok w \<Longrightarrow> view_ok s \<Longrightarrow> grows (canvas w) s \<Longrightarrow> world_ok (w\<lparr>canvas := s\<rparr>)"
  by (auto simp: world_ok_def intro: grows_monitor)

lemma with_node_grows: "grows s (with_node n f s)"
  by (rule grows_same) simp_all

lemma node_size_changed_grows: "grows s (node_size_changed x s)"
  unfolding node_size_changed_def by (rule grows_foldl) (rule with_node_grows)

lemma has_mobility_grows: "grows s (snd (has_mobility mob n s))"
  by (auto simp: has_mobility_def with_node_grows split: option.split)

lemma update_node_position_grows: "grows s (update_node_position mob s n)"
  using has_mobility_grows [of s mob n]
  by (auto simp: update_node_position_def split: prod.split option.split intro: grows_trans grows_node_position)

lemma update_node_positions_grows: "grows s (update_node_positions mob s)"
  unfolding update_node_positions_def by (rule grows_foldl) (rule update_node_position_grows)

lemma select_node_grows:
  assumes "select_node a s = Inr s'"
  shows "grows s s'"
proof -
  from assms obtain t where "s' = (if t = selected_node s then s else selecting t s)"
    by (auto simp: select_node_eq and_then_eq_Inr)
  then have "vlinks s' = vlinks s" "\<And>e. end_known e s' = end_known e s" by simp_all
  then show ?thesis by (simp add: grows_same)
qed

lemma mode_grows: "grows s (set_show_transmissions_mode k m s)"
  by (rule grows_same) (simp_all add: set_show_transmissions_mode_def)

lemma end_known_drag [simp]: "end_known e (s\<lparr>node_drag_state := d, motion_connected := ns\<rparr>) = end_known e s"
  by (rule same_objects; simp)

lemma drag_grows: "grows s (begin_node_drag mob n mouse s)" "grows s (end_node_drag n s)"
  "grows (snd v) (snd (node_drag_motion n mouse v))"
proof -
  show "grows s (begin_node_drag mob n mouse s)"
    by (cases "mob n") (simp_all add: begin_node_drag_def grows_same)
  show "grows s (end_node_drag n s)"
    by (cases "node_drag_state s") (simp_all add: end_node_drag_def grows_same)
  show "grows (snd v) (snd (node_drag_motion n mouse v))"
    by (cases "fst v n"; cases "node_drag_state (snd v)") (simp_all add: node_drag_motion_def Let_def grows_node_position)
qed

lemma bounds_hook_grows: "grows s (run_bounds_hook b s)"
  by (rule grows_same) (simp_all add: run_bounds_hook_def)

lemma bounds_hook_ok:
  assumes "view_ok s" "b \<in> set (bounds_hooks (canvas_setup s))"
  shows "view_ok (run_bounds_hook b s)"
proof -
  from assms(2) have "\<not> steady (canvas_setup s)" by (auto simp: steady_def)
  with assms(1) show ?thesis
    by (auto simp: view_ok_def wf_dict_def nodes_ok_def node_ok_def selection_ok_def run_bounds_hook_def)
qed

lemma wifi_update_view_facts: "grows s (wifi_update_view m s)" "view_ok s \<Longrightarrow> view_ok (wifi_update_view m s)"
  unfolding wifi_update_view_def by (rule grows_foldl, rule grows_update_points) (rule foldl_view_ok, rule update_points_ok)

section \<open>The monitor of WiFi links\<close>

text \<open>The access point a station belongs to, if it belongs to one the monitor knows.\<close>

definition associated :: "(nat \<Rightarrow> bool) \<Rightarrow> (nat \<Rightarrow> string) \<Rightarrow> nat \<Rightarrow> bool" where
  "associated link_up bssid dev \<longleftrightarrow> link_up dev \<and> bssid dev \<noteq> no_bssid"

definition ap_of :: "(nat \<Rightarrow> bool) \<Rightarrow> (nat \<Rightarrow> string) \<Rightarrow> wifi_monitor \<Rightarrow> nat \<Rightarrow> nat option" where
  "ap_of link_up bssid m dev = (if associated link_up bssid dev then map_of (access_points m) (bssid dev) else None)"

lemma update_station_eq:
  "update_station link_up bssid m s (dev, sta, i) =
     (if associated link_up bssid dev \<and> map_of (access_points m) (bssid dev) = None then Inl KeyError
      else set_ap i (ap_of link_up bssid m dev) s)"
  by (auto simp: update_station_def associated_def ap_of_def dict_get_def split: option.split)

lemma update_station_run:
  assumes "view_ok s" "monitor_ok m s" "(dev, sta, i) \<in> set (stations m)"
    "associated link_up bssid dev \<Longrightarrow> map_of (access_points m) (bssid dev) \<noteq> None"
  shows "\<exists>s'. update_station link_up bssid m s (dev, sta, i) = Inr s' \<and> view_ok s' \<and> grows s s' \<and>
    (\<forall>e. end_pos e s' = end_pos e s) \<and> (\<forall>j. j \<noteq> i \<longrightarrow> vlinks s' ! j = vlinks s ! j) \<and>
    link_node2 (vlinks s' ! i) = map_option NodeEnd (ap_of link_up bssid m dev)"
proof -
  from assms(2,3) have i: "is_wifi s i" by (auto simp: monitor_ok_def)
  have ap: "\<forall>n. ap_of link_up bssid m dev = Some n \<longrightarrow> end_known (NodeEnd n) s"
    using assms(2) by (auto simp: monitor_ok_def ap_of_def split: if_splits)
  from assms(1) have l: "links_ok s" by (simp add: view_ok_def)
  from set_ap_run [OF l i ap] obtain s' where s': "set_ap i (ap_of link_up bssid m dev) s = Inr s'"
    "\<forall>e. end_pos e s' = end_pos e s" "\<forall>j. j \<noteq> i \<longrightarrow> vlinks s' ! j = vlinks s ! j"
    "link_node2 (vlinks s' ! i) = map_option NodeEnd (ap_of link_up bssid m dev)"
    by blast
  with assms(4) set_ap_view_ok [OF assms(1) i ap s'(1)] set_ap_grows [OF l i ap s'(1)] show ?thesis
    by (auto simp: update_station_eq)
qed

lemma update_station_fails:
  "update_station link_up bssid m s (dev, sta, i) = Inl e \<Longrightarrow> view_ok s \<Longrightarrow> monitor_ok m s \<Longrightarrow> (dev, sta, i) \<in> set (stations m) \<Longrightarrow>
     e = KeyError \<and> associated link_up bssid dev \<and> map_of (access_points m) (bssid dev) = None"
  using update_station_run [of s m dev sta i link_up bssid] by (auto simp: update_station_eq split: if_splits)

lemma scan_device_ok:
  assumes "view_ok (snd ms)" "monitor_ok (fst ms) (snd ms)" "end_known (NodeEnd n) (snd ms)" "scan_device n ms d = Inr ms'"
  shows "view_ok (snd ms') \<and> monitor_ok (fst ms') (snd ms') \<and> grows (snd ms) (snd ms')"
proof (cases d)
  case (Station dev)
  let ?s = "snd ms"
  from assms(4) Station obtain s' where s': "new_wifi_link n ?s = Inr s'"
    "ms' = ((fst ms)\<lparr>stations := stations (fst ms) @ [(dev, n, length (vlinks ?s))]\<rparr>, s')"
    by (auto simp: scan_device_def and_then_eq_Inr split: prod.splits)
  have m: "monitor_ok (fst ms) s'" by (rule grows_monitor [OF grows_new_wifi [OF s'(1)] assms(2)])
  have "\<forall>i\<in>(snd \<circ> snd) ` set (stations (fst ms)). i < length (vlinks ?s)"
    using assms(2) by (auto simp: monitor_ok_def is_wifi_def)
  then have "length (vlinks ?s) \<notin> (snd \<circ> snd) ` set (stations (fst ms))" by auto
  moreover have "is_wifi s' (length (vlinks ?s))" "link_node1 (vlinks s' ! length (vlinks ?s)) = n"
    using s'(1) by (auto simp: new_wifi_link_eq is_wifi_def)
  ultimately have "monitor_ok (fst ms') s'" using m by (auto simp: s'(2) monitor_ok_def image_iff)
  with s' new_wifi_link_view_ok [OF assms(1) s'(1)] grows_new_wifi [OF s'(1)] show ?thesis by simp
next
  case (AccessPoint b)
  with assms show ?thesis
    by (auto simp: scan_device_def monitor_ok_def update_conv' split: prod.splits if_splits)
qed (use assms in \<open>auto simp: scan_device_def split: prod.splits\<close>)

lemma scan_device_runs: "\<exists>ms'. scan_device n ms d = Inr ms'"
  by (cases d) (auto simp: scan_device_def new_wifi_link_eq split: prod.split)

definition scan_state_ok :: "vmodel \<Rightarrow> wifi_monitor \<times> vmodel \<Rightarrow> bool" where
  "scan_state_ok s0 ms \<longleftrightarrow> view_ok (snd ms) \<and> monitor_ok (fst ms) (snd ms) \<and> grows s0 (snd ms)"

lemma scan_devices_ok:
  "scan_state_ok s0 ms \<Longrightarrow> end_known (NodeEnd n) s0 \<Longrightarrow> for_each (scan_device n) ms ds = Inr ms' \<Longrightarrow> scan_state_ok s0 ms'"
proof (induction ds arbitrary: ms)
  case (Cons d ds)
  from Cons.prems(3) obtain ms1 where ms1: "scan_device n ms d = Inr ms1" "for_each (scan_device n) ms1 ds = Inr ms'"
    by (auto simp: and_then_eq_Inr)
  from Cons.prems(1,2) have "end_known (NodeEnd n) (snd ms)" by (simp add: scan_state_ok_def grows_def)
  with scan_device_ok [OF _ _ _ ms1(1)] Cons.prems(1) have "scan_state_ok s0 ms1"
    by (auto simp: scan_state_ok_def intro: grows_trans)
  with Cons.IH Cons.prems(2) ms1(2) show ?case by blast
qed simp

lemma scan_views_ok:
  "scan_state_ok s0 ms \<Longrightarrow> \<forall>n\<in>set ns. end_known (NodeEnd n) s0 \<Longrightarrow>
     for_each (\<lambda>ms n. for_each (scan_device n) ms (devices n)) ms ns = Inr ms' \<Longrightarrow> scan_state_ok s0 ms'"
proof (induction ns arbitrary: ms)
  case (Cons n ns)
  then obtain ms1 where ms1: "for_each (scan_device n) ms (devices n) = Inr ms1"
    "for_each (\<lambda>ms n. for_each (scan_device n) ms (devices n)) ms1 ns = Inr ms'"
    by (auto simp: and_then_eq_Inr)
  have "scan_state_ok s0 ms1" by (rule scan_devices_ok [OF Cons.prems(1) _ ms1(1)]) (use Cons.prems(2) in simp)
  with Cons.IH Cons.prems(2) ms1(2) show ?case by simp
qed simp

lemma is_wifi_destroy: "is_wifi s i \<Longrightarrow> is_wifi (destroy_link s j) i"
  by (cases "i = j") (auto simp: is_wifi_def destroy_link_def nth_update)

lemma destroy_links_ok:
  "view_ok s \<Longrightarrow> \<forall>i\<in>set is. is_wifi s i \<Longrightarrow> view_ok (foldl destroy_link s is) \<and> grows s (foldl destroy_link s is)"
proof (induction "is" arbitrary: s)
  case (Cons i "is")
  have "view_ok (destroy_link s i)" using Cons.prems by (simp add: destroy_link_view_ok)
  with Cons.IH [of "destroy_link s i"] Cons.prems show ?case
    by (auto simp: is_wifi_destroy intro: grows_trans [OF grows_destroy])
qed simp

lemma scan_nodes_ok:
  assumes "view_ok s" "monitor_ok m s" "scan_nodes devices (m, s) = Inr (m', s')"
  shows "view_ok s' \<and> monitor_ok m' s' \<and> grows s s'"
proof -
  let ?s = "foldl destroy_link s (map (snd \<circ> snd) (stations m))"
  have d: "view_ok ?s \<and> grows s ?s"
    by (rule destroy_links_ok [OF assms(1)]) (use assms(2) in \<open>auto simp: monitor_ok_def\<close>)
  have "scan_state_ok ?s (\<lparr>access_points = [], stations = []\<rparr>, ?s)" using d by (simp add: scan_state_ok_def monitor_ok_def)
  moreover have "\<forall>n\<in>set (keys (vnodes ?s)). end_known (NodeEnd n) ?s"
    by (auto simp: end_known_def map_of_eq_None_iff)
  moreover have "for_each (\<lambda>ms n. for_each (scan_device n) ms (devices n)) (\<lparr>access_points = [], stations = []\<rparr>, ?s)
      (keys (vnodes ?s)) = Inr (m', s')"
    using assms(3) by (simp add: scan_nodes_def Let_def)
  ultimately have "scan_state_ok ?s (m', s')" by (rule scan_views_ok)
  with d show ?thesis by (auto simp: scan_state_ok_def intro: grows_trans)
qed

section \<open>Whatever happens\<close>

abbreviation seen :: "world \<Rightarrow> vmodel \<Rightarrow> bool" where
  "seen w s \<equiv> canvas_reachable (w\<lparr>canvas := s\<rparr>)"

lemma seen_step: "seen w s \<Longrightarrow> canvas_step (w\<lparr>canvas := s\<rparr>) (w\<lparr>canvas := s'\<rparr>) \<Longrightarrow> seen w s'"
  by (rule canvas_reachable.event)

lemma seen_steps:
  assumes "seen w s"
  shows "seen w (get_node_view n s)" "seen w (get_channel c s)" "seen w (node_set_position p n s)"
    "seen w (channel_set_position p c s)" "seen w (with_node n (set_color colour) s)"
    "end_known (NodeEnd n) s \<Longrightarrow> end_known e s \<Longrightarrow> seen w (create_link n e s)"
    "seen w (snd (has_mobility (sim_mobility w) n s))"
  using canvas_step.node_wanted [of "w\<lparr>canvas := s\<rparr>" n] canvas_step.channel_wanted [of "w\<lparr>canvas := s\<rparr>" c]
    canvas_step.node_placed [of "w\<lparr>canvas := s\<rparr>" p n] canvas_step.channel_placed [of "w\<lparr>canvas := s\<rparr>" p c]
    canvas_step.coloured [of "w\<lparr>canvas := s\<rparr>" n colour] canvas_step.link_made [of n "w\<lparr>canvas := s\<rparr>" e]
    canvas_step.mobility_asked [of "w\<lparr>canvas := s\<rparr>" n]
  by (auto intro: seen_step [OF assms])

lemma start_ok: "view_ok ((start_canvas k)\<lparr>canvas_setup := cfg\<rparr>)"
  by (simp add: start_canvas_def view_ok_def links_ok_def nodes_ok_def selection_ok_def on_canvas_def)

lemma canvas_step_ok: "canvas_step w w' \<Longrightarrow> world_ok w \<Longrightarrow> world_ok w'"
proof (induction rule: canvas_step.induct)
  case (node_clicked a w s)
  then show ?case by (intro world_okI) (auto simp: world_ok_def intro: select_node_ok select_node_grows)
next
  case (drag_moved n w mouse mob s)
  then have "view_ok s" "grows (canvas w) s"
    using node_drag_motion_ok [of "(sim_mobility w, canvas w)" n mouse] drag_grows(3) [of "(sim_mobility w, canvas w)" n mouse]
    by (simp_all add: world_ok_def)
  with drag_moved show ?case by (auto simp: world_ok_def intro: grows_monitor)
next
  case (wifi_scanned devices w m s)
  then show ?case using scan_nodes_ok [of "canvas w" "wifi w" devices m s] by (simp add: world_ok_def)
next
  case (station_updated st w link_up bssid s)
  obtain dev sta i where st: "st = (dev, sta, i)" by (cases st)
  from station_updated(2) have "associated link_up bssid dev \<Longrightarrow> map_of (access_points (wifi w)) (bssid dev) \<noteq> None"
    by (auto simp: st update_station_eq split: if_splits)
  with update_station_run [of "canvas w" "wifi w" dev sta i link_up bssid] station_updated st
  show ?case by (auto simp: world_ok_def intro: grows_monitor)
next
  case (link_made n w e)
  then show ?case by (intro world_okI) (auto simp: world_ok_def create_link_ok grows_create_link)
next
  case (bounds_replaced b w)
  then show ?case by (intro world_okI) (auto simp: world_ok_def bounds_hook_ok bounds_hook_grows)
next
  case (simulated w mob)
  then show ?case by (simp add: world_ok_def)
qed (rule world_okI; simp add: world_ok_def get_node_view_ok get_channel_ok node_set_position_ok channel_set_position_ok setter_ok
    update_node_positions_ok has_mobility_ok has_mobility_grows mode_ok node_size_changed_ok begin_node_drag_ok end_node_drag_ok wifi_update_view_facts
    grows_get_node grows_get_channel grows_node_position grows_channel_position with_node_grows update_node_positions_grows
    mode_grows node_size_changed_grows drag_grows)+

lemma canvas_reachable_ok: "canvas_reachable w \<Longrightarrow> world_ok w"
proof (induction rule: canvas_reachable.induct)
  case (opened mob k)
  then show ?case by (simp add: world_ok_def start_ok monitor_ok_def)
qed (rule canvas_step_ok)

text \<open>
  C10. Whatever happens, a wire that is drawn at all goes from where its node is to where its other end
  is, and a WiFi link that is seen ends where its access point is: moving an object takes its links along.
\<close>

theorem links_follow:
  assumes "canvas_reachable w" "l \<in> set (vlinks (canvas w))" "link_points l = Some (p, q)"
  shows "(link_kind l = Wired \<longrightarrow> p = node_pos (link_node1 l) (canvas w) \<and> (\<exists>e. link_node2 l = Some e \<and> q = end_pos e (canvas w))) \<and>
    (link_kind l = WifiLink \<and> link_visible l \<longrightarrow> (\<exists>e. link_node2 l = Some e \<and> q = end_pos e (canvas w)))"
proof -
  from canvas_reachable_ok [OF assms(1)] have "links_ok (canvas w)" by (simp add: world_ok_def view_ok_def)
  with assms(2) obtain i where l: "link_ok i l (canvas w)" by (auto simp: links_ok_def in_set_conv_nth)
  show ?thesis
  proof (cases "link_node2 l")
    case None
    with l assms(3) show ?thesis by (simp add: link_ok_def)
  next
    case (Some e)
    have "link_points (refresh (canvas w) l) = Some (node_pos (link_node1 l) (canvas w), end_pos e (canvas w))"
      using Some by (simp add: refresh_def)
    with l assms(3) Some show ?thesis by (auto simp: link_ok_def)
  qed
qed

text \<open>
  C30. Of all nodes only the selected one is drawn with the thick outline, and while the transmissions
  of the selected node are shown it is the one the simulator watches. Wherever nodes have been moved,
  the canvas holds all of them, if \<open>get_bounds\<close> works and no script has called \<open>set_bounds\<close>.
\<close>

theorem selection_shown:
  assumes "canvas_reachable w" "map_of (vnodes (canvas w)) n = Some v"
  shows "look_line_width (node_shown v) =
      size_of_node v * PIXELS_PER_METER * (if selected_node (canvas w) = Some n then 3 / 10 else 15 / 100) \<and>
    (selected_node (canvas w) = Some n \<and> show_mode (canvas w) = ShowSelected \<longrightarrow> nodes_of_interest (canvas w) = [n]) \<and>
    (get_bounds_works (canvas_setup (canvas w)) \<and> bounds_hooks (canvas_setup (canvas w)) = [] \<longrightarrow>
      on_canvas (node_at v) (canvas_bounds (canvas w)))"
proof -
  from canvas_reachable_ok [OF assms(1)] assms(2)
  have "node_ok (selected_node (canvas w)) (steady (canvas_setup (canvas w))) (canvas_bounds (canvas w)) n v" "selection_ok (canvas w)"
    by (auto simp: world_ok_def view_ok_def nodes_ok_def)
  then show ?thesis
    by (auto simp: node_ok_def steady_def selection_ok_def just_def appearance_def Let_def PIXELS_PER_METER_def split: if_splits)
qed

section \<open>Which WiFi links are seen\<close>

definition ap_known :: "(nat \<Rightarrow> bool) \<Rightarrow> (nat \<Rightarrow> string) \<Rightarrow> wifi_monitor \<Rightarrow> nat \<Rightarrow> bool" where
  "ap_known link_up bssid m dev \<longleftrightarrow> (associated link_up bssid dev \<longrightarrow> map_of (access_points m) (bssid dev) \<noteq> None)"

lemma stations_run:
  assumes "view_ok s" "monitor_ok m s" "set sts \<subseteq> set (stations m)" "distinct (map (snd \<circ> snd) sts)"
    "\<forall>(dev, sta, i)\<in>set sts. ap_known link_up bssid m dev"
  shows "\<exists>s'. for_each (update_station link_up bssid m) s sts = Inr s' \<and> view_ok s' \<and> grows s s' \<and>
    (\<forall>e. end_pos e s' = end_pos e s) \<and> (\<forall>j. j \<notin> (snd \<circ> snd) ` set sts \<longrightarrow> vlinks s' ! j = vlinks s ! j) \<and>
    (\<forall>(dev, sta, i)\<in>set sts. link_node2 (vlinks s' ! i) = map_option NodeEnd (ap_of link_up bssid m dev))"
  using assms
proof (induction sts arbitrary: s)
  case Nil
  then show ?case by simp
next
  case (Cons st sts)
  obtain dev sta i where st: "st = (dev, sta, i)" by (cases st)
  from Cons.prems st have "(dev, sta, i) \<in> set (stations m)"
    "associated link_up bssid dev \<Longrightarrow> map_of (access_points m) (bssid dev) \<noteq> None"
    by (auto simp: ap_known_def)
  from update_station_run [where link_up = link_up and bssid = bssid, OF Cons.prems(1,2) this] obtain s1
    where s1: "update_station link_up bssid m s (dev, sta, i) = Inr s1" "view_ok s1" "grows s s1"
      "\<forall>e. end_pos e s1 = end_pos e s" "\<forall>j. j \<noteq> i \<longrightarrow> vlinks s1 ! j = vlinks s ! j"
      "link_node2 (vlinks s1 ! i) = map_option NodeEnd (ap_of link_up bssid m dev)"
    by blast
  have "monitor_ok m s1" by (rule grows_monitor [OF s1(3) Cons.prems(2)])
  with Cons.IH [of s1] s1(2) Cons.prems(3,4,5) obtain s2
    where s2: "for_each (update_station link_up bssid m) s1 sts = Inr s2" "view_ok s2" "grows s1 s2"
      "\<forall>e. end_pos e s2 = end_pos e s1" "\<forall>j. j \<notin> (snd \<circ> snd) ` set sts \<longrightarrow> vlinks s2 ! j = vlinks s1 ! j"
      "\<forall>(dev, sta, i)\<in>set sts. link_node2 (vlinks s2 ! i) = map_option NodeEnd (ap_of link_up bssid m dev)"
    by auto
  have "i \<notin> (snd \<circ> snd) ` set sts" using Cons.prems(4) st by simp
  with s1 s2 st show ?case by (intro exI [of _ s2]) (auto intro: grows_trans)
qed

lemma stations_fail:
  assumes "view_ok s" "monitor_ok m s" "set sts \<subseteq> set (stations m)"
    "\<exists>(dev, sta, i)\<in>set sts. \<not> ap_known link_up bssid m dev"
  shows "for_each (update_station link_up bssid m) s sts = Inl KeyError"
  using assms
proof (induction sts arbitrary: s)
  case (Cons st sts)
  obtain dev sta i where st: "st = (dev, sta, i)" by (cases st)
  show ?case
  proof (cases "ap_known link_up bssid m dev")
    case False
    then show ?thesis by (simp add: st update_station_eq ap_known_def)
  next
    case True
    from Cons.prems st True have "(dev, sta, i) \<in> set (stations m)"
      "associated link_up bssid dev \<Longrightarrow> map_of (access_points m) (bssid dev) \<noteq> None"
      by (auto simp: ap_known_def)
    from update_station_run [where link_up = link_up and bssid = bssid, OF Cons.prems(1,2) this] obtain s1
      where s1: "update_station link_up bssid m s (dev, sta, i) = Inr s1" "view_ok s1" "grows s s1"
      by blast
    have "monitor_ok m s1" by (rule grows_monitor [OF s1(3) Cons.prems(2)])
    with Cons.IH [of s1] s1 Cons.prems(3,4) True st show ?thesis by auto
  qed
qed simp

text \<open>
  C14. The update of the WiFi links raises exactly when a station is associated with an access point
  that was not there at the scan. Otherwise, after the view has been updated, the link of each
  associated station joins it and its access point, and the link of any other cannot be seen.
\<close>

theorem wifi_links_join:
  assumes "canvas_reachable w"
  shows "case wifi_periodic_update link_up bssid (wifi w) (canvas w) of
      Inl e \<Rightarrow> e = KeyError \<and> (\<exists>(dev, sta, i)\<in>set (stations (wifi w)). \<not> ap_known link_up bssid (wifi w) dev)
    | Inr s \<Rightarrow> list_all (\<lambda>(dev, sta, i).
        let l = vlinks (wifi_update_view (wifi w) s) ! i
        in ap_known link_up bssid (wifi w) dev \<and> link_node1 l = sta \<and>
          (case ap_of link_up bssid (wifi w) dev of
             None \<Rightarrow> link_visible l \<longrightarrow> link_points l = None
           | Some ap \<Rightarrow> link_visible l \<and> link_points l = Some (node_pos sta s, node_pos ap s))) (stations (wifi w))"
proof -
  let ?m = "wifi w" and ?s = "canvas w"
  from canvas_reachable_ok [OF assms] have ok: "view_ok ?s" "monitor_ok ?m ?s" by (simp_all add: world_ok_def)
  show ?thesis
  proof (cases "\<forall>(dev, sta, i)\<in>set (stations ?m). ap_known link_up bssid ?m dev")
    case False
    then have ex: "\<exists>(dev, sta, i)\<in>set (stations ?m). \<not> ap_known link_up bssid ?m dev" by auto
    from stations_fail [OF ok subset_refl ex] ex show ?thesis by (simp add: wifi_periodic_update_def)
  next
    case True
    have d: "distinct (map (snd \<circ> snd) (stations ?m))" using ok(2) by (simp add: monitor_ok_def)
    from stations_run [OF ok subset_refl d True] obtain s
      where s: "wifi_periodic_update link_up bssid ?m ?s = Inr s" "view_ok s" "grows ?s s"
        "\<forall>(dev, sta, i)\<in>set (stations ?m). link_node2 (vlinks s ! i) = map_option NodeEnd (ap_of link_up bssid ?m dev)"
      unfolding wifi_periodic_update_def by blast
    have m: "monitor_ok ?m s" by (rule grows_monitor [OF s(3) ok(2)])
    have "let l = vlinks (wifi_update_view ?m s) ! i
        in ap_known link_up bssid ?m dev \<and> link_node1 l = sta \<and>
          (case ap_of link_up bssid ?m dev of
             None \<Rightarrow> link_visible l \<longrightarrow> link_points l = None
           | Some ap \<Rightarrow> link_visible l \<and> link_points l = Some (node_pos sta s, node_pos ap s))"
      if st: "(dev, sta, i) \<in> set (stations ?m)" for dev sta i
    proof -
      from m st have i: "is_wifi s i" "link_node1 (vlinks s ! i) = sta" by (auto simp: monitor_ok_def)
      then have new: "vlinks (wifi_update_view ?m s) ! i = refresh s (vlinks s ! i)"
        using st by (force simp: wifi_update_view_def update_all is_wifi_def nth_refresh_all)
      from s(2) i(1) have l: "link_ok i (vlinks s ! i) s" by (simp add: view_ok_def links_ok_def is_wifi_def)
      from s(4) st have n2: "link_node2 (vlinks s ! i) = map_option NodeEnd (ap_of link_up bssid ?m dev)" by blast
      from True st have "ap_known link_up bssid ?m dev" by blast
      with new l n2 i(2) show ?thesis
        by (cases "ap_of link_up bssid ?m dev") (simp_all add: refresh_def link_ok_def node_pos_end)
    qed
    then show ?thesis using s(1) by (auto simp: list_all_iff)
  qed
qed

section \<open>Positions\<close>

text \<open>What the update of the positions does to one node.\<close>

definition placed :: "mobility \<Rightarrow> nat \<Rightarrow> vnode \<Rightarrow> vnode" where
  "placed mob n v =
     (let moving = (case node_mobility v of Some b \<Rightarrow> b | None \<Rightarrow> mob n \<noteq> None); v = v\<lparr>node_mobility := Some moving\<rparr>
      in if moving then (case mob n of None \<Rightarrow> v | Some p \<Rightarrow> v\<lparr>node_at := to_canvas p\<rparr>) else v)"

lemma has_mobility_eq:
  assumes "map_of (vnodes s) n = Some v"
  shows "fst (has_mobility mob n s) = (case node_mobility v of Some b \<Rightarrow> b | None \<Rightarrow> mob n \<noteq> None)"
    "map_of (vnodes (snd (has_mobility mob n s))) m =
       (if m = n then Some (v\<lparr>node_mobility := Some (case node_mobility v of Some b \<Rightarrow> b | None \<Rightarrow> mob n \<noteq> None)\<rparr>)
        else map_of (vnodes s) m)"
  using assms by (auto simp: has_mobility_def with_node_lookup split: option.splits)

lemma update_node_position_lookup:
  assumes "map_of (vnodes s) n = Some v"
  shows "map_of (vnodes (update_node_position mob s n)) m = (if m = n then Some (placed mob n v) else map_of (vnodes s) m)"
proof -
  obtain b t where bt: "has_mobility mob n s = (b, t)" by force
  with has_mobility_eq [OF assms, of mob] show ?thesis
    by (cases "mob n") (auto simp: update_node_position_def placed_def with_node_lookup Let_def)
qed

lemma update_node_position_keys [simp]: "keys (vnodes (update_node_position mob s n)) = keys (vnodes s)"
  using has_mobility_keys [of mob n s]
  by (auto simp: update_node_position_def simp del: has_mobility_keys split: prod.split option.split)

lemma update_node_positions_lookup:
  assumes "wf_dict (vnodes s)"
  shows "map_of (vnodes (update_node_positions mob s)) n = map_option (placed mob n) (map_of (vnodes s) n)"
proof -
  have "map_of (vnodes (foldl (update_node_position mob) s ns)) n =
      (if n \<in> set ns then map_option (placed mob n) (map_of (vnodes s) n) else map_of (vnodes s) n)"
    if "distinct ns" "set ns \<subseteq> set (keys (vnodes s))" for ns
    using that
  proof (induction ns arbitrary: s)
    case (Cons m ns)
    then obtain v where v: "map_of (vnodes s) m = Some v" by (auto dest: weak_map_of_SomeI)
    have "map_of (vnodes (foldl (update_node_position mob) (update_node_position mob s m) ns)) n =
        (if n \<in> set ns then map_option (placed mob n) (map_of (vnodes (update_node_position mob s m)) n)
         else map_of (vnodes (update_node_position mob s m)) n)"
      by (rule Cons.IH) (use Cons.prems in simp_all)
    then show ?case using Cons.prems(1) v update_node_position_lookup [OF v, of mob] by auto
  qed simp
  note all = this
  have keys: "n \<in> set (keys (vnodes s)) \<longleftrightarrow> map_of (vnodes s) n \<noteq> None" by (simp only: map_of_keys not_not)
  show ?thesis unfolding update_node_positions_def
    using all [of "keys (vnodes s)"] assms unfolding keys wf_dict_def by (cases "map_of (vnodes s) n") simp_all
qed

text \<open>
  After an update of the view every node that has not been found without mobility before is where
  the simulator has it, at three pixels for a metre; the others stay where they were.
\<close>

theorem positions_follow:
  assumes "canvas_reachable w" "map_of (vnodes (canvas w)) n = Some v"
  shows "node_pos n (update_node_positions mob (canvas w)) =
    (case mob n of
       Some p \<Rightarrow> if node_mobility v = Some False then node_pos n (canvas w) else (fst p * 3, snd p * 3)
     | None \<Rightarrow> node_pos n (canvas w))"
proof -
  from canvas_reachable_ok [OF assms(1)] have "wf_dict (vnodes (canvas w))" by (simp add: world_ok_def view_ok_def)
  with assms(2) have "node_pos n (update_node_positions mob (canvas w)) = node_at (placed mob n v)"
    "node_pos n (canvas w) = node_at v"
    by (simp_all add: node_pos_def update_node_positions_lookup)
  then show ?thesis
    by (cases "node_mobility v") (auto simp: placed_def Let_def to_canvas_def PIXELS_PER_METER_def split: option.split)
qed

section \<open>Dragging\<close>

lemma node_pos_moved: "end_known (NodeEnd n) s \<Longrightarrow> node_pos n (node_set_position p n s) = p"
  by (auto simp: node_pos_def end_known_def with_node_lookup)

lemma set_position_drag [simp]:
  "node_drag_state (node_set_position p n s) = node_drag_state s" "motion_connected (node_set_position p n s) = motion_connected s"
  by (simp_all add: node_set_position_def Let_def update_all)

lemma drag_motions_known:
  "end_known e (snd w) \<Longrightarrow> end_known e (snd (foldl (\<lambda>w m. node_drag_motion n m w) w mouse))"
proof (induction mouse arbitrary: w)
  case (Cons m mouse)
  then show ?case using drag_grows(3) [of w n m] by (simp add: grows_def)
qed simp

lemma drag_motion_eq:
  "mob n \<noteq> None \<Longrightarrow> node_drag_state s = Some d \<Longrightarrow>
     node_drag_motion n m (mob, s) = (mob(n := Some (dragged d m)), node_set_position (to_canvas (dragged d m)) n s)"
  by (auto simp: node_drag_motion_def Let_def)

lemma dragging_run:
  assumes "node_drag_state s = Some d" "mob n \<noteq> None" "end_known (NodeEnd n) s" "mouse \<noteq> []"
  shows "\<exists>s'. foldl (\<lambda>w m. node_drag_motion n m w) (mob, s) mouse = (mob(n := Some (dragged d (last mouse))), s') \<and>
    node_drag_state s' = Some d \<and> node_pos n s' = to_canvas (dragged d (last mouse)) \<and> motion_connected s' = motion_connected s"
  using assms(4)
proof (induction mouse rule: rev_nonempty_induct)
  case (single m)
  then show ?case
    by (intro exI [of _ "node_set_position (to_canvas (dragged d m)) n s"])
      (simp add: drag_motion_eq [where mob = mob and n = n, OF assms(2,1)] assms(1) node_pos_moved [OF assms(3)] fun_upd_def
        del: node_set_position_fields)
next
  case (snoc m ms)
  then obtain s' where s': "foldl (\<lambda>w m. node_drag_motion n m w) (mob, s) ms = (mob(n := Some (dragged d (last ms))), s')"
    "node_drag_state s' = Some d" "motion_connected s' = motion_connected s"
    by blast
  have known: "end_known (NodeEnd n) s'"
    using drag_motions_known [of "NodeEnd n" "(mob, s)" n ms] assms(3) s'(1) by simp
  have "node_drag_motion n m (mob(n := Some (dragged d (last ms))), s') =
      (mob(n := Some (dragged d m)), node_set_position (to_canvas (dragged d m)) n s')"
    using drag_motion_eq [of "mob(n := Some (dragged d (last ms)))" n s' d m] s'(2) by simp
  with s' show ?case
    by (intro exI [of _ "node_set_position (to_canvas (dragged d m)) n s'"])
      (simp add: node_pos_moved [OF known] fun_upd_def del: node_set_position_fields)
qed

text \<open>
  C37. Dragging a node of the simulator moves it by what the mouse has moved since the button was
  pressed, on the canvas and, a third of it, in the simulator, whatever way the mouse went; when the
  button is released the node stays, and no motion moves it any more.
\<close>

theorem drag_moves_node:
  assumes "mob n = Some (x, y)" "node_drag_state s = None" "end_known (NodeEnd n) s" "mouse \<noteq> []" "last mouse = (mx, my)"
  shows "\<exists>s'. foldl (\<lambda>w m. node_drag_motion n m w) (mob, begin_node_drag mob n (mx0, my0) s) mouse =
      (mob(n := Some (x + (mx - mx0) / 3, y + (my - my0) / 3)), s') \<and>
    node_pos n s' = (3 * x + (mx - mx0), 3 * y + (my - my0)) \<and>
    node_pos n (end_node_drag n s') = node_pos n s' \<and>
    node_drag_motion n m (mob', end_node_drag n s') = (mob', end_node_drag n s') \<and>
    (n \<notin> set (motion_connected s) \<longrightarrow> n \<notin> set (motion_connected (end_node_drag n s')))"
proof -
  let ?d = "\<lparr>drag_canvas0 = (mx0, my0), drag_sim0 = (x, y), drag_signal = n\<rparr>"
  let ?s = "begin_node_drag mob n (mx0, my0) s"
  have "node_drag_state ?s = Some ?d" "mob n \<noteq> None" "end_known (NodeEnd n) ?s" "motion_connected ?s = n # motion_connected s"
    using assms(1-3) by (simp_all add: begin_node_drag_def)
  from dragging_run [where mob = mob and n = n, OF this(1,2,3) assms(4)] this(4) obtain s'
    where "foldl (\<lambda>w m. node_drag_motion n m w) (mob, ?s) mouse = (mob(n := Some (dragged ?d (last mouse))), s')"
      "node_drag_state s' = Some ?d" "node_pos n s' = to_canvas (dragged ?d (last mouse))"
      "motion_connected s' = n # motion_connected s"
    by auto
  moreover have "dragged ?d (mx, my) = (x + (mx - mx0) / 3, y + (my - my0) / 3)"
    "to_canvas (dragged ?d (mx, my)) = (3 * x + (mx - mx0), 3 * y + (my - my0))"
    by (simp_all add: dragged_def to_simulation_def to_canvas_def PIXELS_PER_METER_def field_simps)
  moreover have "node_drag_motion n m (mob', t) = (mob', t)" if "node_drag_state t = None" for t
    using that by (cases "mob' n") (simp_all add: node_drag_motion_def)
  ultimately show ?thesis using assms(5)
    by (intro exI [of _ s']) (simp add: end_node_drag_def node_pos_def)
qed

section \<open>Witnesses\<close>

definition wired_view :: vmodel where
  "wired_view = node_set_position (1, 2) 0 (create_link 0 (NodeEnd 1) (get_node_view 1 (get_node_view 0 (start_canvas 2))))"

definition wired_world :: world where
  "wired_world = \<lparr>sim_mobility = (\<lambda>n. if n = 0 then Some (4, 5) else None), canvas = start_canvas 2,
     wifi = \<lparr>access_points = [], stations = []\<rparr>\<rparr>"

lemma wired_seen: "seen wired_world wired_view"
proof -
  have "seen wired_world (start_canvas 2)"
    using opened [where n_nodes = 2 and cfg = "\<lparr>get_bounds_works = True, bounds_hooks = []\<rparr>"] by (simp add: wired_world_def start_canvas_def)
  then show ?thesis unfolding wired_view_def by (auto intro!: seen_steps simp: get_node_view_known)
qed

theorem links_follow_witness:
  "\<exists>l\<in>set (vlinks wired_view). link_points l = Some ((1, 2), (0, 0)) \<and> node_pos (link_node1 l) wired_view = (1, 2)"
proof -
  let ?l = "vlinks wired_view ! 0"
  have "length (vlinks wired_view) = 1 \<and> link_points ?l = Some ((1, 2), (0, 0)) \<and> link_kind ?l = Wired" by code_simp
  moreover from this have "?l \<in> set (vlinks wired_view)" by (intro nth_mem) simp
  ultimately show ?thesis using links_follow [OF wired_seen, of ?l "(1, 2)" "(0, 0)"] by auto
qed

definition clicked_view :: vmodel where
  "clicked_view = selecting (Some 0) wired_view"

lemma clicked_seen: "seen wired_world clicked_view"
proof -
  have "find_node (NodeIndex 0) wired_view = Inr (Some 0) \<and> selected_node wired_view = None" by code_simp
  then have "select_node (NodeIndex 0) wired_view = Inr clicked_view" by (simp add: select_node_eq clicked_view_def)
  then show ?thesis
    using canvas_step.node_clicked [of "NodeIndex 0" "wired_world\<lparr>canvas := wired_view\<rparr>" clicked_view] wired_seen
    by (auto simp: arg_known_def intro: seen_step)
qed

theorem selection_shown_witness:
  "\<exists>v. map_of (vnodes clicked_view) 0 = Some v \<and> look_line_width (node_shown v) = 9 / 10"
proof -
  have "map_of (vnodes clicked_view) 0 \<noteq> None" by code_simp
  then obtain v where v: "map_of (vnodes clicked_view) 0 = Some v" by blast
  moreover have "selected_node clicked_view = Some 0 \<and> map_option size_of_node (map_of (vnodes clicked_view) 0) = Some 1" by code_simp
  ultimately show ?thesis using selection_shown [OF clicked_seen, of 0 v] by (simp add: PIXELS_PER_METER_def)
qed

theorem positions_follow_witness:
  "node_pos 0 (update_node_positions (\<lambda>n. if n = 0 then Some (4, 5) else None) wired_view) = (12, 15)"
proof -
  have "map_option node_mobility (map_of (vnodes wired_view) 0) = Some None" by code_simp
  then obtain v where "map_of (vnodes wired_view) 0 = Some v" "node_mobility v = None" by auto
  with positions_follow [OF wired_seen, of 0 v "\<lambda>n. if n = 0 then Some (4, 5) else None"] show ?thesis by simp
qed

theorem drag_moves_node_witness:
  "\<exists>s'. foldl (\<lambda>w m. node_drag_motion 0 m w)
      ((\<lambda>_. None)(0 := Some (1, 1)), begin_node_drag ((\<lambda>_. None)(0 := Some (1, 1))) 0 (0, 0) wired_view) [(100, 0), (3, 6)] =
      ((\<lambda>_. None)(0 := Some (2, 3)), s') \<and> node_pos 0 s' = (6, 9)"
proof -
  have "end_known (NodeEnd 0) wired_view" "node_drag_state wired_view = None" by code_simp+
  with drag_moves_node [of "(\<lambda>_. None)(0 := Some (1, 1))" 0 1 1 wired_view "[(100, 0), (3, 6)]" 3 6 0 0 "(0, 0)" "\<lambda>_. None"]
  show ?thesis by auto
qed

definition wifi_devices :: "nat \<Rightarrow> wifi_device list" where
  "wifi_devices n = (if n = 0 then [Station 7] else [AccessPoint ''ap''])"

definition wifi_scan :: "wifi_monitor \<times> vmodel" where
  "wifi_scan = projr (scan_nodes wifi_devices (wifi wired_world, wired_view))"

definition wifi_world :: world where
  "wifi_world = wired_world\<lparr>canvas := snd wifi_scan, wifi := fst wifi_scan\<rparr>"

lemma wifi_reachable: "canvas_reachable wifi_world"
proof -
  have "\<not> isl (scan_nodes wifi_devices (wifi wired_world, wired_view))" by code_simp
  then have "scan_nodes wifi_devices (wifi wired_world, wired_view) = Inr (fst wifi_scan, snd wifi_scan)"
    by (cases "scan_nodes wifi_devices (wifi wired_world, wired_view)") (simp_all add: wifi_scan_def)
  with canvas_step.wifi_scanned [of wifi_devices "wired_world\<lparr>canvas := wired_view\<rparr>" "fst wifi_scan" "snd wifi_scan"]
  show ?thesis unfolding wifi_world_def by (intro canvas_reachable.event [OF wired_seen]) simp
qed

theorem wifi_links_join_witness:
  "\<exists>s. wifi_periodic_update (\<lambda>_. True) (\<lambda>_. ''ap'') (wifi wifi_world) (canvas wifi_world) = Inr s \<and>
     link_points (vlinks (wifi_update_view (wifi wifi_world) s) ! 1) = Some (node_pos 0 s, node_pos 1 s)"
proof -
  let ?r = "wifi_periodic_update (\<lambda>_. True) (\<lambda>_. ''ap'') (wifi wifi_world) (canvas wifi_world)"
  have "\<not> isl ?r" by code_simp
  then obtain s where s: "?r = Inr s" by (cases ?r) simp_all
  have "stations (wifi wifi_world) = [(7, 0, 1)] \<and> ap_of (\<lambda>_. True) (\<lambda>_. ''ap'') (wifi wifi_world) 7 = Some 1" by code_simp
  with wifi_links_join [OF wifi_reachable, of "\<lambda>_. True" "\<lambda>_. ''ap''"] s show ?thesis by (simp add: Let_def)
qed

text \<open>
  A script that narrows the canvas with \<open>set_bounds\<close> leaves nodes outside; and where
  \<open>get_bounds\<close> does not work, so does a node that goes far.
\<close>

lemma nodes_outside:
  assumes "set_canvas_bounds 1 1 2 2 [] = Inr hooks"
  shows "\<exists>w. canvas_reachable w \<and> \<not> on_canvas (node_pos 0 (canvas w)) (canvas_bounds (canvas w))
      \<and> canvas_setup (canvas w) = \<lparr>get_bounds_works = True, bounds_hooks = hooks\<rparr>"
    and "\<exists>w. canvas_reachable w \<and> \<not> on_canvas (node_pos 0 (canvas w)) (canvas_bounds (canvas w))
      \<and> canvas_setup (canvas w) = \<lparr>get_bounds_works = False, bounds_hooks = []\<rparr>"
proof -
  let ?w = "\<lambda>cfg. \<lparr>sim_mobility = \<lambda>_. None, canvas = get_node_view 0 ((start_canvas 1)\<lparr>canvas_setup := cfg\<rparr>),
    wifi = \<lparr>access_points = [], stations = []\<rparr>\<rparr>"
  have reach: "canvas_reachable (?w cfg)" for cfg
  proof -
    let ?v = "\<lparr>sim_mobility = \<lambda>_. None, canvas = (start_canvas 1)\<lparr>canvas_setup := cfg\<rparr>, wifi = \<lparr>access_points = [], stations = []\<rparr>\<rparr>"
    have "canvas_step ?v (?v\<lparr>canvas := get_node_view 0 (canvas ?v)\<rparr>)" by (rule canvas_step.node_wanted)
    then have "canvas_reachable (?v\<lparr>canvas := get_node_view 0 (canvas ?v)\<rparr>)" by (rule canvas_reachable.event [OF opened])
    then show ?thesis by simp
  qed
  from assms have hooks: "hooks = [((1, 1), (2, 2))]" by (simp add: set_canvas_bounds_def assert_that_def)
  let ?b = "\<lparr>get_bounds_works = True, bounds_hooks = hooks\<rparr>"
  have "canvas_reachable ((?w ?b)\<lparr>canvas := run_bounds_hook ((1, 1), (2, 2)) (canvas (?w ?b))\<rparr>)"
    by (rule canvas_reachable.event [OF reach canvas_step.bounds_replaced])
      (simp add: hooks get_node_view_def start_canvas_def)
  moreover have "\<not> on_canvas (node_pos 0 (run_bounds_hook ((1, 1), (2, 2)) (canvas (?w ?b))))
      (canvas_bounds (run_bounds_hook ((1, 1), (2, 2)) (canvas (?w ?b))))"
    by (simp add: get_node_view_def start_canvas_def run_bounds_hook_def node_pos_def new_node_def on_canvas_def
        to_canvas_def PIXELS_PER_METER_def)
  ultimately show "\<exists>w. canvas_reachable w \<and> \<not> on_canvas (node_pos 0 (canvas w)) (canvas_bounds (canvas w))
      \<and> canvas_setup (canvas w) = ?b"
    by (intro exI [of _ "(?w ?b)\<lparr>canvas := run_bounds_hook ((1, 1), (2, 2)) (canvas (?w ?b))\<rparr>"])
      (simp add: run_bounds_hook_def get_node_view_def start_canvas_def)
  let ?c = "\<lparr>get_bounds_works = False, bounds_hooks = []\<rparr>"
  have "canvas_reachable ((?w ?c)\<lparr>canvas := node_set_position (20000, 0) 0 (canvas (?w ?c))\<rparr>)"
    by (rule canvas_reachable.event [OF reach canvas_step.node_placed])
  moreover have "\<not> on_canvas (node_pos 0 (node_set_position (20000, 0) 0 (canvas (?w ?c))))
      (canvas_bounds (node_set_position (20000, 0) 0 (canvas (?w ?c))))"
    by (simp add: node_pos_def with_node_lookup get_node_view_def start_canvas_def on_canvas_def)
  ultimately show "\<exists>w. canvas_reachable w \<and> \<not> on_canvas (node_pos 0 (canvas w)) (canvas_bounds (canvas w))
      \<and> canvas_setup (canvas w) = ?c"
    by (intro exI [of _ "(?w ?c)\<lparr>canvas := node_set_position (20000, 0) 0 (canvas (?w ?c))\<rparr>"])
      (simp add: get_node_view_def start_canvas_def)
qed

end
