(* ===== verification/VizScan.thy ===== *)
theory VizScan
  imports VizCanvas
begin

text \<open>
  src/visualizer/visualizer/core.py: \<open>scan_topology\<close>, which makes the objects of the view from the
  nodes, devices and channels of the simulator, and \<open>autoscale_view\<close>. The layout of graphviz and
  the widgets are parameters.
\<close>

section \<open>The network\<close>

text \<open>
  Of a device count its traits, where \<open>is_wireless\<close> is \<open>None\<close> for a virtual one, and its channel,
  which a device that is not attached yet does not have (\<open>GetChannel()\<close> is \<open>None\<close>);
  of a channel the nodes its devices are on, in the order of the devices.
\<close>

record sim_device =
  is_wireless :: "bool option"
  is_virtual :: bool
  channel_of :: "nat option"

record network =
  node_devices :: "sim_device list list"
  channel_nodes :: "nat \<Rightarrow> nat list"

record layout_graph =
  graph_nodes :: "link_end list"
  graph_edges :: "(link_end \<times> link_end) list"

definition add_node :: "link_end \<Rightarrow> layout_graph \<Rightarrow> layout_graph" where
  "add_node e g = (if e \<in> set (graph_nodes g) then g else g\<lparr>graph_nodes := graph_nodes g @ [e]\<rparr>)"

definition add_edge :: "link_end \<Rightarrow> link_end \<Rightarrow> layout_graph \<Rightarrow> layout_graph" where
  "add_edge a b g = (let g = add_node b (add_node a g) in g\<lparr>graph_edges := graph_edges g @ [(a, b)]\<rparr>)"

section \<open>The scan\<close>

text \<open>
  A device on a channel of more than two gets a link to the node of the channel; any other a link to
  the node of each other device on its channel. A device without a channel ends the scan with an
  \<open>AttributeError\<close>. Nodes without mobility are placed by the layout.
\<close>

definition link_to_channel ::
  "mobility \<Rightarrow> nat \<Rightarrow> nat \<Rightarrow> layout_graph \<times> vmodel \<Rightarrow> layout_graph \<times> vmodel" where
  "link_to_channel mob n c gs =
     (let g = (if mob n = None then add_edge (NodeEnd n) (ChannelEnd c) (fst gs) else fst gs)
      in (g, create_link n (ChannelEnd c) (get_node_view n (get_channel c (snd gs)))))"

definition link_to_node ::
  "mobility \<Rightarrow> nat \<Rightarrow> layout_graph \<times> vmodel \<Rightarrow> nat \<Rightarrow> layout_graph \<times> vmodel" where
  "link_to_node mob n gs other =
     (let s = get_node_view other (snd gs)
      in if other = n then (fst gs, s)
         else let (moving, s) = (if mob n = None then has_mobility mob other s else (True, s));
                  g = (if mob n = None \<and> \<not> moving then add_edge (NodeEnd n) (NodeEnd other) (fst gs) else fst gs)
              in (g, create_link n (NodeEnd other) (get_node_view n s)))"

definition scan_net_device ::
  "network \<Rightarrow> mobility \<Rightarrow> nat \<Rightarrow> layout_graph \<times> vmodel \<Rightarrow> sim_device \<Rightarrow> (layout_graph \<times> vmodel) res" where
  "scan_net_device net mob n gs d =
     (if is_wireless d = Some True \<or> is_virtual d then Inr gs
      else case channel_of d of
             None \<Rightarrow> Inl AttributeError
           | Some c \<Rightarrow> Inr (let ns = channel_nodes net c
                            in if length ns > 2 then link_to_channel mob n c gs else foldl (link_to_node mob n) gs ns))"

definition scan_node ::
  "network \<Rightarrow> mobility \<Rightarrow> node_colour \<Rightarrow> layout_graph \<times> vmodel \<Rightarrow> nat \<Rightarrow> (layout_graph \<times> vmodel) res" where
  "scan_node net mob red gs n =
     (let s = get_node_view n (snd gs);
          gs = (case mob n of
                  None \<Rightarrow> (add_node (NodeEnd n) (fst gs), s)
                | Some p \<Rightarrow> (fst gs, node_set_position (to_canvas p) n (with_node n (set_color red) s)))
      in for_each (scan_net_device net mob n) gs (node_devices net ! n))"

definition place :: "vmodel \<Rightarrow> link_end \<times> (rat \<times> rat) \<Rightarrow> vmodel res" where
  "place s ep =
     (if \<not> end_known (fst ep) s then Inl KeyError
      else Inr (case fst ep of NodeEnd n \<Rightarrow> node_set_position (snd ep) n s | ChannelEnd c \<Rightarrow> channel_set_position (snd ep) c s))"

definition scan_topology ::
  "network \<Rightarrow> mobility \<Rightarrow> node_colour \<Rightarrow> (layout_graph \<Rightarrow> (link_end \<times> (rat \<times> rat)) list) \<Rightarrow> vmodel \<Rightarrow> vmodel res" where
  "scan_topology net mob red layout s =
     and_then (for_each (scan_node net mob red) (\<lparr>graph_nodes = [], graph_edges = []\<rparr>, s) [0..<length (node_devices net)])
       (\<lambda>gs. for_each place (snd gs) (layout (fst gs)))"

section \<open>The links it makes\<close>

definition link_ends :: "vmodel \<Rightarrow> (nat \<times> link_end option) list" where
  "link_ends s = map (\<lambda>l. (link_node1 l, link_node2 l)) (vlinks s)"

definition device_links :: "network \<Rightarrow> nat \<Rightarrow> sim_device \<Rightarrow> (nat \<times> link_end option) list" where
  "device_links net n d =
     (if is_wireless d = Some True \<or> is_virtual d then []
      else case channel_of d of
             None \<Rightarrow> []
           | Some c \<Rightarrow> let ns = channel_nodes net c
                       in if length ns > 2 then [(n, Some (ChannelEnd c))]
                          else map (\<lambda>m. (n, Some (NodeEnd m))) (filter (\<lambda>m. m \<noteq> n) ns))"

definition net_links :: "network \<Rightarrow> (nat \<times> link_end option) list" where
  "net_links net =
     concat (map (\<lambda>n. concat (map (device_links net n) (node_devices net ! n))) [0..<length (node_devices net)])"

lemma link_ends_same: "vlinks s' = vlinks s \<Longrightarrow> link_ends s' = link_ends s"
  by (simp add: link_ends_def)

lemma link_ends_refresh [simp]: "link_ends (foldl update_points s is) = link_ends s"
proof -
  have "map (\<lambda>l. (link_node1 l, link_node2 l)) (refresh_all s is ls) = map (\<lambda>l. (link_node1 l, link_node2 l)) ls" for ls
    by (rule nth_equalityI) (simp_all add: nth_refresh_all)
  then show ?thesis by (simp add: link_ends_def update_all)
qed

lemma link_ends_steps [simp]:
  "link_ends (with_node n f s) = link_ends s" "link_ends (with_channel c g s) = link_ends s"
  "link_ends (get_node_view n s) = link_ends s" "link_ends (get_channel c s) = link_ends s"
  "link_ends (node_set_position p n s) = link_ends s" "link_ends (channel_set_position p c s) = link_ends s"
  "link_ends (create_link n e s) = link_ends s @ [(n, Some e)]" "link_ends (snd (has_mobility mob n s)) = link_ends s"
  "link_ends (s\<lparr>canvas_bounds := b\<rparr>) = link_ends s"
proof -
  show "link_ends (with_node n f s) = link_ends s" for n f s by (rule link_ends_same) simp
  moreover show "link_ends (with_channel c g s) = link_ends s" for c g s by (rule link_ends_same) simp
  moreover show "link_ends (s\<lparr>canvas_bounds := b\<rparr>) = link_ends s" for b s by (rule link_ends_same) simp
  ultimately show "link_ends (node_set_position p n s) = link_ends s" "link_ends (channel_set_position p c s) = link_ends s"
    "link_ends (snd (has_mobility mob n s)) = link_ends s"
    by (simp_all add: node_set_position_def channel_set_position_def has_mobility_def Let_def split: option.split)
  show "link_ends (get_node_view n s) = link_ends s" "link_ends (get_channel c s) = link_ends s"
    by (rule link_ends_same, simp add: get_node_view_def get_channel_def split: option.split)+
  show "link_ends (create_link n e s) = link_ends s @ [(n, Some e)]" by (simp add: link_ends_def create_link_def Let_def)
qed

lemma link_to_node_ends:
  "link_ends (snd (link_to_node mob n gs m)) = link_ends (snd gs) @ (if m = n then [] else [(n, Some (NodeEnd m))])"
proof -
  obtain b t where bt: "has_mobility mob m (get_node_view m (snd gs)) = (b, t)" by force
  have "link_ends (snd (has_mobility mob m (get_node_view m (snd gs)))) = link_ends (snd gs)" by simp
  with bt show ?thesis by (simp add: link_to_node_def Let_def)
qed

lemma link_to_nodes_ends:
  "link_ends (snd (foldl (link_to_node mob n) gs ms)) =
     link_ends (snd gs) @ map (\<lambda>m. (n, Some (NodeEnd m))) (filter (\<lambda>m. m \<noteq> n) ms)"
  by (induction ms arbitrary: gs) (simp_all add: link_to_node_ends)

lemma scan_net_device_ends:
  "scan_net_device net mob n gs d = Inr gs' \<Longrightarrow> link_ends (snd gs') = link_ends (snd gs) @ device_links net n d"
  by (auto simp: scan_net_device_def device_links_def Let_def link_to_nodes_ends link_to_channel_def
      split: if_splits option.splits)

lemma scan_net_devices_ends:
  "for_each (scan_net_device net mob n) gs ds = Inr gs' \<Longrightarrow>
     link_ends (snd gs') = link_ends (snd gs) @ concat (map (device_links net n) ds)"
  by (induction ds arbitrary: gs) (auto simp: and_then_eq_Inr dest!: scan_net_device_ends)

lemma scan_node_ends:
  "scan_node net mob red gs n = Inr gs' \<Longrightarrow>
     link_ends (snd gs') = link_ends (snd gs) @ concat (map (device_links net n) (node_devices net ! n))"
  by (auto simp: scan_node_def Let_def dest!: scan_net_devices_ends split: option.splits)

lemma scan_nodes_ends:
  "for_each (scan_node net mob red) gs ns = Inr gs' \<Longrightarrow>
     link_ends (snd gs') =
       link_ends (snd gs) @ concat (map (\<lambda>n. concat (map (device_links net n) (node_devices net ! n))) ns)"
  by (induction ns arbitrary: gs) (auto simp: and_then_eq_Inr dest!: scan_node_ends)

lemma place_ends: "for_each place s eps = Inr s' \<Longrightarrow> link_ends s' = link_ends s"
  by (induction eps arbitrary: s) (auto simp: place_def and_then_eq_Inr split: if_splits link_end.splits)

section \<open>The scan is made of events\<close>

lemma link_to_node_seen:
  assumes "seen w (snd gs)"
  shows "seen w (snd (link_to_node (sim_mobility w) n gs m))"
proof -
  let ?s = "get_node_view m (snd gs)"
  obtain b t where bt: "has_mobility (sim_mobility w) m ?s = (b, t)" by force
  have s: "seen w ?s" "end_known (NodeEnd m) ?s" using seen_steps(1) [OF assms] by (simp_all add: get_node_view_known)
  have "seen w t" using seen_steps(7) [OF s(1), of m] bt by simp
  moreover have "end_known (NodeEnd m) t" using has_mobility_grows [of ?s "sim_mobility w" m] s(2) bt by (simp add: grows_def)
  ultimately show ?thesis using s bt
    by (auto simp: link_to_node_def Let_def get_node_view_known intro!: seen_steps)
qed

lemma foldl_seen: "(\<And>gs x. seen w (snd gs) \<Longrightarrow> seen w (snd (f gs x))) \<Longrightarrow> seen w (snd gs) \<Longrightarrow> seen w (snd (foldl f gs xs))"
  by (induction xs arbitrary: gs) simp_all

lemma for_each_seen:
  assumes "\<And>gs x gs'. seen w (snd gs) \<Longrightarrow> f gs x = Inr gs' \<Longrightarrow> seen w (snd gs')" "seen w (snd gs)" "for_each f gs xs = Inr gs'"
  shows "seen w (snd gs')"
  using assms(2,3)
proof (induction xs arbitrary: gs)
  case (Cons x xs)
  then obtain gs1 where "f gs x = Inr gs1" "for_each f gs1 xs = Inr gs'" by (auto simp: and_then_eq_Inr)
  then show ?case using Cons.IH assms(1) [OF Cons.prems(1)] by blast
qed simp

lemma scan_net_device_seen:
  "seen w (snd gs) \<Longrightarrow> scan_net_device net (sim_mobility w) n gs d = Inr gs' \<Longrightarrow> seen w (snd gs')"
  by (auto simp: scan_net_device_def link_to_channel_def Let_def get_node_view_known get_channel_known
      intro!: seen_steps foldl_seen link_to_node_seen split: if_splits option.splits)

lemma scan_node_seen:
  assumes "seen w (snd gs)" "scan_node net (sim_mobility w) red gs n = Inr gs'"
  shows "seen w (snd gs')"
proof -
  from assms(2) obtain gs1 where gs1: "for_each (scan_net_device net (sim_mobility w) n) gs1 (node_devices net ! n) = Inr gs'"
    "snd gs1 = (case sim_mobility w n of None \<Rightarrow> get_node_view n (snd gs)
       | Some p \<Rightarrow> node_set_position (to_canvas p) n (with_node n (set_color red) (get_node_view n (snd gs))))"
    by (auto simp: scan_node_def Let_def split: option.splits)
  have "seen w (snd gs1)" using assms(1) by (auto simp: gs1(2) intro!: seen_steps split: option.split)
  from for_each_seen [OF _ this gs1(1)] show ?thesis using scan_net_device_seen by blast
qed

lemma place_seen: "seen w s \<Longrightarrow> for_each place s eps = Inr s' \<Longrightarrow> seen w s'"
  by (induction eps arbitrary: s)
    (auto simp: place_def and_then_eq_Inr intro: seen_steps split: if_splits link_end.splits)

text \<open>
  C21. The links the scan makes are exactly these, in this order: for each device that is neither
  wireless nor virtual, one to its channel when more than two share it, else one to the node of each
  other device (so that two nodes on one channel are joined twice, once from each side). What the scan
  leaves is a state to which all that is said of reachable ones applies.
\<close>

theorem scan_links:
  assumes "canvas_reachable w" "scan_topology net (sim_mobility w) red layout (canvas w) = Inr s"
  shows "link_ends s = link_ends (canvas w) @ net_links net \<and> canvas_reachable (w\<lparr>canvas := s\<rparr>)"
proof -
  from assms(2) obtain gs where gs: "for_each (scan_node net (sim_mobility w) red)
      (\<lparr>graph_nodes = [], graph_edges = []\<rparr>, canvas w) [0..<length (node_devices net)] = Inr gs"
    and s: "for_each place (snd gs) (layout (fst gs)) = Inr s"
    by (auto simp: scan_topology_def and_then_eq_Inr)
  have "seen w (snd gs)" using for_each_seen [OF _ _ gs, of w] scan_node_seen assms(1) by simp
  from place_seen [OF this s] place_ends [OF s] scan_nodes_ends [OF gs] show ?thesis by (simp add: net_links_def)
qed

section \<open>Scaling the view\<close>

text \<open>
  The canvas turns its coordinates into pixels and back at the present zoom; the adjustment of the zoom
  clips what it is set to; \<open>scroll_to\<close> is given the corner that is to be seen.
\<close>

record gtk_canvas =
  to_pixels :: "rat \<Rightarrow> rat \<times> rat \<Rightarrow> rat \<times> rat"
  from_pixels :: "rat \<Rightarrow> rat \<times> rat \<Rightarrow> rat \<times> rat"
  set_zoom :: "rat \<Rightarrow> rat"
  page_size :: "rat \<times> rat"
  page_at :: "rat \<times> rat"

record view_area =
  zoom_of :: rat
  corner :: "rat \<times> rat"

definition autoscale_view :: "gtk_canvas \<Rightarrow> mobility \<Rightarrow> view_area \<times> vmodel \<Rightarrow> view_area \<times> vmodel" where
  "autoscale_view c mob as =
     (let (a, s) = as
      in if vnodes s = [] then (a, s)
         else let s = update_node_positions mob s;
                  xs = set (map (fst \<circ> node_at \<circ> snd) (vnodes s)); ys = set (map (snd \<circ> node_at \<circ> snd) (vnodes s));
                  min_px = to_pixels c (zoom_of a) (Min xs, Min ys); max_px = to_pixels c (zoom_of a) (Max xs, Max ys);
                  new_dx = 3 / 2 * (fst max_px - fst min_px); new_dy = 3 / 2 * (snd max_px - snd min_px)
              in if new_dx = 0 \<or> new_dy = 0 then (a, s)
                 else let z = set_zoom c (min (fst (page_size c) / new_dx) (snd (page_size c) / new_dy));
                          p1 = from_pixels c z (page_at c);
                          p2 = from_pixels c z (fst (page_at c) + fst (page_size c), snd (page_at c) + snd (page_size c))
                      in (\<lparr>zoom_of = z, corner = ((Min xs + Max xs) / 2 - (fst p2 - fst p1) / 2,
                                                  (Min ys + Max ys) / 2 - (snd p2 - snd p1) / 2)\<rparr>, s))"

text \<open>What the canvas documents: pixels are canvas units times the zoom, from some origin.\<close>

definition scales :: "gtk_canvas \<Rightarrow> bool" where
  "scales c \<longleftrightarrow>
     (\<exists>ox oy. \<forall>z p. to_pixels c z p = (z * (fst p - ox), z * (snd p - oy)) \<and>
       (z \<noteq> 0 \<longrightarrow> from_pixels c z p = (fst p / z + ox, snd p / z + oy)))"

lemma in_middle:
  fixes lo hi w x :: rat
  assumes "lo \<le> x" "x \<le> hi" "hi - lo \<le> w"
  shows "(lo + hi) / 2 - w / 2 \<le> x" "x \<le> (lo + hi) / 2 - w / 2 + w"
  using assms by (simp_all add: field_simps)

text \<open>
  When the zoom is one and can be set to what is asked for, or less, the nodes are all in the part
  of the canvas that is seen afterwards.
\<close>

theorem autoscale_fits:
  assumes "scales c" "zoom_of a = 1" "0 < fst (page_size c)" "0 < snd (page_size c)"
    "\<And>z. 0 < z \<Longrightarrow> 0 < set_zoom c z \<and> set_zoom c z \<le> z"
    "autoscale_view c mob (a, s) = (a', s')" "a' \<noteq> a" "(n, v) \<in> set (vnodes s')"
  shows "fst (corner a') \<le> fst (node_at v) \<and> fst (node_at v) \<le> fst (corner a') + fst (page_size c) / zoom_of a' \<and>
    snd (corner a') \<le> snd (node_at v) \<and> snd (node_at v) \<le> snd (corner a') + snd (page_size c) / zoom_of a'"
proof -
  let ?s = "update_node_positions mob s"
  let ?xs = "set (map (fst \<circ> node_at \<circ> snd) (vnodes ?s))" and ?ys = "set (map (snd \<circ> node_at \<circ> snd) (vnodes ?s))"
  let ?dx = "Max ?xs - Min ?xs" and ?dy = "Max ?ys - Min ?ys"
  obtain ox oy where px: "\<And>z p. to_pixels c z p = (z * (fst p - ox), z * (snd p - oy))"
    and up: "\<And>z p. z \<noteq> 0 \<Longrightarrow> from_pixels c z p = (fst p / z + ox, snd p / z + oy)"
    using assms(1) unfolding scales_def by blast
  define z where "z = set_zoom c (min (fst (page_size c) / (3 / 2 * ?dx)) (snd (page_size c) / (3 / 2 * ?dy)))"
  have "vnodes s \<noteq> []" "?dx \<noteq> 0" "?dy \<noteq> 0" and s': "s' = ?s" and a': "zoom_of a' = z"
    "corner a' = ((Min ?xs + Max ?xs) / 2 - (fst (from_pixels c z (fst (page_at c) + fst (page_size c), snd (page_at c) + snd (page_size c))) - fst (from_pixels c z (page_at c))) / 2,
       (Min ?ys + Max ?ys) / 2 - (snd (from_pixels c z (fst (page_at c) + fst (page_size c), snd (page_at c) + snd (page_size c))) - snd (from_pixels c z (page_at c))) / 2)"
    using assms(2,6,7) by (auto simp: autoscale_view_def Let_def px z_def split: if_splits)
  have v: "(n, v) \<in> set (vnodes ?s)" using assms(8) s' by simp
  have x: "fst (node_at v) \<in> ?xs" "snd (node_at v) \<in> ?ys" using v by force+
  have lim: "Min ?xs \<le> fst (node_at v)" "fst (node_at v) \<le> Max ?xs" "Min ?ys \<le> snd (node_at v)" "snd (node_at v) \<le> Max ?ys"
    using x by (intro Min_le Max_ge; simp)+
  with \<open>?dx \<noteq> 0\<close> \<open>?dy \<noteq> 0\<close> have d: "0 < ?dx" "0 < ?dy" by linarith+
  have "0 < min (fst (page_size c) / (3 / 2 * ?dx)) (snd (page_size c) / (3 / 2 * ?dy))" using assms(3,4) d by simp
  from assms(5) [OF this] have z: "0 < z" "z \<le> fst (page_size c) / (3 / 2 * ?dx)" "z \<le> snd (page_size c) / (3 / 2 * ?dy)"
    by (simp_all add: z_def)
  have w: "?dx \<le> fst (page_size c) / z" "?dy \<le> snd (page_size c) / z"
    using z d assms(3,4) by (simp_all add: field_simps)
  have corner: "corner a' = ((Min ?xs + Max ?xs) / 2 - fst (page_size c) / z / 2, (Min ?ys + Max ?ys) / 2 - snd (page_size c) / z / 2)"
    using z(1) by (simp add: a'(2) up add_divide_distrib)
  show ?thesis using in_middle [OF lim(1,2) w(1)] in_middle [OF lim(3,4) w(2)] by (simp add: corner a'(1))
qed

text \<open>
  At another zoom the extent is measured in pixels of that zoom, but the zoom is set as if it were one:
  after a zoom of a half the nodes are shown too large.
\<close>

definition plain_canvas :: gtk_canvas where
  "plain_canvas = \<lparr>to_pixels = (\<lambda>z p. (z * fst p, z * snd p)), from_pixels = (\<lambda>z p. (fst p / z, snd p / z)),
     set_zoom = (\<lambda>z. z), page_size = (600, 450), page_at = (0, 0)\<rparr>"

definition far_nodes :: mobility where
  "far_nodes n = (if n = 0 then Some (0, 0) else if n = 1 then Some (1000, 1000) else None)"

definition two_views :: vmodel where
  "two_views = get_node_view 1 (get_node_view 0 (start_canvas 2))"

lemma autoscale_other_zoom:
  "case autoscale_view plain_canvas far_nodes (\<lparr>zoom_of = 1 / 2, corner = (0, 0)\<rparr>, two_views) of
     (a, s) \<Rightarrow> snd (node_pos 0 s) < snd (corner a)"
  by code_simp

section \<open>Witnesses\<close>

definition two_hosts :: network where
  "two_hosts = \<lparr>node_devices = [[\<lparr>is_wireless = Some False, is_virtual = False, channel_of = Some 5\<rparr>],
       [\<lparr>is_wireless = Some False, is_virtual = False, channel_of = Some 5\<rparr>]],
     channel_nodes = (\<lambda>c. if c = 5 then [0, 1] else [])\<rparr>"

definition fresh_world :: world where
  "fresh_world = \<lparr>sim_mobility = far_nodes, canvas = start_canvas 2, wifi = \<lparr>access_points = [], stations = []\<rparr>\<rparr>"

lemma fresh_reachable: "canvas_reachable fresh_world"
  using opened [where mob = far_nodes and n_nodes = 2 and cfg = "\<lparr>get_bounds_works = True, bounds_hooks = []\<rparr>"] by (simp add: fresh_world_def start_canvas_def)

text \<open>Two nodes on one channel: there are two wires between them.\<close>

theorem scan_links_witness:
  "case scan_topology two_hosts far_nodes (Rgba 0) (\<lambda>_. []) (start_canvas 2) of
     Inl e \<Rightarrow> False | Inr s \<Rightarrow> link_ends s = [(0, Some (NodeEnd 1)), (1, Some (NodeEnd 0))]"
proof -
  have "isl (scan_topology two_hosts far_nodes (Rgba 0) (\<lambda>_. []) (start_canvas 2)) = False" by code_simp
  then obtain s where s: "scan_topology two_hosts far_nodes (Rgba 0) (\<lambda>_. []) (start_canvas 2) = Inr s"
    by (auto simp: isl_def) (metis sum.exhaust)
  have "link_ends (start_canvas 2) @ net_links two_hosts = [(0, Some (NodeEnd 1)), (1, Some (NodeEnd 0))]" by code_simp
  with scan_links [OF fresh_reachable, of two_hosts "Rgba 0" "\<lambda>_. []" s] s show ?thesis by (simp add: fresh_world_def)
qed

theorem autoscale_fits_witness:
  "fst (node_pos 1 (snd (autoscale_view plain_canvas far_nodes (\<lparr>zoom_of = 1, corner = (0, 0)\<rparr>, two_views))))
     \<le> fst (corner (fst (autoscale_view plain_canvas far_nodes (\<lparr>zoom_of = 1, corner = (0, 0)\<rparr>, two_views)))) +
       600 / zoom_of (fst (autoscale_view plain_canvas far_nodes (\<lparr>zoom_of = 1, corner = (0, 0)\<rparr>, two_views)))"
proof -
  let ?r = "autoscale_view plain_canvas far_nodes (\<lparr>zoom_of = 1, corner = (0, 0)\<rparr>, two_views)"
  have sc: "scales plain_canvas" by (auto simp: scales_def plain_canvas_def intro!: exI [of _ 0])
  have ne: "zoom_of (fst ?r) \<noteq> 1" by code_simp
  obtain v where v: "map_of (vnodes (snd ?r)) 1 = Some v"
  proof -
    have "map_of (vnodes (snd ?r)) 1 \<noteq> None" by code_simp
    then show ?thesis using that by blast
  qed
  have pc: "0 < fst (page_size plain_canvas)" "0 < snd (page_size plain_canvas)"
    "\<And>z. 0 < z \<Longrightarrow> 0 < set_zoom plain_canvas z \<and> set_zoom plain_canvas z \<le> z"
    by (simp_all add: plain_canvas_def)
  have r: "?r = (fst ?r, snd ?r)" by simp
  have "fst ?r \<noteq> \<lparr>zoom_of = 1, corner = (0, 0)\<rparr>" using ne by auto
  from autoscale_fits [OF sc _ pc r this map_of_SomeD [OF v]]
  have "fst (node_at v) \<le> fst (corner (fst ?r)) + fst (page_size plain_canvas) / zoom_of (fst ?r)" by simp
  moreover have "node_pos 1 (snd ?r) = node_at v" unfolding node_pos_def v by simp
  moreover have "fst (page_size plain_canvas) = 600" by (simp add: plain_canvas_def)
  ultimately show ?thesis by (simp only:)
qed

end
