(* ===== verification/VizAxes.thy ===== *)
theory VizAxes
  imports VizModel RadStat
begin

text \<open>
  src/visualizer/visualizer/hud.py: the axes at the borders of the view, with a mark and a label at
  every multiple of a power of ten, or of twice or half of one. Numbers are rationals; the logarithm
  and the window in coordinates of the canvas are parameters.
\<close>

section \<open>The length of a division\<close>

definition rint :: "rat \<Rightarrow> int" where
  "rint x = \<lfloor>x + 1 / 2\<rfloor>"

definition power_of_10 :: "int \<Rightarrow> rat" where
  "power_of_10 k = (if 0 \<le> k then 10 ^ nat k else 1 / 10 ^ nat (- k))"

definition division_step :: "(rat \<Rightarrow> rat) \<Rightarrow> rat \<Rightarrow> rat \<Rightarrow> rat \<Rightarrow> rat \<Rightarrow> int \<times> rat \<times> rat \<Rightarrow> nat \<Rightarrow> int \<times> rat \<times> rat" where
  "division_step log10 xi extent text_width dx_over_ndiv s n =
     (let (ndiv, x0, d) = s;
          tbe = log10 dx_over_ndiv;
          d = power_of_10 (rint tbe);
          d = (if \<bar>d / 2 - dx_over_ndiv\<bar> < \<bar>d - dx_over_ndiv\<bar> then d / 2
               else if \<bar>d * 2 - dx_over_ndiv\<bar> < \<bar>d - dx_over_ndiv\<bar> then d * 2 else d);
          x0 = d * of_int \<lceil>xi / d\<rceil> - d;
          ndiv = (if n > 1 then rint (extent / text_width) else ndiv)
      in (ndiv, x0, d))"

definition compute_divisions :: "(rat \<Rightarrow> rat) \<Rightarrow> rat \<Rightarrow> rat \<Rightarrow> (rat \<times> rat) res" where
  "compute_divisions log10 xi xf =
     and_then (assert_that (xf > xi)) (\<lambda>_.
       let dx = xf - xi; ndiv = 5; text_width = dx / of_int ndiv / 2; dx_over_ndiv = dx / of_int ndiv;
           (ndiv, x0, d) = foldl (division_step log10 xi dx text_width dx_over_ndiv) (ndiv, 0, 0) [0..<5]
       in Inr (x0, d))"

text \<open>
  What is relied on of \<open>math.log10\<close>: rounded, it is the exponent of a power of ten that is off by a
  factor of the square root of ten at most, or hardly more because of the rounding of floats.
\<close>

definition near_log10 :: "(rat \<Rightarrow> rat) \<Rightarrow> bool" where
  "near_log10 log10 \<longleftrightarrow> (\<forall>v>0. v\<^sup>2 \<le> 11 * (power_of_10 (rint (log10 v)))\<^sup>2 \<and> (power_of_10 (rint (log10 v)))\<^sup>2 \<le> 11 * v\<^sup>2)"

lemma power_of_10_pos: "0 < power_of_10 k"
  by (simp add: power_of_10_def)

definition chosen_division :: "(rat \<Rightarrow> rat) \<Rightarrow> rat \<Rightarrow> rat" where
  "chosen_division log10 v =
     (let d = power_of_10 (rint (log10 v))
      in if \<bar>d / 2 - v\<bar> < \<bar>d - v\<bar> then d / 2 else if \<bar>d * 2 - v\<bar> < \<bar>d - v\<bar> then d * 2 else d)"

lemma chosen_division_form:
  "\<exists>c\<in>{1 / 2, 1, 2}. chosen_division log10 v = c * power_of_10 (rint (log10 v))"
  by (auto simp: chosen_division_def Let_def)

lemma chosen_division_bounds:
  assumes "near_log10 log10" "0 < v"
  shows "0 < chosen_division log10 v" "3 * chosen_division log10 v \<le> 5 * v" "5 * v \<le> 9 * chosen_division log10 v"
proof -
  define p where "p = power_of_10 (rint (log10 v))"
  have p: "0 < p" by (simp add: p_def power_of_10_pos)
  from assms have near: "v\<^sup>2 \<le> 11 * p\<^sup>2" "p\<^sup>2 \<le> 11 * v\<^sup>2" by (auto simp: near_log10_def p_def)
  show "0 < chosen_division log10 v"
    using p by (simp add: chosen_division_def Let_def flip: p_def)
  have "9 * p\<^sup>2 \<le> 100 * v\<^sup>2" "25 * v\<^sup>2 \<le> 324 * p\<^sup>2"
    using near zero_le_power2 [of v] zero_le_power2 [of p] by linarith+
  then have sq: "(3 * p)\<^sup>2 \<le> (10 * v)\<^sup>2" "(5 * v)\<^sup>2 \<le> (18 * p)\<^sup>2" by (simp_all add: power_mult_distrib)
  from sq have half: "3 * p \<le> 10 * v" and double: "5 * v \<le> 18 * p"
    using power2_le_imp_le [OF sq(1)] power2_le_imp_le [OF sq(2)] p assms(2) by simp_all
  show "3 * chosen_division log10 v \<le> 5 * v" "5 * v \<le> 9 * chosen_division log10 v"
    using half double p assms(2) unfolding chosen_division_def Let_def p_def [symmetric]
    by (auto simp: abs_if split: if_splits)
qed

lemma division_steps:
  "ns \<noteq> [] \<Longrightarrow> snd (foldl (division_step log10 xi extent w v) s ns)
    = (chosen_division log10 v * of_int \<lceil>xi / chosen_division log10 v\<rceil> - chosen_division log10 v, chosen_division log10 v)"
proof (induction ns rule: rev_induct)
  case (snoc n ns)
  show ?case by (simp add: division_step_def chosen_division_def Let_def split: prod.split)
qed simp

lemma compute_divisions_value:
  "compute_divisions log10 xi xf =
     (if xi < xf then let d = chosen_division log10 ((xf - xi) / 5) in Inr (d * of_int \<lceil>xi / d\<rceil> - d, d) else Inl AssertionError)"
  using division_steps [of "[0..<5]" log10 xi "xf - xi" "(xf - xi) / 5 / 2" "(xf - xi) / 5" "(5, 0, 0)"]
  by (auto simp: compute_divisions_def assert_that_def Let_def split: prod.splits)

text \<open>
  The division is one, two or a half times a power of ten; three to nine of them make up the
  interval; and the first mark is the last multiple before it.
\<close>

lemma compute_divisions_fit:
  assumes "near_log10 log10" "xi < xf"
  obtains d where "compute_divisions log10 xi xf = Inr (d * of_int \<lceil>xi / d\<rceil> - d, d)" "0 < d"
    "\<exists>c\<in>{1 / 2, 1, 2}. \<exists>k. d = c * power_of_10 k" "3 * d \<le> xf - xi" "xf - xi \<le> 9 * d"
proof -
  let ?d = "chosen_division log10 ((xf - xi) / 5)"
  have "0 < (xf - xi) / 5" using assms(2) by simp
  note b = chosen_division_bounds [OF assms(1) this]
  show thesis
  proof (rule that [of ?d])
    show "compute_divisions log10 xi xf = Inr (?d * of_int \<lceil>xi / ?d\<rceil> - ?d, ?d)"
      using assms(2) by (simp add: compute_divisions_value Let_def)
    show "\<exists>c\<in>{1 / 2, 1, 2}. \<exists>k. ?d = c * power_of_10 k" using chosen_division_form by blast
  qed (use b in simp_all)
qed

section \<open>Labels and lines\<close>

record axis_label =
  label_value :: rat
  mark_at :: "rat \<times> rat"
  label_font :: int
  label_centred :: bool
  label_shown :: bool

type_synonym segment = "(rat \<times> rat) \<times> (rat \<times> rat)"

record axes =
  axes_visible :: bool
  lines_shown :: bool
  hlines :: "segment list"
  vlines :: "segment list"
  hlines_width :: "rat option"
  vlines_width :: "rat option"
  axis_labels :: "axis_label list"

text \<open>The window: the zoom, if it is known yet, and the corners in coordinates of the canvas.\<close>

record axes_window =
  window_zoom :: "rat option"
  win_left :: rat
  win_top :: rat
  win_right :: rat
  win_bottom :: rat

definition hide_label :: "axis_label \<Rightarrow> axis_label" where
  "hide_label l = l\<lparr>label_shown := False\<rparr>"

definition new_axis_label :: axis_label where
  "new_axis_label = \<lparr>label_value = 0, mark_at = (0, 0), label_font = 0, label_centred = False, label_shown = True\<rparr>"

text \<open>\<open>get_label\<close> takes a label that is not used, or makes one.\<close>

definition get_label :: "axis_label list \<times> axis_label list \<Rightarrow> axis_label \<times> axis_label list" where
  "get_label s =
     (case fst s of [] \<Rightarrow> (new_axis_label, []) | l # unused_labels \<Rightarrow> (l\<lparr>label_shown := True\<rparr>, unused_labels))"

definition place_label :: "rat \<Rightarrow> bool \<Rightarrow> rat \<Rightarrow> rat \<times> rat \<Rightarrow> axis_label list \<times> axis_label list \<Rightarrow> axis_label list \<times> axis_label list" where
  "place_label zoom centred x p s =
     (let (label, unused_labels) = get_label s
      in (unused_labels, snd s @ [label\<lparr>label_font := trunc (12 / zoom), label_value := x,
            label_centred := centred, mark_at := p\<rparr>]))"

text \<open>The loops over the marks of an axis, as functions of where a mark and its label are.\<close>

partial_function (option) mark_loop ::
  "(rat \<Rightarrow> segment) \<Rightarrow> (rat \<Rightarrow> axis_label list \<times> axis_label list \<Rightarrow> axis_label list \<times> axis_label list) \<Rightarrow> rat \<Rightarrow> rat \<Rightarrow> rat
    \<Rightarrow> segment list \<Rightarrow> axis_label list \<times> axis_label list \<Rightarrow> (segment list \<times> (axis_label list \<times> axis_label list)) option" where
  "mark_loop tick label stop d x path s =
     (if x < stop then mark_loop tick label stop d (x + d) (path @ [tick x]) (label x s) else Some (path, s))"

definition update_axes :: "(rat \<Rightarrow> rat) \<Rightarrow> axes_window \<Rightarrow> axes \<Rightarrow> (unit res \<times> axes) option" where
  "update_axes log10 w a =
     (case window_zoom w of
        None \<Rightarrow> Some (Inr (), a)
      | Some zoom \<Rightarrow>
         (let unused_labels = map hide_label (axis_labels a); a = a\<lparr>axis_labels := []\<rparr>
          in if zoom = 0 then Some (Inl ZeroDivisionError, a)
             else
               (let offset = 10 / zoom; x1 = win_left w; y1 = win_top w; x2 = win_right w; y2 = win_bottom w;
                    line_width = 5 / zoom; a = a\<lparr>hlines_width := Some line_width\<rparr>;
                    yc = y2 - line_width / 2; sim_x1 = to_simulation x1; sim_x2 = to_simulation x2
                in case compute_divisions log10 sim_x1 sim_x2 of
                     Inl e \<Rightarrow> Some (Inl e, a)
                   | Inr (x0, xdiv) \<Rightarrow>
                      (case mark_loop (\<lambda>x. ((PIXELS_PER_METER * x, yc - offset), (PIXELS_PER_METER * x, yc)))
                              (\<lambda>x. place_label zoom True x (PIXELS_PER_METER * x, yc - offset))
                              sim_x2 xdiv x0 [((x1, yc), (x2, yc))] (unused_labels, []) of
                         None \<Rightarrow> None
                       | Some (path, s) \<Rightarrow>
                          (let a = a\<lparr>hlines := path, axis_labels := snd s, vlines_width := Some line_width\<rparr>;
                               xc = x1 + line_width / 2; sim_y1 = to_simulation y1; sim_y2 = to_simulation y2
                           in case compute_divisions log10 sim_y1 sim_y2 of
                                Inl e \<Rightarrow> Some (Inl e, a)
                              | Inr (y0, ydiv) \<Rightarrow>
                                 (case mark_loop (\<lambda>y. ((xc, PIXELS_PER_METER * y), (xc + offset, PIXELS_PER_METER * y)))
                                         (\<lambda>y. place_label zoom False y (xc + offset, PIXELS_PER_METER * y))
                                         sim_y2 ydiv y0 [((xc, y1), (xc, y2))] s of
                                    None \<Rightarrow> None
                                  | Some (path, s) \<Rightarrow> Some (Inr (), a\<lparr>vlines := path, axis_labels := snd s @ fst s\<rparr>)))))))"

definition set_axes_visible :: "bool \<Rightarrow> axes \<Rightarrow> axes" where
  "set_axes_visible visible a =
     (if visible then a\<lparr>axes_visible := True, lines_shown := True\<rparr>
      else a\<lparr>axes_visible := False, lines_shown := False, axis_labels := map hide_label (axis_labels a)\<rparr>)"

text \<open>The handler of the scroll bars, and the constructor.\<close>

definition adjustment_changed :: "(rat \<Rightarrow> rat) \<Rightarrow> axes_window \<Rightarrow> axes \<Rightarrow> (unit res \<times> axes) option" where
  "adjustment_changed log10 w a = (if axes_visible a then update_axes log10 w a else Some (Inr (), a))"

definition new_axes :: "(rat \<Rightarrow> rat) \<Rightarrow> axes_window \<Rightarrow> (unit res \<times> axes) option" where
  "new_axes log10 w = update_axes log10 w
     \<lparr>axes_visible = True, lines_shown = True, hlines = [], vlines = [], hlines_width = None, vlines_width = None, axis_labels = []\<rparr>"

section \<open>What the loops do\<close>

definition marks :: "rat \<Rightarrow> rat \<Rightarrow> rat \<Rightarrow> rat list" where
  "marks stop d x = map (\<lambda>k. x + of_nat k * d) [0..<nat \<lceil>(stop - x) / d\<rceil>]"

lemma marks_rec:
  assumes "0 < d"
  shows "marks stop d x = (if x < stop then x # marks stop d (x + d) else [])"
  using float_range_loop_returns [OF assms, of stop x "[]"] float_range_loop_returns [OF assms, of stop "x + d" "[x]"]
  by (simp add: marks_def float_range_loop.simps [of stop d x] split: if_splits)

lemma mark_loop_returns:
  assumes "0 < d"
  shows "mark_loop tick label stop d x path s = Some (path @ map tick (marks stop d x), fold label (marks stop d x) s)"
proof (induction "length (marks stop d x)" arbitrary: x path s)
  case 0
  then have "\<not> x < stop" by (simp add: marks_rec [OF assms, of stop x] split: if_splits)
  then show ?case by (simp add: mark_loop.simps [of tick label stop d x] marks_rec [OF assms, of stop x])
next
  case (Suc n)
  then have lt: "x < stop" by (cases "x < stop") (simp_all add: marks_rec [OF assms, of stop x])
  with Suc(2) have n: "n = length (marks stop d (x + d))" by (simp add: marks_rec [OF assms, of stop x])
  from Suc(1) [OF n] lt show ?case
    by (simp add: mark_loop.simps [of tick label stop d x] marks_rec [OF assms, of stop x])
qed

text \<open>The marks of an axis are the multiples of its division, from the last one before the window on.\<close>

lemma marks_multiples:
  assumes "0 < d"
  shows "marks hi d (d * of_int \<lceil>lo / d\<rceil> - d) = map (\<lambda>k. d * of_int k) [\<lceil>lo / d\<rceil> - 1..\<lceil>hi / d\<rceil> - 1]"
proof -
  have "(hi - (d * of_int \<lceil>lo / d\<rceil> - d)) / d = hi / d - of_int (\<lceil>lo / d\<rceil> - 1)" using assms by (simp add: field_simps)
  then have c: "\<lceil>(hi - (d * of_int \<lceil>lo / d\<rceil> - d)) / d\<rceil> = \<lceil>hi / d\<rceil> - (\<lceil>lo / d\<rceil> - 1)" by (simp only: ceiling_diff_of_int)
  have ends: "map (\<lambda>k. m + int k) [0..<nat (n - m)] = [m..n - 1]" for m n :: int
    by (rule nth_equalityI) auto
  show ?thesis
    unfolding marks_def c ends [of "\<lceil>lo / d\<rceil> - 1" "\<lceil>hi / d\<rceil>", symmetric] by (simp add: algebra_simps)
qed

definition shown_label :: "rat \<Rightarrow> bool \<Rightarrow> rat \<Rightarrow> rat \<times> rat \<Rightarrow> axis_label" where
  "shown_label zoom centred x p =
     \<lparr>label_value = x, mark_at = p, label_font = trunc (12 / zoom), label_centred = centred, label_shown = True\<rparr>"

lemma place_label_value:
  "place_label zoom centred x p (unused, used) = (drop 1 unused, used @ [shown_label zoom centred x p])"
  by (cases unused) (simp_all add: place_label_def get_label_def shown_label_def new_axis_label_def)

lemma place_labels:
  "fold (\<lambda>x. place_label zoom centred x (f x)) xs (unused, used)
    = (drop (length xs) unused, used @ map (\<lambda>x. shown_label zoom centred x (f x)) xs)"
  by (induction xs arbitrary: unused used) (simp_all add: place_label_value)

text \<open>The multiples of one division that an axis from one bound to the other has marks for.\<close>

definition axis_of :: "rat \<Rightarrow> rat \<Rightarrow> rat list \<Rightarrow> bool" where
  "axis_of lo hi xs \<longleftrightarrow> 4 \<le> length xs \<and> length xs \<le> 10 \<and>
     (\<exists>d. (\<exists>c\<in>{1 / 2, 1, 2}. \<exists>k. d = c * power_of_10 k)
       \<and> xs = map (\<lambda>m. d * of_int m) [\<lceil>lo / d\<rceil> - 1..\<lceil>hi / d\<rceil> - 1])"

lemma division_axis:
  assumes "near_log10 log10" "lo < hi"
  obtains x0 d where "compute_divisions log10 lo hi = Inr (x0, d)" "0 < d" "axis_of lo hi (marks hi d x0)"
proof -
  from assms obtain d where d: "compute_divisions log10 lo hi = Inr (d * of_int \<lceil>lo / d\<rceil> - d, d)" "0 < d"
    "\<exists>c\<in>{1 / 2, 1, 2}. \<exists>k. d = c * power_of_10 k" "3 * d \<le> hi - lo" "hi - lo \<le> 9 * d" by (rule compute_divisions_fit)
  have e: "lo / d + of_int n = (lo + of_int n * d) / d" for n using d(2) by (simp add: add_divide_distrib)
  have q: "lo / d + of_int 3 \<le> hi / d" "hi / d \<le> lo / d + of_int 9"
    unfolding e using d(2,4,5) by (auto intro!: divide_right_mono)
  from ceiling_mono [OF q(1)] ceiling_mono [OF q(2)]
  have "\<lceil>lo / d\<rceil> + 3 \<le> \<lceil>hi / d\<rceil>" "\<lceil>hi / d\<rceil> \<le> \<lceil>lo / d\<rceil> + 9" by (simp_all only: ceiling_add_of_int)
  with d(3) have "axis_of lo hi (marks hi d (d * of_int \<lceil>lo / d\<rceil> - d))"
    unfolding axis_of_def marks_multiples [OF d(2)] by (intro conjI exI [of _ d]) simp_all
  with d(1,2) that show thesis by blast
qed

text \<open>
  C40. When the window has an extent, \<open>update_view\<close> returns: the labels shown then are those of the
  multiples of one division for each axis, four to ten of them, each at its place; the labels that
  are not needed any more are hidden, and none is lost.
\<close>
theorem axes_drawn:
  assumes log: "near_log10 log10" and zoom: "window_zoom w = Some z" "0 < z"
    and window: "win_left w < win_right w" "win_top w < win_bottom w"
  shows "\<exists>xs ys a'. update_axes log10 w a = Some (Inr (), a')
    \<and> axis_of (to_simulation (win_left w)) (to_simulation (win_right w)) xs
    \<and> axis_of (to_simulation (win_top w)) (to_simulation (win_bottom w)) ys
    \<and> axis_labels a' =
        map (\<lambda>x. shown_label z True x (PIXELS_PER_METER * x, win_bottom w - 5 / z / 2 - 10 / z)) xs
        @ map (\<lambda>y. shown_label z False y (win_left w + 5 / z / 2 + 10 / z, PIXELS_PER_METER * y)) ys
        @ map hide_label (drop (length xs + length ys) (axis_labels a))
    \<and> length (hlines a') = Suc (length xs) \<and> length (vlines a') = Suc (length ys)"
proof -
  have "to_simulation (win_left w) < to_simulation (win_right w)" "to_simulation (win_top w) < to_simulation (win_bottom w)"
    using window by (simp_all add: to_simulation_def PIXELS_PER_METER_def divide_strict_right_mono)
  from division_axis [OF log this(1)] division_axis [OF log this(2)] obtain x0 xd y0 yd where
    d: "compute_divisions log10 (to_simulation (win_left w)) (to_simulation (win_right w)) = Inr (x0, xd)" "0 < xd"
      "compute_divisions log10 (to_simulation (win_top w)) (to_simulation (win_bottom w)) = Inr (y0, yd)" "0 < yd"
    and axes: "axis_of (to_simulation (win_left w)) (to_simulation (win_right w)) (marks (to_simulation (win_right w)) xd x0)"
      "axis_of (to_simulation (win_top w)) (to_simulation (win_bottom w)) (marks (to_simulation (win_bottom w)) yd y0)"
    by metis
  show ?thesis
    by (rule exI [of _ "marks (to_simulation (win_right w)) xd x0"], rule exI [of _ "marks (to_simulation (win_bottom w)) yd y0"])
      (use zoom d axes in \<open>simp add: update_axes_def Let_def mark_loop_returns place_labels drop_map [symmetric] add.commute\<close>)
qed

text \<open>A logarithm for the examples, which is an integer.\<close>

function exponent_of :: "rat \<Rightarrow> nat" where
  "exponent_of v = (if v \<le> 0 \<or> v\<^sup>2 \<le> 10 then 0 else Suc (exponent_of (v / 10)))"
  by pat_completeness auto

termination
proof (relation "measure (\<lambda>v. nat \<lceil>v\<rceil>)")
  fix v :: rat
  assume "\<not> (v \<le> 0 \<or> v\<^sup>2 \<le> 10)"
  then have v: "0 < v" "10 < v\<^sup>2" by simp_all
  have "3 < v"
  proof (rule ccontr)
    assume "\<not> 3 < v"
    then have "v\<^sup>2 \<le> 3\<^sup>2" using v(1) by (intro power_mono) simp_all
    with v(2) show False by simp
  qed
  then have "v / 10 + 1 \<le> v" by simp
  from ceiling_mono [OF this] have "\<lceil>v / 10\<rceil> + 1 \<le> \<lceil>v\<rceil>" by simp
  moreover have "0 < \<lceil>v\<rceil>" using v(1) by simp
  ultimately show "(v / 10, v) \<in> measure (\<lambda>v. nat \<lceil>v\<rceil>)" by simp
qed simp

declare exponent_of.simps [simp del]

lemma exponent_of_near: "0 < v \<Longrightarrow> 1 \<le> 10 * v\<^sup>2 \<Longrightarrow> v\<^sup>2 \<le> 10 * (10 ^ exponent_of v)\<^sup>2 \<and> (10 ^ exponent_of v)\<^sup>2 \<le> 10 * v\<^sup>2"
proof (induction v rule: exponent_of.induct)
  case (1 v)
  show ?case
  proof (cases "v\<^sup>2 \<le> 10")
    case True
    with 1 show ?thesis by (simp add: exponent_of.simps [of v])
  next
    case False
    with 1 have "(v / 10)\<^sup>2 \<le> 10 * (10 ^ exponent_of (v / 10))\<^sup>2 \<and> (10 ^ exponent_of (v / 10))\<^sup>2 \<le> 10 * (v / 10)\<^sup>2"
      by (intro 1(1)) (simp_all add: power_divide)
    with False 1(2) show ?thesis
      by (simp add: exponent_of.simps [of v] power_divide power_mult_distrib)
  qed
qed

definition some_log10 :: "rat \<Rightarrow> rat" where
  "some_log10 v = (if 1 \<le> v then of_nat (exponent_of v) else - of_nat (exponent_of (1 / v)))"

lemma near_some_log10: "near_log10 some_log10"
  unfolding near_log10_def
proof (intro allI impI)
  fix v :: rat
  assume v: "0 < v"
  have r: "rint (of_nat n) = int n" "rint (- of_nat n) = - int n" for n
    by (simp_all add: rint_def floor_eq_iff)
  show "v\<^sup>2 \<le> 11 * (power_of_10 (rint (some_log10 v)))\<^sup>2 \<and> (power_of_10 (rint (some_log10 v)))\<^sup>2 \<le> 11 * v\<^sup>2"
  proof (cases "1 \<le> v")
    case True
    then have "1 \<le> v\<^sup>2" using power_mono [of 1 v 2] by simp
    then have "1 \<le> 10 * v\<^sup>2" by linarith
    then have p: "power_of_10 (rint (some_log10 v)) = 10 ^ exponent_of v" "1 \<le> 10 * v\<^sup>2"
      using True by (simp_all add: some_log10_def r power_of_10_def)
    show ?thesis
      unfolding p(1) using exponent_of_near [OF v p(2)] zero_le_power2 [of v] zero_le_power2 [of "10 ^ exponent_of v :: rat"]
      by linarith
  next
    case False
    define u and q :: rat where "u = 1 / v" and "q = 10 ^ exponent_of u"
    have uq: "0 < u" "0 < q" "1 \<le> u" using False v by (simp_all add: u_def q_def)
    then have "1 \<le> u\<^sup>2" using power_mono [of 1 u 2] by simp
    then have near: "u\<^sup>2 \<le> 10 * q\<^sup>2 \<and> q\<^sup>2 \<le> 10 * u\<^sup>2" unfolding q_def using exponent_of_near [OF uq(1)] by simp
    have p: "power_of_10 (rint (some_log10 v)) = 1 / q" "v = 1 / u"
      using False by (simp_all add: some_log10_def r power_of_10_def u_def q_def)
    have "(1 / u)\<^sup>2 \<le> 11 * (1 / q)\<^sup>2 \<and> (1 / q)\<^sup>2 \<le> 11 * (1 / u)\<^sup>2"
      using near uq zero_le_power2 [of u] zero_le_power2 [of q] by (simp add: power_divide field_simps)
    with p show ?thesis by metis
  qed
qed

definition sample_window :: axes_window where
  "sample_window = \<lparr>window_zoom = Some 1, win_left = 0, win_top = - 30, win_right = 90, win_bottom = 60\<rparr>"

theorem axes_drawn_witness:
  "\<exists>xs ys a'. update_axes some_log10 sample_window
      \<lparr>axes_visible = True, lines_shown = True, hlines = [], vlines = [], hlines_width = None, vlines_width = None, axis_labels = []\<rparr>
    = Some (Inr (), a') \<and> axis_of 0 30 xs \<and> axis_of (- 10) 20 ys \<and> length (axis_labels a') = length xs + length ys"
proof -
  have "window_zoom sample_window = Some 1" "0 < (1 :: rat)" "win_left sample_window < win_right sample_window"
    "win_top sample_window < win_bottom sample_window" by (simp_all add: sample_window_def)
  from axes_drawn [OF near_some_log10 this, of "\<lparr>axes_visible = True, lines_shown = True, hlines = [], vlines = [],
      hlines_width = None, vlines_width = None, axis_labels = []\<rparr>"]
  show ?thesis by (force simp: sample_window_def to_simulation_def PIXELS_PER_METER_def)
qed

text \<open>Invisible axes show no labels, whatever the scroll bars do meanwhile.\<close>

definition nothing_shown :: "axes \<Rightarrow> bool" where
  "nothing_shown a \<longleftrightarrow> \<not> axes_visible a \<and> \<not> lines_shown a \<and> list_all (\<lambda>l. \<not> label_shown l) (axis_labels a)"

lemma hidden_axes:
  "nothing_shown (set_axes_visible False a)"
  "nothing_shown a \<Longrightarrow> adjustment_changed log10 w a = Some (Inr (), a)"
  by (simp_all add: nothing_shown_def set_axes_visible_def adjustment_changed_def list_all_iff hide_label_def)

text \<open>Made visible again, the axes have their lines but no labels, until a scroll bar moves.\<close>

lemma shown_without_labels:
  "nothing_shown a \<Longrightarrow> lines_shown (set_axes_visible True a)
    \<and> list_all (\<lambda>l. \<not> label_shown l) (axis_labels (set_axes_visible True a))"
  by (simp add: nothing_shown_def set_axes_visible_def)

text \<open>In a window without extent the assertion fails after the labels were hidden, and they are lost.\<close>

lemma empty_window_loses_labels:
  "window_zoom w = Some z \<Longrightarrow> z \<noteq> 0 \<Longrightarrow> win_right w \<le> win_left w \<Longrightarrow>
    \<exists>a'. update_axes log10 w a = Some (Inl AssertionError, a') \<and> axis_labels a' = []"
  by (simp add: update_axes_def compute_divisions_value Let_def to_simulation_def PIXELS_PER_METER_def not_less divide_right_mono)

end
