(* ===== verification/ModuleTemplates.thy ===== *)
theory ModuleTemplates
  imports PyStr
begin

text \<open>
  utils/create-module.py, first part: the templates of the files of a new module and \<open>str.format\<close>,
  which fills them in. Names are ASCII strings.
\<close>

section \<open>Templates\<close>

text \<open>The text of lines, each ended by a newline.\<close>

definition text_of :: "string list \<Rightarrow> string" where
  "text_of ls = concat (map (\<lambda>l. l @ newline) ls)"

definition WSCRIPT_TEMPLATE :: string where
  \<open>WSCRIPT_TEMPLATE = text_of
    [
     ''# -*- Mode: python; py-indent-offset: 4; indent-tabs-mode: nil; coding: utf-8; -*-'',
     '''',
     ''# def options(opt):'',
     ''#     pass'',
     '''',
     ''# def configure(conf):'',
     ''#     conf.check_nonfatal(header_name='stdint.h', define_name='HAVE_STDINT_H')'',
     '''',
     ''def build(bld):'',
     ''    module = bld.create_ns3_module({MODULE!r}, ['core'])'',
     ''    module.source = ['',
     ''        'model/{MODULE}.cc','',
     ''        'helper/{MODULE}-helper.cc','',
     ''        ]'',
     '''',
     ''    module_test = bld.create_ns3_module_test_library('{MODULE}')'',
     ''    module_test.source = ['',
     ''        'test/{MODULE}-test-suite.cc','',
     ''        ]'',
     ''    # Tests encapsulating example programs should be listed here'',
     ''    if (bld.env['ENABLE_EXAMPLES']):'',
     ''        module_test.source.extend(['',
     ''        #    'test/{MODULE}-examples-test-suite.cc','',
     ''             ])'',
     '''',
     ''    headers = bld(features='ns3header')'',
     ''    headers.module = {MODULE!r}'',
     ''    headers.source = ['',
     ''        'model/{MODULE}.h','',
     ''        'helper/{MODULE}-helper.h','',
     ''        ]'',
     '''',
     ''    if bld.env.ENABLE_EXAMPLES:'',
     ''        bld.recurse('examples')'',
     '''',
     ''    # bld.ns3_python_bindings()'',
     '''']\<close>

definition MODEL_CC_TEMPLATE :: string where
  \<open>MODEL_CC_TEMPLATE = text_of
    [
     ''/* -*- Mode:C++; c-file-style:"gnu"; indent-tabs-mode:nil; -*- */'',
     '''',
     ''#include "{MODULE}.h"'',
     '''',
     ''namespace ns3 {{'',
     '''',
     ''/* ... */'',
     '''',
     '''',
     ''}}'',
     '''']\<close>

definition MODEL_H_TEMPLATE :: string where
  \<open>MODEL_H_TEMPLATE = text_of
    [
     ''/* -*- Mode:C++; c-file-style:"gnu"; indent-tabs-mode:nil; -*- */'',
     ''#ifndef {INCLUDE_GUARD}'',
     ''#define {INCLUDE_GUARD}'',
     '''',
     ''namespace ns3 {{'',
     '''',
     ''/* ... */'',
     '''',
     ''}}'',
     '''',
     ''#endif /* {INCLUDE_GUARD} */'',
     '''']\<close>

definition HELPER_CC_TEMPLATE :: string where
  \<open>HELPER_CC_TEMPLATE = text_of
    [
     ''/* -*- Mode:C++; c-file-style:"gnu"; indent-tabs-mode:nil; -*- */'',
     '''',
     ''#include "{MODULE}-helper.h"'',
     '''',
     ''namespace ns3 {{'',
     '''',
     ''/* ... */'',
     '''',
     '''',
     ''}}'',
     '''']\<close>

definition HELPER_H_TEMPLATE :: string where
  \<open>HELPER_H_TEMPLATE = text_of
    [
     ''/* -*- Mode:C++; c-file-style:"gnu"; indent-tabs-mode:nil; -*- */'',
     ''#ifndef {INCLUDE_GUARD}'',
     ''#define {INCLUDE_GUARD}'',
     '''',
     ''#include "ns3/{MODULE}.h"'',
     '''',
     ''namespace ns3 {{'',
     '''',
     ''/* ... */'',
     '''',
     ''}}'',
     '''',
     ''#endif /* {INCLUDE_GUARD} */'',
     '''']\<close>

definition EXAMPLES_WSCRIPT_TEMPLATE :: string where
  \<open>EXAMPLES_WSCRIPT_TEMPLATE = text_of
    [
     ''# -*- Mode: python; py-indent-offset: 4; indent-tabs-mode: nil; coding: utf-8; -*-'',
     '''',
     ''def build(bld):'',
     ''    obj = bld.create_ns3_program('{MODULE}-example', [{MODULE!r}])'',
     ''    obj.source = '{MODULE}-example.cc'' @ [CHR 0x27],
     '''']\<close>

definition EXAMPLE_CC_TEMPLATE :: string where
  \<open>EXAMPLE_CC_TEMPLATE = text_of
    [
     ''/* -*- Mode:C++; c-file-style:"gnu"; indent-tabs-mode:nil; -*- */'',
     '''',
     ''#include "ns3/core-module.h"'',
     ''#include "ns3/{MODULE}-helper.h"'',
     '''',
     ''using namespace ns3;'',
     '''',
     '''',
     ''int '',
     ''main (int argc, char *argv[])'',
     ''{{'',
     ''  bool verbose = true;'',
     '''',
     ''  CommandLine cmd (__FILE__);'',
     ''  cmd.AddValue ("verbose", "Tell application to log if true", verbose);'',
     '''',
     ''  cmd.Parse (argc,argv);'',
     '''',
     ''  /* ... */'',
     '''',
     ''  Simulator::Run ();'',
     ''  Simulator::Destroy ();'',
     ''  return 0;'',
     ''}}'',
     '''',
     '''']\<close>

definition TEST_CC_TEMPLATE :: string where
  \<open>TEST_CC_TEMPLATE = text_of
    [
     ''/* -*- Mode:C++; c-file-style:"gnu"; indent-tabs-mode:nil; -*- */'',
     '''',
     ''// Include a header file from your module to test.'',
     ''#include "ns3/{MODULE}.h"'',
     '''',
     ''// An essential include is test.h'',
     ''#include "ns3/test.h"'',
     '''',
     ''// Do not put your test classes in namespace ns3.  You may find it useful'',
     ''// to use the using directive to access the ns3 namespace directly'',
     ''using namespace ns3;'',
     '''',
     ''// This is an example TestCase.'',
     ''class {CAPITALIZED}TestCase1 : public TestCase'',
     ''{{'',
     ''public:'',
     ''  {CAPITALIZED}TestCase1 ();'',
     ''  virtual ~{CAPITALIZED}TestCase1 ();'',
     '''',
     ''private:'',
     ''  virtual void DoRun (void);'',
     ''}};'',
     '''',
     ''// Add some help text to this case to describe what it is intended to test'',
     ''{CAPITALIZED}TestCase1::{CAPITALIZED}TestCase1 ()'',
     ''  : TestCase ("{CAPITALIZED} test case (does nothing)")'',
     ''{{'',
     ''}}'',
     '''',
     ''// This destructor does nothing but we include it as a reminder that'',
     ''// the test case should clean up after itself'',
     ''{CAPITALIZED}TestCase1::~{CAPITALIZED}TestCase1 ()'',
     ''{{'',
     ''}}'',
     '''',
     ''//'',
     ''// This method is the pure virtual method from class TestCase that every'',
     ''// TestCase must implement'',
     ''//'',
     ''void'',
     ''{CAPITALIZED}TestCase1::DoRun (void)'',
     ''{{'',
     ''  // A wide variety of test macros are available in src/core/test.h'',
     ''  NS_TEST_ASSERT_MSG_EQ (true, true, "true doesn't equal true for some reason");'',
     ''  // Use this one for floating point comparisons'',
     ''  NS_TEST_ASSERT_MSG_EQ_TOL (0.01, 0.01, 0.001, "Numbers are not equal within tolerance");'',
     ''}}'',
     '''',
     ''// The TestSuite class names the TestSuite, identifies what type of TestSuite,'',
     ''// and enables the TestCases to be run.  Typically, only the constructor for'',
     ''// this class must be defined'',
     ''//'',
     ''class {CAPITALIZED}TestSuite : public TestSuite'',
     ''{{'',
     ''public:'',
     ''  {CAPITALIZED}TestSuite ();'',
     ''}};'',
     '''',
     ''{CAPITALIZED}TestSuite::{CAPITALIZED}TestSuite ()'',
     ''  : TestSuite ("{MODULE}", UNIT)'',
     ''{{'',
     ''  // TestDuration for TestCase can be QUICK, EXTENSIVE or TAKES_FOREVER'',
     ''  AddTestCase (new {CAPITALIZED}TestCase1, TestCase::QUICK);'',
     ''}}'',
     '''',
     ''// Do not forget to allocate an instance of this TestSuite'',
     ''static {CAPITALIZED}TestSuite s{COMPOUND}TestSuite;'',
     '''']\<close>

definition DOC_RST_TEMPLATE :: string where
  \<open>DOC_RST_TEMPLATE = text_of
    [
     ''Example Module Documentation'',
     ''----------------------------'',
     '''',
     ''.. include:: replace.txt'',
     ''.. highlight:: cpp'',
     '''',
     ''.. heading hierarchy:'',
     ''   ------------- Chapter'',
     ''   ************* Section (#.#)'',
     ''   ============= Subsection (#.#.#)'',
     ''   ############# Paragraph (no number)'',
     '''',
     ''This is a suggested outline for adding new module documentation to |ns3|.'',
     ''See ``src/click/doc/click.rst`` for an example.'',
     '''',
     ''The introductory paragraph is for describing what this code is trying to'',
     ''model.'',
     '''',
     ''For consistency (italicized formatting), please use |ns3| to refer to'',
     ''ns-3 in the documentation (and likewise, |ns2| for ns-2).  These macros'',
     ''are defined in the file ``replace.txt``.'',
     '''',
     ''Model Description'',
     ''*****************'',
     '''',
     ''The source code for the new module lives in the directory ``{MODULE_DIR}``.'',
     '''',
     ''Add here a basic description of what is being modeled.'',
     '''',
     ''Design'',
     ''======'',
     '''',
     ''Briefly describe the software design of the model and how it fits into '',
     ''the existing ns-3 architecture. '',
     '''',
     ''Scope and Limitations'',
     ''====================='',
     '''',
     ''What can the model do?  What can it not do?  Please use this section to'',
     ''describe the scope and limitations of the model.'',
     '''',
     ''References'',
     ''=========='',
     '''',
     ''Add academic citations here, such as if you published a paper on this'',
     ''model, or if readers should read a particular specification or other work.'',
     '''',
     ''Usage'',
     ''*****'',
     '''',
     ''This section is principally concerned with the usage of your model, using'',
     ''the public API.  Focus first on most common usage patterns, then go'',
     ''into more advanced topics.'',
     '''',
     ''Building New Module'',
     ''==================='',
     '''',
     ''Include this subsection only if there are special build instructions or'',
     ''platform limitations.'',
     '''',
     ''Helpers'',
     ''======='',
     '''',
     ''What helper API will users typically use?  Describe it here.'',
     '''',
     ''Attributes'',
     ''=========='',
     '''',
     ''What classes hold attributes, and what are the key ones worth mentioning?'',
     '''',
     ''Output'',
     ''======'',
     '''',
     ''What kind of data does the model generate?  What are the key trace'',
     ''sources?   What kind of logging output can be enabled?'',
     '''',
     ''Advanced Usage'',
     ''=============='',
     '''',
     ''Go into further details (such as using the API outside of the helpers)'',
     ''in additional sections, as needed.'',
     '''',
     ''Examples'',
     ''========'',
     '''',
     ''What examples using this new code are available?  Describe them here.'',
     '''',
     ''Troubleshooting'',
     ''==============='',
     '''',
     ''Add any tips for avoiding pitfalls, etc.'',
     '''',
     ''Validation'',
     ''**********'',
     '''',
     ''Describe how the model has been tested/validated.  What tests run in the'',
     ''test suite?  How much API and code is covered by the tests?  Again, '',
     ''references to outside published work may help here.'']\<close>

text \<open>
  \<open>repr\<close> of a name, of which no character but the newline needs an escape, and \<open>str.format\<close> for the
  replacement fields of the templates: a name, or a name with the conversion \<open>r\<close>.
\<close>

definition name_repr :: "string \<Rightarrow> string" where
  "name_repr s = [CHR 0x27] @ concat (map (\<lambda>c. if c = CHR 0x0A then [CHR 0x5C, CHR ''n''] else [c]) s) @ [CHR 0x27]"

definition field_value :: "(string, string) dict \<Rightarrow> string \<Rightarrow> string res" where
  "field_value kwargs field =
     (case split1 (CHR ''!'') field of
        [name] \<Rightarrow> dict_get kwargs name
      | [name, conv] \<Rightarrow> and_then (dict_get kwargs name)
          (\<lambda>v. if conv = ''r'' then Inr (name_repr v) else if conv = ''s'' then Inr v else Inl ValueError)
      | _ \<Rightarrow> Inl ValueError)"

lemma rest_shorter: "dropWhile P cs = x # rest \<Longrightarrow> length rest < length cs"
  by (metis length_Cons length_dropWhile_le less_eq_Suc_le)

function format_text :: "string \<Rightarrow> (string, string) dict \<Rightarrow> string res" where
  "format_text [] kwargs = Inr []"
| "format_text (c # cs) kwargs =
     (if c = CHR ''{'' then
        (if startswith cs ''{'' then and_then (format_text (tl cs) kwargs) (\<lambda>r. Inr (c # r))
         else case dropWhile (\<lambda>x. x \<noteq> CHR ''}'') cs of
           [] \<Rightarrow> Inl ValueError
         | _ # rest \<Rightarrow> and_then (field_value kwargs (takeWhile (\<lambda>x. x \<noteq> CHR ''}'') cs))
             (\<lambda>v. and_then (format_text rest kwargs) (\<lambda>r. Inr (v @ r))))
      else if c = CHR ''}'' then
        (if startswith cs ''}'' then and_then (format_text (tl cs) kwargs) (\<lambda>r. Inr (c # r)) else Inl ValueError)
      else and_then (format_text cs kwargs) (\<lambda>r. Inr (c # r)))"
  by pat_completeness auto

termination
  by (relation "measure (length \<circ> fst)") (auto dest: rest_shorter)

text \<open>The fields of a template, if it is well formed.\<close>

function fields_of :: "string \<Rightarrow> string list option" where
  "fields_of [] = Some []"
| "fields_of (c # cs) =
     (if c = CHR ''{'' then
        (if startswith cs ''{'' then fields_of (tl cs)
         else case dropWhile (\<lambda>x. x \<noteq> CHR ''}'') cs of
           [] \<Rightarrow> None
         | _ # rest \<Rightarrow> map_option (\<lambda>fs. takeWhile (\<lambda>x. x \<noteq> CHR ''}'') cs # fs) (fields_of rest))
      else if c = CHR ''}'' then (if startswith cs ''}'' then fields_of (tl cs) else None)
      else fields_of cs)"
  by pat_completeness auto

termination
  by (relation "measure length") (auto dest: rest_shorter)

lemma format_text_fields:
  "(\<exists>s. format_text t kwargs = Inr s) \<longleftrightarrow>
    (\<exists>fs. fields_of t = Some fs \<and> list_all (\<lambda>f. \<exists>v. field_value kwargs f = Inr v) fs)"
proof (induction t rule: fields_of.induct)
  case (2 c cs)
  have bind: "(\<exists>s. and_then m (\<lambda>r. Inr (f r)) = Inr s) \<longleftrightarrow> (\<exists>s. m = Inr s)" for m :: "string res" and f :: "string \<Rightarrow> string"
    by (simp add: res_simps)
  show ?case
  proof (cases "c = CHR ''{''")
    case brace: True
    show ?thesis
    proof (cases "startswith cs ''{''")
      case True
      with brace 2(1) bind show ?thesis by simp
    next
      case False
      show ?thesis
      proof (cases "dropWhile (\<lambda>x. x \<noteq> CHR ''}'') cs")
        case Nil
        with brace False show ?thesis by (simp del: dropWhile_eq_Nil_conv)
      next
        case (Cons x rest)
        let ?f = "takeWhile (\<lambda>x. x \<noteq> CHR ''}'') cs"
        have "(\<exists>s. format_text (c # cs) kwargs = Inr s)
          \<longleftrightarrow> (\<exists>v. field_value kwargs ?f = Inr v) \<and> (\<exists>s. format_text rest kwargs = Inr s)"
          using brace False Cons by (auto simp: and_then_eq_Inr)
        with brace False Cons 2(2) [OF brace False Cons] show ?thesis by (auto simp del: format_text.simps)
      qed
    qed
  next
    case False
    with 2(3,4) bind show ?thesis by (cases "c = CHR ''}''") simp_all
  qed
qed simp

lemma fields_of_append:
  "fields_of a = Some fs \<Longrightarrow> fields_of (a @ b) = map_option ((@) fs) (fields_of b)"
proof (induction a arbitrary: fs rule: fields_of.induct)
  case 1
  then show ?case by (simp add: option.map_ident)
next
  case (2 c cs)
  show ?case
  proof (cases "c = CHR ''{''")
    case brace: True
    show ?thesis
    proof (cases "startswith cs ''{''")
      case True
      with brace 2 show ?thesis by (cases cs) auto
    next
      case False
      show ?thesis
      proof (cases "dropWhile (\<lambda>x. x \<noteq> CHR ''}'') cs")
        case Nil
        with brace False have "fields_of (c # cs) = None" by (simp del: dropWhile_eq_Nil_conv)
        with 2(5) show ?thesis by simp
      next
        case (Cons x rest)
        then have "dropWhile (\<lambda>x. x \<noteq> CHR ''}'') cs \<noteq> []" by (simp only:) simp
        then obtain y where y: "y \<in> set cs" "\<not> y \<noteq> CHR ''}''" unfolding dropWhile_eq_Nil_conv by blast
        note split = takeWhile_append1 [of y cs "\<lambda>x. x \<noteq> CHR ''}''" b, OF y]
          dropWhile_append1 [of y cs "\<lambda>x. x \<noteq> CHR ''}''" b, OF y, unfolded Cons]
        from y have "cs \<noteq> []" by auto
        with False have "\<not> startswith (cs @ b) ''{''" by (cases cs) auto
        with 2(2) [OF brace False Cons] 2(5) brace False Cons split show ?thesis
          by (cases "fields_of b") auto
      qed
    qed
  next
    case False
    with 2 show ?thesis by (cases "c = CHR ''}''"; cases cs; simp split: if_splits)
  qed
qed

text \<open>Templates whose fields are among the given ones.\<close>

definition uses_only :: "string list \<Rightarrow> string \<Rightarrow> bool" where
  "uses_only fs t \<longleftrightarrow> (case fields_of t of None \<Rightarrow> False | Some gs \<Rightarrow> list_all (\<lambda>g. g \<in> set fs) gs)"

lemma uses_only_append: "uses_only fs a \<Longrightarrow> uses_only fs b \<Longrightarrow> uses_only fs (a @ b)"
  by (auto simp: uses_only_def fields_of_append split: option.splits)

lemma uses_only_text: "list_all (uses_only fs) ls \<Longrightarrow> uses_only fs (text_of ls)"
proof (induction ls)
  case (Cons l ls)
  have "uses_only fs newline" by (simp add: uses_only_def newline_def)
  with Cons show ?case by (auto simp: text_of_def intro!: uses_only_append)
qed (simp add: text_of_def uses_only_def)

lemma template_fields:
  "uses_only [''MODULE'', ''MODULE!r''] WSCRIPT_TEMPLATE"
  "uses_only [''MODULE''] MODEL_CC_TEMPLATE"
  "uses_only [''INCLUDE_GUARD''] MODEL_H_TEMPLATE"
  "uses_only [''MODULE''] HELPER_CC_TEMPLATE"
  "uses_only [''MODULE'', ''INCLUDE_GUARD''] HELPER_H_TEMPLATE"
  "uses_only [''MODULE'', ''MODULE!r''] EXAMPLES_WSCRIPT_TEMPLATE"
  "uses_only [''MODULE''] EXAMPLE_CC_TEMPLATE"
  "uses_only [''MODULE'', ''CAPITALIZED'', ''COMPOUND''] TEST_CC_TEMPLATE"
  "uses_only [''MODULE_DIR''] DOC_RST_TEMPLATE"
  unfolding WSCRIPT_TEMPLATE_def MODEL_CC_TEMPLATE_def MODEL_H_TEMPLATE_def HELPER_CC_TEMPLATE_def
    HELPER_H_TEMPLATE_def EXAMPLES_WSCRIPT_TEMPLATE_def EXAMPLE_CC_TEMPLATE_def TEST_CC_TEMPLATE_def DOC_RST_TEMPLATE_def
  by (rule uses_only_text, simp add: uses_only_def)+

lemma format_uses:
  "uses_only fs t \<Longrightarrow> list_all (\<lambda>f. \<exists>v. field_value kwargs f = Inr v) fs \<Longrightarrow> \<exists>s. format_text t kwargs = Inr s"
  unfolding format_text_fields by (force simp: uses_only_def list_all_iff split: option.splits)

end
