(* ===== verification/NewModule.thy ===== *)
theory NewModule
  imports ModuleTemplates PyPath PyCase
begin

text \<open>
  utils/create-module.py, which writes the skeleton of a new module: the file tree with the operations
  of \<open>pathlib\<close> the script uses, the functions that write the files of a module, \<open>make_module\<close>
  with its cleaning up, and \<open>main\<close>. A path is the list of its components below the root of the file
  system. Names are ASCII strings; links do not occur in the tree, and what the script prints is left
  out. The operating system may refuse to look at a path, to make a directory, to open a file or to
  write it, and \<open>shutil.rmtree\<close> may fail half way: where, and what it leaves then, is a parameter.
\<close>

section \<open>The file tree\<close>

type_synonym dir_path = "string list"

datatype tree_node = Directory | Contents string

type_synonym tree = "dir_path \<Rightarrow> tree_node option"

text \<open>
  Calls that the system may refuse. \<open>Stat\<close> is the call behind \<open>exists()\<close> and
  \<open>is_dir()\<close>, which raise \<open>PermissionError\<close> when a directory on the way may not be
  searched; \<open>Restat\<close> is the same call on a module's directory after something went wrong.
\<close>

datatype call_kind = Mkdir | Open | Write | Stat | Restat

type_synonym refusal = "call_kind \<Rightarrow> dir_path \<Rightarrow> bool"

text \<open>
  The system: what it refuses, and for each directory whether \<open>shutil.rmtree\<close> gets through
  (None), or else raises, after it has removed the entries (with all below them) that the
  predicate names.
\<close>

record operating_system =
  sys_refuses :: refusal
  sys_rmtree :: "dir_path \<Rightarrow> (dir_path \<Rightarrow> bool) option"

abbreviation permission_error :: py_error where
  "permission_error \<equiv> OtherException ''PermissionError''"

abbreviation file_not_found :: py_error where
  "file_not_found \<equiv> OtherException ''FileNotFoundError''"

text \<open>\<open>os.mkdir\<close>, \<open>Path.mkdir(parents=True)\<close> and opening a file for writing.\<close>

definition os_mkdir :: "refusal \<Rightarrow> dir_path \<Rightarrow> (tree, unit) act" where
  "os_mkdir refuses p t =
     (case t p of
        Some _ \<Rightarrow> (Inl (OtherException ''FileExistsError''), t)
      | None \<Rightarrow>
         (case t (butlast p) of
            None \<Rightarrow> (Inl file_not_found, t)
          | Some (Contents _) \<Rightarrow> (Inl (OtherException ''NotADirectoryError''), t)
          | Some Directory \<Rightarrow>
             if refuses Mkdir p then (Inl (OtherException ''OSError''), t) else (Inr (), t(p \<mapsto> Directory))))"

definition mkdir_once :: "refusal \<Rightarrow> bool \<Rightarrow> dir_path \<Rightarrow> (tree, unit) act" where
  "mkdir_once refuses exist_ok p t =
     (case os_mkdir refuses p t of
        (Inl e, t') \<Rightarrow> if e = file_not_found \<or> \<not> exist_ok \<or> t' p \<noteq> Some Directory then (Inl e, t') else (Inr (), t')
      | r \<Rightarrow> r)"

function mkdir_parents :: "refusal \<Rightarrow> bool \<Rightarrow> dir_path \<Rightarrow> (tree, unit) act" where
  "mkdir_parents refuses exist_ok p t =
     (if p \<noteq> [] \<and> fst (os_mkdir refuses p t) = Inl file_not_found
      then act_bind (mkdir_parents refuses True (butlast p)) (\<lambda>_. mkdir_once refuses exist_ok p) t
      else mkdir_once refuses exist_ok p t)"
  by pat_completeness auto

termination
  by (relation "measure (\<lambda>(refuses, exist_ok, p, t). length p)") (auto simp: length_greater_0_conv [symmetric] simp del: length_greater_0_conv)

declare mkdir_parents.simps [simp del]

definition open_wt :: "refusal \<Rightarrow> dir_path \<Rightarrow> (tree, unit) act" where
  "open_wt refuses p t =
     (case (t p, t (butlast p)) of
        (Some Directory, _) \<Rightarrow> (Inl (OtherException ''IsADirectoryError''), t)
      | (None, None) \<Rightarrow> (Inl file_not_found, t)
      | (None, Some (Contents _)) \<Rightarrow> (Inl (OtherException ''NotADirectoryError''), t)
      | _ \<Rightarrow> if refuses Open p then (Inl (OtherException ''OSError''), t) else (Inr (), t(p \<mapsto> Contents [])))"

definition write_text :: "refusal \<Rightarrow> dir_path \<Rightarrow> string \<Rightarrow> (tree, unit) act" where
  "write_text refuses p s t =
     (if refuses Write p then (Inl (OtherException ''OSError''), t) else (Inr (), t(p \<mapsto> Contents s)))"

definition rmtree :: "dir_path \<Rightarrow> tree \<Rightarrow> tree" where
  "rmtree p t = (\<lambda>q. if prefix p q then None else t q)"

text \<open>A removal that fails leaves the directory itself, and of its contents some.\<close>

definition rmtree_stopped :: "dir_path \<Rightarrow> (dir_path \<Rightarrow> bool) \<Rightarrow> tree \<Rightarrow> tree" where
  "rmtree_stopped p removed t =
     (\<lambda>q. if list_ex (\<lambda>r. strict_prefix p r \<and> removed r) (prefixes q) then None else t q)"

definition remove_tree :: "operating_system \<Rightarrow> dir_path \<Rightarrow> (tree, unit) act" where
  "remove_tree sys p t =
     (case sys_rmtree sys p of
        None \<Rightarrow> (Inr (), rmtree p t)
      | Some removed \<Rightarrow> (Inl (OtherException ''OSError''), rmtree_stopped p removed t))"

text \<open>\<open>Path.with_suffix\<close> on the last component, and \<open>os.path.relpath\<close>.\<close>

definition with_suffix :: "string \<Rightarrow> string \<Rightarrow> string" where
  "with_suffix name ending =
     (let ext = takeWhile (\<lambda>c. c \<noteq> CHR ''.'') (rev name)
      in if ext = [] \<or> length name \<le> Suc (length ext) then name @ ending
         else take (length name - Suc (length ext)) name @ ending)"

definition relative_to_cwd :: "dir_path \<Rightarrow> dir_path \<Rightarrow> string" where
  "relative_to_cwd cwd p =
     (let i = common_prefix cwd p;
          rel_list = replicate (length cwd - i) ''..'' @ drop i p
      in if rel_list = [] then ''.'' else join ''/'' rel_list)"

section \<open>The files of a module\<close>

definition create_file :: "refusal \<Rightarrow> dir_path \<Rightarrow> string \<Rightarrow> (string, string) dict \<Rightarrow> (tree, unit) act" where
  "create_file refuses path template kwargs =
     act_bind (open_wt refuses path) (\<lambda>_.
     act_bind (from_res (format_text template kwargs)) (\<lambda>s.
       write_text refuses path s))"

definition make_wscript :: "refusal \<Rightarrow> dir_path \<Rightarrow> string \<Rightarrow> (tree, bool) act" where
  "make_wscript refuses moduledir modname =
     act_bind (create_file refuses (moduledir @ [''wscript'']) WSCRIPT_TEMPLATE [(''MODULE'', modname)]) (\<lambda>_. ret True)"

definition include_guard :: "string \<Rightarrow> string \<Rightarrow> string" where
  "include_guard modname ending = upper (map (\<lambda>c. if c = CHR ''-'' then CHR ''_'' else c) modname) @ ending"

definition make_model :: "refusal \<Rightarrow> dir_path \<Rightarrow> string \<Rightarrow> (tree, bool) act" where
  "make_model refuses moduledir modname =
     (let modelpath = moduledir @ [''model'']
      in act_bind (mkdir_parents refuses False modelpath) (\<lambda>_.
         act_bind (create_file refuses (modelpath @ [with_suffix modname ''.cc'']) MODEL_CC_TEMPLATE [(''MODULE'', modname)]) (\<lambda>_.
         act_bind (create_file refuses (modelpath @ [with_suffix modname ''.h'']) MODEL_H_TEMPLATE
           [(''MODULE'', modname), (''INCLUDE_GUARD'', include_guard modname ''_H'')]) (\<lambda>_.
         ret True))))"

text \<open>\<open>str.capitalize\<close>, and a class name and a variable name of the parts of a module's name.\<close>

definition capitalize :: "string \<Rightarrow> string" where
  "capitalize w = upper (take 1 w) @ lower (drop 1 w)"

definition capitalized_name :: "string \<Rightarrow> string" where
  "capitalized_name modname = concat (map capitalize (split_on (CHR ''-'') modname))"

definition compound_name :: "string \<Rightarrow> string" where
  "compound_name modname =
     concat (map (\<lambda>(index, word). if index > 0 then capitalize word else word) (enumerate 0 (split_on (CHR ''-'') modname)))"

definition make_test :: "refusal \<Rightarrow> dir_path \<Rightarrow> string \<Rightarrow> (tree, bool) act" where
  "make_test refuses moduledir modname =
     (let testpath = moduledir @ [''test'']
      in act_bind (mkdir_parents refuses False testpath) (\<lambda>_.
         act_bind (create_file refuses (testpath @ [with_suffix (modname @ ''-test-suite'') ''.cc'']) TEST_CC_TEMPLATE
           [(''MODULE'', modname), (''CAPITALIZED'', capitalized_name modname), (''COMPOUND'', compound_name modname)]) (\<lambda>_.
         ret True)))"

definition make_helper :: "refusal \<Rightarrow> dir_path \<Rightarrow> string \<Rightarrow> (tree, bool) act" where
  "make_helper refuses moduledir modname =
     (let helperpath = moduledir @ [''helper'']
      in act_bind (mkdir_parents refuses False helperpath) (\<lambda>_.
         act_bind (create_file refuses (helperpath @ [with_suffix (modname @ ''-helper'') ''.cc'']) HELPER_CC_TEMPLATE
           [(''MODULE'', modname)]) (\<lambda>_.
         act_bind (create_file refuses (helperpath @ [with_suffix (modname @ ''-helper'') ''.h'']) HELPER_H_TEMPLATE
           [(''MODULE'', modname), (''INCLUDE_GUARD'', include_guard modname ''_HELPER_H'')]) (\<lambda>_.
         ret True))))"

definition make_examples :: "refusal \<Rightarrow> dir_path \<Rightarrow> string \<Rightarrow> (tree, bool) act" where
  "make_examples refuses moduledir modname =
     (let examplespath = moduledir @ [''examples'']
      in act_bind (mkdir_parents refuses False examplespath) (\<lambda>_.
         act_bind (create_file refuses (examplespath @ [''wscript'']) EXAMPLES_WSCRIPT_TEMPLATE [(''MODULE'', modname)]) (\<lambda>_.
         act_bind (create_file refuses (examplespath @ [with_suffix (modname @ ''-example'') ''.cc'']) EXAMPLE_CC_TEMPLATE
           [(''MODULE'', modname)]) (\<lambda>_.
         ret True))))"

definition make_doc :: "refusal \<Rightarrow> dir_path \<Rightarrow> dir_path \<Rightarrow> string \<Rightarrow> (tree, bool) act" where
  "make_doc refuses cwd moduledir modname =
     (let docpath = moduledir @ [''doc'']
      in act_bind (mkdir_parents refuses False docpath) (\<lambda>_.
         act_bind (create_file refuses (docpath @ [modname @ ''.rst'']) DOC_RST_TEMPLATE
           [(''MODULE'', modname), (''MODULE_DIR'', relative_to_cwd cwd moduledir)]) (\<lambda>_.
         ret True)))"

text \<open>
  \<open>all\<close> over calls that are made one after the other: the first one that returns \<open>False\<close> is
  the last. \<open>make_module\<close> removes what it made when anything went wrong; what goes wrong before
  the \<open>try\<close> or in its handler is raised.
\<close>

fun all_calls :: "('s, bool) act list \<Rightarrow> ('s, bool) act" where
  "all_calls [] = ret True"
| "all_calls (c # cs) = act_bind c (\<lambda>ok. if ok then all_calls cs else ret False)"

definition make_artifacts :: "refusal \<Rightarrow> dir_path \<Rightarrow> dir_path \<Rightarrow> string \<Rightarrow> (tree, unit) act" where
  "make_artifacts refuses cwd modulepath modname =
     act_bind (mkdir_parents refuses False modulepath) (\<lambda>_.
     act_bind (all_calls (map (\<lambda>func. func modulepath modname)
       [make_wscript refuses, make_model refuses, make_test refuses,
        make_helper refuses, make_examples refuses, make_doc refuses cwd])) (\<lambda>success.
       if \<not> success then raise_error ValueError else ret ()))"

definition make_module :: "operating_system \<Rightarrow> dir_path \<Rightarrow> dir_path \<times> string \<Rightarrow> (tree, bool) act" where
  "make_module sys cwd module t =
     (let (modpath, modname) = module; modulepath = modpath @ [modname]
      in if sys_refuses sys Stat modulepath then (Inl permission_error, t)
         else if t modulepath \<noteq> None then (Inr False, t)
         else case make_artifacts (sys_refuses sys) cwd modulepath modname t of
           (Inr _, t') \<Rightarrow> (Inr True, t')
         | (Inl _, t') \<Rightarrow>
             if sys_refuses sys Restat modulepath then (Inl permission_error, t')
             else if t' modulepath \<noteq> None then act_bind (remove_tree sys modulepath) (\<lambda>_. ret False) t'
             else (Inr False, t'))"

section \<open>The command line\<close>

text \<open>
  The names that \<open>^(\w|-)+$\<close> matches: letters, digits, underscores and hyphens, and then
  perhaps one newline, before which the dollar sign matches, too.
\<close>

definition name_char :: "char \<Rightarrow> bool" where
  "name_char c \<longleftrightarrow> (let n = of_char c :: nat in
     (48 \<le> n \<and> n \<le> 57) \<or> (65 \<le> n \<and> n \<le> 90) \<or> (97 \<le> n \<and> n \<le> 122) \<or> c = CHR ''_'' \<or> c = CHR ''-'')"

definition allowed_name :: "string \<Rightarrow> bool" where
  "allowed_name s =
     (let body = (if endswith s newline then butlast s else s) in body \<noteq> [] \<and> list_all name_char body)"

text \<open>The parts and the root of a path given as text.\<close>

definition path_root :: "string \<Rightarrow> string" where
  "path_root s = (if startswith s ''//'' \<and> \<not> startswith s ''///'' then ''//''
     else if startswith s ''/'' then ''/'' else [])"

definition path_parts :: "string \<Rightarrow> string list" where
  "path_parts s = filter (\<lambda>c. c \<noteq> [] \<and> c \<noteq> ''.'') (split_on (CHR ''/'') s)"

definition strip_separators :: "string \<Rightarrow> string" where
  "strip_separators s =
     rev (dropWhile (\<lambda>c. c = CHR ''/'') (rev (dropWhile (\<lambda>c. c = CHR ''/'') s)))"

datatype script_end = UsageError | Uncaught py_error

definition parse_project :: "string \<Rightarrow> script_end + dir_path option" where
  "parse_project project =
     (if project = [] then Inr None
      else if path_root project = ''//'' then Inl (Uncaught ValueError)
      else if list_all allowed_name (path_parts project) then Inr (Some (path_parts project))
      else Inl UsageError)"

definition queue_module ::
  "dir_path \<Rightarrow> dir_path option \<Rightarrow> (dir_path \<times> string) list \<Rightarrow> string \<Rightarrow> script_end + (dir_path \<times> string) list" where
  "queue_module cwd project_path modules given =
     (let name = strip_separators given; parts = path_parts name;
          src_path = cwd @ [''src'']; contrib_path = cwd @ [''contrib''];
          finish = (\<lambda>modpath parts.
            (let modpath = (case project_path of None \<Rightarrow> modpath | Some p \<Rightarrow> contrib_path @ p)
             in case parts of
                [] \<Rightarrow> Inl (Uncaught IndexError)
              | modname # _ \<Rightarrow>
                 if \<not> allowed_name modname then Inr modules else Inr (modules @ [(modpath, modname)])))
      in if name = [] then Inr modules
         else if length parts > 2 then Inr modules
         else case parts of
           [] \<Rightarrow> Inl (Uncaught IndexError)
         | first # rest \<Rightarrow>
            if first = ''src'' then
              (if project_path \<noteq> None then Inl UsageError else finish src_path rest)
            else if first = ''contrib'' then finish contrib_path rest
            else finish contrib_path parts)"

fun make_modules :: "operating_system \<Rightarrow> dir_path \<Rightarrow> (dir_path \<times> string) list \<Rightarrow> (tree, bool) act" where
  "make_modules sys cwd modules = all_calls (map (make_module sys cwd) modules)"

definition plan_modules :: "dir_path \<Rightarrow> string \<Rightarrow> string list \<Rightarrow> script_end + (dir_path \<times> string) list" where
  "plan_modules cwd project modnames =
     and_then (parse_project project) (\<lambda>project_path. for_each (queue_module cwd project_path) [] modnames)"

text \<open>\<open>main\<close>, with the exit status of the script: 2 for a wrong command line, 1 for an exception.\<close>

text \<open>The loop over \<open>src\<close> and \<open>contrib\<close>: the exit status, if it ends the script.\<close>

fun check_directories :: "refusal \<Rightarrow> tree \<Rightarrow> dir_path list \<Rightarrow> nat option" where
  "check_directories refuses t [] = None"
| "check_directories refuses t (p # ps) =
     (if refuses Stat p then Some 1
      else if t p \<noteq> Some Directory then Some 2
      else check_directories refuses t ps)"

definition create_main :: "operating_system \<Rightarrow> dir_path \<Rightarrow> string \<Rightarrow> string list \<Rightarrow> (tree, nat) act" where
  "create_main sys cwd project modnames t =
     (case check_directories (sys_refuses sys) t [cwd @ [''src''], cwd @ [''contrib'']] of
        Some s \<Rightarrow> (Inr s, t)
      | None \<Rightarrow>
          (case plan_modules cwd project modnames of
             Inl UsageError \<Rightarrow> (Inr 2, t)
           | Inl (Uncaught e) \<Rightarrow> (Inr 1, t)
           | Inr modules \<Rightarrow>
               (case make_modules sys cwd modules t of
                  (Inl e, t') \<Rightarrow> (Inr 1, t')
                | (Inr _, t') \<Rightarrow> (Inr 0, t'))))"

section \<open>What the operations change\<close>

text \<open>Whatever exists lies in a directory.\<close>

definition wf_tree :: "tree \<Rightarrow> bool" where
  "wf_tree t \<longleftrightarrow> t [] = Some Directory \<and> (\<forall>q. q \<noteq> [] \<longrightarrow> t q \<noteq> None \<longrightarrow> t (butlast q) = Some Directory)"

lemma wf_tree_prefix:
  assumes "wf_tree t" "strict_prefix p q" "t q \<noteq> None"
  shows "t p = Some Directory"
  using assms(2,3)
proof (induction q rule: rev_induct)
  case (snoc x q)
  with assms(1) have "t (butlast (q @ [x])) = Some Directory" unfolding wf_tree_def by blast
  then have d: "t q = Some Directory" by simp
  from snoc.prems(1) have "p = q \<or> strict_prefix p q" by (auto simp: strict_prefix_def)
  with d snoc.IH show ?case by (metis option.distinct(1))
qed simp

lemma not_prefix_butlast: "p \<noteq> [] \<Longrightarrow> \<not> prefix p (butlast p)"
  by (cases p rule: rev_cases) (auto dest: prefix_length_le)

lemma os_mkdir_cases:
  obtains (made) "os_mkdir refuses p t = (Inr (), t(p \<mapsto> Directory))" "t p = None" "t (butlast p) = Some Directory"
  | (failed) e where "os_mkdir refuses p t = (Inl e, t)"
proof -
  have "os_mkdir refuses p t = (Inr (), t(p \<mapsto> Directory)) \<and> t p = None \<and> t (butlast p) = Some Directory
      \<or> (\<exists>e. os_mkdir refuses p t = (Inl e, t))"
    unfolding os_mkdir_def by (simp split: option.splits tree_node.splits if_splits)
  then show thesis using made failed by blast
qed

lemma mkdir_once_cases:
  obtains (made) "mkdir_once refuses b p t = (Inr (), t(p \<mapsto> Directory))" "t p = None" "t (butlast p) = Some Directory"
  | (there) "mkdir_once refuses b p t = (Inr (), t)" "t p = Some Directory" b
  | (failed) e where "mkdir_once refuses b p t = (Inl e, t)"
proof (cases rule: os_mkdir_cases [of refuses p t])
  case made
  then show thesis using that(1) by (simp add: mkdir_once_def)
next
  case (failed e)
  show thesis
  proof (cases "e = file_not_found \<or> \<not> b \<or> t p \<noteq> Some Directory")
    case True
    with failed that(3) show thesis by (auto simp: mkdir_once_def)
  next
    case False
    with failed that(2) show thesis by (simp add: mkdir_once_def)
  qed
qed

text \<open>Making a directory with its parents only adds directories on the way to it.\<close>

lemma mkdir_parents_changes:
  assumes "mkdir_parents refuses b p t = (r, t')"
  shows "(\<forall>q. t' q \<noteq> t q \<longrightarrow> prefix q p \<and> t q = None \<and> t' q = Some Directory)
    \<and> (r = Inr () \<longrightarrow> t' p = Some Directory) \<and> (r \<noteq> Inr () \<longrightarrow> t' p = t p)"
  using assms
proof (induction refuses b p t arbitrary: r t' rule: mkdir_parents.induct)
  case (1 refuses b p t)
  show ?case
  proof (cases "p \<noteq> [] \<and> fst (os_mkdir refuses p t) = Inl file_not_found")
    case False
    with 1(2) have "mkdir_once refuses b p t = (r, t')" by (simp add: mkdir_parents.simps [of refuses b p])
    then show ?thesis by (cases rule: mkdir_once_cases [of refuses b p t]) (auto split: if_splits)
  next
    case True
    obtain r1 t1 where one: "mkdir_parents refuses True (butlast p) t = (r1, t1)" by fastforce
    note IH = 1(1) [OF True one]
    from True have p: "\<not> prefix p (butlast p)" by (simp add: not_prefix_butlast)
    have up: "prefix q p" if "prefix q (butlast p)" for q using that True by (metis prefix_order.trans prefixeq_butlast)
    show ?thesis
    proof (cases r1)
      case (Inl e)
      with 1(2) True one have "r = Inl e" "t' = t1" by (simp_all add: mkdir_parents.simps [of refuses b p] act_simps)
      with IH Inl p up show ?thesis by auto
    next
      case (Inr u)
      with 1(2) True one have "mkdir_once refuses b p t1 = (r, t')"
        by (simp add: mkdir_parents.simps [of refuses b p] act_simps)
      from IH have before: "t1 q \<noteq> t q \<Longrightarrow> prefix q p \<and> t q = None \<and> t1 q = Some Directory" for q
        using up by blast
      from IH p have same: "t1 p = t p" by blast
      from \<open>mkdir_once refuses b p t1 = (r, t')\<close> show ?thesis
      proof (cases rule: mkdir_once_cases [of refuses b p t1])
        case made
        with \<open>mkdir_once refuses b p t1 = (r, t')\<close> have "r = Inr ()" "t' = t1(p \<mapsto> Directory)" by simp_all
        with made(2) same before show ?thesis by auto
      next
        case there
        with \<open>mkdir_once refuses b p t1 = (r, t')\<close> have "r = Inr ()" "t' = t1" by simp_all
        with there(2) before show ?thesis by blast
      next
        case (failed e)
        with \<open>mkdir_once refuses b p t1 = (r, t')\<close> have "r = Inl e" "t' = t1" by simp_all
        with same before show ?thesis by blast
      qed
    qed
  qed
qed

text \<open>Actions that, in an existing directory, only change what is below it.\<close>

definition stays_below :: "dir_path \<Rightarrow> (tree, 'a) act \<Rightarrow> bool" where
  "stays_below p m \<longleftrightarrow> (\<forall>t r t'. t p = Some Directory \<longrightarrow> m t = (r, t') \<longrightarrow> (\<forall>q. t' q \<noteq> t q \<longrightarrow> strict_prefix p q))"

lemma stays_belowD: "stays_below p m \<Longrightarrow> t p = Some Directory \<Longrightarrow> m t = (r, t') \<Longrightarrow> t' q \<noteq> t q \<Longrightarrow> strict_prefix p q"
  unfolding stays_below_def by blast

lemma stays_below_bind [intro]:
  assumes "stays_below p m" "\<And>x. stays_below p (f x)"
  shows "stays_below p (act_bind m f)"
  unfolding stays_below_def
proof (intro allI impI)
  fix t r t' q
  assume t: "t p = Some Directory" and run: "act_bind m f t = (r, t')" and q: "t' q \<noteq> t q"
  obtain r1 t1 where one: "m t = (r1, t1)" by fastforce
  have "t1 p = t p" using stays_belowD [OF assms(1) t one, of p] by auto
  then have t1: "t1 p = Some Directory" using t by simp
  show "strict_prefix p q"
  proof (cases "t1 q = t q")
    case False
    with stays_belowD [OF assms(1) t one] show ?thesis by blast
  next
    case True
    with q run one t1 stays_belowD [OF assms(2)] show ?thesis by (auto simp: act_simps split: sum.splits)
  qed
qed

lemma stays_below_simple [simp]: "stays_below p (ret x)" "stays_below p (raise_error e)" "stays_below p (from_res r)"
  by (simp_all add: stays_below_def act_simps)

lemma stays_below_files:
  "x \<noteq> [] \<Longrightarrow> stays_below p (create_file refuses (p @ x) template kwargs)"
  unfolding create_file_def
  by (intro stays_below_bind stays_below_simple)
    (auto simp: stays_below_def open_wt_def write_text_def strict_prefix_def
      split: option.splits tree_node.splits if_splits)

lemma stays_below_mkdir: "stays_below p (mkdir_parents refuses b (p @ [x]))"
  unfolding stays_below_def
proof (intro allI impI)
  fix t r t' q
  assume t: "t p = Some Directory" and run: "mkdir_parents refuses b (p @ [x]) t = (r, t')" and q: "t' q \<noteq> t q"
  from t have "fst (os_mkdir refuses (p @ [x]) t) \<noteq> Inl file_not_found"
    by (simp add: os_mkdir_def split: option.splits)
  with run have "mkdir_once refuses b (p @ [x]) t = (r, t')" by (simp add: mkdir_parents.simps [of refuses b "p @ [x]"])
  with q show "strict_prefix p q"
    by (cases rule: mkdir_once_cases [of refuses b "p @ [x]" t]) (auto simp: strict_prefix_def split: if_splits)
qed

lemma stays_below_all [intro]: "list_all (stays_below p) cs \<Longrightarrow> stays_below p (all_calls cs)"
  by (induction cs) auto

lemma stays_below_make [simp]:
  "stays_below p (make_wscript refuses p m)" "stays_below p (make_model refuses p m)"
  "stays_below p (make_test refuses p m)" "stays_below p (make_helper refuses p m)"
  "stays_below p (make_examples refuses p m)" "stays_below p (make_doc refuses cwd p m)"
  unfolding make_wscript_def make_model_def make_test_def make_helper_def make_examples_def make_doc_def Let_def append_assoc
  by (intro stays_below_bind stays_below_simple stays_below_mkdir stays_below_files; simp)+

text \<open>Every operation leaves a tree in which whatever exists lies in a directory.\<close>

definition keeps_tree :: "(tree, 'a) act \<Rightarrow> bool" where
  "keeps_tree m \<longleftrightarrow> (\<forall>t r t'. wf_tree t \<longrightarrow> m t = (r, t') \<longrightarrow> wf_tree t')"

lemma keeps_treeD: "keeps_tree m \<Longrightarrow> wf_tree t \<Longrightarrow> m t = (r, t') \<Longrightarrow> wf_tree t'"
  unfolding keeps_tree_def by blast

lemma wf_tree_update:
  assumes "wf_tree t" "t p \<noteq> Some Directory" "t (butlast p) = Some Directory"
  shows "wf_tree (t(p \<mapsto> n))"
proof -
  from assms have p: "p \<noteq> []" by (auto simp: wf_tree_def)
  then have "length (butlast p) < length p" by simp
  then have "butlast p \<noteq> p" by (metis less_irrefl)
  with assms p show ?thesis by (auto simp: wf_tree_def)
qed

lemma keeps_tree_bind [intro]:
  assumes "keeps_tree m" "\<And>x. keeps_tree (f x)"
  shows "keeps_tree (act_bind m f)"
  unfolding keeps_tree_def
proof (intro allI impI)
  fix t r t'
  assume t: "wf_tree t" and run: "act_bind m f t = (r, t')"
  obtain r1 t1 where one: "m t = (r1, t1)" by fastforce
  with assms(1) t have "wf_tree t1" by (rule keeps_treeD)
  with run one keeps_treeD [OF assms(2)] show "wf_tree t'" by (auto simp: act_simps split: sum.splits)
qed

lemma keeps_tree_simple [simp]: "keeps_tree (ret x)" "keeps_tree (raise_error e)" "keeps_tree (from_res r)"
  by (simp_all add: keeps_tree_def act_simps)

lemma keeps_tree_mkdir_once: "keeps_tree (mkdir_once refuses b p)"
  unfolding keeps_tree_def
proof (intro allI impI)
  fix t r t'
  assume "wf_tree t" "mkdir_once refuses b p t = (r, t')"
  then show "wf_tree t'"
    by (cases rule: mkdir_once_cases [of refuses b p t]) (auto intro: wf_tree_update)
qed

lemma keeps_tree_mkdir_run: "wf_tree t \<Longrightarrow> mkdir_parents refuses b p t = (r, t') \<Longrightarrow> wf_tree t'"
proof (induction refuses b p t arbitrary: r t' rule: mkdir_parents.induct)
  case (1 refuses b p t)
  show ?case
  proof (cases "p \<noteq> [] \<and> fst (os_mkdir refuses p t) = Inl file_not_found")
    case False
    with 1(3) have "mkdir_once refuses b p t = (r, t')" by (simp add: mkdir_parents.simps [of refuses b p])
    with keeps_tree_mkdir_once 1(2) show ?thesis by (rule keeps_treeD)
  next
    case True
    obtain r1 t1 where one: "mkdir_parents refuses True (butlast p) t = (r1, t1)" by fastforce
    from 1(1) [OF True 1(2) one] have "wf_tree t1" .
    with 1(3) True one keeps_treeD [OF keeps_tree_mkdir_once] show ?thesis
      by (cases r1) (auto simp: mkdir_parents.simps [of refuses b p] act_simps)
  qed
qed

lemma keeps_tree_mkdir [simp]: "keeps_tree (mkdir_parents refuses b p)"
  using keeps_tree_mkdir_run unfolding keeps_tree_def by blast

lemma open_wt_cases:
  obtains (opened) "open_wt refuses p t = (Inr (), t(p \<mapsto> Contents []))" "t p \<noteq> Some Directory"
      "t p \<noteq> None \<or> t (butlast p) = Some Directory"
  | (failed) e where "open_wt refuses p t = (Inl e, t)"
proof -
  have "open_wt refuses p t = (Inr (), t(p \<mapsto> Contents [])) \<and> t p \<noteq> Some Directory \<and> (t p \<noteq> None \<or> t (butlast p) = Some Directory)
      \<or> (\<exists>e. open_wt refuses p t = (Inl e, t))"
    unfolding open_wt_def by (simp split: option.splits tree_node.splits if_splits)
  then show thesis using opened failed by blast
qed

lemma keeps_tree_file [simp]: "keeps_tree (create_file refuses p template kwargs)"
  unfolding keeps_tree_def
proof (intro allI impI)
  fix t r t'
  assume t: "wf_tree t" and run: "create_file refuses p template kwargs t = (r, t')"
  show "wf_tree t'"
  proof (cases rule: open_wt_cases [of refuses p t])
    case opened
    have p: "p \<noteq> []" using t opened(2) by (auto simp: wf_tree_def)
    have up: "t (butlast p) = Some Directory"
      by (cases "t p") (use opened(3) t p in \<open>auto simp: wf_tree_def\<close>)
    have "t' = t(p \<mapsto> Contents []) \<or> (\<exists>s. t' = t(p \<mapsto> Contents s))"
      using run opened(1) by (auto simp: create_file_def act_simps write_text_def split: sum.splits if_splits)
    with wf_tree_update [OF t opened(2) up] show ?thesis by auto
  next
    case failed
    with t run show ?thesis by (simp add: create_file_def act_simps)
  qed
qed

lemma keeps_tree_all [intro]: "list_all keeps_tree cs \<Longrightarrow> keeps_tree (all_calls cs)"
  by (induction cs) auto

lemma keeps_tree_make [simp]:
  "keeps_tree (make_wscript refuses p m)" "keeps_tree (make_model refuses p m)"
  "keeps_tree (make_test refuses p m)" "keeps_tree (make_helper refuses p m)"
  "keeps_tree (make_examples refuses p m)" "keeps_tree (make_doc refuses cwd p m)"
  unfolding make_wscript_def make_model_def make_test_def make_helper_def make_examples_def make_doc_def Let_def
  by (intro keeps_tree_bind keeps_tree_simple keeps_tree_mkdir keeps_tree_file)+

lemma keeps_tree_artifacts: "keeps_tree (make_artifacts refuses cwd p m)"
  unfolding make_artifacts_def by (intro keeps_tree_bind keeps_tree_all) auto

lemma wf_tree_rmtree: "wf_tree t \<Longrightarrow> p \<noteq> [] \<Longrightarrow> wf_tree (rmtree p t)"
  by (auto simp: wf_tree_def rmtree_def) (metis prefix_order.trans prefixeq_butlast)

lemma stopped_removes:
  "rmtree_stopped p removed t q = None \<or> rmtree_stopped p removed t q = t q"
  "rmtree_stopped p removed t q \<noteq> t q \<Longrightarrow> strict_prefix p q"
  by (auto simp: rmtree_stopped_def list_ex_iff split: if_splits intro: prefix_order.less_le_trans)

lemma wf_tree_stopped:
  assumes "wf_tree t"
  shows "wf_tree (rmtree_stopped p removed t)"
proof -
  have "rmtree_stopped p removed t (butlast q) = Some Directory"
    if q: "q \<noteq> []" "rmtree_stopped p removed t q \<noteq> None" for q
  proof -
    from q have "\<not> list_ex (\<lambda>r. strict_prefix p r \<and> removed r) (prefixes q)" and "t q \<noteq> None"
      by (auto simp: rmtree_stopped_def split: if_splits)
    moreover have "set (prefixes (butlast q)) \<subseteq> set (prefixes q)"
      using prefix_order.trans [OF _ prefixeq_butlast] by (auto simp: in_set_prefixes)
    ultimately have "rmtree_stopped p removed t (butlast q) = t (butlast q)" "t (butlast q) = Some Directory"
      using assms q(1) by (auto simp: rmtree_stopped_def list_ex_iff wf_tree_def)
    then show ?thesis by simp
  qed
  moreover have "rmtree_stopped p removed t [] = Some Directory"
    using assms by (auto simp: rmtree_stopped_def wf_tree_def)
  ultimately show ?thesis by (simp add: wf_tree_def)
qed

section \<open>One module\<close>

lemma make_artifacts_changes:
  assumes run: "make_artifacts refuses cwd p m t = (r, t')" and fresh: "t p = None"
  obtains t0 where "\<And>q. t0 q \<noteq> t q \<Longrightarrow> prefix q p \<and> t q = None \<and> t0 q = Some Directory"
    "t0 p = None \<Longrightarrow> r \<noteq> Inr () \<and> t' = t0" "t0 p \<noteq> None \<Longrightarrow> t' p = Some Directory"
    "\<And>q. t' q \<noteq> t0 q \<Longrightarrow> strict_prefix p q"
proof -
  obtain r0 t0 where dir: "mkdir_parents refuses False p t = (r0, t0)" by fastforce
  note ch = mkdir_parents_changes [OF dir]
  show thesis
  proof (cases r0)
    case (Inl e)
    with run dir have "r = Inl e" "t' = t0" by (simp_all add: make_artifacts_def act_simps)
    with ch Inl fresh show thesis by (intro that [of t0]) auto
  next
    case (Inr u)
    with ch have t0: "t0 p = Some Directory" by simp
    let ?rest = "act_bind (all_calls (map (\<lambda>func. func p m) [make_wscript refuses, make_model refuses,
      make_test refuses, make_helper refuses, make_examples refuses, make_doc refuses cwd]))
      (\<lambda>success. if \<not> success then raise_error ValueError else ret ())"
    from run dir Inr have rest: "?rest t0 = (r, t')" by (simp add: make_artifacts_def act_bind_def)
    have "stays_below p ?rest" by (intro stays_below_bind stays_below_all) auto
    note below = stays_belowD [OF this t0 rest]
    have "t' p = Some Directory" using below [of p] t0 by auto
    with below ch t0 show thesis by (intro that [of t0]) auto
  qed
qed

text \<open>
  The calls on a module's directory whose refusal the script does not handle: they end it, and the
  last two leave what was made of the module.
\<close>

definition hindered :: "operating_system \<Rightarrow> dir_path \<Rightarrow> bool" where
  "hindered sys p \<longleftrightarrow> sys_refuses sys Stat p \<or> sys_refuses sys Restat p \<or> sys_rmtree sys p \<noteq> None"

text \<open>
  Whatever is refused, nothing that existed changes. Unless the cleaning up is hindered, a module
  appears as a whole or not at all.
\<close>

lemma make_module_run:
  assumes wf: "wf_tree t" and run: "make_module sys cwd (modpath, modname) t = (r, t')"
  shows "wf_tree t'
    \<and> (\<forall>q. t' q \<noteq> t q \<longrightarrow> t q = None \<and> (strict_prefix q (modpath @ [modname]) \<and> t' q = Some Directory
        \<or> r \<noteq> Inr False \<and> prefix (modpath @ [modname]) q))
    \<and> (\<forall>e. r = Inl e \<longrightarrow> hindered sys (modpath @ [modname]))
    \<and> (r = Inr True \<longrightarrow> t (modpath @ [modname]) = None \<and> t' (modpath @ [modname]) = Some Directory)
    \<and> (t (modpath @ [modname]) \<noteq> None \<longrightarrow> r \<noteq> Inr True \<and> t' = t)"
proof (cases "sys_refuses sys Stat (modpath @ [modname]) \<or> t (modpath @ [modname]) \<noteq> None")
  case True
  with run wf show ?thesis by (auto simp: make_module_def hindered_def Let_def split: if_splits)
next
  case False
  let ?p = "modpath @ [modname]"
  from False have fresh: "t ?p = None" and look: "\<not> sys_refuses sys Stat ?p" by auto
  obtain r2 t2 where art: "make_artifacts (sys_refuses sys) cwd ?p modname t = (r2, t2)" by fastforce
  from keeps_treeD [OF keeps_tree_artifacts wf art] have wf2: "wf_tree t2" .
  have below: "t q = None" if "prefix ?p q" for q
    using wf_tree_prefix [OF wf, of ?p q] that fresh unfolding strict_prefix_def by (metis option.distinct(1))
  from make_artifacts_changes [OF art fresh] obtain t0 where
    t0: "\<And>q. t0 q \<noteq> t q \<Longrightarrow> prefix q ?p \<and> t q = None \<and> t0 q = Some Directory"
    "t0 ?p = None \<Longrightarrow> r2 \<noteq> Inr () \<and> t2 = t0" "t0 ?p \<noteq> None \<Longrightarrow> t2 ?p = Some Directory"
    "\<And>q. t2 q \<noteq> t0 q \<Longrightarrow> strict_prefix ?p q" by blast
  have ch: "t q = None \<and> (strict_prefix q ?p \<and> t2 q = Some Directory \<or> prefix ?p q)" if "t2 q \<noteq> t q" for q
    using that t0(1,4) below unfolding strict_prefix_def by (metis prefix_order.refl)
  show ?thesis
  proof (cases r2)
    case (Inr u)
    with art run fresh look have "r = Inr True" "t' = t2" by (simp_all add: make_module_def)
    with Inr t0(2,3) wf2 ch fresh show ?thesis by auto
  next
    case (Inl e)
    with art run fresh look have r: "(r, t') =
        (if sys_refuses sys Restat ?p then (Inl permission_error, t2)
         else if t2 ?p \<noteq> None then act_bind (remove_tree sys ?p) (\<lambda>_. ret False) t2
         else (Inr False, t2))"
      by (simp add: make_module_def Let_def)
    consider (restat) "sys_refuses sys Restat ?p" "r = Inl permission_error" "t' = t2"
      | (absent) "t2 ?p = None" "r = Inr False" "t' = t2"
      | (removed) "t2 ?p \<noteq> None" "r = Inr False" "t' = rmtree ?p t2"
      | (stopped) g err where "sys_rmtree sys ?p = Some g" "r = Inl err" "t' = rmtree_stopped ?p g t2"
      using r by (auto simp: remove_tree_def act_simps split: if_splits option.splits)
    then show ?thesis
    proof cases
      case restat
      with wf2 ch fresh show ?thesis by (auto simp: hindered_def)
    next
      case absent
      then have "t0 ?p = None" using t0(3) by fastforce
      with t0(2) have "t2 = t0" by simp
      then have "t q = None \<and> strict_prefix q ?p \<and> t2 q = Some Directory" if q: "t2 q \<noteq> t q" for q
        using t0(1) [of q] q absent(1) fresh unfolding strict_prefix_def by metis
      with absent wf2 fresh show ?thesis by auto
    next
      case removed
      have "t q = None \<and> strict_prefix q ?p \<and> t' q = Some Directory" if "t' q \<noteq> t q" for q
      proof -
        from that below removed(3) have "\<not> prefix ?p q" by (auto simp: rmtree_def)
        with removed(3) that ch show ?thesis by (auto simp: rmtree_def)
      qed
      moreover have "wf_tree t'" using removed(3) wf_tree_rmtree [OF wf2] by simp
      ultimately show ?thesis using removed(2) fresh by auto
    next
      case stopped
      have "t q = None \<and> (strict_prefix q ?p \<and> t' q = Some Directory \<or> prefix ?p q)" if q: "t' q \<noteq> t q" for q
      proof (cases "t' q = t2 q")
        case True
        with q ch [of q] show ?thesis by auto
      next
        case False
        with stopped_removes(2) [of ?p g t2 q] stopped(3) below show ?thesis by (auto simp: strict_prefix_def)
      qed
      moreover have "wf_tree t'" using stopped(3) wf_tree_stopped [OF wf2] by simp
      ultimately show ?thesis using stopped(1,2) fresh by (auto simp: hindered_def)
    qed
  qed
qed

text \<open>
  The specification of a module's files: what is written under which path, and the tree that has
  them in addition, with the directories on the way.
\<close>

definition filled :: "string \<Rightarrow> (string, string) dict \<Rightarrow> tree_node" where
  "filled template kwargs = (case format_text template kwargs of Inr s \<Rightarrow> Contents s | Inl _ \<Rightarrow> Contents [])"

definition scaffold :: "dir_path \<Rightarrow> dir_path \<Rightarrow> string \<Rightarrow> (dir_path \<times> tree_node) list" where
  "scaffold cwd p m =
     map (\<lambda>(q, n). (p @ q, n))
      [([''wscript''], filled WSCRIPT_TEMPLATE [(''MODULE'', m)]),
       ([''model''], Directory),
       ([''model'', m @ ''.cc''], filled MODEL_CC_TEMPLATE [(''MODULE'', m)]),
       ([''model'', m @ ''.h''], filled MODEL_H_TEMPLATE [(''MODULE'', m), (''INCLUDE_GUARD'', include_guard m ''_H'')]),
       ([''test''], Directory),
       ([''test'', m @ ''-test-suite.cc''], filled TEST_CC_TEMPLATE
          [(''MODULE'', m), (''CAPITALIZED'', capitalized_name m), (''COMPOUND'', compound_name m)]),
       ([''helper''], Directory),
       ([''helper'', m @ ''-helper.cc''], filled HELPER_CC_TEMPLATE [(''MODULE'', m)]),
       ([''helper'', m @ ''-helper.h''], filled HELPER_H_TEMPLATE
          [(''MODULE'', m), (''INCLUDE_GUARD'', include_guard m ''_HELPER_H'')]),
       ([''examples''], Directory),
       ([''examples'', ''wscript''], filled EXAMPLES_WSCRIPT_TEMPLATE [(''MODULE'', m)]),
       ([''examples'', m @ ''-example.cc''], filled EXAMPLE_CC_TEMPLATE [(''MODULE'', m)]),
       ([''doc''], Directory),
       ([''doc'', m @ ''.rst''], filled DOC_RST_TEMPLATE [(''MODULE'', m), (''MODULE_DIR'', relative_to_cwd cwd p)])]"

definition with_parents :: "dir_path \<Rightarrow> tree \<Rightarrow> tree" where
  "with_parents p t = (\<lambda>q. if prefix q p then Some Directory else t q)"

definition with_module :: "dir_path \<Rightarrow> dir_path \<times> string \<Rightarrow> tree \<Rightarrow> tree" where
  "with_module cwd module t =
     (let p = fst module @ [snd module]
      in foldl (\<lambda>t (q, n). t(q \<mapsto> n)) (with_parents p t) (scaffold cwd p (snd module)))"

lemma with_suffix_plain: "CHR ''.'' \<notin> set name \<Longrightarrow> with_suffix name ending = name @ ending"
proof -
  assume "CHR ''.'' \<notin> set name"
  then have w: "takeWhile (\<lambda>c. c \<noteq> CHR ''.'') (rev name) = rev name" by (auto simp: takeWhile_eq_all_conv)
  show ?thesis unfolding with_suffix_def Let_def w by simp
qed

lemma field_value_simps [simp]:
  "field_value kwargs ''MODULE'' = dict_get kwargs ''MODULE''"
  "field_value kwargs ''MODULE_DIR'' = dict_get kwargs ''MODULE_DIR''"
  "field_value kwargs ''INCLUDE_GUARD'' = dict_get kwargs ''INCLUDE_GUARD''"
  "field_value kwargs ''CAPITALIZED'' = dict_get kwargs ''CAPITALIZED''"
  "field_value kwargs ''COMPOUND'' = dict_get kwargs ''COMPOUND''"
  "field_value kwargs ''MODULE!r'' = and_then (dict_get kwargs ''MODULE'') (\<lambda>v. Inr (name_repr v))"
  by (simp_all add: field_value_def split1_def)

text \<open>Every template is filled in: no field is missing and no brace unbalanced.\<close>

lemma templates_fill:
  "\<exists>s. format_text WSCRIPT_TEMPLATE [(''MODULE'', m)] = Inr s"
  "\<exists>s. format_text MODEL_CC_TEMPLATE [(''MODULE'', m)] = Inr s"
  "\<exists>s. format_text MODEL_H_TEMPLATE [(''MODULE'', m), (''INCLUDE_GUARD'', g)] = Inr s"
  "\<exists>s. format_text HELPER_CC_TEMPLATE [(''MODULE'', m)] = Inr s"
  "\<exists>s. format_text HELPER_H_TEMPLATE [(''MODULE'', m), (''INCLUDE_GUARD'', g)] = Inr s"
  "\<exists>s. format_text EXAMPLES_WSCRIPT_TEMPLATE [(''MODULE'', m)] = Inr s"
  "\<exists>s. format_text EXAMPLE_CC_TEMPLATE [(''MODULE'', m)] = Inr s"
  "\<exists>s. format_text TEST_CC_TEMPLATE [(''MODULE'', m), (''CAPITALIZED'', c), (''COMPOUND'', d)] = Inr s"
  "\<exists>s. format_text DOC_RST_TEMPLATE [(''MODULE'', m), (''MODULE_DIR'', p)] = Inr s"
  by (rule format_uses, rule template_fields, simp add: dict_get_def)+

definition no_refusal :: refusal where
  "no_refusal = (\<lambda>_ _. False)"

definition willing :: operating_system where
  "willing = \<lparr>sys_refuses = no_refusal, sys_rmtree = (\<lambda>_. None)\<rparr>"

lemma no_refusal_simp [simp]: "no_refusal k p \<longleftrightarrow> False"
  by (simp add: no_refusal_def)

lemma willing_simps [simp]: "sys_refuses willing = no_refusal" "sys_rmtree willing p = None"
  by (simp_all add: willing_def)

lemma create_file_fills:
  assumes "\<exists>s. format_text template kwargs = Inr s" "t p \<noteq> Some Directory" "t (butlast p) = Some Directory"
  shows "create_file no_refusal p template kwargs t = (Inr (), t(p \<mapsto> filled template kwargs))"
proof -
  from assms have "open_wt no_refusal p t = (Inr (), t(p \<mapsto> Contents []))"
    by (auto simp: open_wt_def split: option.splits tree_node.splits)
  with assms(1) show ?thesis
    by (auto simp: create_file_def act_simps write_text_def filled_def)
qed

lemma mkdir_single:
  assumes "t (p @ [x]) = None" "t p = Some Directory"
  shows "mkdir_parents no_refusal b (p @ [x]) t = (Inr (), t(p @ [x] \<mapsto> Directory))"
  using assms by (simp add: mkdir_parents.simps [of no_refusal b "p @ [x]"] mkdir_once_def os_mkdir_def)

lemma with_parents_there: "wf_tree t \<Longrightarrow> t p = Some Directory \<Longrightarrow> with_parents p t = t"
proof
  fix q
  assume "wf_tree t" "t p = Some Directory"
  with wf_tree_prefix [of t q p] show "with_parents p t q = t q"
    by (cases "q = p") (auto simp: with_parents_def strict_prefix_def)
qed

lemma mkdir_with_parents:
  assumes "\<forall>q. prefix q p \<longrightarrow> t q = None \<or> t q = Some Directory" "t [] = Some Directory" "wf_tree t" "b \<or> t p = None"
  shows "mkdir_parents no_refusal b p t = (Inr (), with_parents p t)"
  using assms
proof (induction no_refusal b p t rule: mkdir_parents.induct)
  case (1 b p t)
  show ?case
  proof (cases "t p")
    case (Some n)
    with 1(2) have "t p = Some Directory" by auto
    with 1(5) with_parents_there [OF 1(4)] show ?thesis
      by (simp add: mkdir_parents.simps [of no_refusal True p] os_mkdir_def mkdir_once_def)
  next
    case None
    with 1(3) have p: "p \<noteq> []" by auto
    then have up: "prefix (butlast p) p" "\<not> prefix p (butlast p)"
      by (simp_all add: prefixeq_butlast not_prefix_butlast)
    have wpp: "(with_parents (butlast p) t)(p \<mapsto> Directory) = with_parents p t"
      using p by (cases p rule: rev_cases) (auto simp: with_parents_def fun_eq_iff)
    show ?thesis
    proof (cases "t (butlast p)")
      case (Some n)
      with 1(2) up have d: "t (butlast p) = Some Directory" by auto
      with with_parents_there [OF 1(4)] d None wpp show ?thesis
        by (simp add: mkdir_parents.simps [of no_refusal _ p] os_mkdir_def mkdir_once_def)
    next
      case up_None: None
      have "fst (os_mkdir no_refusal p t) = Inl file_not_found" using None up_None by (simp add: os_mkdir_def)
      with p have c: "p \<noteq> [] \<and> fst (os_mkdir no_refusal p t) = Inl file_not_found" by simp
      have "mkdir_parents no_refusal True (butlast p) t = (Inr (), with_parents (butlast p) t)"
        by (rule 1(1) [OF c]) (use 1 up prefix_order.trans in blast)+
      moreover have "mkdir_once no_refusal b p (with_parents (butlast p) t) = (Inr (), with_parents p t)"
        using None up wpp by (simp add: mkdir_once_def os_mkdir_def with_parents_def)
      ultimately show ?thesis using c by (simp add: mkdir_parents.simps [of no_refusal b p] act_simps)
    qed
  qed
qed

lemma filled_not_directory [simp]: "filled template kwargs \<noteq> Directory"
  by (simp add: filled_def split: sum.splits)

text \<open>What each function adds to a module's directory that has nothing of that name yet.\<close>

lemma make_wscript_adds:
  "t p = Some Directory \<Longrightarrow> t (p @ [''wscript'']) = None \<Longrightarrow>
    make_wscript no_refusal p m t = (Inr True, t(p @ [''wscript''] \<mapsto> filled WSCRIPT_TEMPLATE [(''MODULE'', m)]))"
  by (simp add: make_wscript_def act_simps create_file_fills templates_fill)

lemma make_model_adds:
  assumes "t p = Some Directory" "\<And>xs. t (p @ ''model'' # xs) = None" "CHR ''.'' \<notin> set m"
  shows "make_model no_refusal p m t = (Inr True, t(p @ [''model''] \<mapsto> Directory,
    p @ [''model'', m @ ''.cc''] \<mapsto> filled MODEL_CC_TEMPLATE [(''MODULE'', m)],
    p @ [''model'', m @ ''.h''] \<mapsto> filled MODEL_H_TEMPLATE [(''MODULE'', m), (''INCLUDE_GUARD'', include_guard m ''_H'')]))"
  using assms by (simp add: make_model_def Let_def act_simps create_file_fills templates_fill mkdir_single with_suffix_plain butlast_append)

lemma make_test_adds:
  assumes "t p = Some Directory" "\<And>xs. t (p @ ''test'' # xs) = None" "CHR ''.'' \<notin> set m"
  shows "make_test no_refusal p m t = (Inr True, t(p @ [''test''] \<mapsto> Directory,
    p @ [''test'', m @ ''-test-suite.cc''] \<mapsto> filled TEST_CC_TEMPLATE
      [(''MODULE'', m), (''CAPITALIZED'', capitalized_name m), (''COMPOUND'', compound_name m)]))"
  using assms by (simp add: make_test_def Let_def act_simps create_file_fills templates_fill mkdir_single with_suffix_plain butlast_append)

lemma make_helper_adds:
  assumes "t p = Some Directory" "\<And>xs. t (p @ ''helper'' # xs) = None" "CHR ''.'' \<notin> set m"
  shows "make_helper no_refusal p m t = (Inr True, t(p @ [''helper''] \<mapsto> Directory,
    p @ [''helper'', m @ ''-helper.cc''] \<mapsto> filled HELPER_CC_TEMPLATE [(''MODULE'', m)],
    p @ [''helper'', m @ ''-helper.h''] \<mapsto> filled HELPER_H_TEMPLATE
      [(''MODULE'', m), (''INCLUDE_GUARD'', include_guard m ''_HELPER_H'')]))"
  using assms by (simp add: make_helper_def Let_def act_simps create_file_fills templates_fill mkdir_single with_suffix_plain butlast_append)

lemma make_examples_adds:
  assumes "t p = Some Directory" "\<And>xs. t (p @ ''examples'' # xs) = None" "CHR ''.'' \<notin> set m"
  shows "make_examples no_refusal p m t = (Inr True, t(p @ [''examples''] \<mapsto> Directory,
    p @ [''examples'', ''wscript''] \<mapsto> filled EXAMPLES_WSCRIPT_TEMPLATE [(''MODULE'', m)],
    p @ [''examples'', m @ ''-example.cc''] \<mapsto> filled EXAMPLE_CC_TEMPLATE [(''MODULE'', m)]))"
  using assms by (simp add: make_examples_def Let_def act_simps create_file_fills templates_fill mkdir_single with_suffix_plain butlast_append)

lemma make_doc_adds:
  assumes "t p = Some Directory" "\<And>xs. t (p @ ''doc'' # xs) = None"
  shows "make_doc no_refusal cwd p m t = (Inr True, t(p @ [''doc''] \<mapsto> Directory,
    p @ [''doc'', m @ ''.rst''] \<mapsto> filled DOC_RST_TEMPLATE [(''MODULE'', m), (''MODULE_DIR'', relative_to_cwd cwd p)]))"
  using assms by (simp add: make_doc_def Let_def act_simps create_file_fills templates_fill mkdir_single butlast_append)

lemma artifacts_in_directory:
  assumes "t p = Some Directory" "\<And>x xs. t (p @ x # xs) = None" "CHR ''.'' \<notin> set m"
  shows "all_calls (map (\<lambda>func. func p m) [make_wscript no_refusal, make_model no_refusal, make_test no_refusal,
      make_helper no_refusal, make_examples no_refusal, make_doc no_refusal cwd]) t
    = (Inr True, foldl (\<lambda>t (q, n). t(q \<mapsto> n)) t (scaffold cwd p m))"
  using assms
  by (simp add: act_simps make_wscript_adds make_model_adds make_test_adds make_helper_adds make_examples_adds
      make_doc_adds scaffold_def)

text \<open>
  If nothing is refused and every existing ancestor is a directory, \<open>make_module\<close>
  adds exactly the files of the specification.
\<close>
lemma make_module_complete:
  assumes wf: "wf_tree t" and fresh: "t (modpath @ [modname]) = None" and dot: "CHR ''.'' \<notin> set modname"
    and way: "\<forall>q. prefix q modpath \<longrightarrow> t q = None \<or> t q = Some Directory"
  shows "make_module willing cwd (modpath, modname) t = (Inr True, with_module cwd (modpath, modname) t)"
proof -
  let ?p = "modpath @ [modname]"
  have dir: "mkdir_parents no_refusal False ?p t = (Inr (), with_parents ?p t)"
    using wf way fresh by (intro mkdir_with_parents) (auto simp: wf_tree_def)
  have "t (?p @ x # xs) = None" for x xs
    using wf_tree_prefix [OF wf, of ?p "?p @ x # xs"] fresh unfolding strict_prefix_def
    by (metis option.distinct(1) prefixI same_append_eq append_Nil2 list.distinct(1))
  then have "with_parents ?p t ?p = Some Directory" "with_parents ?p t (?p @ x # xs) = None" for x xs
    by (simp_all add: with_parents_def)
  from artifacts_in_directory [OF this dot, of cwd] dir fresh show ?thesis
    by (simp only: make_module_def make_artifacts_def with_module_def)
      (simp add: act_simps Let_def)
qed

section \<open>The whole script\<close>

lemma make_modules_run:
  assumes "wf_tree t" and "make_modules sys cwd ms t = (r, t')"
  shows "wf_tree t' \<and> (\<forall>e. r = Inl e \<longrightarrow> (\<exists>(d, m)\<in>set ms. hindered sys (d @ [m])))
    \<and> (\<forall>q. t' q \<noteq> t q \<longrightarrow> t q = None
    \<and> (\<exists>(d, m)\<in>set ms. strict_prefix q (d @ [m]) \<and> t' q = Some Directory \<or> prefix (d @ [m]) q))"
  using assms
proof (induction ms arbitrary: t)
  case Nil
  then show ?case by (auto simp: act_simps)
next
  case (Cons dm ms)
  obtain d m where dm: "dm = (d, m)" by (cases dm)
  obtain r1 t1 where one: "make_module sys cwd (d, m) t = (r1, t1)" by fastforce
  from make_module_run [OF Cons.prems(1) one] have ok: "wf_tree t1" "\<And>e. r1 = Inl e \<Longrightarrow> hindered sys (d @ [m])"
    and ch: "\<And>q. t1 q \<noteq> t q \<Longrightarrow> t q = None \<and> (strict_prefix q (d @ [m]) \<and> t1 q = Some Directory \<or> prefix (d @ [m]) q)"
    by blast+
  show ?case
  proof (cases "r1 = Inr True")
    case False
    with Cons.prems(2) one have "r = r1" "t' = t1"
      by (cases r1; auto simp: dm act_simps split: if_splits)+
    with ok ch show ?thesis by (auto simp: dm)
  next
    case True
    with Cons.prems(2) one have "make_modules sys cwd ms t1 = (r, t')" by (simp add: dm act_simps)
    note IH = Cons.IH [OF ok(1) this]
    have "t q = None \<and> (\<exists>(d, m)\<in>set (dm # ms). strict_prefix q (d @ [m]) \<and> t' q = Some Directory \<or> prefix (d @ [m]) q)"
      if q: "t' q \<noteq> t q" for q
    proof (cases "t1 q = t q")
      case True
      with q have "t' q \<noteq> t1 q" by simp
      with IH have "t1 q = None
          \<and> (\<exists>(d, m)\<in>set ms. strict_prefix q (d @ [m]) \<and> t' q = Some Directory \<or> prefix (d @ [m]) q)" by blast
      with True show ?thesis by simp
    next
      case False
      note c = ch [OF this]
      from False c have "t1 q \<noteq> None" by auto
      with IH have "t' q = t1 q" by auto
      with c show ?thesis by (auto simp: dm)
    qed
    with IH show ?thesis by auto
  qed
qed

text \<open>The modules that the arguments ask for.\<close>

definition places :: "dir_path \<Rightarrow> dir_path option \<Rightarrow> dir_path set" where
  "places cwd project_path = (case project_path of
     None \<Rightarrow> {cwd @ [''src''], cwd @ [''contrib'']} | Some p \<Rightarrow> {cwd @ ''contrib'' # p})"

lemma queue_module_places:
  assumes "queue_module cwd project_path modules name = Inr modules'"
  shows "modules' = modules \<or> (\<exists>d m. modules' = modules @ [(d, m)] \<and> d \<in> places cwd project_path \<and> allowed_name m)"
  using assms by (auto simp: queue_module_def Let_def places_def split: list.splits if_splits option.splits)

lemma parse_project_parts: "parse_project project = Inr (Some p) \<Longrightarrow> list_all allowed_name p"
  by (auto simp: parse_project_def split: if_splits)

lemma plan_modules_places:
  assumes "plan_modules cwd project modnames = Inr ms"
  shows "\<exists>pp. parse_project project = Inr pp \<and> (\<forall>(d, m)\<in>set ms. d \<in> places cwd pp \<and> allowed_name m)"
proof -
  from assms obtain pp where pp: "parse_project project = Inr pp"
    "for_each (queue_module cwd pp) [] modnames = Inr ms" by (auto simp: plan_modules_def res_simps)
  have "\<forall>(d, m)\<in>set ms. d \<in> places cwd pp \<and> allowed_name m"
  proof (rule for_each_invariant [where I = "\<lambda>_ ms. \<forall>(d, m)\<in>set ms. d \<in> places cwd pp \<and> allowed_name m", OF pp(2)])
    fix seen x t t'
    assume "\<forall>(d, m)\<in>set t. d \<in> places cwd pp \<and> allowed_name m" "queue_module cwd pp t x = Inr t'"
    with queue_module_places [of cwd pp t x t'] show "\<forall>(d, m)\<in>set t'. d \<in> places cwd pp \<and> allowed_name m" by auto
  qed simp
  with pp(1) show ?thesis by blast
qed

lemma allowed_name_chars:
  assumes "allowed_name m" shows "CHR ''.'' \<notin> set m" "CHR ''/'' \<notin> set m" "m \<noteq> []"
proof -
  let ?body = "if endswith m newline then butlast m else m"
  have body: "?body \<noteq> []" "list_all name_char ?body" using assms by (auto simp: allowed_name_def Let_def)
  have ends: "m = butlast m @ newline" if "endswith m newline"
    using that by (auto simp: endswith_suffix suffix_def newline_def)
  have "set m \<subseteq> set ?body \<union> {CHR 0x0A}"
  proof (cases "endswith m newline")
    case True
    from ends [OF True] have "set m = set (butlast m) \<union> {CHR 0x0A}"
      by (metis newline_def set_append empty_set list.simps(15))
    with True show ?thesis by simp
  qed auto
  moreover have "\<not> name_char (CHR ''.'')" "\<not> name_char (CHR ''/'')" by (simp_all add: name_char_def)
  ultimately show "CHR ''.'' \<notin> set m" "CHR ''/'' \<notin> set m" using body(2) by (auto simp: list_all_iff)
  show "m \<noteq> []" using body(1) by (auto split: if_splits)
qed

text \<open>A planned module is a directory below src or contrib, and no part of its path below them leads back up.\<close>

definition safe_place :: "dir_path \<Rightarrow> dir_path \<Rightarrow> bool" where
  "safe_place cwd p \<longleftrightarrow> (\<exists>top rest. (top = ''src'' \<or> top = ''contrib'') \<and> p = cwd @ top # rest \<and> rest \<noteq> [] \<and> ''..'' \<notin> set rest)"

lemma plan_modules_inside:
  assumes "plan_modules cwd project modnames = Inr ms" "(d, m) \<in> set ms"
  shows "safe_place cwd (d @ [m])"
proof -
  from plan_modules_places [OF assms(1)] assms(2) obtain pp where pp: "parse_project project = Inr pp"
    and d: "d \<in> places cwd pp" and m: "allowed_name m" by blast
  have up: "\<not> allowed_name ''..''" by (auto dest: allowed_name_chars(1))
  have "list_all allowed_name p" if "pp = Some p" for p using parse_project_parts pp that by blast
  with d m up show ?thesis
    by (cases pp) (auto simp: places_def safe_place_def list_all_iff)
qed

lemma check_directories_status:
  "check_directories refuses t ps = Some n \<Longrightarrow> n = 1 \<or> n = 2"
  "check_directories refuses t ps = None \<Longrightarrow> p \<in> set ps \<Longrightarrow> t p = Some Directory"
  by (induction ps) (auto split: if_splits)

text \<open>
  C16. Whatever the arguments are and whatever the system refuses, the script raises nothing it does
  not catch, ends with 0, 1 or 2 and changes nothing that existed. What it adds is inside, or on
  the way to, a directory below src or contrib whose path does not lead back up. With 2 it adds
  nothing, and with 1 nothing either, unless the system does not let it look at the directory of a
  module or fails to remove what was made of one: then earlier modules, and what could not be
  removed, stay.
\<close>
theorem create_main_safe:
  assumes wf: "wf_tree t" and run: "create_main sys cwd project modnames t = (r, t')"
  shows "wf_tree t'
    \<and> (\<exists>s. r = Inr s \<and> (s = 0 \<or> s = 2 \<and> t' = t
        \<or> s = 1 \<and> (t' = t \<or> (\<exists>p. safe_place cwd p \<and> hindered sys p))))
    \<and> (\<forall>q. t' q \<noteq> t q \<longrightarrow> t q = None \<and> (strict_prefix (cwd @ [''src'']) q \<or> strict_prefix (cwd @ [''contrib'']) q)
        \<and> (\<exists>p. safe_place cwd p \<and> (prefix p q \<or> strict_prefix q p)))"
proof (cases "check_directories (sys_refuses sys) t [cwd @ [''src''], cwd @ [''contrib'']]")
  case (Some n)
  with run have "r = Inr n" "t' = t" by (auto simp: create_main_def split: if_splits)
  with wf check_directories_status(1) [OF Some] show ?thesis by auto
next
  case check: None
  note dirs = check_directories_status(2) [OF check]
  show ?thesis
  proof (cases "plan_modules cwd project modnames")
    case (Inl e)
    with run wf check show ?thesis by (cases e) (auto simp: create_main_def simp del: check_directories.simps)
  next
    case (Inr ms)
    obtain r1 t1 where one: "make_modules sys cwd ms t = (r1, t1)" by fastforce
    note mm = make_modules_run [OF wf one]
    from run check Inr one have "(r, t') = (case r1 of Inl e \<Rightarrow> (Inr 1, t1) | Inr _ \<Rightarrow> (Inr 0, t1))"
      by (cases r1) (simp_all add: create_main_def del: make_modules.simps check_directories.simps)
    then have t': "t' = t1" and r: "r = Inr 0 \<or> r = Inr 1 \<and> (\<exists>e. r1 = Inl e)" by (cases r1; auto)+
    have status: "\<exists>s. r = Inr s \<and> (s = 0 \<or> s = 2 \<and> t' = t \<or> s = 1 \<and> (t' = t \<or> (\<exists>p. safe_place cwd p \<and> hindered sys p)))"
    proof (cases "r = Inr 0")
      case False
      with r mm obtain d m where "(d, m) \<in> set ms" "hindered sys (d @ [m])" by blast
      with plan_modules_inside [OF Inr] False r show ?thesis by blast
    qed simp
    have "(strict_prefix (cwd @ [''src'']) q \<or> strict_prefix (cwd @ [''contrib'']) q)
        \<and> (\<exists>p. safe_place cwd p \<and> (prefix p q \<or> strict_prefix q p))" if q: "t' q \<noteq> t q" for q
    proof -
      from mm q t' have new: "t q = None" by blast
      from mm q t' obtain d m where dm: "(d, m) \<in> set ms" "prefix (d @ [m]) q \<or> strict_prefix q (d @ [m])" by blast
      note ins = plan_modules_inside [OF Inr dm(1)]
      then obtain top rest where top: "top = ''src'' \<or> top = ''contrib''" "d @ [m] = (cwd @ [top]) @ rest"
        by (auto simp: safe_place_def)
      have out: "\<not> prefix q (cwd @ [top])"
      proof
        assume "prefix q (cwd @ [top])"
        moreover have "t (cwd @ [top]) = Some Directory" using dirs top(1) by auto
        ultimately have "t q = Some Directory"
          using wf_tree_prefix [OF wf, of q "cwd @ [top]"] unfolding strict_prefix_def by (metis option.distinct(1))
        with new show False by simp
      qed
      have "prefix (cwd @ [top]) (d @ [m])" using top(2) by simp
      with dm(2) out have "prefix (cwd @ [top]) q"
        unfolding strict_prefix_def by (metis prefix_order.trans prefix_same_cases)
      with out top(1) have "strict_prefix (cwd @ [''src'']) q \<or> strict_prefix (cwd @ [''contrib'']) q"
        unfolding strict_prefix_def by auto
      with ins dm(2) show ?thesis by blast
    qed
    with mm status t' show ?thesis by blast
  qed
qed

lemma make_modules_complete:
  assumes "wf_tree t" "distinct ms"
    and "\<forall>(d, m)\<in>set ms. length d = k \<and> CHR ''.'' \<notin> set m \<and> t (d @ [m]) = None
      \<and> (\<forall>q. prefix q d \<longrightarrow> t q = None \<or> t q = Some Directory)"
  shows "make_modules willing cwd ms t = (Inr True, foldl (\<lambda>t dm. with_module cwd dm t) t ms)"
  using assms
proof (induction ms arbitrary: t)
  case Nil
  then show ?case by (simp add: act_simps)
next
  case (Cons dm ms)
  obtain d m where dm: "dm = (d, m)" by (cases dm)
  let ?t = "with_module cwd (d, m) t"
  from Cons.prems have one: "make_module willing cwd (d, m) t = (Inr True, ?t)"
    by (intro make_module_complete) (auto simp: dm)
  from make_module_run [OF Cons.prems(1) one] have wf: "wf_tree ?t"
    and ch: "\<And>q. ?t q \<noteq> t q \<Longrightarrow> strict_prefix q (d @ [m]) \<and> ?t q = Some Directory \<or> prefix (d @ [m]) q" by auto
  have "length d' = k \<and> CHR ''.'' \<notin> set m' \<and> ?t (d' @ [m']) = None
      \<and> (\<forall>q. prefix q d' \<longrightarrow> ?t q = None \<or> ?t q = Some Directory)" if other: "(d', m') \<in> set ms" for d' m'
  proof (intro conjI allI impI)
    from Cons.prems(3) other have old: "length d' = k" "CHR ''.'' \<notin> set m'" "t (d' @ [m']) = None"
      "\<forall>q. prefix q d' \<longrightarrow> t q = None \<or> t q = Some Directory" by fastforce+
    then show k: "length d' = k" "CHR ''.'' \<notin> set m'" by simp_all
    from Cons.prems(3) have d: "length d = k" by (auto simp: dm)
    have "(d', m') \<noteq> (d, m)" using Cons.prems(2) other by (auto simp: dm)
    then have "\<not> prefix (d @ [m]) (d' @ [m'])" using k d by (auto simp: prefix_def)
    moreover have "\<not> strict_prefix (d' @ [m']) (d @ [m])" using k d by (auto dest: prefix_length_less)
    ultimately have "?t (d' @ [m']) = t (d' @ [m'])" using ch by blast
    then show "?t (d' @ [m']) = None" using old(3) by simp
    fix q
    assume q: "prefix q d'"
    then have "length q \<le> k" using k by (auto dest: prefix_length_le)
    then have "\<not> prefix (d @ [m]) q" using d by (auto dest: prefix_length_le)
    with ch [of q] have "?t q = t q \<or> ?t q = Some Directory" by blast
    then show "?t q = None \<or> ?t q = Some Directory" using old(4) q by metis
  qed
  then have "\<forall>(d, m)\<in>set ms. length d = k \<and> CHR ''.'' \<notin> set m \<and> ?t (d @ [m]) = None
      \<and> (\<forall>q. prefix q d \<longrightarrow> ?t q = None \<or> ?t q = Some Directory)" by blast
  with Cons.IH [OF wf] Cons.prems(2) have "make_modules willing cwd ms ?t = (Inr True, foldl (\<lambda>t dm. with_module cwd dm t) ?t ms)"
    by (simp del: no_refusal_simp)
  with one show ?case by (simp add: dm act_simps del: no_refusal_simp)
qed

text \<open>
  If nothing is refused, the modules asked for are different and new and every existing
  ancestor is a directory, the script ends with 0 and has made exactly these modules.
\<close>

lemma create_main_complete:
  assumes "wf_tree t" "t (cwd @ [''src'']) = Some Directory" "t (cwd @ [''contrib'']) = Some Directory"
    and plan: "plan_modules cwd project modnames = Inr ms" and "distinct ms"
    and new: "\<forall>(d, m)\<in>set ms. t (d @ [m]) = None \<and> (\<forall>q. prefix q d \<longrightarrow> t q = None \<or> t q = Some Directory)"
  shows "create_main willing cwd project modnames t = (Inr 0, foldl (\<lambda>t dm. with_module cwd dm t) t ms)"
proof -
  from plan_modules_places [OF plan] obtain pp where "\<forall>(d, m)\<in>set ms. d \<in> places cwd pp \<and> allowed_name m" by blast
  then have "\<forall>(d, m)\<in>set ms. length d = length cwd + Suc (case pp of None \<Rightarrow> 0 | Some p \<Rightarrow> length p) \<and> CHR ''.'' \<notin> set m"
    using allowed_name_chars(1) by (fastforce simp: places_def split: option.splits)
  with new have "\<forall>(d, m)\<in>set ms. length d = length cwd + Suc (case pp of None \<Rightarrow> 0 | Some p \<Rightarrow> length p)
      \<and> CHR ''.'' \<notin> set m \<and> t (d @ [m]) = None \<and> (\<forall>q. prefix q d \<longrightarrow> t q = None \<or> t q = Some Directory)" by blast
  from make_modules_complete [OF assms(1,5) this, of cwd] assms(2,3) plan show ?thesis
    by (simp add: create_main_def del: make_modules.simps)
qed

text \<open>
  Requests the way the help describes them: names of allowed characters, with src or contrib in
  front or without, and the parts of a project; and where the help says the modules go.
\<close>

datatype location = Src | Contrib | Unspecified

fun request_name :: "location \<times> string \<Rightarrow> string" where
  "request_name (Src, m) = ''src/'' @ m"
| "request_name (Contrib, m) = ''contrib/'' @ m"
| "request_name (Unspecified, m) = m"

definition good_request :: "string list \<Rightarrow> location \<times> string \<Rightarrow> bool" where
  "good_request project rq \<longleftrightarrow> allowed_name (snd rq) \<and> (fst rq = Unspecified \<longrightarrow> snd rq \<notin> set [''src'', ''contrib''])
     \<and> (fst rq = Src \<longrightarrow> project = [])"

definition request_target :: "dir_path \<Rightarrow> string list \<Rightarrow> location \<times> string \<Rightarrow> dir_path \<times> string" where
  "request_target cwd project rq = (if fst rq = Src then cwd @ [''src''] else cwd @ ''contrib'' # project, snd rq)"

lemma strip_separators_plain:
  assumes "s \<noteq> []" "hd s \<noteq> CHR ''/''" "last s \<noteq> CHR ''/''"
  shows "strip_separators s = s"
proof -
  from assms have "dropWhile (\<lambda>c. c = CHR ''/'') s = s" by (cases s) auto
  moreover from assms have "dropWhile (\<lambda>c. c = CHR ''/'') (rev s) = rev s" by (cases s rule: rev_cases) auto
  ultimately show ?thesis by (simp add: strip_separators_def)
qed

lemma last_join: "ws \<noteq> [] \<Longrightarrow> last ws \<noteq> [] \<Longrightarrow> last (join sep ws) = last (last ws) \<and> join sep ws \<noteq> []"
  by (induction sep ws rule: join.induct) (auto split: if_splits)

lemma path_parts_join:
  assumes "list_all allowed_name ps" "ps \<noteq> []"
  shows "path_parts (join ''/'' ps) = ps" "strip_separators (join ''/'' ps) = join ''/'' ps" "path_root (join ''/'' ps) = []"
    "join ''/'' ps \<noteq> []"
proof -
  have plain: "list_all plain_part ps"
    using assms(1) allowed_name_chars by (fastforce simp: list_all_iff plain_part_def)
  note j = join_plain [OF plain assms(2)]
  show "path_parts (join ''/'' ps) = ps"
    using plain unfolding path_parts_def j(1) by (auto simp: list_all_iff plain_part_def intro: filter_True)
  have l: "allowed_name (last ps)" using assms by (auto simp: list_all_iff)
  note last = last_join [OF assms(2) allowed_name_chars(3) [OF l], of "''/''"]
  then show ne: "join ''/'' ps \<noteq> []" ..
  have "startswith (join ''/'' ps) ''//'' \<Longrightarrow> startswith (join ''/'' ps) ''/''" by (cases "join ''/'' ps") auto
  with j(2) show "path_root (join ''/'' ps) = []" by (auto simp: path_root_def)
  have "hd (join ''/'' ps) \<noteq> CHR ''/''" using j(2) ne by (cases "join ''/'' ps") auto
  moreover have "last (join ''/'' ps) \<noteq> CHR ''/''"
    using last allowed_name_chars(2,3) [OF l] last_in_set [of "last ps"] by metis
  ultimately show "strip_separators (join ''/'' ps) = join ''/'' ps" using ne by (intro strip_separators_plain)
qed

lemma parse_project_join:
  "list_all allowed_name ps \<Longrightarrow> parse_project (join ''/'' ps) = Inr (if ps = [] then None else Some ps)"
  using path_parts_join [of ps] by (cases "ps = []") (simp_all add: parse_project_def)

lemma queue_request:
  assumes "good_request ps rq"
  shows "queue_module cwd (if ps = [] then None else Some ps) ms (request_name rq)
    = Inr (ms @ [request_target cwd ps rq])"
proof -
  obtain k m where rq: "rq = (k, m)" by (cases rq)
  from assms have m: "allowed_name m" by (simp add: good_request_def rq)
  have tops: "allowed_name ''src''" "allowed_name ''contrib''" by code_simp+
  note one = path_parts_join [of "[m]"] and src = path_parts_join [of "[''src'', m]"]
    and contrib = path_parts_join [of "[''contrib'', m]"]
  show ?thesis
    using assms m tops one src contrib
    by (cases k) (simp_all add: rq good_request_def request_target_def queue_module_def)
qed

lemma plan_requests:
  assumes "list_all allowed_name ps" "list_all (good_request ps) rqs"
  shows "plan_modules cwd (join ''/'' ps) (map request_name rqs) = Inr (map (request_target cwd ps) rqs)"
proof -
  have "for_each (queue_module cwd (if ps = [] then None else Some ps)) ms (map request_name rqs)
      = Inr (ms @ map (request_target cwd ps) rqs)" for ms
    using assms(2) by (induction rqs arbitrary: ms) (simp_all add: queue_request)
  from this [of "[]"] show ?thesis by (simp add: plan_modules_def parse_project_join [OF assms(1)])
qed

text \<open>
  C17. Requests made as the help describes them, for different modules that do not exist, are carried
  out: if nothing is refused and nothing but directories is in the way, the script ends with 0 and
  the tree has exactly the specified files of each module, in the place the help names, in addition.
\<close>
theorem create_main_requests:
  assumes wf: "wf_tree t" and dirs: "t (cwd @ [''src'']) = Some Directory" "t (cwd @ [''contrib'']) = Some Directory"
    and good: "list_all allowed_name ps" "list_all (good_request ps) rqs" and "distinct (map (request_target cwd ps) rqs)"
    and new: "\<forall>(d, m)\<in>set (map (request_target cwd ps) rqs).
      t (d @ [m]) = None \<and> (\<forall>q. prefix q d \<longrightarrow> t q = None \<or> t q = Some Directory)"
  shows "create_main willing cwd (join ''/'' ps) (map request_name rqs) t
    = (Inr 0, foldl (\<lambda>t rq. with_module cwd (request_target cwd ps rq) t) t rqs)"
  using create_main_complete [OF wf dirs plan_requests [OF good] assms(6) new] by (simp only: foldl_map)

definition small_tree :: tree where
  "small_tree = (\<lambda>q. if q \<in> set [[], [''ns''], [''ns'', ''src''], [''ns'', ''contrib''], [''ns'', ''contrib'', ''old'']]
     then Some Directory else None)"

lemma wf_small_tree: "wf_tree small_tree"
  by (auto simp: wf_tree_def small_tree_def)

theorem create_main_requests_witness:
  "create_main willing [''ns''] '''' [''aqua'', ''src/blue''] small_tree
    = (Inr 0, with_module [''ns''] ([''ns'', ''src''], ''blue'') (with_module [''ns''] ([''ns'', ''contrib''], ''aqua'') small_tree))"
proof -
  let ?rqs = "[(Unspecified, ''aqua''), (Src, ''blue'')]"
  have targets: "map (request_target [''ns''] []) ?rqs = [([''ns'', ''contrib''], ''aqua''), ([''ns'', ''src''], ''blue'')]"
    by (simp add: request_target_def)
  have any: "small_tree q = None \<or> small_tree q = Some Directory" for q by (simp add: small_tree_def)
  have absent: "small_tree [''ns'', ''contrib'', ''aqua''] = None" "small_tree [''ns'', ''src'', ''blue''] = None"
    and there: "small_tree ([''ns''] @ [''src'']) = Some Directory" "small_tree ([''ns''] @ [''contrib'']) = Some Directory"
    by (simp_all add: small_tree_def)
  have new: "\<forall>(d, m)\<in>set (map (request_target [''ns''] []) ?rqs).
      small_tree (d @ [m]) = None \<and> (\<forall>q. prefix q d \<longrightarrow> small_tree q = None \<or> small_tree q = Some Directory)"
    unfolding targets using any absent by (simp only: list.set ball_simps split_conv append_Cons append_Nil) blast
  have dist: "distinct (map (request_target [''ns''] []) ?rqs)" unfolding targets by simp
  have good: "list_all allowed_name []" "list_all (good_request []) ?rqs" by code_simp+
  from create_main_requests [OF wf_small_tree there good dist new] show ?thesis
    by (simp add: request_target_def)
qed

text \<open>A system without disk space, on which removing the second module fails as well.\<close>

definition full_disk :: operating_system where
  "full_disk = \<lparr>sys_refuses = (\<lambda>k p. k = Write \<and> [''ns'', ''contrib'', ''p'', ''blue''] \<noteq> butlast p),
     sys_rmtree = (\<lambda>p. if p = [''ns'', ''contrib'', ''p'', ''blue''] then Some (\<lambda>q. last q = ''wscript'') else None)\<rparr>"

theorem create_main_safe_witness:
  "wf_tree (snd (create_main full_disk [''ns''] ''p'' [''blue'', ''old''] small_tree))
    \<and> (\<exists>s\<le>2. fst (create_main full_disk [''ns''] ''p'' [''blue'', ''old''] small_tree) = Inr s)"
proof -
  obtain r t' where run: "create_main full_disk [''ns''] ''p'' [''blue'', ''old''] small_tree = (r, t')" by fastforce
  from create_main_safe [OF wf_small_tree run] show ?thesis by (auto simp: run)
qed

text \<open>
  A module that exists already ends the work: those before it stay, those after it are not made,
  and the script ends with 0 all the same.
\<close>

lemma existing_module_stops:
  assumes check: "check_directories (sys_refuses sys) t [cwd @ [''src''], cwd @ [''contrib'']] = None"
    and plan: "plan_modules cwd project modnames = Inr (ms @ (d, m) # rest)"
    and before: "make_modules sys cwd ms t = (Inr True, t1)"
    and there: "t1 (d @ [m]) \<noteq> None" "\<not> sys_refuses sys Stat (d @ [m])"
  shows "create_main sys cwd project modnames t = (Inr 0, t1)"
proof -
  have "make_modules sys cwd (ms @ (d, m) # rest) t = (Inr False, t1)"
    using before
  proof (induction ms arbitrary: t)
    case Nil
    with there show ?case by (auto simp: act_simps make_module_def Let_def)
  next
    case (Cons x ms)
    then show ?case by (auto simp: act_simps split: prod.splits sum.splits if_splits)
  qed
  with check plan show ?thesis by (simp add: create_main_def del: make_modules.simps check_directories.simps)
qed

text \<open>
  A name that is a path is not skipped, as the script's message says, unless it has three parts:
  of two, the first becomes a module in contrib.
\<close>

lemma path_name_truncated:
  assumes a: "allowed_name a" "a \<noteq> ''src''" "a \<noteq> ''contrib''" and b: "allowed_name b"
  shows "plan_modules cwd '''' [a @ ''/'' @ b] = Inr [(cwd @ [''contrib''], a)]"
proof -
  note ca = allowed_name_chars [OF a(1)] and cb = allowed_name_chars [OF b]
  have "hd a \<noteq> CHR ''/''" "last b \<noteq> CHR ''/''"
    using ca cb hd_in_set [of a] last_in_set [of b] by metis+
  then have "strip_separators (a @ ''/'' @ b) = a @ ''/'' @ b"
    using ca(3) cb(3) by (cases a; cases b rule: rev_cases) (auto simp: strip_separators_def)
  moreover have "path_parts (a @ ''/'' @ b) = [a, b]"
    using ca cb split_on_append [of "CHR ''/''" a b] by (auto simp: path_parts_def split_on_fresh)
  ultimately show ?thesis using a
    by (simp add: plan_modules_def parse_project_def queue_module_def)
qed

text \<open>The third example of the script's own help makes two modules, not three: a comma is no part of a name.\<close>

lemma help_example_skips:
  "plan_modules cwd '''' [''src/module1'', ''contrib/module2,'', ''module3'']
    = Inr [(cwd @ [''src''], ''module1''), (cwd @ [''contrib''], ''module3'')]"
  by (simp add: plan_modules_def parse_project_def queue_module_def path_parts_def strip_separators_def
      allowed_name_def name_char_def newline_def endswith_def)

text \<open>src or contrib alone as a name raises an exception; so does a dot.\<close>

lemma place_alone_raises:
  "name \<in> set [''src'', ''contrib'', ''src/'', ''.''] \<Longrightarrow> plan_modules cwd '''' [name] = Inl (Uncaught IndexError)"
  by (auto simp: plan_modules_def parse_project_def queue_module_def path_parts_def strip_separators_def)

text \<open>A name may end with a newline, although the message about forbidden names does not say so.\<close>

lemma newline_allowed: "allowed_name m \<Longrightarrow> \<not> endswith m newline \<Longrightarrow> allowed_name (m @ newline)"
  by (simp add: allowed_name_def endswith_suffix newline_def)

text \<open>
  The guard of a module's helper header is that of the model header of the module with helper in
  its name, and hyphens and underscores are not told apart: of two such headers one is lost.
\<close>

lemma guards_clash:
  "include_guard (m @ ''-helper'') ''_H'' = include_guard m ''_HELPER_H''"
  "include_guard (a @ ''-'' @ b) e = include_guard (a @ ''_'' @ b) e"
proof -
  have "upper ''-helper'' = ''-HELPER''" "upper ''_helper'' = ''_HELPER''" by code_simp+
  then show "include_guard (m @ ''-helper'') ''_H'' = include_guard m ''_HELPER_H''"
    by (simp add: include_guard_def upper_append)
  show "include_guard (a @ ''-'' @ b) e = include_guard (a @ ''_'' @ b) e" by (simp add: include_guard_def)
qed

text \<open>The help promises C++ that compiles, but nothing keeps a name from beginning with a digit, which no guard may.\<close>

lemma digit_guard: "allowed_name ''2d'' \<and> include_guard ''2d'' ''_H'' = ''2D_H''"
  by code_simp

end
