(* ===== verification/Spec2Isabelle.thy ===== *)
theory Spec2Isabelle
  imports Prelude PyStr Topsort RadSeq FindCycles RadNum RadStat Shellcmd Cflags CheckStyle ConfigFile TestReport
    PyPath TestJobs TestRun TestSelect Timeline GridDraw GridView GridDrag WafModules WafBuild WafRun WafHeaders
    VersionTag WafCommand VizThread VizTraffic VizScan VizAxes NewModule "HOL-Library.Transitive_Closure_Table"
begin

text \<open>
  A verification library for the Python tools of the ns-3 repository. The interpreter is Python 3, as
  the first lines of the scripts and RELEASE_NOTES say, but for the two library modules
  \<open>topsort.py\<close> and \<open>rad_util.py\<close> of bindings/python, which are written for Python 2 and were not
  ported: the interpreter is an argument of the functions of \<open>topsort.py\<close> that depend on it
  (\<open>has_key\<close>, the end of a generator), and the theories on \<open>rad_util.py\<close>, which Python 3 does not
  compile, are about Python 2. \<open>utils/grid.py\<close> names Python 3 but needs the module \<open>gtk\<close>
  of Python 2; it is modelled on Python 3 with such a module given.

  \<^bold>\<open>The program.\<close> Most of the repository's Python is generated: the API definitions
  under src/*/bindings/modulegen__gcc_*.py. What is written by hand and modelled here is the test
  runner, the viewer of timelines, the style checker, the libraries of the build system and the parts of
  the build scripts that decide something.

  \<^item> \<open>test.py\<close> finds the examples and test suites of a build, queues a job for each that the
    options select, runs the jobs on worker threads, counts the results and writes reports. Theory
    \<open>TestSelect\<close> (waf configuration, \<open>make_paths\<close>, \<open>parse_examples_to_run_file\<close>, the selection
    in \<open>run_tests\<close>) produces the list of jobs; \<open>TestJobs\<close> (\<open>Job\<close>, \<open>run_job_synchronously\<close>,
    \<open>worker_thread\<close>, the two queues, \<open>sigint_hook\<close>) runs them; \<open>TestRun\<close> (the loop over the output
    queue, the summary, the reports, the removal of the output, the exit status) and \<open>TestReport\<close>
    (\<open>translate_to_text\<close>, \<open>translate_to_html\<close>) turn the results into output. The relation
    \<open>run_tests\<close> (in \<open>TestSelect\<close>) puts them together and has every end of a run: a failed
    build, a list of tests, an exception, a wait without end, results (\<open>test_end\<close>). \<open>PyPath\<close> holds the functions of \<open>os.path\<close> and \<open>fnmatch\<close> it uses.
  \<^item> \<open>utils/grid.py\<close> shows timelines read from a file. \<open>Timeline\<close> is its data model and reader,
    \<open>GridDraw\<close> the drawing of legend, rows and scales, \<open>GridView\<close> the picture as a whole, the handlers
    of the mouse and \<open>main\<close>, \<open>GridDrag\<close> what sequences of mouse events do.
  \<^item> \<open>utils/check-style.py\<close> (theory \<open>CheckStyle\<close>): patches, their parser and printer, the cleaning
    of changes of trailing blanks, the verdict on a list of files.
  \<^item> \<open>utils.py\<close> (theory \<open>ConfigFile\<close>): the .ns3rc file.
  \<^item> \<open>waf-tools/shellcmd.py\<close> (theory \<open>Shellcmd\<close>): parsing shell-like command lines and running
    pipelines; \<open>waf-tools/cflags.py\<close> (theory \<open>Cflags\<close>): compiler flags of a build profile.
  \<^item> The build: \<open>WafModules\<close> is the choice of modules (src/wscript, contrib/wscript, \<open>configure\<close> and the
    dependency loop of \<open>build\<close> in wscript); \<open>WafBuild\<close> the rest of \<open>build\<close>, which takes the task generators
    of disabled modules out of the build and lists what can be run; \<open>WafHeaders\<close> what src/wscript makes of a
    module: its generators, the tasks that install or remove headers, the header of the module and the
    pkg-config file; \<open>WafRun\<close> is wutils.py, which finds a program among the generators left and runs it.
    \<open>VersionTag\<close> (waf-tools/versioning.py) takes version numbers from git; \<open>WafCommand\<close>
    (waf-tools/command.py) runs commands with the variables of the build through \<open>Shellcmd\<close>.
  \<^item> \<open>src/visualizer/visualizer/core.py\<close>, parts of it: \<open>VizThread\<close> is the thread that runs the simulator and the
    handlers of the main thread (\<open>update_view_timeout\<close>, \<open>update_model\<close>, the timer, the play button, \<open>_quit\<close>);
    \<open>VizTraffic\<close> what \<open>update_model\<close> keeps of the samples, the arrows \<open>update_view\<close> draws for them, and
    the collector of plugins/interface_statistics.py. \<open>VizModel\<close>
    holds nodes, channels, wires and the links of plugins/wifi_intrastructure_link.py, \<open>VizCanvas\<close> what events
    do to them (selection, dragging, the view following the simulator), \<open>VizScan\<close> \<open>scan_topology\<close> and \<open>autoscale_view\<close>.
    \<open>VizAxes\<close> is visualizer/hud.py, the axes at the borders of the view.
  \<^item> \<open>utils/create-module.py\<close>: \<open>ModuleTemplates\<close> holds the templates of a new module's files and what fills them
    in, \<open>NewModule\<close> the file tree, \<open>make_module\<close> and \<open>main\<close>.
  \<^item> \<open>bindings/python/topsort.py\<close> (theories \<open>Topsort\<close> and \<open>FindCycles\<close>) and
    \<open>bindings/python/rad_util.py\<close> (theories \<open>RadSeq\<close>, \<open>RadNum\<close> and \<open>RadStat\<close>): graphs, sequences, numbers.

  \<open>Prelude\<close>, \<open>PyStr\<close> and \<open>PyCase\<close> hold what these share: exceptions as values (\<open>res\<close>), actions on a state
  that keep what was done before an exception (\<open>act\<close>), loops, slices, dictionaries, strings.

  \<^bold>\<open>State and operations.\<close> A class is a record and a method a function on it; an attribute that
  some method assigns first is an option where another one may read it too early. A dictionary is an
  association list in insertion order. Python's integers are \<open>int\<close> or \<open>nat\<close>; floats are rationals,
  so rounding is not modelled. An operation that may raise returns \<open>py_error + 'a\<close>. Loops are structural
  recursion, or functions with a termination proof (\<open>topsort_loop\<close>, \<open>search_loop\<close>, \<open>bsearch\<close>,
  \<open>closest_power\<close>, \<open>gcf_loop\<close>), or, where the code may not return, a partial function (\<open>float_range_loop\<close>); no operation of the model runs on fuel. The threads of test.py
  are the step relation \<open>pool_step\<close>, with the interrupt \<open>system_step\<close>; the windows of grid.py the
  step relation \<open>view_step\<close>, where a handler that raises leaves the state it has reached; the threads of the
  visualizer the step relations \<open>sim_step\<close> and \<open>gtk_step\<close>, with a stack for handlers that run inside others, and
  its objects (\<open>vmodel\<close>) dictionaries of nodes and channels with a list of links that they refer to by number. The lists of
  modules in waf's environment are objects that two variables may share (\<open>configuration\<close>); a task generator is
  a record with an identity (\<open>tgen\<close>), and the build the list of its groups; the files of the
  header tasks are a map from paths to contents and permissions (\<open>file_system\<close>). \<open>find_modules_loop\<close>
  ends because the tree of directories is finite, \<open>enable_dependencies\<close> because each round adds a known module.

  \<^bold>\<open>Interfaces.\<close> Locales state what a client relies on: \<open>dictionary\<close> and \<open>key_order\<close> (the order
  of keys is a parameter where the code does not fix it), \<open>rotation_test\<close> (the search for cycles and
  \<open>is_rotated\<close>), \<open>compiler_traits\<close>, \<open>fifo\<close> and \<open>job_value\<close> (queues and jobs), \<open>monotone_probe\<close>
  (the binary searches), \<open>named\<close> (lists searched by name), \<open>view_property\<close> (what every handler
  keeps). Each is interpreted on the definitions of the model.

  \<^bold>\<open>What the theorems show.\<close>
  \<^item> Graphs: on Python 2 \<open>topsort\<close> sorts, fails exactly on cyclic input, and its error carries what
    \<open>find_cycles\<close> needs to name a cycle (\<open>cycle_error_yields_cycles\<close>, across both components);
    \<open>find_cycles\<close> yields every simple cycle once. On Python 3 \<open>topsort\<close> and \<open>topsort_levels\<close> raise
    \<open>AttributeError\<close> for every pair and can only take an empty list.
  \<^item> The test run: every interleaving of the threads ends within 7 steps per job, 8 per worker and one more, none
    deadlocks, each job comes back once with its own result, and the exit status is 0 exactly for a list that
    was asked for and printed, or for jobs that all succeed with nothing raised (\<open>test_run_verdict\<close>, across
    selection, threads, summary and reports).
  \<^item> Shell commands: the parser's results are well formed, printing and parsing are inverse, a quiet run
    refines a left-to-right evaluation of the operators.
  \<^item> Patches: writing and parsing are inverse, cleaning restores lines and touches nothing else.
  \<^item> The viewer: the searches return what the code's branches say, exactly; the reader groups the lines;
    the legend and the rows fit; scales have one to ten marks; drags and zooms do what the user expects, and
    the bounds stay in order unless the interval is moved as a whole.
  \<^item> The build: the dependency loop computes the closure of what modules use, and fails exactly when a
    part of it is missing (\<open>dependencies_exact\<close>); the loop over the task generators, which changes the groups it
    runs over, keeps exactly what the specification \<open>after_build\<close> says (\<open>build_excludes\<close>); programs that stay are
    complete, excluded ones do not run (\<open>excluded_program_not_run\<close>, across WafModules, WafBuild and
    WafRun), and headers come and go with their modules (\<open>headers_follow_modules\<close>).
  \<^item> Versions and commands: git's descriptions are read back exactly, all version fields have their types; substituted
    values never become shell syntax.
  \<^item> The visualizer: the simulation thread ends when the window is closed (\<open>quit_joins\<close>), messages are shown once,
    samples are passed on once and in order if the view waits its turn (and else may be lost, \<open>samples_lost\<close>); the
    view shows one arrow for each pair of nodes that sent, with its average rate, and loses none. The rates
    of the interfaces are those since nine updates before (\<open>interface_rates\<close>). Links are
    drawn between the places of their ends after any events, which include all steps of the scan; the canvas
    holds all nodes unless \<open>get_bounds\<close> fails or a script has set the bounds (\<open>nodes_outside\<close>). The axes
    have four to ten labels each (\<open>axes_drawn\<close>).
  \<^item> New modules: create-module.py changes nothing that existed, and leaves nothing behind when it does
    not end with 0, unless the system hinders its looking at a module's directory or cleaning it up
    (\<open>create_main_safe\<close>); what is asked for as its help says is made completely (\<open>create_main_requests\<close>).
  \<^item> Deviations: theorems such as \<open>main_shows_nothing\<close>, \<open>run_verbose_unbound\<close>, \<open>html_rows_unclosed\<close>,
    \<open>no_workers_hang\<close> or \<open>panned_past_end\<close> state what the code does where it fails its purpose.

  \<^bold>\<open>Parameters.\<close> Code that is not in the repository is an argument of the definitions that use it: processes
  (\<open>executor\<close>, \<open>os\<close>), \<open>eval\<close>, the uncrustify, diff and patch programs, the XML parser (elements are given as
  ElementTree presents them), the sizes of text in cairo, the number of processors, the files read before and after waf has run, the
  opening, copying and removing of files (\<open>test_host\<close>, \<open>operating_system\<close>), git, the
  advance and the samples of the simulator, whether \<open>get_bounds\<close> of the canvas works
  (\<open>canvas_settings\<close>), the logarithm and the clipping of lines, and of waf the exit status, the lookup of task generators and sources and what the wscripts of the modules create.

  \<^bold>\<open>Not modelled.\<close> The generated bindings (modulegen__gcc_*.py, callbacks_list.py) are tables without
  logic; the API scanner and module generators (ns3modulescan.py, ns3modulegen.py) drive pybindgen and
  pygccxml; the wscripts of the modules list files; the options, compiler checks, documentation and coverage
  commands of wscript and the waf tools misc.py and boost.py only call waf; the rest of the visualizer
  (making widgets, the shell, screenshots, the other plugins) drives GTK, goocanvas and the simulator; conf.py files and examples configure other programs. The functions of
  rad_util.py on random numbers, time and modules and the formatter \<open>nice_units\<close>, the option parsing of
  test.py, the environment its processes get (what \<open>make_paths\<close> computes is modelled, but not passed on to
  them), and the construction of the windows of grid.py are left out. A full disk under the results file
  of test.py, a closed standard output and signals other than the interrupt are no cases of the model. The C++ simulator is not Python.
\<close>

section \<open>Sorting and finding cycles\<close>

lemma rtrancl_path_successively: "rtrancl_path r x xs y \<Longrightarrow> successively r (x # xs) \<and> last (x # xs) = y"
  by (induction rule: rtrancl_path.induct) auto

text \<open>A graph with a cycle has a simple one.\<close>

lemma cyclic_simple_cycle:
  assumes "\<not> acyclic R" and "\<forall>a b. (a, b) \<in> R \<longrightarrow> edge pc a b"
  shows "\<exists>C. simple_cycle pc C"
proof -
  let ?r = "\<lambda>a b. (a, b) \<in> R"
  from assms(1) obtain x y where xy: "(x, y) \<in> R" "(y, x) \<in> R\<^sup>*"
    unfolding acyclic_def by (meson tranclD)
  then have "?r\<^sup>*\<^sup>* y x" by (simp add: rtrancl_def)
  then obtain xs where "rtrancl_path ?r y xs x" by (auto simp: rtranclp_eq_rtrancl_path)
  then obtain ys where p: "rtrancl_path ?r y ys x" "distinct (y # ys)" by (rule rtrancl_path_distinct)
  from rtrancl_path_successively [OF p(1)] have s: "successively ?r (y # ys)" "last (y # ys) = x" by simp_all
  from s(1) have "successively (edge pc) (y # ys)"
    by (rule successively_mono) (use assms(2) in blast)
  with p(2) s(2) xy(1) assms(2) have "simple_cycle pc (y # ys)" by (simp add: simple_cycle_def simple_path_def)
  then show ?thesis ..
qed

lemma graph_state_edge:
  "graph_state E D np ch \<Longrightarrow> edge ch a b \<longleftrightarrow> a \<notin> D \<and> (a, b) \<in> set E"
  using kids_set [of b E a] by (auto simp: graph_state_def edge_def)

text \<open>
  C22. The dictionary that the \<open>CycleError\<close> of \<open>topsort\<close> carries is the one to give to
  \<open>find_cycles\<close>: that yields at least one cycle, and every cycle it yields is a cycle of
  the pairs that could not be sorted. (Only a run on Python 2 raises that error, see C26.)
\<close>
theorem cycle_error_yields_cycles:
  assumes "key_order ord" "key_order ord'" and "topsort py ord pairlist = Inl (CycleError answer np ch)"
  shows "\<exists>cs. find_cycles ord' ch = Inr cs \<and> cs \<noteq> []
    \<and> list_all (\<lambda>c. c \<noteq> [] \<and> successively (\<lambda>a b. (a, b) \<in> set pairlist) c \<and> (last c, hd c) \<in> set pairlist) cs"
proof -
  from assms(3) have "topsort Python2 ord pairlist = Inl (CycleError answer np ch)"
    using cycle_error_python2 [OF assms(3)] by simp
  with topsort_result [of ord pairlist, OF assms(1)] obtain
    inv: "loop_inv pairlist answer [] np ch" and left: "\<not> nodes pairlist \<subseteq> set answer"
    by (auto split: if_splits)
  then have gs: "graph_state pairlist (set answer) np ch" by (simp add: loop_inv_def)
  note edge = graph_state_edge [OF gs]
  let ?A = "nodes pairlist - set answer"
  let ?R = "{(a, b) \<in> set pairlist. a \<notin> set answer}"
  have par: "\<forall>x\<in>?A. \<exists>a\<in>?A. (a, x) \<in> ?R" using stuck_parents [OF inv] by blast
  have "\<not> acyclic ?R"
    by (rule all_have_parent_cyclic [OF _ _ par]) (use left in \<open>auto simp: nodes_def\<close>)
  then obtain C where C: "simple_cycle ch C" using cyclic_simple_cycle [of ?R ch] edge by blast
  from find_cycles_result [OF assms(2), of ch] obtain s where s: "find_cycles ord' ch = Inr (cycles s)"
    "search_ok ch s" and all: "\<forall>C. simple_cycle ch C \<longrightarrow> found s C" by (elim exE conjE)
  from all [rule_format, OF C] have "cycles s \<noteq> []" by (auto simp: found_def)
  moreover have "c \<noteq> [] \<and> successively (\<lambda>a b. (a, b) \<in> set pairlist) c \<and> (last c, hd c) \<in> set pairlist"
    if "simple_cycle ch c" for c
    using that edge by (auto simp: simple_cycle_def simple_path_def elim: successively_mono)
  moreover have "\<forall>c\<in>set (cycles s). simple_cycle ch c" using s(2) by (simp add: search_ok_def)
  ultimately show ?thesis
    by (intro exI [of _ "cycles s"]) (simp add: s(1) list_all_iff)
qed

theorem cycle_error_yields_cycles_witness:
  "\<exists>cs. find_cycles rev [(2, [3]), (3, [2 :: nat])] = Inr cs \<and> cs \<noteq> []"
proof -
  have "topsort Python2 rev [(1, 2), (2, 3), (3, 2 :: nat)]
      = Inl (CycleError [1] [(2, 1), (3, 1)] [(2, [3]), (3, [2])])" by code_simp
  from cycle_error_yields_cycles [OF reverse_order.key_order_axioms reverse_order.key_order_axioms this]
  show ?thesis by blast
qed

section \<open>A run of test.py\<close>







lemma execute_job_fields [simp]:
  "is_break (execute_job g exec j) = is_break j" "is_skip (execute_job g exec j) = is_skip j"
  by (simp_all add: execute_job_def finish_job_def split: sum.splits)







end
